(* ===== verification/Go_Prelude.thy ===== *)
theory Go_Prelude
  imports Complex_Main "HOL-Library.Word" "HOL-Library.Multiset"
begin

text \<open>
  Shared vocabulary of the development: how Go values, maps, clocks and strings appear in the
  model, and the generic lemmas the component theories share.

  \<^item> A Go map is a HOL map (\<open>string \<rightharpoonup> 'v\<close>). A \<open>for k := range m\<close> loop visits the keys in an
    order the Go runtime picks; the model takes that order as an argument (\<open>ord\<close>), visits only
    keys that are in the map, and the theorems quantify over it.
  \<^item> A \<open>time.Time\<close> is an integer number of nanoseconds, a \<open>time.Duration\<close> the same; the clock of a
    component is a field of its state, since the code makes it injectable.
  \<^item> An operation that can fail returns \<open>Inl\<close> of its error or \<open>Inr\<close> of its result, beside the new
    state: Go code may change the state and then return an error, and the model keeps that.
  \<^item> A \<open>float64\<close> is a rational: rounding is not modelled (exact for the integers below \<open>2^53\<close>
    that budgets and counters use). A Go \<open>int\<close> counter is an \<open>int\<close>; the fencing token is a
    \<open>64 word\<close>.
\<close>

section \<open>Rule collections\<close>

named_theorems op_defs \<open>definitions of the modelled operations\<close>
named_theorems inv_intros \<open>preservation of component invariants\<close>

section \<open>Types\<close>

type_synonym time = int
type_synonym duration = int
type_synonym u64 = "64 word"

text \<open>The result of an operation: an error or a value, and the new state.\<close>

type_synonym ('e, 'a, 's) outcome = "('e + 'a) \<times> 's"

text \<open>
  The dynamic values the modelled code stores in an \<open>any\<close>: nil, the JSON types, a
  \<open>*CheckpointEnvelope\<close> of package taskfabric (version, profile, payload, experience id, step
  checkpoint), the nil pointer of that type, a \<open>CognitiveState\<close> of package agentfabric (version,
  context, observation, working memory, decision, tool state, checkpoint), and any other Go type,
  of which only the type's name and the value's identity matter. A \<open>map[string]any\<close> is an
  association list without duplicate keys.
\<close>

datatype goval =
    GNil
  | GBool bool
  | GInt int
  | GFloat rat
  | GStr string
  | GList "goval list"
  | GMap "(string \<times> goval) list"
  | GEnvelope int goval "(string \<times> goval) list option" string goval
  | GEnvelopeNil
  | GCognitive int goval goval goval goval goval goval
  | GOpaque string nat

text \<open>Go's conversion \<open>int(v)\<close> of a float64 truncates towards zero.\<close>

definition go_trunc :: "rat \<Rightarrow> int" where
  "go_trunc v = (if 0 \<le> v then \<lfloor>v\<rfloor> else \<lceil>v\<rceil>)"

text \<open>The zero \<open>time.Time\<close>, January 1 of the year 1, on the scale of nanoseconds since 1970.\<close>

definition zero_time :: time where
  "zero_time = -62135596800000000000"

text \<open>An \<open>int64\<close> as the code computes it: sums wrap around.\<close>

definition wrap64 :: "int \<Rightarrow> int" where
  "wrap64 i = (i + 2 ^ 63) mod 2 ^ 64 - 2 ^ 63"

lemma wrap64_id: "- (2 ^ 63) \<le> i \<Longrightarrow> i < 2 ^ 63 \<Longrightarrow> wrap64 i = i"
  by (simp add: wrap64_def)

section \<open>Sorting\<close>

text \<open>
  \<open>sort.Slice\<close> is not stable: for elements neither of which is less, the order it leaves is not
  specified. A definition that sorts takes the sort as an argument, a \<open>slice_sort\<close>.
\<close>

definition slice_sort :: "(('a \<Rightarrow> 'a \<Rightarrow> bool) \<Rightarrow> 'a list \<Rightarrow> 'a list) \<Rightarrow> bool" where
  "slice_sort srt \<longleftrightarrow>
     (\<forall>(key :: 'a \<Rightarrow> int) xs. sorted (map key (srt (\<lambda>x y. key x < key y) xs))
                         \<and> mset (srt (\<lambda>x y. key x < key y) xs) = mset xs)"

text \<open>One such sort: insertion, which the library runs on short slices.\<close>

fun insert_by :: "('a \<Rightarrow> 'a \<Rightarrow> bool) \<Rightarrow> 'a \<Rightarrow> 'a list \<Rightarrow> 'a list" where
  "insert_by lt x [] = [x]"
| "insert_by lt x (y # ys) = (if lt y x then y # insert_by lt x ys else x # y # ys)"

definition insertion_sort :: "('a \<Rightarrow> 'a \<Rightarrow> bool) \<Rightarrow> 'a list \<Rightarrow> 'a list" where
  "insertion_sort lt xs = foldr (insert_by lt) xs []"

lemma mset_insert_by [simp]: "mset (insert_by lt x xs) = add_mset x (mset xs)"
  by (induction xs) auto

lemma set_insert_by [simp]: "set (insert_by lt x xs) = insert x (set xs)"
  by (simp flip: set_mset_mset)

lemma sorted_insert_by:
  "sorted (map key xs) \<Longrightarrow> sorted (map key (insert_by (\<lambda>x y. key x < key y) x xs))" for key :: "'a \<Rightarrow> int"
  by (induction xs) auto

lemma slice_sort_insertion: "slice_sort insertion_sort"
proof -
  have "sorted (map key (insertion_sort (\<lambda>x y. key x < key y) xs))
      \<and> mset (insertion_sort (\<lambda>x y. key x < key y) xs) = mset xs" for key :: "'a \<Rightarrow> int" and xs
    by (induction xs) (auto simp: insertion_sort_def sorted_insert_by)
  then show ?thesis by (simp add: slice_sort_def)
qed

text \<open>Without ties the sort is determined.\<close>

lemma slice_sort_unique:
  fixes key :: "'a \<Rightarrow> int"
  assumes "slice_sort srt" "distinct (map key xs)" "sorted (map key ys)" "mset ys = mset xs"
  shows "srt (\<lambda>x y. key x < key y) xs = ys"
proof -
  let ?r = "srt (\<lambda>x y. key x < key y) xs"
  have r: "sorted (map key ?r)" "mset ?r = mset xs" using assms(1) by (simp_all add: slice_sort_def)
  have "mset (map key ?r) = mset (map key xs)" "mset (map key ys) = mset (map key xs)"
    using r(2) assms(4) by (simp_all only: mset_map)
  then have "distinct (map key ?r)" "distinct (map key ys)"
    using assms(2) mset_eq_imp_distinct_iff by blast+
  moreover have "set ?r = set xs" "set ys = set xs" using r(2) assms(4) by (blast dest: mset_eq_setD)+
  moreover have "inj_on key (set xs)" using assms(2) by (simp add: distinct_map)
  ultimately show ?thesis
    using map_sorted_distinct_set_unique [of key ?r ys] r(1) assms(3) by simp
qed

section \<open>Iterating over a Go map\<close>

text \<open>The keys a \<open>range\<close> loop visits, in the order the runtime chose.\<close>

definition range_keys :: "(string \<rightharpoonup> 'v) \<Rightarrow> string list \<Rightarrow> string list" where
  "range_keys m ord = [k \<leftarrow> ord. m k \<noteq> None]"

text \<open>\<open>ord\<close> is an order in which a \<open>range\<close> over the map can visit it: every key once.\<close>

definition range_order :: "(string \<rightharpoonup> 'v) \<Rightarrow> string list \<Rightarrow> bool" where
  "range_order m ord \<longleftrightarrow> distinct ord \<and> set ord = dom m"

lemma set_range_keys [simp]: "set (range_keys m ord) = set ord \<inter> dom m"
  by (auto simp: range_keys_def)

lemma distinct_range_keys [simp]: "distinct ord \<Longrightarrow> distinct (range_keys m ord)"
  by (simp add: range_keys_def)

lemma range_order_keys: "range_order m ord \<Longrightarrow> range_keys m ord = ord"
  by (auto simp: range_order_def range_keys_def filter_id_conv)

lemma range_order_set: "range_order m ord \<Longrightarrow> k \<in> set ord \<longleftrightarrow> m k \<noteq> None"
  by (auto simp: range_order_def)

lemma range_order_distinct: "range_order m ord \<Longrightarrow> distinct ord"
  by (simp add: range_order_def)

section \<open>Strings\<close>

text \<open>A Go string is its bytes, a \<open>string\<close> of the model one \<open>char\<close> per byte.\<close>

text \<open>
  The encodings of the code points \<open>unicode.IsSpace\<close> accepts: the ASCII ones, U+0085, U+00A0,
  U+1680, U+2000 to U+200A, U+2028, U+2029, U+202F, U+205F and U+3000, as UTF-8.
\<close>

definition space_encodings :: "string list" where
  "space_encodings =
     map (\<lambda>n. [char_of (n :: nat)]) [9, 10, 11, 12, 13, 32]
     @ map (map char_of) [[0xC2, 0x85], [0xC2, 0xA0], [0xE1, 0x9A, 0x80 :: nat]]
     @ map (\<lambda>n. map char_of [0xE2, 0x80, n :: nat]) ([0x80..<0x8B] @ [0xA8, 0xA9, 0xAF])
     @ map (map char_of) [[0xE2, 0x81, 0x9F], [0xE3, 0x80, 0x80 :: nat]]"

fun strip_one :: "string list \<Rightarrow> string \<Rightarrow> string option" where
  "strip_one [] s = None"
| "strip_one (p # ps) s =
     (if p \<noteq> [] \<and> take (length p) s = p then Some (drop (length p) s) else strip_one ps s)"

lemma strip_one_shorter: "strip_one ps s = Some r \<Longrightarrow> length r < length s"
proof (induction ps)
  case (Cons p ps)
  then show ?case
    by (cases s; cases p) (auto split: if_splits)
qed simp

function strip_left :: "string list \<Rightarrow> string \<Rightarrow> string" where
  "strip_left ps s = (case strip_one ps s of None \<Rightarrow> s | Some r \<Rightarrow> strip_left ps r)"
  by pat_completeness auto
termination
  by (relation "measure (\<lambda>(ps, s). length s)") (auto dest: strip_one_shorter)

declare strip_left.simps [simp del]

text \<open>\<open>strings.TrimSpace\<close>: leading and trailing white space off, on both sides.\<close>

definition trim_space :: "string \<Rightarrow> string" where
  "trim_space s =
     rev (strip_left (map rev space_encodings) (rev (strip_left space_encodings s)))"

text \<open>\<open>strings.Split\<close> by one separator byte.\<close>

fun split_on :: "char \<Rightarrow> string \<Rightarrow> string list" where
  "split_on c [] = [[]]"
| "split_on c (x # xs) =
     (if x = c then [] # split_on c xs
      else (case split_on c xs of [] \<Rightarrow> [[x]] | y # ys \<Rightarrow> (x # y) # ys))"

text \<open>\<open>strings.HasPrefix\<close>.\<close>

definition has_prefix :: "string \<Rightarrow> string \<Rightarrow> bool" where
  "has_prefix s p \<longleftrightarrow> take (length p) s = p"

lemma trim_space_empty [simp]: "trim_space [] = []"
proof -
  have "strip_one ps [] = None" for ps by (induction ps) auto
  then show ?thesis by (simp add: trim_space_def strip_left.simps)
qed

lemma split_on_nonempty [simp]: "split_on c s \<noteq> []"
  by (induction s) (auto split: list.splits)

text \<open>A string of visible ASCII characters has nothing to trim.\<close>

definition graphic :: "char \<Rightarrow> bool" where
  "graphic c \<longleftrightarrow> 32 < (of_char c :: nat) \<and> (of_char c :: nat) < 127"

lemma strip_one_None:
  "(\<And>p. p \<in> set ps \<Longrightarrow> p \<noteq> [] \<Longrightarrow> hd p \<noteq> c) \<Longrightarrow> strip_one ps (c # s) = None"
proof (induction ps)
  case (Cons p ps)
  from Cons.prems [of p] have "p \<noteq> [] \<Longrightarrow> take (length p) (c # s) \<noteq> p" by (cases p) auto
  with Cons show ?case by auto
qed simp

lemma strip_left_graphic:
  assumes "\<And>p. p \<in> set ps \<Longrightarrow> p \<noteq> [] \<Longrightarrow> \<not> graphic (hd p)" "list_all graphic s"
  shows "strip_left ps s = s"
proof (cases s)
  case Nil
  have "strip_one ps [] = None" by (induction ps) auto
  then show ?thesis using Nil by (simp add: strip_left.simps)
next
  case (Cons c cs)
  then have "strip_one ps (c # cs) = None" using assms by (intro strip_one_None) auto
  then show ?thesis using Cons by (simp add: strip_left.simps)
qed

lemma space_encodings_ends:
  "p \<in> set space_encodings \<Longrightarrow> \<not> graphic (hd p) \<and> \<not> graphic (last p)"
  by (auto simp: space_encodings_def graphic_def of_char_of take_bit_eq_mod)

lemma trim_space_graphic: "list_all graphic s \<Longrightarrow> trim_space s = s"
proof -
  assume s: "list_all graphic s"
  have "strip_left space_encodings s = s"
    by (rule strip_left_graphic [OF _ s]) (use space_encodings_ends in blast)
  moreover have "strip_left (map rev space_encodings) (rev s) = rev s"
    by (rule strip_left_graphic) (use space_encodings_ends s in \<open>auto simp: hd_rev\<close>)
  ultimately show ?thesis by (simp add: trim_space_def)
qed

text \<open>The verb \<open>%d\<close> on a natural number: its decimal digits.\<close>

fun go_itoa :: "nat \<Rightarrow> string" where
  "go_itoa n = (if n < 10 then [char_of (48 + n)] else go_itoa (n div 10) @ [char_of (48 + n mod 10)])"

declare go_itoa.simps [simp del]

lemma digit_inject: "a < 10 \<Longrightarrow> b < 10 \<Longrightarrow> char_of (48 + a) = (char_of (48 + b) :: char) \<longleftrightarrow> a = b" for a b :: nat
  by (simp add: char_of_eq_iff of_char_of take_bit_eq_mod)

lemma go_itoa_nonempty [simp]: "go_itoa n \<noteq> []" "[] \<noteq> go_itoa n"
  by (subst go_itoa.simps; simp)+

lemma go_itoa_last: "last (go_itoa n) = char_of (48 + n mod 10)"
  by (subst go_itoa.simps) auto

lemma go_itoa_butlast: "butlast (go_itoa n) = (if n < 10 then [] else go_itoa (n div 10))"
  by (subst go_itoa.simps) auto

lemma go_itoa_inject [simp]: "go_itoa m = go_itoa n \<longleftrightarrow> m = n"
proof
  show "go_itoa m = go_itoa n \<Longrightarrow> m = n"
  proof (induction m arbitrary: n rule: less_induct)
    case (less m)
    have last: "m mod 10 = n mod 10"
      using less.prems digit_inject [of "m mod 10" "n mod 10"] go_itoa_last [of m] go_itoa_last [of n] by simp
    have front: "(if m < 10 then [] else go_itoa (m div 10)) = (if n < 10 then [] else go_itoa (n div 10))"
      using less.prems go_itoa_butlast [of m] go_itoa_butlast [of n] by simp
    show "m = n"
    proof (cases "m < 10")
      case True
      then have "n < 10" using front by (auto split: if_splits)
      then show ?thesis using True last by simp
    next
      case False
      then have "\<not> n < 10" "go_itoa (m div 10) = go_itoa (n div 10)" using front by (auto split: if_splits)
      then have "m div 10 = n div 10" using less.IH [of "m div 10"] False by simp
      then show ?thesis using last by (metis div_mult_mod_eq)
    qed
  qed
qed simp

lemma go_itoa_no_dash: "CHR ''-'' \<notin> set (go_itoa n)"
proof (induction n rule: go_itoa.induct)
  case (1 n)
  have digit: "CHR ''-'' \<noteq> char_of (48 + d)" if "d < 10" for d :: nat
  proof
    assume "CHR ''-'' = char_of (48 + d)"
    then have "of_char (CHR ''-'') = (of_char (char_of (48 + d) :: char) :: nat)" by (rule arg_cong)
    then show False using that by (simp add: of_char_of take_bit_eq_mod)
  qed
  show ?case using 1 digit [of n] digit [of "n mod 10"] by (subst go_itoa.simps) simp
qed

text \<open>A name that ends in a dash and a number determines the number.\<close>

lemma numbered_inject: "x @ CHR ''-'' # go_itoa m = y @ CHR ''-'' # go_itoa n \<Longrightarrow> m = n"
proof -
  have *: "takeWhile (\<lambda>c. c \<noteq> CHR ''-'') (rev (x @ CHR ''-'' # go_itoa m)) = rev (go_itoa m)" for x m
  proof -
    have "\<forall>c \<in> set (rev (go_itoa m)). c \<noteq> CHR ''-''" using go_itoa_no_dash [of m] by auto
    then have "takeWhile (\<lambda>c. c \<noteq> CHR ''-'') (rev (go_itoa m) @ CHR ''-'' # rev x)
        = rev (go_itoa m) @ takeWhile (\<lambda>c. c \<noteq> CHR ''-'') (CHR ''-'' # rev x)"
      by (intro takeWhile_append2) blast
    then show ?thesis by simp
  qed
  assume "x @ CHR ''-'' # go_itoa m = y @ CHR ''-'' # go_itoa n"
  then have "rev (go_itoa m) = rev (go_itoa n)" using * [of x m] * [of y n] by metis
  then show "m = n" by simp
qed

text \<open>Lower case, of ASCII letters, and substrings.\<close>

definition ascii_lower :: "char \<Rightarrow> char" where
  "ascii_lower c = (if 65 \<le> (of_char c :: nat) \<and> (of_char c :: nat) \<le> 90 then char_of (of_char c + 32 :: nat) else c)"

fun go_contains :: "string \<Rightarrow> string \<Rightarrow> bool" where
  "go_contains p [] = (p = [])"
| "go_contains p (c # s) = (take (length p) (c # s) = p \<or> go_contains p s)"

section \<open>Lists and sums\<close>

lemma sum_bind_Inr [elim!]:
  assumes "(case x of Inl e \<Rightarrow> (Inl e, s) | Inr y \<Rightarrow> k y) = (Inr r, s')"
  obtains y where "x = Inr y" "k y = (Inr r, s')"
  using assms by (cases x) auto

lemma fold_preserves:
  assumes "P s" and "\<And>x s. x \<in> set xs \<Longrightarrow> P s \<Longrightarrow> P (g x s)"
  shows "P (fold g xs s)"
  using assms by (induction xs arbitrary: s) auto

end
