(* ===== verification/Interfaces.thy ===== *)
theory Interfaces
  imports Go_Prelude
begin

text \<open>
  The contracts the components rely on, as locales: what a sequence of operations keeps
  (\<open>invariant_system\<close>), what it may only extend (\<open>growing_system\<close>), a resource it hands out from a
  fund (\<open>funded_system\<close>), what it passes on without loss (\<open>conserving\<close>, \<open>fifo\<close>), the fencing contract of a
  store that hands out ownership tokens (\<open>fenced_store\<close>), a resource held under a lease
  (\<open>exclusive_holder\<close>) and a store of values by key (\<open>registry\<close>). The lemmas of a contract are
  proved here once; the theory of each provider interprets the locale on its own operations.
\<close>

section \<open>Invariants of sequences of operations\<close>

locale invariant_system =
  fixes exec :: "'op \<Rightarrow> 's \<Rightarrow> 's" and ok :: "'op \<Rightarrow> bool" and inv :: "'s \<Rightarrow> bool"
  assumes exec_inv: "inv s \<Longrightarrow> ok x \<Longrightarrow> inv (exec x s)"
begin

lemma run_inv: "inv s \<Longrightarrow> list_all ok xs \<Longrightarrow> inv (fold exec xs s)"
  by (rule fold_preserves) (auto simp: list_all_iff exec_inv)

lemma run_prefix_inv: "inv s \<Longrightarrow> list_all ok xs \<Longrightarrow> inv (fold exec (take n xs) s)"
  by (rule run_inv) (auto simp: list_all_iff dest: in_set_takeD)

end

section \<open>What operations only extend\<close>

locale growing_system =
  fixes exec :: "'op \<Rightarrow> 's \<Rightarrow> 's" and below :: "'s \<Rightarrow> 's \<Rightarrow> bool"
  assumes below_refl: "below s s"
    and below_trans: "below s t \<Longrightarrow> below t u \<Longrightarrow> below s u"
    and exec_below: "below s (exec x s)"
begin

lemma run_below: "below s (fold exec xs s)"
  by (induction xs arbitrary: s) (auto intro: below_refl below_trans exec_below)

lemma run_prefix_below: "below (fold exec xs s) (fold exec (xs @ ys) s)"
  by (simp add: run_below)

end

section \<open>Step relations\<close>

text \<open>The same for a component whose steps are a relation, because several threads take them.\<close>

locale step_system =
  fixes step :: "'s \<Rightarrow> 's \<Rightarrow> bool" and inv :: "'s \<Rightarrow> bool"
  assumes step_inv: "step s t \<Longrightarrow> inv s \<Longrightarrow> inv t"
begin

lemma reach_inv: "step\<^sup>*\<^sup>* s t \<Longrightarrow> inv s \<Longrightarrow> inv t"
  by (induction rule: rtranclp_induct) (auto intro: step_inv)

lemma reach_stable:
  assumes "step\<^sup>*\<^sup>* s t" "inv s" "P s" "\<And>s t. step s t \<Longrightarrow> inv s \<Longrightarrow> P s \<Longrightarrow> P t"
  shows "P t"
proof -
  have "inv t \<and> P t"
    using assms(1)
  proof (induction rule: rtranclp_induct)
    case base
    show ?case using assms(2,3) by blast
  next
    case (step t u)
    then show ?case using step_inv assms(4) by blast
  qed
  then show ?thesis by blast
qed

end

section \<open>What operations may hand out\<close>

text \<open>The sum of a quantity over the operations of a run, and a condition on each at its state.\<close>

fun total :: "('op \<Rightarrow> 's \<Rightarrow> 's) \<Rightarrow> ('op \<Rightarrow> 's \<Rightarrow> rat) \<Rightarrow> 'op list \<Rightarrow> 's \<Rightarrow> rat" where
  "total exec f [] s = 0"
| "total exec f (x # xs) s = f x s + total exec f xs (exec x s)"

fun along :: "('op \<Rightarrow> 's \<Rightarrow> 's) \<Rightarrow> ('op \<Rightarrow> 's \<Rightarrow> bool) \<Rightarrow> 'op list \<Rightarrow> 's \<Rightarrow> bool" where
  "along exec ok [] s = True"
| "along exec ok (x # xs) s = (ok x s \<and> along exec ok xs (exec x s))"

text \<open>A resource that operations hand out from a fund; the fund is never negative.\<close>

locale funded_system =
  fixes exec :: "'op \<Rightarrow> 's \<Rightarrow> 's" and ok :: "'op \<Rightarrow> 's \<Rightarrow> bool" and inv :: "'s \<Rightarrow> bool"
    and granted :: "'op \<Rightarrow> 's \<Rightarrow> rat" and fund :: "'s \<Rightarrow> rat" and income :: "'op \<Rightarrow> 's \<Rightarrow> rat"
  assumes exec_inv: "inv s \<Longrightarrow> ok x s \<Longrightarrow> inv (exec x s)"
    and exec_fund: "inv s \<Longrightarrow> ok x s \<Longrightarrow> granted x s + fund (exec x s) \<le> fund s + income x s"
    and fund_nonneg: "inv s \<Longrightarrow> 0 \<le> fund s"
begin

lemma run_funded:
  assumes "inv s" "along exec ok xs s"
  shows "inv (fold exec xs s)
    \<and> total exec granted xs s + fund (fold exec xs s) \<le> fund s + total exec income xs s"
  using assms
proof (induction xs arbitrary: s)
  case (Cons x xs)
  then have "inv s" "ok x s" by simp_all
  note step = exec_inv [OF this] exec_fund [OF this]
  with Cons.IH [of "exec x s"] Cons.prems show ?case by auto
qed simp

lemma granted_within: "inv s \<Longrightarrow> along exec ok xs s \<Longrightarrow>
    total exec granted xs s \<le> fund s + total exec income xs s"
  using run_funded [of s xs] fund_nonneg [of "fold exec xs s"] by linarith

end

section \<open>Containers that lose nothing\<close>

text \<open>
  Operations put some elements into a store and take some out of it: nothing is lost or duplicated
  (\<open>conserving\<close>), and in a \<open>fifo\<close> store the elements leave in the order in which they came.
\<close>

fun gathered :: "('op \<Rightarrow> 's \<Rightarrow> 's) \<Rightarrow> ('op \<Rightarrow> 's \<Rightarrow> 'm list) \<Rightarrow> 'op list \<Rightarrow> 's \<Rightarrow> 'm list" where
  "gathered exec f [] s = []"
| "gathered exec f (x # xs) s = f x s @ gathered exec f xs (exec x s)"

locale conserving =
  fixes exec :: "'op \<Rightarrow> 's \<Rightarrow> 's" and ok :: "'op \<Rightarrow> bool" and inv :: "'s \<Rightarrow> bool"
    and stock :: "'s \<Rightarrow> 'm list"
    and put_in :: "'op \<Rightarrow> 's \<Rightarrow> 'm list" and taken :: "'op \<Rightarrow> 's \<Rightarrow> 'm list"
  assumes exec_inv: "inv s \<Longrightarrow> ok x \<Longrightarrow> inv (exec x s)"
    and exec_conserves: "inv s \<Longrightarrow> ok x \<Longrightarrow>
      mset (stock s @ put_in x s) = mset (taken x s @ stock (exec x s))"
begin

lemma run_conserves: "inv s \<Longrightarrow> list_all ok xs \<Longrightarrow>
    mset (stock s @ gathered exec put_in xs s) = mset (gathered exec taken xs s @ stock (fold exec xs s))"
proof (induction xs arbitrary: s)
  case (Cons x xs)
  then have s: "inv (exec x s)" "mset (stock s @ put_in x s) = mset (taken x s @ stock (exec x s))"
    using exec_inv exec_conserves by simp_all
  have "mset (stock s @ gathered exec put_in (x # xs) s)
      = mset (stock s @ put_in x s) + mset (gathered exec put_in xs (exec x s))" by simp
  also have "\<dots> = mset (taken x s) + mset (stock (exec x s) @ gathered exec put_in xs (exec x s))"
    unfolding s(2) by simp
  also have "mset (stock (exec x s) @ gathered exec put_in xs (exec x s))
      = mset (gathered exec taken xs (exec x s) @ stock (fold exec xs (exec x s)))"
    using Cons.IH [OF s(1)] Cons.prems by simp
  finally show ?case by simp
qed simp

end

locale fifo =
  fixes exec :: "'op \<Rightarrow> 's \<Rightarrow> 's" and ok :: "'op \<Rightarrow> bool" and inv :: "'s \<Rightarrow> bool"
    and stock :: "'s \<Rightarrow> 'm list"
    and put_in :: "'op \<Rightarrow> 's \<Rightarrow> 'm list" and taken :: "'op \<Rightarrow> 's \<Rightarrow> 'm list"
  assumes exec_keeps: "inv s \<Longrightarrow> ok x \<Longrightarrow> inv (exec x s)"
    and exec_order: "inv s \<Longrightarrow> ok x \<Longrightarrow> stock s @ put_in x s = taken x s @ stock (exec x s)"
begin

lemma run_order: "inv s \<Longrightarrow> list_all ok xs \<Longrightarrow>
    stock s @ gathered exec put_in xs s = gathered exec taken xs s @ stock (fold exec xs s)"
proof (induction xs arbitrary: s)
  case (Cons x xs)
  then have s: "inv (exec x s)" "stock s @ put_in x s = taken x s @ stock (exec x s)"
    using exec_keeps exec_order by simp_all
  have "stock s @ gathered exec put_in (x # xs) s
      = (stock s @ put_in x s) @ gathered exec put_in xs (exec x s)" by simp
  also have "\<dots> = taken x s @ stock (exec x s) @ gathered exec put_in xs (exec x s)"
    unfolding s(2) by simp
  also have "stock (exec x s) @ gathered exec put_in xs (exec x s)
      = gathered exec taken xs (exec x s) @ stock (fold exec xs (exec x s))"
    using Cons.IH [OF s(1)] Cons.prems by simp
  finally show ?case by simp
qed simp

end

sublocale fifo \<subseteq> conserving exec ok inv stock put_in taken
  by unfold_locales (simp_all only: exec_keeps exec_order)

section \<open>Fenced ownership\<close>

text \<open>
  A store whose keys carry at most one current token each. Tokens come from a bounded counter:
  \<open>budget\<close> bounds how many operations can run before it wraps.
\<close>

locale fenced_store =
  fixes exec :: "'op \<Rightarrow> 's \<Rightarrow> 's" and inv :: "'s \<Rightarrow> bool" and budget :: "'s \<Rightarrow> nat"
    and current :: "'s \<Rightarrow> 'k \<Rightarrow> 'tok option" and issued :: "'s \<Rightarrow> 'tok \<Rightarrow> bool"
  assumes exec_inv: "inv s \<Longrightarrow> 0 < budget s \<Longrightarrow> inv (exec x s)"
    and exec_budget: "inv s \<Longrightarrow> 0 < budget s \<Longrightarrow> budget s \<le> Suc (budget (exec x s))"
    and exec_issued: "inv s \<Longrightarrow> 0 < budget s \<Longrightarrow> issued s tok \<Longrightarrow> issued (exec x s) tok"
    and current_issued: "inv s \<Longrightarrow> current s k = Some tok \<Longrightarrow> issued s tok"
    and exec_fresh: "inv s \<Longrightarrow> 0 < budget s \<Longrightarrow> current (exec x s) k = Some tok \<Longrightarrow>
      current s k = Some tok \<or> \<not> issued s tok"
    and current_inj: "inv s \<Longrightarrow> current s k = Some tok \<Longrightarrow> current s k' = Some tok \<Longrightarrow> k = k'"
begin

lemma run_keeps:
  assumes "inv s" "length xs \<le> budget s"
  shows "inv (fold exec xs s) \<and> budget s \<le> length xs + budget (fold exec xs s)"
  using assms
proof (induction xs arbitrary: s)
  case (Cons x xs)
  then have "0 < budget s" by simp
  with Cons.prems exec_inv exec_budget have "inv (exec x s)" "budget s \<le> Suc (budget (exec x s))"
    by blast+
  with Cons.IH [of "exec x s"] Cons.prems show ?case by simp
qed simp

lemma run_inv: "inv s \<Longrightarrow> length xs \<le> budget s \<Longrightarrow> inv (fold exec xs s)"
  using run_keeps by blast

lemma run_issued:
  "inv s \<Longrightarrow> length xs \<le> budget s \<Longrightarrow> issued s tok \<Longrightarrow> issued (fold exec xs s) tok"
proof (induction xs arbitrary: s)
  case (Cons x xs)
  then have pos: "0 < budget s" by simp
  show ?case
    using Cons.IH [of "exec x s"] Cons.prems exec_inv [OF _ pos] exec_budget [OF _ pos]
      exec_issued [OF _ pos] by (metis Suc_le_mono fold_simps(2) length_Cons order_trans)
qed simp

lemma run_stale:
  assumes "inv s" "length xs \<le> budget s" "issued s tok" "current s k \<noteq> Some tok"
  shows "issued (fold exec xs s) tok \<and> current (fold exec xs s) k \<noteq> Some tok"
  using assms
proof (induction xs arbitrary: s)
  case (Cons x xs)
  then have pos: "0 < budget s" by simp
  show ?case
    using Cons.IH [of "exec x s"] Cons.prems exec_inv [OF _ pos] exec_budget [OF _ pos]
      exec_issued [OF _ pos] exec_fresh [OF _ pos]
    by (metis Suc_le_mono fold_simps(2) length_Cons order_trans)
qed simp

text \<open>A token that was ever superseded stays superseded; a token moves to no other key.\<close>

lemma superseded_forever:
  assumes "inv s" "length xs + length ys \<le> budget s" "current s k = Some tok"
    "current (fold exec xs s) k \<noteq> Some tok"
  shows "current (fold exec (xs @ ys) s) k \<noteq> Some tok"
proof -
  have keeps: "inv (fold exec xs s)" "length ys \<le> budget (fold exec xs s)"
    using run_keeps [of s xs] assms by auto
  have "issued (fold exec xs s) tok"
    using run_issued [of s xs tok] current_issued assms by auto
  from run_stale [OF keeps this assms(4)] show ?thesis by simp
qed

end

section \<open>Exclusive holders\<close>

text \<open>
  A resource held under a lease: \<open>held s k h\<close> says that \<open>h\<close> is the running hold on \<open>k\<close>, and \<open>spares\<close>
  names the operations that must not disturb it.
\<close>

locale exclusive_holder =
  fixes exec :: "'op \<Rightarrow> 's \<Rightarrow> 's" and held :: "'s \<Rightarrow> 'k \<Rightarrow> 'h \<Rightarrow> bool"
    and spares :: "'k \<Rightarrow> 'h \<Rightarrow> 'op \<Rightarrow> bool"
  assumes exec_held: "held s k h \<Longrightarrow> spares k h x \<Longrightarrow> held (exec x s) k h"
    and held_unique: "held s k h \<Longrightarrow> held s k h' \<Longrightarrow> h = h'"
begin

lemma run_held: "held s k h \<Longrightarrow> list_all (spares k h) xs \<Longrightarrow> held (fold exec xs s) k h"
  by (rule fold_preserves) (auto simp: list_all_iff exec_held)

lemma run_held_unique:
  "held s k h \<Longrightarrow> list_all (spares k h) xs \<Longrightarrow> held (fold exec xs s) k h' \<Longrightarrow> h' = h"
  using run_held held_unique by blast

end

section \<open>Registries\<close>

text \<open>A store of values by key, with the keys it accepts.\<close>

locale registry =
  fixes lookup :: "'s \<Rightarrow> 'k \<Rightarrow> 'v option" and put :: "'k \<Rightarrow> 'v \<Rightarrow> 's \<Rightarrow> 's" and remove :: "'k \<Rightarrow> 's \<Rightarrow> 's"
    and accepts :: "'k \<Rightarrow> bool"
  assumes lookup_put: "accepts k \<Longrightarrow> lookup (put k v s) j = (if j = k then Some v else lookup s j)"
    and lookup_remove: "accepts k \<Longrightarrow> lookup (remove k s) j = (if j = k then None else lookup s j)"
begin

lemma lookup_put_same: "accepts k \<Longrightarrow> lookup (put k v s) k = Some v"
  by (simp add: lookup_put)

lemma lookup_put_remove: "accepts k \<Longrightarrow> lookup (remove k (put k v s)) j = (if j = k then None else lookup s j)"
  by (simp add: lookup_put lookup_remove)

lemma lookup_last_put: "accepts k \<Longrightarrow> lookup (put k v (put k w s)) j = lookup (put k v s) j"
  by (simp add: lookup_put)

text \<open>A list of registrations under accepted keys: the last one for a key wins.\<close>

lemma lookup_put_all:
  "list_all (accepts \<circ> fst) kvs \<Longrightarrow>
   lookup (fold (\<lambda>(k, v). put k v) kvs s) j =
     (case map_of (rev kvs) j of Some v \<Rightarrow> Some v | None \<Rightarrow> lookup s j)"
  by (induction kvs rule: rev_induct) (auto simp: lookup_put split: option.splits)

end

end
