(* ===== verification/Task_State.thy ===== *)
theory Task_State
  imports Go_Prelude
begin

text \<open>
  Package \<open>internal/taskfabric\<close>, the data: task states and the legal transitions (\<open>state.go\<close>), the
  lease (\<open>lease.go\<close>), the task and its retry policy (\<open>task.go\<close>), the lifecycle events
  (\<open>events.go\<close>) and which of them must be persisted (\<open>fabric.go\<close>).
\<close>

section \<open>Errors\<close>

text \<open>
  The sentinel errors of \<open>fabric.go\<close>, and the three errors the operations build in place: an empty
  task id, an empty agent id, a lease time to live that is not positive.
\<close>

datatype fabric_error =
    ErrTaskNotFound
  | ErrNotOwner
  | ErrTaskUndeletable
  | ErrEpochMismatch
  | ErrIllegalState
  | ErrTaskNotReady
  | ErrTaskExists
  | ErrNoCapableCandidate
  | ErrTaskIdRequired
  | ErrAgentIdRequired
  | ErrRenewTtl

section \<open>States and transitions\<close>

datatype task_state =
    StateReady
  | StateLeased
  | StateRunning
  | StateSuspended
  | StateCompleted
  | StateFailed

fun can_transition :: "task_state \<Rightarrow> task_state \<Rightarrow> bool" where
  "can_transition StateReady s = (s = StateLeased)"
| "can_transition StateLeased s = (s = StateRunning \<or> s = StateReady)"
| "can_transition StateRunning s =
     (s = StateCompleted \<or> s = StateFailed \<or> s = StateSuspended \<or> s = StateReady)"
| "can_transition StateSuspended s = (s = StateLeased \<or> s = StateReady)"
| "can_transition _ s = False"

section \<open>Leases\<close>

record lease =
  l_owner :: string
  l_expires :: time
  l_epoch :: u64

definition is_expired :: "lease \<Rightarrow> time \<Rightarrow> bool" where
  "is_expired l now \<longleftrightarrow> \<not> l_expires l > now"

definition new_lease :: "time \<Rightarrow> string \<Rightarrow> duration \<Rightarrow> u64 \<Rightarrow> lease" where
  "new_lease now ow ttl ep = \<lparr>l_owner = ow, l_expires = now + ttl, l_epoch = ep\<rparr>"

section \<open>Tasks\<close>

record retry_policy =
  rp_max :: int
  rp_attempts :: int

record task =
  t_id :: string
  t_capability :: string
  t_state :: task_state
  t_priority :: int
  t_owner :: string
  t_lease :: "lease option"
  t_checkpoint :: goval
  t_deps :: "string list"
  t_deadline :: time
  t_retry :: retry_policy
  t_origin :: string

definition can_retry :: "task \<Rightarrow> bool" where
  "can_retry t \<longleftrightarrow> rp_max (t_retry t) \<le> 0 \<or> rp_attempts (t_retry t) < rp_max (t_retry t)"

definition transition :: "task \<Rightarrow> task_state \<Rightarrow> fabric_error + task" where
  "transition t s =
     (if \<not> can_transition (t_state t) s then Inl ErrIllegalState else Inr (t\<lparr>t_state := s\<rparr>))"

lemma transition_Inr [simp]:
  "transition t s = Inr t' \<longleftrightarrow> can_transition (t_state t) s \<and> t' = t\<lparr>t_state := s\<rparr>"
  by (auto simp: transition_def)

lemma transition_Inl [simp]:
  "transition t s = Inl e \<longleftrightarrow> \<not> can_transition (t_state t) s \<and> e = ErrIllegalState"
  by (auto simp: transition_def)

section \<open>Lifecycle events\<close>

datatype event_type =
    EventTaskCreated
  | EventTaskReady
  | EventTaskAcquired
  | EventTaskStarted
  | EventTaskYielded
  | EventTaskCheckpointed
  | EventTaskPreempted
  | EventTaskReleased
  | EventTaskCompleted
  | EventTaskFailed
  | EventTaskExpired
  | EventTaskStolen

record task_event =
  e_type :: event_type
  e_task :: string
  e_agent :: string
  e_origin :: string
  e_state :: task_state
  e_checkpoint :: goval
  e_at :: time

fun is_must_persist :: "event_type \<Rightarrow> bool" where
  "is_must_persist EventTaskCreated = True"
| "is_must_persist EventTaskCheckpointed = True"
| "is_must_persist EventTaskCompleted = True"
| "is_must_persist EventTaskFailed = True"
| "is_must_persist EventTaskExpired = True"
| "is_must_persist _ = False"

end
