(* ===== verification/Task_Scheduler.thy ===== *)
theory Task_Scheduler
  imports Go_Prelude
begin

text \<open>
  Package \<open>internal/taskfabric\<close>, \<open>scheduler.go\<close>: the capability-aware score of a candidate and the
  choice of the best one, with the fallback tier that ignores confidence. Loads, confidences and
  priorities are \<open>float64\<close> in the code and rationals here.
\<close>

section \<open>Candidates and scores\<close>

record candidate =
  c_agent :: string
  c_caps :: "string list"
  c_load :: rat
  c_conf :: rat
  c_prio :: rat

definition clamp01 :: "rat \<Rightarrow> rat" where
  "clamp01 v = max 0 (min 1 v)"

text \<open>The required segments: split at \<open>/\<close>, trimmed, empty ones dropped.\<close>

definition capability_segments :: "string \<Rightarrow> string list" where
  "capability_segments req = [p \<leftarrow> map trim_space (split_on (CHR ''/'') req). p \<noteq> []]"

definition segment_covered :: "string \<Rightarrow> string list \<Rightarrow> bool" where
  "segment_covered r have \<longleftrightarrow> (\<exists>h \<in> set have. h = r \<or> has_prefix h (r @ ''/''))"

definition capability_overlap :: "string \<Rightarrow> string list \<Rightarrow> rat" where
  "capability_overlap req have =
     (if trim_space req = [] then 1
      else (let rs = capability_segments req in
        if rs = [] then 0
        else of_nat (length [r \<leftarrow> rs. segment_covered r have]) / of_nat (length rs)))"

definition score :: "string \<Rightarrow> candidate \<Rightarrow> rat" where
  "score cap c =
     (let overlap = capability_overlap cap (c_caps c) in
      if overlap \<le> 0 then 0
      else overlap * (1 - clamp01 (c_load c)) * clamp01 (c_conf c)
             * (if c_prio c > 0 then 1 + c_prio c else 1))"

text \<open>The fallback score of \<open>Pick\<close>: the same factors without the confidence.\<close>

definition resort_score :: "string \<Rightarrow> candidate \<Rightarrow> rat" where
  "resort_score cap c =
     (let overlap = capability_overlap cap (c_caps c) in
      if overlap \<le> 0 then 0
      else overlap * (1 - clamp01 (c_load c)) * (if c_prio c > 0 then 1 + c_prio c else 1))"

text \<open>
  One pass of the loop of \<open>Pick\<close> over a candidate: the best so far with its score, and the last
  resort so far with its score (\<open>continue\<close> is the branch that leaves the second pair alone).
\<close>

type_synonym pick_state = "(candidate \<times> rat) option \<times> (candidate \<times> rat) option"

definition pick_step :: "string \<Rightarrow> candidate \<Rightarrow> pick_state \<Rightarrow> pick_state" where
  "pick_step cap c st =
     (let s = score cap c;
          best = (case fst st of
                    None \<Rightarrow> if s > 0 then Some (c, s) else None
                  | Some (b, bs) \<Rightarrow> if s > 0 \<and> s > bs then Some (c, s) else Some (b, bs));
          fb = resort_score cap c;
          resort = (if fb \<le> 0 then snd st
                    else (case snd st of
                            None \<Rightarrow> Some (c, fb)
                          | Some (r, rs) \<Rightarrow> if fb > rs then Some (c, fb) else Some (r, rs)))
      in (best, resort))"

definition pick :: "string \<Rightarrow> candidate list \<Rightarrow> candidate option" where
  "pick cap cs =
     (case fold (pick_step cap) cs (None, None) of
        (Some (b, _), _) \<Rightarrow> Some b
      | (None, Some (r, _)) \<Rightarrow> Some r
      | (None, None) \<Rightarrow> None)"

section \<open>Bounds\<close>

lemma clamp01_ge0 [simp]: "0 \<le> clamp01 v"
  by (simp add: clamp01_def)

lemma clamp01_le1 [simp]: "clamp01 v \<le> 1"
  by (simp add: clamp01_def)

lemma capability_overlap_ge0 [simp]: "0 \<le> capability_overlap req have"
  by (simp add: capability_overlap_def Let_def)

lemma capability_overlap_le1 [simp]: "capability_overlap req have \<le> 1"
proof -
  have "length [r \<leftarrow> rs. segment_covered r have] \<le> length rs" for rs :: "string list"
    by (rule length_filter_le)
  then show ?thesis
    by (auto simp: capability_overlap_def Let_def divide_le_eq_1)
qed

abbreviation boost :: "candidate \<Rightarrow> rat" where
  "boost c \<equiv> 1 + max 0 (c_prio c)"

lemma boost_eq: "(if c_prio c > 0 then 1 + c_prio c else 1) = boost c"
  by (simp add: max_def)

lemma score_eq:
  "score cap c =
     capability_overlap cap (c_caps c) * (1 - clamp01 (c_load c)) * clamp01 (c_conf c) * boost c"
  using capability_overlap_ge0 [of cap "c_caps c"]
  by (auto simp: score_def Let_def boost_eq not_less dest!: antisym)

lemma resort_score_eq:
  "resort_score cap c =
     capability_overlap cap (c_caps c) * (1 - clamp01 (c_load c)) * boost c"
  using capability_overlap_ge0 [of cap "c_caps c"]
  by (auto simp: resort_score_def Let_def boost_eq not_less dest!: antisym)

lemma score_resort: "score cap c = resort_score cap c * clamp01 (c_conf c)"
  by (simp add: score_eq resort_score_eq ac_simps)

lemma resort_score_ge0 [simp]: "0 \<le> resort_score cap c"
  by (simp add: resort_score_eq)

lemma score_ge0 [simp]: "0 \<le> score cap c"
  by (simp add: score_resort)

lemma score_le_resort: "score cap c \<le> resort_score cap c"
  by (simp add: score_resort mult_left_le)

section \<open>What the loop of Pick computes\<close>

text \<open>
  \<open>best_of f cs\<close> describes an optimum of a loop that keeps the first candidate with the strictly
  greatest positive value of \<open>f\<close>.
\<close>

definition best_of :: "(candidate \<Rightarrow> rat) \<Rightarrow> candidate list \<Rightarrow> (candidate \<times> rat) option \<Rightarrow> bool"
  where
  "best_of f cs r \<longleftrightarrow>
     (case r of
        None \<Rightarrow> \<forall>c \<in> set cs. f c \<le> 0
      | Some (b, v) \<Rightarrow>
          v = f b \<and> v > 0 \<and> (\<forall>c \<in> set cs. f c \<le> v)
          \<and> (\<exists>xs ys. cs = xs @ b # ys \<and> (\<forall>c \<in> set xs. f c < v)))"

lemma best_of_snoc_keep:
  "best_of f cs r \<Longrightarrow> (case r of None \<Rightarrow> f c \<le> 0 | Some (b, v) \<Rightarrow> f c \<le> v) \<Longrightarrow>
   best_of f (cs @ [c]) r"
  by (cases r) (force simp: best_of_def)+

lemma best_of_snoc_new:
  assumes "best_of f cs r" "f c > 0" "case r of None \<Rightarrow> True | Some (b, v) \<Rightarrow> v < f c"
  shows "best_of f (cs @ [c]) (Some (c, f c))"
proof -
  have "\<forall>x \<in> set cs. f x < f c"
    using assms by (cases r) (force simp: best_of_def)+
  then show ?thesis using assms(2) by (force simp: best_of_def)
qed

lemma pick_fold:
  "best_of (score cap) cs (fst (fold (pick_step cap) cs (None, None)))
   \<and> best_of (resort_score cap) cs (snd (fold (pick_step cap) cs (None, None)))"
proof (induction cs rule: rev_induct)
  case Nil
  show ?case by (simp add: best_of_def)
next
  case (snoc c cs)
  obtain b r where st: "fold (pick_step cap) cs (None, None) = (b, r)" by fastforce
  with snoc.IH have b: "best_of (score cap) cs b" and r: "best_of (resort_score cap) cs r"
    by auto
  have "best_of (score cap) (cs @ [c]) (fst (pick_step cap c (b, r)))"
  proof (cases b)
    case None
    with b show ?thesis
      using best_of_snoc_keep [OF b, of c] best_of_snoc_new [OF b, of c]
      by (auto simp: pick_step_def Let_def)
  next
    case (Some p)
    obtain a v where [simp]: "p = (a, v)" by (cases p)
    from b Some have "v > 0" by (simp add: best_of_def)
    with Some show ?thesis
      using best_of_snoc_keep [OF b, of c] best_of_snoc_new [OF b, of c]
      by (auto simp: pick_step_def Let_def)
  qed
  moreover have "best_of (resort_score cap) (cs @ [c]) (snd (pick_step cap c (b, r)))"
  proof (cases r)
    case None
    with r show ?thesis
      using best_of_snoc_keep [OF r, of c] best_of_snoc_new [OF r, of c]
      by (auto simp: pick_step_def Let_def)
  next
    case (Some p)
    obtain a v where [simp]: "p = (a, v)" by (cases p)
    from r Some have "v > 0" by (simp add: best_of_def)
    with Some show ?thesis
      using best_of_snoc_keep [OF r, of c] best_of_snoc_new [OF r, of c]
      by (auto simp: pick_step_def Let_def)
  qed
  ultimately show ?case by (simp add: st)
qed

lemma pick_cases:
  obtains (best) b where "pick cap cs = Some b" "best_of (score cap) cs (Some (b, score cap b))"
  | (resort) r where "pick cap cs = Some r" "\<forall>c \<in> set cs. score cap c = 0"
      "best_of (resort_score cap) cs (Some (r, resort_score cap r))"
  | (none) "pick cap cs = None" "\<forall>c \<in> set cs. resort_score cap c = 0"
proof -
  obtain b r where st: "fold (pick_step cap) cs (None, None) = (b, r)" by fastforce
  have B: "best_of (score cap) cs b" and R: "best_of (resort_score cap) cs r"
    using pick_fold [of cap cs] by (simp_all add: st)
  have z: "\<forall>c \<in> set cs. score cap c = 0" if "b = None"
    using B that by (auto simp: best_of_def intro!: antisym [OF _ score_ge0])
  show thesis
  proof (cases b)
    case (Some p)
    then show thesis
      using B best [of "fst p"] by (cases p) (auto simp: pick_def st best_of_def)
  next
    case None
    show thesis
    proof (cases r)
      case (Some p)
      then show thesis
        using R None z resort [of "fst p"] by (cases p) (auto simp: pick_def st best_of_def)
    next
      case None
      with R have "\<forall>c \<in> set cs. resort_score cap c = 0"
        by (auto simp: best_of_def intro!: antisym [OF _ resort_score_ge0])
      with None \<open>b = None\<close> show thesis by (intro none) (simp_all add: pick_def st)
    qed
  qed
qed

lemma pick_in: "pick cap cs = Some c \<Longrightarrow> c \<in> set cs"
  by (cases rule: pick_cases [of cap cs]) (auto simp: best_of_def)

lemma pick_None_iff: "pick cap cs = None \<longleftrightarrow> (\<forall>c \<in> set cs. resort_score cap c = 0)"
proof (cases rule: pick_cases [of cap cs])
  case (best b)
  then have "b \<in> set cs" "resort_score cap b > 0"
    using score_le_resort [of cap b] by (auto simp: best_of_def)
  with best show ?thesis by (auto intro!: bexI [of _ b])
next
  case (resort r)
  then have "r \<in> set cs" "resort_score cap r > 0"
    by (auto simp: best_of_def)
  with resort show ?thesis by (auto intro!: bexI [of _ r])
qed simp

text \<open>A positive score anywhere makes the winner a maximum of the score.\<close>

lemma pick_score_max:
  assumes "pick cap cs = Some b" "\<exists>c\<in>set cs. 0 < score cap c"
  shows "\<forall>d\<in>set cs. score cap d \<le> score cap b"
  using assms by (cases rule: pick_cases [of cap cs]) (auto simp: best_of_def)

section \<open>Properties of the placement\<close>

text \<open>\<open>Pick\<close> places work exactly when somebody can take it, and never at random: it returns
  nothing only if every candidate covers no segment of the capability or is fully loaded; otherwise
  it returns the first candidate with the greatest score, or, when every score is zero (all
  confidences unknown), the first with the greatest overlap, load and priority product.\<close>

theorem pick_optimal:
  "case pick cap cs of
     None \<Rightarrow> \<forall>c\<in>set cs. capability_overlap cap (c_caps c) = 0 \<or> c_load c \<ge> 1
   | Some b \<Rightarrow> \<exists>xs ys. cs = xs @ b # ys \<and>
       (if \<exists>c\<in>set cs. 0 < score cap c
        then (\<forall>c\<in>set cs. score cap c \<le> score cap b) \<and> (\<forall>c\<in>set xs. score cap c < score cap b)
        else (\<forall>c\<in>set cs. resort_score cap c \<le> resort_score cap b)
          \<and> (\<forall>c\<in>set xs. resort_score cap c < resort_score cap b))"
proof (cases rule: pick_cases [of cap cs])
  case none
  have "capability_overlap cap (c_caps c) = 0 \<or> c_load c \<ge> 1" if "resort_score cap c = 0" for c
    using that by (auto simp: resort_score_eq clamp01_def split: if_splits)
  with none show ?thesis by auto
qed (force simp: best_of_def)+

lemmas overlap_defs = capability_overlap_def capability_segments_def segment_covered_def
  has_prefix_def trim_space_graphic graphic_def

lemma pick_optimal_witness: "capability_overlap ''go'' [''sql'', ''c''] = 0"
proof -
  let ?c = "\<lparr>c_agent = ''a'', c_caps = [''sql'', ''c''], c_load = 0, c_conf = 1, c_prio = 2\<rparr>"
  have "pick ''go'' [?c] = None"
    by (simp add: pick_def pick_step_def Let_def score_eq resort_score_eq overlap_defs)
  with pick_optimal [where cap = "''go''" and cs = "[?c]"] show ?thesis by simp
qed

text \<open>A candidate that declares exactly the required chain covers only half of it: the segments are
  compared one by one with the whole declared capability.\<close>

lemma exact_chain_half_covered:
  "capability_overlap ''rust/unsafe'' [''rust/unsafe''] = 1 / 2"
  by (simp add: overlap_defs)

text \<open>A score is never negative, never above the candidate's priority boost, and zero exactly
  for a candidate that covers nothing, is fully loaded, or has no confidence.\<close>

theorem score_bounds:
  "0 \<le> score cap c \<and> score cap c \<le> 1 + max 0 (c_prio c)
   \<and> (score cap c = 0 \<longleftrightarrow> capability_overlap cap (c_caps c) = 0 \<or> c_load c \<ge> 1 \<or> c_conf c \<le> 0)"
proof -
  have "capability_overlap cap (c_caps c) * (1 - clamp01 (c_load c)) * clamp01 (c_conf c) \<le> 1 * 1 * 1"
    by (intro mult_mono) auto
  then have "score cap c \<le> 1 * boost c"
    unfolding score_eq by (intro mult_right_mono) auto
  then show ?thesis
    by (auto simp: score_eq clamp01_def split: if_splits)
qed

end
