(* ===== verification/Checkpoint_Schema.thy ===== *)
theory Checkpoint_Schema
  imports Go_Prelude
begin

text \<open>
  Package \<open>internal/taskfabric\<close>, \<open>checkpoint_schema.go\<close>: the versioned checkpoint envelope, its single
  decoding path, its encoding, and the form the envelope takes after a JSON round trip.
\<close>

datatype checkpoint_error = ErrCheckpointSchemaVersion

definition current_checkpoint_schema_version :: int where
  "current_checkpoint_schema_version = 1"

record decoded_checkpoint =
  dc_profile :: goval
  dc_payload :: "(string \<times> goval) list option"
  dc_experience :: string
  dc_step :: goval
  dc_version :: int

definition zero_decoded :: decoded_checkpoint where
  "zero_decoded =
     \<lparr>dc_profile = GNil, dc_payload = None, dc_experience = '''', dc_step = GNil, dc_version = 0\<rparr>"

text \<open>The type switch on \<open>m["schema_version"]\<close>: a float64 is truncated, an int taken, else 0.\<close>

fun schema_version_of :: "goval \<Rightarrow> int" where
  "schema_version_of (GFloat v) = go_trunc v"
| "schema_version_of (GInt v) = v"
| "schema_version_of _ = 0"

definition decode_envelope_map :: "(string \<times> goval) list \<Rightarrow> goval \<Rightarrow> checkpoint_error + decoded_checkpoint"
  where
  "decode_envelope_map m sv =
     (let version = schema_version_of sv in
      if version > current_checkpoint_schema_version then Inl ErrCheckpointSchemaVersion
      else Inr \<lparr>
        dc_profile = (case map_of m ''user_profile'' of Some up \<Rightarrow> up | None \<Rightarrow> GNil),
        dc_payload = (case map_of m ''payload'' of Some (GMap p) \<Rightarrow> Some p | _ \<Rightarrow> None),
        dc_experience = (case map_of m ''used_experience_id'' of Some (GStr eid) \<Rightarrow> eid | _ \<Rightarrow> ''''),
        dc_step = (case map_of m ''step_checkpoint'' of Some sc \<Rightarrow> sc | None \<Rightarrow> GNil),
        dc_version = version\<rparr>)"

fun decode_checkpoint :: "goval \<Rightarrow> checkpoint_error + decoded_checkpoint" where
  "decode_checkpoint GNil = Inr zero_decoded"
| "decode_checkpoint (GEnvelope v up p eid sc) =
     (if v > current_checkpoint_schema_version then Inl ErrCheckpointSchemaVersion
      else Inr \<lparr>dc_profile = up, dc_payload = p, dc_experience = eid, dc_step = sc,
                dc_version = v\<rparr>)"
| "decode_checkpoint (GMap m) =
     (case map_of m ''schema_version'' of
        Some sv \<Rightarrow> decode_envelope_map m sv
      | None \<Rightarrow> Inr (zero_decoded\<lparr>dc_step := GMap m\<rparr>))"
| "decode_checkpoint cp = Inr (zero_decoded\<lparr>dc_step := cp\<rparr>)"

definition encode_checkpoint :: "decoded_checkpoint \<Rightarrow> goval" where
  "encode_checkpoint dc =
     GEnvelope current_checkpoint_schema_version (dc_profile dc) (dc_payload dc)
       (dc_experience dc) (dc_step dc)"

section \<open>The JSON form\<close>

text \<open>
  What \<open>json.Marshal\<close> followed by \<open>json.Unmarshal\<close> into an \<open>any\<close> makes of a value: numbers come back
  as float64, an envelope comes back as a map under its field tags, without the \<open>omitempty\<close> fields
  that are nil, an empty map or an empty string. Strings are valid UTF-8. A value of any other Go
  type is mapped by the parameter \<open>other\<close> (its own marshaller is not part of this package).
\<close>

primrec json_reload :: "(string \<Rightarrow> nat \<Rightarrow> goval) \<Rightarrow> goval \<Rightarrow> goval" where
  "json_reload other GNil = GNil"
| "json_reload other (GBool b) = GBool b"
| "json_reload other (GInt i) = GFloat (of_int i)"
| "json_reload other (GFloat r) = GFloat r"
| "json_reload other (GStr s) = GStr s"
| "json_reload other (GList vs) = GList (map (json_reload other) vs)"
| "json_reload other (GMap kvs) = GMap (map (map_prod id (json_reload other)) kvs)"
| "json_reload other (GEnvelope v up p eid sc) = GMap (
     [(''schema_version'', GFloat (of_int v))]
     @ (if up = GNil then [] else [(''user_profile'', json_reload other up)])
     @ (case map_option (map (map_prod id (json_reload other))) p of
          Some (x # xs) \<Rightarrow> [(''payload'', GMap (x # xs))] | _ \<Rightarrow> [])
     @ (if eid = '''' then [] else [(''used_experience_id'', GStr eid)])
     @ (if sc = GNil then [] else [(''step_checkpoint'', json_reload other sc)]))"
| "json_reload other GEnvelopeNil = GNil"
| "json_reload other (GCognitive v c ob w d t cp) = GMap
     [(''SchemaVersion'', GFloat (of_int v)), (''Context'', json_reload other c),
      (''Observation'', json_reload other ob), (''WorkingMemory'', json_reload other w),
      (''Decision'', json_reload other d), (''ToolState'', json_reload other t),
      (''Checkpoint'', json_reload other cp)]"
| "json_reload other (GOpaque ty n) = other ty n"

text \<open>
  \<open>MarshalCheckpoint\<close>: the document it writes, as a reader of the JSON gets it back. An envelope is
  written as it is, anything else is wrapped first.
\<close>

fun is_envelope :: "goval \<Rightarrow> bool" where
  "is_envelope (GEnvelope v up p eid sc) = True"
| "is_envelope GEnvelopeNil = True"
| "is_envelope _ = False"

definition marshal_checkpoint :: "(string \<Rightarrow> nat \<Rightarrow> goval) \<Rightarrow> goval \<Rightarrow> checkpoint_error + goval" where
  "marshal_checkpoint other cp =
     (if cp = GNil then Inr GNil
      else if is_envelope cp then Inr (json_reload other cp)
      else (case decode_checkpoint cp of
              Inl e \<Rightarrow> Inl e
            | Inr dc \<Rightarrow> Inr (json_reload other (encode_checkpoint dc))))"

section \<open>Round trips\<close>

lemma go_trunc_of_int [simp]: "go_trunc (of_int v) = v"
  by (simp add: go_trunc_def)

lemma json_reload_nil_iff:
  "(\<And>ty n. other ty n \<noteq> GNil) \<Longrightarrow> v \<noteq> GEnvelopeNil \<Longrightarrow> json_reload other v = GNil \<longleftrightarrow> v = GNil"
  by (cases v) auto

text \<open>An empty payload map is dropped by \<open>omitempty\<close> and reads back as a nil map.\<close>

fun drop_empty :: "'a list option \<Rightarrow> 'a list option" where
  "drop_empty (Some (x # xs)) = Some (x # xs)"
| "drop_empty _ = None"

definition reload_decoded :: "(string \<Rightarrow> nat \<Rightarrow> goval) \<Rightarrow> decoded_checkpoint \<Rightarrow> decoded_checkpoint" where
  "reload_decoded other dc = \<lparr>
     dc_profile = json_reload other (dc_profile dc),
     dc_payload = drop_empty (map_option (map (map_prod id (json_reload other))) (dc_payload dc)),
     dc_experience = dc_experience dc,
     dc_step = json_reload other (dc_step dc),
     dc_version = current_checkpoint_schema_version\<rparr>"

text \<open>
  \<open>DecodeCheckpoint\<close> inverts \<open>EncodeCheckpoint\<close>: every field survives, and the version of the
  result is the current one.
\<close>
theorem decode_encode_checkpoint:
  "decode_checkpoint (encode_checkpoint dc) =
     Inr (dc\<lparr>dc_version := current_checkpoint_schema_version\<rparr>)"
  by (simp add: encode_checkpoint_def)

lemma decode_reload_encode:
  "decode_checkpoint (json_reload other (encode_checkpoint dc)) = Inr (reload_decoded other dc)"
proof -
  have *: "decode_checkpoint (json_reload other (GEnvelope 1 up p eid sc)) =
      Inr \<lparr>dc_profile = json_reload other up,
           dc_payload = drop_empty (map_option (map (map_prod id (json_reload other))) p),
           dc_experience = eid, dc_step = json_reload other sc, dc_version = 1\<rparr>"
    for up p eid sc
  proof (cases p)
    case None
    then show ?thesis
      by (cases "up = GNil"; cases "eid = []"; cases "sc = GNil")
        (simp_all add: decode_envelope_map_def current_checkpoint_schema_version_def
          go_trunc_def)
  next
    case (Some kvs)
    then show ?thesis
      by (cases kvs; cases "up = GNil"; cases "eid = []"; cases "sc = GNil")
        (simp_all add: decode_envelope_map_def current_checkpoint_schema_version_def
          go_trunc_def)
  qed
  show ?thesis
    unfolding encode_checkpoint_def reload_decoded_def current_checkpoint_schema_version_def
    by (rule *)
qed

text \<open>
  the persisted form keeps a checkpoint: whatever \<open>MarshalCheckpoint\<close> writes for a raw progress
  value or for an envelope of the current version, \<open>DecodeCheckpoint\<close> of the document read back gives
  the same decoded fields (each as JSON carries it) under the current schema version.
\<close>
theorem marshal_decode_checkpoint:
  assumes "decode_checkpoint cp = Inr dc" and "cp \<noteq> GNil"
    and "is_envelope cp \<Longrightarrow> dc_version dc = current_checkpoint_schema_version"
  shows "\<exists>doc. marshal_checkpoint other cp = Inr doc
           \<and> decode_checkpoint doc = Inr (reload_decoded other dc)"
proof (cases "is_envelope cp")
  case False
  with assms show ?thesis by (simp add: marshal_checkpoint_def decode_reload_encode)
next
  case True
  then have "cp = encode_checkpoint dc"
    using assms
    by (cases cp) (auto simp: encode_checkpoint_def zero_decoded_def
        current_checkpoint_schema_version_def split: if_splits)
  with True assms(2) show ?thesis
    by (simp add: marshal_checkpoint_def decode_reload_encode)
qed

lemma marshal_decode_checkpoint_witness:
  "\<exists>doc. marshal_checkpoint (\<lambda>ty n. GStr ty) (GInt 7) = Inr doc
     \<and> decode_checkpoint doc =
         Inr (reload_decoded (\<lambda>ty n. GStr ty) (zero_decoded\<lparr>dc_step := GInt 7\<rparr>))"
  by (rule marshal_decode_checkpoint) simp_all

text \<open>
  A document of a future schema version is refused, in both forms, whatever else it holds.
\<close>

lemma decode_future_version:
  "v > current_checkpoint_schema_version \<Longrightarrow>
     decode_checkpoint (GEnvelope v up p eid sc) = Inl ErrCheckpointSchemaVersion"
  "map_of m ''schema_version'' = Some (GFloat (of_int v)) \<Longrightarrow>
     v > current_checkpoint_schema_version \<Longrightarrow>
     decode_checkpoint (GMap m) = Inl ErrCheckpointSchemaVersion"
  by (simp_all add: decode_envelope_map_def)

end
