(* ===== verification/Task_Fabric.thy ===== *)
theory Task_Fabric
  imports Task_State Task_Scheduler
begin

text \<open>
  Package \<open>internal/taskfabric\<close>, \<open>fabric.go\<close>: the Task Fabric and every operation of it. The mutex
  \<open>mu\<close> makes each operation one atomic step, so an operation is a function from the fabric to its
  result and the next fabric. \<open>f_now\<close> is what the injected clock shows when the operation runs.
  \<open>f_events\<close> is the in-memory log; \<open>f_appends\<close> are the writes handed to the attached event store,
  in the order the operations flush them (\<open>f_store\<close> says whether one is attached).
\<close>

section \<open>State\<close>

record durable_event =
  d_type :: string
  d_stream :: string
  d_agent :: string
  d_origin :: string
  d_state :: task_state
  d_at :: time
  d_kind :: event_type

record fabric =
  f_tasks :: "string \<rightharpoonup> task"
  f_events :: "task_event list"
  f_store :: bool
  f_appends :: "durable_event list"
  f_conf :: "(string \<Rightarrow> rat) option"
  f_now :: time
  f_epoch :: u64

definition new_fabric :: "time \<Rightarrow> fabric" where
  "new_fabric now = \<lparr>f_tasks = Map.empty, f_events = [], f_store = False, f_appends = [],
     f_conf = None, f_now = now, f_epoch = 0\<rparr>"

definition with_clock :: "time \<Rightarrow> fabric \<Rightarrow> fabric" where
  "with_clock now f = f\<lparr>f_now := now\<rparr>"

definition with_confidence_source :: "(string \<Rightarrow> rat) option \<Rightarrow> fabric \<Rightarrow> fabric" where
  "with_confidence_source src f = f\<lparr>f_conf := src\<rparr>"

definition with_event_store :: "bool \<Rightarrow> fabric \<Rightarrow> fabric" where
  "with_event_store attached f = f\<lparr>f_store := attached\<rparr>"

section \<open>Recording events\<close>

fun task_event_type :: "event_type \<Rightarrow> string" where
  "task_event_type EventTaskCreated = ''task.created''"
| "task_event_type EventTaskReady = ''task.ready''"
| "task_event_type EventTaskAcquired = ''task.acquired''"
| "task_event_type EventTaskStarted = ''task.started''"
| "task_event_type EventTaskYielded = ''task.yielded''"
| "task_event_type EventTaskCheckpointed = ''task.checkpointed''"
| "task_event_type EventTaskPreempted = ''task.preempted''"
| "task_event_type EventTaskReleased = ''task.released''"
| "task_event_type EventTaskCompleted = ''task.completed''"
| "task_event_type EventTaskFailed = ''task.failed''"
| "task_event_type EventTaskExpired = ''task.expired''"
| "task_event_type EventTaskStolen = ''task.stolen''"

definition event_of :: "task \<Rightarrow> event_type \<Rightarrow> time \<Rightarrow> task_event" where
  "event_of t et now = \<lparr>e_type = et, e_task = t_id t, e_agent = t_owner t, e_origin = t_origin t,
     e_state = t_state t, e_checkpoint = t_checkpoint t, e_at = now\<rparr>"

definition pending_append :: "task \<Rightarrow> event_type \<Rightarrow> time \<Rightarrow> durable_event" where
  "pending_append t et now = \<lparr>d_type = task_event_type et, d_stream = t_id t,
     d_agent = t_owner t, d_origin = t_origin t, d_state = t_state t, d_at = now, d_kind = et\<rparr>"

definition record_locked :: "task \<Rightarrow> event_type \<Rightarrow> fabric \<Rightarrow> fabric" where
  "record_locked t et f =
     f\<lparr>f_events := f_events f @ [event_of t et (f_now f)],
       f_appends := (if f_store f \<and> task_event_type et \<noteq> ''''
                     then f_appends f @ [pending_append t et (f_now f)] else f_appends f)\<rparr>"

text \<open>
  \<open>flushAppends\<close>: hand the deferred writes to the store. \<open>app\<close> is the store's method, \<open>None\<close> an
  error of it. A failed write is logged when the event must be persisted, and dropped otherwise.
\<close>

fun flush_appends ::
  "(durable_event \<Rightarrow> 'st \<Rightarrow> 'st option) \<Rightarrow> durable_event list \<Rightarrow> 'st \<times> durable_event list
     \<Rightarrow> 'st \<times> durable_event list"
  where
  "flush_appends app [] (st, logged) = (st, logged)"
| "flush_appends app (p # ps) (st, logged) =
     (case app p st of
        Some st' \<Rightarrow> flush_appends app ps (st', logged)
      | None \<Rightarrow> flush_appends app ps
                  (st, if is_must_persist (d_kind p) then logged @ [p] else logged))"

text \<open>Writing the task a handler has in hand back under its id.\<close>

definition put_task :: "string \<Rightarrow> task \<Rightarrow> fabric \<Rightarrow> fabric" where
  "put_task tid t f = f\<lparr>f_tasks := (f_tasks f)(tid \<mapsto> t)\<rparr>"

definition disown :: "task \<Rightarrow> task" where
  "disown t = t\<lparr>t_owner := '''', t_lease := None\<rparr>"

section \<open>Operations\<close>

definition create :: "task \<Rightarrow> fabric \<Rightarrow> (fabric_error, unit, fabric) outcome" where
  "create t f =
     (if t_id t = '''' then (Inl ErrTaskIdRequired, f)
      else if f_tasks f (t_id t) \<noteq> None then (Inl ErrTaskExists, f)
      else (let t' = disown (t\<lparr>t_state := StateReady\<rparr>)
            in (Inr (), record_locked t' EventTaskCreated (put_task (t_id t) t' f))))"

definition acquire :: "string \<Rightarrow> string \<Rightarrow> duration \<Rightarrow> fabric \<Rightarrow> (fabric_error, u64, fabric) outcome"
  where
  "acquire tid agent ttl f =
     (case f_tasks f tid of
        None \<Rightarrow> (Inl ErrTaskNotFound, f)
      | Some t \<Rightarrow>
          if agent = '''' then (Inl ErrAgentIdRequired, f)
          else if t_state t \<noteq> StateReady \<and> t_state t \<noteq> StateSuspended then (Inl ErrTaskNotReady, f)
          else
            (let f1 = f\<lparr>f_epoch := f_epoch f + 1\<rparr>;
                 l = \<lparr>l_owner = agent, l_expires = f_now f1 + ttl, l_epoch = f_epoch f1\<rparr>
             in (case transition t StateLeased of
                   Inl e \<Rightarrow> (Inl e, f1)
                 | Inr t1 \<Rightarrow>
                     (let t2 = t1\<lparr>t_owner := agent, t_lease := Some l\<rparr>
                      in (Inr (l_epoch l), record_locked t2 EventTaskAcquired (put_task tid t2 f1))))))"

text \<open>The fencing check of every operation that needs ownership.\<close>

definition owner_locked :: "fabric \<Rightarrow> string \<Rightarrow> string \<Rightarrow> u64 \<Rightarrow> fabric_error + task" where
  "owner_locked f tid agent ep =
     (case f_tasks f tid of
        None \<Rightarrow> Inl ErrTaskNotFound
      | Some t \<Rightarrow>
          if t_owner t = '''' \<or> t_owner t \<noteq> agent then Inl ErrNotOwner
          else (case t_lease t of
                  None \<Rightarrow> Inl ErrEpochMismatch
                | Some l \<Rightarrow> if l_epoch l \<noteq> ep then Inl ErrEpochMismatch else Inr t))"

definition start :: "string \<Rightarrow> string \<Rightarrow> u64 \<Rightarrow> fabric \<Rightarrow> (fabric_error, unit, fabric) outcome" where
  "start tid agent ep f =
     (case owner_locked f tid agent ep of
        Inl e \<Rightarrow> (Inl e, f)
      | Inr t \<Rightarrow>
          (case transition t StateRunning of
             Inl e \<Rightarrow> (Inl e, f)
           | Inr t1 \<Rightarrow> (Inr (), record_locked t1 EventTaskStarted (put_task tid t1 f))))"

definition yield_task ::
  "string \<Rightarrow> string \<Rightarrow> u64 \<Rightarrow> goval \<Rightarrow> fabric \<Rightarrow> (fabric_error, unit, fabric) outcome" where
  "yield_task tid agent ep cp f =
     (case owner_locked f tid agent ep of
        Inl e \<Rightarrow> (Inl e, f)
      | Inr t \<Rightarrow>
          (case transition t StateSuspended of
             Inl e \<Rightarrow> (Inl e, f)
           | Inr t1 \<Rightarrow>
               (let t2 = t1\<lparr>t_checkpoint := cp\<rparr>;
                    f1 = record_locked t2 EventTaskYielded (put_task tid t2 f)
                in (Inr (), if cp \<noteq> GNil then record_locked t2 EventTaskCheckpointed f1 else f1))))"

definition complete :: "string \<Rightarrow> string \<Rightarrow> u64 \<Rightarrow> fabric \<Rightarrow> (fabric_error, unit, fabric) outcome" where
  "complete tid agent ep f =
     (case owner_locked f tid agent ep of
        Inl e \<Rightarrow> (Inl e, f)
      | Inr t \<Rightarrow>
          (case transition t StateCompleted of
             Inl e \<Rightarrow> (Inl e, f)
           | Inr t1 \<Rightarrow> (Inr (), record_locked t1 EventTaskCompleted (put_task tid t1 f))))"

text \<open>The checkpoint is stored before the transition is tried, so a refused one keeps the write.\<close>

definition complete_with_checkpoint ::
  "string \<Rightarrow> string \<Rightarrow> u64 \<Rightarrow> goval \<Rightarrow> fabric \<Rightarrow> (fabric_error, unit, fabric) outcome" where
  "complete_with_checkpoint tid agent ep cp f =
     (case owner_locked f tid agent ep of
        Inl e \<Rightarrow> (Inl e, f)
      | Inr t \<Rightarrow>
          (let t1 = t\<lparr>t_checkpoint := cp\<rparr>; f1 = put_task tid t1 f
           in (case transition t1 StateCompleted of
                 Inl e \<Rightarrow> (Inl e, f1)
               | Inr t2 \<Rightarrow> (Inr (), record_locked t2 EventTaskCompleted (put_task tid t2 f1)))))"

definition count_attempt :: "task \<Rightarrow> task" where
  "count_attempt t = t\<lparr>t_retry := (t_retry t)\<lparr>rp_attempts := rp_attempts (t_retry t) + 1\<rparr>\<rparr>"

text \<open>The attempt is counted before the transition is tried.\<close>

definition fail :: "string \<Rightarrow> string \<Rightarrow> u64 \<Rightarrow> fabric \<Rightarrow> (fabric_error, unit, fabric) outcome" where
  "fail tid agent ep f =
     (case owner_locked f tid agent ep of
        Inl e \<Rightarrow> (Inl e, f)
      | Inr t \<Rightarrow>
          (let t1 = count_attempt t; f1 = put_task tid t1 f in
           if can_retry t1 then
             (case transition t1 StateReady of
                Inl e \<Rightarrow> (Inl e, f1)
              | Inr t2 \<Rightarrow>
                  (let t3 = disown t2
                   in (Inr (), record_locked t3 EventTaskReady
                                 (record_locked t3 EventTaskFailed (put_task tid t3 f1)))))
           else
             (case transition t1 StateFailed of
                Inl e \<Rightarrow> (Inl e, f1)
              | Inr t2 \<Rightarrow> (Inr (), record_locked t2 EventTaskFailed (put_task tid t2 f1)))))"

definition renew :: "string \<Rightarrow> string \<Rightarrow> u64 \<Rightarrow> duration \<Rightarrow> fabric \<Rightarrow> (fabric_error, unit, fabric) outcome"
  where
  "renew tid agent ep ttl f =
     (if ttl \<le> 0 then (Inl ErrRenewTtl, f)
      else (case owner_locked f tid agent ep of
              Inl e \<Rightarrow> (Inl e, f)
            | Inr t \<Rightarrow>
                (case t_lease t of
                   None \<Rightarrow> (Inl ErrTaskNotFound, f)
                 | Some l \<Rightarrow>
                     (Inr (), put_task tid (t\<lparr>t_lease := Some (l\<lparr>l_expires := f_now f + ttl\<rparr>)\<rparr>) f))))"

definition release :: "string \<Rightarrow> string \<Rightarrow> u64 \<Rightarrow> fabric \<Rightarrow> (fabric_error, unit, fabric) outcome" where
  "release tid agent ep f =
     (case owner_locked f tid agent ep of
        Inl e \<Rightarrow> (Inl e, f)
      | Inr t \<Rightarrow>
          (case transition t StateReady of
             Inl e \<Rightarrow> (Inl e, f)
           | Inr t1 \<Rightarrow>
               (let t2 = disown t1
                in (Inr (), record_locked t2 EventTaskReleased (put_task tid t2 f)))))"

definition preempt :: "string \<Rightarrow> string \<Rightarrow> u64 \<Rightarrow> fabric \<Rightarrow> (fabric_error, unit, fabric) outcome" where
  "preempt tid agent ep f =
     (case owner_locked f tid agent ep of
        Inl e \<Rightarrow> (Inl e, f)
      | Inr t \<Rightarrow>
          (case transition t StateReady of
             Inl e \<Rightarrow> (Inl e, f)
           | Inr t1 \<Rightarrow>
               (let t2 = disown t1
                in (Inr (), record_locked t2 EventTaskPreempted (put_task tid t2 f)))))"

text \<open>
  \<open>CheckExpiredLeases\<close>: one pass of the loop over a key, and the loop over the keys in the order
  \<open>ord\<close> the runtime chose.
\<close>

definition expire_one :: "time \<Rightarrow> string \<Rightarrow> fabric \<times> string list \<Rightarrow> fabric \<times> string list" where
  "expire_one now tid st =
     (let f = fst st in
      case f_tasks f tid of
        None \<Rightarrow> st
      | Some t \<Rightarrow>
          (case t_lease t of
             None \<Rightarrow> st
           | Some l \<Rightarrow>
               if \<not> is_expired l now then st
               else if t_state t \<noteq> StateLeased \<and> t_state t \<noteq> StateRunning \<and> t_state t \<noteq> StateSuspended
               then st
               else (case transition t StateReady of
                       Inl e \<Rightarrow> st
                     | Inr t1 \<Rightarrow>
                         (let t2 = disown t1
                          in (record_locked t2 EventTaskExpired (put_task tid t2 f),
                              snd st @ [t_id t2])))))"

definition check_expired_leases :: "string list \<Rightarrow> fabric \<Rightarrow> string list \<times> fabric" where
  "check_expired_leases ord f =
     (let r = fold (expire_one (f_now f)) (range_keys (f_tasks f) ord) (f, [])
      in (snd r, fst r))"

definition get_task :: "string \<Rightarrow> fabric \<Rightarrow> fabric_error + task" where
  "get_task tid f = (case f_tasks f tid of None \<Rightarrow> Inl ErrTaskNotFound | Some t \<Rightarrow> Inr t)"

text \<open>
  \<open>Schedule\<close>: the prior of the confidence source fills the candidates that declare no confidence,
  \<open>Pick\<close> chooses, \<open>Acquire\<close> claims.
\<close>

definition fill_confidence :: "(string \<Rightarrow> rat) option \<Rightarrow> string \<Rightarrow> candidate list \<Rightarrow> candidate list" where
  "fill_confidence src cap cs =
     (case src of
        None \<Rightarrow> cs
      | Some conf \<Rightarrow>
          if conf cap > 0
          then map (\<lambda>c. if c_conf c \<le> 0 then c\<lparr>c_conf := conf cap\<rparr> else c) cs
          else cs)"

definition schedule ::
  "string \<Rightarrow> candidate list \<Rightarrow> duration \<Rightarrow> fabric \<Rightarrow> (fabric_error, string \<times> u64, fabric) outcome"
  where
  "schedule tid cs ttl f =
     (case get_task tid f of
        Inl e \<Rightarrow> (Inl e, f)
      | Inr t \<Rightarrow>
          (case pick (t_capability t) (fill_confidence (f_conf f) (t_capability t) cs) of
             None \<Rightarrow> (Inl ErrNoCapableCandidate, f)
           | Some best \<Rightarrow>
               (case acquire tid (c_agent best) ttl f of
                  (Inl e, f1) \<Rightarrow> (Inl e, f1)
                | (Inr ep, f1) \<Rightarrow> (Inr (c_agent best, ep), f1))))"

record running_task =
  r_id :: string
  r_owner :: string
  r_epoch :: u64
  r_priority :: int

definition running_tasks :: "string list \<Rightarrow> fabric \<Rightarrow> running_task list" where
  "running_tasks ord f =
     List.map_filter (\<lambda>tid. case f_tasks f tid of
         None \<Rightarrow> None
       | Some t \<Rightarrow>
           (case t_lease t of
              None \<Rightarrow> None
            | Some l \<Rightarrow>
                if t_state t \<noteq> StateRunning then None
                else Some \<lparr>r_id = t_id t, r_owner = t_owner t, r_epoch = l_epoch l,
                           r_priority = t_priority t\<rparr>))
       (range_keys (f_tasks f) ord)"

definition get_events :: "fabric \<Rightarrow> task_event list" where
  "get_events f = f_events f"

definition delete :: "string \<Rightarrow> fabric \<Rightarrow> (fabric_error, unit, fabric) outcome" where
  "delete tid f =
     (case f_tasks f tid of
        None \<Rightarrow> (Inl ErrTaskNotFound, f)
      | Some t \<Rightarrow>
          if t_state t = StateReady \<or> t_state t = StateCompleted \<or> t_state t = StateFailed
          then (Inr (), f\<lparr>f_tasks := (f_tasks f)(tid := None)\<rparr>)
          else (Inl ErrTaskUndeletable, f))"

definition task_ids :: "string list \<Rightarrow> fabric \<Rightarrow> string list" where
  "task_ids ord f = range_keys (f_tasks f) ord"

section \<open>The dependency graph as a work source\<close>

text \<open>\<open>dag.go\<close>: a task is ready when it is READY and every dependency exists and is COMPLETED.\<close>

definition deps_completed :: "(string \<rightharpoonup> task) \<Rightarrow> string list \<Rightarrow> bool" where
  "deps_completed m deps \<longleftrightarrow>
     list_all (\<lambda>d. case m d of None \<Rightarrow> False | Some t \<Rightarrow> t_state t = StateCompleted) deps"

definition is_ready :: "string \<Rightarrow> fabric \<Rightarrow> fabric_error + bool" where
  "is_ready tid f =
     (case f_tasks f tid of
        None \<Rightarrow> Inl ErrTaskNotFound
      | Some t \<Rightarrow>
          if t_state t \<noteq> StateReady then Inr False else Inr (deps_completed (f_tasks f) (t_deps t)))"

definition ready_tasks :: "string list \<Rightarrow> fabric \<Rightarrow> string list" where
  "ready_tasks ord f =
     [tid \<leftarrow> range_keys (f_tasks f) ord.
        case f_tasks f tid of
          None \<Rightarrow> False
        | Some t \<Rightarrow> t_state t = StateReady \<and> deps_completed (f_tasks f) (t_deps t)]"

definition resumable :: "fabric \<Rightarrow> task \<Rightarrow> bool" where
  "resumable f t \<longleftrightarrow>
     (case t_state t of
        StateReady \<Rightarrow> deps_completed (f_tasks f) (t_deps t)
      | StateSuspended \<Rightarrow>
          (case t_lease t of None \<Rightarrow> False | Some l \<Rightarrow> \<not> is_expired l (f_now f))
      | _ \<Rightarrow> False)"

definition resumable_tasks :: "string list \<Rightarrow> fabric \<Rightarrow> string list" where
  "resumable_tasks ord f =
     [tid \<leftarrow> range_keys (f_tasks f) ord.
        case f_tasks f tid of None \<Rightarrow> False | Some t \<Rightarrow> resumable f t]"

end
