(* ===== verification/Task_Quantum.thy ===== *)
theory Task_Quantum
  imports Task_Fabric
begin

text \<open>
  Package \<open>internal/taskfabric\<close>, \<open>quantum.go\<close>: one execution quantum. The agent's step runs without
  the fabric's lock, so other operations may interleave with it: the step is a function of the
  fabric to its outcome and to the fabric as it finds it when it returns. The outcome is the
  step's error, or the checkpoint and whether the task is done.
\<close>

type_synonym 'e quantum_step = "fabric \<Rightarrow> ('e + goval \<times> bool) \<times> fabric"

text \<open>The error of a quantum: the fabric's, the step's, or both joined.\<close>

datatype 'e quantum_error = FabricErr fabric_error | StepErr 'e | StepAndFail 'e fabric_error

fun lift_fabric :: "(fabric_error, unit, fabric) outcome \<Rightarrow> 'e quantum_error option \<times> fabric" where
  "lift_fabric (Inl e, f) = (Some (FabricErr e), f)"
| "lift_fabric (Inr u, f) = (None, f)"

definition run_quantum ::
  "string \<Rightarrow> string \<Rightarrow> u64 \<Rightarrow> 'e quantum_step \<Rightarrow> fabric \<Rightarrow> 'e quantum_error option \<times> fabric" where
  "run_quantum tid agent ep step f =
     (case start tid agent ep f of
        (Inl e, f1) \<Rightarrow> (Some (FabricErr e), f1)
      | (Inr _, f1) \<Rightarrow>
          (case step f1 of
             (Inl e, f2) \<Rightarrow>
               (case fail tid agent ep f2 of
                  (Inl fe, f3) \<Rightarrow> (Some (StepAndFail e fe), f3)
                | (Inr _, f3) \<Rightarrow> (Some (StepErr e), f3))
           | (Inr (cp, done), f2) \<Rightarrow>
               if done then
                 (if cp \<noteq> GNil then lift_fabric (complete_with_checkpoint tid agent ep cp f2)
                  else lift_fabric (complete tid agent ep f2))
               else lift_fabric (yield_task tid agent ep cp f2)))"

end
