(* ===== verification/Task_Fabric_Inv.thy ===== *)
theory Task_Fabric_Inv
  imports Task_Fabric Interfaces
begin

text \<open>
  The invariants of the Task Fabric. Every operation of \<open>Task_Fabric\<close> is a chain of the elementary
  steps \<open>fstep\<close>; each invariant is proved once, by rule induction over them. A run is a chain of
  elementary steps with the number of acquisitions in it, which bounds the 64-bit epoch counter.
\<close>

section \<open>Projections of the building blocks\<close>

lemma record_locked_simps [simp]:
  "f_tasks (record_locked t et f) = f_tasks f"
  "f_epoch (record_locked t et f) = f_epoch f"
  "f_now (record_locked t et f) = f_now f"
  "f_store (record_locked t et f) = f_store f"
  "f_conf (record_locked t et f) = f_conf f"
  "f_events (record_locked t et f) = f_events f @ [event_of t et (f_now f)]"
  by (simp_all add: record_locked_def)

lemma put_task_simps [simp]:
  "f_tasks (put_task tid t f) = (f_tasks f)(tid \<mapsto> t)"
  "f_epoch (put_task tid t f) = f_epoch f"
  "f_now (put_task tid t f) = f_now f"
  "f_store (put_task tid t f) = f_store f"
  "f_conf (put_task tid t f) = f_conf f"
  "f_events (put_task tid t f) = f_events f"
  "f_appends (put_task tid t f) = f_appends f"
  by (simp_all add: put_task_def)

lemma disown_simps [simp]:
  "t_owner (disown t) = ''''" "t_lease (disown t) = None" "t_id (disown t) = t_id t"
  "t_state (disown t) = t_state t" "t_checkpoint (disown t) = t_checkpoint t"
  "t_retry (disown t) = t_retry t" "t_deps (disown t) = t_deps t"
  "t_priority (disown t) = t_priority t" "t_capability (disown t) = t_capability t"
  "t_origin (disown t) = t_origin t"
  by (simp_all add: disown_def)

lemma event_of_simps [simp]:
  "e_task (event_of t et now) = t_id t" "e_state (event_of t et now) = t_state t"
  "e_agent (event_of t et now) = t_owner t" "e_type (event_of t et now) = et"
  "e_checkpoint (event_of t et now) = t_checkpoint t"
  by (simp_all add: event_of_def)

lemma owner_locked_Inr:
  "owner_locked f tid agent ep = Inr t \<longleftrightarrow>
     f_tasks f tid = Some t \<and> t_owner t = agent \<and> agent \<noteq> ''''
     \<and> (\<exists>l. t_lease t = Some l \<and> l_epoch l = ep)"
  by (auto simp: owner_locked_def split: option.splits if_splits)

lemma task_event_type_nonempty [simp]: "task_event_type et \<noteq> ''''"
  by (cases et) simp_all

lemma can_transition_Ready:
  "can_transition s StateReady \<longleftrightarrow> s \<in> {StateLeased, StateRunning, StateSuspended}"
  by (cases s) simp_all

lemma can_transition_Leased:
  "can_transition s StateLeased \<longleftrightarrow> s \<in> {StateReady, StateSuspended}"
  by (cases s) simp_all

lemma can_transition_others:
  "can_transition s StateRunning \<longleftrightarrow> s = StateLeased"
  "can_transition s StateSuspended \<longleftrightarrow> s = StateRunning"
  "can_transition s StateCompleted \<longleftrightarrow> s = StateRunning"
  "can_transition s StateFailed \<longleftrightarrow> s = StateRunning"
  by ((cases s; simp)+)

lemmas can_transition_iff = can_transition_Ready can_transition_Leased can_transition_others

section \<open>Elementary steps\<close>

abbreviation record_all :: "task \<Rightarrow> event_type list \<Rightarrow> fabric \<Rightarrow> fabric" where
  "record_all t evs f \<equiv> fold (record_locked t) evs f"

lemma record_all_simps [simp]:
  "f_tasks (record_all t evs f) = f_tasks f"
  "f_epoch (record_all t evs f) = f_epoch f"
  "f_now (record_all t evs f) = f_now f"
  "f_store (record_all t evs f) = f_store f"
  "f_events (record_all t evs f) = f_events f @ map (\<lambda>et. event_of t et (f_now f)) evs"
  by (induction evs arbitrary: f) simp_all

inductive fstep :: "fabric \<Rightarrow> fabric \<Rightarrow> bool" where
  fs_env: "f_tasks f' = f_tasks f \<Longrightarrow> f_events f' = f_events f \<Longrightarrow> f_appends f' = f_appends f \<Longrightarrow>
     f_epoch f' = f_epoch f \<Longrightarrow> fstep f f'"
| fs_create: "f_tasks f (t_id t) = None \<Longrightarrow> t_id t \<noteq> '''' \<Longrightarrow> t_state t = StateReady \<Longrightarrow>
     t_owner t = '''' \<Longrightarrow> t_lease t = None \<Longrightarrow>
     fstep f (record_locked t EventTaskCreated (put_task (t_id t) t f))"
| fs_acquire: "f_tasks f tid = Some t \<Longrightarrow> can_transition (t_state t) StateLeased \<Longrightarrow>
     l_owner l \<noteq> '''' \<Longrightarrow> l_epoch l = f_epoch f + 1 \<Longrightarrow>
     t' = t\<lparr>t_state := StateLeased, t_owner := l_owner l, t_lease := Some l\<rparr> \<Longrightarrow>
     fstep f (record_locked t' EventTaskAcquired (put_task tid t' (f\<lparr>f_epoch := f_epoch f + 1\<rparr>)))"
| fs_move: "f_tasks f tid = Some t \<Longrightarrow> t_lease t = Some l \<Longrightarrow> can_transition (t_state t) (t_state t') \<Longrightarrow>
     t_state t' \<notin> {StateReady, StateLeased} \<Longrightarrow> evs \<noteq> [] \<Longrightarrow>
     t' = t\<lparr>t_state := t_state t', t_checkpoint := t_checkpoint t', t_retry := t_retry t'\<rparr> \<Longrightarrow>
     fstep f (record_all t' evs (put_task tid t' f))"
| fs_requeue: "f_tasks f tid = Some t \<Longrightarrow> t_lease t = Some l \<Longrightarrow>
     can_transition (t_state t) StateReady \<Longrightarrow> evs \<noteq> [] \<Longrightarrow>
     t' = disown (t\<lparr>t_state := StateReady, t_retry := t_retry t'\<rparr>) \<Longrightarrow>
     fstep f (record_all t' evs (put_task tid t' f))"
| fs_renew: "f_tasks f tid = Some t \<Longrightarrow> t_lease t = Some l \<Longrightarrow>
     t' = t\<lparr>t_lease := Some (l\<lparr>l_expires := x\<rparr>)\<rparr> \<Longrightarrow> fstep f (put_task tid t' f)"
| fs_refused: "f_tasks f tid = Some t \<Longrightarrow> t_lease t = Some l \<Longrightarrow>
     t' = t\<lparr>t_checkpoint := t_checkpoint t', t_retry := t_retry t'\<rparr> \<Longrightarrow> fstep f (put_task tid t' f)"
| fs_delete: "f_tasks f tid = Some t \<Longrightarrow>
     t_state t \<in> {StateReady, StateCompleted, StateFailed} \<Longrightarrow>
     fstep f (f\<lparr>f_tasks := (f_tasks f)(tid := None)\<rparr>)"

lemma fstep_refl [simp, intro]: "fstep f f"
  by (rule fs_env) simp_all

text \<open>A run with the number of acquisitions in it.\<close>

inductive frun :: "nat \<Rightarrow> fabric \<Rightarrow> fabric \<Rightarrow> bool" where
  frun_refl: "frun 0 f f"
| frun_keep: "frun n f g \<Longrightarrow> fstep g h \<Longrightarrow> f_epoch h = f_epoch g \<Longrightarrow> frun n f h"
| frun_bump: "frun n f g \<Longrightarrow> fstep g h \<Longrightarrow> f_epoch h = f_epoch g + 1 \<Longrightarrow> frun (Suc n) f h"

lemma frun_trans: "frun m g h \<Longrightarrow> frun n f g \<Longrightarrow> frun (n + m) f h"
  by (induction rule: frun.induct) (auto intro: frun.intros)

lemma fstep_epoch: "fstep f g \<Longrightarrow> f_epoch g = f_epoch f \<or> f_epoch g = f_epoch f + 1"
  by (induction rule: fstep.induct) auto

section \<open>The operations as elementary steps\<close>

lemmas handler_defs = create_def acquire_def start_def yield_task_def complete_def
  complete_with_checkpoint_def fail_def renew_def release_def preempt_def delete_def

lemma create_fstep: "fstep f (snd (create t f))"
  by (auto simp: create_def Let_def disown_def
      intro!: fs_create [of f "disown (t\<lparr>t_state := StateReady\<rparr>)", unfolded disown_def, simplified])

lemma acquire_fstep:
  "fstep f (snd (acquire tid agent ttl f))
   \<and> (fst (acquire tid agent ttl f) = Inr ep \<longrightarrow> ep = f_epoch f + 1)"
proof (cases "f_tasks f tid")
  case (Some t)
  then show ?thesis
    by (cases "t_state t")
      (auto simp: acquire_def Let_def can_transition_iff transition_def
        intro!: fs_acquire [where tid = tid and t = t and
          l = "\<lparr>l_owner = agent, l_expires = f_now f + ttl, l_epoch = f_epoch f + 1\<rparr>"])
qed (simp add: acquire_def)

text \<open>The move and requeue steps for one and for two recorded events.\<close>

lemma fs_move1:
  "f_tasks f tid = Some t \<Longrightarrow> t_lease t = Some l \<Longrightarrow> can_transition (t_state t) (t_state t') \<Longrightarrow>
     t_state t' \<notin> {StateReady, StateLeased} \<Longrightarrow> t' = t\<lparr>t_state := t_state t', t_checkpoint := t_checkpoint t', t_retry := t_retry t'\<rparr> \<Longrightarrow>
     fstep f (record_locked t' et (put_task tid t' f))"
  using fs_move [of f tid t l t' "[et]"] by simp

lemma fs_move2:
  "f_tasks f tid = Some t \<Longrightarrow> t_lease t = Some l \<Longrightarrow> can_transition (t_state t) (t_state t') \<Longrightarrow>
     t_state t' \<notin> {StateReady, StateLeased} \<Longrightarrow> t' = t\<lparr>t_state := t_state t', t_checkpoint := t_checkpoint t', t_retry := t_retry t'\<rparr> \<Longrightarrow>
     fstep f (record_locked t' et2 (record_locked t' et (put_task tid t' f)))"
  using fs_move [of f tid t l t' "[et, et2]"] by simp

lemma fs_requeue1:
  "f_tasks f tid = Some t \<Longrightarrow> t_lease t = Some l \<Longrightarrow> can_transition (t_state t) StateReady \<Longrightarrow>
     t' = disown (t\<lparr>t_state := StateReady, t_retry := t_retry t'\<rparr>) \<Longrightarrow>
     fstep f (record_locked t' et (put_task tid t' f))"
  using fs_requeue [of f tid t l "[et]" t'] by simp

lemma fs_requeue2:
  "f_tasks f tid = Some t \<Longrightarrow> t_lease t = Some l \<Longrightarrow> can_transition (t_state t) StateReady \<Longrightarrow>
     t' = disown (t\<lparr>t_state := StateReady, t_retry := t_retry t'\<rparr>) \<Longrightarrow>
     fstep f (record_locked t' et2 (record_locked t' et (put_task tid t' f)))"
  using fs_requeue [of f tid t l "[et, et2]" t'] by simp

lemma start_fstep: "fstep f (snd (start tid agent ep f))"
  by (auto simp: start_def owner_locked_Inr split: sum.splits intro!: fs_move1)

lemma yield_fstep: "fstep f (snd (yield_task tid agent ep cp f))"
  by (auto simp: yield_task_def owner_locked_Inr Let_def split: sum.splits
      intro!: fs_move1 fs_move2)

lemma complete_fstep: "fstep f (snd (complete tid agent ep f))"
  by (auto simp: complete_def owner_locked_Inr split: sum.splits intro!: fs_move1)

lemma put_task_twice [simp]: "put_task tid t (put_task tid t' f) = put_task tid t f"
  by (simp add: put_task_def)

lemma complete_with_checkpoint_fstep: "fstep f (snd (complete_with_checkpoint tid agent ep cp f))"
  by (auto simp: complete_with_checkpoint_def owner_locked_Inr Let_def split: sum.splits
      intro!: fs_move1 fs_refused)

lemma fail_fstep: "fstep f (snd (fail tid agent ep f))"
  by (auto simp: fail_def owner_locked_Inr Let_def count_attempt_def disown_def split: sum.splits
      intro!: fs_move1 fs_requeue2 fs_refused)

lemma renew_fstep: "fstep f (snd (renew tid agent ep ttl f))"
  by (auto simp: renew_def owner_locked_Inr split: sum.splits option.splits intro!: fs_renew)

lemma release_fstep: "fstep f (snd (release tid agent ep f))"
  by (auto simp: release_def owner_locked_Inr Let_def split: sum.splits intro!: fs_requeue1)

lemma preempt_fstep: "fstep f (snd (preempt tid agent ep f))"
  by (auto simp: preempt_def owner_locked_Inr Let_def split: sum.splits intro!: fs_requeue1)

lemma delete_fstep: "fstep f (snd (delete tid f))"
  by (auto simp: delete_def split: option.splits intro!: fs_delete)

text \<open>The sweep: one key is one step, the loop a chain of them that acquires nothing.\<close>

lemma expire_one_cases:
  obtains (skip) "expire_one now tid st = st"
  | (expired) t l where "f_tasks (fst st) tid = Some t" "t_lease t = Some l" "l_expires l \<le> now"
      "can_transition (t_state t) StateReady"
      "expire_one now tid st =
         (record_locked (disown (t\<lparr>t_state := StateReady\<rparr>)) EventTaskExpired
            (put_task tid (disown (t\<lparr>t_state := StateReady\<rparr>)) (fst st)), snd st @ [t_id t])"
  by (force simp: expire_one_def Let_def is_expired_def transition_def can_transition_Ready
      split: option.splits if_splits)

lemma expire_one_fstep:
  "fstep (fst st) (fst (expire_one now tid st)) \<and> f_epoch (fst (expire_one now tid st)) = f_epoch (fst st)"
proof (cases rule: expire_one_cases [of now tid st])
  case (expired t l)
  then show ?thesis
    by (auto intro!: fs_requeue1 simp: disown_def)
qed simp

lemma fstep_frun: "fstep f g \<Longrightarrow> \<exists>n\<le>1. frun n f g"
  using fstep_epoch [of f g] frun_keep [OF frun_refl, of f g] frun_bump [OF frun_refl, of f g] by auto

lemma expire_fold_frun: "frun 0 (fst st) (fst (fold (expire_one now) ks st))"
proof (induction ks arbitrary: st)
  case (Cons k ks)
  have "frun 0 (fst st) (fst (expire_one now k st))"
    using expire_one_fstep [of st now k] by (blast intro: frun.intros)
  from frun_trans [OF Cons this] show ?case by simp
qed (simp add: frun_refl)

lemma check_expired_frun: "frun 0 f (snd (check_expired_leases ord f))"
  using expire_fold_frun [of "(f, [])"] by (simp add: check_expired_leases_def Let_def)

lemma schedule_snd:
  "snd (schedule tid cs ttl f) = f \<or> (\<exists>a. snd (schedule tid cs ttl f) = snd (acquire tid a ttl f))"
  unfolding schedule_def
  by (auto split: sum.splits option.splits prod.splits) (metis snd_conv)+

lemma schedule_fstep: "fstep f (snd (schedule tid cs ttl f))"
  using schedule_snd [of tid cs ttl f] acquire_fstep [of f tid _ ttl] by auto

section \<open>The fabric as a transition system\<close>

text \<open>Every call a client can make, with its arguments, and the call as a state transformer.\<close>

datatype fabric_op =
    OpCreate task
  | OpAcquire string string duration
  | OpStart string string u64
  | OpYield string string u64 goval
  | OpComplete string string u64
  | OpCompleteCp string string u64 goval
  | OpFail string string u64
  | OpRenew string string u64 duration
  | OpRelease string string u64
  | OpPreempt string string u64
  | OpExpire "string list"
  | OpSchedule string "candidate list" duration
  | OpDelete string
  | OpClock time
  | OpConfidence "(string \<Rightarrow> rat) option"
  | OpStore bool

fun exec_op :: "fabric_op \<Rightarrow> fabric \<Rightarrow> fabric" where
  "exec_op (OpCreate t) f = snd (create t f)"
| "exec_op (OpAcquire tid a ttl) f = snd (acquire tid a ttl f)"
| "exec_op (OpStart tid a ep) f = snd (start tid a ep f)"
| "exec_op (OpYield tid a ep cp) f = snd (yield_task tid a ep cp f)"
| "exec_op (OpComplete tid a ep) f = snd (complete tid a ep f)"
| "exec_op (OpCompleteCp tid a ep cp) f = snd (complete_with_checkpoint tid a ep cp f)"
| "exec_op (OpFail tid a ep) f = snd (fail tid a ep f)"
| "exec_op (OpRenew tid a ep ttl) f = snd (renew tid a ep ttl f)"
| "exec_op (OpRelease tid a ep) f = snd (release tid a ep f)"
| "exec_op (OpPreempt tid a ep) f = snd (preempt tid a ep f)"
| "exec_op (OpExpire ord) f = snd (check_expired_leases ord f)"
| "exec_op (OpSchedule tid cs ttl) f = snd (schedule tid cs ttl f)"
| "exec_op (OpDelete tid) f = snd (delete tid f)"
| "exec_op (OpClock now) f = with_clock now f"
| "exec_op (OpConfidence src) f = with_confidence_source src f"
| "exec_op (OpStore b) f = with_event_store b f"

definition exec_ops :: "fabric_op list \<Rightarrow> fabric \<Rightarrow> fabric" where
  "exec_ops ops f = fold exec_op ops f"

lemma exec_ops_simps [simp]:
  "exec_ops [] f = f" "exec_ops (x # ops) f = exec_ops ops (exec_op x f)"
  "exec_ops (ops @ ops') f = exec_ops ops' (exec_ops ops f)"
  by (simp_all add: exec_ops_def)

lemma env_fsteps:
  "fstep f (with_clock now f)" "fstep f (with_confidence_source src f)" "fstep f (with_event_store b f)"
  by (rule fs_env; simp add: with_clock_def with_confidence_source_def with_event_store_def)+

lemmas op_fsteps = create_fstep acquire_fstep [THEN conjunct1] start_fstep yield_fstep complete_fstep
  complete_with_checkpoint_fstep fail_fstep renew_fstep release_fstep preempt_fstep schedule_fstep
  delete_fstep env_fsteps

lemma exec_op_frun: "\<exists>n\<le>1. frun n f (exec_op x f)"
proof (cases "\<exists>ord. x = OpExpire ord")
  case True
  then show ?thesis using check_expired_frun by fastforce
next
  case False
  then have "fstep f (exec_op x f)" by (cases x) (simp_all add: op_fsteps)
  then show ?thesis by (rule fstep_frun)
qed

lemma exec_ops_frun: "\<exists>n\<le>length ops. frun n f (exec_ops ops f)"
proof (induction ops arbitrary: f)
  case (Cons x ops)
  obtain m n where "m \<le> 1" "frun m f (exec_op x f)" "n \<le> length ops"
    "frun n (exec_op x f) (exec_ops ops (exec_op x f))"
    using exec_op_frun Cons by meson
  then show ?case using frun_trans by (intro exI [of _ "m + n"]) auto
qed (auto intro: frun_refl)

section \<open>Well-formedness\<close>

text \<open>
  A task is stored under its own id; it has an owner exactly when it has a lease, the lease names
  that owner, and only a READY task has none; its epoch is one the counter has handed out. No two
  tasks carry the same epoch.
\<close>

definition task_wf :: "u64 \<Rightarrow> string \<Rightarrow> task \<Rightarrow> bool" where
  "task_wf ep tid t \<longleftrightarrow> t_id t = tid \<and> tid \<noteq> '''' \<and>
     (case t_lease t of
        None \<Rightarrow> t_owner t = '''' \<and> t_state t = StateReady
      | Some l \<Rightarrow> t_owner t = l_owner l \<and> l_owner l \<noteq> '''' \<and> t_state t \<noteq> StateReady \<and> l_epoch l \<le> ep)"

definition current_token :: "fabric \<Rightarrow> string \<Rightarrow> u64 option" where
  "current_token f tid = Option.bind (f_tasks f tid) (\<lambda>t. map_option l_epoch (t_lease t))"

definition fabric_wf :: "fabric \<Rightarrow> bool" where
  "fabric_wf f \<longleftrightarrow> (\<forall>tid t. f_tasks f tid = Some t \<longrightarrow> task_wf (f_epoch f) tid t)
     \<and> (\<forall>k k' tok. current_token f k = Some tok \<longrightarrow> current_token f k' = Some tok \<longrightarrow> k = k')"

lemma unat_epoch_Suc: "unat (x :: u64) + 1 < 2 ^ 64 \<Longrightarrow> unat (x + 1) = unat x + 1"
  by (simp add: unat_word_ariths)

lemma fabric_wf_new [simp]: "fabric_wf (new_fabric now)"
  by (simp add: fabric_wf_def new_fabric_def current_token_def)

lemma fabric_wfD: "fabric_wf f \<Longrightarrow> f_tasks f tid = Some t \<Longrightarrow> task_wf (f_epoch f) tid t"
  by (simp add: fabric_wf_def)

lemma current_token_Some:
  "current_token f tid = Some tok \<longleftrightarrow> (\<exists>t l. f_tasks f tid = Some t \<and> t_lease t = Some l \<and> l_epoch l = tok)"
  by (auto simp: current_token_def bind_eq_Some_conv)

lemma current_token_le: "fabric_wf f \<Longrightarrow> current_token f tid = Some tok \<Longrightarrow> unat tok \<le> unat (f_epoch f)"
  by (auto simp: current_token_Some task_wf_def word_le_nat_alt dest!: fabric_wfD)

text \<open>Replacing one task by a well-formed one with the same token, or with none.\<close>

lemma fabric_wf_update:
  assumes "fabric_wf f" "f_tasks g = (f_tasks f)(tid \<mapsto> t')" "f_epoch g = f_epoch f"
    "task_wf (f_epoch f) tid t'"
    "\<And>l. t_lease t' = Some l \<Longrightarrow> current_token f tid = Some (l_epoch l)"
  shows "fabric_wf g"
proof -
  have tok: "current_token f k = Some tok" if "current_token g k = Some tok" for k tok
    using that assms(2,5) by (auto simp: current_token_Some split: if_splits)
  then show ?thesis
    using assms unfolding fabric_wf_def by (metis fun_upd_apply option.inject)
qed

lemma fabric_wf_acquire:
  assumes "fabric_wf f" "f_tasks g = (f_tasks f)(tid \<mapsto> t')" "f_epoch g = f_epoch f + 1"
    "unat (f_epoch f) + 1 < 2 ^ 64" "t_id t' = tid" "tid \<noteq> ''''" "t_lease t' = Some l"
    "t_owner t' = l_owner l" "l_owner l \<noteq> ''''" "t_state t' \<noteq> StateReady" "l_epoch l = f_epoch f + 1"
  shows "fabric_wf g"
proof -
  have le: "unat (f_epoch g) = unat (f_epoch f) + 1" using unat_epoch_Suc assms(3,4) by simp
  have wf: "task_wf (f_epoch g) k t" if "f_tasks g k = Some t" for k t
    using that assms le fabric_wfD [OF assms(1), of k]
    by (auto simp: task_wf_def word_le_nat_alt split: if_splits option.splits)
  have tok: "current_token g k = (if k = tid then Some (f_epoch f + 1) else current_token f k)" for k
    using assms(2,7,11) by (simp add: current_token_def)
  have "current_token f k \<noteq> Some (f_epoch f + 1)" for k
    using current_token_le [OF assms(1), of k] le assms(3) by force
  then show ?thesis
    using wf assms(1) unfolding fabric_wf_def tok by (metis option.inject)
qed

lemma fabric_wf_remove: "fabric_wf f \<Longrightarrow> fabric_wf (f\<lparr>f_tasks := (f_tasks f)(tid := None)\<rparr>)"
  by (auto simp: fabric_wf_def current_token_def split: if_splits)

lemma fabric_wf_cong: "f_tasks g = f_tasks f \<Longrightarrow> f_epoch g = f_epoch f \<Longrightarrow> fabric_wf f \<Longrightarrow> fabric_wf g"
  by (simp add: fabric_wf_def current_token_def)

text \<open>What the task of a move, requeue or refused step keeps.\<close>

lemma moved_task:
  "t' = t\<lparr>t_state := s, t_checkpoint := c, t_retry := r\<rparr> \<Longrightarrow> t_id t' = t_id t \<and> t_owner t' = t_owner t \<and> t_lease t' = t_lease t"
  by simp

lemma requeued_task:
  "t' = disown (t\<lparr>t_state := StateReady, t_retry := r\<rparr>) \<Longrightarrow>
     t_id t' = t_id t \<and> t_owner t' = '''' \<and> t_lease t' = None \<and> t_state t' = StateReady
     \<and> t_checkpoint t' = t_checkpoint t"
  by simp

lemma refused_task:
  "t' = t\<lparr>t_checkpoint := c, t_retry := r\<rparr> \<Longrightarrow>
     t_id t' = t_id t \<and> t_owner t' = t_owner t \<and> t_lease t' = t_lease t \<and> t_state t' = t_state t"
  by simp

lemma fstep_wf:
  "fstep f g \<Longrightarrow> fabric_wf f \<Longrightarrow> f_epoch g = f_epoch f \<or> unat (f_epoch f) + 1 < 2 ^ 64 \<Longrightarrow> fabric_wf g"
proof (induction rule: fstep.induct)
  case (fs_env f' f)
  then show ?case using fabric_wf_cong by blast
next
  case (fs_create f t)
  show ?case
    by (rule fabric_wf_update [of f _ "t_id t" t]) (use fs_create in \<open>auto simp: task_wf_def\<close>)
next
  case (fs_acquire f tid t l t')
  then have wf: "task_wf (f_epoch f) tid t" by (blast dest: fabric_wfD)
  show ?case
    by (rule fabric_wf_acquire [of f _ tid t' l]) (use fs_acquire wf in \<open>auto simp: task_wf_def\<close>)
next
  case (fs_move f tid t l t' evs)
  then have wf: "task_wf (f_epoch f) tid t" by (blast dest: fabric_wfD)
  have kept: "t_id t' = t_id t" "t_lease t' = t_lease t" "t_owner t' = t_owner t"
    using moved_task [OF fs_move(6)] by simp_all
  show ?case
    by (rule fabric_wf_update [of f _ tid t'])
      (use wf kept fs_move(1-4,7)  in \<open>auto simp: task_wf_def current_token_Some\<close>)
next
  case (fs_requeue f tid t l evs t')
  then have wf: "task_wf (f_epoch f) tid t" by (blast dest: fabric_wfD)
  have kept: "t_id t' = t_id t" "t_lease t' = None" "t_owner t' = ''''" "t_state t' = StateReady"
    using requeued_task [OF fs_requeue(5)] by simp_all
  show ?case
    by (rule fabric_wf_update [of f _ tid t'])
      (use wf kept fs_requeue(1-3,6) in \<open>auto simp: task_wf_def current_token_Some\<close>)
next
  case (fs_renew f tid t l t' x)
  then have wf: "task_wf (f_epoch f) tid t" by (blast dest: fabric_wfD)
  show ?case
    by (rule fabric_wf_update [of f _ tid t'])
      (use wf fs_renew in \<open>auto simp: task_wf_def current_token_Some\<close>)
next
  case (fs_refused f tid t l t')
  then have wf: "task_wf (f_epoch f) tid t" by (blast dest: fabric_wfD)
  have kept: "t_id t' = t_id t" "t_lease t' = t_lease t" "t_owner t' = t_owner t" "t_state t' = t_state t"
    using refused_task [OF fs_refused(3)] by simp_all
  show ?case
    by (rule fabric_wf_update [of f _ tid t'])
      (use wf kept fs_refused(1,2,4) in \<open>auto simp: task_wf_def current_token_Some\<close>)
next
  case (fs_delete f tid t)
  then show ?case by (simp add: fabric_wf_remove)
qed

text \<open>A run keeps the invariant and counts its acquisitions, as long as the counter has room.\<close>

lemma frun_wf:
  "frun n f g \<Longrightarrow> fabric_wf f \<Longrightarrow> unat (f_epoch f) + n < 2 ^ 64 \<Longrightarrow>
     fabric_wf g \<and> unat (f_epoch g) = unat (f_epoch f) + n"
proof (induction rule: frun.induct)
  case (frun_keep n f g h)
  then show ?case using fstep_wf [of g h] by auto
next
  case (frun_bump n f g h)
  then show ?case using fstep_wf [of g h] unat_epoch_Suc [of "f_epoch g"] by auto
qed simp

lemma fstep_fresh:
  "fstep f g \<Longrightarrow> current_token g k = Some tok \<Longrightarrow>
     current_token f k = Some tok \<or> f_epoch g = f_epoch f + 1 \<and> tok = f_epoch g"
proof (induction rule: fstep.induct)
  case (fs_move f tid t l t' evs)
  then show ?case using moved_task [OF fs_move(6)] by (auto simp: current_token_Some split: if_splits)
next
  case (fs_requeue f tid t l evs t')
  then show ?case using requeued_task [OF fs_requeue(5)] by (auto simp: current_token_Some split: if_splits)
next
  case (fs_refused f tid t l t')
  then show ?case using refused_task [OF fs_refused(3)] by (auto simp: current_token_Some split: if_splits)
qed (auto simp: current_token_Some split: if_splits)

lemma frun_fresh:
  "frun n f g \<Longrightarrow> fabric_wf f \<Longrightarrow> unat (f_epoch f) + n < 2 ^ 64 \<Longrightarrow> current_token g k = Some tok \<Longrightarrow>
     current_token f k = Some tok \<or> unat (f_epoch f) < unat tok"
proof (induction rule: frun.induct)
  case (frun_keep n f g h)
  then show ?case using fstep_fresh [OF frun_keep(2), of k tok] by auto
next
  case (frun_bump n f g h)
  then show ?case
    using fstep_fresh [OF frun_bump(2), of k tok] frun_wf [OF frun_bump(1)]
      unat_epoch_Suc [of "f_epoch g"] by auto
qed simp

section \<open>The fencing contract\<close>

definition epoch_budget :: "fabric \<Rightarrow> nat" where
  "epoch_budget f = 2 ^ 64 - 1 - unat (f_epoch f)"

definition token_issued :: "fabric \<Rightarrow> u64 \<Rightarrow> bool" where
  "token_issued f tok \<longleftrightarrow> tok \<le> f_epoch f"

lemma exec_op_keeps:
  assumes "fabric_wf f" "0 < epoch_budget f"
  shows "fabric_wf (exec_op x f)" "unat (f_epoch f) \<le> unat (f_epoch (exec_op x f))"
    "unat (f_epoch (exec_op x f)) \<le> unat (f_epoch f) + 1"
    "current_token (exec_op x f) k = Some tok \<Longrightarrow> current_token f k = Some tok \<or> \<not> token_issued f tok"
proof -
  obtain n where n: "n \<le> 1" "frun n f (exec_op x f)" using exec_op_frun by blast
  have room: "unat (f_epoch f) + n < 2 ^ 64" using assms(2) n(1) by (simp add: epoch_budget_def)
  show "fabric_wf (exec_op x f)" "unat (f_epoch f) \<le> unat (f_epoch (exec_op x f))"
    "unat (f_epoch (exec_op x f)) \<le> unat (f_epoch f) + 1"
    using frun_wf [OF n(2) assms(1) room] n(1) by auto
  show "current_token (exec_op x f) k = Some tok \<Longrightarrow> current_token f k = Some tok \<or> \<not> token_issued f tok"
    using frun_fresh [OF n(2) assms(1) room, of k tok] by (auto simp: token_issued_def word_le_nat_alt)
qed

interpretation fabric_fence:
  fenced_store exec_op fabric_wf epoch_budget current_token token_issued
proof
  fix f :: fabric and x :: fabric_op and k k' :: string and tok :: u64
  assume wf: "fabric_wf f"
  show "current_token f k = Some tok \<Longrightarrow> token_issued f tok"
    using wf current_token_le by (simp add: token_issued_def word_le_nat_alt)
  show "current_token f k = Some tok \<Longrightarrow> current_token f k' = Some tok \<Longrightarrow> k = k'"
    using wf by (auto simp: fabric_wf_def)
  assume pos: "0 < epoch_budget f"
  note keeps = exec_op_keeps [OF wf pos]
  show "fabric_wf (exec_op x f)" by (rule keeps)
  show "epoch_budget f \<le> Suc (epoch_budget (exec_op x f))"
    using keeps(3) [of x] by (simp add: epoch_budget_def)
  show "token_issued f tok \<Longrightarrow> token_issued (exec_op x f) tok"
    using keeps(2) [of x] by (simp add: token_issued_def word_le_nat_alt)
  show "current_token (exec_op x f) k = Some tok \<Longrightarrow> current_token f k = Some tok \<or> \<not> token_issued f tok"
    by (rule keeps)
qed

end
