(* ===== verification/Task_Fabric_Sweep.thy ===== *)
theory Task_Fabric_Sweep
  imports Task_Fabric_Inv
begin

text \<open>
  The pointwise effect of the fabric's operations: the exact result of a sweep over expired leases,
  the frame of every operation that takes a token, and the rejection of a token that is not current.
\<close>

section \<open>The sweep\<close>

definition sweepable :: "time \<Rightarrow> task \<Rightarrow> bool" where
  "sweepable now t \<longleftrightarrow> t_state t \<in> {StateLeased, StateRunning, StateSuspended}
     \<and> (case t_lease t of None \<Rightarrow> False | Some l \<Rightarrow> l_expires l \<le> now)"

abbreviation requeued :: "task \<Rightarrow> task" where
  "requeued t \<equiv> disown (t\<lparr>t_state := StateReady\<rparr>)"

definition sweep_task :: "time \<Rightarrow> task \<Rightarrow> task" where
  "sweep_task now t = (if sweepable now t then requeued t else t)"

lemma not_sweepable_requeued [simp]: "\<not> sweepable now (requeued t)"
  by (simp add: sweepable_def)

lemma sweep_task_twice [simp]: "sweep_task now (sweep_task now t) = sweep_task now t"
  by (simp add: sweep_task_def)

lemma expire_one_eq:
  "expire_one now tid st =
     (case f_tasks (fst st) tid of
        None \<Rightarrow> st
      | Some t \<Rightarrow> if sweepable now t
          then (record_locked (requeued t) EventTaskExpired (put_task tid (requeued t) (fst st)), snd st @ [t_id t])
          else st)"
  by (auto simp: expire_one_def Let_def is_expired_def transition_def can_transition_Ready sweepable_def
      split: option.splits)

lemma expire_one_tasks:
  "f_tasks (fst (expire_one now tid st)) k =
     (if k = tid then map_option (sweep_task now) (f_tasks (fst st) k) else f_tasks (fst st) k)"
  by (auto simp: expire_one_eq sweep_task_def split: option.splits)

lemma expire_one_frame [simp]:
  "f_now (fst (expire_one now tid st)) = f_now (fst st)"
  "f_store (fst (expire_one now tid st)) = f_store (fst st)"
  "f_epoch (fst (expire_one now tid st)) = f_epoch (fst st)"
  by (auto simp: expire_one_eq split: option.splits)

lemma expire_fold_tasks:
  "f_tasks (fst (fold (expire_one now) ks st)) k =
     (if k \<in> set ks then map_option (sweep_task now) (f_tasks (fst st) k) else f_tasks (fst st) k)"
  by (induction ks arbitrary: st) (auto simp: expire_one_tasks option.map_comp comp_def)

lemma expire_fold_frame [simp]:
  "f_now (fst (fold (expire_one now) ks st)) = f_now (fst st)"
  "f_store (fst (fold (expire_one now) ks st)) = f_store (fst st)"
  "f_epoch (fst (fold (expire_one now) ks st)) = f_epoch (fst st)"
  by (induction ks arbitrary: st) simp_all

definition swept :: "time \<Rightarrow> (string \<rightharpoonup> task) \<Rightarrow> string \<Rightarrow> bool" where
  "swept now m tid \<longleftrightarrow> (case m tid of None \<Rightarrow> False | Some t \<Rightarrow> sweepable now t)"

lemma expire_fold_ids:
  assumes "distinct ks" "\<And>tid t. f_tasks (fst st) tid = Some t \<Longrightarrow> t_id t = tid"
  shows "snd (fold (expire_one now) ks st) = snd st @ filter (swept now (f_tasks (fst st))) ks"
  using assms
proof (induction ks arbitrary: st)
  case (Cons k ks)
  have ids: "t_id t = tid" if "f_tasks (fst (expire_one now k st)) tid = Some t" for tid t
    using that Cons.prems(2) by (auto simp: expire_one_tasks sweep_task_def split: if_splits)
  have same: "filter (swept now (f_tasks (fst (expire_one now k st)))) ks =
      filter (swept now (f_tasks (fst st))) ks"
    using Cons.prems(1) by (intro filter_cong) (auto simp: swept_def expire_one_tasks)
  have "snd (expire_one now k st) = snd st @ filter (swept now (f_tasks (fst st))) [k]"
    using Cons.prems(2) by (auto simp: expire_one_eq swept_def split: option.splits)
  then show ?case
    using Cons.IH [of "expire_one now k st"] ids same Cons.prems(1) by simp
qed simp

lemma check_expired_tasks:
  "f_tasks (snd (check_expired_leases ord f)) k =
     (if k \<in> set ord then map_option (sweep_task (f_now f)) (f_tasks f k) else f_tasks f k)"
  by (auto simp: check_expired_leases_def Let_def expire_fold_tasks)

lemma check_expired_frame [simp]:
  "f_now (snd (check_expired_leases ord f)) = f_now f"
  "f_store (snd (check_expired_leases ord f)) = f_store f"
  "f_epoch (snd (check_expired_leases ord f)) = f_epoch f"
  by (simp_all add: check_expired_leases_def Let_def)

lemma check_expired_ids:
  assumes "distinct ord" "fabric_wf f"
  shows "fst (check_expired_leases ord f) = filter (swept (f_now f) (f_tasks f)) ord"
proof -
  have "t_id t = tid" if "f_tasks f tid = Some t" for tid t
    using fabric_wfD [OF assms(2) that] by (simp add: task_wf_def)
  then show ?thesis
    using assms(1) expire_fold_ids [of "range_keys (f_tasks f) ord" "(f, [])" "f_now f"]
    by (auto simp: check_expired_leases_def Let_def range_keys_def swept_def intro!: filter_cong split: option.splits)
qed

section \<open>Tokens that are not current\<close>

lemma owner_locked_token: "owner_locked f tid a ep = Inr t \<Longrightarrow> current_token f tid = Some ep"
  by (auto simp: owner_locked_Inr current_token_Some)

text \<open>An operation that returns an error and changes nothing.\<close>

definition refused :: "(fabric_error, 'a, fabric) outcome \<Rightarrow> fabric \<Rightarrow> bool" where
  "refused r f \<longleftrightarrow> snd r = f \<and> isl (fst r)"

lemma not_current_Inl:
  assumes "current_token f tid \<noteq> Some ep"
  obtains e where "owner_locked f tid a ep = Inl e"
  using assms owner_locked_token by (cases "owner_locked f tid a ep") auto

lemma not_current_refused:
  assumes "current_token f tid \<noteq> Some ep"
  shows "refused (start tid a ep f) f" "refused (yield_task tid a ep cp f) f"
    "refused (complete tid a ep f) f" "refused (complete_with_checkpoint tid a ep cp f) f"
    "refused (fail tid a ep f) f" "refused (renew tid a ep ttl f) f"
    "refused (release tid a ep f) f" "refused (preempt tid a ep f) f"
  by (rule not_current_Inl [OF assms, of a],
      simp add: refused_def start_def yield_task_def complete_def complete_with_checkpoint_def
        fail_def renew_def release_def preempt_def)+

section \<open>Frames\<close>

text \<open>The task and the token an operation presents, if it presents one.\<close>

fun presents :: "fabric_op \<Rightarrow> (string \<times> u64) option" where
  "presents (OpStart tid a ep) = Some (tid, ep)"
| "presents (OpYield tid a ep cp) = Some (tid, ep)"
| "presents (OpComplete tid a ep) = Some (tid, ep)"
| "presents (OpCompleteCp tid a ep cp) = Some (tid, ep)"
| "presents (OpFail tid a ep) = Some (tid, ep)"
| "presents (OpRenew tid a ep ttl) = Some (tid, ep)"
| "presents (OpRelease tid a ep) = Some (tid, ep)"
| "presents (OpPreempt tid a ep) = Some (tid, ep)"
| "presents _ = None"

lemma token_ops_frame:
  assumes "k \<noteq> tid"
  shows "f_tasks (snd (start tid a ep f)) k = f_tasks f k"
    "f_tasks (snd (yield_task tid a ep cp f)) k = f_tasks f k"
    "f_tasks (snd (complete tid a ep f)) k = f_tasks f k"
    "f_tasks (snd (complete_with_checkpoint tid a ep cp f)) k = f_tasks f k"
    "f_tasks (snd (fail tid a ep f)) k = f_tasks f k"
    "f_tasks (snd (renew tid a ep ttl f)) k = f_tasks f k"
    "f_tasks (snd (release tid a ep f)) k = f_tasks f k"
    "f_tasks (snd (preempt tid a ep f)) k = f_tasks f k"
    "f_tasks (snd (delete tid f)) k = f_tasks f k"
    "f_tasks (snd (acquire tid a ttl f)) k = f_tasks f k"
  using assms
  by (simp_all add: handler_defs Let_def split: sum.splits option.splits)

lemma presents_frame:
  assumes "presents x = Some (tid, ep)" "k \<noteq> tid \<or> current_token f tid \<noteq> Some ep"
  shows "f_tasks (exec_op x f) k = f_tasks f k"
proof (cases "k = tid")
  case True
  with assms show ?thesis
    by (cases x) (simp_all add: not_current_refused [unfolded refused_def])
next
  case False
  with assms show ?thesis by (cases x) (simp_all add: token_ops_frame)
qed

lemma acquire_env:
  "f_now (snd (acquire tid a ttl f)) = f_now f" "f_store (snd (acquire tid a ttl f)) = f_store f"
  by (simp_all add: acquire_def Let_def split: option.splits sum.splits)

lemma schedule_env:
  "f_now (snd (schedule tid cs ttl f)) = f_now f" "f_store (snd (schedule tid cs ttl f)) = f_store f"
  using schedule_snd [of tid cs ttl f] acquire_env by auto

lemma exec_op_now: "x \<notin> range OpClock \<Longrightarrow> f_now (exec_op x f) = f_now f"
  by (cases x) (simp_all add: acquire_env schedule_env handler_defs Let_def with_event_store_def
      with_confidence_source_def split: sum.splits option.splits)

lemma exec_op_store: "x \<notin> range OpStore \<Longrightarrow> f_store (exec_op x f) = f_store f"
  by (cases x) (simp_all add: acquire_env schedule_env handler_defs Let_def with_clock_def
      with_confidence_source_def split: sum.splits option.splits)

end
