(* ===== verification/Task_Fabric_Log.thy ===== *)
theory Task_Fabric_Log
  imports Task_Fabric_Sweep "HOL-Library.Sublist"
begin

text \<open>
  The fabric's two logs and the task lifecycle. \<open>replay\<close> is the recovery path the code's comments
  describe: fold the event log into the state and owner of every task.
\<close>

section \<open>Replaying the event log\<close>

fun replay_event :: "task_event \<Rightarrow> (string \<rightharpoonup> task_state \<times> string) \<Rightarrow> (string \<rightharpoonup> task_state \<times> string)" where
  "replay_event e m = m(e_task e \<mapsto> (e_state e, e_agent e))"

definition replay :: "task_event list \<Rightarrow> (string \<rightharpoonup> task_state \<times> string)" where
  "replay evs = fold replay_event evs Map.empty"

lemma replay_snoc [simp]: "replay (evs @ [e]) = (replay evs)(e_task e \<mapsto> (e_state e, e_agent e))"
  by (simp add: replay_def)

lemma replay_one_task:
  "evs \<noteq> [] \<Longrightarrow> replay (evs0 @ map (\<lambda>et. event_of t et now) evs) = (replay evs0)(t_id t \<mapsto> (t_state t, t_owner t))"
proof (induction evs rule: rev_induct)
  case (snoc et evs)
  then show ?case
    by (cases "evs = []") (simp_all add: fun_eq_iff flip: append_assoc)
qed simp

definition log_faithful :: "fabric \<Rightarrow> bool" where
  "log_faithful f \<longleftrightarrow>
     (\<forall>tid t. f_tasks f tid = Some t \<longrightarrow> replay (f_events f) tid = Some (t_state t, t_owner t))"

lemma log_faithful_update:
  "log_faithful f \<Longrightarrow> f_tasks g = (f_tasks f)(tid \<mapsto> t') \<Longrightarrow>
     replay (f_events g) = (replay (f_events f))(tid \<mapsto> (t_state t', t_owner t')) \<Longrightarrow> log_faithful g"
  by (simp add: log_faithful_def)

lemma log_faithful_same:
  "log_faithful f \<Longrightarrow> f_tasks f tid = Some t \<Longrightarrow> f_tasks g = (f_tasks f)(tid \<mapsto> t') \<Longrightarrow>
     f_events g = f_events f \<Longrightarrow> t_state t' = t_state t \<Longrightarrow> t_owner t' = t_owner t \<Longrightarrow> log_faithful g"
  by (simp add: log_faithful_def)

lemma fstep_log_faithful: "fstep f g \<Longrightarrow> fabric_wf f \<Longrightarrow> log_faithful f \<Longrightarrow> log_faithful g"
proof (induction rule: fstep.induct)
  case (fs_acquire f tid t l t')
  then have wf: "task_wf (f_epoch f) tid t" by (blast dest: fabric_wfD)
  show ?case
    by (rule log_faithful_update [of f _ tid t'])
      (use fs_acquire wf in \<open>auto simp: task_wf_def split: option.splits\<close>)
next
  case (fs_move f tid t l t' evs)
  then have wf: "task_wf (f_epoch f) tid t" by (blast dest: fabric_wfD)
  show ?case
    by (rule log_faithful_update [of f _ tid t'])
      (use moved_task [OF fs_move(6)] fs_move(1,2,5,7,8) wf in \<open>auto simp: replay_one_task task_wf_def\<close>)
next
  case (fs_requeue f tid t l evs t')
  then have wf: "task_wf (f_epoch f) tid t" by (blast dest: fabric_wfD)
  show ?case
    by (rule log_faithful_update [of f _ tid t'])
      (use requeued_task [OF fs_requeue(5)] fs_requeue(1,2,4,6,7) wf in \<open>auto simp: replay_one_task task_wf_def\<close>)
next
  case (fs_refused f tid t l t')
  show ?case
    by (rule log_faithful_same [of f tid t _ t'])
      (use refused_task [OF fs_refused(3)] fs_refused(1,2,5) in simp_all)
next
  case (fs_renew f tid t l t' x)
  show ?case
    by (rule log_faithful_same [of f tid t _ t']) (use fs_renew in simp_all)
qed (auto simp: log_faithful_def)

lemma frun_log_faithful:
  "frun n f g \<Longrightarrow> fabric_wf f \<Longrightarrow> unat (f_epoch f) + n < 2 ^ 64 \<Longrightarrow> log_faithful f \<Longrightarrow> log_faithful g"
proof (induction rule: frun.induct)
  case (frun_keep n f g h)
  then show ?case using fstep_log_faithful frun_wf [OF frun_keep(1)] by blast
next
  case (frun_bump n f g h)
  then show ?case using fstep_log_faithful frun_wf [OF frun_bump(1)] by simp
qed simp

section \<open>The logs only grow\<close>

definition durable_of :: "task_event \<Rightarrow> durable_event" where
  "durable_of e = \<lparr>d_type = task_event_type (e_type e), d_stream = e_task e, d_agent = e_agent e,
     d_origin = e_origin e, d_state = e_state e, d_at = e_at e, d_kind = e_type e\<rparr>"

definition log_below :: "fabric \<Rightarrow> fabric \<Rightarrow> bool" where
  "log_below f g \<longleftrightarrow> (\<exists>new. f_events g = f_events f @ new
     \<and> f_appends g = f_appends f @ (if f_store f then map durable_of new else []))"

lemma record_log_below: "log_below f (record_locked t et f)"
  by (simp add: log_below_def record_locked_def durable_of_def event_of_def pending_append_def)

lemma log_below_refl [simp]: "log_below f f"
  by (simp add: log_below_def)

lemma log_below_trans: "log_below f g \<Longrightarrow> f_store g = f_store f \<Longrightarrow> log_below g h \<Longrightarrow> log_below f h"
  unfolding log_below_def by auto

lemma record_all_log_below: "log_below f (record_all t evs f)"
proof (induction evs arbitrary: f)
  case (Cons et evs)
  show ?case
    by (simp add: log_below_trans [OF record_log_below _ Cons])
qed simp

lemma log_below_put: "log_below (put_task tid t f) g \<Longrightarrow> log_below f g"
  by (simp add: log_below_def put_task_def)

lemmas put_record_below = log_below_put [OF record_log_below] log_below_put [OF record_all_log_below]

lemma fstep_log_below: "fstep f g \<Longrightarrow> log_below f g"
proof (induction rule: fstep.induct)
  case (fs_acquire f tid t l t')
  show ?case using log_below_put [OF record_log_below [where t = t' and et = EventTaskAcquired
        and f = "put_task tid t' (f\<lparr>f_epoch := f_epoch f + 1\<rparr>)"]]
    by (simp add: log_below_def)
qed (simp_all only: put_record_below, simp_all add: log_below_def)

lemma expire_fold_log_below: "log_below (fst st) (fst (fold (expire_one now) ks st))"
proof (induction ks arbitrary: st)
  case (Cons k ks)
  show ?case
    using log_below_trans [OF fstep_log_below] Cons [of "expire_one now k st"]
      expire_one_fstep [of st now k] by simp
qed simp

lemma exec_op_log_below: "log_below f (exec_op x f)"
proof (cases "\<exists>ord. x = OpExpire ord")
  case True
  then show ?thesis
    using expire_fold_log_below [of "(f, [])"] by (auto simp: check_expired_leases_def Let_def)
next
  case False
  then have "fstep f (exec_op x f)" by (cases x) (simp_all add: op_fsteps)
  then show ?thesis by (rule fstep_log_below)
qed

definition log_prefix :: "fabric \<Rightarrow> fabric \<Rightarrow> bool" where
  "log_prefix f g \<longleftrightarrow> prefix (f_events f) (f_events g) \<and> prefix (f_appends f) (f_appends g)"

interpretation fabric_log: growing_system exec_op log_prefix
proof
  show "log_prefix s (exec_op x s)" for s x
    using exec_op_log_below [of s x] by (auto simp: log_below_def log_prefix_def)
qed (auto simp: log_prefix_def)

section \<open>The lifecycle\<close>

text \<open>
  The documented state machine of one task (the comment over \<open>canTransition\<close> and
  \<open>docs/zh/architecture/ares-runtime.md\<close>), written out pair by pair and independently of the code's
  switch, and the moves each call may make on a task, its creation and its deletion included.
\<close>

definition documented_moves :: "(task_state \<times> task_state) set" where
  "documented_moves =
     {(StateReady, StateLeased),
      (StateLeased, StateRunning), (StateLeased, StateReady),
      (StateRunning, StateCompleted), (StateRunning, StateFailed), (StateRunning, StateSuspended),
      (StateRunning, StateReady),
      (StateSuspended, StateLeased), (StateSuspended, StateReady)}"

definition given_up :: "(task_state option \<times> task_state option) set" where
  "given_up = {(Some StateLeased, Some StateReady), (Some StateRunning, Some StateReady),
     (Some StateSuspended, Some StateReady)}"

fun call_moves :: "fabric_op \<Rightarrow> (task_state option \<times> task_state option) set" where
  "call_moves (OpCreate t) = {(None, Some StateReady)}"
| "call_moves (OpAcquire tid a ttl) =
     {(Some StateReady, Some StateLeased), (Some StateSuspended, Some StateLeased)}"
| "call_moves (OpSchedule tid cs ttl) =
     {(Some StateReady, Some StateLeased), (Some StateSuspended, Some StateLeased)}"
| "call_moves (OpStart tid a ep) = {(Some StateLeased, Some StateRunning)}"
| "call_moves (OpYield tid a ep cp) = {(Some StateRunning, Some StateSuspended)}"
| "call_moves (OpComplete tid a ep) = {(Some StateRunning, Some StateCompleted)}"
| "call_moves (OpCompleteCp tid a ep cp) = {(Some StateRunning, Some StateCompleted)}"
| "call_moves (OpFail tid a ep) = insert (Some StateRunning, Some StateFailed) given_up"
| "call_moves (OpRelease tid a ep) = given_up"
| "call_moves (OpPreempt tid a ep) = given_up"
| "call_moves (OpExpire ord) = given_up"
| "call_moves (OpDelete tid) =
     {(Some StateReady, None), (Some StateCompleted, None), (Some StateFailed, None)}"
| "call_moves x = {}"

text \<open>The task a call is about; a sweep is about every task.\<close>

fun op_about :: "fabric_op \<Rightarrow> string \<Rightarrow> bool" where
  "op_about (OpCreate t) k = (t_id t = k)"
| "op_about (OpAcquire tid a ttl) k = (tid = k)"
| "op_about (OpSchedule tid cs ttl) k = (tid = k)"
| "op_about (OpStart tid a ep) k = (tid = k)"
| "op_about (OpYield tid a ep cp) k = (tid = k)"
| "op_about (OpComplete tid a ep) k = (tid = k)"
| "op_about (OpCompleteCp tid a ep cp) k = (tid = k)"
| "op_about (OpFail tid a ep) k = (tid = k)"
| "op_about (OpRelease tid a ep) k = (tid = k)"
| "op_about (OpPreempt tid a ep) k = (tid = k)"
| "op_about (OpExpire ord) k = True"
| "op_about (OpDelete tid) k = (tid = k)"
| "op_about x k = False"

lemma can_transition_documented: "can_transition s s' \<longleftrightarrow> (s, s') \<in> documented_moves"
  by (cases s; cases s') (simp_all add: documented_moves_def)

definition state_of :: "fabric \<Rightarrow> string \<Rightarrow> task_state option" where
  "state_of f tid = map_option t_state (f_tasks f tid)"

definition moves_by :: "fabric_op \<Rightarrow> string \<Rightarrow> task_state option \<Rightarrow> task_state option \<Rightarrow> bool" where
  "moves_by x k s s' \<longleftrightarrow> s' = s \<or> op_about x k \<and> (s, s') \<in> call_moves x"

lemma acquire_moves:
  "moves_by (OpAcquire tid a ttl) k (state_of f k) (state_of (snd (acquire tid a ttl f)) k)"
  by (auto simp: moves_by_def state_of_def acquire_def Let_def transition_def put_task_def
      split: option.splits)

lemma schedule_moves:
  "moves_by (OpSchedule tid cs ttl) k (state_of f k) (state_of (snd (schedule tid cs ttl f)) k)"
proof -
  have "moves_by (OpSchedule tid cs ttl) k = moves_by (OpAcquire tid a ttl) k" for a
    by (simp add: fun_eq_iff moves_by_def)
  then show ?thesis
    using schedule_snd [of tid cs ttl f] acquire_moves [of tid _ ttl k f]
    by (metis moves_by_def)
qed

lemma sweep_moves:
  "moves_by (OpExpire ord) k (state_of f k) (state_of (snd (check_expired_leases ord f)) k)"
proof (cases "f_tasks f k")
  case (Some t)
  then show ?thesis
    by (auto simp: moves_by_def state_of_def check_expired_tasks sweep_task_def sweepable_def given_up_def)
qed (simp add: moves_by_def state_of_def check_expired_tasks)

lemma owner_moves:
  "moves_by (OpStart tid a ep) k (state_of f k) (state_of (snd (start tid a ep f)) k)"
  "moves_by (OpYield tid a ep cp) k (state_of f k) (state_of (snd (yield_task tid a ep cp f)) k)"
  "moves_by (OpComplete tid a ep) k (state_of f k) (state_of (snd (complete tid a ep f)) k)"
  "moves_by (OpCompleteCp tid a ep cp) k (state_of f k)
     (state_of (snd (complete_with_checkpoint tid a ep cp f)) k)"
  "moves_by (OpFail tid a ep) k (state_of f k) (state_of (snd (fail tid a ep f)) k)"
  "moves_by (OpRenew tid a ep ttl) k (state_of f k) (state_of (snd (renew tid a ep ttl f)) k)"
  "moves_by (OpRelease tid a ep) k (state_of f k) (state_of (snd (release tid a ep f)) k)"
  "moves_by (OpPreempt tid a ep) k (state_of f k) (state_of (snd (preempt tid a ep f)) k)"
  by (auto simp: moves_by_def state_of_def handler_defs owner_locked_Inr transition_def put_task_def
      count_attempt_def can_transition_iff given_up_def Let_def split: sum.splits option.splits if_splits)

lemma place_moves:
  "moves_by (OpCreate t) k (state_of f k) (state_of (snd (create t f)) k)"
  "moves_by (OpDelete tid) k (state_of f k) (state_of (snd (delete tid f)) k)"
  "moves_by (OpClock now) k (state_of f k) (state_of (with_clock now f) k)"
  "moves_by (OpConfidence src) k (state_of f k) (state_of (with_confidence_source src f) k)"
  "moves_by (OpStore b) k (state_of f k) (state_of (with_event_store b f) k)"
  by (auto simp: moves_by_def state_of_def create_def delete_def put_task_def with_clock_def
      with_confidence_source_def with_event_store_def Let_def split: option.splits if_splits)

lemma exec_op_moves: "moves_by x k (state_of f k) (state_of (exec_op x f) k)"
  by (cases x) (simp_all add: acquire_moves schedule_moves sweep_moves owner_moves place_moves)

text \<open>Only a deletion removes a task.\<close>

lemma exec_op_kept: "f_tasks f tid \<noteq> None \<Longrightarrow> x \<noteq> OpDelete tid \<Longrightarrow> f_tasks (exec_op x f) tid \<noteq> None"
proof (cases "presents x")
  case None
  assume here: "f_tasks f tid \<noteq> None" and other: "x \<noteq> OpDelete tid"
  have acq: "\<exists>t. f_tasks (snd (acquire k a ttl f)) tid = Some t" for k a ttl
    using here by (auto simp: acquire_def Let_def split: option.splits sum.splits)
  moreover have "\<exists>t. f_tasks (snd (schedule k cs ttl f)) tid = Some t" for k cs ttl
    using acq here schedule_snd [of k cs ttl f] by auto
  ultimately show ?thesis
    using None here other acq
    by (cases x) (auto simp: create_def delete_def check_expired_tasks with_clock_def
      with_confidence_source_def with_event_store_def Let_def split: option.splits)
next
  case (Some p)
  assume here: "f_tasks f tid \<noteq> None"
  then show ?thesis
    using Some by (cases x) (auto simp: handler_defs owner_locked_def Let_def
      split: sum.splits option.splits if_splits)
qed

end
