(* ===== verification/Task_Fabric_Props.thy ===== *)
theory Task_Fabric_Props
  imports Task_Fabric_Log Task_Quantum
begin

text \<open>
  The properties of the Task Fabric: its invariant over every sequence of calls, fencing and
  exclusive ownership, the lifecycle, the logs as a recovery source, the sweep over expired leases,
  the error paths, the quantum and the retry budget.
\<close>

section \<open>Safety of every sequence of calls\<close>

lemma exec_ops_wf: "fabric_wf f \<Longrightarrow> length ops \<le> epoch_budget f \<Longrightarrow> fabric_wf (exec_ops ops f)"
  unfolding exec_ops_def by (rule fabric_fence.run_inv)

lemma epoch_budget_new [simp]: "epoch_budget (new_fabric now) = 2 ^ 64 - 1"
  by (simp add: epoch_budget_def new_fabric_def)

text \<open>C1: Whatever calls are made on a fresh fabric, in whatever order and with whatever arguments,
  every task is stored under its own id, has an owner exactly when it has a lease, is unowned
  exactly when it is READY, carries an epoch the counter has handed out, and shares its epoch
  with no other task, as long as fewer than \<open>2 ^ 64\<close> calls were made.\<close>

theorem fabric_wf_reachable:
  "length ops < 2 ^ 64 \<Longrightarrow> fabric_wf (exec_ops ops (new_fabric now))"
  by (rule exec_ops_wf) simp_all

lemma fabric_wf_reachable_witness:
  "fabric_wf (exec_ops [OpAcquire ''t'' ''a'' 5, OpExpire [''t'']] (new_fabric 7))"
  by (rule fabric_wf_reachable) simp

text \<open>C2: Fencing. Once a task's token has been superseded, by whatever calls, no later sequence of
  calls makes it good again: every operation that presents it, from any agent, is refused and
  leaves the fabric as it was.\<close>

theorem superseded_token_refused:
  assumes "fabric_wf f" "length ops + length ops' \<le> epoch_budget f"
    and "current_token f tid = Some ep" "current_token (exec_ops ops f) tid \<noteq> Some ep"
    and "g = exec_ops (ops @ ops') f"
  shows "refused (start tid a ep g) g \<and> refused (yield_task tid a ep cp g) g
    \<and> refused (complete tid a ep g) g \<and> refused (complete_with_checkpoint tid a ep cp g) g
    \<and> refused (fail tid a ep g) g \<and> refused (renew tid a ep ttl g) g
    \<and> refused (release tid a ep g) g \<and> refused (preempt tid a ep g) g"
proof -
  have "current_token g tid \<noteq> Some ep"
    using fabric_fence.superseded_forever assms unfolding exec_ops_def by blast
  then show ?thesis by (simp add: not_current_refused)
qed

text \<open>A concrete fabric for the witnesses: one READY task.\<close>

definition sample_task :: task where
  "sample_task = \<lparr>t_id = ''t'', t_capability = ''code'', t_state = StateReady, t_priority = 1,
     t_owner = '''', t_lease = None, t_checkpoint = GInt 3, t_deps = [], t_deadline = 0,
     t_retry = \<lparr>rp_max = 2, rp_attempts = 0\<rparr>, t_origin = ''''\<rparr>"

definition sample_fabric :: fabric where
  "sample_fabric = exec_ops [OpCreate sample_task] (new_fabric 0)"

definition leased_fabric :: fabric where
  "leased_fabric = exec_ops [OpAcquire ''t'' ''a'' 5] sample_fabric"

lemmas sample_defs = leased_fabric_def sample_fabric_def sample_task_def new_fabric_def create_def
  acquire_def Let_def disown_def put_task_def record_locked_def event_of_def transition_def
  pending_append_def

lemma sample_fabric_wf: "fabric_wf sample_fabric" "fabric_wf leased_fabric"
  unfolding sample_fabric_def leased_fabric_def
  using exec_ops_wf [of "new_fabric 0" "[OpCreate sample_task]"]
    exec_ops_wf [of "new_fabric 0" "[OpCreate sample_task, OpAcquire ''t'' ''a'' 5]"] by simp_all

lemma leased_token: "current_token leased_fabric ''t'' = Some 1" "epoch_budget leased_fabric = 2 ^ 64 - 2"
  by (simp_all add: current_token_def epoch_budget_def sample_defs)

lemma sample_acquired:
  "fst (acquire ''t'' ''a'' 5 sample_fabric) = Inr 1"
  "leased_fabric = snd (acquire ''t'' ''a'' 5 sample_fabric)"
  "0 < epoch_budget sample_fabric"
  by (simp_all add: epoch_budget_def sample_defs)

lemma superseded_token_refused_witness:
  "refused (complete ''t'' ''a'' 1 (exec_ops [OpRelease ''t'' ''a'' 1, OpAcquire ''t'' ''b'' 5] leased_fabric))
     (exec_ops [OpRelease ''t'' ''a'' 1, OpAcquire ''t'' ''b'' 5] leased_fabric)"
proof -
  have "current_token (exec_ops [OpRelease ''t'' ''a'' 1] leased_fabric) ''t'' \<noteq> Some 1"
    by (simp add: release_def owner_locked_def current_token_def sample_defs)
  then show ?thesis
    using superseded_token_refused [of leased_fabric "[OpRelease ''t'' ''a'' 1]"
        "[OpAcquire ''t'' ''b'' 5]" "''t''" 1 _ "''a''"]
    by (simp add: sample_fabric_wf leased_token)
qed

section \<open>Exclusive ownership\<close>

lemma acquire_Inr:
  assumes "fst (acquire tid a ttl f) = Inr ep"
  obtains t where "f_tasks f tid = Some t" "t_state t \<in> {StateReady, StateSuspended}" "a \<noteq> ''''"
    "ep = f_epoch f + 1"
    "f_tasks (snd (acquire tid a ttl f)) = (f_tasks f)(tid \<mapsto> t\<lparr>t_state := StateLeased, t_owner := a,
       t_lease := Some \<lparr>l_owner = a, l_expires = f_now f + ttl, l_epoch = ep\<rparr>\<rparr>)"
  using assms
  by (auto simp: acquire_def Let_def transition_def can_transition_Leased split: option.splits if_splits)

text \<open>C3: A successful acquisition has a single winner. Its token was never handed out before and is
  the task's only good one; of all agents only the winner is accepted with it; and every further
  acquisition of the task, by any agent, is refused.\<close>

theorem acquire_single_winner:
  assumes "fabric_wf f" "0 < epoch_budget f" "fst (acquire tid a ttl f) = Inr ep"
    and "g = snd (acquire tid a ttl f)"
  shows "\<not> token_issued f ep \<and> current_token g tid = Some ep
    \<and> (\<forall>b ep'. isl (owner_locked g tid b ep') \<longleftrightarrow> \<not> (b = a \<and> ep' = ep))
    \<and> (\<forall>b ttl'. refused (acquire tid b ttl' g) g)"
proof -
  obtain t where t: "a \<noteq> ''''" "ep = f_epoch f + 1"
    "f_tasks g tid = Some (t\<lparr>t_state := StateLeased, t_owner := a,
       t_lease := Some \<lparr>l_owner = a, l_expires = f_now f + ttl, l_epoch = ep\<rparr>\<rparr>)"
    using acquire_Inr [OF assms(3)] assms(4) by (metis fun_upd_same)
  have "unat ep = unat (f_epoch f) + 1"
    using assms(2) t(2) unat_epoch_Suc by (simp add: epoch_budget_def)
  then show ?thesis
    using t by (simp add: token_issued_def word_le_nat_alt current_token_def owner_locked_def
      acquire_def refused_def)
qed

lemma acquire_single_winner_witness:
  "\<not> token_issued sample_fabric 1 \<and> refused (acquire ''t'' ''b'' 9 leased_fabric) leased_fabric"
  using acquire_single_winner [OF sample_fabric_wf(1) sample_acquired(3,1,2)] by blast

text \<open>Calls that neither present the task's token nor move the clock to the lease's end.\<close>

fun spares :: "string \<Rightarrow> u64 \<Rightarrow> time \<Rightarrow> fabric_op \<Rightarrow> bool" where
  "spares tid ep until (OpClock now) = (now < until)"
| "spares tid ep until x = (presents x \<noteq> Some (tid, ep))"

lemma exec_op_spares:
  assumes "f_tasks f tid = Some t" "t_lease t = Some l" "t_state t \<in> {StateLeased, StateRunning}"
    and "f_now f < l_expires l" "spares tid (l_epoch l) (l_expires l) x"
  shows "f_tasks (exec_op x f) tid = Some t \<and> f_now (exec_op x f) < l_expires l"
proof (cases "presents x")
  case (Some p)
  obtain k ep where p: "p = (k, ep)" by (cases p)
  have "x \<notin> range OpClock" using Some by auto
  moreover have "tid \<noteq> k \<or> current_token f k \<noteq> Some ep"
    using assms(1,2,5) Some p by (cases x) (auto simp: current_token_Some)
  ultimately show ?thesis
    using presents_frame [of x k ep tid f] exec_op_now [of x f] Some p assms(1,4) by simp
next
  case None
  have acq: "f_tasks (snd (acquire k a ttl f)) tid = Some t" for k a ttl
  proof (cases "k = tid")
    case True
    then show ?thesis using assms(1,3) by (auto simp: acquire_def)
  qed (use assms(1) token_ops_frame in simp)
  have "sweep_task (f_now f) t = t"
    using assms(2,4) by (simp add: sweep_task_def sweepable_def)
  moreover have sch: "f_tasks (snd (schedule k cs ttl f)) tid = Some t" for k cs ttl
    using acq assms(1) schedule_snd [of k cs ttl f] by auto
  ultimately have "f_tasks (exec_op x f) tid = Some t"
    using None assms acq
    by (cases x) (auto simp: create_def delete_def check_expired_tasks with_clock_def
      with_confidence_source_def with_event_store_def Let_def split: option.splits)
  moreover have "f_now (exec_op x f) < l_expires l"
    using assms(4,5) exec_op_now [of x f]
    by (cases "x \<in> range OpClock") (auto simp: with_clock_def)
  ultimately show ?thesis by simp
qed

text \<open>The running hold on a task, and the exclusive-holder contract.\<close>

definition holds_task :: "fabric \<Rightarrow> string \<Rightarrow> task \<Rightarrow> bool" where
  "holds_task f tid t \<longleftrightarrow> f_tasks f tid = Some t \<and> t_state t \<in> {StateLeased, StateRunning}
     \<and> (case t_lease t of None \<Rightarrow> False | Some l \<Rightarrow> f_now f < l_expires l)"

definition spares_task :: "string \<Rightarrow> task \<Rightarrow> fabric_op \<Rightarrow> bool" where
  "spares_task tid t x \<longleftrightarrow>
     (case t_lease t of None \<Rightarrow> False | Some l \<Rightarrow> spares tid (l_epoch l) (l_expires l) x)"

interpretation task_exclusive: exclusive_holder exec_op holds_task spares_task
proof
  show "holds_task (exec_op x f) tid t" if "holds_task f tid t" "spares_task tid t x" for f tid t x
    using that exec_op_spares [of f tid t _ x]
    by (auto simp: holds_task_def spares_task_def split: option.splits)
qed (simp add: holds_task_def)

text \<open>C4: Ownership is exclusive. While a task is LEASED or RUNNING and its lease has not run out, no
  sequence of calls that does not present the task's token changes anything in the task: not
  other agents' calls, not acquisitions, not scheduling, not the sweep, not a deletion.\<close>

theorem lease_exclusive:
  assumes "f_tasks f tid = Some t" "t_lease t = Some l" "t_state t \<in> {StateLeased, StateRunning}"
    and "f_now f < l_expires l" "list_all (spares tid (l_epoch l) (l_expires l)) ops"
  shows "f_tasks (exec_ops ops f) tid = Some t"
proof -
  have "list_all (spares_task tid t) ops"
    using assms(2,5) by (simp add: spares_task_def list_all_iff)
  then show ?thesis
    using task_exclusive.run_held [of f tid t ops] assms by (simp add: holds_task_def exec_ops_def)
qed

lemma lease_exclusive_witness:
  "f_tasks (exec_ops [OpStart ''t'' ''b'' 9, OpAcquire ''t'' ''b'' 5, OpClock 4, OpExpire [''t''],
     OpDelete ''t''] leased_fabric) ''t'' = f_tasks leased_fabric ''t''"
proof -
  obtain t l where "f_tasks leased_fabric ''t'' = Some t" "t_lease t = Some l"
    "t_state t = StateLeased" "l_epoch l = 1" "l_expires l = 5" "f_now leased_fabric = 0"
    by (simp add: sample_defs)
  then show ?thesis
    using lease_exclusive [of leased_fabric "''t''" t l] by (simp del: exec_ops_simps)
qed

section \<open>The lifecycle\<close>


text \<open>COMPLETED and FAILED are final. No sequence of calls without a deletion of the task moves
  it out of them.\<close>

lemma terminal_moves:
  "moves_by x k (Some s) s' \<Longrightarrow> s \<in> {StateCompleted, StateFailed} \<Longrightarrow> s' = Some s \<or> s' = None"
  by (cases x) (auto simp: moves_by_def given_up_def)

theorem terminal_final:
  assumes "state_of f tid = Some s" "s \<in> {StateCompleted, StateFailed}" "OpDelete tid \<notin> set ops"
  shows "state_of (exec_ops ops f) tid = Some s"
  unfolding exec_ops_def
proof (rule fold_preserves)
  fix x g
  assume x: "x \<in> set ops" and g: "state_of g tid = Some s"
  have "x \<noteq> OpDelete tid" using x assms(3) by auto
  then have kept: "state_of (exec_op x g) tid \<noteq> None"
    using g exec_op_kept [of g tid x] by (auto simp: state_of_def)
  show "state_of (exec_op x g) tid = Some s"
    using kept terminal_moves [OF exec_op_moves [of x tid g, unfolded g] assms(2)] by (elim disjE) simp_all
qed (rule assms(1))

lemma terminal_final_witness:
  "state_of (exec_ops [OpFail ''t'' ''a'' 1, OpClock 9, OpExpire [''t'']]
     (exec_ops [OpStart ''t'' ''a'' 1, OpComplete ''t'' ''a'' 1] leased_fabric)) ''t'' = Some StateCompleted"
  by (rule terminal_final)
    (simp_all add: state_of_def start_def complete_def owner_locked_def sample_defs)

section \<open>The logs\<close>

lemma log_faithful_new [simp]: "log_faithful (new_fabric now)"
  by (simp add: log_faithful_def new_fabric_def)

lemma exec_ops_faithful:
  assumes "length ops < 2 ^ 64" "f_epoch f = 0" "f_tasks f = Map.empty" "f_events f = []"
  shows "log_faithful (exec_ops ops f)"
proof -
  obtain n where n: "n \<le> length ops" "frun n f (exec_ops ops f)" using exec_ops_frun by blast
  have "unat (f_epoch f) + n < 2 ^ 64" using n(1) assms by simp
  moreover have "fabric_wf f" "log_faithful f"
    using assms by (simp_all add: fabric_wf_def current_token_def log_faithful_def)
  ultimately show ?thesis using frun_log_faithful [OF n(2)] by blast
qed

text \<open>The event log is a faithful record. After any calls on a fresh fabric, replaying the log
  gives the state and the owner of every task the fabric holds.\<close>

theorem replay_reconstructs:
  assumes "length ops < 2 ^ 64" "f = exec_ops ops (new_fabric now)" "f_tasks f tid = Some t"
  shows "replay (get_events f) tid = Some (t_state t, t_owner t)"
  using exec_ops_faithful [OF assms(1), of "new_fabric now"] assms(2,3)
  by (simp add: log_faithful_def get_events_def new_fabric_def)

lemma leased_fabric_run:
  "leased_fabric = exec_ops [OpCreate sample_task, OpAcquire ''t'' ''a'' 5] (new_fabric 0)"
  by (simp add: leased_fabric_def sample_fabric_def)

lemma replay_reconstructs_witness:
  "replay (get_events leased_fabric) ''t'' = Some (StateLeased, ''a'')"
proof -
  obtain t where t: "f_tasks leased_fabric ''t'' = Some t" "t_state t = StateLeased" "t_owner t = ''a''"
    by (simp add: sample_defs)
  show ?thesis
    using replay_reconstructs [OF _ leased_fabric_run t(1)] t(2,3) by simp
qed

lemma exec_ops_mirrored:
  assumes "f_store f" "f_appends f = map durable_of (f_events f)" "set ops \<inter> range OpStore = {}"
  shows "f_appends (exec_ops ops f) = map durable_of (f_events (exec_ops ops f))"
proof -
  have "f_store (exec_ops ops f) \<and> f_appends (exec_ops ops f) = map durable_of (f_events (exec_ops ops f))"
    unfolding exec_ops_def
  proof (rule fold_preserves)
    fix x and g :: fabric
    assume "x \<in> set ops" and g: "f_store g \<and> f_appends g = map durable_of (f_events g)"
    then have "x \<notin> range OpStore" using assms(3) by blast
    then show "f_store (exec_op x g) \<and> f_appends (exec_op x g) = map durable_of (f_events (exec_op x g))"
      using exec_op_store [of x g] exec_op_log_below [of g x] g by (auto simp: log_below_def)
  qed (simp add: assms)
  then show ?thesis ..
qed

text \<open>With an event store attached and never detached, the writes handed to it are the in-memory
  log, event by event and in order.\<close>

theorem durable_log_mirrors:
  assumes "f_store f" "f_appends f = map durable_of (f_events f)" "set ops \<inter> range OpStore = {}"
  shows "f_appends (exec_ops ops f) = map durable_of (f_events (exec_ops ops f))"
  by (rule exec_ops_mirrored [OF assms])

lemma durable_log_mirrors_witness:
  "f_appends (exec_ops [OpCreate sample_task, OpAcquire ''t'' ''a'' 5] (with_event_store True (new_fabric 0)))
   = map durable_of (f_events (exec_ops [OpCreate sample_task, OpAcquire ''t'' ''a'' 5]
       (with_event_store True (new_fabric 0))))"
  by (rule durable_log_mirrors) (auto simp: with_event_store_def new_fabric_def)

text \<open>Both logs are append-only: no sequence of calls rewrites or drops an entry.\<close>

theorem logs_append_only:
  "prefix (f_events f) (f_events (exec_ops ops f)) \<and> prefix (f_appends f) (f_appends (exec_ops ops f))"
  using fabric_log.run_below [of f ops] by (simp add: log_prefix_def exec_ops_def)

section \<open>The sweep over expired leases\<close>

text \<open>C5: The sweep returns exactly the LEASED, RUNNING and SUSPENDED tasks whose lease has run out,
  each once; it makes each of them READY and unowned with checkpoint, dependencies and retry budget
  kept, records one expiry event for each, and touches no other task and no other field.\<close>

theorem sweep_exact:
  assumes "range_order (f_tasks f) ord" "fabric_wf f"
  shows "set (fst (check_expired_leases ord f)) = {tid. swept (f_now f) (f_tasks f) tid}
    \<and> distinct (fst (check_expired_leases ord f))
    \<and> f_tasks (snd (check_expired_leases ord f)) =
        (\<lambda>tid. map_option (\<lambda>t. if sweepable (f_now f) t
                 then t\<lparr>t_state := StateReady, t_owner := '''', t_lease := None\<rparr> else t) (f_tasks f tid))"
proof -
  have ord: "distinct ord" "set ord = dom (f_tasks f)"
    using assms(1) by (auto simp: range_order_def)
  have "f_tasks (snd (check_expired_leases ord f)) tid =
      map_option (\<lambda>t. if sweepable (f_now f) t
        then t\<lparr>t_state := StateReady, t_owner := '''', t_lease := None\<rparr> else t) (f_tasks f tid)" for tid
    using ord(2) by (auto simp: check_expired_tasks sweep_task_def disown_def domIff
        intro!: option.map_cong)
  moreover have "fst (check_expired_leases ord f) = filter (swept (f_now f) (f_tasks f)) ord"
    by (rule check_expired_ids [OF ord(1) assms(2)])
  ultimately show ?thesis
    using ord by (auto simp: swept_def split: option.splits)
qed

lemma range_order_leased: "range_order (f_tasks (exec_ops ops leased_fabric)) [''t'']"
  if "ops = [OpClock now]" for now
  using that by (simp add: range_order_def with_clock_def sample_defs)

lemma sweep_exact_witness:
  "set (fst (check_expired_leases [''t''] (exec_ops [OpClock 9] leased_fabric))) =
     {tid. swept (f_now (exec_ops [OpClock 9] leased_fabric)) (f_tasks (exec_ops [OpClock 9] leased_fabric)) tid}"
  using sweep_exact [OF range_order_leased [OF refl]] exec_ops_wf [OF sample_fabric_wf(2), of "[OpClock 9]"]
  by (simp add: leased_token)

text \<open>Agent death is not task death. When a worker is gone and its lease has run out, the sweep
  gives the task back: any agent can acquire it, with a token never handed out before, finds the
  checkpoint the worker left, and the dead worker can no longer complete it with its old token.\<close>

theorem expired_task_recovers:
  assumes "fabric_wf f" "1 < epoch_budget f" "f_tasks f tid = Some t" "t_lease t = Some l"
    and "sweepable (f_now f) t" "tid \<in> set ord" "b \<noteq> ''''"
    and "g = snd (check_expired_leases ord f)" "h = snd (acquire tid b ttl g)"
  shows "\<exists>ep t'. fst (acquire tid b ttl g) = Inr ep \<and> \<not> token_issued f ep
    \<and> f_tasks h tid = Some t' \<and> t_owner t' = b \<and> t_checkpoint t' = t_checkpoint t
    \<and> refused (complete tid (t_owner t) (l_epoch l) h) h"
proof -
  have g: "f_tasks g tid = Some (requeued t)"
    using assms(3,5,6,8) by (simp add: check_expired_tasks sweep_task_def)
  have eq: "acquire tid b ttl g = (Inr (f_epoch f + 1), h)"
    using g assms(7,8,9) by (simp add: acquire_def Let_def transition_def)
  have h: "f_tasks h tid = Some ((requeued t)\<lparr>t_state := StateLeased, t_owner := b,
      t_lease := Some \<lparr>l_owner = b, l_expires = f_now g + ttl, l_epoch = f_epoch f + 1\<rparr>\<rparr>)"
    by (rule acquire_Inr [of tid b ttl g]) (use eq g in auto)
  have new: "unat (f_epoch f + 1) = unat (f_epoch f) + 1"
    using unat_epoch_Suc assms(2) by (simp add: epoch_budget_def)
  have "l_epoch l \<le> f_epoch f"
    using fabric_wfD [OF assms(1,3)] assms(4) by (simp add: task_wf_def)
  then have "current_token h tid \<noteq> Some (l_epoch l)"
    using h new by (auto simp: current_token_def word_le_nat_alt)
  then show ?thesis
    using eq h new not_current_refused(3) [of h tid "l_epoch l"]
    by (auto simp: token_issued_def word_le_nat_alt disown_def)
qed

lemma expired_task_recovers_witness:
  "\<exists>ep t'. fst (acquire ''t'' ''b'' 5 (snd (check_expired_leases [''t''] (with_clock 9 leased_fabric)))) = Inr ep
     \<and> f_tasks (snd (acquire ''t'' ''b'' 5 (snd (check_expired_leases [''t''] (with_clock 9 leased_fabric))))) ''t''
       = Some t' \<and> t_checkpoint t' = GInt 3"
proof -
  have wf: "fabric_wf (with_clock 9 leased_fabric)" "1 < epoch_budget (with_clock 9 leased_fabric)"
    using exec_ops_wf [OF sample_fabric_wf(2), of "[OpClock 9]"] leased_token
    by (simp_all add: epoch_budget_def with_clock_def)
  obtain t l where t: "f_tasks (with_clock 9 leased_fabric) ''t'' = Some t" "t_lease t = Some l"
    "sweepable (f_now (with_clock 9 leased_fabric)) t" "t_checkpoint t = GInt 3"
    by (simp add: with_clock_def sweepable_def sample_defs)
  show ?thesis
    using expired_task_recovers [OF wf t(1,2,3) _ _ refl refl, of "[''t'']" "''b''" 5] t(4) by auto
qed

text \<open>A renewal by the owner moves the lease's end to the clock plus the new time to live and
  changes nothing else; no sweep before that end takes the task.\<close>

theorem renew_protects:
  assumes "owner_locked f tid a ep = Inr t" "t_lease t = Some l" "0 < ttl" "fabric_wf f"
    and "g = snd (renew tid a ep ttl f)" "now < f_now f + ttl" "distinct ord"
  shows "fst (renew tid a ep ttl f) = Inr ()
    \<and> f_tasks g = (f_tasks f)(tid \<mapsto> t\<lparr>t_lease := Some (l\<lparr>l_expires := f_now f + ttl\<rparr>)\<rparr>)
    \<and> f_events g = f_events f \<and> f_epoch g = f_epoch f
    \<and> tid \<notin> set (fst (check_expired_leases ord (with_clock now g)))"
proof -
  have g: "fst (renew tid a ep ttl f) = Inr ()"
    "g = put_task tid (t\<lparr>t_lease := Some (l\<lparr>l_expires := f_now f + ttl\<rparr>)\<rparr>) f"
    using assms(1,2,3,5) by (simp_all add: renew_def)
  have "fabric_wf g"
    using fstep_wf [OF renew_fstep assms(4), of tid a ep ttl] unfolding assms(5) [symmetric]
    by (simp add: g(2))
  then have "fabric_wf (with_clock now g)"
    by (rule fabric_wf_cong [rotated 2]) (simp_all add: with_clock_def)
  then show ?thesis
    using g check_expired_ids [OF assms(7), of "with_clock now g"] assms(6)
    by (simp add: swept_def sweepable_def with_clock_def)
qed

lemma renew_protects_witness:
  "''t'' \<notin> set (fst (check_expired_leases [''t''] (with_clock 8 (snd (renew ''t'' ''a'' 1 9 leased_fabric)))))"
proof -
  obtain t l where "owner_locked leased_fabric ''t'' ''a'' 1 = Inr t" "t_lease t = Some l"
    "f_now leased_fabric = 0"
    by (simp add: owner_locked_def sample_defs)
  then show ?thesis
    using renew_protects [of leased_fabric "''t''" "''a''" 1 t l 9 _ 8 "[''t'']"] sample_fabric_wf
    by simp
qed

section \<open>Error paths\<close>

text \<open>An operation that fails changes nothing: no task, no event, no durable write, no epoch is
  spent. (Failing a task and completing it with a checkpoint are the exceptions, stated apart.)\<close>

theorem errors_change_nothing:
  "(isl (fst (create t f)) \<longrightarrow> snd (create t f) = f)
   \<and> (isl (fst (acquire tid a ttl f)) \<longrightarrow> snd (acquire tid a ttl f) = f)
   \<and> (isl (fst (start tid a ep f)) \<longrightarrow> snd (start tid a ep f) = f)
   \<and> (isl (fst (yield_task tid a ep cp f)) \<longrightarrow> snd (yield_task tid a ep cp f) = f)
   \<and> (isl (fst (complete tid a ep f)) \<longrightarrow> snd (complete tid a ep f) = f)
   \<and> (isl (fst (renew tid a ep ttl f)) \<longrightarrow> snd (renew tid a ep ttl f) = f)
   \<and> (isl (fst (release tid a ep f)) \<longrightarrow> snd (release tid a ep f) = f)
   \<and> (isl (fst (preempt tid a ep f)) \<longrightarrow> snd (preempt tid a ep f) = f)
   \<and> (isl (fst (delete tid f)) \<longrightarrow> snd (delete tid f) = f)
   \<and> (isl (fst (schedule tid cs ttl f)) \<longrightarrow> snd (schedule tid cs ttl f) = f)"
proof -
  have acq: "isl (fst (acquire tid a ttl f)) \<Longrightarrow> snd (acquire tid a ttl f) = f" for a
    by (auto simp: acquire_def Let_def transition_def can_transition_Leased split: option.splits if_splits)
  have "isl (fst (schedule tid cs ttl f)) \<Longrightarrow> snd (schedule tid cs ttl f) = f"
    using acq by (auto simp: schedule_def split: sum.splits option.splits prod.splits) (metis fst_conv isl_def snd_conv)+
  moreover have "isl (fst (create t f)) \<Longrightarrow> snd (create t f) = f"
    by (auto simp: create_def Let_def split: if_splits)
  ultimately show ?thesis
    using acq
    by (auto simp: start_def yield_task_def complete_def renew_def release_def preempt_def delete_def
        Let_def split: sum.splits option.splits)
qed

lemma errors_change_nothing_witness: "snd (start ''t'' ''b'' 1 leased_fabric) = leased_fabric"
proof -
  have "isl (fst (start ''t'' ''b'' 1 leased_fabric))"
    by (simp add: start_def owner_locked_def sample_defs)
  then show ?thesis
    using errors_change_nothing [of _ leased_fabric "''t''" "''b''" _ 1] by blast
qed

text \<open>Completing with a checkpoint is not all or nothing: when the owner's call is refused
  because the task is not RUNNING, the checkpoint is overwritten all the same, without an event.
  A COMPLETED task's result can be replaced this way by its last owner.\<close>

theorem refused_completion_overwrites_checkpoint:
  assumes "owner_locked f tid a ep = Inr t" "t_state t \<noteq> StateRunning"
  shows "fst (complete_with_checkpoint tid a ep cp f) = Inl ErrIllegalState
    \<and> snd (complete_with_checkpoint tid a ep cp f) =
        f\<lparr>f_tasks := (f_tasks f)(tid \<mapsto> t\<lparr>t_checkpoint := cp\<rparr>)\<rparr>"
  using assms
  by (simp add: complete_with_checkpoint_def Let_def transition_def can_transition_others put_task_def)

lemma refused_completion_overwrites_checkpoint_witness:
  "map_option t_checkpoint (f_tasks (snd (complete_with_checkpoint ''t'' ''a'' 1 (GInt 99)
     (exec_ops [OpStart ''t'' ''a'' 1, OpComplete ''t'' ''a'' 1] leased_fabric))) ''t'') = Some (GInt 99)"
proof -
  obtain t where "owner_locked (exec_ops [OpStart ''t'' ''a'' 1, OpComplete ''t'' ''a'' 1] leased_fabric)
      ''t'' ''a'' 1 = Inr t" "t_state t \<noteq> StateRunning"
    by (simp add: start_def complete_def owner_locked_def sample_defs)
  from refused_completion_overwrites_checkpoint [OF this, of "GInt 99"] show ?thesis by simp
qed

section \<open>One execution quantum\<close>

text \<open>The task after a failed quantum: requeued while the retry budget lasts, FAILED afterwards.\<close>

definition failed_task :: "task \<Rightarrow> task" where
  "failed_task t =
     (if can_retry (count_attempt t) then requeued (count_attempt t)
      else (count_attempt t)\<lparr>t_state := StateFailed\<rparr>)"

lemma owner_locked_InrI:
  "f_tasks f tid = Some t \<Longrightarrow> t_owner t = a \<Longrightarrow> a \<noteq> '''' \<Longrightarrow> t_lease t = Some l \<Longrightarrow>
     owner_locked f tid a (l_epoch l) = Inr t"
  by (simp add: owner_locked_def)

lemma fail_running:
  "owner_locked f tid a ep = Inr t \<Longrightarrow> t_state t = StateRunning \<Longrightarrow>
     fst (fail tid a ep f) = Inr () \<and> f_tasks (snd (fail tid a ep f)) = (f_tasks f)(tid \<mapsto> failed_task t)"
  by (simp add: fail_def Let_def transition_def failed_task_def count_attempt_def)

lemma complete_running:
  "owner_locked f tid a ep = Inr t \<Longrightarrow> t_state t = StateRunning \<Longrightarrow>
     fst (complete tid a ep f) = Inr ()
     \<and> f_tasks (snd (complete tid a ep f)) = (f_tasks f)(tid \<mapsto> t\<lparr>t_state := StateCompleted\<rparr>)"
  "owner_locked f tid a ep = Inr t \<Longrightarrow> t_state t = StateRunning \<Longrightarrow>
     fst (complete_with_checkpoint tid a ep cp f) = Inr ()
     \<and> f_tasks (snd (complete_with_checkpoint tid a ep cp f)) =
         (f_tasks f)(tid \<mapsto> t\<lparr>t_checkpoint := cp, t_state := StateCompleted\<rparr>)"
  by (simp_all add: complete_def complete_with_checkpoint_def Let_def transition_def)

lemma yield_running:
  "owner_locked f tid a ep = Inr t \<Longrightarrow> t_state t = StateRunning \<Longrightarrow>
     fst (yield_task tid a ep cp f) = Inr ()
     \<and> f_tasks (snd (yield_task tid a ep cp f)) =
         (f_tasks f)(tid \<mapsto> t\<lparr>t_state := StateSuspended, t_checkpoint := cp\<rparr>)"
  by (simp add: yield_task_def Let_def transition_def)

lemma start_leased:
  "owner_locked f tid a ep = Inr t \<Longrightarrow> t_state t = StateLeased \<Longrightarrow>
     fst (start tid a ep f) = Inr ()
     \<and> f_tasks (snd (start tid a ep f)) = (f_tasks f)(tid \<mapsto> t\<lparr>t_state := StateRunning\<rparr>)"
  by (simp add: start_def transition_def)

text \<open>The outcome a step's result calls for: the quantum's error and the task it leaves.\<close>

fun quantum_effect :: "'e + goval \<times> bool \<Rightarrow> task \<Rightarrow> 'e quantum_error option \<times> task" where
  "quantum_effect (Inl e) t = (Some (StepErr e), failed_task t)"
| "quantum_effect (Inr (cp, True)) t =
     (None, if cp = GNil then t\<lparr>t_state := StateCompleted\<rparr>
            else t\<lparr>t_checkpoint := cp, t_state := StateCompleted\<rparr>)"
| "quantum_effect (Inr (cp, False)) t = (None, t\<lparr>t_state := StateSuspended, t_checkpoint := cp\<rparr>)"

text \<open>The quantum's effect, whatever other operations ran while the step did.\<close>

lemma run_quantum_effect:
  assumes "owner_locked f tid a ep = Inr t" "t_state t = StateLeased"
    and "step (snd (start tid a ep f)) = (out, f2)" "owner_locked f2 tid a ep = Inr t2"
    and "t_state t2 = StateRunning"
  shows "fst (run_quantum tid a ep step f) = fst (quantum_effect out t2)
    \<and> f_tasks (snd (run_quantum tid a ep step f)) = (f_tasks f2)(tid \<mapsto> snd (quantum_effect out t2))"
proof -
  obtain f1 where f1: "start tid a ep f = (Inr (), f1)" "step f1 = (out, f2)"
    using start_leased [OF assms(1,2)] assms(3) by (cases "start tid a ep f") simp
  show ?thesis
  proof (cases out)
    case (Inl e)
    obtain f3 where "fail tid a ep f2 = (Inr (), f3)" "f_tasks f3 = (f_tasks f2)(tid \<mapsto> failed_task t2)"
      using fail_running [OF assms(4,5)] by (cases "fail tid a ep f2") simp
    then show ?thesis using f1 Inl by (simp add: run_quantum_def)
  next
    case (Inr r)
    obtain cp fin where r: "r = (cp, fin)" by (cases r)
    have lift: "fst p = Inr () \<Longrightarrow> lift_fabric p = (None, snd p)" for p :: "(fabric_error, unit, fabric) outcome"
      by (cases p) auto
    show ?thesis
      using f1 Inr r complete_running [OF assms(4,5)] yield_running [OF assms(4,5)]
      by (cases fin) (simp_all add: run_quantum_def lift)
  qed
qed

text \<open>One quantum of a LEASED task whose owner still holds it when the step returns ends in
  exactly one of four ways: a failed step requeues the task or, with the retry budget spent, fails
  it, and its error is reported; a finished step completes it, with the step's checkpoint if there
  is one and the old one otherwise; an unfinished step suspends it with the new checkpoint, still
  owned under the same token. No other task is touched.\<close>

theorem run_quantum_outcome:
  assumes "owner_locked f tid a ep = Inr t" "t_state t = StateLeased"
    and "step (snd (start tid a ep f)) = (out, f2)" "owner_locked f2 tid a ep = Inr t2"
    and "t_state t2 = StateRunning"
  shows "fst (run_quantum tid a ep step f) = fst (quantum_effect out t2)
    \<and> f_tasks (snd (run_quantum tid a ep step f)) = (f_tasks f2)(tid \<mapsto> snd (quantum_effect out t2))"
  by (rule run_quantum_effect [of f tid a ep t step out f2 t2]) (rule assms)+

lemma run_quantum_outcome_witness:
  "fst (run_quantum ''t'' ''a'' 1 (\<lambda>g. (Inr (GInt 7, False), g)) leased_fabric) = (None :: unit quantum_error option)"
proof -
  let ?step = "\<lambda>g :: fabric. (Inr (GInt 7, False) :: unit + goval \<times> bool, g)"
  let ?f2 = "snd (start ''t'' ''a'' 1 leased_fabric)"
  obtain t where t: "owner_locked leased_fabric ''t'' ''a'' 1 = Inr t" "t_state t = StateLeased"
    by (simp add: owner_locked_def sample_defs)
  obtain t2 where t2: "owner_locked ?f2 ''t'' ''a'' 1 = Inr t2" "t_state t2 = StateRunning"
    by (simp add: owner_locked_def start_def sample_defs)
  show ?thesis
    using run_quantum_outcome [of leased_fabric _ _ _ t ?step "Inr (GInt 7, False)" ?f2 t2] t t2 by simp
qed

text \<open>A worker that loses its lease while its step runs cannot touch the task any more: the
  quantum reports the lost ownership, and the fabric is left as the step's end found it.\<close>

theorem run_quantum_lost_lease:
  assumes "fst (start tid a ep f) = Inr ()" "step (snd (start tid a ep f)) = (out, f2)"
    and "current_token f2 tid \<noteq> Some ep"
  shows "snd (run_quantum tid a ep step f) = f2
    \<and> (\<exists>fe. fst (run_quantum tid a ep step f) =
         Some (case out of Inl e \<Rightarrow> StepAndFail e fe | Inr _ \<Rightarrow> FabricErr fe))"
proof -
  obtain fe where fe: "owner_locked f2 tid a ep = Inl fe"
    by (rule not_current_Inl [OF assms(3)])
  then show ?thesis
    using assms(1,2)
    by (cases "start tid a ep f")
      (auto simp: run_quantum_def fail_def complete_def complete_with_checkpoint_def yield_task_def
        split: sum.splits)
qed

lemma run_quantum_lost_lease_witness:
  "snd (run_quantum ''t'' ''a'' 1 (\<lambda>g. (Inl (), exec_ops [OpClock 9, OpExpire [''t'']] g)) leased_fabric)
   = exec_ops [OpClock 9, OpExpire [''t'']] (snd (start ''t'' ''a'' 1 leased_fabric))"
proof -
  have "fst (start ''t'' ''a'' 1 leased_fabric) = Inr ()"
    by (simp add: owner_locked_def start_def sample_defs)
  moreover have "current_token (exec_ops [OpClock 9, OpExpire [''t'']] (snd (start ''t'' ''a'' 1 leased_fabric))) ''t''
      \<noteq> Some 1"
    by (simp add: current_token_def check_expired_tasks sweep_task_def sweepable_def start_def
        owner_locked_def with_clock_def sample_defs)
  ultimately show ?thesis
    using run_quantum_lost_lease [of "''t''" "''a''" 1 leased_fabric
        "\<lambda>g. (Inl (), exec_ops [OpClock 9, OpExpire [''t'']] g)" "Inl ()"] by blast
qed

section \<open>The retry budget\<close>

text \<open>One attempt that fails: claim the task, run a quantum whose step errs.\<close>

definition failing_attempt :: "string \<Rightarrow> string \<Rightarrow> duration \<Rightarrow> fabric \<Rightarrow> fabric" where
  "failing_attempt a tid ttl f =
     (case acquire tid a ttl f of
        (Inl e, f1) \<Rightarrow> f1
      | (Inr ep, f1) \<Rightarrow> snd (run_quantum tid a ep (\<lambda>g. (Inl (), g)) f1))"

lemma failing_attempt_ready:
  assumes "f_tasks f tid = Some t" "t_state t = StateReady" "a \<noteq> ''''"
  shows "\<exists>t'. f_tasks (failing_attempt a tid ttl f) tid = Some t'
    \<and> t_state t' = (if can_retry (count_attempt t) then StateReady else StateFailed)
    \<and> t_retry t' = t_retry (count_attempt t) \<and> t_checkpoint t' = t_checkpoint t"
proof -
  define l where "l = \<lparr>l_owner = a, l_expires = f_now f + ttl, l_epoch = f_epoch f + 1\<rparr>"
  define t1 where "t1 = t\<lparr>t_state := StateLeased, t_owner := a, t_lease := Some l\<rparr>"
  obtain f1 where f1: "acquire tid a ttl f = (Inr (f_epoch f + 1), f1)"
    "f_tasks f1 = (f_tasks f)(tid \<mapsto> t1)"
    using assms by (simp add: acquire_def Let_def transition_def l_def t1_def)
  let ?ep = "f_epoch f + 1"
  have own: "owner_locked f1 tid a ?ep = Inr t1" "t_state t1 = StateLeased"
    using f1(2) assms(3) by (simp_all add: owner_locked_def t1_def l_def)
  let ?f2 = "snd (start tid a ?ep f1)"
  have f2: "f_tasks ?f2 = (f_tasks f1)(tid \<mapsto> t1\<lparr>t_state := StateRunning\<rparr>)"
    using start_leased [OF own] by blast
  have own2: "owner_locked ?f2 tid a ?ep = Inr (t1\<lparr>t_state := StateRunning\<rparr>)"
    using f2 assms(3) by (simp add: owner_locked_def t1_def l_def)
  have "f_tasks (snd (run_quantum tid a ?ep (\<lambda>g. (Inl (), g)) f1)) tid =
      Some (failed_task (t1\<lparr>t_state := StateRunning\<rparr>))"
    using run_quantum_effect [of f1 tid a ?ep t1 "\<lambda>g. (Inl (), g)" "Inl ()" ?f2] own own2 by simp
  then show ?thesis
    using f1(1) by (simp add: failing_attempt_def failed_task_def can_retry_def count_attempt_def t1_def)
qed

lemma failing_attempt_failed:
  "f_tasks f tid = Some t \<Longrightarrow> t_state t = StateFailed \<Longrightarrow> failing_attempt a tid ttl f = f"
  by (simp add: failing_attempt_def acquire_def)

text \<open>C7: The retry budget is exact. A READY task with budget \<open>n\<close> left survives \<open>n - 1\<close> failing
  attempts READY and with its checkpoint, is FAILED after the \<open>n\<close>-th, and stays FAILED: no further
  attempt can claim it.\<close>

theorem retries_bounded:
  assumes "f_tasks f tid = Some t" "t_state t = StateReady" "a \<noteq> ''''"
    and "rp_max (t_retry t) > 0" "rp_max (t_retry t) - rp_attempts (t_retry t) = int n" "0 < n"
  shows "state_of ((failing_attempt a tid ttl ^^ k) f) tid
         = Some (if k < n then StateReady else StateFailed)"
proof -
  have ready: "\<exists>t'. f_tasks ((failing_attempt a tid ttl ^^ k) f) tid = Some t' \<and> t_state t' = StateReady
      \<and> rp_max (t_retry t') = rp_max (t_retry t) \<and> rp_attempts (t_retry t') = rp_attempts (t_retry t) + int k"
    if "k < n" for k
    using that
  proof (induction k)
    case (Suc k)
    then obtain t' where t': "f_tasks ((failing_attempt a tid ttl ^^ k) f) tid = Some t'"
      "t_state t' = StateReady" "rp_max (t_retry t') = rp_max (t_retry t)"
      "rp_attempts (t_retry t') = rp_attempts (t_retry t) + int k" by auto
    then have "can_retry (count_attempt t')"
      using Suc.prems assms(5) by (simp add: can_retry_def count_attempt_def)
    then show ?case
      using failing_attempt_ready [OF t'(1,2) assms(3), of ttl] t'(3,4) by (auto simp: count_attempt_def)
  qed (use assms in simp)
  have failed: "state_of ((failing_attempt a tid ttl ^^ (n + j)) f) tid = Some StateFailed" for j
  proof (induction j)
    case 0
    obtain m where m: "n = Suc m" using assms(6) by (cases n) auto
    then obtain t' where t': "f_tasks ((failing_attempt a tid ttl ^^ m) f) tid = Some t'"
      "t_state t' = StateReady" "rp_max (t_retry t') = rp_max (t_retry t)"
      "rp_attempts (t_retry t') = rp_attempts (t_retry t) + int m" using ready [of m] by auto
    then have "\<not> can_retry (count_attempt t')"
      using assms(4,5) m by (simp add: can_retry_def count_attempt_def)
    then show ?case
      using failing_attempt_ready [OF t'(1,2) assms(3), of ttl] m by (auto simp: state_of_def)
  next
    case (Suc j)
    then obtain t' where "f_tasks ((failing_attempt a tid ttl ^^ (n + j)) f) tid = Some t'"
      "t_state t' = StateFailed" by (auto simp: state_of_def)
    then show ?case using failing_attempt_failed [of _ tid t' a ttl] by (simp add: state_of_def)
  qed
  show ?thesis
    using ready [of k] failed [of "k - n"] by (cases "k < n") (auto simp: state_of_def)
qed

lemma retries_bounded_witness:
  "state_of ((failing_attempt ''a'' ''t'' 5 ^^ 1) sample_fabric) ''t'' = Some StateReady
   \<and> state_of ((failing_attempt ''a'' ''t'' 5 ^^ 7) sample_fabric) ''t'' = Some StateFailed"
proof -
  obtain t where "f_tasks sample_fabric ''t'' = Some t" "t_state t = StateReady"
    "rp_max (t_retry t) = 2" "rp_attempts (t_retry t) = 0" by (simp add: sample_defs)
  then show ?thesis
    using retries_bounded [of sample_fabric "''t''" t "''a''" 2 1 5]
      retries_bounded [of sample_fabric "''t''" t "''a''" 2 7 5] by simp
qed

section \<open>Scheduling and the dependency graph\<close>

text \<open>A successful \<open>Schedule\<close> leaves the task LEASED to one of the candidates under the token it
  returns; with no confidence source the winner is a highest-scoring candidate whenever some
  candidate scores above zero.\<close>

theorem schedule_winner:
  assumes "fst (schedule tid cs ttl f) = Inr (w, ep)"
  shows "(\<exists>t. owner_locked (snd (schedule tid cs ttl f)) tid w ep = Inr t \<and> t_state t = StateLeased)
    \<and> w \<in> c_agent ` set cs
    \<and> (f_conf f = None \<and> (\<exists>c\<in>set cs. 0 < score (t_capability (the (f_tasks f tid))) c) \<longrightarrow>
        (\<exists>c\<in>set cs. c_agent c = w \<and> (\<forall>d\<in>set cs.
           score (t_capability (the (f_tasks f tid))) d \<le> score (t_capability (the (f_tasks f tid))) c)))"
proof -
  obtain t best where t: "f_tasks f tid = Some t"
    "pick (t_capability t) (fill_confidence (f_conf f) (t_capability t) cs) = Some best"
    "c_agent best = w" "fst (acquire tid w ttl f) = Inr ep"
    "snd (schedule tid cs ttl f) = snd (acquire tid w ttl f)"
    using assms
    by (auto simp: schedule_def get_task_def split: option.splits sum.splits prod.splits)
  have "\<exists>t. owner_locked (snd (schedule tid cs ttl f)) tid w ep = Inr t \<and> t_state t = StateLeased"
    by (rule acquire_Inr [OF t(4)]) (use t(5) in \<open>simp add: owner_locked_def\<close>)
  moreover have "map c_agent (fill_confidence src cap cs) = map c_agent cs" for src cap
    by (auto simp: fill_confidence_def split: option.splits)
  then have "w \<in> c_agent ` set cs"
    using pick_in [OF t(2)] t(3) by (metis imageI image_set)
  moreover have "best \<in> set cs \<and> (\<forall>d\<in>set cs. score (t_capability t) d \<le> score (t_capability t) best)"
    if "f_conf f = None" "\<exists>c\<in>set cs. 0 < score (t_capability t) c"
    using that t(2) pick_in pick_score_max by (auto simp: fill_confidence_def)
  ultimately show ?thesis using t(1,3) by auto
qed

definition sample_candidate :: candidate where
  "sample_candidate = \<lparr>c_agent = ''a'', c_caps = [''code''], c_load = 0, c_conf = 1, c_prio = 0\<rparr>"

lemma schedule_winner_witness:
  "\<exists>t. owner_locked (snd (schedule ''t'' [sample_candidate] 5 sample_fabric)) ''t'' ''a'' 1 = Inr t
     \<and> t_state t = StateLeased"
proof -
  have "pick ''code'' [sample_candidate] = Some sample_candidate"
    by (simp add: pick_def pick_step_def Let_def score_eq resort_score_eq overlap_defs clamp01_def
        sample_candidate_def)
  then have "fst (schedule ''t'' [sample_candidate] 5 sample_fabric) = Inr (''a'', 1)"
    by (simp add: schedule_def get_task_def fill_confidence_def sample_candidate_def sample_defs)
  from schedule_winner [OF this] show ?thesis by blast
qed

text \<open>The dependency graph feeds the scheduler exactly the work that can run: \<open>ReadyTasks\<close> lists,
  once each, the READY tasks whose every dependency is a known COMPLETED task, and agrees with
  \<open>IsReady\<close>; \<open>ResumableTasks\<close> adds the SUSPENDED tasks whose lease still runs.\<close>

theorem ready_tasks_exact:
  assumes "range_order (f_tasks f) ord"
  shows "distinct (ready_tasks ord f) \<and> distinct (resumable_tasks ord f)
    \<and> (\<forall>tid. tid \<in> set (ready_tasks ord f) \<longleftrightarrow> is_ready tid f = Inr True)
    \<and> (\<forall>tid. is_ready tid f = Inr True \<longleftrightarrow> (\<exists>t. f_tasks f tid = Some t \<and> t_state t = StateReady
          \<and> (\<forall>d\<in>set (t_deps t). state_of f d = Some StateCompleted)))
    \<and> (\<forall>tid. tid \<in> set (resumable_tasks ord f) \<longleftrightarrow> is_ready tid f = Inr True
          \<or> (\<exists>t l. f_tasks f tid = Some t \<and> t_state t = StateSuspended \<and> t_lease t = Some l
                 \<and> f_now f < l_expires l))"
proof -
  have ord: "distinct ord" "\<And>k. k \<in> set ord \<longleftrightarrow> f_tasks f k \<noteq> None"
    using assms by (auto simp: range_order_def)
  have deps: "deps_completed (f_tasks f) ds \<longleftrightarrow> (\<forall>d\<in>set ds. state_of f d = Some StateCompleted)" for ds
    by (auto simp: deps_completed_def list_all_iff state_of_def split: option.splits)
  have "tid \<in> set (resumable_tasks ord f) \<longleftrightarrow> is_ready tid f = Inr True
      \<or> (\<exists>t l. f_tasks f tid = Some t \<and> t_state t = StateSuspended \<and> t_lease t = Some l
             \<and> f_now f < l_expires l)" for tid
    using ord(2) [of tid]
    by (cases "f_tasks f tid")
      (auto simp: resumable_tasks_def resumable_def is_ready_def is_expired_def
        split: task_state.splits option.splits)
  then show ?thesis
    using ord by (auto simp: ready_tasks_def is_ready_def resumable_tasks_def deps split: option.splits)
qed

lemma ready_tasks_exact_witness: "is_ready ''t'' sample_fabric = Inr True \<and> ready_tasks [''t''] sample_fabric = [''t'']"
proof -
  have ord: "range_order (f_tasks sample_fabric) [''t'']"
    by (simp add: range_order_def sample_defs)
  have "is_ready ''t'' sample_fabric = Inr True"
    by (simp add: is_ready_def deps_completed_def sample_defs)
  moreover from this have "''t'' \<in> set (ready_tasks [''t''] sample_fabric)"
    using ready_tasks_exact [OF ord] by blast
  then have "ready_tasks [''t''] sample_fabric = [''t'']"
    by (auto simp: ready_tasks_def range_keys_def split: if_splits)
  ultimately show ?thesis by simp
qed

end
