(* ===== verification/Session_Lease.thy ===== *)
theory Session_Lease
  imports Interfaces
begin

text \<open>
  Package \<open>internal/agents/lease\<close>, \<open>lease.go\<close>: exclusive, expiring holds on sessions. The manager's
  state is the map of leases and what its injected clock shows; each method runs under the mutex
  and is one atomic step. The context argument is never read.
\<close>

section \<open>State and operations\<close>

datatype lease_error =
    ErrLeaseHeld
  | ErrLeaseNotFound
  | ErrLeaseOwnerMismatch
  | ErrLeaseEmptyArgument
  | ErrLeaseTtl

record session_lease =
  sl_session :: string
  sl_owner :: string
  sl_expires :: time

record lease_manager =
  lm_leases :: "string \<rightharpoonup> session_lease"
  lm_now :: time

definition new_manager :: "time \<Rightarrow> lease_manager" where
  "new_manager now = \<lparr>lm_leases = Map.empty, lm_now = now\<rparr>"

definition acquire_lease ::
  "string \<Rightarrow> string \<Rightarrow> duration \<Rightarrow> lease_manager \<Rightarrow> (lease_error, session_lease, lease_manager) outcome" where
  "acquire_lease sid ow ttl m =
     (if sid = '''' \<or> ow = '''' then (Inl ErrLeaseEmptyArgument, m)
      else if ttl \<le> 0 then (Inl ErrLeaseTtl, m)
      else (case lm_leases m sid of
              Some existing \<Rightarrow>
                if sl_expires existing > lm_now m then (Inl ErrLeaseHeld, m)
                else (let l = \<lparr>sl_session = sid, sl_owner = ow, sl_expires = lm_now m + ttl\<rparr>
                      in (Inr l, m\<lparr>lm_leases := (lm_leases m)(sid \<mapsto> l)\<rparr>))
            | None \<Rightarrow>
                (let l = \<lparr>sl_session = sid, sl_owner = ow, sl_expires = lm_now m + ttl\<rparr>
                 in (Inr l, m\<lparr>lm_leases := (lm_leases m)(sid \<mapsto> l)\<rparr>))))"

definition renew_lease ::
  "string \<Rightarrow> string \<Rightarrow> duration \<Rightarrow> lease_manager \<Rightarrow> (lease_error, unit, lease_manager) outcome" where
  "renew_lease sid ow ttl m =
     (if ttl \<le> 0 then (Inl ErrLeaseTtl, m)
      else (case lm_leases m sid of
              None \<Rightarrow> (Inl ErrLeaseNotFound, m)
            | Some l \<Rightarrow>
                if sl_owner l \<noteq> ow then (Inl ErrLeaseOwnerMismatch, m)
                else (Inr (), m\<lparr>lm_leases := (lm_leases m)(sid \<mapsto> l\<lparr>sl_expires := lm_now m + ttl\<rparr>)\<rparr>)))"

definition release_lease ::
  "string \<Rightarrow> string \<Rightarrow> lease_manager \<Rightarrow> (lease_error, unit, lease_manager) outcome" where
  "release_lease sid ow m =
     (case lm_leases m sid of
        None \<Rightarrow> (Inl ErrLeaseNotFound, m)
      | Some l \<Rightarrow>
          if sl_owner l \<noteq> ow then (Inl ErrLeaseOwnerMismatch, m)
          else (Inr (), m\<lparr>lm_leases := (lm_leases m)(sid := None)\<rparr>))"

definition get_lease :: "string \<Rightarrow> lease_manager \<Rightarrow> session_lease option" where
  "get_lease sid m =
     (case lm_leases m sid of
        None \<Rightarrow> None
      | Some l \<Rightarrow> if sl_expires l < lm_now m then None else Some l)"

definition lease_held :: "string \<Rightarrow> lease_manager \<Rightarrow> bool" where
  "lease_held sid m \<longleftrightarrow> get_lease sid m \<noteq> None"

definition lease_count :: "string list \<Rightarrow> lease_manager \<Rightarrow> nat" where
  "lease_count ord m = length (range_keys (lm_leases m) ord)"

section \<open>The manager as a transition system\<close>

datatype lease_op =
    LAcquire string string duration
  | LRenew string string duration
  | LRelease string string
  | LClock time

fun exec_lease :: "lease_op \<Rightarrow> lease_manager \<Rightarrow> lease_manager" where
  "exec_lease (LAcquire sid ow ttl) m = snd (acquire_lease sid ow ttl m)"
| "exec_lease (LRenew sid ow ttl) m = snd (renew_lease sid ow ttl m)"
| "exec_lease (LRelease sid ow) m = snd (release_lease sid ow m)"
| "exec_lease (LClock now) m = m\<lparr>lm_now := now\<rparr>"

lemmas lease_defs = acquire_lease_def renew_lease_def release_lease_def

definition manager_wf :: "lease_manager \<Rightarrow> bool" where
  "manager_wf m \<longleftrightarrow> (\<forall>sid l. lm_leases m sid = Some l \<longrightarrow>
     sl_session l = sid \<and> sid \<noteq> '''' \<and> sl_owner l \<noteq> '''')"

interpretation lease_inv: invariant_system exec_lease "\<lambda>_. True" manager_wf
proof
  show "manager_wf (exec_lease x m)" if "manager_wf m" for m x
    using that by (cases x) (auto simp: lease_defs manager_wf_def Let_def split: option.splits)
qed

text \<open>The calls that leave a holder alone: none in its name on its session, no clock past the end.\<close>

fun lease_spares :: "string \<Rightarrow> session_lease \<Rightarrow> lease_op \<Rightarrow> bool" where
  "lease_spares sid l (LRenew s ow ttl) = (\<not> (s = sid \<and> ow = sl_owner l))"
| "lease_spares sid l (LRelease s ow) = (\<not> (s = sid \<and> ow = sl_owner l))"
| "lease_spares sid l (LClock now) = (now < sl_expires l)"
| "lease_spares sid l _ = True"

definition holds_lease :: "lease_manager \<Rightarrow> string \<Rightarrow> session_lease \<Rightarrow> bool" where
  "holds_lease m sid l \<longleftrightarrow> lm_leases m sid = Some l \<and> lm_now m < sl_expires l"

interpretation session_exclusive: exclusive_holder exec_lease holds_lease lease_spares
proof
  show "holds_lease (exec_lease x m) sid l" if "holds_lease m sid l" "lease_spares sid l x" for m sid l x
    using that by (cases x) (auto simp: lease_defs holds_lease_def Let_def split: option.splits)
  show "l = l'" if "holds_lease m sid l" "holds_lease m sid l'" for m sid l l'
    using that by (simp add: holds_lease_def)
qed

section \<open>Properties\<close>

text \<open>Mutual exclusion on a session. While a lease runs, no sequence of calls by other workers
  takes it over, renews it, releases it or shortens it, and every acquisition of the session,
  the holder's own included, fails with the lease untouched.\<close>

theorem session_lease_exclusive:
  assumes "holds_lease m sid l" "list_all (lease_spares sid l) ops"
    and "m' = fold exec_lease ops m"
  shows "get_lease sid m' = Some l
    \<and> (0 < ttl \<and> ow \<noteq> '''' \<and> sid \<noteq> '''' \<longrightarrow> acquire_lease sid ow ttl m' = (Inl ErrLeaseHeld, m'))"
proof -
  have "holds_lease m' sid l"
    using session_exclusive.run_held assms by blast
  then show ?thesis by (simp add: holds_lease_def get_lease_def acquire_lease_def)
qed

lemma session_lease_exclusive_witness:
  "lease_held ''s'' (fold exec_lease [LAcquire ''s'' ''b'' 9, LRelease ''s'' ''b'', LClock 4]
     (snd (acquire_lease ''s'' ''a'' 5 (new_manager 0))))"
proof -
  have "holds_lease (snd (acquire_lease ''s'' ''a'' 5 (new_manager 0))) ''s''
      \<lparr>sl_session = ''s'', sl_owner = ''a'', sl_expires = 5\<rparr>"
    by (simp add: holds_lease_def acquire_lease_def new_manager_def Let_def)
  from session_lease_exclusive [OF this _ refl,
      of "[LAcquire ''s'' ''b'' 9, LRelease ''s'' ''b'', LClock 4]"]
  show ?thesis by (simp add: lease_held_def)
qed

text \<open>Acquisition is total and exact: with a session, an owner and a positive time to live it
  succeeds exactly when no lease on the session runs past the clock; the new lease is then what
  \<open>Get\<close> returns until the clock passes its end, and other sessions keep theirs.\<close>

theorem acquire_lease_exact:
  assumes "sid \<noteq> ''''" "ow \<noteq> ''''" "0 < ttl"
  shows "(isl (fst (acquire_lease sid ow ttl m)) \<longleftrightarrow>
            (\<exists>l. lm_leases m sid = Some l \<and> lm_now m < sl_expires l))
    \<and> (\<forall>l. fst (acquire_lease sid ow ttl m) = Inr l \<longrightarrow>
          sl_owner l = ow \<and> sl_expires l = lm_now m + ttl
          \<and> (\<forall>now. get_lease sid (exec_lease (LClock now) (snd (acquire_lease sid ow ttl m))) =
               (if now \<le> lm_now m + ttl then Some l else None))
          \<and> (\<forall>s. s \<noteq> sid \<longrightarrow> get_lease s (snd (acquire_lease sid ow ttl m)) = get_lease s m))"
  using assms by (auto simp: acquire_lease_def get_lease_def Let_def split: option.splits)

lemma acquire_lease_exact_witness: "\<not> isl (fst (acquire_lease ''s'' ''a'' 5 (new_manager 0)))"
  using acquire_lease_exact [of "''s''" "''a''" 5 "new_manager 0"] by (simp add: new_manager_def)

text \<open>The two readings of the expiry instant disagree: when the clock shows exactly the end of a
  lease, \<open>Held\<close> still reports it and yet another worker's acquisition succeeds.\<close>

theorem expiry_instant_disagrees:
  assumes "lm_leases m sid = Some l" "sl_expires l = lm_now m" "sid \<noteq> ''''" "ow \<noteq> ''''" "0 < ttl"
  shows "lease_held sid m \<and> \<not> isl (fst (acquire_lease sid ow ttl m))"
  using assms by (simp add: lease_held_def get_lease_def acquire_lease_def Let_def)

lemma expiry_instant_disagrees_witness:
  "lease_held ''s'' \<lparr>lm_leases = [''s'' \<mapsto> \<lparr>sl_session = ''s'', sl_owner = ''a'', sl_expires = 5\<rparr>], lm_now = 5\<rparr>"
  using expiry_instant_disagrees
    [of "\<lparr>lm_leases = [''s'' \<mapsto> \<lparr>sl_session = ''s'', sl_owner = ''a'', sl_expires = 5\<rparr>], lm_now = 5\<rparr>"
      "''s''" _ "''b''" 1] by simp

end
