(* ===== verification/Agent_Fabric.thy ===== *)
theory Agent_Fabric
  imports Interfaces "HOL-Library.List_Lexorder" "HOL-Library.Char_ord"
begin

text \<open>
  Package \<open>internal/agentfabric\<close>: the agent registry and process tree (\<open>fabric.go\<close>, \<open>agent.go\<close>), the
  lifecycle primitives (\<open>lifecycle.go\<close>), resource admission (\<open>resource.go\<close>), cognitive-execution
  budgets (\<open>governance.go\<close>) and death snapshots (\<open>snapshot.go\<close>). The execution body of an agent is an
  interface; its type is the parameter \<open>'c\<close>, and a factory is a function to it (\<open>None\<close> for nil).
  Every method runs under the registry lock and is one atomic step.
\<close>

section \<open>Data\<close>

datatype agent_error =
    ErrAgentNotFound
  | ErrAgentExists
  | ErrAgentRetired
  | ErrAgentNotSuspended
  | ErrAgentRunning
  | ErrAgentNotExecutable
  | ErrInvalidSpawnSpec
  | ErrResourceQuotaExceeded
  | ErrResourceExceeded

datatype agent_state = AgentIdle | AgentRunning | AgentSuspended | AgentRetired

text \<open>A claim is a Go map from resource names to amounts: an association list, one entry per name.\<close>

type_synonym claim = "(string \<times> rat) list"

record cognitive_state =
  cs_version :: int
  cs_context :: goval
  cs_observation :: goval
  cs_memory :: goval
  cs_decision :: goval
  cs_tools :: goval
  cs_checkpoint :: goval

definition cognitive_state_schema_version :: int where
  "cognitive_state_schema_version = 1"

definition zero_cognitive :: cognitive_state where
  "zero_cognitive = \<lparr>cs_version = 0, cs_context = GNil, cs_observation = GNil, cs_memory = GNil,
     cs_decision = GNil, cs_tools = GNil, cs_checkpoint = GNil\<rparr>"

record governance =
  gv_token_budget :: int
  gv_tool_budget :: int
  gv_deadline :: duration

record governance_state =
  gs_cfg :: governance
  gs_token_used :: int
  gs_tool_used :: int
  gs_deadline :: time

record 'c agent =
  a_identity :: string
  a_capabilities :: "string list"
  a_state :: agent_state
  a_load :: rat
  a_confidence :: rat
  a_parent :: string
  a_priority :: rat
  a_spawned_at :: time
  a_resources :: claim
  a_cognitive :: cognitive_state
  a_private :: "string \<rightharpoonup> goval"
  a_task_context :: "string \<rightharpoonup> goval"
  a_cognition :: "'c option"
  a_governance :: governance_state

definition executable :: "'c agent \<Rightarrow> bool" where
  "executable a \<longleftrightarrow> a_cognition a \<noteq> None"

record agent_snapshot =
  sn_cognitive :: cognitive_state
  sn_capabilities :: "string list"
  sn_parent :: string
  sn_died_at :: time

datatype agent_event_type =
    EventAgentSpawned
  | EventAgentSuspended
  | EventAgentResumed
  | EventAgentRetired
  | EventAgentKilled
  | EventAgentRecovered

record agent_event =
  ae_type :: agent_event_type
  ae_agent :: string
  ae_parent :: string
  ae_state :: agent_state
  ae_at :: time
  ae_payload :: "(string \<times> goval) list"

record 'c agent_fabric =
  af_agents :: "string \<rightharpoonup> 'c agent"
  af_children :: "string \<rightharpoonup> string list"
  af_idseq :: nat
  af_now :: time
  af_sink :: bool
  af_emitted :: "agent_event list"
  af_budget :: "string \<rightharpoonup> rat"
  af_allocated :: "string \<rightharpoonup> rat"
  af_snapshots :: "string \<rightharpoonup> agent_snapshot"

definition new_agent_fabric :: "time \<Rightarrow> 'c agent_fabric" where
  "new_agent_fabric now = \<lparr>af_agents = Map.empty, af_children = Map.empty, af_idseq = 0, af_now = now,
     af_sink = False, af_emitted = [], af_budget = Map.empty, af_allocated = Map.empty,
     af_snapshots = Map.empty\<rparr>"

definition with_agent_clock :: "time \<Rightarrow> 'c agent_fabric \<Rightarrow> 'c agent_fabric" where
  "with_agent_clock now f = f\<lparr>af_now := now\<rparr>"

definition with_event_sink :: "bool \<Rightarrow> 'c agent_fabric \<Rightarrow> 'c agent_fabric" where
  "with_event_sink attached f = f\<lparr>af_sink := attached\<rparr>"

text \<open>\<open>record\<close>: what the sink is handed, best effort.\<close>

definition emit_event ::
  "'c agent \<Rightarrow> agent_event_type \<Rightarrow> (string \<times> goval) list \<Rightarrow> 'c agent_fabric \<Rightarrow> 'c agent_fabric" where
  "emit_event a et payload f =
     (if \<not> af_sink f then f
      else f\<lparr>af_emitted := af_emitted f @ [\<lparr>ae_type = et, ae_agent = a_identity a, ae_parent = a_parent a,
               ae_state = a_state a, ae_at = af_now f, ae_payload = payload\<rparr>]\<rparr>)"

definition put_agent :: "string \<Rightarrow> 'c agent \<Rightarrow> 'c agent_fabric \<Rightarrow> 'c agent_fabric" where
  "put_agent aid a f = f\<lparr>af_agents := (af_agents f)(aid \<mapsto> a)\<rparr>"

section \<open>The registry\<close>

definition get_agent :: "string \<Rightarrow> 'c agent_fabric \<Rightarrow> agent_error + 'c agent" where
  "get_agent aid f = (case af_agents f aid of None \<Rightarrow> Inl ErrAgentNotFound | Some a \<Rightarrow> Inr a)"

text \<open>
  \<open>Agents\<close> sorts the ids in place by exchanges. \<open>exchange_pass x ys\<close> is the inner loop for one position:
  \<open>x\<close> is the element in it, \<open>ys\<close> the rest; a smaller element is swapped in and \<open>x\<close> takes its place.
\<close>

fun exchange_pass :: "string \<Rightarrow> string list \<Rightarrow> string \<times> string list" where
  "exchange_pass x [] = (x, [])"
| "exchange_pass x (y # ys) =
     (if y < x then (let (m, r) = exchange_pass y ys in (m, x # r))
      else (let (m, r) = exchange_pass x ys in (m, y # r)))"

lemma exchange_pass_length: "length (snd (exchange_pass x ys)) = length ys"
  by (induction ys arbitrary: x) (auto simp: split_beta Let_def)

function exchange_sort :: "string list \<Rightarrow> string list" where
  "exchange_sort [] = []"
| "exchange_sort (x # xs) = (let p = exchange_pass x xs in fst p # exchange_sort (snd p))"
  by pat_completeness auto
termination
  by (relation "measure length") (simp_all add: exchange_pass_length)

definition agent_ids :: "string list \<Rightarrow> 'c agent_fabric \<Rightarrow> string list" where
  "agent_ids ord f = exchange_sort (range_keys (af_agents f) ord)"

definition is_idle :: "string \<Rightarrow> 'c agent_fabric \<Rightarrow> bool" where
  "is_idle aid f = (case af_agents f aid of None \<Rightarrow> False | Some a \<Rightarrow> a_state a = AgentIdle)"

definition children :: "string \<Rightarrow> 'c agent_fabric \<Rightarrow> string list" where
  "children pid f = (case af_children f pid of None \<Rightarrow> [] | Some kids \<Rightarrow> kids)"

text \<open>\<open>fmt.Sprintf("agent-%d", idSeq)\<close>.\<close>

definition next_id :: "'c agent_fabric \<Rightarrow> string \<times> 'c agent_fabric" where
  "next_id f = (''agent-'' @ go_itoa (Suc (af_idseq f)), f\<lparr>af_idseq := Suc (af_idseq f)\<rparr>)"

section \<open>Resource admission\<close>

definition with_resource_budget :: "(string \<rightharpoonup> rat) \<Rightarrow> 'c agent_fabric \<Rightarrow> 'c agent_fabric" where
  "with_resource_budget budget f = f\<lparr>af_budget := budget\<rparr>"

definition update_resource_budget :: "(string \<rightharpoonup> rat) \<Rightarrow> 'c agent_fabric \<Rightarrow> 'c agent_fabric" where
  "update_resource_budget budget f = f\<lparr>af_budget := budget\<rparr>"

text \<open>The Go types float64, int and int64 are numeric; \<open>GInt\<close> stands for both integer types here.\<close>

fun parse_amount :: "string \<times> goval \<Rightarrow> (string \<times> rat) option" where
  "parse_amount (name, GFloat v) = Some (name, v)"
| "parse_amount (name, GInt n) = Some (name, of_int n)"
| "parse_amount _ = None"

definition parse_resource_claim :: "(string \<times> goval) list \<Rightarrow> claim" where
  "parse_resource_claim resources = List.map_filter parse_amount resources"

definition allocated :: "'c agent_fabric \<Rightarrow> string \<Rightarrow> rat" where
  "allocated f r = (case af_allocated f r of None \<Rightarrow> 0 | Some v \<Rightarrow> v)"

definition can_allocate :: "claim \<Rightarrow> 'c agent_fabric \<Rightarrow> bool" where
  "can_allocate cl f =
     list_all (\<lambda>(name, amount). case af_budget f name of
         None \<Rightarrow> True | Some mx \<Rightarrow> \<not> allocated f name + amount > mx) cl"

fun allocate :: "claim \<Rightarrow> 'c agent_fabric \<Rightarrow> 'c agent_fabric" where
  "allocate [] f = f"
| "allocate ((name, amount) # cl) f =
     allocate cl (if amount \<le> 0 then f
       else f\<lparr>af_allocated := (af_allocated f)(name \<mapsto> allocated f name + amount)\<rparr>)"

fun release_claim :: "claim \<Rightarrow> 'c agent_fabric \<Rightarrow> 'c agent_fabric" where
  "release_claim [] f = f"
| "release_claim ((name, amount) # cl) f =
     release_claim cl (if amount \<le> 0 then f
       else f\<lparr>af_allocated := (af_allocated f)(name \<mapsto>
          (if allocated f name - amount < 0 then 0 else allocated f name - amount))\<rparr>)"

section \<open>Lifecycle\<close>

record 'c spawn_spec =
  ss_identity :: string
  ss_capabilities :: "string list"
  ss_parent :: string
  ss_task_context :: "string \<rightharpoonup> goval"
  ss_resources :: "(string \<times> goval) list"
  ss_governance :: governance
  ss_priority :: rat
  ss_factory :: "(string list \<Rightarrow> 'c option) option"
  ss_prior :: goval

definition validate_spawn_spec :: "'c spawn_spec \<Rightarrow> agent_error option" where
  "validate_spawn_spec spec =
     (if ss_identity spec \<noteq> '''' \<and> CHR '' '' \<in> set (ss_identity spec) then Some ErrInvalidSpawnSpec else None)"

definition new_governance :: "governance \<Rightarrow> time \<Rightarrow> governance_state" where
  "new_governance g now = \<lparr>gs_cfg = g, gs_token_used = 0, gs_tool_used = 0,
     gs_deadline = (if gv_deadline g > 0 then now + gv_deadline g else 0)\<rparr>"

text \<open>The agent a spawn creates under the id it was given or assigned.\<close>

definition new_agent :: "string \<Rightarrow> 'c spawn_spec \<Rightarrow> claim \<Rightarrow> time \<Rightarrow> 'c agent" where
  "new_agent aid spec cl now = \<lparr>
     a_identity = aid, a_capabilities = ss_capabilities spec, a_state = AgentIdle, a_load = 0,
     a_confidence = 0, a_parent = ss_parent spec, a_priority = ss_priority spec, a_spawned_at = now,
     a_resources = cl,
     a_cognitive = (if ss_prior spec \<noteq> GNil
        then zero_cognitive\<lparr>cs_version := cognitive_state_schema_version, cs_context := ss_prior spec\<rparr>
        else zero_cognitive),
     a_private = Map.empty, a_task_context = ss_task_context spec,
     a_cognition = (case ss_factory spec of None \<Rightarrow> None | Some fac \<Rightarrow> fac (ss_capabilities spec)),
     a_governance = new_governance (ss_governance spec) now\<rparr>"

definition add_child :: "string \<Rightarrow> string \<Rightarrow> 'c agent_fabric \<Rightarrow> 'c agent_fabric" where
  "add_child pid aid f =
     (if pid = '''' then f else f\<lparr>af_children := (af_children f)(pid \<mapsto> children pid f @ [aid])\<rparr>)"

definition spawn :: "'c spawn_spec \<Rightarrow> 'c agent_fabric \<Rightarrow> (agent_error, 'c agent, 'c agent_fabric) outcome"
  where
  "spawn spec f =
     (case validate_spawn_spec spec of
        Some e \<Rightarrow> (Inl e, f)
      | None \<Rightarrow>
          (let cl = parse_resource_claim (ss_resources spec);
               p = (if ss_identity spec = '''' then next_id f else (ss_identity spec, f));
               aid = fst p; f1 = snd p
           in if af_agents f1 aid \<noteq> None then (Inl ErrAgentExists, f1)
              else if \<not> can_allocate cl f1 then (Inl ErrResourceQuotaExceeded, f1)
              else
                (let a = new_agent aid spec cl (af_now f1);
                     f2 = add_child (ss_parent spec) aid (allocate cl (put_agent aid a f1))
                 in (Inr a, emit_event a EventAgentSpawned
                       [(''parent_id'', GStr (ss_parent spec)),
                        (''capabilities'', GList (map GStr (ss_capabilities spec))),
                        (''resources'', GMap (ss_resources spec))] f2))))"

definition suspend :: "string \<Rightarrow> 'c agent_fabric \<Rightarrow> (agent_error, unit, 'c agent_fabric) outcome" where
  "suspend aid f =
     (case af_agents f aid of
        None \<Rightarrow> (Inl ErrAgentNotFound, f)
      | Some a \<Rightarrow>
          if a_state a = AgentRetired then (Inl ErrAgentRetired, f)
          else if a_state a = AgentSuspended then (Inr (), f)
          else (let a' = a\<lparr>a_state := AgentSuspended\<rparr>
                in (Inr (), emit_event a' EventAgentSuspended [] (put_agent aid a' f))))"

definition resume :: "string \<Rightarrow> 'c agent_fabric \<Rightarrow> (agent_error, unit, 'c agent_fabric) outcome" where
  "resume aid f =
     (case af_agents f aid of
        None \<Rightarrow> (Inl ErrAgentNotFound, f)
      | Some a \<Rightarrow>
          if a_state a = AgentRetired then (Inl ErrAgentRetired, f)
          else if a_state a \<noteq> AgentSuspended then (Inl ErrAgentNotSuspended, f)
          else (let a' = a\<lparr>a_state := AgentIdle\<rparr>
                in (Inr (), emit_event a' EventAgentResumed [] (put_agent aid a' f))))"

definition clear_snapshot :: "string \<Rightarrow> 'c agent_fabric \<Rightarrow> 'c agent_fabric" where
  "clear_snapshot aid f = f\<lparr>af_snapshots := (af_snapshots f)(aid := None)\<rparr>"

definition retire :: "string \<Rightarrow> 'c agent_fabric \<Rightarrow> (agent_error, unit, 'c agent_fabric) outcome" where
  "retire aid f =
     (case af_agents f aid of
        None \<Rightarrow> (Inl ErrAgentNotFound, f)
      | Some a \<Rightarrow>
          if a_state a = AgentRetired then (Inr (), f)
          else if a_state a = AgentRunning then (Inl ErrAgentRunning, f)
          else (let a' = a\<lparr>a_resources := [], a_state := AgentRetired\<rparr>
                in (Inr (), emit_event a' EventAgentRetired []
                      (clear_snapshot aid (put_agent aid a' (release_claim (a_resources a) f))))))"

definition capture_from_agent :: "'c agent \<Rightarrow> time \<Rightarrow> agent_snapshot" where
  "capture_from_agent a died =
     \<lparr>sn_cognitive = (if cs_version (a_cognitive a) = 0
        then (a_cognitive a)\<lparr>cs_version := cognitive_state_schema_version\<rparr> else a_cognitive a),
      sn_capabilities = a_capabilities a, sn_parent = a_parent a, sn_died_at = died\<rparr>"

definition save_snapshot :: "string \<Rightarrow> agent_snapshot \<Rightarrow> 'c agent_fabric \<Rightarrow> 'c agent_fabric" where
  "save_snapshot aid sn f = f\<lparr>af_snapshots := (af_snapshots f)(aid \<mapsto> sn)\<rparr>"

definition kill :: "string \<Rightarrow> 'c agent_fabric \<Rightarrow> (agent_error, unit, 'c agent_fabric) outcome" where
  "kill aid f =
     (case af_agents f aid of
        None \<Rightarrow> (Inl ErrAgentNotFound, f)
      | Some a \<Rightarrow>
          (let sn = capture_from_agent a (af_now f);
               f1 = f\<lparr>af_agents := (af_agents f)(aid := None)\<rparr>
           in (Inr (), emit_event (a\<lparr>a_resources := []\<rparr>) EventAgentKilled []
                 (save_snapshot aid sn (release_claim (a_resources a) f1)))))"

definition upgraded :: "cognitive_state \<Rightarrow> cognitive_state" where
  "upgraded cs = (if cs_version cs = 0 then cs\<lparr>cs_version := cognitive_state_schema_version\<rparr> else cs)"

definition recover ::
  "string \<Rightarrow> cognitive_state \<Rightarrow> 'c agent_fabric \<Rightarrow> (agent_error, unit, 'c agent_fabric) outcome" where
  "recover aid cs f =
     (case af_agents f aid of
        None \<Rightarrow> (Inl ErrAgentNotFound, f)
      | Some a \<Rightarrow>
          if a_state a = AgentRetired then (Inl ErrAgentRetired, f)
          else (let a' = a\<lparr>a_cognitive := upgraded cs,
                          a_state := (if a_state a = AgentSuspended then AgentIdle else a_state a)\<rparr>
                in (Inr (), emit_event a' EventAgentRecovered
                      [(''has_checkpoint'', GBool (cs_checkpoint (upgraded cs) \<noteq> GNil))] (put_agent aid a' f))))"

text \<open>\<open>SetRunning\<close> and \<open>SetIdle\<close>: what the scheduler calls when it binds a task or lets it go.\<close>

definition set_agent_state ::
  "agent_state \<Rightarrow> string \<Rightarrow> 'c agent_fabric \<Rightarrow> (agent_error, unit, 'c agent_fabric) outcome" where
  "set_agent_state s aid f =
     (case af_agents f aid of
        None \<Rightarrow> (Inl ErrAgentNotFound, f)
      | Some a \<Rightarrow>
          if a_state a = AgentRetired then (Inl ErrAgentRetired, f)
          else (Inr (), put_agent aid (a\<lparr>a_state := s\<rparr>) f))"

definition set_running :: "string \<Rightarrow> 'c agent_fabric \<Rightarrow> (agent_error, unit, 'c agent_fabric) outcome" where
  "set_running aid f = set_agent_state AgentRunning aid f"

definition set_idle :: "string \<Rightarrow> 'c agent_fabric \<Rightarrow> (agent_error, unit, 'c agent_fabric) outcome" where
  "set_idle aid f = set_agent_state AgentIdle aid f"

section \<open>Death snapshots\<close>

definition last_snapshot :: "string \<Rightarrow> 'c agent_fabric \<Rightarrow> agent_snapshot option" where
  "last_snapshot aid f = af_snapshots f aid"

text \<open>One pass of the loop of \<open>findByCapability\<close>, and the loop over the map in the order \<open>ord\<close>.\<close>

definition snapshot_step ::
  "(string \<rightharpoonup> agent_snapshot) \<Rightarrow> string \<Rightarrow> string \<Rightarrow> (string \<times> agent_snapshot) option
    \<Rightarrow> (string \<times> agent_snapshot) option" where
  "snapshot_step m cap aid best =
     (case m aid of
        None \<Rightarrow> best
      | Some sn \<Rightarrow>
          if cap \<notin> set (sn_capabilities sn) then best
          else (case best of
                  None \<Rightarrow> Some (aid, sn)
                | Some (b, bsn) \<Rightarrow> if sn_died_at sn > sn_died_at bsn then Some (aid, sn) else best))"

definition find_revivable_snapshot ::
  "string list \<Rightarrow> string \<Rightarrow> 'c agent_fabric \<Rightarrow> (string \<times> agent_snapshot) option" where
  "find_revivable_snapshot ord cap f =
     fold (snapshot_step (af_snapshots f) cap) (range_keys (af_snapshots f) ord) None"

section \<open>Cognitive-execution budgets\<close>

definition check_resource :: "string \<Rightarrow> int \<Rightarrow> int \<Rightarrow> 'c agent_fabric \<Rightarrow> agent_error + bool" where
  "check_resource aid token tool f =
     (case af_agents f aid of
        None \<Rightarrow> Inl ErrAgentNotFound
      | Some a \<Rightarrow>
          (let g = a_governance a in
           if gv_token_budget (gs_cfg g) > 0 \<and> gs_token_used g + token > gv_token_budget (gs_cfg g)
           then Inr False
           else if gv_tool_budget (gs_cfg g) > 0 \<and> gs_tool_used g + tool > gv_tool_budget (gs_cfg g)
           then Inr False
           else Inr True))"

definition put_governance :: "string \<Rightarrow> 'c agent \<Rightarrow> governance_state \<Rightarrow> 'c agent_fabric \<Rightarrow> 'c agent_fabric" where
  "put_governance aid a g f = put_agent aid (a\<lparr>a_governance := g\<rparr>) f"

definition consume_tokens :: "int \<Rightarrow> governance_state \<Rightarrow> agent_error + governance_state" where
  "consume_tokens token g =
     (if token > 0 then
        (if gv_token_budget (gs_cfg g) > 0 \<and> gs_token_used g + token > gv_token_budget (gs_cfg g)
         then Inl ErrResourceExceeded else Inr (g\<lparr>gs_token_used := gs_token_used g + token\<rparr>))
      else Inr g)"

definition consume_tools :: "int \<Rightarrow> governance_state \<Rightarrow> agent_error + governance_state" where
  "consume_tools tool g =
     (if tool > 0 then
        (if gv_tool_budget (gs_cfg g) > 0 \<and> gs_tool_used g + tool > gv_tool_budget (gs_cfg g)
         then Inl ErrResourceExceeded else Inr (g\<lparr>gs_tool_used := gs_tool_used g + tool\<rparr>))
      else Inr g)"

text \<open>The tokens are recorded before the tool budget is tried.\<close>

definition consume_resource ::
  "string \<Rightarrow> int \<Rightarrow> int \<Rightarrow> 'c agent_fabric \<Rightarrow> (agent_error, unit, 'c agent_fabric) outcome" where
  "consume_resource aid token tool f =
     (case af_agents f aid of
        None \<Rightarrow> (Inl ErrAgentNotFound, f)
      | Some a \<Rightarrow>
          (case consume_tokens token (a_governance a) of
             Inl e \<Rightarrow> (Inl e, f)
           | Inr g1 \<Rightarrow>
               (case consume_tools tool g1 of
                  Inl e \<Rightarrow> (Inl e, put_governance aid a g1 f)
                | Inr g2 \<Rightarrow> (Inr (), put_governance aid a g2 f))))"

definition deadline_exceeded :: "string \<Rightarrow> 'c agent_fabric \<Rightarrow> agent_error + bool" where
  "deadline_exceeded aid f =
     (case af_agents f aid of
        None \<Rightarrow> Inl ErrAgentNotFound
      | Some a \<Rightarrow>
          (let g = a_governance a in
           if gv_deadline (gs_cfg g) \<le> 0 then Inr False else Inr (\<not> af_now f < gs_deadline g)))"

definition reset_resource :: "string \<Rightarrow> 'c agent_fabric \<Rightarrow> (agent_error, unit, 'c agent_fabric) outcome" where
  "reset_resource aid f =
     (case af_agents f aid of
        None \<Rightarrow> (Inl ErrAgentNotFound, f)
      | Some a \<Rightarrow>
          (let g = a_governance a;
               g' = g\<lparr>gs_token_used := 0, gs_tool_used := 0,
                      gs_deadline := (if gv_deadline (gs_cfg g) > 0 then af_now f + gv_deadline (gs_cfg g)
                                      else gs_deadline g)\<rparr>
           in (Inr (), put_governance aid a g' f)))"

definition budget_usage :: "string \<Rightarrow> 'c agent_fabric \<Rightarrow> agent_error + int \<times> int" where
  "budget_usage aid f =
     (case af_agents f aid of
        None \<Rightarrow> Inl ErrAgentNotFound
      | Some a \<Rightarrow> Inr (gs_token_used (a_governance a), gs_tool_used (a_governance a)))"

end
