(* ===== verification/Agent_Context.thy ===== *)
theory Agent_Context
  imports Agent_Fabric Checkpoint_Schema
begin

text \<open>
  Package \<open>internal/agentfabric\<close>: the context layers and the versioned decoding of the cognitive state
  (\<open>context.go\<close>), and the delegation of one quantum to the injected execution body (\<open>executor.go\<close>).
\<close>

section \<open>Decoding the cognitive state\<close>

datatype cognitive_error = ErrCognitiveStateSchemaVersion

definition check_cognitive_version :: "cognitive_state \<Rightarrow> cognitive_error + cognitive_state" where
  "check_cognitive_version cs =
     (if cs_version cs > cognitive_state_schema_version then Inl ErrCognitiveStateSchemaVersion else Inr cs)"

definition field_of :: "(string \<times> goval) list \<Rightarrow> string \<Rightarrow> goval" where
  "field_of m k = (case map_of m k of Some v \<Rightarrow> v | None \<Rightarrow> GNil)"

definition decode_cognitive_map :: "(string \<times> goval) list \<Rightarrow> cognitive_error + cognitive_state" where
  "decode_cognitive_map m =
     (case map_of m ''schema_version'' of
        Some sv \<Rightarrow>
          (let version = schema_version_of sv in
           if version > cognitive_state_schema_version then Inl ErrCognitiveStateSchemaVersion
           else Inr \<lparr>cs_version = version, cs_context = field_of m ''context'',
                     cs_observation = field_of m ''observation'', cs_memory = field_of m ''working_memory'',
                     cs_decision = field_of m ''decision'', cs_tools = field_of m ''tool_state'',
                     cs_checkpoint = field_of m ''checkpoint''\<rparr>)
      | None \<Rightarrow> Inr (zero_cognitive\<lparr>cs_context := GMap m\<rparr>))"

text \<open>A \<open>CognitiveState\<close> as a dynamic value; a pointer to one is the value it points to.\<close>

definition cognitive_value :: "cognitive_state \<Rightarrow> goval" where
  "cognitive_value cs = GCognitive (cs_version cs) (cs_context cs) (cs_observation cs) (cs_memory cs)
     (cs_decision cs) (cs_tools cs) (cs_checkpoint cs)"

fun decode_cognitive_state :: "goval \<Rightarrow> cognitive_error + cognitive_state" where
  "decode_cognitive_state GNil = Inr zero_cognitive"
| "decode_cognitive_state (GCognitive v c ob w d t cp) =
     check_cognitive_version \<lparr>cs_version = v, cs_context = c, cs_observation = ob, cs_memory = w,
       cs_decision = d, cs_tools = t, cs_checkpoint = cp\<rparr>"
| "decode_cognitive_state (GMap m) = decode_cognitive_map m"
| "decode_cognitive_state v = Inr (zero_cognitive\<lparr>cs_context := v\<rparr>)"

section \<open>The context layers\<close>

definition set_task_context ::
  "string \<Rightarrow> (string \<rightharpoonup> goval) \<Rightarrow> 'c agent_fabric \<Rightarrow> (agent_error, unit, 'c agent_fabric) outcome" where
  "set_task_context aid ctx f =
     (case af_agents f aid of
        None \<Rightarrow> (Inl ErrAgentNotFound, f)
      | Some a \<Rightarrow> (Inr (), put_agent aid (a\<lparr>a_task_context := ctx\<rparr>) f))"

definition task_context :: "string \<Rightarrow> 'c agent_fabric \<Rightarrow> agent_error + (string \<rightharpoonup> goval)" where
  "task_context aid f =
     (case af_agents f aid of None \<Rightarrow> Inl ErrAgentNotFound | Some a \<Rightarrow> Inr (a_task_context a))"

definition set_private ::
  "string \<Rightarrow> string \<Rightarrow> goval \<Rightarrow> 'c agent_fabric \<Rightarrow> (agent_error, unit, 'c agent_fabric) outcome" where
  "set_private aid key v f =
     (case af_agents f aid of
        None \<Rightarrow> (Inl ErrAgentNotFound, f)
      | Some a \<Rightarrow> (Inr (), put_agent aid (a\<lparr>a_private := (a_private a)(key \<mapsto> v)\<rparr>) f))"

definition private_value :: "string \<Rightarrow> string \<Rightarrow> 'c agent_fabric \<Rightarrow> agent_error + goval" where
  "private_value aid key f =
     (case af_agents f aid of
        None \<Rightarrow> Inl ErrAgentNotFound
      | Some a \<Rightarrow> Inr (case a_private a key of None \<Rightarrow> GNil | Some v \<Rightarrow> v))"

definition context_view ::
  "string \<Rightarrow> 'c agent_fabric \<Rightarrow> agent_error + (string \<rightharpoonup> goval) \<times> (string \<rightharpoonup> goval)" where
  "context_view aid f =
     (case af_agents f aid of
        None \<Rightarrow> Inl ErrAgentNotFound | Some a \<Rightarrow> Inr (a_task_context a, a_private a))"

definition get_cognitive_state :: "string \<Rightarrow> 'c agent_fabric \<Rightarrow> agent_error + cognitive_state" where
  "get_cognitive_state aid f =
     (case af_agents f aid of None \<Rightarrow> Inl ErrAgentNotFound | Some a \<Rightarrow> Inr (a_cognitive a))"

definition set_cognitive_state ::
  "string \<Rightarrow> cognitive_state \<Rightarrow> 'c agent_fabric \<Rightarrow> (agent_error, unit, 'c agent_fabric) outcome" where
  "set_cognitive_state aid cs f =
     (case af_agents f aid of
        None \<Rightarrow> (Inl ErrAgentNotFound, f)
      | Some a \<Rightarrow> (Inr (), put_agent aid (a\<lparr>a_cognitive := upgraded cs\<rparr>) f))"

text \<open>One quantum: the body's step when there is a body. \<open>run\<close> is the body's \<open>ExecuteStep\<close>.\<close>

definition agent_execute_step :: "('c \<Rightarrow> 't \<Rightarrow> 'e + 'o) \<Rightarrow> 'c agent \<Rightarrow> 't \<Rightarrow> (agent_error + 'e) + 'o" where
  "agent_execute_step run a task =
     (case a_cognition a of
        None \<Rightarrow> Inl (Inl ErrAgentNotExecutable)
      | Some c \<Rightarrow> (case run c task of Inl e \<Rightarrow> Inl (Inr e) | Inr out \<Rightarrow> Inr out))"

section \<open>Properties of the context\<close>

text \<open>The native form of a cognitive state decodes to itself unless it comes from a newer schema,
  which is refused; the JSON form under the documented keys decodes field by field. But the
  struct has no JSON tags: after \<open>json.Marshal\<close> and \<open>json.Unmarshal\<close> it is read as one opaque legacy
  context, without a version and with every field lost as a field.\<close>

theorem cognitive_state_decoding:
  "(cs_version cs \<le> cognitive_state_schema_version \<longrightarrow>
      decode_cognitive_state (cognitive_value cs) = Inr cs
      \<and> decode_cognitive_state (GMap [(''schema_version'', GInt (cs_version cs)), (''context'', cs_context cs),
          (''observation'', cs_observation cs), (''working_memory'', cs_memory cs),
          (''decision'', cs_decision cs), (''tool_state'', cs_tools cs),
          (''checkpoint'', cs_checkpoint cs)]) = Inr cs)
   \<and> (cs_version cs > cognitive_state_schema_version \<longrightarrow>
      decode_cognitive_state (cognitive_value cs) = Inl ErrCognitiveStateSchemaVersion)
   \<and> decode_cognitive_state (json_reload other (cognitive_value cs)) =
       Inr (zero_cognitive\<lparr>cs_context := json_reload other (cognitive_value cs)\<rparr>)"
  by (simp add: cognitive_value_def check_cognitive_version_def decode_cognitive_map_def field_of_def)

lemma cognitive_state_decoding_witness:
  "decode_cognitive_state (cognitive_value (zero_cognitive\<lparr>cs_version := 1, cs_decision := GStr ''go''\<rparr>))
   = Inr (zero_cognitive\<lparr>cs_version := 1, cs_decision := GStr ''go''\<rparr>)"
  using cognitive_state_decoding [of "zero_cognitive\<lparr>cs_version := 1, cs_decision := GStr ''go''\<rparr>" "\<lambda>ty n. GNil"]
  by (simp add: cognitive_state_schema_version_def)

end
