(* ===== verification/Agent_Fabric_Props.thy ===== *)
theory Agent_Fabric_Props
  imports Agent_Context "HOL-Library.Multiset"
begin

text \<open>
  The properties of the Agent Fabric: exact quota accounting, admission within the quota, the agent
  lifecycle with RETIRED as its final state, death snapshots and revival, budgets, and the sorted
  listing of agents.
\<close>

section \<open>The fabric as a transition system\<close>

datatype 'c agent_op =
    ASpawn "'c spawn_spec"
  | ASuspend string
  | AResume string
  | ARetire string
  | AKill string
  | ARecover string cognitive_state
  | ASetRunning string
  | ASetIdle string
  | AConsume string int int
  | AReset string
  | AClearSnapshot string
  | ATaskContext string "string \<rightharpoonup> goval"
  | APrivate string string goval
  | ACognitive string cognitive_state
  | AClock time
  | ASink bool
  | ABudget "string \<rightharpoonup> rat"
  | AUpdateBudget "string \<rightharpoonup> rat"

fun exec_agent :: "'c agent_op \<Rightarrow> 'c agent_fabric \<Rightarrow> 'c agent_fabric" where
  "exec_agent (ASpawn spec) f = snd (spawn spec f)"
| "exec_agent (ASuspend aid) f = snd (suspend aid f)"
| "exec_agent (AResume aid) f = snd (resume aid f)"
| "exec_agent (ARetire aid) f = snd (retire aid f)"
| "exec_agent (AKill aid) f = snd (kill aid f)"
| "exec_agent (ARecover aid cs) f = snd (recover aid cs f)"
| "exec_agent (ASetRunning aid) f = snd (set_running aid f)"
| "exec_agent (ASetIdle aid) f = snd (set_idle aid f)"
| "exec_agent (AConsume aid token tool) f = snd (consume_resource aid token tool f)"
| "exec_agent (AReset aid) f = snd (reset_resource aid f)"
| "exec_agent (AClearSnapshot aid) f = clear_snapshot aid f"
| "exec_agent (ATaskContext aid ctx) f = snd (set_task_context aid ctx f)"
| "exec_agent (APrivate aid key v) f = snd (set_private aid key v f)"
| "exec_agent (ACognitive aid cs) f = snd (set_cognitive_state aid cs f)"
| "exec_agent (AClock now) f = with_agent_clock now f"
| "exec_agent (ASink b) f = with_event_sink b f"
| "exec_agent (ABudget b) f = with_resource_budget b f"
| "exec_agent (AUpdateBudget b) f = update_resource_budget b f"

text \<open>A resource map has one entry per name.\<close>

fun valid_op :: "'c agent_op \<Rightarrow> bool" where
  "valid_op (ASpawn spec) = distinct (map fst (ss_resources spec))"
| "valid_op _ = True"

section \<open>Projections of the building blocks\<close>

lemma emit_event_simps [simp]:
  "af_agents (emit_event a et p f) = af_agents f"
  "af_allocated (emit_event a et p f) = af_allocated f"
  "af_budget (emit_event a et p f) = af_budget f"
  "af_snapshots (emit_event a et p f) = af_snapshots f"
  "af_children (emit_event a et p f) = af_children f"
  "af_now (emit_event a et p f) = af_now f"
  by (simp_all add: emit_event_def)

lemma put_agent_simps [simp]:
  "af_agents (put_agent aid a f) = (af_agents f)(aid \<mapsto> a)"
  "af_allocated (put_agent aid a f) = af_allocated f"
  "af_budget (put_agent aid a f) = af_budget f"
  "af_snapshots (put_agent aid a f) = af_snapshots f"
  "af_children (put_agent aid a f) = af_children f"
  "af_now (put_agent aid a f) = af_now f"
  by (simp_all add: put_agent_def)

lemma other_blocks_simps [simp]:
  "af_agents (add_child p aid f) = af_agents f" "af_allocated (add_child p aid f) = af_allocated f"
  "af_budget (add_child p aid f) = af_budget f" "af_snapshots (add_child p aid f) = af_snapshots f"
  "af_agents (clear_snapshot aid f) = af_agents f" "af_allocated (clear_snapshot aid f) = af_allocated f"
  "af_budget (clear_snapshot aid f) = af_budget f" "af_children (clear_snapshot aid f) = af_children f"
  "af_agents (save_snapshot aid sn f) = af_agents f" "af_allocated (save_snapshot aid sn f) = af_allocated f"
  "af_budget (save_snapshot aid sn f) = af_budget f" "af_children (save_snapshot aid sn f) = af_children f"
  "af_snapshots (clear_snapshot aid f) = (af_snapshots f)(aid := None)"
  "af_snapshots (save_snapshot aid sn f) = (af_snapshots f)(aid \<mapsto> sn)"
  by (simp_all add: add_child_def clear_snapshot_def save_snapshot_def)

lemma claim_frame [simp]:
  "af_agents (allocate cl f) = af_agents f" "af_budget (allocate cl f) = af_budget f"
  "af_snapshots (allocate cl f) = af_snapshots f" "af_children (allocate cl f) = af_children f"
  "af_now (allocate cl f) = af_now f"
  "af_agents (release_claim cl f) = af_agents f" "af_budget (release_claim cl f) = af_budget f"
  "af_snapshots (release_claim cl f) = af_snapshots f" "af_children (release_claim cl f) = af_children f"
  "af_now (release_claim cl f) = af_now f"
  by (induction cl arbitrary: f; auto)+

lemma allocated_cong: "af_allocated f = af_allocated g \<Longrightarrow> allocated f r = allocated g r"
  by (simp add: allocated_def)

section \<open>Exact accounting\<close>

definition claim_amount :: "claim \<Rightarrow> string \<Rightarrow> rat" where
  "claim_amount cl r = (\<Sum>(n, v) \<leftarrow> cl. if n = r \<and> 0 < v then v else 0)"

lemma claim_amount_simps [simp]:
  "claim_amount [] r = 0"
  "claim_amount ((n, v) # cl) r = (if n = r \<and> 0 < v then v else 0) + claim_amount cl r"
  by (simp_all add: claim_amount_def)

lemma claim_amount_nonneg [simp]: "0 \<le> claim_amount cl r"
  by (induction cl) auto

lemma allocate_adds: "allocated (allocate cl f) r = allocated f r + claim_amount cl r"
  by (induction cl arbitrary: f) (auto simp: allocated_def)

lemma release_subtracts:
  "claim_amount cl r \<le> allocated f r \<Longrightarrow> allocated (release_claim cl f) r = allocated f r - claim_amount cl r"
proof (induction cl arbitrary: f)
  case (Cons p cl)
  obtain n v where p: "p = (n, v)" by (cases p)
  show ?case
  proof (cases "n = r \<and> 0 < v")
    case True
    then have "v + claim_amount cl r \<le> allocated f r" using Cons.prems p by simp
    then have "claim_amount cl r \<le> allocated f r - v" "0 \<le> allocated f r - v"
      using claim_amount_nonneg [of cl r] by linarith+
    then show ?thesis using True p Cons.IH by (simp add: allocated_def)
  next
    case False
    then show ?thesis using Cons p by (auto simp: allocated_def)
  qed
qed simp

definition claimed :: "'c agent_fabric \<Rightarrow> string \<Rightarrow> rat" where
  "claimed f r = (\<Sum>aid\<in>dom (af_agents f). claim_amount (a_resources (the (af_agents f aid))) r)"

definition accounts_wf :: "'c agent_fabric \<Rightarrow> bool" where
  "accounts_wf f \<longleftrightarrow> finite (dom (af_agents f))
     \<and> (\<forall>aid a. af_agents f aid = Some a \<longrightarrow> a_identity a = aid)
     \<and> (\<forall>r. allocated f r = claimed f r)"

lemma claimed_insert:
  assumes "finite (dom m)" "m aid = None"
  shows "(\<Sum>k\<in>dom (m(aid \<mapsto> a)). g (the ((m(aid \<mapsto> a)) k))) = g a + (\<Sum>k\<in>dom m. g (the (m k)))"
proof -
  have "(\<Sum>k\<in>dom m. g (the ((m(aid \<mapsto> a)) k))) = (\<Sum>k\<in>dom m. g (the (m k)))"
    using assms(2) by (intro sum.cong) auto
  moreover have "aid \<notin> dom m" using assms(2) by auto
  ultimately show ?thesis using assms(1) by simp
qed

lemma claimed_split:
  assumes "finite (dom m)" "m aid = Some a"
  shows "(\<Sum>k\<in>dom m. g (the (m k))) = g a + (\<Sum>k\<in>dom (m(aid := None)). g (the ((m(aid := None)) k)))"
proof -
  have "m = (m(aid := None))(aid \<mapsto> a)" using assms(2) by auto
  then show ?thesis
    using claimed_insert [of "m(aid := None)" aid g a] assms(1) by (simp add: finite_subset)
qed

text \<open>Replacing an agent by one with the same claim, and by one without any claim.\<close>

lemma accounts_put:
  assumes "accounts_wf f" "af_agents f aid = Some a" "a_resources a' = a_resources a" "a_identity a' = a_identity a"
    "af_agents g = (af_agents f)(aid \<mapsto> a')" "af_allocated g = af_allocated f"
  shows "accounts_wf g"
proof -
  have "claimed g r = claimed f r" for r
    unfolding claimed_def using assms(2,3,5) by (intro sum.cong) (auto simp: domIff)
  moreover have "dom (af_agents g) = dom (af_agents f)" using assms(2,5) by auto
  ultimately show ?thesis
    using assms allocated_cong [OF assms(6)] unfolding accounts_wf_def by auto
qed

lemma accounts_drop:
  assumes "accounts_wf f" "af_agents f aid = Some a" "finite (dom (af_agents g))"
    "\<And>k b. af_agents g k = Some b \<Longrightarrow> a_identity b = k"
    "\<And>r. claimed f r = claim_amount (a_resources a) r + claimed g r"
    "\<And>r. allocated g r = allocated (release_claim (a_resources a) h) r" "af_allocated h = af_allocated f"
  shows "accounts_wf g"
proof -
  have nonneg: "0 \<le> claimed g r" for r
    unfolding claimed_def by (intro sum_nonneg) simp
  have alloc: "allocated h r = claim_amount (a_resources a) r + claimed g r" for r
    using assms(1,5) allocated_cong [OF assms(7), of r] unfolding accounts_wf_def by metis
  have "allocated g r = claimed g r" for r
    using assms(6) release_subtracts [of "a_resources a" r h] alloc [of r] nonneg [of r] by simp
  then show ?thesis using assms(3,4) unfolding accounts_wf_def by simp
qed

lemma claimed_remove:
  assumes "finite (dom (af_agents f))" "af_agents f aid = Some a"
    "af_agents g = (af_agents f)(aid := None) \<or>
     (\<exists>a'. a_resources a' = [] \<and> af_agents g = (af_agents f)(aid \<mapsto> a'))"
  shows "claimed f r = claim_amount (a_resources a) r + claimed g r"
proof -
  let ?m = "(af_agents f)(aid := None)"
  have split: "claimed f r = claim_amount (a_resources a) r + (\<Sum>k\<in>dom ?m. claim_amount (a_resources (the (?m k))) r)"
    unfolding claimed_def
    by (rule claimed_split [where g = "\<lambda>a. claim_amount (a_resources a) r", OF assms(1,2)])
  show ?thesis
  proof (cases "af_agents g = ?m")
    case True
    then show ?thesis using split by (simp add: claimed_def)
  next
    case False
    then obtain a' where a': "a_resources a' = []" "af_agents g = ?m(aid \<mapsto> a')" using assms(3) by auto
    have "claimed g r = claim_amount (a_resources a') r + (\<Sum>k\<in>dom ?m. claim_amount (a_resources (the (?m k))) r)"
      unfolding claimed_def a'(2)
      by (rule claimed_insert [where g = "\<lambda>a. claim_amount (a_resources a) r"])
        (use assms(1) in \<open>auto intro: finite_subset\<close>)
    then show ?thesis using split a'(1) by simp
  qed
qed

lemma claim_amount_absent: "r \<notin> fst ` set cl \<Longrightarrow> claim_amount cl r = 0"
  by (induction cl) auto

lemma claim_amount_in:
  "distinct (map fst cl) \<Longrightarrow> (r, v) \<in> set cl \<Longrightarrow> claim_amount cl r = (if 0 < v then v else 0)"
  by (induction cl) (auto simp: claim_amount_absent rev_image_eqI)

lemma can_allocate_fits:
  assumes "can_allocate cl f" "distinct (map fst cl)" "0 < claim_amount cl r" "af_budget f r = Some mx"
  shows "allocated f r + claim_amount cl r \<le> mx"
proof -
  have "r \<in> fst ` set cl" using assms(3) claim_amount_absent [of r cl] by force
  then obtain v where v: "(r, v) \<in> set cl" by auto
  then have "allocated f r + v \<le> mx"
    using assms(1,4) by (force simp: can_allocate_def list_all_iff)
  then show ?thesis using claim_amount_in [OF assms(2) v] assms(3) by (auto split: if_splits)
qed

lemma parse_claim_distinct:
  "distinct (map fst rs) \<Longrightarrow> distinct (map fst (parse_resource_claim rs))"
proof (induction rs)
  case (Cons p rs)
  obtain n v where p: "p = (n, v)" by (cases p)
  have "fst ` set (parse_resource_claim rs) \<subseteq> fst ` set rs"
  proof
    fix k
    assume "k \<in> fst ` set (parse_resource_claim rs)"
    then obtain q am where "q \<in> set rs" "parse_amount q = Some (k, am)"
      by (auto simp: parse_resource_claim_def List.map_filter_def)
    then show "k \<in> fst ` set rs" by (cases q rule: parse_amount.cases) force+
  qed
  then show ?case
    using Cons p by (cases v) (auto simp: parse_resource_claim_def map_filter_simps)
qed (simp add: parse_resource_claim_def map_filter_simps)

lemma next_id_frame [simp]:
  "af_agents (snd (next_id f)) = af_agents f" "af_allocated (snd (next_id f)) = af_allocated f"
  "af_budget (snd (next_id f)) = af_budget f" "af_snapshots (snd (next_id f)) = af_snapshots f"
  "af_now (snd (next_id f)) = af_now f" "af_children (snd (next_id f)) = af_children f"
  by (simp_all add: next_id_def)

lemma accounts_cong:
  "af_agents g = af_agents f \<Longrightarrow> af_allocated g = af_allocated f \<Longrightarrow> accounts_wf f \<Longrightarrow> accounts_wf g"
proof -
  assume g: "af_agents g = af_agents f" "af_allocated g = af_allocated f"
  then have "claimed g r = claimed f r" "allocated g r = allocated f r" for r
    by (simp_all add: claimed_def allocated_def)
  with g show "accounts_wf f \<Longrightarrow> accounts_wf g" by (simp add: accounts_wf_def)
qed

lemma new_agent_simps [simp]:
  "a_resources (new_agent aid spec cl now) = cl" "a_identity (new_agent aid spec cl now) = aid"
  "a_state (new_agent aid spec cl now) = AgentIdle" "a_parent (new_agent aid spec cl now) = ss_parent spec"
  "a_capabilities (new_agent aid spec cl now) = ss_capabilities spec"
  by (simp_all add: new_agent_def)

lemma spawn_cases:
  obtains (failed) e g where "spawn spec f = (Inl e, g)" "g = f \<or> g = snd (next_id f)"
  | (spawned) aid f1 a cl p where "spawn spec f = (Inr a, emit_event a EventAgentSpawned p
        (add_child (ss_parent spec) aid (allocate cl (put_agent aid a f1))))"
      "f1 = f \<and> aid = ss_identity spec \<or> f1 = snd (next_id f) \<and> aid = fst (next_id f)"
      "cl = parse_resource_claim (ss_resources spec)" "a = new_agent aid spec cl (af_now f1)"
      "af_agents f1 aid = None" "can_allocate cl f1"
proof -
  define q where "q = (if ss_identity spec = '''' then next_id f else (ss_identity spec, f))"
  have q: "snd q = f \<and> fst q = ss_identity spec \<or> snd q = snd (next_id f) \<and> fst q = fst (next_id f)"
    by (simp add: q_def)
  note eq = spawn_def [of spec f, unfolded Let_def, folded q_def]
  consider (bad) e where "validate_spawn_spec spec = Some e"
    | (refused) "validate_spawn_spec spec = None"
        "af_agents (snd q) (fst q) \<noteq> None \<or> \<not> can_allocate (parse_resource_claim (ss_resources spec)) (snd q)"
    | (ok) "validate_spawn_spec spec = None" "af_agents (snd q) (fst q) = None"
        "can_allocate (parse_resource_claim (ss_resources spec)) (snd q)"
    by (cases "validate_spawn_spec spec") auto
  then show thesis
  proof cases
    case bad
    then show thesis using failed [of e f] eq by simp
  next
    case refused
    then have "\<exists>e. spawn spec f = (Inl e, snd q)" using eq by auto
    then show thesis using failed q by auto
  next
    case ok
    then show thesis using eq q by (intro spawned [OF _ _ refl refl, where aid = "fst q" and ?f1.0 = "snd q"]) auto
  qed
qed

text \<open>The same under a name the caller chose.\<close>

lemma spawn_named_cases:
  assumes "ss_identity spec \<noteq> ''''"
  obtains (failed) e where "spawn spec f = (Inl e, f)"
  | (spawned) a g where "spawn spec f = (Inr a, g)" "af_agents f (ss_identity spec) = None"
      "a = new_agent (ss_identity spec) spec (parse_resource_claim (ss_resources spec)) (af_now f)"
      "af_agents g = (af_agents f)(ss_identity spec \<mapsto> a)" "af_snapshots g = af_snapshots f"
proof -
  consider (bad) e where "validate_spawn_spec spec = Some e"
    | (exists) "validate_spawn_spec spec = None" "af_agents f (ss_identity spec) \<noteq> None"
    | (quota) "validate_spawn_spec spec = None" "af_agents f (ss_identity spec) = None"
        "\<not> can_allocate (parse_resource_claim (ss_resources spec)) f"
    | (ok) "validate_spawn_spec spec = None" "af_agents f (ss_identity spec) = None"
        "can_allocate (parse_resource_claim (ss_resources spec)) f"
    by (cases "validate_spawn_spec spec") auto
  then show thesis
  proof cases
    case ok
    then show thesis using assms spawned by (simp add: spawn_def Let_def)
  qed (use assms failed in \<open>auto simp: spawn_def Let_def\<close>)
qed

lemma accounts_spawn:
  assumes "accounts_wf f" "distinct (map fst (ss_resources spec))"
  shows "accounts_wf (snd (spawn spec f))"
proof (cases rule: spawn_cases [of spec f])
  case (failed e g)
  then show ?thesis using accounts_cong [of "snd (next_id f)" f] assms(1) by auto
next
  case (spawned aid f1 a cl p)
  have f1: "accounts_wf f1" using spawned(2) accounts_cong [of "snd (next_id f)" f] assms(1) by auto
  let ?g = "snd (spawn spec f)"
  have g: "af_agents ?g = (af_agents f1)(aid \<mapsto> a)" "af_budget ?g = af_budget f1"
    "allocated ?g r = allocated f1 r + claim_amount cl r" for r
    using spawned(1) allocate_adds [of cl "put_agent aid a f1" r]
    by (simp_all add: allocated_def)
  have "claimed ?g r = claim_amount cl r + claimed f1 r" for r
    using claimed_insert [of "af_agents f1" aid "\<lambda>a. claim_amount (a_resources a) r" a] f1 spawned(4,5)
    unfolding claimed_def g(1) by (simp add: accounts_wf_def)
  then show ?thesis
    using f1 g spawned(4) by (auto simp: accounts_wf_def add.commute)
qed

lemma accounts_kill: "accounts_wf f \<Longrightarrow> accounts_wf (snd (kill aid f))"
proof (cases "af_agents f aid")
  case (Some a)
  assume wf: "accounts_wf f"
  show ?thesis
  proof (rule accounts_drop [OF wf Some])
    show "allocated (snd (kill aid f)) r = allocated (release_claim (a_resources a)
        (f\<lparr>af_agents := (af_agents f)(aid := None)\<rparr>)) r" for r
      using Some by (simp add: kill_def Let_def allocated_def)
    show "claimed f r = claim_amount (a_resources a) r + claimed (snd (kill aid f)) r" for r
      by (rule claimed_remove) (use wf Some in \<open>auto simp: kill_def Let_def accounts_wf_def\<close>)
  qed (use wf Some in \<open>auto simp: kill_def Let_def accounts_wf_def split: if_splits\<close>)
qed (simp add: kill_def)

lemma accounts_retire: "accounts_wf f \<Longrightarrow> accounts_wf (snd (retire aid f))"
proof (cases "\<exists>a. af_agents f aid = Some a \<and> a_state a \<noteq> AgentRetired \<and> a_state a \<noteq> AgentRunning")
  case True
  then obtain a where a: "af_agents f aid = Some a" "a_state a \<noteq> AgentRetired" "a_state a \<noteq> AgentRunning" by auto
  assume wf: "accounts_wf f"
  show ?thesis
  proof (rule accounts_drop [OF wf a(1)])
    show "allocated (snd (retire aid f)) r = allocated (release_claim (a_resources a) f) r" for r
      using a by (simp add: retire_def Let_def allocated_def)
    show "claimed f r = claim_amount (a_resources a) r + claimed (snd (retire aid f)) r" for r
      by (rule claimed_remove [OF _ a(1)])
        (use wf a in \<open>auto simp: retire_def Let_def accounts_wf_def intro!: exI [of _ "a\<lparr>a_resources := [], a_state := AgentRetired\<rparr>"]\<close>)
  qed (use wf a in \<open>auto simp: retire_def Let_def accounts_wf_def split: if_splits\<close>)
qed (auto simp: retire_def split: option.splits)

lemmas agent_update_defs = suspend_def resume_def recover_def set_running_def set_idle_def
  set_agent_state_def consume_resource_def reset_resource_def put_governance_def
  set_task_context_def set_private_def set_cognitive_state_def

definition one_update :: "'c agent_fabric \<Rightarrow> 'c agent_fabric \<Rightarrow> bool" where
  "one_update f g \<longleftrightarrow> af_allocated g = af_allocated f \<and>
     (af_agents g = af_agents f \<or>
      (\<exists>aid a a'. af_agents g = (af_agents f)(aid \<mapsto> a') \<and> af_agents f aid = Some a
         \<and> a_resources a' = a_resources a \<and> a_identity a' = a_identity a
         \<and> (a_state a = AgentRetired \<longleftrightarrow> a_state a' = AgentRetired)))"

lemma one_update_intros:
  "one_update f f" "one_update f (clear_snapshot aid f)" "one_update f (with_agent_clock now f)"
  "one_update f (with_event_sink b f)" "one_update f (with_resource_budget bs f)"
  "one_update f (update_resource_budget bs f)"
  "one_update f g \<Longrightarrow> one_update f (emit_event a et p g)"
  by (simp_all add: one_update_def with_agent_clock_def with_event_sink_def
      with_resource_budget_def update_resource_budget_def)

lemma one_update_put:
  "af_agents f aid = Some a \<Longrightarrow> a_resources a' = a_resources a \<Longrightarrow> a_identity a' = a_identity a \<Longrightarrow>
     (a_state a = AgentRetired \<longleftrightarrow> a_state a' = AgentRetired) \<Longrightarrow> one_update f (put_agent aid a' f)"
  unfolding one_update_def put_agent_simps by blast

text \<open>Every other operation replaces at most one agent by one with the same claim.\<close>

lemma agent_update:
  "x \<notin> range ASpawn \<Longrightarrow> x \<notin> range ARetire \<Longrightarrow> x \<notin> range AKill \<Longrightarrow> one_update f (exec_agent x f)"
  by (cases x)
    (auto simp: agent_update_defs Let_def split: option.splits sum.splits
      intro!: one_update_intros intro: one_update_put)

lemma accounts_exec: "accounts_wf f \<Longrightarrow> valid_op x \<Longrightarrow> accounts_wf (exec_agent x f)"
proof (cases "x \<in> range ASpawn \<union> range ARetire \<union> range AKill")
  case False
  assume wf: "accounts_wf f"
  have "one_update f (exec_agent x f)" using agent_update [of x f] False by auto
  then show ?thesis
    using accounts_cong [of "exec_agent x f" f] accounts_put [OF wf, where g = "exec_agent x f"] wf
    unfolding one_update_def by metis
qed (auto simp: accounts_spawn accounts_retire accounts_kill)

interpretation agent_accounts: invariant_system exec_agent valid_op accounts_wf
  by unfold_locales (rule accounts_exec)

section \<open>Properties\<close>

text \<open>The budgets a list of calls installs, the first one included: \<open>WithResourceBudget\<close> and
  \<open>UpdateResourceBudget\<close> both replace the whole map.\<close>

fun budgets :: "(string \<rightharpoonup> rat) \<Rightarrow> 'c agent_op list \<Rightarrow> (string \<rightharpoonup> rat) list" where
  "budgets b [] = [b]"
| "budgets b (ABudget b' # ops) = b # budgets b' ops"
| "budgets b (AUpdateBudget b' # ops) = b # budgets b' ops"
| "budgets b (x # ops) = budgets b ops"

definition booked_within :: "(string \<rightharpoonup> rat) \<Rightarrow> string \<Rightarrow> rat \<Rightarrow> bool" where
  "booked_within b r amount \<longleftrightarrow> (case b r of None \<Rightarrow> True | Some mx \<Rightarrow> amount \<le> mx)"

lemma budget_exec_other:
  assumes "x \<notin> range ABudget" "x \<notin> range AUpdateBudget"
  shows "af_budget (exec_agent x f) = af_budget f"
proof (cases "x \<in> range ASpawn")
  case True
  then obtain spec where "x = ASpawn spec" by auto
  then show ?thesis by (cases rule: spawn_cases [of spec f]) auto
next
  case False
  then show ?thesis
    using assms
    by (cases x) (auto simp: agent_update_defs retire_def kill_def Let_def with_agent_clock_def
      with_event_sink_def split: option.splits sum.splits)
qed

lemma budgets_other:
  assumes "x \<notin> range ABudget" "x \<notin> range AUpdateBudget"
  shows "budgets b (x # ops) = budgets b ops"
  using assms by (cases x) auto

lemma budget_run: "af_budget (fold exec_agent ops f) = last (budgets (af_budget f) ops)"
proof (induction ops arbitrary: f)
  case (Cons x ops)
  have ne: "budgets b ops \<noteq> []" for b by (induction b ops rule: budgets.induct) auto
  consider b where "x = ABudget b" | b where "x = AUpdateBudget b"
    | "x \<notin> range ABudget" "x \<notin> range AUpdateBudget" by auto
  then show ?case
    by cases (simp_all add: Cons ne with_resource_budget_def update_resource_budget_def
        budget_exec_other budgets_other del: budgets.simps(4-))
qed simp

lemma release_claim_le: "0 \<le> allocated f r \<Longrightarrow>
   0 \<le> allocated (release_claim cl f) r \<and> allocated (release_claim cl f) r \<le> allocated f r"
proof (induction cl arbitrary: f)
  case (Cons p cl)
  obtain n v where p: "p = (n, v)" by (cases p)
  define h where "h = (if v \<le> 0 then f else f\<lparr>af_allocated := (af_allocated f)(n \<mapsto>
      (if allocated f n - v < 0 then 0 else allocated f n - v))\<rparr>)"
  have "0 \<le> allocated h r" "allocated h r \<le> allocated f r"
    using Cons.prems by (auto simp: h_def allocated_def)
  then show ?case using Cons.IH [of h] by (simp add: p h_def)
qed simp

lemma booked_blocks:
  "allocated (emit_event a et p f) r = allocated f r" "allocated (clear_snapshot aid f) r = allocated f r"
  "allocated (put_agent aid a f) r = allocated f r" "allocated (save_snapshot aid sn f) r = allocated f r"
  "allocated (f\<lparr>af_agents := m\<rparr>) r = allocated f r"
  by (simp_all add: allocated_def)

lemma booking_step:
  assumes "accounts_wf f" "valid_op x"
  shows "allocated (exec_agent x f) r \<le> allocated f r
    \<or> booked_within (af_budget f) r (allocated (exec_agent x f) r)"
proof (cases "x \<in> range ASpawn \<union> range ARetire \<union> range AKill")
  case False
  then show ?thesis using agent_update [of x f] by (auto simp: one_update_def allocated_def)
next
  case True
  have nonneg: "0 \<le> allocated f r"
    using assms(1) by (simp add: accounts_wf_def claimed_def sum_nonneg)
  from True consider spec where "x = ASpawn spec" | aid where "x = ARetire aid" | aid where "x = AKill aid"
    by auto
  then show ?thesis
  proof cases
    case (1 spec)
    show ?thesis
    proof (cases rule: spawn_cases [of spec f])
      case (failed e g)
      then show ?thesis by (auto simp: 1 allocated_def)
    next
      case (spawned aid f1 a cl p)
      have same: "allocated f1 r = allocated f r" "af_budget f1 = af_budget f"
        using spawned(2) by (auto simp: allocated_def)
      have g: "allocated (exec_agent x f) r = allocated f r + claim_amount cl r"
        using 1 spawned(1) same allocate_adds [of cl "put_agent aid a f1" r] by (simp add: allocated_def)
      have "distinct (map fst cl)" using parse_claim_distinct spawned(3) assms(2) 1 by auto
      note fits = can_allocate_fits [OF spawned(6) this]
      show ?thesis
      proof (cases "claim_amount cl r = 0")
        case False
        then have "0 < claim_amount cl r" using claim_amount_nonneg [of cl r] by linarith
        then have "booked_within (af_budget f) r (allocated f1 r + claim_amount cl r)"
          using fits same(2) by (simp add: booked_within_def split: option.split)
        then show ?thesis using same(1) g by simp
      qed (simp add: g)
    qed
  next
    case (2 aid)
    then show ?thesis
      using release_claim_le [OF nonneg] by (auto simp: retire_def Let_def booked_blocks split: option.splits)
  next
    case (3 aid)
    then show ?thesis
      using release_claim_le [of "f\<lparr>af_agents := (af_agents f)(aid := None)\<rparr>" r] nonneg
      by (auto simp: kill_def Let_def booked_blocks split: option.splits)
  qed
qed

lemma booking_run:
  assumes "accounts_wf f" "list_all valid_op ops" "0 \<le> mx" "allocated f r \<le> mx"
    and "\<forall>b\<in>set (budgets (af_budget f) ops). \<exists>m. b r = Some m \<and> m \<le> mx"
  shows "allocated (fold exec_agent ops f) r \<le> mx"
  using assms
proof (induction ops arbitrary: f)
  case (Cons x ops)
  let ?g = "exec_agent x f"
  have b: "af_budget f \<in> set (budgets (af_budget f) (x # ops))"
    "set (budgets (af_budget ?g) ops) \<subseteq> set (budgets (af_budget f) (x # ops))"
  proof -
    have first: "b \<in> set (budgets b xs)" for b and xs :: "'a agent_op list"
      by (induction b xs rule: budgets.induct) auto
    show "af_budget f \<in> set (budgets (af_budget f) (x # ops))" by (rule first)
    consider b where "x = ABudget b" | b where "x = AUpdateBudget b"
      | "x \<notin> range ABudget" "x \<notin> range AUpdateBudget" by auto
    then show "set (budgets (af_budget ?g) ops) \<subseteq> set (budgets (af_budget f) (x # ops))"
      by cases (auto simp: with_resource_budget_def update_resource_budget_def budget_exec_other
          budgets_other simp del: budgets.simps(4-))
  qed
  obtain m where m: "af_budget f r = Some m" "m \<le> mx" using b(1) Cons.prems(5) by blast
  have step: "allocated ?g r \<le> allocated f r \<or> booked_within (af_budget f) r (allocated ?g r)"
    by (rule booking_step) (use Cons.prems(1,2) in simp_all)
  have "allocated ?g r \<le> mx" using step m Cons.prems(4) by (auto simp: booked_within_def)
  then show ?case
    using Cons.IH [of ?g] Cons.prems b(2) accounts_exec [of f x] by auto
qed simp

text \<open>C8: Resource accounting is exact and the quota holds, also when the budget changes. After any
  calls on a fresh fabric, budget changes included, the budget in force is the last one installed and
  what the fabric has booked for a resource is the sum of the positive claims of the agents it still
  holds (killed and retired agents claim nothing). No call raises the booking of a resource past the
  budget then in force: a lowered budget can leave the booking above it, and from there it can only
  fall. So the booking never exceeds an amount that bounds every budget installed so far.\<close>

theorem quota_respected:
  fixes f :: "'c agent_fabric"
  assumes "list_all valid_op ops" "valid_op x"
    and "f = fold exec_agent ops (with_resource_budget B (new_agent_fabric now))" "g = exec_agent x f"
  shows "af_budget f = last (budgets B ops) \<and> allocated f r = claimed f r
    \<and> (allocated g r \<le> allocated f r \<or> booked_within (af_budget f) r (allocated g r))
    \<and> (\<forall>mx. 0 \<le> mx \<and> (\<forall>b\<in>set (budgets B ops). \<exists>m. b r = Some m \<and> m \<le> mx) \<longrightarrow> allocated f r \<le> mx)"
proof -
  let ?f0 = "with_resource_budget B (new_agent_fabric now) :: 'c agent_fabric"
  have f0: "accounts_wf ?f0" "af_budget ?f0 = B" "allocated ?f0 r = 0"
    by (simp_all add: accounts_wf_def with_resource_budget_def new_agent_fabric_def allocated_def claimed_def)
  have wf: "accounts_wf f" using agent_accounts.run_inv [OF f0(1) assms(1)] by (simp add: assms(3))
  then show ?thesis
    using booking_step [OF wf assms(2), of r] booking_run [OF f0(1) assms(1), of _ r] budget_run [of ops ?f0] f0(2,3)
    by (simp add: assms(3,4) accounts_wf_def)
qed

definition sample_spec :: "unit spawn_spec" where
  "sample_spec = \<lparr>ss_identity = ''w'', ss_capabilities = [''code''], ss_parent = ''p'',
     ss_task_context = Map.empty, ss_resources = [(''cpu'', GInt 3)],
     ss_governance = \<lparr>gv_token_budget = 5, gv_tool_budget = 2, gv_deadline = 0\<rparr>, ss_priority = 0,
     ss_factory = Some (\<lambda>caps. Some ()), ss_prior = GNil\<rparr>"

definition sample_agents :: "unit agent_fabric" where
  "sample_agents = exec_agent (ASpawn sample_spec) (with_resource_budget [''cpu'' \<mapsto> 4] (new_agent_fabric 0))"

lemmas sample_agent_defs = sample_agents_def sample_spec_def spawn_def validate_spawn_spec_def Let_def
  with_resource_budget_def new_agent_fabric_def can_allocate_def parse_resource_claim_def
  map_filter_simps allocated_def

text \<open>Three units booked under a budget of four, the budget lowered to two: the three stay booked,
  above the budget in force, and a further claim is refused.\<close>

lemma quota_respected_witness:
  "\<exists>f. f = fold exec_agent [ASpawn sample_spec, AUpdateBudget [''cpu'' \<mapsto> 2]]
       (with_resource_budget [''cpu'' \<mapsto> 4] (new_agent_fabric 0))
     \<and> af_budget f = [''cpu'' \<mapsto> 2] \<and> allocated f ''cpu'' = 3 \<and> allocated f ''cpu'' \<le> 4
     \<and> allocated (exec_agent (ASpawn (sample_spec\<lparr>ss_identity := ''v''\<rparr>)) f) ''cpu'' \<le> 3"
proof -
  let ?ops = "[ASpawn sample_spec, AUpdateBudget [''cpu'' \<mapsto> 2]]"
  let ?f = "fold exec_agent ?ops (with_resource_budget [''cpu'' \<mapsto> 4] (new_agent_fabric 0))"
  let ?x = "ASpawn (sample_spec\<lparr>ss_identity := ''v''\<rparr>)"
  have three: "allocated ?f ''cpu'' = 3"
    by (simp add: sample_agent_defs update_resource_budget_def)
  have "list_all valid_op ?ops" "valid_op ?x" by (simp_all add: sample_spec_def)
  from quota_respected [OF this refl refl, of "[''cpu'' \<mapsto> 4]" 0 "''cpu''"]
  have "af_budget ?f = [''cpu'' \<mapsto> 2]" "allocated ?f ''cpu'' \<le> 4"
    "allocated (exec_agent ?x ?f) ''cpu'' \<le> 3"
    using three by (auto simp: booked_within_def)
  then show ?thesis using three by blast
qed

definition agent_state_of :: "'c agent_fabric \<Rightarrow> string \<Rightarrow> agent_state option" where
  "agent_state_of f aid = map_option a_state (af_agents f aid)"

lemma retired_exec:
  assumes "agent_state_of f aid = Some AgentRetired" "x \<noteq> AKill aid"
  shows "agent_state_of (exec_agent x f) aid = Some AgentRetired"
proof (cases "x \<in> range ASpawn \<union> range ARetire \<union> range AKill")
  case True
  then consider spec where "x = ASpawn spec" | k where "x = ARetire k" | k where "x = AKill k" by auto
  then show ?thesis
  proof cases
    case (1 spec)
    then show ?thesis
      using assms(1) by (cases rule: spawn_cases [of spec f]) (auto simp: agent_state_of_def)
  qed (use assms in \<open>auto simp: agent_state_of_def retire_def kill_def Let_def split: option.splits\<close>)
next
  case False
  then show ?thesis
    using agent_update [of x f] assms(1) by (auto simp: agent_state_of_def one_update_def)
qed

text \<open>RETIRED is final for a registered agent: no call but its kill changes that state. Suspending,
  resuming, recovering it or binding work to it is refused without effect.\<close>

theorem retired_final:
  fixes f :: "'c agent_fabric"
  assumes "agent_state_of f aid = Some AgentRetired" "AKill aid \<notin> set ops"
    and "g = fold exec_agent ops f"
  shows "agent_state_of g aid = Some AgentRetired
    \<and> suspend aid g = (Inl ErrAgentRetired, g) \<and> resume aid g = (Inl ErrAgentRetired, g)
    \<and> recover aid cs g = (Inl ErrAgentRetired, g)
    \<and> set_running aid g = (Inl ErrAgentRetired, g) \<and> set_idle aid g = (Inl ErrAgentRetired, g)"
proof -
  have "agent_state_of g aid = Some AgentRetired"
    unfolding assms(3)
  proof (rule fold_preserves [where P = "\<lambda>f. agent_state_of f aid = Some AgentRetired"])
    fix x and s :: "'c agent_fabric"
    assume "x \<in> set ops" "agent_state_of s aid = Some AgentRetired"
    moreover have "x \<noteq> AKill aid" using assms(2) calculation(1) by auto
    ultimately show "agent_state_of (exec_agent x s) aid = Some AgentRetired" by (simp add: retired_exec)
  qed (rule assms(1))
  then show ?thesis
    by (auto simp: agent_state_of_def suspend_def resume_def recover_def set_running_def set_idle_def
        set_agent_state_def)
qed

lemma retired_final_witness:
  "resume ''w'' (exec_agent (ARetire ''w'') sample_agents)
   = (Inl ErrAgentRetired, exec_agent (ARetire ''w'') sample_agents)"
proof -
  have "agent_state_of (exec_agent (ARetire ''w'') sample_agents) ''w'' = Some AgentRetired"
    by (simp add: agent_state_of_def sample_agents_def sample_spec_def spawn_def validate_spawn_spec_def
        Let_def with_resource_budget_def new_agent_fabric_def can_allocate_def parse_resource_claim_def
        map_filter_simps allocated_def retire_def)
  from retired_final [OF this, of "[]"] show ?thesis by simp
qed

text \<open>A crash loses the body, not the cognition. Killing an agent removes it alone, keeps its
  children and every other agent, and leaves a snapshot; spawning the same identity from that
  snapshot and recovering into it gives an IDLE agent with the same capabilities, the same parent
  and the same cognitive state, at a schema version.\<close>

theorem kill_then_revive:
  assumes "af_agents f aid = Some a" "aid \<noteq> ''''" "CHR '' '' \<notin> set aid" "g = snd (kill aid f)"
    and "last_snapshot aid g = Some sn"
    and "ss_identity spec = aid" "ss_capabilities spec = sn_capabilities sn" "ss_parent spec = sn_parent sn"
    and "ss_resources spec = []" "h = snd (recover aid (sn_cognitive sn) (snd (spawn spec g)))"
  shows "(\<forall>b. b \<noteq> aid \<longrightarrow> af_agents g b = af_agents f b) \<and> af_children g = af_children f
    \<and> (\<exists>a'. af_agents h aid = Some a' \<and> a_state a' = AgentIdle \<and> a_capabilities a' = a_capabilities a
          \<and> a_parent a' = a_parent a \<and> a_cognitive a' = upgraded (a_cognitive a))"
proof -
  have g: "af_agents g = (af_agents f)(aid := None)" "af_children g = af_children f"
    using assms(1,4) by (simp_all add: kill_def Let_def)
  have sn: "sn = capture_from_agent a (af_now f)"
    using assms(1,4,5) by (simp add: kill_def Let_def last_snapshot_def)
  define b where "b = new_agent aid spec (parse_resource_claim []) (af_now g)"
  have "af_agents (snd (spawn spec g)) aid = Some b"
    using assms(2,3,6,9) g(1)
    by (simp add: spawn_def validate_spawn_spec_def Let_def parse_resource_claim_def map_filter_simps
        can_allocate_def b_def)
  moreover have "a_state b = AgentIdle" "a_capabilities b = a_capabilities a" "a_parent b = a_parent a"
    using assms(7,8) sn by (simp_all add: b_def capture_from_agent_def)
  moreover have "upgraded (sn_cognitive sn) = upgraded (a_cognitive a)"
    using sn by (simp add: capture_from_agent_def upgraded_def cognitive_state_schema_version_def)
  ultimately show ?thesis
    using g assms(10) by (simp add: recover_def Let_def)
qed

lemma kill_then_revive_witness:
  "\<exists>a'. af_agents (snd (recover ''w'' (zero_cognitive\<lparr>cs_version := 1\<rparr>)
      (snd (spawn (sample_spec\<lparr>ss_resources := []\<rparr>) (snd (kill ''w'' sample_agents)))))) ''w'' = Some a'
     \<and> a_capabilities a' = [''code'']"
proof -
  obtain a where a: "af_agents sample_agents ''w'' = Some a" "a_capabilities a = [''code'']"
    "a_parent a = ''p''" "a_cognitive a = zero_cognitive"
    by (simp add: sample_agent_defs new_agent_def)
  have sn: "last_snapshot ''w'' (snd (kill ''w'' sample_agents)) = Some (capture_from_agent a (af_now sample_agents))"
    using a(1) by (simp add: kill_def Let_def last_snapshot_def)
  have "sn_cognitive (capture_from_agent a (af_now sample_agents)) = zero_cognitive\<lparr>cs_version := 1\<rparr>"
    using a(4) by (simp add: capture_from_agent_def zero_cognitive_def cognitive_state_schema_version_def)
  with kill_then_revive [OF a(1) _ _ refl sn, of "sample_spec\<lparr>ss_resources := []\<rparr>"] a(2,3)
  show ?thesis by (auto simp: sample_spec_def capture_from_agent_def)
qed

lemma snapshot_step_Some:
  "m k = Some sk \<Longrightarrow> snapshot_step m cap k best =
     (if cap \<notin> set (sn_capabilities sk) then best
      else case best of None \<Rightarrow> Some (k, sk)
        | Some (b, bsn) \<Rightarrow> if sn_died_at sk > sn_died_at bsn then Some (k, sk) else best)"
  by (simp add: snapshot_step_def)

lemma snapshot_fold_best:
  "distinct ks \<Longrightarrow> \<forall>k\<in>set ks. m k \<noteq> None \<Longrightarrow>
   (case fold (snapshot_step m cap) ks None of
      None \<Rightarrow> \<forall>k\<in>set ks. cap \<notin> set (sn_capabilities (the (m k)))
    | Some (b, sn) \<Rightarrow> b \<in> set ks \<and> m b = Some sn \<and> cap \<in> set (sn_capabilities sn)
        \<and> (\<forall>k\<in>set ks. cap \<in> set (sn_capabilities (the (m k))) \<longrightarrow> sn_died_at (the (m k)) \<le> sn_died_at sn))"
proof (induction ks rule: rev_induct)
  case (snoc k ks)
  then obtain sk where "m k = Some sk" by auto
  then show ?case
    using snoc by (cases "fold (snapshot_step m cap) ks None") (fastforce simp: snapshot_step_Some split: if_splits)+
qed simp

text \<open>The revival candidate is the freshest death: the search returns a dead agent that declares the
  capability and died no earlier than any other such, whatever the map's order, and none only if
  no snapshot declares it.\<close>

theorem freshest_revival:
  assumes "range_order (af_snapshots f) ord"
  shows "case find_revivable_snapshot ord cap f of
      None \<Rightarrow> \<forall>aid sn. last_snapshot aid f = Some sn \<longrightarrow> cap \<notin> set (sn_capabilities sn)
    | Some (b, bsn) \<Rightarrow> last_snapshot b f = Some bsn \<and> cap \<in> set (sn_capabilities bsn)
        \<and> (\<forall>aid sn. last_snapshot aid f = Some sn \<and> cap \<in> set (sn_capabilities sn) \<longrightarrow>
             sn_died_at sn \<le> sn_died_at bsn)"
proof -
  have ord: "range_keys (af_snapshots f) ord = ord" "\<And>k. k \<in> set ord \<longleftrightarrow> af_snapshots f k \<noteq> None" "distinct ord"
    using assms range_order_keys by (auto simp: range_order_def)
  then have "\<And>k sn. af_snapshots f k = Some sn \<Longrightarrow> k \<in> set ord" by simp
  then show ?thesis
    using snapshot_fold_best [of ord "af_snapshots f" cap] ord
    by (fastforce simp: find_revivable_snapshot_def last_snapshot_def split: option.splits)
qed

lemma freshest_revival_witness:
  "\<exists>b bsn. find_revivable_snapshot [''w''] ''code'' (snd (kill ''w'' sample_agents)) = Some (b, bsn)
     \<and> last_snapshot b (snd (kill ''w'' sample_agents)) = Some bsn"
proof -
  let ?f = "snd (kill ''w'' sample_agents)"
  obtain sn where sn: "af_snapshots ?f = [''w'' \<mapsto> sn]" "sn_capabilities sn = [''code'']"
    by (simp add: sample_agent_defs kill_def capture_from_agent_def)
  have last: "last_snapshot ''w'' ?f = Some sn" by (simp add: last_snapshot_def sn(1))
  have "range_order (af_snapshots ?f) [''w'']" by (simp add: range_order_def sn(1))
  note * = freshest_revival [OF this, of "''code''"]
  show ?thesis
  proof (cases "find_revivable_snapshot [''w''] ''code'' ?f")
    case None
    with * have "last_snapshot ''w'' ?f = Some sn \<longrightarrow> ''code'' \<notin> set (sn_capabilities sn)" by auto
    then show ?thesis using last sn(2) by simp
  qed (use * in auto)
qed

text \<open>Budgets: what an agent has used stays within what it may use.\<close>

definition within_budget :: "governance_state \<Rightarrow> bool" where
  "within_budget g \<longleftrightarrow> 0 \<le> gs_token_used g \<and> 0 \<le> gs_tool_used g
     \<and> (gv_token_budget (gs_cfg g) > 0 \<longrightarrow> gs_token_used g \<le> gv_token_budget (gs_cfg g))
     \<and> (gv_tool_budget (gs_cfg g) > 0 \<longrightarrow> gs_tool_used g \<le> gv_tool_budget (gs_cfg g))"

lemma consume_within:
  "within_budget g \<Longrightarrow> consume_tokens n g = Inr g' \<Longrightarrow> within_budget g'"
  "within_budget g \<Longrightarrow> consume_tools n g = Inr g' \<Longrightarrow> within_budget g'"
  by (auto simp: within_budget_def consume_tokens_def consume_tools_def split: if_splits)

lemma consume_within_both:
  "within_budget g \<Longrightarrow> consume_tokens n g = Inr g1 \<Longrightarrow> consume_tools m g1 = Inr g2 \<Longrightarrow> within_budget g2"
  using consume_within by blast

lemma within_new [simp]: "within_budget (new_governance g now)"
  by (simp add: within_budget_def new_governance_def)

definition budgets_wf :: "'c agent_fabric \<Rightarrow> bool" where
  "budgets_wf f \<longleftrightarrow> (\<forall>aid a. af_agents f aid = Some a \<longrightarrow> within_budget (a_governance a))"

lemma budgets_put:
  "budgets_wf f \<Longrightarrow> within_budget (a_governance a) \<Longrightarrow> budgets_wf (put_agent aid a f)"
  by (simp add: budgets_wf_def)

lemma budgets_cong: "af_agents g = af_agents f \<Longrightarrow> budgets_wf g = budgets_wf f"
  by (simp add: budgets_wf_def)

lemma budgets_exec: "budgets_wf f \<Longrightarrow> budgets_wf (exec_agent x f)"
proof (cases x)
  case (ASpawn spec)
  assume "budgets_wf f"
  then show ?thesis
    using ASpawn by (cases rule: spawn_cases [of spec f]) (auto simp: budgets_wf_def new_agent_def)
next
  case (AConsume aid token tool)
  assume wf: "budgets_wf f"
  have "within_budget (a_governance a)" if "af_agents f aid = Some a" for a
    using that wf by (simp add: budgets_wf_def)
  then show ?thesis
    using AConsume wf
    by (auto simp: consume_resource_def put_governance_def split: option.splits sum.splits
        intro!: budgets_put intro: consume_within consume_within_both)
next
  case (AReset aid)
  assume wf: "budgets_wf f"
  then have "within_budget (a_governance a)" if "af_agents f aid = Some a" for a
    using that by (simp add: budgets_wf_def)
  then show ?thesis
    using AReset wf
    by (auto simp: reset_resource_def put_governance_def budgets_wf_def within_budget_def Let_def split: option.splits)
qed (auto simp: agent_update_defs retire_def kill_def budgets_wf_def with_agent_clock_def
    with_event_sink_def with_resource_budget_def update_resource_budget_def Let_def split: option.splits if_splits)

interpretation agent_budgets: invariant_system exec_agent "\<lambda>_. True" budgets_wf
  by unfold_locales (rule budgets_exec)

text \<open>C9: Cognitive budgets hold and the gate tells the truth. After any calls no agent has used more
  tokens or tool calls than its non-zero budgets, and the pre-quantum check grants an amount exactly
  when consuming it would succeed.\<close>

theorem budgets_respected:
  fixes f :: "'c agent_fabric"
  assumes "f = fold exec_agent ops (new_agent_fabric now)" "af_agents f aid = Some a" "0 \<le> token" "0 \<le> tool"
  shows "within_budget (a_governance a)
    \<and> (check_resource aid token tool f = Inr True \<longleftrightarrow> fst (consume_resource aid token tool f) = Inr ())"
proof -
  have "budgets_wf (new_agent_fabric now :: 'c agent_fabric)"
    by (simp add: budgets_wf_def new_agent_fabric_def)
  from agent_budgets.run_inv [OF this, of ops] have "budgets_wf f" by (simp add: assms(1) list_all_iff)
  then have "within_budget (a_governance a)" using assms(2) by (simp add: budgets_wf_def)
  then show ?thesis
    using assms(2-4)
    by (auto simp: check_resource_def consume_resource_def consume_tokens_def consume_tools_def
        within_budget_def Let_def split: sum.splits if_splits)
qed

lemma budgets_respected_witness:
  "check_resource ''w'' 5 3 (fold exec_agent [ASpawn sample_spec] (new_agent_fabric 0)) = Inr True \<longleftrightarrow>
   fst (consume_resource ''w'' 5 3 (fold exec_agent [ASpawn sample_spec] (new_agent_fabric 0))) = Inr ()"
proof -
  have "af_agents (fold exec_agent [ASpawn sample_spec] (new_agent_fabric 0)) ''w'' \<noteq> None"
    by (simp add: sample_agent_defs)
  then show ?thesis using budgets_respected [OF refl] by (metis not_None_eq zero_le_numeral)
qed

text \<open>A refused consumption is not without effect: when the tokens fit and the tool budget does
  not, the error is returned and the tokens are booked all the same.\<close>

theorem refused_consumption_books_tokens:
  assumes "af_agents f aid = Some a" "0 < token" "consume_tokens token (a_governance a) = Inr g1"
    and "consume_tools tool g1 = Inl e"
  shows "fst (consume_resource aid token tool f) = Inl e
    \<and> budget_usage aid (snd (consume_resource aid token tool f)) =
        Inr (gs_token_used (a_governance a) + token, gs_tool_used (a_governance a))"
  using assms
  by (auto simp: consume_resource_def put_governance_def budget_usage_def consume_tokens_def split: if_splits)

lemma refused_consumption_books_tokens_witness:
  "budget_usage ''w'' (snd (consume_resource ''w'' 5 3 sample_agents)) = Inr (5, 0)"
proof -
  obtain a g where a: "af_agents sample_agents ''w'' = Some a" "a_governance a = g"
    "gs_token_used g = 0" "gs_tool_used g = 0" "gv_token_budget (gs_cfg g) = 5" "gv_tool_budget (gs_cfg g) = 2"
    by (simp add: sample_agent_defs new_agent_def new_governance_def)
  then have "consume_tokens 5 (a_governance a) = Inr (g\<lparr>gs_token_used := 5\<rparr>)"
    "consume_tools 3 (g\<lparr>gs_token_used := 5\<rparr>) = Inl ErrResourceExceeded"
    by (simp_all add: consume_tokens_def consume_tools_def)
  from refused_consumption_books_tokens [OF a(1) _ this] a show ?thesis by simp
qed

section \<open>The listing\<close>

lemma exchange_pass_mset:
  "mset (fst (exchange_pass x ys) # snd (exchange_pass x ys)) = mset (x # ys)"
  by (induction ys arbitrary: x) (auto simp: Let_def split_beta)

lemma exchange_pass_least:
  "fst (exchange_pass x ys) \<le> x \<and> (\<forall>y\<in>set (snd (exchange_pass x ys)). fst (exchange_pass x ys) \<le> y)"
proof (induction ys arbitrary: x)
  case (Cons y ys)
  show ?case
    using Cons [of y] Cons [of x] by (auto simp: Let_def split_beta)
qed simp

lemma exchange_sort_sorts: "sorted (exchange_sort xs) \<and> mset (exchange_sort xs) = mset xs"
proof (induction xs rule: exchange_sort.induct)
  case (2 x xs)
  have ms: "mset (exchange_sort (x # xs)) = mset (x # xs)"
    using 2 exchange_pass_mset [of x xs] by (simp add: Let_def)
  have "set (exchange_sort (snd (exchange_pass x xs))) = set (snd (exchange_pass x xs))"
    using 2 by (metis mset_eq_setD)
  then have "sorted (exchange_sort (x # xs))"
    using 2 exchange_pass_least [of x xs] by (simp add: Let_def)
  with ms show ?case by simp
qed simp

text \<open>The listing of agents is the sorted list of the registered ids: the hand-written exchange
  loop is a sort, and the result does not depend on the map's iteration order.\<close>

theorem agents_listed_sorted:
  assumes "range_order (af_agents f) ord"
  shows "agent_ids ord f = sorted_list_of_set (dom (af_agents f))"
proof -
  have keys: "range_keys (af_agents f) ord = ord" "distinct ord" "set ord = dom (af_agents f)"
    using assms range_order_keys by (auto simp: range_order_def)
  have "sorted (exchange_sort ord)" "mset (exchange_sort ord) = mset ord"
    using exchange_sort_sorts by blast+
  moreover from this have "distinct (exchange_sort ord)" "set (exchange_sort ord) = set ord"
    using keys(2) by (metis mset_eq_imp_distinct_iff, metis mset_eq_setD)
  ultimately show ?thesis
    using keys by (metis agent_ids_def sorted_list_of_set.idem_if_sorted_distinct)
qed

lemma agents_listed_sorted_witness:
  "agent_ids [''w''] sample_agents = sorted_list_of_set (dom (af_agents sample_agents))"
  by (rule agents_listed_sorted) (simp add: range_order_def sample_agent_defs)

section \<open>The context layers\<close>

text \<open>The private layer never leaks. Writing to an agent's scratchpad changes the value read back
  under that key of that agent and nothing else: no task context, no other key, no other agent.\<close>

theorem private_isolated:
  assumes "fst (set_private aid key v f) = Inr ()" "g = snd (set_private aid key v f)"
  shows "private_value aid key g = Inr v
    \<and> (\<forall>b k. (b, k) \<noteq> (aid, key) \<longrightarrow> private_value b k g = private_value b k f)
    \<and> (\<forall>b. task_context b g = task_context b f \<and> get_cognitive_state b g = get_cognitive_state b f)"
  using assms
  by (auto simp: set_private_def private_value_def task_context_def get_cognitive_state_def put_agent_def
      split: option.splits if_splits)

lemma private_isolated_witness:
  "private_value ''w'' ''note'' (snd (set_private ''w'' ''note'' (GInt 4) sample_agents)) = Inr (GInt 4)"
proof -
  have "fst (set_private ''w'' ''note'' (GInt 4) sample_agents) = Inr ()"
    by (simp add: set_private_def sample_agent_defs)
  from private_isolated [OF this refl] show ?thesis ..
qed

end
