(* ===== verification/Kernel_Load.thy ===== *)
theory Kernel_Load
  imports Interfaces
begin

text \<open>
  Package \<open>internal/kernelscheduler\<close>, \<open>load_tracker.go\<close>: the busy slots and the history of every agent,
  and the confidence the scheduler reads. A missing key of a Go map reads as zero. The counters are
  \<open>float64\<close> in the code and rationals here; they only count.
\<close>

section \<open>State and operations\<close>

record load_tracker =
  lt_done :: "string \<rightharpoonup> rat"
  lt_ok :: "string \<rightharpoonup> rat"
  lt_priority :: "string \<rightharpoonup> rat"
  lt_load :: "string \<rightharpoonup> rat"
  lt_agent_conf :: "string \<rightharpoonup> rat"
  lt_cap_conf :: "string \<rightharpoonup> rat"

definition new_load_tracker :: load_tracker where
  "new_load_tracker = \<lparr>lt_done = Map.empty, lt_ok = Map.empty, lt_priority = Map.empty,
     lt_load = Map.empty, lt_agent_conf = Map.empty, lt_cap_conf = Map.empty\<rparr>"

definition map_read :: "(string \<rightharpoonup> rat) \<Rightarrow> string \<Rightarrow> rat" where
  "map_read m k = (case m k of None \<Rightarrow> 0 | Some v \<Rightarrow> v)"

definition set_priority :: "string \<Rightarrow> rat \<Rightarrow> load_tracker \<Rightarrow> load_tracker" where
  "set_priority aid p t = t\<lparr>lt_priority := (lt_priority t)(aid \<mapsto> p)\<rparr>"

definition tracker_priority :: "load_tracker \<Rightarrow> string \<Rightarrow> rat" where
  "tracker_priority t aid = map_read (lt_priority t) aid"

definition begin_slot :: "string \<Rightarrow> load_tracker \<Rightarrow> load_tracker" where
  "begin_slot aid t = t\<lparr>lt_load := (lt_load t)(aid \<mapsto> map_read (lt_load t) aid + 1)\<rparr>"

definition end_neutral :: "string \<Rightarrow> load_tracker \<Rightarrow> load_tracker" where
  "end_neutral aid t =
     (if map_read (lt_load t) aid > 0
      then t\<lparr>lt_load := (lt_load t)(aid \<mapsto> map_read (lt_load t) aid - 1)\<rparr> else t)"

definition end_slot :: "string \<Rightarrow> bool \<Rightarrow> load_tracker \<Rightarrow> load_tracker" where
  "end_slot aid success t =
     (let t1 = (if map_read (lt_load t) aid > 0
                then t\<lparr>lt_load := (lt_load t)(aid \<mapsto> map_read (lt_load t) aid - 1)\<rparr> else t);
          t2 = t1\<lparr>lt_done := (lt_done t1)(aid \<mapsto> map_read (lt_done t1) aid + 1)\<rparr>
      in if success then t2\<lparr>lt_ok := (lt_ok t2)(aid \<mapsto> map_read (lt_ok t2) aid + 1)\<rparr> else t2)"

definition tracker_load :: "load_tracker \<Rightarrow> string \<Rightarrow> rat" where
  "tracker_load t aid = map_read (lt_load t) aid"

definition history_confidence :: "load_tracker \<Rightarrow> string \<Rightarrow> rat" where
  "history_confidence t aid =
     (case lt_done t aid of
        Some n \<Rightarrow> if n > 0 then map_read (lt_ok t) aid / n else 1
      | None \<Rightarrow> 1)"

definition tracker_confidence :: "load_tracker \<Rightarrow> string \<Rightarrow> rat" where
  "tracker_confidence t aid =
     (case lt_agent_conf t aid of Some v \<Rightarrow> v | None \<Rightarrow> history_confidence t aid)"

definition set_agent_confidence :: "string \<Rightarrow> rat \<Rightarrow> load_tracker \<Rightarrow> load_tracker" where
  "set_agent_confidence aid conf t =
     (if conf < 0 then t\<lparr>lt_agent_conf := (lt_agent_conf t)(aid := None)\<rparr>
      else t\<lparr>lt_agent_conf := (lt_agent_conf t)(aid \<mapsto> conf)\<rparr>)"

text \<open>The key of a capability override: agent id, a bar, capability.\<close>

definition cap_key :: "string \<Rightarrow> string \<Rightarrow> string" where
  "cap_key aid cap = aid @ ''|'' @ cap"

definition set_capability_confidence :: "string \<Rightarrow> string \<Rightarrow> rat \<Rightarrow> load_tracker \<Rightarrow> load_tracker" where
  "set_capability_confidence aid cap conf t =
     (if conf < 0 then t\<lparr>lt_cap_conf := (lt_cap_conf t)(cap_key aid cap := None)\<rparr>
      else t\<lparr>lt_cap_conf := (lt_cap_conf t)(cap_key aid cap \<mapsto> conf)\<rparr>)"

definition confidence_for :: "load_tracker \<Rightarrow> string \<Rightarrow> string \<Rightarrow> rat" where
  "confidence_for t aid cap =
     (case lt_cap_conf t (cap_key aid cap) of
        Some v \<Rightarrow> v
      | None \<Rightarrow> (case lt_agent_conf t aid of Some v \<Rightarrow> v | None \<Rightarrow> history_confidence t aid))"

section \<open>The tracker as a transition system\<close>

datatype load_op =
    TBegin string
  | TEnd string bool
  | TEndNeutral string
  | TPriority string rat
  | TAgentConf string rat
  | TCapConf string string rat

fun exec_load :: "load_op \<Rightarrow> load_tracker \<Rightarrow> load_tracker" where
  "exec_load (TBegin aid) t = begin_slot aid t"
| "exec_load (TEnd aid success) t = end_slot aid success t"
| "exec_load (TEndNeutral aid) t = end_neutral aid t"
| "exec_load (TPriority aid p) t = set_priority aid p t"
| "exec_load (TAgentConf aid conf) t = set_agent_confidence aid conf t"
| "exec_load (TCapConf aid cap conf) t = set_capability_confidence aid cap conf t"

lemmas load_defs = begin_slot_def end_slot_def end_neutral_def set_priority_def
  set_agent_confidence_def set_capability_confidence_def Let_def

lemma map_read_upd [simp]: "map_read (m(k \<mapsto> v)) j = (if j = k then v else map_read m j)"
  by (simp add: map_read_def)

text \<open>A successful quantum is a finished one, and no agent has fewer than no busy slots.\<close>

definition tracker_wf :: "load_tracker \<Rightarrow> bool" where
  "tracker_wf t \<longleftrightarrow> (\<forall>aid. 0 \<le> map_read (lt_ok t) aid \<and> map_read (lt_ok t) aid \<le> map_read (lt_done t) aid
     \<and> 0 \<le> map_read (lt_load t) aid \<and> map_read (lt_load t) aid \<in> \<int>)"

lemma Ints_pos_ge_1: "x \<in> \<int> \<Longrightarrow> 0 < x \<Longrightarrow> 1 \<le> (x :: rat)"
  by (auto elim!: Ints_cases)

lemma tracker_wf_exec:
  assumes "tracker_wf t"
  shows "tracker_wf (exec_load x t)"
proof -
  have "1 \<le> map_read (lt_load t) aid" if "0 < map_read (lt_load t) aid" for aid
    using assms that Ints_pos_ge_1 unfolding tracker_wf_def by blast
  then show ?thesis
    using assms by (cases x) (auto simp: load_defs tracker_wf_def add_increasing2)
qed

interpretation tracker_inv: invariant_system exec_load "\<lambda>_. True" tracker_wf
  by unfold_locales (rule tracker_wf_exec)

section \<open>Properties\<close>

text \<open>How many slots a sequence of calls opens and closes for an agent.\<close>

fun opens :: "string \<Rightarrow> load_op \<Rightarrow> bool" where
  "opens aid (TBegin k) = (k = aid)"
| "opens aid _ = False"

fun closes :: "string \<Rightarrow> load_op \<Rightarrow> bool" where
  "closes aid (TEnd k success) = (k = aid)"
| "closes aid (TEndNeutral k) = (k = aid)"
| "closes aid _ = False"

definition count_ops :: "(load_op \<Rightarrow> bool) \<Rightarrow> load_op list \<Rightarrow> int" where
  "count_ops P xs = int (length (filter P xs))"

lemma count_ops_simps [simp]:
  "count_ops P [] = 0" "count_ops P (x # xs) = (if P x then 1 else 0) + count_ops P xs"
  by (simp_all add: count_ops_def)

lemma load_exec:
  "tracker_load (exec_load x t) aid =
     (if opens aid x then tracker_load t aid + 1
      else if closes aid x \<and> tracker_load t aid > 0 then tracker_load t aid - 1 else tracker_load t aid)"
  by (cases x) (auto simp: load_defs tracker_load_def)

text \<open>The agent never closes more slots than it opened, counting from \<open>b\<close> open ones.\<close>

fun slots_balanced :: "string \<Rightarrow> int \<Rightarrow> load_op list \<Rightarrow> bool" where
  "slots_balanced aid b [] = True"
| "slots_balanced aid b (x # xs) =
     (let b' = b + (if opens aid x then 1 else 0) - (if closes aid x then 1 else 0)
      in 0 \<le> b' \<and> slots_balanced aid b' xs)"

lemma load_balanced:
  assumes "slots_balanced aid b xs" "0 \<le> b" "of_int b \<le> tracker_load t aid"
  shows "tracker_load (fold exec_load xs t) aid =
    tracker_load t aid + of_int (count_ops (opens aid) xs - count_ops (closes aid) xs)"
  using assms
proof (induction xs arbitrary: b t)
  case (Cons x xs)
  have "\<not> (opens aid x \<and> closes aid x)" by (cases x) auto
  moreover have "0 < tracker_load t aid" if "0 < b"
    using Cons.prems(3) that by (metis of_int_0_less_iff less_le_trans)
  ultimately show ?case
    using Cons.IH [of "b + (if opens aid x then 1 else 0) - (if closes aid x then 1 else 0)" "exec_load x t"]
      Cons.prems load_exec [of x t aid]
    by (auto simp: Let_def split: if_splits)
qed simp

text \<open>Load is the number of quanta in flight. For an agent that at no point of a sequence of calls
  has closed more slots than it opened, the load at the end is the load at the start plus the opened
  and minus the closed slots; when every quantum has ended the agent is as free as before.\<close>

theorem load_counts_in_flight:
  assumes "slots_balanced aid 0 xs" "0 \<le> tracker_load t aid"
  shows "tracker_load (fold exec_load xs t) aid =
    tracker_load t aid + of_int (count_ops (opens aid) xs - count_ops (closes aid) xs)"
  using load_balanced [OF assms(1)] assms(2) by simp

lemma load_counts_in_flight_witness:
  "tracker_load (fold exec_load [TBegin ''a'', TBegin ''a'', TEnd ''a'' True, TBegin ''b'', TEndNeutral ''a'']
     new_load_tracker) ''a'' = 0"
proof -
  have "slots_balanced ''a'' 0 [TBegin ''a'', TBegin ''a'', TEnd ''a'' True, TBegin ''b'', TEndNeutral ''a'']"
    by (simp add: Let_def)
  from load_counts_in_flight [OF this, of new_load_tracker] show ?thesis
    by (simp add: new_load_tracker_def tracker_load_def map_read_def)
qed

lemma history_frame [simp]:
  "history_confidence (t\<lparr>lt_agent_conf := m\<rparr>) aid = history_confidence t aid"
  "history_confidence (t\<lparr>lt_cap_conf := m\<rparr>) aid = history_confidence t aid"
  "history_confidence (t\<lparr>lt_load := m\<rparr>) aid = history_confidence t aid"
  by (cases "lt_done t aid"; simp add: history_confidence_def)+

lemma history_None: "lt_done t aid = None \<Longrightarrow> history_confidence t aid = 1"
  by (simp add: history_confidence_def)

text \<open>Confidence is a probability with a clear precedence. After any calls, without overrides it is
  the success rate of the finished quanta, between 0 and 1, and 1 for an agent without history; an
  agent override replaces it, a capability override replaces both; ending a quantum neutrally
  changes no confidence.\<close>

theorem confidence_exact:
  assumes "t = fold exec_load xs new_load_tracker"
  shows "0 \<le> history_confidence t aid \<and> history_confidence t aid \<le> 1
    \<and> (lt_done t aid = None \<longrightarrow> history_confidence t aid = 1)
    \<and> (\<forall>v\<ge>0. tracker_confidence (set_agent_confidence aid v t) aid = v
        \<and> confidence_for (set_capability_confidence aid cap v t) aid cap = v
        \<and> (lt_cap_conf t (cap_key aid cap) = None \<longrightarrow>
            confidence_for (set_agent_confidence aid v t) aid cap = v))
    \<and> (\<forall>v<0. tracker_confidence (set_agent_confidence aid v t) aid = history_confidence t aid
        \<and> confidence_for (set_capability_confidence aid cap v t) aid cap = tracker_confidence t aid)
    \<and> confidence_for (end_neutral b t) aid cap = confidence_for t aid cap"
proof -
  have "tracker_wf new_load_tracker"
    by (simp add: tracker_wf_def new_load_tracker_def map_read_def)
  from tracker_inv.run_inv [OF this, of xs] have wf: "tracker_wf t"
    by (simp add: assms list_all_iff)
  have "0 \<le> history_confidence t aid \<and> history_confidence t aid \<le> 1"
  proof (cases "lt_done t aid")
    case (Some n)
    then have "map_read (lt_done t) aid = n" by (simp add: map_read_def)
    then have "0 \<le> map_read (lt_ok t) aid" "map_read (lt_ok t) aid \<le> n"
      using wf unfolding tracker_wf_def by blast+
    then show ?thesis using Some by (simp add: history_confidence_def divide_le_eq_1)
  qed (simp add: history_confidence_def)
  then show ?thesis
    by (auto simp: history_None tracker_confidence_def confidence_for_def load_defs split: option.splits)
qed

lemma confidence_exact_witness:
  "tracker_confidence (set_agent_confidence ''a'' (1/2) (fold exec_load [TEnd ''a'' True] new_load_tracker)) ''a'' = 1/2"
  using confidence_exact [OF refl, of "[TEnd ''a'' True]" "''a''"] by simp

text \<open>The override key joins agent and capability with a bar, so two different pairs can share it.\<close>

lemma cap_key_collision: "cap_key ''a'' ''b|c'' = cap_key ''a|b'' ''c''"
  by (simp add: cap_key_def)

end
