(* ===== verification/Kernel_Scheduler.thy ===== *)
theory Kernel_Scheduler
  imports Kernel_Load Task_Quantum Checkpoint_Schema Agent_Context
begin

text \<open>
  Package \<open>internal/kernelscheduler\<close>: the executor registry with its task bindings
  (\<open>executor_registry.go\<close>), the candidates from the agent fabric (\<open>fabric_executor.go\<close>) and the
  scheduling of one task, preemption and reconciliation (\<open>scheduler.go\<close>).

  Parameters of the model: \<open>etype\<close>, the declared type of an executor; \<open>exec_step\<close>, the executor's
  \<open>ExecuteStep\<close> (an interface), which other operations on the task fabric may interleave with;
  \<open>reify\<close>, the conversion of a decoded profile to a \<open>models.UserProfile\<close>. The agent fabric that
  supplies candidates and the one that supplies budgets are one and the same, as they are wired.
  Logging, tickers, panics of executors and the heartbeat's timer are not modelled; the heartbeat's
  renewals are among the operations a step may interleave with.
\<close>

section \<open>State\<close>

record ('x, 'c) kernel =
  k_fabric :: fabric
  k_execs :: "string \<rightharpoonup> 'x"
  k_bound :: "string \<rightharpoonup> string"
  k_tracker :: load_tracker
  k_ttl :: duration
  k_agents :: "'c agent_fabric"
  k_peer :: bool
  k_governed :: bool
  k_attribution :: "(string \<times> string \<times> bool) list option"
  k_scheduled :: nat

definition new_kernel :: "fabric \<Rightarrow> (string \<rightharpoonup> 'x) \<Rightarrow> 'c agent_fabric \<Rightarrow> ('x, 'c) kernel" where
  "new_kernel f execs agents = \<lparr>k_fabric = f, k_execs = execs, k_bound = Map.empty,
     k_tracker = new_load_tracker, k_ttl = 300 * 10 ^ 9, k_agents = agents, k_peer = False,
     k_governed = False, k_attribution = None, k_scheduled = 0\<rparr>"

definition with_agent_fabric :: "('x, 'c) kernel \<Rightarrow> ('x, 'c) kernel" where
  "with_agent_fabric k = k\<lparr>k_peer := True\<rparr>"

definition with_governance :: "('x, 'c) kernel \<Rightarrow> ('x, 'c) kernel" where
  "with_governance k = k\<lparr>k_governed := True\<rparr>"

definition with_ttl :: "duration \<Rightarrow> ('x, 'c) kernel \<Rightarrow> ('x, 'c) kernel" where
  "with_ttl ttl k = (if ttl > 0 then k\<lparr>k_ttl := ttl\<rparr> else k)"

section \<open>The executor registry\<close>

text \<open>A nil executor is \<open>None\<close>.\<close>

definition register_executor :: "string \<Rightarrow> 'x option \<Rightarrow> ('x, 'c) kernel \<Rightarrow> ('x, 'c) kernel" where
  "register_executor aid ex k =
     (if aid = '''' \<or> ex = None then k else k\<lparr>k_execs := (k_execs k)(aid := ex)\<rparr>)"

definition register_executor_for_task ::
  "string \<Rightarrow> string \<Rightarrow> 'x option \<Rightarrow> ('x, 'c) kernel \<Rightarrow> ('x, 'c) kernel" where
  "register_executor_for_task tid aid ex k =
     (if tid = '''' \<or> aid = '''' \<or> ex = None then k
      else k\<lparr>k_execs := (k_execs k)(aid := ex), k_bound := (k_bound k)(tid \<mapsto> aid)\<rparr>)"

definition bound_for :: "string \<Rightarrow> ('x, 'c) kernel \<Rightarrow> string option" where
  "bound_for tid k = k_bound k tid"

definition unbind_for :: "string \<Rightarrow> ('x, 'c) kernel \<Rightarrow> string \<times> ('x, 'c) kernel" where
  "unbind_for tid k =
     (case k_bound k tid of None \<Rightarrow> '''' | Some aid \<Rightarrow> aid, k\<lparr>k_bound := (k_bound k)(tid := None)\<rparr>)"

definition unregister_executor :: "string \<Rightarrow> ('x, 'c) kernel \<Rightarrow> ('x, 'c) kernel" where
  "unregister_executor aid k =
     (if aid = '''' then k
      else k\<lparr>k_execs := (k_execs k)(aid := None),
             k_bound := (\<lambda>tid. if k_bound k tid = Some aid then None else k_bound k tid)\<rparr>)"

text \<open>\<open>isBoundToAnyTask\<close> ranges over the bindings; \<open>tids\<close> are the tasks that have one.\<close>

definition is_bound_to_any :: "string list \<Rightarrow> string \<Rightarrow> ('x, 'c) kernel \<Rightarrow> bool" where
  "is_bound_to_any tids aid k \<longleftrightarrow> list_ex (\<lambda>tid. k_bound k tid = Some aid) tids"

definition lookup_executor :: "string \<Rightarrow> ('x, 'c) kernel \<Rightarrow> 'x option" where
  "lookup_executor aid k = k_execs k aid"

definition executor_count :: "string list \<Rightarrow> ('x, 'c) kernel \<Rightarrow> nat" where
  "executor_count eord k = length (range_keys (k_execs k) eord)"

definition capabilities :: "('x \<Rightarrow> string) \<Rightarrow> string list \<Rightarrow> ('x, 'c) kernel \<Rightarrow> string list" where
  "capabilities etype eord k =
     fold (\<lambda>aid out. case k_execs k aid of
         None \<Rightarrow> out
       | Some ex \<Rightarrow> if etype ex \<in> set out then out else out @ [etype ex]) (range_keys (k_execs k) eord) []"

section \<open>Candidates\<close>

text \<open>The iteration orders of the maps a scheduling decision ranges over.\<close>

record orders =
  o_execs :: "string list"
  o_bound :: "string list"
  o_agents :: "string list"

definition tracked_candidate :: "('x, 'c) kernel \<Rightarrow> string \<Rightarrow> string list \<Rightarrow> candidate" where
  "tracked_candidate k aid caps = \<lparr>c_agent = aid, c_caps = caps, c_load = tracker_load (k_tracker k) aid,
     c_conf = tracker_confidence (k_tracker k) aid, c_prio = tracker_priority (k_tracker k) aid\<rparr>"

definition static_candidates :: "('x \<Rightarrow> string) \<Rightarrow> orders \<Rightarrow> ('x, 'c) kernel \<Rightarrow> candidate list" where
  "static_candidates etype ord k =
     List.map_filter (\<lambda>aid. case k_execs k aid of
         None \<Rightarrow> None
       | Some ex \<Rightarrow>
           if is_bound_to_any (o_bound ord) aid k then None
           else if k_peer k \<and> \<not> is_bound_to_any (o_bound ord) aid k then None
           else Some (tracked_candidate k aid [etype ex]))
       (range_keys (k_execs k) (o_execs ord))"

definition fabric_candidates :: "orders \<Rightarrow> ('x, 'c) kernel \<Rightarrow> candidate list" where
  "fabric_candidates ord k =
     (if \<not> k_peer k then []
      else List.map_filter (\<lambda>aid.
          if is_bound_to_any (o_bound ord) aid k then None
          else (case get_agent aid (k_agents k) of
                  Inl e \<Rightarrow> None
                | Inr a \<Rightarrow>
                    if \<not> is_idle aid (k_agents k) then None
                    else if \<not> executable a then None
                    else Some (tracked_candidate k aid (a_capabilities a))))
        (agent_ids (o_agents ord) (k_agents k)))"

datatype 'x exec_ref = StaticExec 'x | FabricExec string

definition fabric_executor :: "string \<Rightarrow> ('x, 'c) kernel \<Rightarrow> 'x exec_ref option" where
  "fabric_executor aid k =
     (if \<not> k_peer k then None
      else if \<not> is_idle aid (k_agents k) then None
      else (case get_agent aid (k_agents k) of
              Inl e \<Rightarrow> None
            | Inr a \<Rightarrow> if executable a then Some (FabricExec aid) else None))"

text \<open>
  \<open>HasCapableExecutor\<close>. The candidate it builds for a fabric agent sets no confidence, so its
  \<open>Confidence\<close> field is Go's zero value.
\<close>

definition has_capable_executor ::
  "('x \<Rightarrow> string) \<Rightarrow> orders \<Rightarrow> string \<Rightarrow> ('x, 'c) kernel \<Rightarrow> bool" where
  "has_capable_executor etype ord tid k =
     (case get_task tid (k_fabric k) of
        Inl e \<Rightarrow> False
      | Inr tk \<Rightarrow>
          if bound_for tid k \<noteq> None then True
          else list_ex (\<lambda>aid. case k_execs k aid of
                   None \<Rightarrow> False
                 | Some ex \<Rightarrow>
                     if is_bound_to_any (o_bound ord) aid k then False
                     else if k_peer k \<and> \<not> is_bound_to_any (o_bound ord) aid k then False
                     else score (t_capability tk) \<lparr>c_agent = '''', c_caps = [etype ex],
                            c_load = tracker_load (k_tracker k) aid,
                            c_conf = confidence_for (k_tracker k) aid (t_capability tk), c_prio = 0\<rparr> > 0)
                 (range_keys (k_execs k) (o_execs ord))
               \<or> k_peer k \<and> list_ex (\<lambda>aid.
                   if k_execs k aid \<noteq> None then False
                   else if \<not> is_idle aid (k_agents k) then False
                   else (case get_agent aid (k_agents k) of
                           Inl e \<Rightarrow> False
                         | Inr a \<Rightarrow>
                             if \<not> executable a then False
                             else score (t_capability tk) \<lparr>c_agent = '''', c_caps = a_capabilities a,
                                    c_load = 0, c_conf = 0, c_prio = 0\<rparr> > 0))
                 (agent_ids (o_agents ord) (k_agents k)))"

section \<open>Budgets at the quantum boundary\<close>

definition budget_ok :: "string \<Rightarrow> ('x, 'c) kernel \<Rightarrow> bool" where
  "budget_ok winner k =
     (if \<not> k_governed k then True
      else if deadline_exceeded winner (k_agents k) = Inr True then False
      else (case check_resource winner 0 1 (k_agents k) of Inl e \<Rightarrow> True | Inr ok \<Rightarrow> ok))"

definition consume_budget :: "string \<Rightarrow> ('x, 'c) kernel \<Rightarrow> ('x, 'c) kernel" where
  "consume_budget winner k =
     (if \<not> k_governed k then k else k\<lparr>k_agents := snd (consume_resource winner 0 1 (k_agents k))\<rparr>)"

section \<open>The quantum an executor runs\<close>

record model_task =
  mt_id :: string
  mt_type :: string
  mt_profile :: goval
  mt_payload :: "(string \<times> goval) list option"
  mt_experience :: string

record task_result =
  tr_error :: string
  tr_items :: "goval list"
  tr_reason :: string
  tr_metadata :: "(string \<times> goval) list"

record step_outcome =
  so_done :: bool
  so_checkpoint :: goval
  so_result :: "task_result option"

text \<open>The errors of a quantum step: the executor's own, a nil outcome, a result that carries one.\<close>

datatype 'e step_error = ExecutorErr 'e | NilOutcome | ResultErr string

text \<open>Writing a key of a Go map held as an association list.\<close>

definition map_put :: "string \<Rightarrow> goval \<Rightarrow> (string \<times> goval) list \<Rightarrow> (string \<times> goval) list" where
  "map_put key v m = (key, v) # filter (\<lambda>(k', _). k' \<noteq> key) m"

definition base_task :: "task \<Rightarrow> model_task" where
  "base_task tk = \<lparr>mt_id = t_id tk, mt_type = t_capability tk, mt_profile = GNil, mt_payload = Some [],
     mt_experience = ''''\<rparr>"

definition to_model_task :: "(goval \<Rightarrow> goval) \<Rightarrow> task \<Rightarrow> model_task" where
  "to_model_task reify tk =
     (if t_checkpoint tk = GNil then base_task tk
      else (case decode_checkpoint (t_checkpoint tk) of
              Inl e \<Rightarrow> (base_task tk)\<lparr>mt_payload := Some [(''checkpoint'', t_checkpoint tk)]\<rparr>
            | Inr dc \<Rightarrow> (base_task tk)\<lparr>
                mt_profile := reify (dc_profile dc),
                mt_experience := dc_experience dc,
                mt_payload := (if dc_step dc = GNil then dc_payload dc
                   else Some (map_put ''checkpoint'' (dc_step dc)
                          (case dc_payload dc of None \<Rightarrow> [] | Some p \<Rightarrow> p)))\<rparr>))"

text \<open>
  The payload of the decoded metadata and of the model task are one map: writing the key
  \<open>checkpoint\<close> into the task's payload writes it into the metadata the quantum re-wraps, when there
  is a payload to share.
\<close>

definition shared_payload :: "decoded_checkpoint \<Rightarrow> (string \<times> goval) list option" where
  "shared_payload meta =
     (case dc_payload meta of
        None \<Rightarrow> None
      | Some p \<Rightarrow> if dc_step meta = GNil then Some p else Some (map_put ''checkpoint'' (dc_step meta) p))"

definition rewrap :: "decoded_checkpoint \<Rightarrow> goval \<Rightarrow> goval" where
  "rewrap meta sc = encode_checkpoint (zero_decoded\<lparr>dc_profile := dc_profile meta,
     dc_payload := shared_payload meta, dc_experience := dc_experience meta, dc_step := sc\<rparr>)"

definition result_map :: "task_result option \<Rightarrow> goval" where
  "result_map res = GMap ([(''result'', GStr ''ok'')] @
     (case res of
        None \<Rightarrow> []
      | Some r \<Rightarrow> (if tr_items r \<noteq> [] then [(''items'', GList (tr_items r))] else [])
          @ (if tr_reason r \<noteq> '''' then [(''reason'', GStr (tr_reason r))] else [])
          @ (if tr_metadata r \<noteq> [] then [(''metadata'', GMap (tr_metadata r))] else [])))"

text \<open>What the closure makes of the executor's answer.\<close>

definition step_verdict ::
  "decoded_checkpoint \<Rightarrow> 'e + step_outcome option \<Rightarrow> 'e step_error + goval \<times> bool" where
  "step_verdict meta ans =
     (case ans of
        Inl e \<Rightarrow> Inl (ExecutorErr e)
      | Inr None \<Rightarrow> Inl NilOutcome
      | Inr (Some out) \<Rightarrow>
          (case so_result out of
             Some r \<Rightarrow>
               if tr_error r \<noteq> '''' then Inl (ResultErr (tr_error r))
               else if \<not> so_done out then Inr (rewrap meta (so_checkpoint out), False)
               else Inr (rewrap meta (result_map (Some r)), True)
           | None \<Rightarrow>
               if \<not> so_done out then Inr (rewrap meta (so_checkpoint out), False)
               else Inr (rewrap meta (result_map None), True)))"

type_synonym ('x, 'e) executor_step =
  "'x exec_ref \<Rightarrow> model_task \<Rightarrow> fabric \<Rightarrow> ('e + step_outcome option) \<times> fabric"

definition build_quantum_step ::
  "(goval \<Rightarrow> goval) \<Rightarrow> ('x, 'e) executor_step \<Rightarrow> 'x exec_ref \<Rightarrow> task \<Rightarrow> decoded_checkpoint
    \<Rightarrow> 'e step_error quantum_step" where
  "build_quantum_step reify exec_step ex tk meta f =
     (let r = exec_step ex (to_model_task reify tk) f in (step_verdict meta (fst r), snd r))"

section \<open>Attribution and cleanup\<close>

text \<open>\<open>errors.Is\<close> finds a fencing rejection, also in a joined error.\<close>

fun benign_fencing :: "'e quantum_error \<Rightarrow> bool" where
  "benign_fencing (FabricErr e) = (e = ErrNotOwner \<or> e = ErrEpochMismatch)"
| "benign_fencing (StepErr _) = False"
| "benign_fencing (StepAndFail _ e) = (e = ErrNotOwner \<or> e = ErrEpochMismatch)"

definition end_quantum_outcome ::
  "string \<Rightarrow> string \<Rightarrow> 'e quantum_error option \<Rightarrow> ('x, 'c) kernel \<Rightarrow> ('x, 'c) kernel" where
  "end_quantum_outcome winner cap err k =
     (case err of
        Some e \<Rightarrow>
          if benign_fencing e then k\<lparr>k_tracker := end_neutral winner (k_tracker k)\<rparr>
          else k\<lparr>k_tracker := end_slot winner False (k_tracker k),
                 k_attribution := map_option (\<lambda>rs. rs @ [(winner, cap, False)]) (k_attribution k)\<rparr>
      | None \<Rightarrow> k\<lparr>k_tracker := end_slot winner True (k_tracker k),
                   k_attribution := map_option (\<lambda>rs. rs @ [(winner, cap, True)]) (k_attribution k)\<rparr>)"

definition unbind_after_terminal :: "string \<Rightarrow> ('x, 'c) kernel \<Rightarrow> ('x, 'c) kernel" where
  "unbind_after_terminal tid k =
     (case get_task tid (k_fabric k) of
        Inl e \<Rightarrow> k
      | Inr tk \<Rightarrow>
          if t_state tk \<noteq> StateCompleted \<and> t_state tk \<noteq> StateFailed then k
          else (case unbind_for tid k of
                  (aid, k1) \<Rightarrow> if aid \<noteq> '''' then unregister_executor aid k1 else k1))"

definition reconcile_fabric_deaths :: "orders \<Rightarrow> ('x, 'c) kernel \<Rightarrow> ('x, 'c) kernel" where
  "reconcile_fabric_deaths ord k =
     (if \<not> k_peer k then k
      else fold (\<lambda>aid k. if is_bound_to_any (o_bound ord) aid k then k
               else (case get_agent aid (k_agents k) of
                       Inl e \<Rightarrow> unregister_executor aid k | Inr a \<Rightarrow> k))
             (range_keys (k_execs k) (o_execs ord)) k)"

section \<open>Scheduling one task\<close>

datatype 'e schedule_error = SchedErr fabric_error | QuantumErr "'e step_error quantum_error"

definition release_task :: "string \<Rightarrow> string \<Rightarrow> u64 \<Rightarrow> ('x, 'c) kernel \<Rightarrow> ('x, 'c) kernel" where
  "release_task tid winner ep k = k\<lparr>k_fabric := snd (release tid winner ep (k_fabric k))\<rparr>"

text \<open>The winner resolved through the fabric first, then through the registry.\<close>

definition resolve_executor :: "string \<Rightarrow> ('x, 'c) kernel \<Rightarrow> 'x exec_ref option" where
  "resolve_executor winner k =
     (case fabric_executor winner k of
        Some ex \<Rightarrow> Some ex
      | None \<Rightarrow> map_option StaticExec (lookup_executor winner k))"

definition run_winner ::
  "(goval \<Rightarrow> goval) \<Rightarrow> ('x, 'e) executor_step \<Rightarrow> string \<Rightarrow> string \<Rightarrow> u64 \<Rightarrow> 'x exec_ref \<Rightarrow> task
    \<Rightarrow> ('x, 'c) kernel \<Rightarrow> 'e schedule_error option \<times> ('x, 'c) kernel" where
  "run_winner reify exec_step tid winner ep ex tk k =
     (let meta = (case decode_checkpoint (t_checkpoint tk) of Inl e \<Rightarrow> zero_decoded | Inr dc \<Rightarrow> dc);
          k1 = k\<lparr>k_tracker := begin_slot winner (k_tracker k)\<rparr>;
          r = run_quantum tid winner ep (build_quantum_step reify exec_step ex tk meta) (k_fabric k1);
          k2 = k1\<lparr>k_fabric := snd r\<rparr>;
          k3 = consume_budget winner (end_quantum_outcome winner (t_capability tk) (fst r) k2);
          k4 = (if fst r = None then k3\<lparr>k_scheduled := k_scheduled k3 + 1\<rparr> else k3)
      in (map_option QuantumErr (fst r), unbind_after_terminal tid k4))"

definition execute_with_candidates ::
  "('x \<Rightarrow> string) \<Rightarrow> (goval \<Rightarrow> goval) \<Rightarrow> ('x, 'e) executor_step \<Rightarrow> orders \<Rightarrow> string \<Rightarrow> candidate list
    \<Rightarrow> ('x, 'c) kernel \<Rightarrow> 'e schedule_error option \<times> ('x, 'c) kernel" where
  "execute_with_candidates etype reify exec_step ord tid cands k =
     (case get_task tid (k_fabric k) of
        Inl e \<Rightarrow> (Some (SchedErr e), k)
      | Inr tk \<Rightarrow>
          if cands = [] then (Some (SchedErr ErrNoCapableCandidate), k)
          else
            (case schedule tid
                    (map (\<lambda>c. c\<lparr>c_conf := confidence_for (k_tracker k) (c_agent c) (t_capability tk)\<rparr>) cands)
                    (k_ttl k) (k_fabric k) of
               (Inl e, f1) \<Rightarrow> (Some (SchedErr e), k\<lparr>k_fabric := f1\<rparr>)
             | (Inr (winner, ep), f1) \<Rightarrow>
                 (let k1 = k\<lparr>k_fabric := f1\<rparr> in
                  case resolve_executor winner k1 of
                    None \<Rightarrow>
                      if has_capable_executor etype ord tid k1 then (None, release_task tid winner ep k1)
                      else (None, k1)
                  | Some ex \<Rightarrow>
                      if \<not> budget_ok winner k1 then (None, release_task tid winner ep k1)
                      else run_winner reify exec_step tid winner ep ex tk k1)))"

definition execute_unbound ::
  "('x \<Rightarrow> string) \<Rightarrow> (goval \<Rightarrow> goval) \<Rightarrow> ('x, 'e) executor_step \<Rightarrow> orders \<Rightarrow> string
    \<Rightarrow> ('x, 'c) kernel \<Rightarrow> 'e schedule_error option \<times> ('x, 'c) kernel" where
  "execute_unbound etype reify exec_step ord tid k =
     execute_with_candidates etype reify exec_step ord tid
       (static_candidates etype ord k @ fabric_candidates ord k) k"

definition execute ::
  "('x \<Rightarrow> string) \<Rightarrow> (goval \<Rightarrow> goval) \<Rightarrow> ('x, 'e) executor_step \<Rightarrow> orders \<Rightarrow> string
    \<Rightarrow> ('x, 'c) kernel \<Rightarrow> 'e schedule_error option \<times> ('x, 'c) kernel" where
  "execute etype reify exec_step ord tid k =
     (case bound_for tid k of
        Some aid \<Rightarrow>
          (case k_execs k aid of
             Some ex \<Rightarrow> execute_with_candidates etype reify exec_step ord tid
                          [tracked_candidate k aid [etype ex]] k
           | None \<Rightarrow> execute_unbound etype reify exec_step ord tid k)
      | None \<Rightarrow> execute_unbound etype reify exec_step ord tid k)"

section \<open>Preemption and one drain\<close>

definition max_ready_priority :: "string list \<Rightarrow> fabric \<Rightarrow> int" where
  "max_ready_priority ready f =
     fold (\<lambda>tid mx. case get_task tid f of
         Inl e \<Rightarrow> mx | Inr tk \<Rightarrow> if t_priority tk > mx then t_priority tk else mx) ready 0"

definition preempt_lower_priority ::
  "string list \<Rightarrow> orders \<Rightarrow> string list \<Rightarrow> ('x, 'c) kernel \<Rightarrow> ('x, 'c) kernel" where
  "preempt_lower_priority ord eo ready k =
     (if executor_count (o_execs eo) k = 0 \<or> ready = [] then k
      else (let mx = max_ready_priority ready (k_fabric k) in
        if mx \<le> 0 then k
        else k\<lparr>k_fabric := fold (\<lambda>rt f. if r_priority rt \<ge> mx then f
                  else snd (preempt (r_id rt) (r_owner rt) (r_epoch rt) f))
               (running_tasks ord (k_fabric k)) (k_fabric k)\<rparr>))"

text \<open>
  One drain, its tasks executed one after the other (the concurrency limit only bounds how many
  run at once; the operations of overlapping quanta are what a step may interleave with). \<open>ord\<close> is
  the order of the task map, \<open>oo\<close> gives the orders of the other maps for each task.
\<close>

definition drain ::
  "('x \<Rightarrow> string) \<Rightarrow> (goval \<Rightarrow> goval) \<Rightarrow> ('x, 'e) executor_step \<Rightarrow> string list \<Rightarrow> (string \<Rightarrow> orders)
    \<Rightarrow> orders \<Rightarrow> ('x, 'c) kernel \<Rightarrow> ('x, 'c) kernel" where
  "drain etype reify exec_step ord oo eo k =
     (let k1 = reconcile_fabric_deaths eo k;
          ready = resumable_tasks ord (k_fabric k1)
      in if ready = [] then k1
         else fold (\<lambda>tid k. snd (execute etype reify exec_step (oo tid) tid k)) ready
                (preempt_lower_priority ord eo ready k1))"

end
