(* ===== verification/Kernel_Props.thy ===== *)
theory Kernel_Props
  imports Kernel_Scheduler Task_Fabric_Props Agent_Fabric_Props
begin

text \<open>
  The properties of the kernel scheduler: the registry contract, reservation of recovery executors,
  the single candidate source, the release of work its winner cannot afford, balanced busy slots,
  neutral endings of fenced quanta, metadata that survives yields, cleanup at a terminal state, and
  cooperative preemption.
\<close>

section \<open>The registry contract\<close>

interpretation executors: registry
  "\<lambda>k aid. lookup_executor aid k" "\<lambda>aid ex k. register_executor aid (Some ex) k" unregister_executor
  "\<lambda>aid. aid \<noteq> ''''"
  by unfold_locales
    (auto simp: lookup_executor_def register_executor_def unregister_executor_def)

lemma is_bound_iff:
  "dom (k_bound k) \<subseteq> set tids \<Longrightarrow> is_bound_to_any tids aid k \<longleftrightarrow> (\<exists>tid. k_bound k tid = Some aid)"
  by (auto simp: is_bound_to_any_def list_ex_iff)

text \<open>Unregistering an executor is complete: it cannot be looked up any more and no task stays
  bound to it, while every other registration and binding is as before.\<close>

theorem unregister_complete:
  assumes "aid \<noteq> ''''" "k' = unregister_executor aid k"
  shows "lookup_executor aid k' = None \<and> (\<forall>tid. bound_for tid k' \<noteq> Some aid)
    \<and> (\<forall>b. b \<noteq> aid \<longrightarrow> lookup_executor b k' = lookup_executor b k)
    \<and> (\<forall>tid. bound_for tid k \<noteq> Some aid \<longrightarrow> bound_for tid k' = bound_for tid k)"
  using assms by (auto simp: bound_for_def unregister_executor_def lookup_executor_def)

text \<open>A recovery executor is reserved for its task. Whatever the maps' orders, the pool offered to a
  task without a binding holds no executor bound to any task; with the agent fabric wired every
  candidate in it is a registered, IDLE, executable agent under its full capability set, otherwise
  a registered executor under its type.\<close>

theorem pool_excludes_reserved:
  assumes "dom (k_bound k) \<subseteq> set (o_bound ord)"
    and "c \<in> set (static_candidates etype ord k @ fabric_candidates ord k)"
  shows "(\<forall>tid. bound_for tid k \<noteq> Some (c_agent c))
    \<and> (if k_peer k
       then \<exists>a. af_agents (k_agents k) (c_agent c) = Some a \<and> a_state a = AgentIdle \<and> executable a
              \<and> c_caps c = a_capabilities a
       else \<exists>ex. lookup_executor (c_agent c) k = Some ex \<and> c_caps c = [etype ex])"
  using assms(2) is_bound_iff [OF assms(1)]
  by (auto simp: static_candidates_def fabric_candidates_def List.map_filter_def bound_for_def
      tracked_candidate_def get_agent_def is_idle_def lookup_executor_def
      split: option.splits sum.splits if_splits)

text \<open>The test whether a live fabric agent could take a stranded task never says yes: with the agent
  fabric wired and no binding, \<open>HasCapableExecutor\<close> is false whatever agents there are, since the
  candidate it scores has no confidence.\<close>

theorem fabric_agents_never_capable:
  assumes "k_peer k" "bound_for tid k = None"
  shows "\<not> has_capable_executor etype ord tid k"
proof -
  have "score cap \<lparr>c_agent = '''', c_caps = caps, c_load = 0, c_conf = 0, c_prio = 0\<rparr> = 0" for cap caps
    by (simp add: score_eq clamp01_def)
  then show ?thesis
    using assms by (auto simp: has_capable_executor_def list_ex_iff split: sum.splits option.splits if_splits)
qed

section \<open>Busy slots and outcomes\<close>

lemma tracker_load_simps [simp]:
  "tracker_load (begin_slot a t) b = (if b = a then tracker_load t a + 1 else tracker_load t b)"
  "tracker_load (end_slot a s t) b = (if b = a \<and> tracker_load t a > 0 then tracker_load t a - 1 else tracker_load t b)"
  "tracker_load (end_neutral a t) b = (if b = a \<and> tracker_load t a > 0 then tracker_load t a - 1 else tracker_load t b)"
  by (auto simp: load_defs tracker_load_def)

lemma unbind_tracker [simp]:
  "k_tracker (unbind_after_terminal tid k) = k_tracker k" "k_fabric (unbind_after_terminal tid k) = k_fabric k"
  "k_attribution (unbind_after_terminal tid k) = k_attribution k"
  by (auto simp: unbind_after_terminal_def unbind_for_def unregister_executor_def split: sum.splits)

lemma consume_budget_frame [simp]:
  "k_tracker (consume_budget w k) = k_tracker k" "k_fabric (consume_budget w k) = k_fabric k"
  "k_attribution (consume_budget w k) = k_attribution k" "k_bound (consume_budget w k) = k_bound k"
  "k_execs (consume_budget w k) = k_execs k"
  by (simp_all add: consume_budget_def)

lemma run_winner_load:
  assumes "0 \<le> tracker_load (k_tracker k) w"
  shows "tracker_load (k_tracker (snd (run_winner reify exec_step tid w ep ex tk k))) a = tracker_load (k_tracker k) a"
  using assms by (auto simp: run_winner_def Let_def end_quantum_outcome_def split: option.splits)

lemma execute_with_load:
  assumes "\<And>w. 0 \<le> tracker_load (k_tracker k) w"
  shows "tracker_load (k_tracker (snd (execute_with_candidates etype reify exec_step ord tid cands k))) a
    = tracker_load (k_tracker k) a"
  using assms
  by (auto simp: execute_with_candidates_def release_task_def run_winner_load Let_def
      split: sum.splits option.splits prod.splits)

text \<open>C11: Executing a task never leaks a busy slot: whatever the executor answers, whoever wins, on
  every path, each agent's load afterwards is its load before.\<close>

theorem execute_balances_load:
  assumes "tracker_wf (k_tracker k)"
  shows "tracker_load (k_tracker (snd (execute etype reify exec_step ord tid k))) a = tracker_load (k_tracker k) a"
proof -
  have "0 \<le> tracker_load (k_tracker k) w" for w
    using assms by (simp add: tracker_wf_def tracker_load_def)
  then show ?thesis
    by (auto simp: execute_def execute_unbound_def execute_with_load split: option.splits)
qed

text \<open>A quantum that ends because its lease was taken away is nobody's failure: no agent's
  confidence changes and nothing is attributed, whether the rejection comes alone or joined to the
  step's own error; any other ending is attributed to the winner once.\<close>

theorem fenced_quantum_neutral:
  "(case err of
      Some e \<Rightarrow>
        if benign_fencing e
        then (\<forall>a cap'. confidence_for (k_tracker (end_quantum_outcome w cap err k)) a cap' = confidence_for (k_tracker k) a cap')
          \<and> k_attribution (end_quantum_outcome w cap err k) = k_attribution k
        else k_attribution (end_quantum_outcome w cap err k) =
          map_option (\<lambda>rs. rs @ [(w, cap, False)]) (k_attribution k)
    | None \<Rightarrow> k_attribution (end_quantum_outcome w cap err k) =
        map_option (\<lambda>rs. rs @ [(w, cap, True)]) (k_attribution k))"
  by (auto simp: end_quantum_outcome_def confidence_for_def end_neutral_def split: option.splits)

section \<open>Metadata across quanta\<close>

lemma decode_rewrap:
  "decode_checkpoint (rewrap meta sc) = Inr \<lparr>dc_profile = dc_profile meta, dc_payload = shared_payload meta,
     dc_experience = dc_experience meta, dc_step = sc, dc_version = current_checkpoint_schema_version\<rparr>"
  by (simp add: rewrap_def encode_checkpoint_def zero_decoded_def)

text \<open>Submission metadata survives a yield. When a winner runs a task whose checkpoint decodes and
  the executor yields, the task is SUSPENDED with a checkpoint that decodes to the same profile,
  the same experience id and the executor's progress, and with every payload entry but the one
  under \<open>checkpoint\<close>, the same for any number of quanta.\<close>

theorem yield_keeps_metadata:
  assumes "owner_locked (k_fabric k) tid w ep = Inr t" "t_state t = StateLeased"
    and "decode_checkpoint (t_checkpoint tk) = Inr meta"
    and "exec_step ex (to_model_task reify tk) (snd (start tid w ep (k_fabric k))) = (Inr (Some out), f2)"
    and "so_result out = None" "\<not> so_done out"
    and "owner_locked f2 tid w ep = Inr t2" "t_state t2 = StateRunning"
  shows "\<exists>t' dc. f_tasks (k_fabric (snd (run_winner reify exec_step tid w ep ex tk k))) tid = Some t'
    \<and> t_state t' = StateSuspended \<and> decode_checkpoint (t_checkpoint t') = Inr dc
    \<and> dc_profile dc = dc_profile meta \<and> dc_experience dc = dc_experience meta
    \<and> dc_step dc = so_checkpoint out
    \<and> (\<forall>p q. dc_payload meta = Some p \<and> dc_payload dc = Some q \<longrightarrow>
          (\<forall>key. key \<noteq> ''checkpoint'' \<longrightarrow> map_of q key = map_of p key))"
proof -
  let ?step = "build_quantum_step reify exec_step ex tk meta"
  let ?t' = "t2\<lparr>t_state := StateSuspended, t_checkpoint := rewrap meta (so_checkpoint out)\<rparr>"
  have "?step (snd (start tid w ep (k_fabric k))) = (Inr (rewrap meta (so_checkpoint out), False), f2)"
    using assms(4-6) by (simp add: build_quantum_step_def step_verdict_def)
  from run_quantum_effect [where step = ?step, OF assms(1,2) this assms(7,8)]
  have "f_tasks (snd (run_quantum tid w ep ?step (k_fabric k))) tid = Some ?t'" by simp
  then have run: "f_tasks (k_fabric (snd (run_winner reify exec_step tid w ep ex tk k))) tid = Some ?t'"
    using assms(3) by (simp add: run_winner_def Let_def end_quantum_outcome_def split: option.splits)
  have "map_of q key = map_of p key"
    if "dc_payload meta = Some p" "shared_payload meta = Some q" "key \<noteq> ''checkpoint''" for p q key
  proof -
    have "map_of (filter (\<lambda>(k', _). k' \<noteq> c) m) key = map_of m key" if "key \<noteq> c" for c :: string and m
      using that by (induction m) auto
    then show ?thesis using that by (auto simp: shared_payload_def map_put_def split: if_splits)
  qed
  then show ?thesis using run decode_rewrap [of meta "so_checkpoint out"] by auto
qed

text \<open>A checkpoint of a newer schema does not survive: the decoding error is only logged, the quantum
  runs on empty metadata, and its completion overwrites the checkpoint with an envelope that has
  neither profile nor payload nor experience id.\<close>

theorem newer_checkpoint_lost:
  assumes "owner_locked (k_fabric k) tid w ep = Inr t" "t_state t = StateLeased"
    and "decode_checkpoint (t_checkpoint tk) = Inl err"
    and "exec_step ex (to_model_task reify tk) (snd (start tid w ep (k_fabric k))) = (Inr (Some out), f2)"
    and "so_result out = None" "so_done out"
    and "owner_locked f2 tid w ep = Inr t2" "t_state t2 = StateRunning"
  shows "\<exists>t'. f_tasks (k_fabric (snd (run_winner reify exec_step tid w ep ex tk k))) tid = Some t'
    \<and> t_state t' = StateCompleted
    \<and> decode_checkpoint (t_checkpoint t') = Inr (zero_decoded\<lparr>dc_step := result_map None,
         dc_version := current_checkpoint_schema_version\<rparr>)"
proof -
  let ?step = "build_quantum_step reify exec_step ex tk zero_decoded"
  let ?cp = "rewrap zero_decoded (result_map None)"
  have "?step (snd (start tid w ep (k_fabric k))) = (Inr (?cp, True), f2)"
    using assms(4-6) by (simp add: build_quantum_step_def step_verdict_def)
  from run_quantum_effect [where step = ?step, OF assms(1,2) this assms(7,8)]
  have "f_tasks (snd (run_quantum tid w ep ?step (k_fabric k))) tid =
      Some (t2\<lparr>t_checkpoint := ?cp, t_state := StateCompleted\<rparr>)"
    by (simp add: rewrap_def encode_checkpoint_def)
  then show ?thesis
    using assms(3) decode_rewrap [of zero_decoded "result_map None"]
    by (simp add: run_winner_def Let_def end_quantum_outcome_def zero_decoded_def shared_payload_def
        split: option.splits)
qed

section \<open>Budget denial, cleanup, preemption\<close>

text \<open>A winner that cannot afford a quantum gives the task back: when the pre-quantum gate denies,
  the task is READY again, unowned and with its checkpoint, no slot is taken and no executor runs.\<close>

theorem budget_denial_releases:
  assumes "get_task tid (k_fabric k) = Inr tk" "cands \<noteq> []"
    and "schedule tid (map (\<lambda>c. c\<lparr>c_conf := confidence_for (k_tracker k) (c_agent c) (t_capability tk)\<rparr>) cands)
           (k_ttl k) (k_fabric k) = (Inr (w, ep), f1)"
    and "resolve_executor w (k\<lparr>k_fabric := f1\<rparr>) = Some ex" "\<not> budget_ok w (k\<lparr>k_fabric := f1\<rparr>)"
    and "r = execute_with_candidates etype reify exec_step ord tid cands k"
  shows "fst r = None \<and> k_tracker (snd r) = k_tracker k \<and> k_agents (snd r) = k_agents k
    \<and> (\<exists>t'. f_tasks (k_fabric (snd r)) tid = Some t' \<and> t_state t' = StateReady \<and> t_owner t' = ''''
          \<and> t_checkpoint t' = t_checkpoint tk)"
proof -
  have r: "r = (None, release_task tid w ep (k\<lparr>k_fabric := f1\<rparr>))"
    using assms by (simp add: execute_with_candidates_def)
  let ?cs = "map (\<lambda>c. c\<lparr>c_conf := confidence_for (k_tracker k) (c_agent c) (t_capability tk)\<rparr>) cands"
  have acq: "fst (acquire tid w (k_ttl k) (k_fabric k)) = Inr ep" "f1 = snd (acquire tid w (k_ttl k) (k_fabric k))"
    using assms(3) unfolding schedule_def by (auto split: sum.splits option.splits prod.splits)
  obtain t where t: "f_tasks (k_fabric k) tid = Some t" "w \<noteq> ''''"
    "f_tasks f1 tid = Some (t\<lparr>t_state := StateLeased, t_owner := w,
       t_lease := Some \<lparr>l_owner = w, l_expires = f_now (k_fabric k) + k_ttl k, l_epoch = ep\<rparr>\<rparr>)"
    by (rule acquire_Inr [OF acq(1)]) (simp add: acq(2))
  have "tk = t" using assms(1) t(1) by (simp add: get_task_def)
  then show ?thesis
    using r t by (simp add: release_task_def release_def owner_locked_def transition_def Let_def)
qed

text \<open>At a terminal state the recovery executor is gone: the task has no binding left, and the
  executor that was bound to it is no longer registered and bound to nothing.\<close>

theorem terminal_cleanup:
  assumes "get_task tid (k_fabric k) = Inr tk" "t_state tk \<in> {StateCompleted, StateFailed}"
    and "bound_for tid k = Some aid" "aid \<noteq> ''''"
  shows "bound_for tid (unbind_after_terminal tid k) = None
    \<and> lookup_executor aid (unbind_after_terminal tid k) = None
    \<and> (\<forall>t. bound_for t (unbind_after_terminal tid k) \<noteq> Some aid)"
  using assms
  by (auto simp: unbind_after_terminal_def unbind_for_def bound_for_def unregister_executor_def
      lookup_executor_def)

text \<open>Preempting a RUNNING task of a well-formed fabric by its own snapshot.\<close>

lemma preempt_running:
  assumes "f_tasks f tid = Some t" "task_wf ep tid t" "t_lease t = Some l" "t_state t = StateRunning"
  shows "f_tasks (snd (preempt tid (t_owner t) (l_epoch l) f)) = (f_tasks f)(tid \<mapsto> requeued t)"
  using assms by (simp add: preempt_def owner_locked_def task_wf_def transition_def Let_def)

definition snapshot_of :: "fabric \<Rightarrow> string \<Rightarrow> running_task option" where
  "snapshot_of f tid =
     (case f_tasks f tid of
        None \<Rightarrow> None
      | Some t \<Rightarrow>
          (case t_lease t of
             None \<Rightarrow> None
           | Some l \<Rightarrow>
               if t_state t \<noteq> StateRunning then None
               else Some \<lparr>r_id = t_id t, r_owner = t_owner t, r_epoch = l_epoch l, r_priority = t_priority t\<rparr>))"

lemma running_tasks_snapshots: "running_tasks ord f = List.map_filter (snapshot_of f) (range_keys (f_tasks f) ord)"
  by (simp add: running_tasks_def snapshot_of_def [abs_def])

definition outranked :: "int \<Rightarrow> task \<Rightarrow> bool" where
  "outranked mx t \<longleftrightarrow> t_state t = StateRunning \<and> t_priority t < mx"

lemma preempt_fold:
  assumes "distinct ks" "fabric_wf f" "\<And>k. k \<in> set ks \<Longrightarrow> f_tasks g k = f_tasks f k"
  shows "f_tasks (fold (\<lambda>rt f. if r_priority rt \<ge> mx then f
             else snd (preempt (r_id rt) (r_owner rt) (r_epoch rt) f)) (List.map_filter (snapshot_of f) ks) g) k
    = (if k \<in> set ks then map_option (\<lambda>t. if outranked mx t then requeued t else t) (f_tasks g k)
       else f_tasks g k)"
  using assms(1,3)
proof (induction ks arbitrary: g)
  case Nil
  then show ?case by (simp add: map_filter_simps)
next
  case (Cons tid ks)
  let ?step = "\<lambda>rt f. if r_priority rt \<ge> mx then f else snd (preempt (r_id rt) (r_owner rt) (r_epoch rt) f)"
  define g' where "g' = (case snapshot_of f tid of None \<Rightarrow> g | Some rt \<Rightarrow> ?step rt g)"
  have fold_eq: "fold ?step (List.map_filter (snapshot_of f) (tid # ks)) g
      = fold ?step (List.map_filter (snapshot_of f) ks) g'"
    by (simp add: g'_def map_filter_simps split: option.split)
  have g'_tasks: "f_tasks g' j =
      (if j = tid then map_option (\<lambda>t. if outranked mx t then requeued t else t) (f_tasks g j) else f_tasks g j)" for j
  proof (cases "f_tasks f tid")
    case None
    then show ?thesis using Cons.prems(2) [of tid] by (simp add: g'_def snapshot_of_def)
  next
    case (Some t)
    have wf: "task_wf (f_epoch f) tid t" using assms(2) Some by (rule fabric_wfD)
    have gt: "f_tasks g tid = Some t" using Cons.prems(2) [of tid] Some by simp
    show ?thesis
    proof (cases "outranked mx t")
      case True
      then obtain l where l: "t_lease t = Some l" using wf by (auto simp: task_wf_def outranked_def split: option.splits)
      then have "g' = snd (preempt tid (t_owner t) (l_epoch l) g)"
        using Some True wf by (simp add: g'_def snapshot_of_def outranked_def task_wf_def)
      then show ?thesis
        using preempt_running [OF gt wf l] True gt by (auto simp: outranked_def)
    next
      case False
      then have "g' = g"
        using Some by (auto simp: g'_def snapshot_of_def outranked_def split: option.splits)
      then show ?thesis using False gt by auto
    qed
  qed
  have "f_tasks g' k = f_tasks f k" if "k \<in> set ks" for k
    using that Cons.prems g'_tasks [of k] by auto
  from Cons.IH [OF _ this] Cons.prems(1)
  show ?case unfolding fold_eq using g'_tasks [of k] by auto
qed

text \<open>The highest resumable priority, seen from below: it is positive and above \<open>p\<close> exactly when some
  listed task of the fabric has a positive priority above \<open>p\<close>.\<close>

lemma max_ready_waits:
  "0 < max_ready_priority ready f \<and> p < max_ready_priority ready f \<longleftrightarrow>
     (\<exists>r\<in>set ready. \<exists>w. f_tasks f r = Some w \<and> 0 < t_priority w \<and> p < t_priority w)"
proof -
  let ?step = "\<lambda>tid mx. case get_task tid f of
      Inl e \<Rightarrow> mx | Inr tk \<Rightarrow> if t_priority tk > mx then t_priority tk else mx"
  have "q < fold ?step ready m \<longleftrightarrow>
      q < m \<or> (\<exists>r\<in>set ready. \<exists>w. f_tasks f r = Some w \<and> q < t_priority w)" for q m
    by (induction ready arbitrary: m) (auto simp: get_task_def split: option.splits)
  from this [of "max 0 p" 0] show ?thesis by (auto simp: max_ready_priority_def)
qed

text \<open>C10: Preemption is exact and loses nothing. One sweep hands back precisely the RUNNING tasks that
  some listed resumable task outranks, that is, a task of the fabric whose priority is positive and
  strictly greater: they are READY and unowned, every other field kept, the checkpoint included. No
  other task changes, and without executors nothing is touched.\<close>

theorem preemption_exact:
  assumes "fabric_wf (k_fabric k)" "range_order (f_tasks (k_fabric k)) ord"
  shows "f_tasks (k_fabric (preempt_lower_priority ord eo ready k)) =
    (\<lambda>tid. map_option (\<lambda>t.
        if executor_count (o_execs eo) k \<noteq> 0 \<and> t_state t = StateRunning
           \<and> (\<exists>r\<in>set ready. \<exists>w. f_tasks (k_fabric k) r = Some w \<and> 0 < t_priority w \<and> t_priority t < t_priority w)
        then t\<lparr>t_state := StateReady, t_owner := '''', t_lease := None\<rparr> else t) (f_tasks (k_fabric k) tid))"
  (is "_ = (\<lambda>tid. map_option (\<lambda>t. if ?out t then _ else t) _)")
proof (cases "executor_count (o_execs eo) k = 0 \<or> max_ready_priority ready (k_fabric k) \<le> 0")
  case True
  then have "(\<lambda>t. if ?out t then g t else t) = id" for g
    using max_ready_waits [where f = "k_fabric k" and ready = ready and p = "t_priority _"] by (force simp: fun_eq_iff)
  moreover have "preempt_lower_priority ord eo ready k = k"
    using True by (auto simp: preempt_lower_priority_def Let_def)
  ultimately show ?thesis by (simp only: option.map_id0 id_apply)
next
  case False
  define mx where "mx = max_ready_priority ready (k_fabric k)"
  have keys: "range_keys (f_tasks (k_fabric k)) ord = ord" "distinct ord"
    "\<And>tid. tid \<in> set ord \<longleftrightarrow> f_tasks (k_fabric k) tid \<noteq> None"
    using assms(2) range_order_keys by (auto simp: range_order_def)
  have "ready \<noteq> []" using False by (auto simp: max_ready_priority_def)
  then have "f_tasks (k_fabric (preempt_lower_priority ord eo ready k)) tid =
      map_option (\<lambda>t. if outranked mx t then requeued t else t) (f_tasks (k_fabric k) tid)" for tid
    using False preempt_fold [OF keys(2) assms(1) refl, of mx tid] keys
    by (auto simp: preempt_lower_priority_def Let_def running_tasks_snapshots mx_def)
  moreover have "outranked mx t \<longleftrightarrow> ?out t" for t
    using False max_ready_waits [where f = "k_fabric k" and ready = ready and p = "t_priority t"]
    by (auto simp: outranked_def mx_def)
  ultimately show ?thesis by (intro ext) (simp add: disown_def cong: if_cong)
qed

section \<open>The properties at concrete inputs\<close>

definition sample_kernel :: "(unit, unit) kernel" where
  "sample_kernel = register_executor ''a'' (Some ()) (new_kernel leased_fabric Map.empty sample_agents)"

lemmas sample_kernel_defs = sample_kernel_def register_executor_def new_kernel_def

lemma unregister_complete_witness:
  "lookup_executor ''a'' (unregister_executor ''a'' sample_kernel) = None"
  using unregister_complete [OF _ refl, of "''a''" sample_kernel] by simp

lemma pool_excludes_reserved_witness:
  "\<exists>ex. lookup_executor ''a'' sample_kernel = Some ex"
proof -
  let ?ord = "\<lparr>o_execs = [''a''], o_bound = [], o_agents = []\<rparr>"
  have d: "dom (k_bound sample_kernel) \<subseteq> set (o_bound ?ord)" by (simp add: sample_kernel_defs)
  have m: "tracked_candidate sample_kernel ''a'' [''code'']
      \<in> set (static_candidates (\<lambda>_. ''code'') ?ord sample_kernel @ fabric_candidates ?ord sample_kernel)"
    by (simp add: static_candidates_def map_filter_simps range_keys_def is_bound_to_any_def sample_kernel_defs)
  have "\<not> k_peer sample_kernel" by (simp add: sample_kernel_defs)
  with pool_excludes_reserved [OF d m] show ?thesis by (simp add: tracked_candidate_def)
qed

lemma fabric_agents_never_capable_witness:
  "\<not> has_capable_executor (\<lambda>_. ''code'') \<lparr>o_execs = [], o_bound = [], o_agents = [''w'']\<rparr> ''t''
     (with_agent_fabric sample_kernel)"
  by (rule fabric_agents_never_capable) (simp_all add: with_agent_fabric_def bound_for_def sample_kernel_defs)

lemma execute_balances_load_witness:
  "tracker_load (k_tracker (snd (execute (\<lambda>_. ''code'') id (\<lambda>ex mt g. (Inl (), g))
     \<lparr>o_execs = [''a''], o_bound = [], o_agents = []\<rparr> ''t'' sample_kernel))) ''a'' = tracker_load (k_tracker sample_kernel) ''a''"
  by (rule execute_balances_load)
    (simp add: sample_kernel_defs tracker_wf_def new_load_tracker_def map_read_def)

lemma sample_quantum:
  obtains t t2 where "owner_locked (k_fabric sample_kernel) ''t'' ''a'' 1 = Inr t" "t_state t = StateLeased"
    "owner_locked (snd (start ''t'' ''a'' 1 (k_fabric sample_kernel))) ''t'' ''a'' 1 = Inr t2" "t_state t2 = StateRunning"
  by (simp add: owner_locked_def start_def sample_kernel_defs sample_defs)

lemma yield_keeps_metadata_witness:
  "\<exists>t' dc. f_tasks (k_fabric (snd (run_winner id
       (\<lambda>ex mt g. (Inr (Some \<lparr>so_done = False, so_checkpoint = GInt 8, so_result = None\<rparr>) :: unit + step_outcome option, g))
       ''t'' ''a'' 1 (StaticExec ()) (sample_task\<lparr>t_checkpoint := GEnvelope 1 (GStr ''p'') None ''e'' GNil\<rparr>) sample_kernel))) ''t'' = Some t'
     \<and> decode_checkpoint (t_checkpoint t') = Inr dc \<and> dc_profile dc = GStr ''p'' \<and> dc_step dc = GInt 8"
proof -
  obtain t t2 where t: "owner_locked (k_fabric sample_kernel) ''t'' ''a'' 1 = Inr t" "t_state t = StateLeased"
    "owner_locked (snd (start ''t'' ''a'' 1 (k_fabric sample_kernel))) ''t'' ''a'' 1 = Inr t2" "t_state t2 = StateRunning"
    by (rule sample_quantum)
  let ?tk = "sample_task\<lparr>t_checkpoint := GEnvelope 1 (GStr ''p'') None ''e'' GNil\<rparr>"
  have "decode_checkpoint (t_checkpoint ?tk) = Inr \<lparr>dc_profile = GStr ''p'', dc_payload = None,
      dc_experience = ''e'', dc_step = GNil, dc_version = 1\<rparr>"
    by (simp add: current_checkpoint_schema_version_def)
  from yield_keeps_metadata [where reify = id and ex = "StaticExec ()" and ?f2.0 = "snd (start ''t'' ''a'' 1 (k_fabric sample_kernel))"
      and exec_step = "\<lambda>ex mt g. (Inr (Some \<lparr>so_done = False, so_checkpoint = GInt 8, so_result = None\<rparr>) :: unit + step_outcome option, g)"
      and out = "\<lparr>so_done = False, so_checkpoint = GInt 8, so_result = None\<rparr>",
      OF t(1,2) this _ _ _ t(3,4)]
  show ?thesis by auto
qed

lemma newer_checkpoint_lost_witness:
  "\<exists>t'. f_tasks (k_fabric (snd (run_winner id
       (\<lambda>ex mt g. (Inr (Some \<lparr>so_done = True, so_checkpoint = GNil, so_result = None\<rparr>) :: unit + step_outcome option, g))
       ''t'' ''a'' 1 (StaticExec ()) (sample_task\<lparr>t_checkpoint := GEnvelope 2 (GStr ''p'') None ''e'' GNil\<rparr>) sample_kernel))) ''t'' = Some t'
     \<and> t_state t' = StateCompleted"
proof -
  obtain t t2 where t: "owner_locked (k_fabric sample_kernel) ''t'' ''a'' 1 = Inr t" "t_state t = StateLeased"
    "owner_locked (snd (start ''t'' ''a'' 1 (k_fabric sample_kernel))) ''t'' ''a'' 1 = Inr t2" "t_state t2 = StateRunning"
    by (rule sample_quantum)
  have "decode_checkpoint (t_checkpoint (sample_task\<lparr>t_checkpoint := GEnvelope 2 (GStr ''p'') None ''e'' GNil\<rparr>))
      = Inl ErrCheckpointSchemaVersion"
    by (simp add: current_checkpoint_schema_version_def)
  from newer_checkpoint_lost [where reify = id and ex = "StaticExec ()" and ?f2.0 = "snd (start ''t'' ''a'' 1 (k_fabric sample_kernel))"
      and exec_step = "\<lambda>ex mt g. (Inr (Some \<lparr>so_done = True, so_checkpoint = GNil, so_result = None\<rparr>) :: unit + step_outcome option, g)"
      and out = "\<lparr>so_done = True, so_checkpoint = GNil, so_result = None\<rparr>",
      OF t(1,2) this _ _ _ t(3,4)]
  show ?thesis by auto
qed

lemma terminal_cleanup_witness:
  "lookup_executor ''r'' (unbind_after_terminal ''t'' (register_executor_for_task ''t'' ''r'' (Some ())
     (new_kernel (exec_ops [OpStart ''t'' ''a'' 1, OpComplete ''t'' ''a'' 1] leased_fabric) Map.empty sample_agents))) = None"
proof -
  let ?k = "register_executor_for_task ''t'' ''r'' (Some ())
     (new_kernel (exec_ops [OpStart ''t'' ''a'' 1, OpComplete ''t'' ''a'' 1] leased_fabric) Map.empty sample_agents)"
  obtain tk where "get_task ''t'' (k_fabric ?k) = Inr tk" "t_state tk = StateCompleted"
    by (simp add: get_task_def register_executor_for_task_def new_kernel_def start_def complete_def
        owner_locked_def sample_defs)
  moreover have "bound_for ''t'' ?k = Some ''r''" by (simp add: bound_for_def register_executor_for_task_def)
  ultimately show ?thesis using terminal_cleanup [of "''t''" ?k tk "''r''"] by simp
qed

text \<open>A running task of priority one, a waiting one of priority five, and one executor.\<close>

definition urgent_kernel :: "(unit, unit) kernel" where
  "urgent_kernel = register_executor ''a'' (Some ()) (new_kernel
     (exec_ops [OpStart ''t'' ''a'' 1, OpCreate (sample_task\<lparr>t_id := ''u'', t_priority := 5\<rparr>)] leased_fabric)
     Map.empty sample_agents)"

lemma preemption_exact_witness:
  "\<exists>t. f_tasks (k_fabric urgent_kernel) ''t'' = Some t \<and> t_state t = StateRunning
     \<and> f_tasks (k_fabric (preempt_lower_priority [''t'', ''u''] \<lparr>o_execs = [''a''], o_bound = [], o_agents = []\<rparr>
           [''u''] urgent_kernel)) ''t'' = Some (t\<lparr>t_state := StateReady, t_owner := '''', t_lease := None\<rparr>)"
proof -
  let ?eo = "\<lparr>o_execs = [''a''], o_bound = [], o_agents = []\<rparr>"
  note defs = urgent_kernel_def register_executor_def new_kernel_def start_def owner_locked_def sample_defs
  obtain t u where tu: "f_tasks (k_fabric urgent_kernel) ''t'' = Some t" "t_state t = StateRunning"
    "t_priority t = 1" "f_tasks (k_fabric urgent_kernel) ''u'' = Some u" "t_priority u = 5"
    by (simp add: defs)
  have dom: "f_tasks (k_fabric urgent_kernel) x \<noteq> None \<longleftrightarrow> x \<in> {''t'', ''u''}" for x
    by (auto simp add: defs)
  have "fabric_wf (exec_ops [OpCreate sample_task, OpAcquire ''t'' ''a'' 5, OpStart ''t'' ''a'' 1,
      OpCreate (sample_task\<lparr>t_id := ''u'', t_priority := 5\<rparr>)] (new_fabric 0))"
    by (rule exec_ops_wf) simp_all
  then have "fabric_wf (k_fabric urgent_kernel)"
    by (simp add: urgent_kernel_def register_executor_def new_kernel_def leased_fabric_def sample_fabric_def)
  moreover have "range_order (f_tasks (k_fabric urgent_kernel)) [''t'', ''u'']"
    using dom by (auto simp: range_order_def)
  moreover have "executor_count [''a''] urgent_kernel \<noteq> 0"
    by (simp add: executor_count_def range_keys_def urgent_kernel_def register_executor_def new_kernel_def)
  ultimately show ?thesis
    using preemption_exact [where k = urgent_kernel and ord = "[''t'', ''u'']" and eo = ?eo and ready = "[''u'']"]
      tu by simp
qed

definition poor_kernel :: "(unit, unit) kernel" where
  "poor_kernel = with_governance (register_executor ''w'' (Some ())
     (new_kernel sample_fabric Map.empty (exec_agent (AConsume ''w'' 0 2) sample_agents)))"

lemma poor_kernel_simps:
  "k_fabric poor_kernel = sample_fabric" "k_tracker poor_kernel = new_load_tracker" "k_governed poor_kernel"
  "\<not> k_peer poor_kernel" "k_execs poor_kernel ''w'' = Some ()"
  "k_agents poor_kernel = exec_agent (AConsume ''w'' 0 2) sample_agents"
  by (simp_all add: poor_kernel_def with_governance_def sample_kernel_defs)

lemma poor_budget: "check_resource ''w'' 0 1 (k_agents poor_kernel) = Inr False"
  "deadline_exceeded ''w'' (k_agents poor_kernel) = Inr False"
  by (simp_all add: poor_kernel_simps check_resource_def deadline_exceeded_def consume_resource_def
      consume_tokens_def consume_tools_def put_governance_def new_agent_def new_governance_def sample_agent_defs)

lemma budget_denial_releases_witness:
  "k_tracker (snd (execute_with_candidates (\<lambda>_. ''code'') id (\<lambda>ex mt g. (Inl (), g))
     \<lparr>o_execs = [], o_bound = [], o_agents = []\<rparr> ''t'' [sample_candidate\<lparr>c_agent := ''w''\<rparr>] poor_kernel)) = new_load_tracker"
proof -
  let ?c = "sample_candidate\<lparr>c_agent := ''w''\<rparr>"
  have tk: "get_task ''t'' (k_fabric poor_kernel) = Inr sample_task"
    by (simp add: poor_kernel_simps get_task_def sample_defs)
  have conf: "confidence_for (k_tracker poor_kernel) ''w'' cap = 1" for cap
    by (simp add: poor_kernel_simps confidence_for_def history_confidence_def new_load_tracker_def)
  have "pick ''code'' [?c] = Some ?c"
    by (simp add: pick_def pick_step_def Let_def score_eq resort_score_eq overlap_defs clamp01_def
        sample_candidate_def)
  then obtain f1 where s: "schedule ''t'' (map (\<lambda>c. c\<lparr>c_conf := confidence_for (k_tracker poor_kernel) (c_agent c)
        (t_capability sample_task)\<rparr>) [?c]) (k_ttl poor_kernel) (k_fabric poor_kernel) = (Inr (''w'', 1), f1)"
    using conf by (simp add: schedule_def get_task_def fill_confidence_def sample_candidate_def
        poor_kernel_simps sample_defs)
  have r: "resolve_executor ''w'' (poor_kernel\<lparr>k_fabric := f1\<rparr>) = Some (StaticExec ())"
    by (simp add: resolve_executor_def fabric_executor_def lookup_executor_def poor_kernel_simps)
  have b: "\<not> budget_ok ''w'' (poor_kernel\<lparr>k_fabric := f1\<rparr>)"
    using poor_budget by (simp add: budget_ok_def poor_kernel_simps)
  have "k_tracker (snd (execute_with_candidates (\<lambda>_. ''code'') id (\<lambda>ex mt g. (Inl (), g))
     \<lparr>o_execs = [], o_bound = [], o_agents = []\<rparr> ''t'' [?c] poor_kernel)) = k_tracker poor_kernel"
    by (rule budget_denial_releases [OF tk _ s r b refl, THEN conjunct2, THEN conjunct1]) simp
  then show ?thesis by (simp add: poor_kernel_simps(2))
qed

end
