(* ===== verification/Graph_Search.thy ===== *)
theory Graph_Search
  imports Interfaces
begin

text \<open>
  The graph searches of package \<open>internal/workflow/engine\<close> on an adjacency function: the three-colour
  depth first search of \<open>hasCycleInAdjList\<close> (\<open>mutable_dag.go\<close>), the search with a recursion stack of
  \<open>hasCycle\<close> (\<open>types.go\<close>) and the breadth first search of \<open>wouldCreateCycle\<close>. Each takes fuel, the
  number of nodes it may enter; the lemmas show that the number of nodes of the graph is enough,
  and that the answers are exact.
\<close>

section \<open>The searches\<close>

type_synonym adjacency = "string \<Rightarrow> string list"

definition edge_rel :: "adjacency \<Rightarrow> (string \<times> string) set" where
  "edge_rel g = {(a, b). b \<in> set (g a)}"

text \<open>Three colours; a node missing from the map is white.\<close>

datatype colour = White | Gray | Black

type_synonym colours = "string \<rightharpoonup> colour"

definition colour_of :: "colours \<Rightarrow> string \<Rightarrow> colour" where
  "colour_of c n = (case c n of None \<Rightarrow> White | Some x \<Rightarrow> x)"

definition paint :: "string \<Rightarrow> colour \<Rightarrow> colours \<Rightarrow> colours" where
  "paint n x c = c(n \<mapsto> x)"

fun visit :: "nat \<Rightarrow> adjacency \<Rightarrow> string \<Rightarrow> colours \<Rightarrow> (bool \<times> colours) option"
  and visit_all :: "nat \<Rightarrow> adjacency \<Rightarrow> string list \<Rightarrow> colours \<Rightarrow> (bool \<times> colours) option" where
  "visit 0 g n c = None"
| "visit (Suc k) g n c =
     (case visit_all k g (g n) (paint n Gray c) of
        None \<Rightarrow> None
      | Some (found, c') \<Rightarrow> if found then Some (True, c') else Some (False, paint n Black c'))"
| "visit_all k g [] c = Some (False, c)"
| "visit_all k g (m # ms) c =
     (case colour_of c m of
        Gray \<Rightarrow> Some (True, c)
      | White \<Rightarrow>
          (case visit k g m c of
             None \<Rightarrow> None
           | Some (found, c') \<Rightarrow> if found then Some (True, c') else visit_all k g ms c')
      | Black \<Rightarrow> visit_all k g ms c)"

text \<open>The loop over the nodes: a search from every node that is still white.\<close>

fun visit_roots :: "nat \<Rightarrow> adjacency \<Rightarrow> string list \<Rightarrow> colours \<Rightarrow> bool option" where
  "visit_roots k g [] c = Some False"
| "visit_roots k g (n # ns) c =
     (if colour_of c n = White
      then (case visit k g n c of
              None \<Rightarrow> None
            | Some (found, c') \<Rightarrow> if found then Some True else visit_roots k g ns c')
      else visit_roots k g ns c)"

text \<open>The same search with a visited set and a recursion stack, as lists.\<close>

fun stack_visit :: "nat \<Rightarrow> adjacency \<Rightarrow> string \<Rightarrow> string list \<times> string list
     \<Rightarrow> (bool \<times> string list \<times> string list) option"
  and stack_visit_all :: "nat \<Rightarrow> adjacency \<Rightarrow> string list \<Rightarrow> string list \<times> string list
     \<Rightarrow> (bool \<times> string list \<times> string list) option" where
  "stack_visit 0 g n st = None"
| "stack_visit (Suc k) g n (visited, stack) =
     (case stack_visit_all k g (g n) (n # visited, n # stack) of
        None \<Rightarrow> None
      | Some (found, v', s') \<Rightarrow>
          if found then Some (True, v', s') else Some (False, v', filter (\<lambda>x. x \<noteq> n) s'))"
| "stack_visit_all k g [] st = Some (False, st)"
| "stack_visit_all k g (m # ms) (visited, stack) =
     (if m \<notin> set visited
      then (case stack_visit k g m (visited, stack) of
              None \<Rightarrow> None
            | Some (found, st') \<Rightarrow> if found then Some (True, st') else stack_visit_all k g ms st')
      else if m \<in> set stack then Some (True, visited, stack)
      else stack_visit_all k g ms (visited, stack))"

fun stack_roots :: "nat \<Rightarrow> adjacency \<Rightarrow> string list \<Rightarrow> string list \<times> string list \<Rightarrow> bool option" where
  "stack_roots k g [] st = Some False"
| "stack_roots k g (n # ns) st =
     (if n \<notin> set (fst st)
      then (case stack_visit k g n st of
              None \<Rightarrow> None
            | Some (found, st') \<Rightarrow> if found then Some True else stack_roots k g ns st')
      else stack_roots k g ns st)"

text \<open>
  Breadth first search for \<open>goal\<close>: the head of the queue is the goal, or was visited and is skipped,
  or is expanded.
\<close>

fun bfs :: "nat \<Rightarrow> adjacency \<Rightarrow> string \<Rightarrow> string list \<Rightarrow> string list \<Rightarrow> bool option" where
  "bfs k g goal visited [] = Some False"
| "bfs k g goal visited (x # q) =
     (if x = goal then Some True
      else if x \<in> set visited then bfs k g goal visited q
      else (case k of
              0 \<Rightarrow> None
            | Suc k' \<Rightarrow>
                bfs k' g goal (x # visited) (q @ filter (\<lambda>y. y \<notin> set (x # visited)) (g x))))"

section \<open>The three-colour search is exact\<close>

definition blacks :: "colours \<Rightarrow> string set" where "blacks c = {n. colour_of c n = Black}"
definition grays :: "colours \<Rightarrow> string set" where "grays c = {n. colour_of c n = Gray}"

lemma colour_upd [simp]: "colour_of (paint n x c) m = (if m = n then x else colour_of c m)"
  by (simp add: colour_of_def paint_def)

lemma colour_empty [simp]: "colour_of Map.empty n = White"
  by (simp add: colour_of_def)

lemma blacks_upd [simp]: "blacks (paint n x c) = (if x = Black then insert n (blacks c) else blacks c - {n})"
  by (auto simp: blacks_def)

lemma grays_upd [simp]: "grays (paint n x c) = (if x = Gray then insert n (grays c) else grays c - {n})"
  by (auto simp: grays_def)

lemma blacks_grays_empty [simp]: "blacks Map.empty = {}" "grays Map.empty = {}"
  by (auto simp: blacks_def grays_def)

lemma white_iff: "colour_of c n = White \<longleftrightarrow> n \<notin> blacks c \<and> n \<notin> grays c"
  by (cases "colour_of c n") (auto simp: blacks_def grays_def)

lemma black_not_gray: "n \<in> grays c \<Longrightarrow> n \<notin> blacks c"
  by (auto simp: blacks_def grays_def)

text \<open>A search that finds nothing leaves the gray nodes alone and only adds black ones.\<close>

lemma visit_frame:
  "visit k g n c = Some (False, c') \<Longrightarrow> colour_of c n = White
    \<Longrightarrow> grays c' = grays c \<and> blacks c \<subseteq> blacks c' \<and> n \<in> blacks c'"
  "visit_all k g ms c = Some (False, c')
    \<Longrightarrow> grays c' = grays c \<and> blacks c \<subseteq> blacks c' \<and> set ms \<subseteq> blacks c'"
proof (induction k g n c and k g ms c arbitrary: c' and c' rule: visit_visit_all.induct)
  case (2 k g n c)
  then obtain c2 where c2: "visit_all k g (g n) (paint n Gray c) = Some (False, c2)"
    "c' = paint n Black c2"
    by (auto split: option.splits if_splits)
  from 2 c2(1) have "grays c2 = insert n (grays c)" "blacks c - {n} \<subseteq> blacks c2" by auto
  with 2(3) c2(2) show ?case by (auto simp: white_iff)
next
  case (4 k g m ms c)
  show ?case
  proof (cases "colour_of c m")
    case White
    with 4(4) obtain c1 where c1: "visit k g m c = Some (False, c1)"
      "visit_all k g ms c1 = Some (False, c')"
      by (auto split: option.splits if_splits)
    from 4(1)[OF White c1(1) White] 4(2)[OF White c1(1) refl _ c1(2)] show ?thesis by auto
  next
    case Gray
    with 4(4) show ?thesis by simp
  next
    case Black
    with 4(4) have "visit_all k g ms c = Some (False, c')" by simp
    from 4(3)[OF Black this] Black show ?thesis by (auto simp: blacks_def)
  qed
qed auto

text \<open>The black nodes are closed under the edges and lie on no cycle.\<close>

definition settled :: "adjacency \<Rightarrow> colours \<Rightarrow> bool" where
  "settled g c \<longleftrightarrow> (\<forall>b \<in> blacks c. set (g b) \<subseteq> blacks c \<and> (b, b) \<notin> (edge_rel g)\<^sup>+)"

lemma closed_trancl:
  assumes "(a, b) \<in> (edge_rel g)\<^sup>*" "\<And>x. x \<in> S \<Longrightarrow> set (g x) \<subseteq> S" "a \<in> S"
  shows "b \<in> S"
  using assms by (induction rule: rtrancl_induct) (auto simp: edge_rel_def)

lemma settled_blacken:
  assumes "settled g c" "set (g n) \<subseteq> blacks c" "n \<notin> blacks c"
  shows "settled g (paint n Black c)"
proof -
  have "(n, n) \<notin> (edge_rel g)\<^sup>+"
  proof
    assume "(n, n) \<in> (edge_rel g)\<^sup>+"
    then obtain m where m: "(n, m) \<in> edge_rel g" "(m, n) \<in> (edge_rel g)\<^sup>*" by (auto dest: tranclD)
    from m(1) assms(2) have "m \<in> blacks c" by (auto simp: edge_rel_def)
    moreover have "set (g x) \<subseteq> blacks c" if "x \<in> blacks c" for x
      using assms(1) that by (simp add: settled_def)
    ultimately have "n \<in> blacks c" using closed_trancl [OF m(2)] by blast
    with assms(3) show False by simp
  qed
  with assms show ?thesis by (auto simp: settled_def)
qed

lemma visit_settled:
  "visit k g n c = Some (False, c') \<Longrightarrow> colour_of c n = White \<Longrightarrow> settled g c \<Longrightarrow> settled g c'"
  "visit_all k g ms c = Some (False, c') \<Longrightarrow> settled g c \<Longrightarrow> settled g c'"
proof (induction k g n c and k g ms c arbitrary: c' and c' rule: visit_visit_all.induct)
  case (2 k g n c)
  then obtain c2 where c2: "visit_all k g (g n) (paint n Gray c) = Some (False, c2)"
    "c' = paint n Black c2"
    by (auto split: option.splits if_splits)
  from 2(3) have "n \<notin> blacks c" by (simp add: white_iff)
  with 2(4) have "settled g (paint n Gray c)" by (simp add: settled_def)
  with 2(1) c2(1) have "settled g c2" by blast
  moreover from visit_frame(2)[OF c2(1)] have "set (g n) \<subseteq> blacks c2" "n \<in> grays c2" by auto
  ultimately show ?case using c2(2) by (simp add: settled_blacken black_not_gray)
next
  case (4 k g m ms c)
  show ?case
  proof (cases "colour_of c m")
    case White
    with 4(4) obtain c1 where c1: "visit k g m c = Some (False, c1)"
      "visit_all k g ms c1 = Some (False, c')"
      by (auto split: option.splits if_splits)
    from 4(2)[OF White c1(1) refl _ c1(2)] 4(1)[OF White c1(1) White 4(5)] show ?thesis by blast
  next
    case Black
    with 4 show ?thesis by simp
  qed (use 4 in auto)
qed auto

text \<open>What the search finds is a cycle: the gray nodes are a path to the node it is at.\<close>

lemma visit_sound:
  "visit k g n c = Some (True, c') \<Longrightarrow> colour_of c n = White
    \<Longrightarrow> (\<And>x. x \<in> grays c \<Longrightarrow> (x, n) \<in> (edge_rel g)\<^sup>*) \<Longrightarrow> \<exists>x. (x, x) \<in> (edge_rel g)\<^sup>+"
  "visit_all k g ms c = Some (True, c')
    \<Longrightarrow> (\<And>x. x \<in> grays c \<Longrightarrow> (x, p) \<in> (edge_rel g)\<^sup>*) \<Longrightarrow> set ms \<subseteq> set (g p) \<Longrightarrow> \<exists>x. (x, x) \<in> (edge_rel g)\<^sup>+"
proof (induction k g n c and k g ms c arbitrary: c' and c' p rule: visit_visit_all.induct)
  case (2 k g n c)
  then obtain c2 where c2: "visit_all k g (g n) (paint n Gray c) = Some (True, c2)"
    by (auto split: option.splits if_splits)
  show ?case by (rule 2(1)[OF c2, of n]) (use 2(4) in auto)
next
  case (4 k g m ms c)
  from 4(6) have pm: "(p, m) \<in> edge_rel g" by (simp add: edge_rel_def)
  show ?case
  proof (cases "colour_of c m")
    case White
    show ?thesis
    proof (cases "\<exists>c1. visit k g m c = Some (True, c1)")
      case True
      then obtain c1 where "visit k g m c = Some (True, c1)" by blast
      from 4(1)[OF White this White] show ?thesis
        using 4(5) pm by (meson rtrancl.rtrancl_into_rtrancl)
    next
      case False
      with White 4(4) obtain c1 where c1: "visit k g m c = Some (False, c1)"
        "visit_all k g ms c1 = Some (True, c')"
        by (auto split: option.splits if_splits)
      with visit_frame(1)[OF c1(1) White] 4(2)[OF White c1(1) refl _ c1(2), where p = p] 4(5,6)
      show ?thesis by auto
    qed
  next
    case Gray
    then have "(m, p) \<in> (edge_rel g)\<^sup>*" using 4(5) by (simp add: grays_def)
    with pm show ?thesis by (meson rtrancl_into_trancl1)
  next
    case Black
    with 4 show ?thesis by auto
  qed
qed auto

section \<open>The fuel is enough\<close>

text \<open>A finite set of nodes the edges do not leave.\<close>

definition closed_graph :: "string set \<Rightarrow> adjacency \<Rightarrow> bool" where
  "closed_graph N g \<longleftrightarrow> finite N \<and> (\<forall>n. set (g n) \<subseteq> N) \<and> (\<forall>n. n \<notin> N \<longrightarrow> g n = [])"

definition whites :: "string set \<Rightarrow> colours \<Rightarrow> string set" where
  "whites N c = {n \<in> N. colour_of c n = White}"

lemma finite_whites: "closed_graph N g \<Longrightarrow> finite (whites N c)"
  by (simp add: closed_graph_def whites_def)

lemma card_whites_mono:
  "closed_graph N g \<Longrightarrow> grays c' = grays c \<Longrightarrow> blacks c \<subseteq> blacks c' \<Longrightarrow>
   card (whites N c') \<le> card (whites N c)"
  by (rule card_mono) (auto simp: finite_whites, auto simp: whites_def white_iff)

lemma card_whites_paint:
  assumes "closed_graph N g" "n \<in> N" "colour_of c n = White"
  shows "card (whites N c) = Suc (card (whites N (paint n Gray c)))"
proof -
  have "whites N c = insert n (whites N (paint n Gray c))" "n \<notin> whites N (paint n Gray c)"
    using assms by (auto simp: whites_def)
  then show ?thesis using finite_whites [OF assms(1)] by simp
qed

lemma visit_fuel:
  "closed_graph N g \<Longrightarrow> n \<in> N \<Longrightarrow> colour_of c n = White \<Longrightarrow> card (whites N c) \<le> k
    \<Longrightarrow> visit k g n c \<noteq> None"
  "closed_graph N g \<Longrightarrow> set ms \<subseteq> N \<Longrightarrow> card (whites N c) \<le> k \<Longrightarrow> visit_all k g ms c \<noteq> None"
proof (induction k g n c and k g ms c rule: visit_visit_all.induct)
  case (1 g n c)
  then show ?case using card_whites_paint [of N g n c] by simp
next
  case (2 k g n c)
  from 2(2-) have "visit_all k g (g n) (paint n Gray c) \<noteq> None"
    by (intro 2(1)) (use card_whites_paint [of N g n c] in \<open>auto simp: closed_graph_def\<close>)
  then show ?case by (auto split: option.splits)
next
  case (4 k g m ms c)
  show ?case
  proof (cases "colour_of c m")
    case White
    with 4 obtain b c1 where v: "visit k g m c = Some (b, c1)" by fastforce
    show ?thesis
    proof (cases b)
      case False
      with v have v: "visit k g m c = Some (False, c1)" by simp
      have "card (whites N c1) \<le> k"
        using card_whites_mono [OF 4(4), of c1 c] visit_frame(1)[OF v White] 4(6) by auto
      with 4(2)[OF White v refl] 4(4,5) v White show ?thesis by simp
    qed (use v White in simp)
  next
    case Black
    with 4(3)[OF Black 4(4)] 4(5,6) show ?thesis by simp
  qed simp
qed simp

section \<open>Searching from every node\<close>

lemma visit_roots_exact:
  assumes "closed_graph N g" "card (whites N c) \<le> k" "set ns \<subseteq> N" "grays c = {}" "settled g c"
  shows "\<exists>b. visit_roots k g ns c = Some b \<and>
    (b \<longrightarrow> (\<exists>x. (x, x) \<in> (edge_rel g)\<^sup>+)) \<and>
    (\<not> b \<longrightarrow> (\<forall>x \<in> set ns. (x, x) \<notin> (edge_rel g)\<^sup>+))"
  using assms
proof (induction ns arbitrary: c)
  case (Cons n ns)
  show ?case
  proof (cases "colour_of c n = White")
    case True
    with Cons.prems visit_fuel(1)[of N g n c k] obtain b c' where v: "visit k g n c = Some (b, c')"
      by force
    show ?thesis
    proof (cases b)
      case True
      with v visit_sound(1)[of k g n c c'] \<open>colour_of c n = White\<close> Cons.prems(4) show ?thesis
        by (intro exI [of _ True]) simp
    next
      case False
      with v have v: "visit k g n c = Some (False, c')" by simp
      note frame = visit_frame(1)[OF v True] and settled = visit_settled(1)[OF v True Cons.prems(5)]
      have "card (whites N c') \<le> k"
        using card_whites_mono [OF Cons.prems(1), of c' c] frame Cons.prems(2) by auto
      from Cons.IH [OF Cons.prems(1) this] Cons.prems(3,4) frame settled v True
      show ?thesis by (auto simp: settled_def)
    qed
  next
    case False
    with Cons.prems(4) have "n \<in> blacks c" by (simp add: white_iff)
    with Cons.prems(5) have "(n, n) \<notin> (edge_rel g)\<^sup>+" by (simp add: settled_def)
    with False Cons.IH [of c] Cons.prems show ?thesis by auto
  qed
qed (auto intro: exI [of _ False])

lemma closed_graph_cycle_node:
  "closed_graph N g \<Longrightarrow> (x, x) \<in> (edge_rel g)\<^sup>+ \<Longrightarrow> x \<in> N"
  by (auto dest!: tranclD simp: closed_graph_def edge_rel_def)

theorem visit_roots_cycle:
  assumes "closed_graph N g" "card N \<le> k" "set ns = N"
  shows "visit_roots k g ns Map.empty = Some (\<not> acyclic (edge_rel g))"
proof -
  have "whites N Map.empty = N" by (auto simp: whites_def)
  then obtain b where b: "visit_roots k g ns Map.empty = Some b"
    "b \<longrightarrow> (\<exists>x. (x, x) \<in> (edge_rel g)\<^sup>+)" "\<not> b \<longrightarrow> (\<forall>x \<in> N. (x, x) \<notin> (edge_rel g)\<^sup>+)"
    using visit_roots_exact [OF assms(1), of Map.empty k ns] assms by (auto simp: settled_def)
  then have "b \<longleftrightarrow> \<not> acyclic (edge_rel g)"
    using closed_graph_cycle_node [OF assms(1)] by (auto simp: acyclic_def)
  with b(1) show ?thesis by simp
qed

section \<open>The search with a recursion stack is the same search\<close>

definition paints :: "colours \<Rightarrow> string list \<times> string list \<Rightarrow> bool" where
  "paints c st \<longleftrightarrow> (\<forall>m. colour_of c m =
     (if m \<notin> set (fst st) then White else if m \<in> set (snd st) then Gray else Black))"

lemma stack_visit_simulates:
  "paints c st \<Longrightarrow> colour_of c n = White \<Longrightarrow>
    rel_option (rel_prod (=) paints) (visit k g n c) (stack_visit k g n st)"
  "paints c st \<Longrightarrow>
    rel_option (rel_prod (=) paints) (visit_all k g ms c) (stack_visit_all k g ms st)"
proof (induction k g n st and k g ms st arbitrary: c and c rule: stack_visit_stack_visit_all.induct)
  case (2 k g n visited stack)
  let ?c = "paint n Gray c" and ?st = "(n # visited, n # stack)"
  from 2(2) have "paints ?c ?st" by (auto simp: paints_def)
  from 2(1)[OF this] have r: "rel_option (rel_prod (=) paints) (visit_all k g (g n) ?c)
    (stack_visit_all k g (g n) ?st)" .
  show ?case
  proof (cases "visit_all k g (g n) ?c")
    case (Some p)
    with r obtain b c' v s where p: "p = (b, c')" "stack_visit_all k g (g n) ?st = Some (b, v, s)"
      "paints c' (v, s)"
      by (cases p) (auto simp: option_rel_Some1)
    have "n \<in> grays c'" if "\<not> b" using visit_frame(2)[of k g "g n" ?c c'] Some p(1) that by auto
    then have "\<not> b \<Longrightarrow> paints (paint n Black c') (v, filter (\<lambda>x. x \<noteq> n) s)"
      using p(3) by (auto simp: paints_def grays_def split: if_splits)
    with Some p show ?thesis by auto
  qed (use r in auto)
next
  case (4 k g m ms visited stack)
  show ?case
  proof (cases "m \<in> set visited")
    case False
    with 4(4) have w: "colour_of c m = White" by (simp add: paints_def)
    from 4(1)[OF False 4(4) w] have r: "rel_option (rel_prod (=) paints) (visit k g m c)
      (stack_visit k g m (visited, stack))" .
    show ?thesis
    proof (cases "visit k g m c")
      case (Some p)
      with r obtain b c' st' where p: "p = (b, c')" "stack_visit k g m (visited, stack) = Some (b, st')"
        "paints c' st'"
        by (cases p) (auto simp: option_rel_Some1)
      with 4(2)[OF False p(2) refl _ p(3)] Some False w show ?thesis by auto
    qed (use r False w in auto)
  next
    case True
    with 4(3,4) show ?thesis by (auto simp: paints_def)
  qed
qed auto

lemma stack_roots_simulates:
  "paints c st \<Longrightarrow> stack_roots k g ns st = visit_roots k g ns c"
proof (induction ns arbitrary: c st)
  case (Cons n ns)
  have "n \<notin> set (fst st) \<longleftrightarrow> colour_of c n = White"
    using Cons.prems by (auto simp: paints_def split: if_splits)
  moreover have "rel_option (rel_prod (=) paints) (visit k g n c) (stack_visit k g n st)"
    if "colour_of c n = White" using stack_visit_simulates(1)[OF Cons.prems that] .
  ultimately show ?case using Cons
    by (cases "visit k g n c"; cases "stack_visit k g n st") (auto split: prod.splits)
qed simp

lemma stack_roots_visit_roots: "stack_roots k g ns ([], []) = visit_roots k g ns Map.empty"
  by (rule stack_roots_simulates) (simp add: paints_def)

section \<open>The breadth first search is exact\<close>

lemma bfs_sound: "bfs k g goal visited q = Some True \<Longrightarrow> \<exists>x \<in> set q. (x, goal) \<in> (edge_rel g)\<^sup>*"
proof (induction k g goal visited q rule: bfs.induct)
  case (2 k g goal visited x q)
  show ?case
  proof (cases "x = goal \<or> x \<in> set visited")
    case False
    with 2(3) obtain k' where k: "k = Suc k'"
      "bfs k' g goal (x # visited) (q @ filter (\<lambda>y. y \<notin> set (x # visited)) (g x)) = Some True"
      by (cases k) auto
    with 2(2)[of k'] False obtain y where y: "y \<in> set q \<union> set (g x)" "(y, goal) \<in> (edge_rel g)\<^sup>*"
      by auto
    then show ?thesis
      by (auto simp: edge_rel_def intro: converse_rtrancl_into_rtrancl)
  qed (use 2 in \<open>auto split: if_splits\<close>)
qed simp

lemma bfs_complete:
  assumes "bfs k g goal visited q = Some False" "goal \<notin> set visited"
    "\<And>v. v \<in> set visited \<Longrightarrow> set (g v) \<subseteq> set visited \<union> set q"
  shows "\<forall>x \<in> set visited \<union> set q. (x, goal) \<notin> (edge_rel g)\<^sup>*"
  using assms
proof (induction k g goal visited q rule: bfs.induct)
  case (1 k g goal visited)
  then show ?case using closed_trancl [where S = "set visited"] by fastforce
next
  case (2 k g goal visited x q)
  then have ne: "x \<noteq> goal" by auto
  show ?case
  proof (cases "x \<in> set visited")
    case True
    with 2(1)[OF ne True] 2(3-) ne show ?thesis by (auto dest: subsetD)
  next
    case False
    with 2(3) ne obtain k' where k: "k = Suc k'"
      "bfs k' g goal (x # visited) (q @ filter (\<lambda>y. y \<notin> set (x # visited)) (g x)) = Some False"
      by (cases k) auto
    have "\<forall>y \<in> set (x # visited) \<union> set (q @ filter (\<lambda>y. y \<notin> set (x # visited)) (g x)).
        (y, goal) \<notin> (edge_rel g)\<^sup>*"
    proof (rule 2(2)[OF ne False k])
      fix v assume "v \<in> set (x # visited)"
      then show "set (g v) \<subseteq> set (x # visited) \<union> set (q @ filter (\<lambda>y. y \<notin> set (x # visited)) (g x))"
        using 2(5)[of v] by auto
    qed (use 2(4) ne in simp)
    then show ?thesis by auto
  qed
qed

lemma bfs_fuel:
  "closed_graph N g \<Longrightarrow> set q \<subseteq> N \<Longrightarrow> card (N - set visited) \<le> k \<Longrightarrow> bfs k g goal visited q \<noteq> None"
proof (induction k g goal visited q rule: bfs.induct)
  case (2 k g goal visited x q)
  show ?case
  proof (cases "x = goal \<or> x \<in> set visited")
    case False
    then have "x \<in> N - set visited" using 2(4) by auto
    moreover have "finite (N - set visited)" using 2(3) by (simp add: closed_graph_def)
    moreover have "N - set (x # visited) = N - set visited - {x}" by auto
    ultimately have "card (N - set visited) = Suc (card (N - set (x # visited)))"
      using card.remove by metis
    with 2(5) have "card (N - set (x # visited)) < k" by linarith
    then obtain k' where k: "k = Suc k'" "card (N - set (x # visited)) \<le> k'"
      using less_imp_Suc_add by (metis Suc_diff_1 less_Suc_eq_le not_less_zero neq0_conv)
    have "set (q @ filter (\<lambda>y. y \<notin> set (x # visited)) (g x)) \<subseteq> N"
      using 2(3,4) by (auto simp: closed_graph_def)
    from 2(2)[OF _ _ k(1) 2(3) this k(2)] False k(1) show ?thesis by simp
  qed (use 2 in auto)
qed simp

theorem bfs_reachable:
  assumes "closed_graph N g" "card N \<le> k" "start \<in> N"
  shows "bfs k g goal [] [start] = Some ((start, goal) \<in> (edge_rel g)\<^sup>*)"
proof -
  obtain b where b: "bfs k g goal [] [start] = Some b"
    using bfs_fuel [OF assms(1), of "[start]" "[]" k goal] assms by auto
  show ?thesis
  proof (cases b)
    case True
    with b bfs_sound [of k g goal "[]" "[start]"] show ?thesis by simp
  next
    case False
    with b bfs_complete [of k g goal "[]" "[start]"] show ?thesis by simp
  qed
qed

end
