(* ===== verification/Workflow_Dag.thy ===== *)
theory Workflow_Dag
  imports Graph_Search
begin

text \<open>
  Package \<open>internal/workflow/engine\<close>: the workflow graph (\<open>types.go\<close>: \<open>DAG\<close>, \<open>NewDAG\<close>,
  \<open>GetExecutionOrder\<close>), its change events (\<open>graph_events.go\<close>) and the graph that is edited while it
  runs (\<open>mutable_dag.go\<close>). A step is its id, its dependencies and the rest of its fields, which the
  graph never reads (\<open>'b\<close>). Steps are values: the graph is taken to own the steps it is given. Every
  method runs under the mutex and is one atomic step; \<open>now\<close> is what \<open>time.Now\<close> returns in it, and
  \<open>cancelled\<close> says that the context is done.
\<close>

section \<open>Steps and graphs\<close>

record 'b wf_step =
  st_id :: string
  st_deps :: "string list"
  st_body :: 'b

record dag_node =
  n_step :: string
  n_in :: int
  n_out :: int

record dag =
  d_nodes :: "string \<rightharpoonup> dag_node"
  d_edges :: "string \<rightharpoonup> string list"

datatype wf_error =
    ErrInvalidDependency
  | ErrCycleDetected
  | ErrDuplicateId
  | ErrNodeNotFound
  | ErrNodeHasDependents
  | ErrDuplicateEdge
  | ErrEdgeNotFound
  | ErrStepNil
  | ErrStepIdEmpty
  | ErrContextDone

text \<open>Reading a missing key gives the nil slice.\<close>

definition targets :: "dag \<Rightarrow> string \<Rightarrow> string list" where
  "targets d n = (case d_edges d n of None \<Rightarrow> [] | Some ts \<Rightarrow> ts)"

definition node_count :: "dag \<Rightarrow> nat" where
  "node_count d = card (dom (d_nodes d))"

definition bump_in :: "string \<Rightarrow> int \<Rightarrow> dag \<Rightarrow> dag" where
  "bump_in n i d =
     (case d_nodes d n of
        None \<Rightarrow> d | Some x \<Rightarrow> d\<lparr>d_nodes := (d_nodes d)(n \<mapsto> x\<lparr>n_in := n_in x + i\<rparr>)\<rparr>)"

definition bump_out :: "string \<Rightarrow> int \<Rightarrow> dag \<Rightarrow> dag" where
  "bump_out n i d =
     (case d_nodes d n of
        None \<Rightarrow> d | Some x \<Rightarrow> d\<lparr>d_nodes := (d_nodes d)(n \<mapsto> x\<lparr>n_out := n_out x + i\<rparr>)\<rparr>)"

definition set_targets :: "string \<Rightarrow> string list \<Rightarrow> dag \<Rightarrow> dag" where
  "set_targets n ts d = d\<lparr>d_edges := (d_edges d)(n \<mapsto> ts)\<rparr>"

text \<open>An edge with its two degree counters, added and taken away.\<close>

definition link :: "string \<Rightarrow> string \<Rightarrow> dag \<Rightarrow> dag" where
  "link a b d = bump_out a 1 (bump_in b 1 (set_targets a (targets d a @ [b]) d))"

definition unlink :: "string \<Rightarrow> string \<Rightarrow> dag \<Rightarrow> dag" where
  "unlink a b d = bump_in b (-1) (bump_out a (-1) (set_targets a (remove1 b (targets d a)) d))"

definition add_dag_node :: "string \<Rightarrow> dag \<Rightarrow> dag" where
  "add_dag_node n d = d\<lparr>d_nodes := (d_nodes d)(n \<mapsto> \<lparr>n_step = n, n_in = 0, n_out = 0\<rparr>)\<rparr>"

definition del_dag_node :: "string \<Rightarrow> dag \<Rightarrow> dag" where
  "del_dag_node n d = d\<lparr>d_nodes := (d_nodes d)(n := None)\<rparr>"

section \<open>Building a graph from steps\<close>

fun add_nodes :: "'b wf_step list \<Rightarrow> dag \<Rightarrow> wf_error + dag" where
  "add_nodes [] d = Inr d"
| "add_nodes (s # ss) d =
     (let n = trim_space (st_id s) in
      if n = '''' then Inl ErrStepIdEmpty
      else if d_nodes d n \<noteq> None then Inl ErrDuplicateId
      else add_nodes ss (add_dag_node n d))"

fun link_deps :: "string \<Rightarrow> string list \<Rightarrow> string list \<Rightarrow> dag \<Rightarrow> wf_error + dag" where
  "link_deps n [] seen d = Inr d"
| "link_deps n (dep # deps) seen d =
     (let p = trim_space dep in
      if p = '''' \<or> p \<in> set seen then link_deps n deps seen d
      else if d_nodes d p = None then Inl ErrInvalidDependency
      else link_deps n deps (p # seen) (link p n d))"

fun link_steps :: "'b wf_step list \<Rightarrow> dag \<Rightarrow> wf_error + dag" where
  "link_steps [] d = Inr d"
| "link_steps (s # ss) d =
     (case link_deps (trim_space (st_id s)) (st_deps s) [] d of
        Inl e \<Rightarrow> Inl e | Inr d1 \<Rightarrow> link_steps ss d1)"

text \<open>\<open>hasCycle\<close>; \<open>ord\<close> is the order of the node map. \<open>None\<close> would be a search that ran out of fuel.\<close>

definition has_cycle :: "string list \<Rightarrow> dag \<Rightarrow> bool option" where
  "has_cycle ord d = stack_roots (node_count d) (targets d) (range_keys (d_nodes d) ord) ([], [])"

definition empty_dag :: dag where
  "empty_dag = \<lparr>d_nodes = Map.empty, d_edges = Map.empty\<rparr>"

definition new_dag :: "string list \<Rightarrow> 'b wf_step list \<Rightarrow> wf_error + dag" where
  "new_dag ord steps =
     (case add_nodes steps empty_dag of
        Inl e \<Rightarrow> Inl e
      | Inr d1 \<Rightarrow>
          (case link_steps steps d1 of
             Inl e \<Rightarrow> Inl e
           | Inr d2 \<Rightarrow> if has_cycle ord d2 \<noteq> Some False then Inl ErrCycleDetected else Inr d2))"

section \<open>Execution order\<close>

definition degree_read :: "(string \<rightharpoonup> int) \<Rightarrow> string \<Rightarrow> int" where
  "degree_read m n = (case m n of None \<Rightarrow> 0 | Some i \<Rightarrow> i)"

fun relax :: "string list \<Rightarrow> (string \<rightharpoonup> int) \<times> string list \<Rightarrow> (string \<rightharpoonup> int) \<times> string list" where
  "relax [] st = st"
| "relax (m # ms) (deg, q) =
     (let i = degree_read deg m - 1
      in relax ms (deg(m \<mapsto> i), if i = 0 then q @ [m] else q))"

text \<open>
  The loop: \<open>choice r l\<close> is the index taken from a queue of length \<open>l\<close> when \<open>r\<close> nodes are out.
\<close>

fun order_loop ::
  "nat \<Rightarrow> (nat \<Rightarrow> nat \<Rightarrow> nat) \<Rightarrow> adjacency \<Rightarrow> (string \<rightharpoonup> int) \<Rightarrow> string list \<Rightarrow> string list \<Rightarrow> string list option"
  where
  "order_loop k choice g deg q res =
     (if q = [] then Some res
      else (case k of
              0 \<Rightarrow> None
            | Suc k' \<Rightarrow>
                (let i = choice (length res) (length q);
                     n = q ! i;
                     p = relax (g n) (deg, take i q @ drop (Suc i) q)
                 in order_loop k' choice g (fst p) (snd p) (res @ [n]))))"

declare order_loop.simps [simp del]

definition execution_order_by ::
  "(nat \<Rightarrow> nat \<Rightarrow> nat) \<Rightarrow> string list \<Rightarrow> dag \<Rightarrow> wf_error + string list" where
  "execution_order_by choice ord d =
     (let deg = (\<lambda>n. map_option n_in (d_nodes d n));
          q = [n \<leftarrow> range_keys (d_nodes d) ord. degree_read deg n = 0]
      in case order_loop (node_count d) choice (targets d) deg q [] of
           None \<Rightarrow> Inl ErrCycleDetected
         | Some res \<Rightarrow> if length res \<noteq> node_count d then Inl ErrCycleDetected else Inr res)"

text \<open>\<open>GetExecutionOrder\<close> of \<open>DAG\<close> takes the head of the queue.\<close>

definition execution_order :: "string list \<Rightarrow> dag \<Rightarrow> wf_error + string list" where
  "execution_order = execution_order_by (\<lambda>r l. 0)"

section \<open>Change events\<close>

datatype change_type = ChangeAddNode | ChangeRemoveNode | ChangeAddEdge | ChangeRemoveEdge | ChangeReplaceNode

record 'b graph_event =
  ge_type :: change_type
  ge_node :: string
  ge_old :: string
  ge_from :: string
  ge_to :: string
  ge_step :: "'b wf_step option"
  ge_at :: time
  ge_success :: bool
  ge_error :: "wf_error option"

definition graph_event_buffer_size :: nat where
  "graph_event_buffer_size = 64"

text \<open>A subscriber's channel is the list of the events in its buffer.\<close>

record 'b hub =
  h_subs :: "string \<rightharpoonup> 'b graph_event list"
  h_next :: nat

definition new_hub :: "'b hub" where
  "new_hub = \<lparr>h_subs = Map.empty, h_next = 0\<rparr>"

definition hub_subscribe :: "'b hub \<Rightarrow> string \<times> 'b hub" where
  "hub_subscribe h =
     (let n = Suc (h_next h); sid = ''sub-'' @ go_itoa n
      in (sid, h\<lparr>h_next := n, h_subs := (h_subs h)(sid \<mapsto> [])\<rparr>))"

definition hub_unsubscribe :: "string \<Rightarrow> 'b hub \<Rightarrow> 'b hub" where
  "hub_unsubscribe sid h = h\<lparr>h_subs := (h_subs h)(sid := None)\<rparr>"

definition offer :: "'b graph_event \<Rightarrow> 'b graph_event list \<Rightarrow> 'b graph_event list" where
  "offer ev buf = (if length buf < graph_event_buffer_size then buf @ [ev] else buf)"

definition hub_publish :: "'b graph_event \<Rightarrow> 'b hub \<Rightarrow> 'b hub" where
  "hub_publish ev h = h\<lparr>h_subs := (\<lambda>sid. map_option (offer ev) (h_subs h sid))\<rparr>"

text \<open>A subscriber taking the next event off its channel.\<close>

definition hub_receive :: "string \<Rightarrow> 'b hub \<Rightarrow> 'b graph_event option \<times> 'b hub" where
  "hub_receive sid h =
     (case h_subs h sid of
        Some (ev # buf) \<Rightarrow> (Some ev, h\<lparr>h_subs := (h_subs h)(sid \<mapsto> buf)\<rparr>)
      | _ \<Rightarrow> (None, h))"

definition subscriber_count :: "'b hub \<Rightarrow> nat" where
  "subscriber_count h = card (dom (h_subs h))"

end
