(* ===== verification/Mutable_Dag.thy ===== *)
theory Mutable_Dag
  imports Workflow_Dag
begin

text \<open>
  Package \<open>internal/workflow/engine\<close>, \<open>mutable_dag.go\<close>: the workflow graph under edits. Loops over a Go
  map whose passes touch only their own key are written as one update of all keys; the others
  take the order of the map.
\<close>

record 'b mdag =
  m_dag :: dag
  m_steps :: "string \<rightharpoonup> 'b wf_step"
  m_version :: u64
  m_hub :: "'b hub"
  m_scheduler :: string

text \<open>
  The orders in which the runtime visits the maps an edit ranges over: the edges, the steps, the
  simulated adjacency list of a replacement, and the edges after a replacement.
\<close>

record map_orders =
  mo_edges :: "string list"
  mo_steps :: "string list"
  mo_adj :: "string list"
  mo_after :: "string list"

section \<open>Construction and reading\<close>

definition new_mutable_dag :: "string list \<Rightarrow> 'b wf_step list \<Rightarrow> wf_error + 'b mdag" where
  "new_mutable_dag ord steps =
     (case new_dag ord steps of
        Inl e \<Rightarrow> Inl e
      | Inr d \<Rightarrow> Inr \<lparr>m_dag = d, m_steps = fold (\<lambda>s sm. sm(st_id s \<mapsto> s)) steps Map.empty,
                     m_version = 0, m_hub = new_hub, m_scheduler = ''''\<rparr>)"

definition read_deps :: "string \<Rightarrow> 'b mdag \<Rightarrow> string list" where
  "read_deps sid m = (case m_steps m sid of None \<Rightarrow> [] | Some s \<Rightarrow> st_deps s)"

definition snapshot_with_steps :: "'b mdag \<Rightarrow> dag \<times> (string \<rightharpoonup> 'b wf_step)" where
  "snapshot_with_steps m = (m_dag m, m_steps m)"

definition edge_count :: "string list \<Rightarrow> 'b mdag \<Rightarrow> nat" where
  "edge_count ord m = sum_list (map (\<lambda>n. length (targets (m_dag m) n)) (range_keys (d_edges (m_dag m)) ord))"

definition step_list :: "string list \<Rightarrow> 'b mdag \<Rightarrow> 'b wf_step list" where
  "step_list ord m = List.map_filter (m_steps m) ord"

definition would_create_cycle :: "string \<Rightarrow> string \<Rightarrow> dag \<Rightarrow> bool" where
  "would_create_cycle a b d \<longleftrightarrow> bfs (node_count d) (targets d) a [] [b] \<noteq> Some False"

definition default_scheduler :: string where
  "default_scheduler = ''*graph.DefaultScheduler''"

text \<open>\<open>nanos r\<close> is what \<open>time.Now().UnixNano()\<close> gives when \<open>r\<close> nodes are out.\<close>

definition scheduler_choice :: "string \<Rightarrow> (nat \<Rightarrow> int) \<Rightarrow> nat \<Rightarrow> nat \<Rightarrow> nat" where
  "scheduler_choice sched nanos r l =
     (if sched \<noteq> '''' \<and> sched \<noteq> default_scheduler \<and> l > 1 then nat (\<bar>nanos r\<bar> mod int l) else 0)"

definition live_execution_order :: "(nat \<Rightarrow> int) \<Rightarrow> string list \<Rightarrow> 'b mdag \<Rightarrow> wf_error + string list" where
  "live_execution_order nanos ord m =
     execution_order_by (scheduler_choice (m_scheduler m) nanos) ord (m_dag m)"

section \<open>Edits\<close>

definition blank_event :: "change_type \<Rightarrow> time \<Rightarrow> 'b graph_event" where
  "blank_event ct now = \<lparr>ge_type = ct, ge_node = '''', ge_old = '''', ge_from = '''', ge_to = '''',
     ge_step = None, ge_at = now, ge_success = True, ge_error = None\<rparr>"

definition refused :: "wf_error \<Rightarrow> 'b graph_event \<Rightarrow> 'b graph_event" where
  "refused e ev = ev\<lparr>ge_success := False, ge_error := Some e\<rparr>"

definition publish_change :: "'b graph_event \<Rightarrow> 'b mdag \<Rightarrow> 'b mdag" where
  "publish_change ev m = m\<lparr>m_hub := hub_publish ev (m_hub m)\<rparr>"

text \<open>The dependencies of a node being added, with the edges to take back when one is refused.\<close>

definition roll_back :: "string \<Rightarrow> string list \<Rightarrow> dag \<Rightarrow> dag" where
  "roll_back n added d = del_dag_node n (fold (\<lambda>p. unlink p n) added d)"

fun add_deps ::
  "string \<Rightarrow> string list \<Rightarrow> string list \<Rightarrow> string list \<Rightarrow> dag \<Rightarrow> (wf_error, unit, dag) outcome" where
  "add_deps n [] seen added d = (Inr (), d)"
| "add_deps n (dep # deps) seen added d =
     (let p = trim_space dep in
      if p = '''' \<or> p \<in> set seen then add_deps n deps seen added d
      else if d_nodes d p = None then (Inl ErrInvalidDependency, roll_back n added d)
      else if would_create_cycle p n d then (Inl ErrCycleDetected, roll_back n added d)
      else add_deps n deps (p # seen) (added @ [p]) (link p n d))"

definition add_node ::
  "bool \<Rightarrow> time \<Rightarrow> 'b wf_step option \<Rightarrow> 'b mdag \<Rightarrow> (wf_error, unit, 'b mdag) outcome" where
  "add_node cancelled now step m =
     (if cancelled then (Inl ErrContextDone, m)
      else (case step of
        None \<Rightarrow> (Inl ErrStepNil, m)
      | Some s \<Rightarrow>
          (let n = trim_space (st_id s) in
           if n = '''' then (Inl ErrStepIdEmpty, m)
           else if d_nodes (m_dag m) n \<noteq> None then (Inl ErrDuplicateId, m)
           else (case add_deps n (st_deps s) [] [] (add_dag_node n (m_dag m)) of
                   (Inl e, d) \<Rightarrow> (Inl e, m\<lparr>m_dag := d\<rparr>)
                 | (Inr u, d) \<Rightarrow>
                     (Inr (), publish_change ((blank_event ChangeAddNode now)\<lparr>ge_node := n, ge_step := Some s\<rparr>)
                        (m\<lparr>m_dag := d, m_steps := (m_steps m)(n \<mapsto> s), m_version := m_version m + 1\<rparr>))))))"

definition has_dependents :: "string list \<Rightarrow> string \<Rightarrow> 'b mdag \<Rightarrow> bool" where
  "has_dependents ord n m \<longleftrightarrow>
     list_ex (\<lambda>k. case m_steps m k of
         None \<Rightarrow> False | Some s \<Rightarrow> st_id s \<noteq> n \<and> n \<in> set (st_deps s)) (range_keys (m_steps m) ord)"

definition drop_target :: "string \<Rightarrow> string \<Rightarrow> dag \<Rightarrow> dag" where
  "drop_target n src d =
     (let ts = targets d src
      in set_targets src (filter (\<lambda>t. t \<noteq> n) ts) (bump_out src (- int (count_list ts n)) d))"

text \<open>Removing a node's edges: those it is the source of, then those it is a target of.\<close>

definition detach :: "string list \<Rightarrow> string \<Rightarrow> dag \<Rightarrow> dag" where
  "detach ord n d =
     (let d1 = fold (\<lambda>t. bump_in t (-1)) (targets d n) d;
          d2 = d1\<lparr>d_edges := (d_edges d1)(n := None)\<rparr>
      in fold (drop_target n) (range_keys (d_edges d2) ord) d2)"

definition remove_node ::
  "map_orders \<Rightarrow> bool \<Rightarrow> time \<Rightarrow> string \<Rightarrow> 'b mdag \<Rightarrow> (wf_error, unit, 'b mdag) outcome" where
  "remove_node mo cancelled now n m =
     (let ev = (blank_event ChangeRemoveNode now)\<lparr>ge_node := n\<rparr> in
      if cancelled then (Inl ErrContextDone, m)
      else if d_nodes (m_dag m) n = None then (Inl ErrNodeNotFound, m)
      else if has_dependents (mo_steps mo) n m
      then (Inl ErrNodeHasDependents, publish_change (refused ErrNodeHasDependents ev) m)
      else (Inr (), publish_change ev
              (m\<lparr>m_dag := del_dag_node n (detach (mo_edges mo) n (m_dag m)),
                 m_steps := (m_steps m)(n := None), m_version := m_version m + 1\<rparr>)))"

definition edit_deps :: "string \<Rightarrow> (string list \<Rightarrow> string list) \<Rightarrow> 'b mdag \<Rightarrow> 'b mdag" where
  "edit_deps n g m =
     (case m_steps m n of
        None \<Rightarrow> m | Some s \<Rightarrow> m\<lparr>m_steps := (m_steps m)(n \<mapsto> s\<lparr>st_deps := g (st_deps s)\<rparr>)\<rparr>)"

definition add_edge ::
  "bool \<Rightarrow> time \<Rightarrow> string \<Rightarrow> string \<Rightarrow> 'b mdag \<Rightarrow> (wf_error, unit, 'b mdag) outcome" where
  "add_edge cancelled now a b m =
     (let ev = (blank_event ChangeAddEdge now)\<lparr>ge_from := a, ge_to := b\<rparr> in
      if cancelled then (Inl ErrContextDone, m)
      else if d_nodes (m_dag m) a = None then (Inl ErrNodeNotFound, m)
      else if d_nodes (m_dag m) b = None then (Inl ErrNodeNotFound, m)
      else if b \<in> set (targets (m_dag m) a) then (Inl ErrDuplicateEdge, m)
      else if would_create_cycle a b (m_dag m)
      then (Inl ErrCycleDetected, publish_change (refused ErrCycleDetected ev) m)
      else (Inr (), publish_change ev
              (edit_deps b (\<lambda>deps. deps @ [a])
                (m\<lparr>m_dag := link a b (m_dag m), m_version := m_version m + 1\<rparr>))))"

definition remove_edge ::
  "bool \<Rightarrow> time \<Rightarrow> string \<Rightarrow> string \<Rightarrow> 'b mdag \<Rightarrow> (wf_error, unit, 'b mdag) outcome" where
  "remove_edge cancelled now a b m =
     (if cancelled then (Inl ErrContextDone, m)
      else if d_nodes (m_dag m) a = None then (Inl ErrNodeNotFound, m)
      else if d_nodes (m_dag m) b = None then (Inl ErrNodeNotFound, m)
      else if b \<notin> set (targets (m_dag m) a) then (Inl ErrEdgeNotFound, m)
      else (Inr (), publish_change ((blank_event ChangeRemoveEdge now)\<lparr>ge_from := a, ge_to := b\<rparr>)
              (edit_deps b (filter (\<lambda>dep. dep \<noteq> a))
                (m\<lparr>m_dag := unlink a b (m_dag m), m_version := m_version m + 1\<rparr>))))"

section \<open>Replacing a node\<close>

type_synonym adj_map = "string \<rightharpoonup> string list"

definition read_adj :: "adj_map \<Rightarrow> adjacency" where
  "read_adj adj n = (case adj n of None \<Rightarrow> [] | Some ts \<Rightarrow> ts)"

definition append_to :: "string \<Rightarrow> string \<Rightarrow> adj_map \<Rightarrow> adj_map" where
  "append_to n t adj = adj(n \<mapsto> read_adj adj n @ [t])"

text \<open>\<open>hasCycleInAdjList\<close>.\<close>

definition has_cycle_in_adj :: "string list \<Rightarrow> adj_map \<Rightarrow> bool option" where
  "has_cycle_in_adj ord adj = visit_roots (card (dom adj)) (read_adj adj) (range_keys adj ord) Map.empty"

definition renamed :: "string \<Rightarrow> string \<Rightarrow> string \<Rightarrow> string" where
  "renamed old new n = (if n = old \<and> new \<noteq> old then new else n)"

definition sim_nodes :: "string \<Rightarrow> string \<Rightarrow> dag \<Rightarrow> adj_map" where
  "sim_nodes old new d n =
     (if new \<noteq> old \<and> n = new then Some []
      else if new \<noteq> old \<and> n = old then None
      else if d_nodes d n \<noteq> None then Some [] else None)"

definition sim_source :: "string \<Rightarrow> string \<Rightarrow> dag \<Rightarrow> string \<Rightarrow> adj_map \<Rightarrow> adj_map" where
  "sim_source old new d src adj =
     (if adj (renamed old new src) = None then adj
      else fold (\<lambda>t adj. if adj (renamed old new t) = None then adj
                         else append_to (renamed old new src) (renamed old new t) adj)
             (targets d src) adj)"

text \<open>The graph as it would be, on which the cycle check runs.\<close>

definition simulated :: "string list \<Rightarrow> string \<Rightarrow> string \<Rightarrow> string list \<Rightarrow> dag \<Rightarrow> adj_map" where
  "simulated ord old new deps d =
     fold (\<lambda>dep. append_to dep new) deps
       (fold (sim_source old new d) (range_keys (d_edges d) ord) (sim_nodes old new d))"

definition recalculate_degrees :: "string list \<Rightarrow> dag \<Rightarrow> dag" where
  "recalculate_degrees ord d =
     fold (\<lambda>src d. case d_nodes d src of
         None \<Rightarrow> d
       | Some x \<Rightarrow>
           fold (\<lambda>t. bump_in t 1) (targets d src)
             (d\<lparr>d_nodes := (d_nodes d)(src \<mapsto> x\<lparr>n_out := int (length (targets d src))\<rparr>)\<rparr>))
       (range_keys (d_edges d) ord)
       (d\<lparr>d_nodes := (\<lambda>n. map_option (\<lambda>x. x\<lparr>n_in := 0, n_out := 0\<rparr>) (d_nodes d n))\<rparr>)"

definition migrate_node :: "string \<Rightarrow> string \<Rightarrow> dag \<Rightarrow> dag" where
  "migrate_node old new d =
     (let es = ((d_edges d)(new \<mapsto> targets d old))(old := None)
      in \<lparr>d_nodes = ((d_nodes d)(new \<mapsto> \<lparr>n_step = new, n_in = 0, n_out = 0\<rparr>))(old := None),
          d_edges = (\<lambda>n. map_option (map (renamed old new)) (es n))\<rparr>)"

definition migrate_steps ::
  "string \<Rightarrow> string \<Rightarrow> 'b wf_step \<Rightarrow> (string \<rightharpoonup> 'b wf_step) \<Rightarrow> (string \<rightharpoonup> 'b wf_step)" where
  "migrate_steps old new s sm =
     ((\<lambda>n. map_option (\<lambda>x. x\<lparr>st_deps := map (renamed old new) (st_deps x)\<rparr>) (sm n))(old := None))(new \<mapsto> s)"

definition add_new_deps :: "string \<Rightarrow> string list \<Rightarrow> dag \<Rightarrow> dag" where
  "add_new_deps n deps d =
     fold (\<lambda>dep d. if n \<in> set (targets d dep) then d else set_targets dep (targets d dep @ [n]) d) deps d"

definition replace_node ::
  "map_orders \<Rightarrow> bool \<Rightarrow> time \<Rightarrow> string \<Rightarrow> 'b wf_step option \<Rightarrow> 'b mdag
    \<Rightarrow> (wf_error, unit, 'b mdag) outcome" where
  "replace_node mo cancelled now old step m =
     (if cancelled then (Inl ErrContextDone, m)
      else (case step of
        None \<Rightarrow> (Inl ErrStepNil, m)
      | Some s \<Rightarrow>
          (let d = m_dag m; new = st_id s in
           if new = '''' then (Inl ErrStepIdEmpty, m)
           else if d_nodes d old = None then (Inl ErrNodeNotFound, m)
           else if new \<noteq> old \<and> d_nodes d new \<noteq> None then (Inl ErrDuplicateId, m)
           else if new \<in> set (st_deps s) then (Inl ErrCycleDetected, m)
           else if list_ex (\<lambda>dep. d_nodes d dep = None) (st_deps s) then (Inl ErrInvalidDependency, m)
           else if has_cycle_in_adj (mo_adj mo) (simulated (mo_edges mo) old new (st_deps s) d) \<noteq> Some False
           then (Inl ErrCycleDetected, m)
           else
             (let m1 = (if new \<noteq> old
                        then m\<lparr>m_dag := migrate_node old new d, m_steps := migrate_steps old new s (m_steps m)\<rparr>
                        else m\<lparr>m_dag := add_new_deps old (st_deps s) d, m_steps := (m_steps m)(old \<mapsto> s)\<rparr>)
              in (Inr (), publish_change
                    ((blank_event ChangeReplaceNode now)\<lparr>ge_node := new, ge_old := old, ge_step := Some s\<rparr>)
                    (m1\<lparr>m_dag := recalculate_degrees (mo_after mo) (m_dag m1),
                        m_version := m_version m + 1\<rparr>))))))"

end
