(* ===== verification/Workflow_Inv.thy ===== *)
theory Workflow_Inv
  imports Mutable_Dag
begin

text \<open>
  Well-formedness of workflow graphs: the ends of edges are nodes, no edge twice, the degree counters
  are the degrees, no cycle. Every building block of the edits keeps it.
\<close>

section \<open>What the building blocks do\<close>

lemma nodes_bump_in [simp]:
  "d_nodes (bump_in n i d) m =
     (if m = n then map_option (\<lambda>x. x\<lparr>n_in := n_in x + i\<rparr>) (d_nodes d m) else d_nodes d m)"
  by (simp add: bump_in_def split: option.splits)

lemma nodes_bump_out [simp]:
  "d_nodes (bump_out n i d) m =
     (if m = n then map_option (\<lambda>x. x\<lparr>n_out := n_out x + i\<rparr>) (d_nodes d m) else d_nodes d m)"
  by (simp add: bump_out_def split: option.splits)

lemma edges_bump [simp]: "d_edges (bump_in n i d) = d_edges d" "d_edges (bump_out n i d) = d_edges d"
  by (simp_all add: bump_in_def bump_out_def split: option.splits)

lemma targets_bump [simp]: "targets (bump_in n i d) = targets d" "targets (bump_out n i d) = targets d"
  by (simp_all add: targets_def fun_eq_iff)

lemma dom_bump [simp]:
  "dom (d_nodes (bump_in n i d)) = dom (d_nodes d)" "dom (d_nodes (bump_out n i d)) = dom (d_nodes d)"
  by (auto simp: dom_def split: if_splits)

lemma set_targets_simps [simp]:
  "d_nodes (set_targets n ts d) = d_nodes d"
  "d_edges (set_targets n ts d) = (d_edges d)(n \<mapsto> ts)"
  "targets (set_targets n ts d) m = (if m = n then ts else targets d m)"
  by (simp_all add: set_targets_def targets_def)

lemma targets_link: "targets (link a b d) m = (if m = a then targets d a @ [b] else targets d m)"
  by (simp add: link_def)

lemma targets_unlink: "targets (unlink a b d) m = (if m = a then remove1 b (targets d a) else targets d m)"
  by (simp add: unlink_def)

lemma nodes_link:
  "d_nodes (link a b d) m = map_option (\<lambda>x. x\<lparr>n_in := n_in x + (if m = b then 1 else 0),
     n_out := n_out x + (if m = a then 1 else 0)\<rparr>) (d_nodes d m)"
  by (cases "d_nodes d m") (auto simp: link_def)

lemma nodes_unlink:
  "d_nodes (unlink a b d) m = map_option (\<lambda>x. x\<lparr>n_in := n_in x - (if m = b then 1 else 0),
     n_out := n_out x - (if m = a then 1 else 0)\<rparr>) (d_nodes d m)"
  by (cases "d_nodes d m") (auto simp: unlink_def)

lemma dom_link [simp]:
  "dom (d_nodes (link a b d)) = dom (d_nodes d)" "dom (d_nodes (unlink a b d)) = dom (d_nodes d)"
  "dom (d_edges (link a b d)) = insert a (dom (d_edges d))"
  "dom (d_edges (unlink a b d)) = insert a (dom (d_edges d))"
  by (auto simp: link_def unlink_def)

section \<open>Well-formed graphs\<close>

definition preds :: "dag \<Rightarrow> string \<Rightarrow> string set" where
  "preds d n = {a. n \<in> set (targets d a)}"

definition node_ok :: "dag \<Rightarrow> string \<Rightarrow> dag_node \<Rightarrow> bool" where
  "node_ok d n x \<longleftrightarrow> n_step x = n \<and> n_in x = int (card (preds d n)) \<and> n_out x = int (length (targets d n))"

definition dag_shape :: "dag \<Rightarrow> bool" where
  "dag_shape d \<longleftrightarrow> finite (dom (d_nodes d)) \<and> dom (d_edges d) \<subseteq> dom (d_nodes d) \<and>
     (\<forall>n x. d_nodes d n = Some x \<longrightarrow> node_ok d n x) \<and>
     (\<forall>n. set (targets d n) \<subseteq> dom (d_nodes d) \<and> distinct (targets d n))"

abbreviation dag_edges :: "dag \<Rightarrow> (string \<times> string) set" where
  "dag_edges d \<equiv> edge_rel (targets d)"

definition dag_wf :: "dag \<Rightarrow> bool" where
  "dag_wf d \<longleftrightarrow> dag_shape d \<and> acyclic (dag_edges d)"

lemma shapeD:
  assumes "dag_shape d"
  shows "finite (dom (d_nodes d))" "dom (d_edges d) \<subseteq> dom (d_nodes d)"
    "\<And>n x. d_nodes d n = Some x \<Longrightarrow> node_ok d n x"
    "\<And>n. set (targets d n) \<subseteq> dom (d_nodes d)" "\<And>n. distinct (targets d n)"
  using assms by (auto simp: dag_shape_def)

lemma shape_no_targets: "dag_shape d \<Longrightarrow> d_nodes d n = None \<Longrightarrow> targets d n = []"
  using shapeD(2)[of d] by (auto simp: targets_def split: option.splits)

lemma shape_closed: "dag_shape d \<Longrightarrow> closed_graph (dom (d_nodes d)) (targets d)"
  using shapeD(1,4)[of d] shape_no_targets [of d] by (auto simp: closed_graph_def)

lemma preds_nodes: "dag_shape d \<Longrightarrow> preds d n \<subseteq> dom (d_nodes d)"
  using shape_no_targets by (fastforce simp: preds_def)

lemma finite_preds: "dag_shape d \<Longrightarrow> finite (preds d n)"
  using preds_nodes shapeD(1) finite_subset by blast

lemma preds_no_node: "dag_shape d \<Longrightarrow> d_nodes d n = None \<Longrightarrow> preds d n = {}"
  using shapeD(4)[of d] by (fastforce simp: preds_def)

lemma edge_ends: "dag_shape d \<Longrightarrow> (a, b) \<in> dag_edges d \<Longrightarrow> a \<in> dom (d_nodes d) \<and> b \<in> dom (d_nodes d)"
  using shapeD(4)[of d a] shape_no_targets [of d a] by (fastforce simp: edge_rel_def)

lemma empty_dag_wf [simp]: "dag_wf empty_dag"
  by (simp add: dag_wf_def dag_shape_def empty_dag_def targets_def edge_rel_def acyclic_def)

lemma add_dag_node_simps [simp]:
  "targets (add_dag_node n d) = targets d" "d_edges (add_dag_node n d) = d_edges d"
  "d_nodes (add_dag_node n d) = (d_nodes d)(n \<mapsto> \<lparr>n_step = n, n_in = 0, n_out = 0\<rparr>)"
  by (simp_all add: add_dag_node_def targets_def fun_eq_iff)

lemma shape_add_node:
  "dag_shape d \<Longrightarrow> d_nodes d n = None \<Longrightarrow> dag_shape (add_dag_node n d)"
  using preds_no_node [of d n] shape_no_targets [of d n] unfolding dag_shape_def
  by (auto simp: node_ok_def preds_def)

lemma preds_link: "preds (link a b d) m = (if m = b then insert a (preds d b) else preds d m)"
  by (auto simp: preds_def targets_link split: if_splits)

lemma edges_link: "dag_edges (link a b d) = insert (a, b) (dag_edges d)"
  by (auto simp: edge_rel_def targets_link split: if_splits)

lemma shape_link:
  assumes "dag_shape d" "a \<in> dom (d_nodes d)" "b \<in> dom (d_nodes d)" "b \<notin> set (targets d a)"
  shows "dag_shape (link a b d)"
proof -
  have "node_ok (link a b d) n y" if y: "d_nodes (link a b d) n = Some y" for n y
  proof -
    from y obtain x where x: "d_nodes d n = Some x"
      "y = x\<lparr>n_in := n_in x + (if n = b then 1 else 0), n_out := n_out x + (if n = a then 1 else 0)\<rparr>"
      by (auto simp: nodes_link)
    from shapeD(3)[OF assms(1) x(1)] have "node_ok d n x" .
    moreover have "card (insert a (preds d b)) = Suc (card (preds d b))"
      using finite_preds [OF assms(1)] assms(4) by (simp add: preds_def)
    ultimately show ?thesis using x(2) by (auto simp: node_ok_def preds_link targets_link)
  qed
  with assms show ?thesis by (auto simp: dag_shape_def targets_link split: if_splits)
qed

lemma preds_unlink:
  "dag_shape d \<Longrightarrow> preds (unlink a b d) m = (if m = b then preds d b - {a} else preds d m)"
  using shapeD(5)[of d a] by (auto simp: preds_def targets_unlink split: if_splits)

lemma edges_unlink: "dag_shape d \<Longrightarrow> dag_edges (unlink a b d) = dag_edges d - {(a, b)}"
  using shapeD(5)[of d a] by (auto simp: edge_rel_def targets_unlink split: if_splits)

lemma shape_unlink:
  assumes "dag_shape d" "b \<in> set (targets d a)"
  shows "dag_shape (unlink a b d)"
proof -
  have a: "a \<in> dom (d_nodes d)" using edge_ends [OF assms(1)] assms(2) by (auto simp: edge_rel_def)
  have "node_ok (unlink a b d) n y" if y: "d_nodes (unlink a b d) n = Some y" for n y
  proof -
    from y obtain x where x: "d_nodes d n = Some x"
      "y = x\<lparr>n_in := n_in x - (if n = b then 1 else 0), n_out := n_out x - (if n = a then 1 else 0)\<rparr>"
      by (auto simp: nodes_unlink)
    from shapeD(3)[OF assms(1) x(1)] have "node_ok d n x" .
    moreover have "card (preds d b) = Suc (card (preds d b - {a}))"
      using finite_preds [OF assms(1)] assms(2) by (intro card.remove) (auto simp: preds_def)
    moreover have "length (targets d a) = Suc (length (remove1 b (targets d a)))"
      using assms(2) by (metis One_nat_def Suc_pred length_pos_if_in_set length_remove1)
    ultimately show ?thesis
      using x(2) by (auto simp: node_ok_def preds_unlink [OF assms(1)] targets_unlink)
  qed
  moreover have "set (targets (unlink a b d) n) \<subseteq> set (targets d n)" for n
    using set_remove1_subset [of b "targets d a"] by (auto simp: targets_unlink)
  ultimately show ?thesis
    using assms(1) a unfolding dag_shape_def by (auto simp: targets_unlink)
qed

text \<open>The cycle check of an edit is exact.\<close>

lemma would_create_cycle_exact:
  "dag_shape d \<Longrightarrow> b \<in> dom (d_nodes d) \<Longrightarrow> would_create_cycle a b d \<longleftrightarrow> (b, a) \<in> (dag_edges d)\<^sup>*"
  using bfs_reachable [OF shape_closed, of d "node_count d" b a]
  by (simp add: would_create_cycle_def node_count_def)

lemma wf_link:
  "dag_wf d \<Longrightarrow> a \<in> dom (d_nodes d) \<Longrightarrow> b \<in> dom (d_nodes d) \<Longrightarrow> b \<notin> set (targets d a)
    \<Longrightarrow> \<not> would_create_cycle a b d \<Longrightarrow> dag_wf (link a b d)"
  by (simp add: dag_wf_def shape_link would_create_cycle_exact edges_link acyclic_insert)

lemma wf_unlink: "dag_wf d \<Longrightarrow> b \<in> set (targets d a) \<Longrightarrow> dag_wf (unlink a b d)"
  by (auto simp: dag_wf_def shape_unlink edges_unlink intro: acyclic_subset)

lemma wf_add_node: "dag_wf d \<Longrightarrow> d_nodes d n = None \<Longrightarrow> dag_wf (add_dag_node n d)"
  by (simp add: dag_wf_def shape_add_node)

lemma node_count_fuel: "card (dom (d_nodes d)) \<le> node_count d"
  by (simp add: node_count_def)

lemma has_cycle_exact:
  "dag_shape d \<Longrightarrow> range_order (d_nodes d) ord \<Longrightarrow> has_cycle ord d = Some (\<not> acyclic (dag_edges d))"
  unfolding has_cycle_def stack_roots_visit_roots
  by (rule visit_roots_cycle [OF shape_closed node_count_fuel])
    (auto simp: range_order_keys range_order_def)

end
