(* ===== verification/Workflow_Order.thy ===== *)
theory Workflow_Order
  imports Workflow_Inv
begin

text \<open>
  The execution order: on a graph whose counters are right, the loop of \<open>GetExecutionOrder\<close> gives a
  topological order of all nodes when there is no cycle, whatever it takes from the queue, and
  reports the cycle otherwise.
\<close>

section \<open>Releasing the successors of a node\<close>

lemma degree_upd [simp]: "degree_read (deg(m \<mapsto> i)) n = (if n = m then i else degree_read deg n)"
  by (simp add: degree_read_def)

lemma relax_spec:
  "distinct ms \<Longrightarrow>
   degree_read (fst (relax ms (deg, q))) n = degree_read deg n - (if n \<in> set ms then 1 else 0) \<and>
   snd (relax ms (deg, q)) = q @ filter (\<lambda>m. degree_read deg m = 1) ms"
proof (induction ms arbitrary: deg q)
  case (Cons m ms)
  from Cons.prems have d: "distinct ms" "m \<notin> set ms" by auto
  have "filter (\<lambda>x. degree_read (deg(m \<mapsto> degree_read deg m - 1)) x = 1) ms
      = filter (\<lambda>x. degree_read deg x = 1) ms"
    using d(2) by (intro filter_cong) auto
  with Cons.IH [OF d(1), of "deg(m \<mapsto> degree_read deg m - 1)"] d(2) show ?case
    by (simp add: Let_def del: fun_upd_apply)
qed simp

section \<open>The loop\<close>

text \<open>The edges of the nodes that are not out yet.\<close>

definition waiting :: "string set \<Rightarrow> adjacency \<Rightarrow> string list \<Rightarrow> string \<Rightarrow> string set" where
  "waiting N g res n = {a \<in> N. n \<in> set (g a) \<and> a \<notin> set res}"

text \<open>Every node of the list comes after the sources of its edges.\<close>

definition in_order :: "adjacency \<Rightarrow> string list \<Rightarrow> bool" where
  "in_order g res \<longleftrightarrow> (\<forall>xs n ys. res = xs @ n # ys \<longrightarrow> {a. n \<in> set (g a)} \<subseteq> set xs)"

definition order_inv ::
  "string set \<Rightarrow> adjacency \<Rightarrow> (string \<rightharpoonup> int) \<Rightarrow> string list \<Rightarrow> string list \<Rightarrow> bool" where
  "order_inv N g deg q res \<longleftrightarrow>
     distinct (res @ q) \<and> set res \<union> set q \<subseteq> N \<and> in_order g res \<and>
     (\<forall>n \<in> N. degree_read deg n = int (card (waiting N g res n))) \<and>
     (\<forall>n \<in> N. n \<in> set res \<union> set q \<longleftrightarrow> degree_read deg n = 0)"

lemma in_order_snoc:
  "in_order g res \<Longrightarrow> {a. n \<in> set (g a)} \<subseteq> set res \<Longrightarrow> in_order g (res @ [n])"
  unfolding in_order_def
proof (intro allI impI)
  fix xs m ys
  assume a: "\<forall>xs n ys. res = xs @ n # ys \<longrightarrow> {a. n \<in> set (g a)} \<subseteq> set xs"
    "{a. n \<in> set (g a)} \<subseteq> set res" "res @ [n] = xs @ m # ys"
  show "{a. m \<in> set (g a)} \<subseteq> set xs"
    using a by (cases ys rule: rev_cases) auto
qed

lemma take_drop_nth:
  assumes "i < length q"
  shows "distinct (take i q @ drop (Suc i) q @ [q ! i]) = distinct q"
    "set q = insert (q ! i) (set (take i q @ drop (Suc i) q))"
proof -
  have q: "q = take i q @ q ! i # drop (Suc i) q" using assms by (simp add: id_take_nth_drop)
  then show "set q = insert (q ! i) (set (take i q @ drop (Suc i) q))"
    by (metis Un_insert_right list.simps(15) set_append)
  show "distinct (take i q @ drop (Suc i) q @ [q ! i]) = distinct q"
    by (subst (4) q) auto
qed

lemma order_step:
  assumes N: "closed_graph N g" and g: "\<And>a. distinct (g a)"
    and inv: "order_inv N g deg q res" and i: "i < length q"
  shows "order_inv N g (fst (relax (g (q ! i)) (deg, take i q @ drop (Suc i) q)))
    (snd (relax (g (q ! i)) (deg, take i q @ drop (Suc i) q))) (res @ [q ! i])"
proof -
  define n where "n = q ! i"
  define q1 where "q1 = take i q @ drop (Suc i) q"
  define deg' where "deg' = fst (relax (g n) (deg, q1))"
  define q' where "q' = snd (relax (g n) (deg, q1))"
  have q: "set q = insert n (set q1)" "distinct q1" "n \<notin> set q1"
    using take_drop_nth [OF i] inv by (auto simp: n_def q1_def order_inv_def)
  from inv have I: "distinct res" "distinct q" "set res \<inter> set q = {}" "set res \<union> set q \<subseteq> N" "in_order g res"
    "\<And>m. m \<in> N \<Longrightarrow> degree_read deg m = int (card (waiting N g res m))"
    "\<And>m. m \<in> N \<Longrightarrow> m \<in> set res \<union> set q \<longleftrightarrow> degree_read deg m = 0"
    by (auto simp: order_inv_def)
  have fin: "finite (waiting N g r m)" for r m using N by (simp add: closed_graph_def waiting_def)
  have n: "n \<in> N" "n \<notin> set res" using q(1) I(3,4) by auto
  have deg': "degree_read deg' m = degree_read deg m - (if m \<in> set (g n) then 1 else 0)" for m
    using relax_spec [OF g, of n deg q1 m] by (simp add: deg'_def)
  have q': "q' = q1 @ filter (\<lambda>m. degree_read deg m = 1) (g n)"
    using relax_spec [OF g, of n deg q1] by (simp add: q'_def)
  have wait: "waiting N g (res @ [n]) m = waiting N g res m - {n}" for m by (auto simp: waiting_def)
  have nw: "n \<in> waiting N g res m \<longleftrightarrow> m \<in> set (g n)" for m using n by (auto simp: waiting_def)
  have pos: "degree_read deg m > 0" if "m \<in> set (g n)" for m
  proof -
    have m: "m \<in> N" using N that by (auto simp: closed_graph_def)
    have "card (waiting N g res m) > 0" using nw that fin card_gt_0_iff by blast
    with I(6)[OF m] show ?thesis by simp
  qed
  have fresh: "m \<notin> set res \<union> set q" if "m \<in> set (g n)" for m
    using pos [OF that] I(7)[of m] N that by (auto simp: closed_graph_def)
  have cards: "degree_read deg' m = int (card (waiting N g (res @ [n]) m))" if m: "m \<in> N" for m
    using I(6)[OF m] nw [of m] fin [of res m] pos [of m] unfolding deg' wait
    by (auto simp: card_Diff_singleton_if)
  have "waiting N g res n = {}" using I(6,7)[OF n(1)] q(1) fin [of res n] by simp
  then have "{a. n \<in> set (g a)} \<subseteq> set res"
    using N by (auto simp: waiting_def closed_graph_def)
  with I(5) have order: "in_order g (res @ [n])" by (rule in_order_snoc)
  have zero: "m \<in> set (res @ [n]) \<union> set q' \<longleftrightarrow> degree_read deg' m = 0" if m: "m \<in> N" for m
    using I(7)[OF m] fresh [of m] pos [of m] q(1) unfolding deg' q' by auto
  have "distinct ((res @ [n]) @ q')"
    unfolding q' using I(1,2,3) q fresh n g [of n] by auto
  moreover have "set (res @ [n]) \<union> set q' \<subseteq> N"
    using I(4) q N n by (auto simp: q' closed_graph_def)
  ultimately have "order_inv N g deg' q' (res @ [n])"
    using order cards zero by (simp add: order_inv_def)
  then show ?thesis by (simp add: deg'_def q'_def n_def q1_def)
qed

lemma order_loop_ends:
  assumes "closed_graph N g" "\<And>a. distinct (g a)" "order_inv N g deg q res"
    "card N - length res \<le> k" "\<And>r l. 0 < l \<Longrightarrow> choice r l < l"
  shows "\<exists>deg' res'. order_loop k choice g deg q res = Some res' \<and> order_inv N g deg' [] res'"
  using assms
proof (induction k arbitrary: deg q res)
  case 0
  have "distinct (res @ q)" "set (res @ q) \<subseteq> N" "finite N"
    using 0(1,3) by (auto simp: order_inv_def closed_graph_def)
  then have "length res + length q \<le> card N" by (metis card_mono distinct_card length_append)
  with 0(4) have "length q = 0" by linarith
  then have "q = []" by simp
  with 0(3) show ?case by (auto simp: order_loop.simps [of 0])
next
  case (Suc k)
  show ?case
  proof (cases "q = []")
    case True
    with Suc.prems(3) show ?thesis by (auto simp: order_loop.simps [of "Suc k"])
  next
    case False
    let ?i = "choice (length res) (length q)"
    let ?p = "relax (g (q ! ?i)) (deg, take ?i q @ drop (Suc ?i) q)"
    have i: "?i < length q" using False Suc.prems(5) by simp
    from order_step [OF Suc.prems(1,2,3) i]
    have "order_inv N g (fst ?p) (snd ?p) (res @ [q ! ?i])" .
    from Suc.IH [OF Suc.prems(1,2) this _ Suc.prems(5)] Suc.prems(4) False
    show ?thesis by (auto simp: order_loop.simps [of "Suc k"] Let_def)
  qed
qed

section \<open>What comes out\<close>

lemma in_order_acyclic:
  assumes "closed_graph N g" "in_order g res" "distinct res" "set res = N"
  shows "acyclic (edge_rel g)"
proof -
  define pos where "pos n = (LEAST i. i < length res \<and> res ! i = n)" for n
  have pos_nth: "pos (res ! i) = i" if "i < length res" for i
    unfolding pos_def using that assms(3) by (intro Least_equality) (auto simp: nth_eq_iff_index_eq)
  have less: "pos a < pos b" if "(a, b) \<in> edge_rel g" for a b
  proof -
    from that have ab: "b \<in> set (g a)" by (simp add: edge_rel_def)
    with assms(1,4) have "b \<in> set res" by (auto simp: closed_graph_def)
    then obtain i where i: "i < length res" "res ! i = b" by (auto simp: in_set_conv_nth)
    then have "res = take i res @ b # drop (Suc i) res" using id_take_nth_drop [of i res] by simp
    with assms(2) ab have "a \<in> set (take i res)" unfolding in_order_def by blast
    then obtain j where j: "j < i" "res ! j = a" by (auto simp: in_set_conv_nth)
    with i pos_nth [of i] pos_nth [of j] show ?thesis by simp
  qed
  have "pos a < pos b" if "(a, b) \<in> (edge_rel g)\<^sup>+" for a b
    using that by induction (use less in fastforce)+
  then show ?thesis by (auto simp: acyclic_def)
qed

lemma order_inv_acyclic_full:
  assumes "closed_graph N g" "order_inv N g deg [] res" "acyclic (edge_rel g)"
  shows "set res = N"
proof (rule ccontr)
  assume "set res \<noteq> N"
  then obtain x where x: "x \<in> N - set res" using assms(2) by (auto simp: order_inv_def)
  have "finite (edge_rel g)"
    using assms(1) by (intro finite_subset [of "edge_rel g" "N \<times> N"])
      (fastforce simp: closed_graph_def edge_rel_def, simp add: closed_graph_def)
  with assms(3) have "wf (edge_rel g)" by (simp add: finite_acyclic_wf)
  from wfE_min [OF this x] obtain z where z: "z \<in> N - set res"
    "\<And>y. (y, z) \<in> edge_rel g \<Longrightarrow> y \<notin> N - set res" by blast
  then have "waiting N g res z = {}" by (auto simp: waiting_def edge_rel_def)
  with assms(2) z(1) show False by (auto simp: order_inv_def)
qed

definition topological :: "dag \<Rightarrow> string list \<Rightarrow> bool" where
  "topological d res \<longleftrightarrow>
     distinct res \<and> set res = dom (d_nodes d) \<and> in_order (targets d) res"

lemma execution_order_by_exact:
  assumes d: "dag_shape d" and ord: "range_order (d_nodes d) ord"
    and choice: "\<And>r l. 0 < l \<Longrightarrow> choice r l < l"
  shows "if acyclic (dag_edges d)
    then \<exists>res. execution_order_by choice ord d = Inr res \<and> topological d res
    else execution_order_by choice ord d = Inl ErrCycleDetected"
proof -
  let ?N = "dom (d_nodes d)" and ?g = "targets d"
  define deg where "deg n = map_option n_in (d_nodes d n)" for n
  define q where "q = [n \<leftarrow> range_keys (d_nodes d) ord. degree_read deg n = 0]"
  have wait: "waiting ?N ?g [] n = preds d n" for n
    using preds_nodes [OF d] by (auto simp: waiting_def preds_def)
  have deg: "degree_read deg n = int (card (preds d n))" if "n \<in> ?N" for n
    using that shapeD(3)[OF d, of n] by (auto simp: degree_read_def deg_def node_ok_def)
  have "order_inv ?N ?g deg q []"
    using ord by (auto simp: order_inv_def q_def range_order_keys in_order_def wait deg range_order_def)
  from order_loop_ends [OF shape_closed [OF d] shapeD(5)[OF d] this _ choice, of "node_count d" "\<lambda>r l. r"]
  obtain deg' res where r: "order_loop (node_count d) choice ?g deg q [] = Some res"
    "order_inv ?N ?g deg' [] res"
    by (auto simp: node_count_def)
  then have res: "distinct res" "set res \<subseteq> ?N" "in_order ?g res" by (auto simp: order_inv_def)
  have ex: "execution_order_by choice ord d =
    (if length res \<noteq> node_count d then Inl ErrCycleDetected else Inr res)"
    using r(1) by (simp add: execution_order_by_def Let_def q_def deg_def [abs_def])
  have full: "length res = node_count d \<longleftrightarrow> set res = ?N"
    using res(1,2) shapeD(1)[OF d] by (metis card_subset_eq distinct_card node_count_def)
  show ?thesis
  proof (cases "acyclic (dag_edges d)")
    case True
    with order_inv_acyclic_full [OF shape_closed [OF d] r(2)] have "set res = ?N" by simp
    with True ex full res show ?thesis by (auto simp: topological_def)
  next
    case False
    with in_order_acyclic [OF shape_closed [OF d] res(3,1)] have "set res \<noteq> ?N" by blast
    with False ex full show ?thesis by simp
  qed
qed

lemma scheduler_choice_in_range: "0 < l \<Longrightarrow> scheduler_choice sched nanos r l < l"
  by (simp add: scheduler_choice_def nat_less_iff)

end
