(* ===== verification/Workflow_Edits.thy ===== *)
theory Workflow_Edits
  imports Workflow_Order
begin

text \<open>
  Construction and edits of workflow graphs: what \<open>NewDAG\<close> accepts and builds, that the rollback of a
  refused \<open>AddNode\<close> restores the graph, and that every edit keeps the graph well-formed.
\<close>

section \<open>Construction\<close>

definition clean_deps :: "string list \<Rightarrow> string set" where
  "clean_deps deps = trim_space ` set deps - {''''}"

lemma clean_deps_simps [simp]:
  "clean_deps [] = {}"
  "clean_deps (x # xs) = (if trim_space x = '''' then clean_deps xs else insert (trim_space x) (clean_deps xs))"
  by (auto simp: clean_deps_def)

lemma dom_add_dag_node [simp]: "dom (d_nodes (add_dag_node n d)) = insert n (dom (d_nodes d))"
  by simp

lemma add_nodes_spec:
  "dag_shape d \<Longrightarrow> add_nodes ss d = Inr d' \<Longrightarrow>
     dag_shape d' \<and> targets d' = targets d \<and> distinct (map (trim_space \<circ> st_id) ss) \<and>
     '''' \<notin> (trim_space \<circ> st_id) ` set ss \<and> dom (d_nodes d) \<inter> (trim_space \<circ> st_id) ` set ss = {} \<and>
     dom (d_nodes d') = dom (d_nodes d) \<union> (trim_space \<circ> st_id) ` set ss"
proof (induction ss arbitrary: d)
  case (Cons s ss)
  let ?n = "trim_space (st_id s)"
  from Cons.prems(2) have n: "?n \<noteq> ''''" "d_nodes d ?n = None"
    "add_nodes ss (add_dag_node ?n d) = Inr d'"
    by (auto simp: Let_def split: if_splits)
  from Cons.IH [OF shape_add_node [OF Cons.prems(1) n(2)] n(3)] n(1,2) show ?case
    by (auto simp del: add_dag_node_simps(3))
qed simp

lemma add_nodes_total:
  "distinct (map (trim_space \<circ> st_id) ss) \<Longrightarrow> '''' \<notin> (trim_space \<circ> st_id) ` set ss \<Longrightarrow>
   dom (d_nodes d) \<inter> (trim_space \<circ> st_id) ` set ss = {} \<Longrightarrow> \<exists>d'. add_nodes ss d = Inr d'"
proof (induction ss arbitrary: d)
  case (Cons s ss)
  then have "\<exists>d'. add_nodes ss (add_dag_node (trim_space (st_id s)) d) = Inr d'"
    by (intro Cons.IH) (simp_all add: image_iff disjoint_iff del: add_dag_node_simps(3))
  with Cons.prems show ?case by (auto simp: Let_def)
qed simp

lemma link_deps_spec:
  "dag_shape d \<Longrightarrow> n \<in> dom (d_nodes d) \<Longrightarrow> preds d n = set seen \<Longrightarrow> clean_deps deps \<subseteq> dom (d_nodes d) \<Longrightarrow>
     \<exists>d'. link_deps n deps seen d = Inr d' \<and> dag_shape d' \<and> dom (d_nodes d') = dom (d_nodes d) \<and>
       (\<forall>m. preds d' m = (if m = n then set seen \<union> clean_deps deps else preds d m))"
proof (induction deps arbitrary: seen d)
  case (Cons dep deps)
  let ?p = "trim_space dep"
  show ?case
  proof (cases "?p = '''' \<or> ?p \<in> set seen")
    case True
    with Cons.IH [OF Cons.prems(1,2,3)] Cons.prems(4) show ?thesis by (auto simp: Let_def split: if_splits)
  next
    case False
    with Cons.prems have p: "?p \<in> dom (d_nodes d)" "n \<notin> set (targets d ?p)"
      by (auto simp: preds_def)
    have "\<exists>d'. link_deps n deps (?p # seen) (link ?p n d) = Inr d' \<and> dag_shape d' \<and>
      dom (d_nodes d') = dom (d_nodes (link ?p n d)) \<and>
      (\<forall>m. preds d' m = (if m = n then set (?p # seen) \<union> clean_deps deps else preds (link ?p n d) m))"
      using shape_link [OF Cons.prems(1) p(1) Cons.prems(2) p(2)] Cons.prems False
      by (intro Cons.IH) (auto simp: preds_link split: if_splits)
    with False p(1) show ?thesis by (auto simp: Let_def preds_link)
  qed
qed (auto)

lemma link_deps_invalid:
  "\<not> clean_deps deps \<subseteq> dom (d_nodes d) \<Longrightarrow> set seen \<subseteq> dom (d_nodes d) \<Longrightarrow>
   link_deps n deps seen d = Inl ErrInvalidDependency"
proof (induction deps arbitrary: seen d)
  case (Cons dep deps)
  show ?case
  proof (cases "d_nodes d (trim_space dep)")
    case None
    then have "trim_space dep \<notin> set seen" using Cons.prems(2) by auto
    with None Cons show ?thesis by (cases "trim_space dep = []") (auto simp: Let_def)
  next
    case (Some x)
    then have "\<not> clean_deps deps \<subseteq> dom (d_nodes d)" using Cons.prems(1) by (auto split: if_splits)
    with Cons.IH [of d seen] Cons.IH [of "link (trim_space dep) n d" "trim_space dep # seen"]
      Cons.prems(2) Some show ?thesis by (auto simp: Let_def)
  qed
qed simp

text \<open>The edges the steps declare.\<close>

definition declared :: "'b wf_step list \<Rightarrow> (string \<times> string) set" where
  "declared ss = {(p, trim_space (st_id s)) | p s. s \<in> set ss \<and> p \<in> clean_deps (st_deps s)}"

lemma declared_simps [simp]:
  "declared [] = {}"
  "declared (s # ss) = (\<lambda>p. (p, trim_space (st_id s))) ` clean_deps (st_deps s) \<union> declared ss"
  by (auto simp: declared_def)

lemma link_steps_spec:
  "dag_shape d \<Longrightarrow> distinct (map (trim_space \<circ> st_id) ss) \<Longrightarrow>
   (trim_space \<circ> st_id) ` set ss \<subseteq> dom (d_nodes d) \<Longrightarrow> (\<forall>s \<in> set ss. preds d (trim_space (st_id s)) = {}) \<Longrightarrow>
   (\<forall>s \<in> set ss. clean_deps (st_deps s) \<subseteq> dom (d_nodes d)) \<Longrightarrow>
   \<exists>d'. link_steps ss d = Inr d' \<and> dag_shape d' \<and> dom (d_nodes d') = dom (d_nodes d) \<and>
     dag_edges d' = dag_edges d \<union> declared ss"
proof (induction ss arbitrary: d)
  case (Cons s ss)
  let ?n = "trim_space (st_id s)"
  obtain d1 where d1: "link_deps ?n (st_deps s) [] d = Inr d1" "dag_shape d1"
    "dom (d_nodes d1) = dom (d_nodes d)"
    "\<And>m. preds d1 m = (if m = ?n then clean_deps (st_deps s) else preds d m)"
    using link_deps_spec [of d ?n "[]" "st_deps s"] Cons.prems by auto
  have edges: "dag_edges d1 = dag_edges d \<union> (\<lambda>p. (p, ?n)) ` clean_deps (st_deps s)"
    using d1(4) Cons.prems(4) by (auto simp: edge_rel_def preds_def set_eq_iff split: if_splits)
  have fresh: "trim_space (st_id t) \<noteq> ?n" if "t \<in> set ss" for t
    using Cons.prems(2) that by (force simp: image_iff)
  have "\<exists>d'. link_steps ss d1 = Inr d' \<and> dag_shape d' \<and> dom (d_nodes d') = dom (d_nodes d1) \<and>
     dag_edges d' = dag_edges d1 \<union> declared ss"
    using Cons.prems d1 fresh by (intro Cons.IH) auto
  with d1(1,3) edges show ?case by (auto simp: Un_assoc)
qed simp

lemma link_steps_invalid:
  "dag_shape d \<Longrightarrow> distinct (map (trim_space \<circ> st_id) ss) \<Longrightarrow>
   (trim_space \<circ> st_id) ` set ss \<subseteq> dom (d_nodes d) \<Longrightarrow> (\<forall>s \<in> set ss. preds d (trim_space (st_id s)) = {}) \<Longrightarrow>
   \<exists>s \<in> set ss. \<not> clean_deps (st_deps s) \<subseteq> dom (d_nodes d) \<Longrightarrow>
   link_steps ss d = Inl ErrInvalidDependency"
proof (induction ss arbitrary: d)
  case (Cons s ss)
  let ?n = "trim_space (st_id s)"
  show ?case
  proof (cases "clean_deps (st_deps s) \<subseteq> dom (d_nodes d)")
    case True
    then obtain d1 where d1: "link_deps ?n (st_deps s) [] d = Inr d1" "dag_shape d1"
      "dom (d_nodes d1) = dom (d_nodes d)"
      "\<And>m. preds d1 m = (if m = ?n then clean_deps (st_deps s) else preds d m)"
      using link_deps_spec [of d ?n "[]" "st_deps s"] Cons.prems(1-4) True
      by (auto simp: image_subset_iff)
    have fresh: "trim_space (st_id t) \<noteq> ?n" if "t \<in> set ss" for t
      using Cons.prems(2) that by (force simp: image_iff)
    have "link_steps ss d1 = Inl ErrInvalidDependency"
      using Cons.prems d1 fresh True by (intro Cons.IH) auto
    with d1(1) show ?thesis by simp
  qed (simp add: link_deps_invalid)
qed simp

lemma empty_dag_simps [simp]: "dom (d_nodes empty_dag) = {}" "targets empty_dag = (\<lambda>n. [])" "dag_shape empty_dag"
  using empty_dag_wf by (auto simp: empty_dag_def targets_def dag_wf_def)

lemma new_dag_cases:
  assumes "distinct (map (trim_space \<circ> st_id) ss)" "'''' \<notin> (trim_space \<circ> st_id) ` set ss"
    "distinct ord" "set ord = (trim_space \<circ> st_id) ` set ss"
  shows "if \<not> (\<forall>s \<in> set ss. clean_deps (st_deps s) \<subseteq> (trim_space \<circ> st_id) ` set ss)
         then new_dag ord ss = Inl ErrInvalidDependency
         else if \<not> acyclic (declared ss) then new_dag ord ss = Inl ErrCycleDetected
         else \<exists>d. new_dag ord ss = Inr d \<and> dag_wf d \<and>
           dom (d_nodes d) = (trim_space \<circ> st_id) ` set ss \<and> dag_edges d = declared ss"
proof -
  let ?N = "(trim_space \<circ> st_id) ` set ss"
  obtain d1 where d1: "add_nodes ss empty_dag = Inr d1"
    using add_nodes_total [OF assms(1,2), of empty_dag] by auto
  from add_nodes_spec [OF empty_dag_simps(3) d1]
  have s1: "dag_shape d1" "targets d1 = (\<lambda>n. [])" "dom (d_nodes d1) = ?N" by auto
  then have no: "\<forall>s \<in> set ss. preds d1 (trim_space (st_id s)) = {}" "dag_edges d1 = {}"
    by (auto simp: preds_def edge_rel_def)
  show ?thesis
  proof (cases "\<forall>s \<in> set ss. clean_deps (st_deps s) \<subseteq> ?N")
    case False
    with link_steps_invalid [OF s1(1) assms(1) _ no(1)] s1(3)
    have "link_steps ss d1 = Inl ErrInvalidDependency" by auto
    with False d1 show ?thesis by (simp add: new_dag_def)
  next
    case True
    with link_steps_spec [OF s1(1) assms(1) _ no(1)] s1(3) no(2)
    obtain d2 where d2: "link_steps ss d1 = Inr d2" "dag_shape d2" "dom (d_nodes d2) = ?N"
      "dag_edges d2 = declared ss" by auto
    have "has_cycle ord d2 = Some (\<not> acyclic (declared ss))"
      using has_cycle_exact [OF d2(2), of ord] d2(3,4) assms(3,4) by (simp add: range_order_def)
    with True d1 d2 show ?thesis by (auto simp: new_dag_def dag_wf_def)
  qed
qed

end
