(* ===== verification/Workflow_Mutations.thy ===== *)
theory Workflow_Mutations
  imports Workflow_Edits
begin

text \<open>
  The edits of a live workflow graph: the rollback of a refused \<open>AddNode\<close>, the removal and the
  replacement of a node. Each keeps the graph well-formed.
\<close>

section \<open>Adding a node\<close>

lemma fold_link:
  "distinct ps \<Longrightarrow>
   targets (fold (\<lambda>p. link p n) ps d) m = targets d m @ (if m \<in> set ps then [n] else []) \<and>
   d_nodes (fold (\<lambda>p. link p n) ps d) m =
     map_option (\<lambda>x. x\<lparr>n_in := n_in x + (if m = n then int (length ps) else 0),
       n_out := n_out x + (if m \<in> set ps then 1 else 0)\<rparr>) (d_nodes d m)"
  by (induction ps arbitrary: d)
    (auto simp: targets_link nodes_link option.map_comp comp_def option.map_ident intro!: option.map_cong)

lemma fold_unlink:
  "distinct ps \<Longrightarrow>
   targets (fold (\<lambda>p. unlink p n) ps d) m = (if m \<in> set ps then remove1 n (targets d m) else targets d m) \<and>
   d_nodes (fold (\<lambda>p. unlink p n) ps d) m =
     map_option (\<lambda>x. x\<lparr>n_in := n_in x - (if m = n then int (length ps) else 0),
       n_out := n_out x - (if m \<in> set ps then 1 else 0)\<rparr>) (d_nodes d m)"
  by (induction ps arbitrary: d)
    (auto simp: targets_unlink nodes_unlink option.map_comp comp_def option.map_ident intro!: option.map_cong)

lemma roll_back_restores:
  assumes "distinct ps" "\<And>a. n \<notin> set (targets d a)"
  shows "targets (roll_back n ps (fold (\<lambda>p. link p n) ps d)) = targets d"
    "d_nodes (roll_back n ps (fold (\<lambda>p. link p n) ps d)) = (d_nodes d)(n := None)"
proof -
  let ?d = "fold (\<lambda>p. unlink p n) ps (fold (\<lambda>p. link p n) ps d)"
  have "targets ?d m = targets d m \<and> d_nodes ?d m = d_nodes d m" for m
    using assms by (auto simp: fold_unlink fold_link remove1_append option.map_comp comp_def
        option.map_ident)
  then have "targets ?d = targets d" "d_nodes ?d = d_nodes d" by auto
  then show "targets (roll_back n ps (fold (\<lambda>p. link p n) ps d)) = targets d"
    "d_nodes (roll_back n ps (fold (\<lambda>p. link p n) ps d)) = (d_nodes d)(n := None)"
    by (auto simp: roll_back_def del_dag_node_def targets_def fun_eq_iff)
qed

lemma add_deps_wf:
  "dag_wf d \<Longrightarrow> n \<in> dom (d_nodes d) \<Longrightarrow> preds d n = set seen \<Longrightarrow> add_deps n deps seen added d = (Inr u, d')
   \<Longrightarrow> dag_wf d' \<and> dom (d_nodes d') = dom (d_nodes d) \<and> clean_deps deps \<subseteq> dom (d_nodes d) \<union> set seen \<and>
     dag_edges d' = dag_edges d \<union> (\<lambda>p. (p, n)) ` clean_deps deps"
proof (induction n deps seen added d rule: add_deps.induct)
  case (2 n dep deps seen added d)
  let ?p = "trim_space dep"
  show ?case
  proof (cases "?p = '''' \<or> ?p \<in> set seen")
    case True
    with 2(6) have "add_deps n deps seen added d = (Inr u, d')" by (auto simp: Let_def)
    from 2(1)[OF refl True 2(3,4,5) this] True 2(5) show ?thesis
      by (auto simp: preds_def edge_rel_def)
  next
    case False
    with 2(6) have p: "d_nodes d ?p \<noteq> None" "\<not> would_create_cycle ?p n d"
      "add_deps n deps (?p # seen) (added @ [?p]) (link ?p n d) = (Inr u, d')"
      by (auto simp: Let_def split: if_splits)
    have "n \<notin> set (targets d ?p)" using False 2(5) by (auto simp: preds_def)
    with 2(3,4) p have "dag_wf (link ?p n d)" by (auto intro: wf_link)
    from 2(2)[OF refl False p(1,2) this _ _ p(3)] 2(4,5) False p(1) show ?thesis
      by (auto simp: preds_link edges_link)
  qed
qed auto

lemma would_create_self_cycle: "would_create_cycle n n d"
  by (simp add: would_create_cycle_def)

lemma dom_fold_links:
  "dom (d_nodes (fold (\<lambda>p. link p n) ps d)) = dom (d_nodes d)"
  "dom (d_edges (fold (\<lambda>p. link p n) ps d)) = dom (d_edges d) \<union> set ps"
  "dom (d_edges (roll_back n qs d)) = dom (d_edges d) \<union> set qs"
proof -
  show "dom (d_nodes (fold (\<lambda>p. link p n) ps d)) = dom (d_nodes d)"
    "dom (d_edges (fold (\<lambda>p. link p n) ps d)) = dom (d_edges d) \<union> set ps"
    by (induction ps arbitrary: d) auto
  have "dom (d_edges (fold (\<lambda>p. unlink p n) qs d)) = dom (d_edges d) \<union> set qs"
    by (induction qs arbitrary: d) auto
  then show "dom (d_edges (roll_back n qs d)) = dom (d_edges d) \<union> set qs"
    by (simp add: roll_back_def del_dag_node_def)
qed

lemma add_deps_refused:
  "add_deps n deps seen added d = (Inl e, d') \<Longrightarrow> d = fold (\<lambda>p. link p n) added d0 \<Longrightarrow> distinct added \<Longrightarrow>
   set added = set seen \<Longrightarrow> (\<And>a. n \<notin> set (targets d0 a)) \<Longrightarrow> set added \<subseteq> dom (d_nodes d0) - {n} \<Longrightarrow>
   targets d' = targets d0 \<and> d_nodes d' = (d_nodes d0)(n := None) \<and>
   dom (d_edges d') \<subseteq> dom (d_edges d0) \<union> (dom (d_nodes d0) - {n})"
proof (induction n deps seen added d rule: add_deps.induct)
  case (2 n dep deps seen added d)
  let ?p = "trim_space dep"
  consider "?p = '''' \<or> ?p \<in> set seen" | "\<not> (?p = '''' \<or> ?p \<in> set seen)" "d_nodes d ?p = None \<or> would_create_cycle ?p n d"
    | "\<not> (?p = '''' \<or> ?p \<in> set seen)" "d_nodes d ?p \<noteq> None" "\<not> would_create_cycle ?p n d" by blast
  then show ?case
  proof cases
    case 1
    with "2.prems"(1) have "add_deps n deps seen added d = (Inl e, d')" by (auto simp: Let_def)
    from 2(1)[OF refl 1 this "2.prems"(2-6)] show ?thesis .
  next
    case 2
    with "2.prems"(1) have d': "d' = roll_back n added d" by (auto simp: Let_def split: if_splits)
    have "dom (d_edges d') \<subseteq> dom (d_edges d0) \<union> (dom (d_nodes d0) - {n})"
      unfolding d' "2.prems"(2) dom_fold_links using "2.prems"(6) by blast
    with roll_back_restores [OF "2.prems"(3,5)] "2.prems"(2) d' show ?thesis by simp
  next
    case 3
    with "2.prems"(1) have r: "add_deps n deps (?p # seen) (added @ [?p]) (link ?p n d) = (Inl e, d')"
      by (auto simp: Let_def)
    have l: "link ?p n d = fold (\<lambda>p. link p n) (added @ [?p]) d0" using "2.prems"(2) by simp
    have "?p \<noteq> n" using 3(3) would_create_self_cycle by metis
    moreover have "?p \<in> dom (d_nodes d0)" using 3(2) "2.prems"(2) dom_fold_links(1) by blast
    ultimately have sub: "set (added @ [?p]) \<subseteq> dom (d_nodes d0) - {n}" using "2.prems"(6) by simp
    from 3(1) "2.prems"(3,4) have "distinct (added @ [?p])" "set (added @ [?p]) = set (?p # seen)" by auto
    from 2(2)[OF refl 3 r l this "2.prems"(5) sub] show ?thesis .
  qed
qed auto

lemma add_deps_accepts:
  "dag_wf d \<Longrightarrow> n \<in> dom (d_nodes d) \<Longrightarrow> targets d n = [] \<Longrightarrow> clean_deps deps \<subseteq> dom (d_nodes d) - {n} \<Longrightarrow>
   preds d n = set seen \<Longrightarrow> \<exists>d'. add_deps n deps seen added d = (Inr (), d')"
proof (induction n deps seen added d rule: add_deps.induct)
  case (2 n dep deps seen added d)
  let ?p = "trim_space dep"
  show ?case
  proof (cases "?p = '''' \<or> ?p \<in> set seen")
    case True
    with 2(1)[OF refl True 2(3,4,5) _ 2(7)] 2(6) show ?thesis by (auto simp: Let_def split: if_splits)
  next
    case False
    with 2(6) have p: "d_nodes d ?p \<noteq> None" "?p \<noteq> n" by auto
    have "(n, ?p) \<notin> (dag_edges d)\<^sup>*"
      using 2(5) p(2) by (auto simp: edge_rel_def elim: converse_rtranclE)
    with 2(3,4) have nc: "\<not> would_create_cycle ?p n d" by (simp add: dag_wf_def would_create_cycle_exact)
    have "n \<notin> set (targets d ?p)" using False 2(7) by (auto simp: preds_def)
    with 2(3,4) p nc have "dag_wf (link ?p n d)" by (auto intro: wf_link)
    from 2(2)[OF refl False p(1) nc this] 2(4-7) p False nc show ?thesis
      by (auto simp: Let_def targets_link preds_link)
  qed
qed auto

section \<open>Removing a node\<close>

lemma fold_bump_in:
  "d_nodes (fold (\<lambda>t. bump_in t i) ts d) m =
     map_option (\<lambda>x. x\<lparr>n_in := n_in x + i * int (count_list ts m)\<rparr>) (d_nodes d m)"
  "targets (fold (\<lambda>t. bump_in t i) ts d) = targets d" "d_edges (fold (\<lambda>t. bump_in t i) ts d) = d_edges d"
  by (induction ts arbitrary: d)
    (auto simp: option.map_comp comp_def algebra_simps option.map_ident intro!: option.map_cong)

lemma drop_target_simps:
  "targets (drop_target n src d) m = (if m = src then filter (\<lambda>t. t \<noteq> n) (targets d src) else targets d m)"
  "d_nodes (drop_target n src d) m =
     map_option (\<lambda>x. x\<lparr>n_out := n_out x - (if m = src then int (count_list (targets d src) n) else 0)\<rparr>) (d_nodes d m)"
  by (auto simp: drop_target_def Let_def option.map_ident intro!: option.map_cong)

lemma fold_drop_target:
  "distinct ord \<Longrightarrow>
   targets (fold (drop_target n) ord d) m = (if m \<in> set ord then filter (\<lambda>t. t \<noteq> n) (targets d m) else targets d m) \<and>
   d_nodes (fold (drop_target n) ord d) m =
     map_option (\<lambda>x. x\<lparr>n_out := n_out x - (if m \<in> set ord then int (count_list (targets d m) n) else 0)\<rparr>)
       (d_nodes d m)"
  by (induction ord arbitrary: d)
    (auto simp: drop_target_simps option.map_comp comp_def option.map_ident intro!: option.map_cong)

lemma detach_spec:
  assumes "dag_shape d" "range_order (d_edges d) ord" "targets d n = ts"
  shows "targets (detach ord n d) m = (if m = n then [] else filter (\<lambda>t. t \<noteq> n) (targets d m))"
    "d_nodes (detach ord n d) m =
       map_option (\<lambda>x. x\<lparr>n_in := n_in x - int (count_list ts m),
         n_out := n_out x - (if m = n then 0 else int (count_list (targets d m) n))\<rparr>) (d_nodes d m)"
proof -
  define d2 where "d2 = (fold (\<lambda>t. bump_in t (-1)) (targets d n) d)\<lparr>d_edges := (d_edges d)(n := None)\<rparr>"
  have t2: "targets d2 k = (if k = n then [] else targets d k)" for k
    by (simp add: d2_def targets_def)
  have n2: "d_nodes d2 k = map_option (\<lambda>x. x\<lparr>n_in := n_in x - int (count_list ts k)\<rparr>) (d_nodes d k)" for k
    by (simp add: d2_def fold_bump_in assms(3))
  define ks where "ks = range_keys (d_edges d2) ord"
  have ord2: "distinct ks" "set ks = dom (d_edges d) - {n}"
    using assms(2) by (auto simp: ks_def range_order_def d2_def)
  have det: "detach ord n d = fold (drop_target n) ks d2"
    by (simp add: detach_def Let_def ks_def d2_def fold_bump_in)
  have none: "targets d k = []" if "k \<notin> dom (d_edges d)" for k
    using that by (auto simp: targets_def split: option.splits)
  show "targets (detach ord n d) m = (if m = n then [] else filter (\<lambda>t. t \<noteq> n) (targets d m))"
    using none [of m] unfolding det by (auto simp: fold_drop_target ord2 t2)
  show "d_nodes (detach ord n d) m =
       map_option (\<lambda>x. x\<lparr>n_in := n_in x - int (count_list ts m),
         n_out := n_out x - (if m = n then 0 else int (count_list (targets d m) n))\<rparr>) (d_nodes d m)"
    using none [of m] unfolding det
    by (auto simp: fold_drop_target ord2 t2 n2 option.map_comp comp_def intro!: option.map_cong)
qed

lemma count_list_distinct: "distinct xs \<Longrightarrow> count_list xs x = (if x \<in> set xs then 1 else 0)"
  by (induction xs) auto

lemma wf_remove:
  fixes n :: string
  assumes "dag_wf d" "range_order (d_edges d) ord"
  defines "d' \<equiv> del_dag_node n (detach ord n d)"
  shows "dag_wf d'" "dom (d_nodes d') = dom (d_nodes d) - {n}"
    "dag_edges d' = {(a, b) \<in> dag_edges d. a \<noteq> n \<and> b \<noteq> n}"
proof -
  have d: "dag_shape d" and ac: "acyclic (dag_edges d)" using assms(1) by (simp_all add: dag_wf_def)
  note dist = shapeD(5)[OF d]
  have t: "targets d' m = (if m = n then [] else filter (\<lambda>t. t \<noteq> n) (targets d m))" for m
    using detach_spec(1)[OF d assms(2) refl] by (simp add: d'_def del_dag_node_def targets_def)
  have nodes: "d_nodes d' m = (if m = n then None else
       map_option (\<lambda>x. x\<lparr>n_in := n_in x - (if m \<in> set (targets d n) then 1 else 0),
         n_out := n_out x - (if n \<in> set (targets d m) then 1 else 0)\<rparr>) (d_nodes d m))" for m
    using detach_spec(2)[OF d assms(2) refl, of n m] dist
    by (auto simp: d'_def del_dag_node_def count_list_distinct intro!: option.map_cong)
  show dom: "dom (d_nodes d') = dom (d_nodes d) - {n}" by (auto simp: nodes split: if_splits)
  show edges: "dag_edges d' = {(a, b) \<in> dag_edges d. a \<noteq> n \<and> b \<noteq> n}"
    by (auto simp: edge_rel_def t split: if_splits)
  have preds: "preds d' m = (if m = n then {} else preds d m - {n})" for m
    by (auto simp: preds_def t split: if_splits)
  have len: "int (length (filter (\<lambda>t. t \<noteq> n) xs)) = int (length xs) - (if n \<in> set xs then 1 else 0)"
    if "distinct xs" for xs
    using that by (induction xs) auto
  have "node_ok d' m y" if y: "d_nodes d' m = Some y" for m y
  proof -
    from y obtain x where m: "m \<noteq> n" and x: "d_nodes d m = Some x"
      "y = x\<lparr>n_in := n_in x - (if m \<in> set (targets d n) then 1 else 0),
         n_out := n_out x - (if n \<in> set (targets d m) then 1 else 0)\<rparr>"
      by (auto simp: nodes split: if_splits)
    from shapeD(3)[OF d x(1)] have ok: "node_ok d m x" .
    have "int (card (preds d m - {n})) = int (card (preds d m)) - (if m \<in> set (targets d n) then 1 else 0)"
      using finite_preds [OF d, of m] card.remove [of "preds d m" n] by (auto simp: preds_def)
    with ok m x(2) len [OF dist, of m] show ?thesis by (auto simp: node_ok_def preds t)
  qed
  moreover have "dom (d_edges d') \<subseteq> dom (d_nodes d')"
  proof -
    have "dom (d_edges (fold (drop_target n) ks e)) = set ks \<union> dom (d_edges e)" for ks e
      by (induction ks arbitrary: e) (auto simp: drop_target_def Let_def)
    then have "dom (d_edges d') \<subseteq> dom (d_edges d) - {n}"
      by (auto simp: d'_def del_dag_node_def detach_def Let_def fold_bump_in)
    also have "\<dots> \<subseteq> dom (d_nodes d')" unfolding dom by (intro Diff_mono shapeD(2)[OF d] order_refl)
    finally show ?thesis .
  qed
  moreover have "set (targets d' m) \<subseteq> dom (d_nodes d') \<and> distinct (targets d' m)" for m
    using shapeD(4)[OF d, of m] dist [of m] dom by (auto simp: t)
  moreover have "finite (dom (d_nodes d'))" using shapeD(1)[OF d] dom by simp
  ultimately have "dag_shape d'" by (simp add: dag_shape_def)
  moreover have "acyclic (dag_edges d')" using ac edges by (auto intro: acyclic_subset)
  ultimately show "dag_wf d'" by (simp add: dag_wf_def)
qed

section \<open>Counting the degrees anew\<close>

definition count_source :: "string \<Rightarrow> dag \<Rightarrow> dag" where
  "count_source src d =
     (case d_nodes d src of
        None \<Rightarrow> d
      | Some x \<Rightarrow>
          fold (\<lambda>t. bump_in t 1) (targets d src)
            (d\<lparr>d_nodes := (d_nodes d)(src \<mapsto> x\<lparr>n_out := int (length (targets d src))\<rparr>)\<rparr>))"

lemma count_source_simps:
  assumes "src \<in> dom (d_nodes d)"
  shows "targets (count_source src d) = targets d" "d_edges (count_source src d) = d_edges d"
    "d_nodes (count_source src d) m = map_option (\<lambda>x. x\<lparr>
       n_in := n_in x + int (count_list (targets d src) m),
       n_out := (if m = src then int (length (targets d src)) else n_out x)\<rparr>) (d_nodes d m)"
  using assms
  by (auto simp: count_source_def fold_bump_in targets_def fun_eq_iff intro!: option.map_cong)

lemma fold_count_source:
  "set ks \<subseteq> dom (d_nodes d) \<Longrightarrow>
   targets (fold count_source ks d) = targets d \<and> d_edges (fold count_source ks d) = d_edges d \<and>
   (\<forall>m. d_nodes (fold count_source ks d) m = map_option (\<lambda>x. x\<lparr>
       n_in := n_in x + int (sum_list (map (\<lambda>s. count_list (targets d s) m) ks)),
       n_out := (if m \<in> set ks then int (length (targets d m)) else n_out x)\<rparr>) (d_nodes d m))"
proof (induction ks arbitrary: d)
  case (Cons src ks)
  have src: "src \<in> dom (d_nodes d)" using Cons.prems by simp
  have "set ks \<subseteq> dom (d_nodes (count_source src d))"
    using Cons.prems by (auto simp: count_source_simps(3)[OF src] domIff)
  from Cons.IH [OF this] show ?case
    by (auto simp: count_source_simps [OF src] option.map_comp comp_def intro!: option.map_cong)
qed (simp add: option.map_ident)

lemma sum_count_list:
  "distinct ks \<Longrightarrow> (\<And>s. distinct (f s)) \<Longrightarrow> sum_list (map (\<lambda>s. count_list (f s) m) ks) = card {s \<in> set ks. m \<in> set (f s)}"
proof (induction ks)
  case (Cons k ks)
  have "{s \<in> set (k # ks). m \<in> set (f s)} =
    (if m \<in> set (f k) then insert k {s \<in> set ks. m \<in> set (f s)} else {s \<in> set ks. m \<in> set (f s)})" by auto
  with Cons show ?case by (simp add: count_list_distinct)
qed simp

lemma recalculate_shape:
  assumes "finite (dom (d_nodes d))" "dom (d_edges d) \<subseteq> dom (d_nodes d)"
    "\<And>n x. d_nodes d n = Some x \<Longrightarrow> n_step x = n" "\<And>n. set (targets d n) \<subseteq> dom (d_nodes d)"
    "\<And>n. distinct (targets d n)" "range_order (d_edges d) ord"
  shows "dag_shape (recalculate_degrees ord d)" "targets (recalculate_degrees ord d) = targets d"
    "dom (d_nodes (recalculate_degrees ord d)) = dom (d_nodes d)"
proof -
  define d0 where "d0 = d\<lparr>d_nodes := (\<lambda>n. map_option (\<lambda>x. x\<lparr>n_in := 0, n_out := 0\<rparr>) (d_nodes d n))\<rparr>"
  let ?d = "recalculate_degrees ord d"
  have rd: "?d = fold count_source ord d0"
    using assms(6) by (simp add: recalculate_degrees_def count_source_def [abs_def] d0_def range_order_keys)
  have t0: "targets d0 = targets d" "d_edges d0 = d_edges d" "dom (d_nodes d0) = dom (d_nodes d)"
    by (auto simp: d0_def targets_def)
  have ord: "set ord = dom (d_edges d)" "distinct ord" using assms(6) by (auto simp: range_order_def)
  note fc = fold_count_source [of ord d0]
  have sub: "set ord \<subseteq> dom (d_nodes d0)" using ord assms(2) t0 by simp
  show t: "targets ?d = targets d" using fc sub t0 rd by simp
  have none: "targets d s = []" if "s \<notin> set ord" for s
    using that ord(1) by (auto simp: targets_def split: option.splits)
  have nodes: "d_nodes ?d m = map_option (\<lambda>x. x\<lparr>n_in := int (card (preds d m)), n_out := int (length (targets d m))\<rparr>)
     (d_nodes d m)" for m
  proof -
    have "{s \<in> set ord. m \<in> set (targets d s)} = preds d m"
      using none by (fastforce simp: preds_def)
    with fc sub t0 rd none [of m] sum_count_list [OF ord(2), of "targets d" m] assms(5) show ?thesis
      by (auto simp: d0_def option.map_comp comp_def intro!: option.map_cong)
  qed
  show dom: "dom (d_nodes ?d) = dom (d_nodes d)" by (auto simp: nodes)
  have p: "preds ?d m = preds d m" for m using t by (simp add: preds_def)
  have "d_edges ?d = d_edges d" using fc sub t0 rd by simp
  with assms t dom nodes p show "dag_shape ?d" unfolding dag_shape_def node_ok_def by auto
qed

section \<open>Replacing a node\<close>

lemma renamed_inj: "d_nodes d new = None \<or> new = old \<Longrightarrow> inj_on (renamed old new) (dom (d_nodes d))"
  unfolding inj_on_def renamed_def by (metis domIff)

lemma acyclic_renamed:
  assumes "acyclic E" "\<And>a b. (a, b) \<in> E \<Longrightarrow> a \<in> N \<and> b \<in> N" "inj_on f N"
  shows "acyclic ((\<lambda>(a, b). (f a, f b)) ` E)"
proof -
  have key: "\<exists>a b. x = f a \<and> y = f b \<and> (a, b) \<in> E\<^sup>+ \<and> b \<in> N"
    if "(x, y) \<in> ((\<lambda>(a, b). (f a, f b)) ` E)\<^sup>+" for x y
    using that
  proof induction
    case (base y)
    then obtain a b where "x = f a" "y = f b" "(a, b) \<in> E" by auto
    with assms(2) show ?case by (metis r_into_trancl')
  next
    case (step y z)
    then obtain a b c e where s: "x = f a" "y = f b" "(a, b) \<in> E\<^sup>+" "b \<in> N" "y = f c" "z = f e" "(c, e) \<in> E"
      by auto
    with assms(2) have "c \<in> N" "e \<in> N" by blast+
    with s assms(3) have "b = c" by (auto dest: inj_onD)
    with s have "(a, e) \<in> E\<^sup>+" by auto
    with s \<open>e \<in> N\<close> show ?case by blast
  qed
  show ?thesis
  proof (rule acyclicI, rule allI, rule notI)
    fix x assume "(x, x) \<in> ((\<lambda>(a, b). (f a, f b)) ` E)\<^sup>+"
    from key [OF this] obtain a b where ab: "f a = f b" "(a, b) \<in> E\<^sup>+" "b \<in> N" by auto
    from tranclD [OF ab(2)] assms(2) have "a \<in> N" by blast
    with ab assms(3) have "a = b" by (auto dest: inj_onD)
    with ab(2) assms(1) show False by (simp add: acyclic_def)
  qed
qed

lemma migrate_simps:
  assumes "new \<noteq> old"
  shows "targets (migrate_node old new d) m =
      map (renamed old new) (if m = old then [] else if m = new then targets d old else targets d m)"
    "dom (d_edges (migrate_node old new d)) = insert new (dom (d_edges d) - {old})"
    "dom (d_nodes (migrate_node old new d)) = insert new (dom (d_nodes d) - {old})"
  using assms by (auto simp: migrate_node_def targets_def Let_def split: option.splits if_splits)

lemma migrate_edges:
  assumes "new \<noteq> old" "dag_shape d" "d_nodes d new = None"
  shows "dag_edges (migrate_node old new d) = (\<lambda>(a, b). (renamed old new a, renamed old new b)) ` dag_edges d"
proof -
  note M = migrate_simps(1)[OF assms(1)]
  have new: "targets d new = []" using shape_no_targets [OF assms(2,3)] .
  have "(x, y) \<in> (\<lambda>(a, b). (renamed old new a, renamed old new b)) ` dag_edges d"
    if xy: "(x, y) \<in> dag_edges (migrate_node old new d)" for x y
  proof -
    define a where "a = (if x = new then old else x)"
    from xy obtain b where b: "b \<in> set (targets d a)" "y = renamed old new b" "x \<noteq> old"
      using new by (auto simp: edge_rel_def M a_def split: if_splits)
    then have "x = renamed old new a" using assms(1) by (auto simp: a_def renamed_def)
    with b show ?thesis by (auto simp: edge_rel_def image_iff)
  qed
  moreover have "(renamed old new a, renamed old new b) \<in> dag_edges (migrate_node old new d)"
    if "(a, b) \<in> dag_edges d" for a b
    using that new assms(1) by (cases "a = old"; cases "a = new") (simp_all add: edge_rel_def M, simp_all add: renamed_def)
  ultimately show ?thesis by auto
qed

lemma wf_migrate:
  assumes "new \<noteq> old" "dag_wf d" "d_nodes d new = None" "d_nodes d old \<noteq> None"
    "range_order (d_edges (migrate_node old new d)) ord"
  defines "d' \<equiv> recalculate_degrees ord (migrate_node old new d)"
  shows "dag_wf d'" "dom (d_nodes d') = insert new (dom (d_nodes d) - {old})"
    "dag_edges d' = (\<lambda>(a, b). (renamed old new a, renamed old new b)) ` dag_edges d"
proof -
  let ?d = "migrate_node old new d"
  have d: "dag_shape d" using assms(2) by (simp add: dag_wf_def)
  note S = shapeD[OF d] and M = migrate_simps [OF assms(1), of d]
  have closed: "set (targets ?d n) \<subseteq> dom (d_nodes ?d)" for n
    using S(4)[of old] S(4)[of n] unfolding M by (auto simp: renamed_def)
  have dist: "distinct (targets ?d n)" for n
  proof -
    have inj: "inj_on (renamed old new) (set (targets d k))" for k
      using renamed_inj [of d new old] assms(3) S(4)[of k] inj_on_subset by blast
    show ?thesis using S(5) inj by (simp add: M distinct_map)
  qed
  have step: "n_step x = n" if "d_nodes ?d n = Some x" for n x
    using that S(3)[of n x] assms(1) by (auto simp: migrate_node_def Let_def node_ok_def split: if_splits)
  have "finite (dom (d_nodes ?d))" "dom (d_edges ?d) \<subseteq> dom (d_nodes ?d)" using S(1,2) by (auto simp: M)
  note R = recalculate_shape [OF this step closed dist assms(5)]
  show edges: "dag_edges d' = (\<lambda>(a, b). (renamed old new a, renamed old new b)) ` dag_edges d"
    using R(2) migrate_edges [OF assms(1) d assms(3)] by (simp add: d'_def)
  have "acyclic (dag_edges d')"
    unfolding edges
    by (rule acyclic_renamed [where N = "dom (d_nodes d)"])
      (use assms(2,3) edge_ends [OF d] renamed_inj [of d new old] in \<open>auto simp: dag_wf_def\<close>)
  with R(1) show "dag_wf d'" by (simp add: dag_wf_def d'_def)
  show "dom (d_nodes d') = insert new (dom (d_nodes d) - {old})" using R(3) M(3) by (simp add: d'_def)
qed

lemma add_new_deps_simps:
  "d_nodes (add_new_deps n deps d) = d_nodes d"
  "set (targets (add_new_deps n deps d) m) = set (targets d m) \<union> (if m \<in> set deps then {n} else {})"
  "(\<And>m. distinct (targets d m)) \<Longrightarrow> distinct (targets (add_new_deps n deps d) m)"
  "dom (d_edges (add_new_deps n deps d)) \<subseteq> dom (d_edges d) \<union> set deps"
  unfolding add_new_deps_def
  by (induction deps arbitrary: d) (auto split: if_splits, fastforce+)

lemma wf_add_new_deps:
  assumes "dag_wf d" "n \<in> dom (d_nodes d)" "set deps \<subseteq> dom (d_nodes d)"
    "acyclic (dag_edges d \<union> (\<lambda>p. (p, n)) ` set deps)"
    "range_order (d_edges (add_new_deps n deps d)) ord"
  defines "d' \<equiv> recalculate_degrees ord (add_new_deps n deps d)"
  shows "dag_wf d'" "dom (d_nodes d') = dom (d_nodes d)"
    "dag_edges d' = dag_edges d \<union> (\<lambda>p. (p, n)) ` set deps"
proof -
  let ?d = "add_new_deps n deps d"
  have d: "dag_shape d" using assms(1) by (simp add: dag_wf_def)
  note S = shapeD[OF d] and A = add_new_deps_simps [where n = n and deps = deps and d = d]
  have "finite (dom (d_nodes ?d))" using S(1) A(1) by simp
  moreover have "dom (d_edges ?d) \<subseteq> dom (d_nodes ?d)" using A(4) S(2) assms(3) unfolding A(1) by blast
  moreover have "n_step x = k" if "d_nodes ?d k = Some x" for k x
    using that S(3)[of k x] A(1) by (simp add: node_ok_def)
  moreover have "set (targets ?d k) \<subseteq> dom (d_nodes ?d)" for k
    using S(4)[of k] A(1,2) assms(2) by auto
  ultimately have R: "dag_shape d'" "targets d' = targets ?d" "dom (d_nodes d') = dom (d_nodes ?d)"
    unfolding d'_def using recalculate_shape [of ?d ord] A(3)[OF S(5)] assms(5) by blast+
  show edges: "dag_edges d' = dag_edges d \<union> (\<lambda>p. (p, n)) ` set deps"
    by (auto simp: R(2) edge_rel_def A(2) split: if_splits)
  from R(1) edges assms(4) show "dag_wf d'" by (simp add: dag_wf_def)
  show "dom (d_nodes d') = dom (d_nodes d)" using R(3) A(1) by simp
qed

section \<open>The simulated graph of a replacement\<close>

lemma read_append_to: "read_adj (append_to n t adj) m = (if m = n then read_adj adj n @ [t] else read_adj adj m)"
  by (simp add: append_to_def read_adj_def)

lemma dom_append_to: "dom (append_to n t adj) = insert n (dom adj)"
  by (auto simp: append_to_def)

lemma fold_append_to:
  "n \<in> dom adj \<Longrightarrow> f ` set ts \<subseteq> dom adj \<Longrightarrow>
   dom (fold (\<lambda>t adj. if adj (f t) = None then adj else append_to n (f t) adj) ts adj) = dom adj \<and>
   read_adj (fold (\<lambda>t adj. if adj (f t) = None then adj else append_to n (f t) adj) ts adj) m =
     read_adj adj m @ (if m = n then map f ts else [])"
proof (induction ts arbitrary: adj)
  case (Cons t ts)
  have dom: "dom (append_to n (f t) adj) = dom adj" using Cons.prems(1) by (auto simp: dom_append_to)
  obtain y where t: "adj (f t) = Some y" using Cons.prems(2) by auto
  have "n \<in> dom (append_to n (f t) adj)" "f ` set ts \<subseteq> dom (append_to n (f t) adj)"
    using Cons.prems unfolding dom by simp_all
  from Cons.IH [OF this] dom t show ?case by (simp add: read_append_to)
qed simp

lemma sim_source_spec:
  assumes "renamed old new ` dom (d_nodes d) \<subseteq> dom adj" "dag_shape d" "src \<in> dom (d_nodes d)"
  shows "dom (sim_source old new d src adj) = dom adj"
    "read_adj (sim_source old new d src adj) m = read_adj adj m @
       (if m = renamed old new src then map (renamed old new) (targets d src) else [])"
proof -
  have a: "renamed old new src \<in> dom adj" using assms(1,3) by auto
  then obtain y where y: "adj (renamed old new src) = Some y" by auto
  have b: "renamed old new ` set (targets d src) \<subseteq> dom adj" using assms(1) shapeD(4)[OF assms(2), of src] by (meson image_mono subset_trans)
  have s: "sim_source old new d src adj = fold (\<lambda>t adj. if adj (renamed old new t) = None then adj
      else append_to (renamed old new src) (renamed old new t) adj) (targets d src) adj"
    by (simp add: sim_source_def y)
  show "dom (sim_source old new d src adj) = dom adj"
    "read_adj (sim_source old new d src adj) m = read_adj adj m @
       (if m = renamed old new src then map (renamed old new) (targets d src) else [])"
    unfolding s using fold_append_to [OF a b] by blast+
qed

lemma fold_sim_source:
  "renamed old new ` dom (d_nodes d) \<subseteq> dom adj \<Longrightarrow> dag_shape d \<Longrightarrow> set ks \<subseteq> dom (d_nodes d) \<Longrightarrow>
   dom (fold (sim_source old new d) ks adj) = dom adj \<and>
   set (read_adj (fold (sim_source old new d) ks adj) m) = set (read_adj adj m) \<union>
     {renamed old new b | a b. a \<in> set ks \<and> b \<in> set (targets d a) \<and> m = renamed old new a}"
proof (induction ks arbitrary: adj)
  case (Cons src ks)
  then have src: "src \<in> dom (d_nodes d)" by simp
  note sp = sim_source_spec [OF Cons.prems(1,2) src]
  from Cons.IH [of "sim_source old new d src adj"] Cons.prems sp show ?case by auto
qed simp

lemma fold_append_deps:
  "dom (fold (\<lambda>dep. append_to dep n) deps adj) = dom adj \<union> set deps \<and>
   set (read_adj (fold (\<lambda>dep. append_to dep n) deps adj) m) = set (read_adj adj m) \<union> (if m \<in> set deps then {n} else {})"
  by (induction deps arbitrary: adj) (auto simp: read_append_to dom_append_to)

lemma simulated_spec:
  assumes "dag_shape d" "old \<in> dom (d_nodes d)" "range_order (d_edges d) ord"
  shows "dom (simulated ord old new deps d) = renamed old new ` dom (d_nodes d) \<union> set deps"
    "edge_rel (read_adj (simulated ord old new deps d)) =
       (\<lambda>(a, b). (renamed old new a, renamed old new b)) ` dag_edges d \<union> (\<lambda>p. (p, new)) ` set deps"
proof -
  let ?r = "renamed old new"
  have dom0: "dom (sim_nodes old new d) = ?r ` dom (d_nodes d)"
    using assms(2) by (auto simp: sim_nodes_def renamed_def domIff image_iff split: if_splits)
  have empty: "read_adj (sim_nodes old new d) m = []" for m
    by (simp add: read_adj_def sim_nodes_def split: option.splits)
  have ks: "set ord \<subseteq> dom (d_nodes d)" "range_keys (d_edges d) ord = ord"
    using shapeD(2)[OF assms(1)] assms(3) by (auto simp: range_order_def range_order_keys)
  note F = fold_sim_source [OF _ assms(1) ks(1), of old new "sim_nodes old new d"]
  show "dom (simulated ord old new deps d) = ?r ` dom (d_nodes d) \<union> set deps"
    using F dom0 by (simp add: simulated_def fold_append_deps ks(2))
  have none: "b \<in> set (targets d a) \<Longrightarrow> a \<in> set ord" for a b
    using assms(3) by (auto simp: targets_def range_order_def split: option.splits)
  have "set (read_adj (simulated ord old new deps d) m) =
      {?r b | a b. b \<in> set (targets d a) \<and> m = ?r a} \<union> (if m \<in> set deps then {new} else {})" for m
  proof -
    have "{?r b | a b. a \<in> set ord \<and> b \<in> set (targets d a) \<and> m = ?r a} =
      {?r b | a b. b \<in> set (targets d a) \<and> m = ?r a}" using none by blast
    with F [of m] dom0 empty show ?thesis by (simp add: simulated_def fold_append_deps ks(2))
  qed
  then show "edge_rel (read_adj (simulated ord old new deps d)) =
       (\<lambda>(a, b). (?r a, ?r b)) ` dag_edges d \<union> (\<lambda>p. (p, new)) ` set deps"
    by (auto simp: edge_rel_def split: if_splits)
qed

lemma replacement_check_exact:
  assumes "dag_shape d" "old \<in> dom (d_nodes d)" "range_order (d_edges d) eord"
    "range_order (simulated eord old new deps d) aord"
  shows "has_cycle_in_adj aord (simulated eord old new deps d) =
    Some (\<not> acyclic ((\<lambda>(a, b). (renamed old new a, renamed old new b)) ` dag_edges d \<union> (\<lambda>p. (p, new)) ` set deps))"
proof -
  let ?s = "simulated eord old new deps d"
  note S = simulated_spec [OF assms(1-3)]
  have "new \<in> dom ?s" using assms(2) by (auto simp: S(1) renamed_def image_iff intro: bexI [of _ old])
  moreover have "b \<in> dom ?s" if "b \<in> set (read_adj ?s a)" for a b
  proof -
    from that have "(a, b) \<in> edge_rel (read_adj ?s)" by (simp add: edge_rel_def)
    with S(2) edge_ends [OF assms(1)] \<open>new \<in> dom ?s\<close> show ?thesis by (auto simp: S(1))
  qed
  moreover have "finite (dom ?s)" using shapeD(1)[OF assms(1)] by (simp add: S(1))
  moreover have "read_adj ?s n = []" if "n \<notin> dom ?s" for n
    using that by (simp add: read_adj_def domIff)
  ultimately have "closed_graph (dom ?s) (read_adj ?s)" unfolding closed_graph_def by blast
  from visit_roots_cycle [OF this order_refl, of aord] assms(4) S(2) show ?thesis
    by (simp add: has_cycle_in_adj_def range_order_keys range_order_def)
qed

end
