(* ===== verification/Workflow_Props.thy ===== *)
theory Workflow_Props
  imports Workflow_Mutations
begin

text \<open>
  The live workflow graph as a system of edits: well-formedness of every reachable graph, the
  execution order, and what each edit accepts, does and refuses.
\<close>

section \<open>The graph as a transition system\<close>

text \<open>How the runtime enumerates the keys of a map, chosen anew in every operation.\<close>

type_synonym enumeration = "string set \<Rightarrow> string list"

definition enumerates :: "enumeration \<Rightarrow> bool" where
  "enumerates en \<longleftrightarrow> (\<forall>S. finite S \<longrightarrow> distinct (en S) \<and> set (en S) = S)"

definition after_replace :: "string \<Rightarrow> 'b wf_step \<Rightarrow> dag \<Rightarrow> dag" where
  "after_replace old s d =
     (if st_id s \<noteq> old then migrate_node old (st_id s) d else add_new_deps old (st_deps s) d)"

definition orders_by :: "enumeration \<Rightarrow> string \<Rightarrow> 'b wf_step option \<Rightarrow> 'b mdag \<Rightarrow> map_orders" where
  "orders_by en old step m =
     (let d = m_dag m; eord = en (dom (d_edges d)) in
      \<lparr>mo_edges = eord, mo_steps = en (dom (m_steps m)),
       mo_adj = (case step of None \<Rightarrow> [] | Some s \<Rightarrow> en (dom (simulated eord old (st_id s) (st_deps s) d))),
       mo_after = (case step of None \<Rightarrow> [] | Some s \<Rightarrow> en (dom (d_edges (after_replace old s d))))\<rparr>)"

datatype 'b dag_op =
    DAddNode bool time "'b wf_step option"
  | DRemoveNode enumeration bool time string
  | DAddEdge bool time string string
  | DRemoveEdge bool time string string
  | DReplaceNode enumeration bool time string "'b wf_step option"
  | DScheduler string
  | DSubscribe
  | DUnsubscribe string
  | DReceive string

fun exec_dag :: "'b dag_op \<Rightarrow> 'b mdag \<Rightarrow> 'b mdag" where
  "exec_dag (DAddNode c now step) m = snd (add_node c now step m)"
| "exec_dag (DRemoveNode en c now n) m = snd (remove_node (orders_by en n None m) c now n m)"
| "exec_dag (DAddEdge c now a b) m = snd (add_edge c now a b m)"
| "exec_dag (DRemoveEdge c now a b) m = snd (remove_edge c now a b m)"
| "exec_dag (DReplaceNode en c now old step) m = snd (replace_node (orders_by en old step m) c now old step m)"
| "exec_dag (DScheduler sched) m = m\<lparr>m_scheduler := sched\<rparr>"
| "exec_dag DSubscribe m = m\<lparr>m_hub := snd (hub_subscribe (m_hub m))\<rparr>"
| "exec_dag (DUnsubscribe sid) m = m\<lparr>m_hub := hub_unsubscribe sid (m_hub m)\<rparr>"
| "exec_dag (DReceive sid) m = m\<lparr>m_hub := snd (hub_receive sid (m_hub m))\<rparr>"

fun dag_op_ok :: "'b dag_op \<Rightarrow> bool" where
  "dag_op_ok (DRemoveNode en c now n) = enumerates en"
| "dag_op_ok (DReplaceNode en c now old step) = enumerates en"
| "dag_op_ok _ = True"

lemma enumerates_order: "enumerates en \<Longrightarrow> finite (dom m) \<Longrightarrow> range_order m (en (dom m))"
  by (simp add: enumerates_def range_order_def)

section \<open>What every edit does to the graph\<close>

lemma dag_publish [simp]:
  "m_dag (publish_change ev m) = m_dag m" "m_steps (publish_change ev m) = m_steps m"
  "m_version (publish_change ev m) = m_version m"
  by (simp_all add: publish_change_def)

lemma dag_edit_deps [simp]: "m_dag (edit_deps n g m) = m_dag m"
  by (simp add: edit_deps_def split: option.splits)

lemma edges_finite: "dag_shape d \<Longrightarrow> finite (dom (d_edges d))"
  by (rule finite_subset [OF shapeD(2) shapeD(1)])

lemma add_node_refused:
  assumes "dag_wf (m_dag m)" "add_node c now step m = (Inl e, m')"
  shows "targets (m_dag m') = targets (m_dag m)" "d_nodes (m_dag m') = d_nodes (m_dag m)"
    "m_steps m' = m_steps m" "m_version m' = m_version m" "m_hub m' = m_hub m" "dag_wf (m_dag m')"
proof -
  have sh: "dag_shape (m_dag m)" using assms(1) by (simp add: dag_wf_def)
  have *: "targets (m_dag m') = targets (m_dag m) \<and> d_nodes (m_dag m') = d_nodes (m_dag m) \<and>
    m_steps m' = m_steps m \<and> m_version m' = m_version m \<and> m_hub m' = m_hub m \<and>
    dom (d_edges (m_dag m')) \<subseteq> dom (d_nodes (m_dag m))"
  proof (cases "\<exists>s. \<not> c \<and> step = Some s \<and> trim_space (st_id s) \<noteq> '''' \<and> d_nodes (m_dag m) (trim_space (st_id s)) = None")
    case True
    then obtain s where s: "\<not> c" "step = Some s" "trim_space (st_id s) \<noteq> ''''"
      "d_nodes (m_dag m) (trim_space (st_id s)) = None" by blast
    let ?n = "trim_space (st_id s)"
    obtain d where d: "add_deps ?n (st_deps s) [] [] (add_dag_node ?n (m_dag m)) = (Inl e, d)"
      "m' = m\<lparr>m_dag := d\<rparr>"
      using assms(2) s by (auto simp: add_node_def Let_def split: prod.splits sum.splits)
    have "?n \<notin> set (targets (m_dag m) a)" for a
      using preds_no_node [OF sh s(4)] by (auto simp: preds_def)
    with add_deps_refused [OF d(1), of "add_dag_node ?n (m_dag m)"]
    have "targets d = targets (m_dag m)" "d_nodes d = d_nodes (m_dag m)"
      "dom (d_edges d) \<subseteq> dom (d_edges (m_dag m)) \<union> (insert ?n (dom (d_nodes (m_dag m))) - {?n})"
      using s(4) by (simp_all add: fun_upd_idem)
    moreover from this(3) have "dom (d_edges d) \<subseteq> dom (d_nodes (m_dag m))"
      using shapeD(2)[OF sh] s(4) by blast
    ultimately show ?thesis using d(2) by simp
  next
    case False
    with assms(2) have "m' = m" by (auto simp: add_node_def Let_def split: option.splits if_splits)
    then show ?thesis using shapeD(2)[OF sh] by simp
  qed
  then show "targets (m_dag m') = targets (m_dag m)" "d_nodes (m_dag m') = d_nodes (m_dag m)"
    "m_steps m' = m_steps m" "m_version m' = m_version m" "m_hub m' = m_hub m" by blast+
  have "preds (m_dag m') = preds (m_dag m)" using * by (simp add: preds_def fun_eq_iff)
  with * assms(1) show "dag_wf (m_dag m')" unfolding dag_wf_def dag_shape_def node_ok_def by simp
qed

lemma add_node_done:
  assumes "dag_wf (m_dag m)" "add_node c now step m = (Inr u, m')"
  obtains s where "step = Some s" "dag_wf (m_dag m')" "trim_space (st_id s) \<notin> dom (d_nodes (m_dag m))"
    "dom (d_nodes (m_dag m')) = insert (trim_space (st_id s)) (dom (d_nodes (m_dag m)))"
    "dag_edges (m_dag m') = dag_edges (m_dag m) \<union> (\<lambda>p. (p, trim_space (st_id s))) ` clean_deps (st_deps s)"
    "clean_deps (st_deps s) \<subseteq> dom (d_nodes (m_dag m'))"
    "m_steps m' = (m_steps m)(trim_space (st_id s) \<mapsto> s)" "m_version m' = m_version m + 1"
proof -
  from assms(2) obtain s d where s: "step = Some s" "d_nodes (m_dag m) (trim_space (st_id s)) = None"
    "add_deps (trim_space (st_id s)) (st_deps s) [] [] (add_dag_node (trim_space (st_id s)) (m_dag m)) = (Inr (), d)"
    "m_dag m' = d" "m_steps m' = (m_steps m)(trim_space (st_id s) \<mapsto> s)" "m_version m' = m_version m + 1"
    by (auto simp: add_node_def Let_def split: option.splits if_splits prod.splits sum.splits)
  let ?n = "trim_space (st_id s)"
  have d0: "dag_wf (add_dag_node ?n (m_dag m))" using wf_add_node assms(1) s(2) by blast
  have none: "preds (add_dag_node ?n (m_dag m)) ?n = set []"
    using preds_no_node [OF _ s(2)] assms(1) by (simp add: preds_def dag_wf_def)
  have "?n \<in> dom (d_nodes (add_dag_node ?n (m_dag m)))" by simp
  from add_deps_wf [OF d0 this none s(3)] that s show thesis
    by (simp del: add_dag_node_simps(3)) (metis add_dag_node_simps(1) domIff)
qed

lemma add_node_accepts:
  assumes "dag_wf (m_dag m)" "trim_space (st_id s) \<noteq> ''''"
    "trim_space (st_id s) \<notin> dom (d_nodes (m_dag m))" "clean_deps (st_deps s) \<subseteq> dom (d_nodes (m_dag m))"
  shows "\<exists>m'. add_node False now (Some s) m = (Inr (), m')"
proof -
  let ?n = "trim_space (st_id s)" and ?d = "add_dag_node (trim_space (st_id s)) (m_dag m)"
  have n: "d_nodes (m_dag m) ?n = None" using assms(3) by blast
  have sh: "dag_shape (m_dag m)" using assms(1) by (simp add: dag_wf_def)
  have d: "dag_wf ?d" using wf_add_node assms(1) n by blast
  have t: "targets ?d ?n = []" using shape_no_targets [OF sh n] by simp
  have "clean_deps (st_deps s) \<subseteq> dom (d_nodes ?d) - {?n}"
    using assms(3,4) by (auto simp del: add_dag_node_simps(3))
  moreover have "preds ?d ?n = set []" using preds_no_node [OF sh n] by (simp add: preds_def)
  ultimately obtain d' where "add_deps ?n (st_deps s) [] [] ?d = (Inr (), d')"
    using add_deps_accepts [OF d _ t, of "st_deps s" "[]" "[]"] by (auto simp del: add_dag_node_simps(3))
  with assms(2) n show ?thesis by (simp add: add_node_def Let_def)
qed

lemma remove_node_done:
  assumes "dag_wf (m_dag m)" "range_order (d_edges (m_dag m)) (mo_edges mo)"
    "remove_node mo c now n m = (Inr u, m')"
  shows "dag_wf (m_dag m')" "dom (d_nodes (m_dag m')) = dom (d_nodes (m_dag m)) - {n}"
    "dag_edges (m_dag m') = {(a, b) \<in> dag_edges (m_dag m). a \<noteq> n \<and> b \<noteq> n}"
    "m_steps m' = (m_steps m)(n := None)" "n \<in> dom (d_nodes (m_dag m))" "\<not> has_dependents (mo_steps mo) n m"
proof -
  from assms(3) have e: "m_dag m' = del_dag_node n (detach (mo_edges mo) n (m_dag m))"
    "m_steps m' = (m_steps m)(n := None)" "n \<in> dom (d_nodes (m_dag m))" "\<not> has_dependents (mo_steps mo) n m"
    by (auto simp: remove_node_def Let_def domIff split: if_splits)
  show "m_steps m' = (m_steps m)(n := None)" "n \<in> dom (d_nodes (m_dag m))" "\<not> has_dependents (mo_steps mo) n m"
    by (rule e)+
  show "dag_wf (m_dag m')" "dom (d_nodes (m_dag m')) = dom (d_nodes (m_dag m)) - {n}"
    "dag_edges (m_dag m') = {(a, b) \<in> dag_edges (m_dag m). a \<noteq> n \<and> b \<noteq> n}"
    unfolding e(1) by (rule wf_remove [OF assms(1,2)])+
qed

lemma remove_node_refused: "remove_node mo c now n m = (Inl e, m') \<Longrightarrow> m_dag m' = m_dag m \<and> m_steps m' = m_steps m"
  by (auto simp: remove_node_def Let_def split: if_splits)

lemma add_edge_cases:
  assumes "dag_wf (m_dag m)"
  shows "if \<not> c \<and> a \<in> dom (d_nodes (m_dag m)) \<and> b \<in> dom (d_nodes (m_dag m)) \<and> (a, b) \<notin> dag_edges (m_dag m)
            \<and> (b, a) \<notin> (dag_edges (m_dag m))\<^sup>*
         then \<exists>m'. add_edge c now a b m = (Inr (), m') \<and> dag_wf (m_dag m') \<and>
           dom (d_nodes (m_dag m')) = dom (d_nodes (m_dag m)) \<and> dag_edges (m_dag m') = insert (a, b) (dag_edges (m_dag m)) \<and>
           m_steps m' = m_steps (edit_deps b (\<lambda>deps. deps @ [a]) m)
         else \<exists>e m'. add_edge c now a b m = (Inl e, m') \<and> m_dag m' = m_dag m \<and> m_steps m' = m_steps m"
proof -
  have sh: "dag_shape (m_dag m)" using assms by (simp add: dag_wf_def)
  have st: "m_steps (edit_deps b g (m\<lparr>m_dag := d, m_version := v\<rparr>)) = m_steps (edit_deps b g m)" for g d v
    by (simp add: edit_deps_def split: option.splits)
  show ?thesis
    using would_create_cycle_exact [OF sh, of b a] wf_link [OF assms, of a b] st
    by (auto simp: add_edge_def Let_def edge_rel_def [of "targets (m_dag m)"] edges_link domIff)
qed

lemma remove_edge_cases:
  assumes "dag_wf (m_dag m)"
  shows "if \<not> c \<and> (a, b) \<in> dag_edges (m_dag m)
         then \<exists>m'. remove_edge c now a b m = (Inr (), m') \<and> dag_wf (m_dag m') \<and>
           dom (d_nodes (m_dag m')) = dom (d_nodes (m_dag m)) \<and> dag_edges (m_dag m') = dag_edges (m_dag m) - {(a, b)} \<and>
           m_steps m' = m_steps (edit_deps b (filter (\<lambda>dep. dep \<noteq> a)) m)
         else \<exists>e. remove_edge c now a b m = (Inl e, m)"
proof -
  have sh: "dag_shape (m_dag m)" using assms by (simp add: dag_wf_def)
  have st: "m_steps (edit_deps b g (m\<lparr>m_dag := d, m_version := v\<rparr>)) = m_steps (edit_deps b g m)" for g d v
    by (simp add: edit_deps_def split: option.splits)
  have ends: "a \<in> dom (d_nodes (m_dag m)) \<and> b \<in> dom (d_nodes (m_dag m))" if "(a, b) \<in> dag_edges (m_dag m)"
    using edge_ends [OF sh that] .
  show ?thesis
  proof (cases "(a, b) \<in> dag_edges (m_dag m)")
    case True
    with ends wf_unlink [OF assms] edges_unlink [OF sh, of a b] st show ?thesis
      by (auto simp: remove_edge_def edge_rel_def [of "targets (m_dag m)"])
  next
    case False
    then show ?thesis by (auto simp: remove_edge_def edge_rel_def [of "targets (m_dag m)"])
  qed
qed

text \<open>Replacing under the orders the runtime may choose.\<close>

definition replace_orders :: "map_orders \<Rightarrow> string \<Rightarrow> 'b wf_step \<Rightarrow> 'b mdag \<Rightarrow> bool" where
  "replace_orders mo old s m \<longleftrightarrow>
     range_order (d_edges (m_dag m)) (mo_edges mo) \<and>
     range_order (simulated (mo_edges mo) old (st_id s) (st_deps s) (m_dag m)) (mo_adj mo) \<and>
     range_order (d_edges (after_replace old s (m_dag m))) (mo_after mo)"

text \<open>The edges a replacement checks for cycles: those of the graph after renaming and the declared ones.\<close>

definition replaced_edges :: "string \<Rightarrow> 'b wf_step \<Rightarrow> dag \<Rightarrow> (string \<times> string) set" where
  "replaced_edges old s d = (\<lambda>(a, b). (renamed old (st_id s) a, renamed old (st_id s) b)) ` dag_edges d"

definition checked_edges :: "string \<Rightarrow> 'b wf_step \<Rightarrow> dag \<Rightarrow> (string \<times> string) set" where
  "checked_edges old s d = replaced_edges old s d \<union> (\<lambda>p. (p, st_id s)) ` set (st_deps s)"

lemma replaced_edges_same: "st_id s = old \<Longrightarrow> replaced_edges old s d = dag_edges d"
  by (auto simp: replaced_edges_def renamed_def)

lemma replace_node_cases:
  assumes "dag_wf (m_dag m)" "replace_orders mo old s m"
  shows "if st_id s \<noteq> '''' \<and> old \<in> dom (d_nodes (m_dag m)) \<and> (st_id s = old \<or> st_id s \<notin> dom (d_nodes (m_dag m)))
            \<and> set (st_deps s) \<subseteq> dom (d_nodes (m_dag m)) - {st_id s} \<and> acyclic (checked_edges old s (m_dag m))
         then \<exists>m'. replace_node mo False now old (Some s) m = (Inr (), m') \<and> dag_wf (m_dag m') \<and>
           dom (d_nodes (m_dag m')) = insert (st_id s) (dom (d_nodes (m_dag m)) - {old}) \<and>
           dag_edges (m_dag m') = (if st_id s = old then checked_edges old s (m_dag m) else replaced_edges old s (m_dag m)) \<and>
           m_steps m' (st_id s) = Some s \<and> m_version m' = m_version m + 1
         else \<exists>e. replace_node mo False now old (Some s) m = (Inl e, m)"
proof -
  let ?d = "m_dag m"
  have sh: "dag_shape ?d" using assms(1) by (simp add: dag_wf_def)
  from assms(2) have o: "range_order (d_edges ?d) (mo_edges mo)"
    "range_order (simulated (mo_edges mo) old (st_id s) (st_deps s) ?d) (mo_adj mo)"
    "range_order (d_edges (after_replace old s ?d)) (mo_after mo)"
    by (simp_all add: replace_orders_def)
  have check: "has_cycle_in_adj (mo_adj mo) (simulated (mo_edges mo) old (st_id s) (st_deps s) ?d)
      = Some (\<not> acyclic (checked_edges old s ?d))" if "old \<in> dom (d_nodes ?d)"
    using replacement_check_exact [OF sh that o(1,2)] by (simp add: checked_edges_def replaced_edges_def)
  show ?thesis
  proof (cases "st_id s \<noteq> '''' \<and> old \<in> dom (d_nodes ?d) \<and> (st_id s = old \<or> st_id s \<notin> dom (d_nodes ?d))
            \<and> set (st_deps s) \<subseteq> dom (d_nodes ?d) - {st_id s} \<and> acyclic (checked_edges old s ?d)")
    case True
    then have t3: "st_id s \<noteq> []" "old \<in> dom (d_nodes ?d)" "st_id s = old \<or> d_nodes ?d (st_id s) = None"
      "st_id s \<notin> set (st_deps s)" "set (st_deps s) \<subseteq> dom (d_nodes ?d)" "acyclic (checked_edges old s ?d)"
      by auto
    then obtain x where "d_nodes ?d old = Some x" by blast
    note t = t3(1) this t3(2-6)
    have deps: "\<not> list_ex (\<lambda>dep. d_nodes ?d dep = None) (st_deps s)"
      using t(6) by (auto simp: list_ex_iff)
    show ?thesis
    proof (cases "st_id s = old")
      case False
      with t(4) have new: "d_nodes ?d (st_id s) = None" by simp
      have o3: "range_order (d_edges (migrate_node old (st_id s) ?d)) (mo_after mo)"
        using o(3) False by (simp add: after_replace_def)
      have old: "d_nodes ?d old \<noteq> None" using t(2) by simp
      note W = wf_migrate [OF False assms(1) new old o3]
      show ?thesis
        using True t(1,2,5,6) deps new False check [OF t(3)] t(7) W
        by (simp add: replace_node_def Let_def migrate_steps_def replaced_edges_def)
    next
      case same: True
      have o3: "range_order (d_edges (add_new_deps old (st_deps s) ?d)) (mo_after mo)"
        using o(3) same by (simp add: after_replace_def)
      have ac: "acyclic (dag_edges ?d \<union> (\<lambda>p. (p, old)) ` set (st_deps s))"
        using t(7) same by (simp add: checked_edges_def replaced_edges_same)
      note W = wf_add_new_deps [OF assms(1) t(3,6) ac o3]
      have "insert old (dom (d_nodes ?d) - {old}) = dom (d_nodes ?d)" using t(3) by blast
      then show ?thesis
        using True t(1,2,5,6) deps same check [OF t(3)] t(7) W
        by (simp add: replace_node_def Let_def checked_edges_def replaced_edges_same)
    qed
  next
    case False
    have le: "list_ex (\<lambda>dep. d_nodes ?d dep = None) (st_deps s) \<longleftrightarrow> \<not> set (st_deps s) \<subseteq> dom (d_nodes ?d)"
      by (auto simp: list_ex_iff)
    have "\<exists>e. replace_node mo False now old (Some s) m = (Inl e, m)"
    proof (cases "old \<in> dom (d_nodes ?d)")
      case old: True
      let ?cyc = "has_cycle_in_adj (mo_adj mo) (simulated (mo_edges mo) old (st_id s) (st_deps s) ?d)"
      have "st_id s = [] \<or> (st_id s \<noteq> old \<and> d_nodes ?d (st_id s) \<noteq> None) \<or> st_id s \<in> set (st_deps s) \<or>
        list_ex (\<lambda>dep. d_nodes ?d dep = None) (st_deps s) \<or> ?cyc \<noteq> Some False"
        using False old check [OF old] unfolding le by (simp add: domIff subset_Diff_insert) auto
      then show ?thesis unfolding replace_node_def Let_def by (elim disjE) (auto split: if_split)
    qed (auto simp: replace_node_def Let_def)
    then show ?thesis unfolding if_not_P [OF False] .
  qed
qed

section \<open>Every reachable graph is well-formed\<close>

lemma finite_after_replace:
  assumes "dag_shape d"
  shows "finite (dom (d_edges (after_replace old s d)))"
proof (cases "st_id s = old")
  case True
  have "finite (dom (d_edges d) \<union> set (st_deps s))" using edges_finite [OF assms] by simp
  then have "finite (dom (d_edges (add_new_deps old (st_deps s) d)))"
    by (rule finite_subset [OF add_new_deps_simps(4)])
  with True show ?thesis by (simp add: after_replace_def)
next
  case False
  with edges_finite [OF assms] show ?thesis by (simp add: after_replace_def migrate_simps)
qed

lemma orders_by_replace:
  assumes "dag_shape (m_dag m)" "old \<in> dom (d_nodes (m_dag m))" "enumerates en"
  shows "replace_orders (orders_by en old (Some s) m) old s m"
proof -
  let ?d = "m_dag m"
  have e: "range_order (d_edges ?d) (en (dom (d_edges ?d)))"
    by (rule enumerates_order [OF assms(3) edges_finite [OF assms(1)]])
  have "finite (dom (simulated (en (dom (d_edges ?d))) old (st_id s) (st_deps s) ?d))"
    using shapeD(1)[OF assms(1)] by (simp add: simulated_spec(1)[OF assms(1,2) e])
  from enumerates_order [OF assms(3) this] enumerates_order [OF assms(3) finite_after_replace [OF assms(1)]] e
  show ?thesis by (simp add: replace_orders_def orders_by_def Let_def)
qed

lemma replace_node_keeps_wf:
  assumes "dag_wf (m_dag m)" "enumerates en"
  shows "dag_wf (m_dag (snd (replace_node (orders_by en old step m) c now old step m)))"
proof (cases "c \<or> step = None \<or> old \<notin> dom (d_nodes (m_dag m))")
  case True
  then have "snd (replace_node (orders_by en old step m) c now old step m) = m"
    by (auto simp: replace_node_def Let_def domIff simp del: not_None_eq split: option.splits)
  with assms(1) show ?thesis by simp
next
  case False
  then obtain s where s: "\<not> c" "step = Some s" "old \<in> dom (d_nodes (m_dag m))" by auto
  have "replace_orders (orders_by en old (Some s) m) old s m"
    using orders_by_replace [OF _ s(3) assms(2)] assms(1) by (simp add: dag_wf_def)
  from replace_node_cases [OF assms(1) this, of now] s(1,2) assms(1) show ?thesis
    by (auto split: if_splits)
qed

interpretation live_graph: invariant_system exec_dag dag_op_ok "\<lambda>m. dag_wf (m_dag m)"
proof
  show "dag_wf (m_dag (exec_dag x m))" if wf: "dag_wf (m_dag m)" and ok: "dag_op_ok x" for m x
  proof (cases x)
    case (DAddNode c now step)
    show ?thesis
    proof (cases "fst (add_node c now step m)")
      case (Inl e)
      then have "add_node c now step m = (Inl e, snd (add_node c now step m))" by (simp add: prod_eq_iff)
      from add_node_refused(6)[OF wf this] DAddNode show ?thesis by simp
    next
      case (Inr u)
      then have "add_node c now step m = (Inr u, snd (add_node c now step m))" by (simp add: prod_eq_iff)
      from add_node_done [OF wf this] DAddNode show ?thesis by auto
    qed
  next
    case (DRemoveNode en c now n)
    let ?mo = "orders_by en n None m"
    have o: "range_order (d_edges (m_dag m)) (mo_edges ?mo)"
      using enumerates_order [OF _ edges_finite, of en "m_dag m"] wf ok DRemoveNode by (simp add: orders_by_def Let_def dag_wf_def)
    show ?thesis
    proof (cases "fst (remove_node ?mo c now n m)")
      case (Inl e)
      then have "remove_node ?mo c now n m = (Inl e, snd (remove_node ?mo c now n m))" by (simp add: prod_eq_iff)
      from remove_node_refused [OF this] wf DRemoveNode show ?thesis by simp
    next
      case (Inr u)
      then have "remove_node ?mo c now n m = (Inr u, snd (remove_node ?mo c now n m))" by (simp add: prod_eq_iff)
      from remove_node_done(1)[OF wf o this] DRemoveNode show ?thesis by simp
    qed
  next
    case (DAddEdge c now a b)
    with add_edge_cases [OF wf, of c a b now] wf show ?thesis by (auto split: if_splits)
  next
    case (DRemoveEdge c now a b)
    with remove_edge_cases [OF wf, of c a b now] wf show ?thesis by (auto split: if_splits)
  next
    case (DReplaceNode en c now old step)
    with replace_node_keeps_wf [OF wf] ok show ?thesis by simp
  qed (use wf in simp_all)
qed

end
