(* ===== verification/Workflow_Theorems.thy ===== *)
theory Workflow_Theorems
  imports Workflow_Props "HOL-Library.List_Lexorder" "HOL-Library.Char_ord"
begin

text \<open>The properties of workflow graphs.\<close>

section \<open>Declared dependencies and edges\<close>

definition deps_agree :: "'b mdag \<Rightarrow> bool" where
  "deps_agree m \<longleftrightarrow> dom (m_steps m) = dom (d_nodes (m_dag m)) \<and>
     (\<forall>n s. m_steps m n = Some s \<longrightarrow> st_id s = n \<and> set (st_deps s) = preds (m_dag m) n)"

text \<open>A step whose id and dependencies carry no surrounding white space.\<close>

definition trimmed_step :: "'b wf_step \<Rightarrow> bool" where
  "trimmed_step s \<longleftrightarrow> trim_space (st_id s) = st_id s \<and> clean_deps (st_deps s) = set (st_deps s)"

lemma deps_agree_edges:
  "deps_agree m \<longleftrightarrow> dom (m_steps m) = dom (d_nodes (m_dag m)) \<and>
     (\<forall>n s. m_steps m n = Some s \<longrightarrow> st_id s = n \<and> set (st_deps s) = {a. (a, n) \<in> dag_edges (m_dag m)})"
  by (simp add: deps_agree_def preds_def edge_rel_def)

lemma deps_agree_frame:
  "targets (m_dag m') = targets (m_dag m) \<Longrightarrow> d_nodes (m_dag m') = d_nodes (m_dag m) \<Longrightarrow> m_steps m' = m_steps m
    \<Longrightarrow> deps_agree m \<Longrightarrow> deps_agree m'"
  by (simp add: deps_agree_def preds_def)

lemma add_node_agrees:
  assumes "dag_wf (m_dag m)" "deps_agree m" "add_node c now step m = (Inr u, m')"
    "\<And>s. step = Some s \<Longrightarrow> trimmed_step s"
  shows "deps_agree m'"
proof -
  have sh: "dag_shape (m_dag m)" using assms(1) by (simp add: dag_wf_def)
  obtain s where s: "step = Some s" "trim_space (st_id s) \<notin> dom (d_nodes (m_dag m))"
    "dom (d_nodes (m_dag m')) = insert (trim_space (st_id s)) (dom (d_nodes (m_dag m)))"
    "dag_edges (m_dag m') = dag_edges (m_dag m) \<union> (\<lambda>p. (p, trim_space (st_id s))) ` clean_deps (st_deps s)"
    "m_steps m' = (m_steps m)(trim_space (st_id s) \<mapsto> s)"
    using add_node_done [OF assms(1,3)] by metis
  have t: "trim_space (st_id s) = st_id s" "clean_deps (st_deps s) = set (st_deps s)"
    using assms(4)[OF s(1)] by (simp_all add: trimmed_step_def)
  have fresh: "(a, st_id s) \<notin> dag_edges (m_dag m)" for a
    using edge_ends [OF sh, of a "st_id s"] s(2) t(1) by auto
  have "st_id x = n \<and> set (st_deps x) = {a. (a, n) \<in> dag_edges (m_dag m')}" if "m_steps m' n = Some x" for n x
    using that assms(2) s(4,5) t fresh by (auto simp: deps_agree_edges split: if_splits)
  moreover have "dom (m_steps m') = dom (d_nodes (m_dag m'))"
    using assms(2) s(3,5) t(1) by (simp add: deps_agree_edges)
  ultimately show ?thesis by (simp add: deps_agree_edges)
qed

lemma remove_node_agrees:
  assumes "dag_wf (m_dag m)" "deps_agree m" "range_order (d_edges (m_dag m)) (mo_edges mo)"
    "range_order (m_steps m) (mo_steps mo)" "remove_node mo c now n m = (Inr u, m')"
  shows "deps_agree m'"
proof -
  note R = remove_node_done [OF assms(1,3,5)]
  have no: "(n, k) \<notin> dag_edges (m_dag m)" if "k \<noteq> n" for k
  proof
    assume e: "(n, k) \<in> dag_edges (m_dag m)"
    have "k \<in> dom (d_nodes (m_dag m))" using edge_ends [OF _ e] assms(1) by (simp add: dag_wf_def)
    then obtain s where s: "m_steps m k = Some s"
      using assms(2) unfolding deps_agree_edges by (metis domD)
    with assms(2) e have "st_id s = k" "n \<in> set (st_deps s)" by (auto simp: deps_agree_edges)
    moreover have "k \<in> set (mo_steps mo)" using s assms(4) by (auto simp: range_order_def)
    ultimately have "has_dependents (mo_steps mo) n m"
      using s that assms(4) by (auto simp: has_dependents_def list_ex_iff intro!: bexI [of _ k])
    with R(6) show False by simp
  qed
  have "st_id x = k \<and> set (st_deps x) = {a. (a, k) \<in> dag_edges (m_dag m')}" if "m_steps m' k = Some x" for k x
    using that assms(2) R(3,4) no by (auto simp: deps_agree_edges split: if_splits)
  moreover have "dom (m_steps m') = dom (d_nodes (m_dag m'))"
    using assms(2) R(2,4) by (simp add: deps_agree_edges)
  ultimately show ?thesis by (simp add: deps_agree_edges)
qed

lemma edit_deps_steps:
  "m_steps (edit_deps b g m) n =
     (if n = b then map_option (\<lambda>s. s\<lparr>st_deps := g (st_deps s)\<rparr>) (m_steps m b) else m_steps m n)"
  by (simp add: edit_deps_def split: option.splits)

lemma add_edge_agrees:
  assumes "dag_wf (m_dag m)" "deps_agree m"
  shows "deps_agree (snd (add_edge c now a b m))"
proof (cases "\<not> c \<and> a \<in> dom (d_nodes (m_dag m)) \<and> b \<in> dom (d_nodes (m_dag m)) \<and> (a, b) \<notin> dag_edges (m_dag m)
            \<and> (b, a) \<notin> (dag_edges (m_dag m))\<^sup>*")
  case True
  with add_edge_cases [OF assms(1), of c a b now] obtain m' where m': "add_edge c now a b m = (Inr (), m')"
    "dom (d_nodes (m_dag m')) = dom (d_nodes (m_dag m))" "dag_edges (m_dag m') = insert (a, b) (dag_edges (m_dag m))"
    "m_steps m' = m_steps (edit_deps b (\<lambda>deps. deps @ [a]) m)" by auto
  have "dom (m_steps m') = dom (m_steps m)" by (auto simp: m'(4) edit_deps_steps split: if_splits)
  moreover have "st_id x = k \<and> set (st_deps x) = {y. (y, k) \<in> dag_edges (m_dag m')}" if "m_steps m' k = Some x" for k x
    using that assms(2) by (auto simp: m'(3,4) edit_deps_steps deps_agree_edges split: if_splits)
  ultimately show ?thesis using assms(2) m'(1,2) by (simp add: deps_agree_edges)
next
  case False
  with add_edge_cases [OF assms(1), of c a b now] obtain e m' where
    "add_edge c now a b m = (Inl e, m')" "m_dag m' = m_dag m" "m_steps m' = m_steps m"
    unfolding if_not_P [OF False] by blast
  with assms(2) show ?thesis by (auto intro: deps_agree_frame)
qed

lemma remove_edge_agrees:
  assumes "dag_wf (m_dag m)" "deps_agree m"
  shows "deps_agree (snd (remove_edge c now a b m))"
proof (cases "\<not> c \<and> (a, b) \<in> dag_edges (m_dag m)")
  case True
  with remove_edge_cases [OF assms(1), of c a b now] obtain m' where m': "remove_edge c now a b m = (Inr (), m')"
    "dom (d_nodes (m_dag m')) = dom (d_nodes (m_dag m))" "dag_edges (m_dag m') = dag_edges (m_dag m) - {(a, b)}"
    "m_steps m' = m_steps (edit_deps b (filter (\<lambda>dep. dep \<noteq> a)) m)" by auto
  have "dom (m_steps m') = dom (m_steps m)" by (auto simp: m'(4) edit_deps_steps split: if_splits)
  moreover have "st_id x = k \<and> set (st_deps x) = {y. (y, k) \<in> dag_edges (m_dag m')}" if "m_steps m' k = Some x" for k x
    using that assms(2) by (auto simp: m'(3,4) edit_deps_steps deps_agree_edges split: if_splits)
  ultimately show ?thesis using assms(2) m'(1,2) by (simp add: deps_agree_edges)
next
  case False
  with remove_edge_cases [OF assms(1), of c a b now] assms(2) show ?thesis by auto
qed

text \<open>The edits that keep the two in agreement: all but replacement, with trimmed steps.\<close>

fun agree_op_ok :: "'b dag_op \<Rightarrow> bool" where
  "agree_op_ok (DAddNode c now step) = (case step of None \<Rightarrow> True | Some s \<Rightarrow> trimmed_step s)"
| "agree_op_ok (DRemoveNode en c now n) = enumerates en"
| "agree_op_ok (DReplaceNode en c now old step) = False"
| "agree_op_ok _ = True"

lemma agree_op_dag_ok: "agree_op_ok x \<Longrightarrow> dag_op_ok x"
  by (cases x) auto

interpretation agreeing_graph: invariant_system exec_dag agree_op_ok "\<lambda>m. dag_wf (m_dag m) \<and> deps_agree m"
proof
  show "dag_wf (m_dag (exec_dag x m)) \<and> deps_agree (exec_dag x m)"
    if "dag_wf (m_dag m) \<and> deps_agree m" and ok: "agree_op_ok x" for m x
  proof -
    from that have wf: "dag_wf (m_dag m)" and ag: "deps_agree m" by auto
    have "deps_agree (exec_dag x m)"
    proof (cases x)
      case (DAddNode c now step)
      show ?thesis
      proof (cases "fst (add_node c now step m)")
        case (Inl e)
        then have "add_node c now step m = (Inl e, snd (add_node c now step m))" by (simp add: prod_eq_iff)
        from add_node_refused(1-3)[OF wf this] ag DAddNode show ?thesis by (auto intro: deps_agree_frame)
      next
        case (Inr u)
        then have "add_node c now step m = (Inr u, snd (add_node c now step m))" by (simp add: prod_eq_iff)
        from add_node_agrees [OF wf ag this] ok DAddNode show ?thesis by (simp split: option.splits)
      qed
    next
      case (DRemoveNode en c now n)
      let ?mo = "orders_by en n None m"
      have sh: "dag_shape (m_dag m)" using wf by (simp add: dag_wf_def)
      have "finite (dom (m_steps m))" using ag shapeD(1)[OF sh] by (simp add: deps_agree_def)
      then have o: "range_order (d_edges (m_dag m)) (mo_edges ?mo)" "range_order (m_steps m) (mo_steps ?mo)"
        using enumerates_order [OF _ edges_finite [OF sh], of en] enumerates_order [of en "m_steps m"] ok DRemoveNode
        by (simp_all add: orders_by_def Let_def)
      show ?thesis
      proof (cases "fst (remove_node ?mo c now n m)")
        case (Inl e)
        then have "remove_node ?mo c now n m = (Inl e, snd (remove_node ?mo c now n m))" by (simp add: prod_eq_iff)
        from remove_node_refused [OF this] ag DRemoveNode show ?thesis by (auto intro: deps_agree_frame)
      next
        case (Inr u)
        then have "remove_node ?mo c now n m = (Inr u, snd (remove_node ?mo c now n m))" by (simp add: prod_eq_iff)
        from remove_node_agrees [OF wf ag o this] DRemoveNode show ?thesis by simp
      qed
    qed (use add_edge_agrees [OF wf ag] remove_edge_agrees [OF wf ag] ag ok in \<open>auto intro: deps_agree_frame\<close>)
    with live_graph.exec_inv [OF wf agree_op_dag_ok [OF ok]] show ?thesis by simp
  qed
qed

section \<open>Inputs of the witnesses\<close>

definition step_a :: "unit wf_step" where
  "step_a = \<lparr>st_id = ''a'', st_deps = [], st_body = ()\<rparr>"

definition step_b :: "unit wf_step" where
  "step_b = \<lparr>st_id = ''b'', st_deps = [''a''], st_body = ()\<rparr>"

definition edge_graph :: "unit mdag" where
  "edge_graph = \<lparr>m_dag = link ''a'' ''b'' (add_dag_node ''b'' (add_dag_node ''a'' empty_dag)),
     m_steps = [''a'' \<mapsto> step_a, ''b'' \<mapsto> step_b], m_version = 0, m_hub = new_hub, m_scheduler = ''''\<rparr>"

lemma trim_ab [simp]: "trim_space ''a'' = ''a''" "trim_space ''b'' = ''b''"
  by (simp_all add: trim_space_graphic graphic_def)

lemma edge_graph_nodes: "dom (d_nodes (m_dag edge_graph)) = {''a'', ''b''}"
  by (simp add: edge_graph_def insert_commute)

lemma edge_graph_edges: "dag_edges (m_dag edge_graph) = {(''a'', ''b'')}"
  by (simp add: edge_graph_def edges_link) (simp add: edge_rel_def)

lemma edge_graph_wf: "dag_wf (m_dag edge_graph)"
proof -
  have "dag_wf (add_dag_node ''b'' (add_dag_node ''a'' empty_dag))"
    by (intro wf_add_node empty_dag_wf) (simp_all add: empty_dag_def)
  moreover have "\<not> would_create_cycle ''a'' ''b'' (add_dag_node ''b'' (add_dag_node ''a'' empty_dag))"
    by (simp add: would_create_cycle_def node_count_def numeral_2_eq_2)
  ultimately show ?thesis unfolding edge_graph_def by (auto intro!: wf_link)
qed

lemma acyclic_none [simp]: "acyclic {}"
  by (simp add: acyclic_def)

lemma declared_ab: "declared [step_a, step_b] = {(''a'', ''b'')}" "acyclic {(''a'' :: string, ''b'')}"
  by (simp_all add: step_a_def step_b_def acyclic_insert)

lemma new_dag_ab: "\<exists>d. new_dag [''a'', ''b''] [step_a, step_b] = Inr d"
  using new_dag_cases [of "[step_a, step_b]" "[''a'', ''b'']"]
  unfolding declared_ab(1) by (auto simp: step_a_def step_b_def declared_ab(2))

lemma edge_graph_agrees: "deps_agree edge_graph"
  unfolding deps_agree_edges edge_graph_nodes edge_graph_edges
  by (auto simp: edge_graph_def step_a_def step_b_def split: if_splits)

section \<open>Well-formedness\<close>

lemma new_dag_wf:
  assumes "new_dag ord ss = Inr d" "distinct ord" "set ord = (trim_space \<circ> st_id) ` set ss"
  shows "dag_wf d \<and> dom (d_nodes d) = (trim_space \<circ> st_id) ` set ss \<and> dag_edges d = declared ss \<and>
    distinct (map (trim_space \<circ> st_id) ss)"
proof -
  obtain d1 where "add_nodes ss empty_dag = Inr d1"
    using assms(1) by (auto simp: new_dag_def split: sum.splits)
  from add_nodes_spec [OF empty_dag_simps(3) this]
  have ids: "distinct (map (trim_space \<circ> st_id) ss)" "'''' \<notin> (trim_space \<circ> st_id) ` set ss" by auto
  from new_dag_cases [OF ids assms(2,3)] assms(1) ids(1) show ?thesis by (auto split: if_splits)
qed

text \<open>
  C12: Every graph built by \<open>NewMutableDAG\<close> and edited by any sequence of operations is well-formed: the
  ends of its edges are nodes, no edge occurs twice, the degree counters of every node are its
  degrees, and there is no cycle.
\<close>

theorem workflow_graph_wf:
  assumes "new_mutable_dag ord steps = Inr m" "distinct ord" "set ord = (trim_space \<circ> st_id) ` set steps"
    "list_all dag_op_ok xs"
  shows "dag_wf (m_dag (fold exec_dag xs m))"
proof (rule live_graph.run_inv [OF _ assms(4)])
  from assms(1) obtain d where "new_dag ord steps = Inr d" "m_dag m = d"
    by (auto simp: new_mutable_dag_def split: sum.splits)
  with new_dag_wf assms(2,3) show "dag_wf (m_dag m)" by blast
qed

lemma enumerates_sorted: "enumerates (\<lambda>S. sorted_list_of_set S)"
  by (simp add: enumerates_def)

lemma workflow_graph_wf_witness:
  "case new_mutable_dag [''a'', ''b''] [step_a, step_b] of
     Inl e \<Rightarrow> False
   | Inr m \<Rightarrow> dag_wf (m_dag (fold exec_dag [DAddEdge False 0 ''b'' ''a'', DReplaceNode sorted_list_of_set False 1 ''a'' (Some step_a)] m))"
proof -
  have "\<exists>m. new_mutable_dag [''a'', ''b''] [step_a, step_b] = Inr m"
    using new_dag_ab by (auto simp: new_mutable_dag_def)
  then obtain m where m: "new_mutable_dag [''a'', ''b''] [step_a, step_b] = Inr m" by blast
  from workflow_graph_wf [OF m, of "[DAddEdge False 0 ''b'' ''a'', DReplaceNode sorted_list_of_set False 1 ''a'' (Some step_a)]"]
  show ?thesis using m enumerates_sorted by (simp add: step_a_def step_b_def)
qed

text \<open>
  C13: On a well-formed graph \<open>GetExecutionOrder\<close> always succeeds, under every scheduler and whatever
  the clock shows: the order it returns holds every node once, each after all the nodes it depends on.
  The fixed-order version of \<open>DAG\<close> reports \<open>ErrCycleDetected\<close> exactly on graphs with a cycle.
\<close>

theorem execution_order_topological:
  assumes "dag_shape (m_dag m)" "range_order (d_nodes (m_dag m)) ord"
  shows "if acyclic (dag_edges (m_dag m))
    then (\<exists>res. live_execution_order nanos ord m = Inr res \<and> topological (m_dag m) res) \<and>
      (\<exists>res. execution_order ord (m_dag m) = Inr res \<and> topological (m_dag m) res)
    else live_execution_order nanos ord m = Inl ErrCycleDetected \<and>
      execution_order ord (m_dag m) = Inl ErrCycleDetected"
  using execution_order_by_exact [OF assms, of "scheduler_choice (m_scheduler m) nanos"]
    execution_order_by_exact [OF assms, of "\<lambda>r l. 0"] scheduler_choice_in_range
  by (simp add: live_execution_order_def execution_order_def)

lemma execution_order_topological_witness:
  "\<exists>res. live_execution_order (\<lambda>r. -7) [''a'', ''b''] edge_graph = Inr res \<and> topological (m_dag edge_graph) res"
proof -
  have "range_order (d_nodes (m_dag edge_graph)) [''a'', ''b'']"
    by (simp add: range_order_def edge_graph_nodes)
  from execution_order_topological [OF _ this, of "\<lambda>r. -7"] edge_graph_wf show ?thesis by (simp add: dag_wf_def)
qed

section \<open>Construction and cycle checks\<close>

definition valid_ids :: "'b wf_step list \<Rightarrow> bool" where
  "valid_ids ss \<longleftrightarrow> '''' \<notin> (trim_space \<circ> st_id) ` set ss \<and> distinct (map (trim_space \<circ> st_id) ss)"

definition deps_known :: "'b wf_step list \<Rightarrow> bool" where
  "deps_known ss \<longleftrightarrow> (\<forall>s \<in> set ss. clean_deps (st_deps s) \<subseteq> (trim_space \<circ> st_id) ` set ss)"

lemma add_nodes_error: "add_nodes ss d = Inl e \<Longrightarrow> e = ErrStepIdEmpty \<or> e = ErrDuplicateId"
  by (induction ss d rule: add_nodes.induct) (auto simp: Let_def split: if_splits)

text \<open>
  \<open>NewDAG\<close> accepts exactly the step lists whose ids (trimmed) are present and distinct, whose
  dependencies are all among them, and that have no cycle; then its nodes are the ids and its edges
  exactly the declared dependencies. Otherwise it fails with the error of the first check violated.
\<close>

theorem new_dag_exact:
  assumes "distinct ord" "set ord = (trim_space \<circ> st_id) ` set ss"
  shows "case new_dag ord ss of
     Inr d \<Rightarrow> valid_ids ss \<and> deps_known ss \<and> acyclic (declared ss) \<and>
       dag_wf d \<and> dom (d_nodes d) = (trim_space \<circ> st_id) ` set ss \<and> dag_edges d = declared ss
   | Inl e \<Rightarrow>
       (if \<not> valid_ids ss then e = ErrStepIdEmpty \<or> e = ErrDuplicateId
        else if \<not> deps_known ss then e = ErrInvalidDependency
        else \<not> acyclic (declared ss) \<and> e = ErrCycleDetected)"
proof (cases "valid_ids ss")
  case True
  from new_dag_cases [OF _ _ assms] True show ?thesis
    by (auto simp: valid_ids_def deps_known_def split: if_splits)
next
  case False
  have "\<exists>e. new_dag ord ss = Inl e \<and> (e = ErrStepIdEmpty \<or> e = ErrDuplicateId)"
  proof (cases "add_nodes ss empty_dag")
    case (Inl e)
    with add_nodes_error [OF this] show ?thesis by (simp add: new_dag_def)
  next
    case (Inr d)
    with add_nodes_spec [OF empty_dag_simps(3) Inr] False show ?thesis by (simp add: valid_ids_def)
  qed
  with False show ?thesis by auto
qed

lemma new_dag_exact_witness:
  "case new_dag [''a'', ''b''] [step_a, step_b] of Inl e \<Rightarrow> False | Inr d \<Rightarrow> dag_edges d = {(''a'', ''b'')}"
proof -
  have "set [''a'', ''b''] = (trim_space \<circ> st_id) ` set [step_a, step_b]" by (simp add: step_a_def step_b_def)
  from new_dag_exact [OF _ this] have "case new_dag [''a'', ''b''] [step_a, step_b] of Inl e \<Rightarrow> True
      | Inr d \<Rightarrow> dag_edges d = declared [step_a, step_b]"
    by (auto simp del: declared_simps split: sum.splits)
  with new_dag_ab show ?thesis unfolding declared_ab(1) by auto
qed

text \<open>
  C14: The two cycle searches of the package agree and are exact: the depth first search with a recursion
  stack that \<open>NewDAG\<close> runs and the three-colour search that \<open>ReplaceNode\<close> runs both terminate and
  answer whether the graph has a cycle, whatever the order of the node map.
\<close>

theorem cycle_searches_agree:
  assumes "dag_shape d" "range_order (d_nodes d) ord" "range_order (d_nodes d) ord'"
  shows "has_cycle ord d = Some (\<not> acyclic (dag_edges d)) \<and>
    has_cycle_in_adj ord' (\<lambda>n. map_option (\<lambda>x. targets d n) (d_nodes d n)) = has_cycle ord d"
proof -
  define adj where "adj n = map_option (\<lambda>x. targets d n) (d_nodes d n)" for n
  have dom: "dom adj = dom (d_nodes d)" by (auto simp: adj_def)
  have read: "read_adj adj = targets d"
    using shape_no_targets [OF assms(1)] by (auto simp: read_adj_def adj_def split: option.splits)
  have "range_order adj ord'" using assms(3) dom by (simp add: range_order_def)
  then have "has_cycle_in_adj ord' adj = Some (\<not> acyclic (dag_edges d))"
    using visit_roots_cycle [OF shape_closed [OF assms(1)], of "card (dom adj)" ord'] dom read
    by (simp add: has_cycle_in_adj_def range_order_keys range_order_def)
  with has_cycle_exact [OF assms(1,2)] show ?thesis by (simp add: adj_def [abs_def])
qed

lemma cycle_searches_agree_witness:
  "has_cycle [''b'', ''a''] (m_dag edge_graph) = Some (\<not> acyclic {(''a'', ''b'')})"
proof -
  have "range_order (d_nodes (m_dag edge_graph)) [''b'', ''a'']"
    by (auto simp: range_order_def edge_graph_nodes)
  from cycle_searches_agree [OF _ this this] edge_graph_wf show ?thesis
    unfolding edge_graph_edges by (simp add: dag_wf_def)
qed

section \<open>Edits\<close>

text \<open>
  \<open>AddNode\<close> is atomic. It succeeds exactly when the trimmed id is new and every dependency names a
  node; then the node and exactly its declared edges are added. A refused call, whichever edges it
  had added before, leaves nodes, counters, edges, steps, version and subscribers as they were.
\<close>

theorem add_node_atomic:
  assumes "dag_wf (m_dag m)"
  shows "case add_node False now (Some s) m of
     (Inr u, m') \<Rightarrow>
       trim_space (st_id s) \<noteq> '''' \<and> trim_space (st_id s) \<notin> dom (d_nodes (m_dag m)) \<and>
       clean_deps (st_deps s) \<subseteq> dom (d_nodes (m_dag m)) \<and>
       dom (d_nodes (m_dag m')) = insert (trim_space (st_id s)) (dom (d_nodes (m_dag m))) \<and>
       dag_edges (m_dag m') = dag_edges (m_dag m) \<union> (\<lambda>p. (p, trim_space (st_id s))) ` clean_deps (st_deps s) \<and>
       m_steps m' = (m_steps m)(trim_space (st_id s) \<mapsto> s) \<and> m_version m' = m_version m + 1
   | (Inl e, m') \<Rightarrow>
       \<not> (trim_space (st_id s) \<noteq> '''' \<and> trim_space (st_id s) \<notin> dom (d_nodes (m_dag m)) \<and>
          clean_deps (st_deps s) \<subseteq> dom (d_nodes (m_dag m))) \<and>
       d_nodes (m_dag m') = d_nodes (m_dag m) \<and> targets (m_dag m') = targets (m_dag m) \<and>
       m_steps m' = m_steps m \<and> m_version m' = m_version m \<and> m_hub m' = m_hub m"
proof (cases "add_node False now (Some s) m")
  case (Pair r m')
  show ?thesis
  proof (cases r)
    case (Inl e)
    with Pair add_node_refused [OF assms, of False now "Some s" e m'] add_node_accepts [OF assms, of s now]
    show ?thesis by auto
  next
    case (Inr u)
    with Pair have ok: "add_node False now (Some s) m = (Inr u, m')" by simp
    have n: "trim_space (st_id s) \<noteq> ''''" using ok by (auto simp: add_node_def Let_def split: if_splits)
    obtain d: "dag_wf (m_dag m')" "trim_space (st_id s) \<notin> dom (d_nodes (m_dag m))"
      "dom (d_nodes (m_dag m')) = insert (trim_space (st_id s)) (dom (d_nodes (m_dag m)))"
      "dag_edges (m_dag m') = dag_edges (m_dag m) \<union> (\<lambda>p. (p, trim_space (st_id s))) ` clean_deps (st_deps s)"
      "clean_deps (st_deps s) \<subseteq> dom (d_nodes (m_dag m'))"
      "m_steps m' = (m_steps m)(trim_space (st_id s) \<mapsto> s)" "m_version m' = m_version m + 1"
      using add_node_done [OF assms ok] by (metis option.inject)
    have "trim_space (st_id s) \<notin> clean_deps (st_deps s)"
    proof
      assume "trim_space (st_id s) \<in> clean_deps (st_deps s)"
      then have "(trim_space (st_id s), trim_space (st_id s)) \<in> dag_edges (m_dag m')" by (simp add: d(4))
      with d(1) show False unfolding dag_wf_def acyclic_def by (meson r_into_trancl)
    qed
    then have "clean_deps (st_deps s) \<subseteq> dom (d_nodes (m_dag m))" using d(5) by (simp add: d(3) subset_insert)
    with n d ok show ?thesis by simp
  qed
qed

lemma add_node_atomic_witness:
  "case add_node False 5 (Some step_b) edge_graph of
     (Inr u, m') \<Rightarrow> False
   | (Inl e, m') \<Rightarrow> m_version m' = 0"
proof -
  have b: "trim_space (st_id step_b) \<in> dom (d_nodes (m_dag edge_graph))"
    by (simp add: edge_graph_nodes step_b_def)
  have v: "m_version edge_graph = 0" by (simp add: edge_graph_def)
  obtain r m' where p: "add_node False 5 (Some step_b) edge_graph = (r, m')" by (rule prod.exhaust)
  show ?thesis using add_node_atomic [OF edge_graph_wf, of step_b 5] b v unfolding p by (cases r) simp_all
qed

text \<open>
  What \<open>ReplaceNode\<close> does. It is accepted exactly when the old node is there, the new id is free,
  the new dependencies are nodes other than it, and the graph after renaming with the new
  dependencies has no cycle. With an unchanged id the new dependencies become edges, and those
  declared before stay. With a changed id the edges are only renamed: no new dependency becomes one.
\<close>

theorem replace_node_exact:
  assumes "dag_wf (m_dag m)" "replace_orders mo old s m"
  shows "case replace_node mo False now old (Some s) m of
     (Inr u, m') \<Rightarrow>
       st_id s \<noteq> '''' \<and> old \<in> dom (d_nodes (m_dag m)) \<and> (st_id s = old \<or> st_id s \<notin> dom (d_nodes (m_dag m))) \<and>
       set (st_deps s) \<subseteq> dom (d_nodes (m_dag m)) - {st_id s} \<and> acyclic (checked_edges old s (m_dag m)) \<and>
       dag_wf (m_dag m') \<and> dom (d_nodes (m_dag m')) = insert (st_id s) (dom (d_nodes (m_dag m)) - {old}) \<and>
       dag_edges (m_dag m') = (if st_id s = old then checked_edges old s (m_dag m) else replaced_edges old s (m_dag m)) \<and>
       m_steps m' (st_id s) = Some s
   | (Inl e, m') \<Rightarrow>
       \<not> (st_id s \<noteq> '''' \<and> old \<in> dom (d_nodes (m_dag m)) \<and> (st_id s = old \<or> st_id s \<notin> dom (d_nodes (m_dag m))) \<and>
          set (st_deps s) \<subseteq> dom (d_nodes (m_dag m)) - {st_id s} \<and> acyclic (checked_edges old s (m_dag m))) \<and>
       m' = m"
proof -
  let ?ok = "st_id s \<noteq> '''' \<and> old \<in> dom (d_nodes (m_dag m)) \<and> (st_id s = old \<or> st_id s \<notin> dom (d_nodes (m_dag m)))
    \<and> set (st_deps s) \<subseteq> dom (d_nodes (m_dag m)) - {st_id s} \<and> acyclic (checked_edges old s (m_dag m))"
  note C = replace_node_cases [OF assms, of now]
  show ?thesis
  proof (cases ?ok)
    case True
    from C [unfolded if_P [OF True]] obtain m' where
      "replace_node mo False now old (Some s) m = (Inr (), m')" "dag_wf (m_dag m')"
      "dom (d_nodes (m_dag m')) = insert (st_id s) (dom (d_nodes (m_dag m)) - {old})"
      "dag_edges (m_dag m') = (if st_id s = old then checked_edges old s (m_dag m) else replaced_edges old s (m_dag m))"
      "m_steps m' (st_id s) = Some s" by blast
    with True show ?thesis by simp
  next
    case False
    from C [unfolded if_not_P [OF False]] obtain e where "replace_node mo False now old (Some s) m = (Inl e, m)"
      by blast
    with False show ?thesis by simp
  qed
qed

definition step_c :: "unit wf_step" where
  "step_c = \<lparr>st_id = ''c'', st_deps = [''b''], st_body = ()\<rparr>"

text \<open>Here \<open>a\<close> is replaced by \<open>c\<close>, which depends on \<open>b\<close>: the check sees the cycle \<open>c, b, c\<close>.\<close>

lemma replace_node_exact_witness:
  "case replace_node (orders_by sorted_list_of_set ''a'' (Some step_c) edge_graph) False 3 ''a'' (Some step_c) edge_graph of
     (Inr u, m') \<Rightarrow> False | (Inl e, m') \<Rightarrow> m' = edge_graph"
proof -
  have "replace_orders (orders_by sorted_list_of_set ''a'' (Some step_c) edge_graph) ''a'' step_c edge_graph"
    by (rule orders_by_replace) (use edge_graph_wf enumerates_sorted in \<open>simp_all add: dag_wf_def edge_graph_nodes\<close>)
  moreover have "\<not> acyclic (checked_edges ''a'' step_c (m_dag edge_graph))"
  proof -
    have "(''c'', ''b'') \<in> checked_edges ''a'' step_c (m_dag edge_graph)"
      "(''b'', ''c'') \<in> checked_edges ''a'' step_c (m_dag edge_graph)"
      unfolding checked_edges_def replaced_edges_def edge_graph_edges
      by (simp_all add: step_c_def renamed_def)
    then show ?thesis unfolding acyclic_def by (meson trancl.simps)
  qed
  ultimately show ?thesis
    using replace_node_exact [OF edge_graph_wf, of _ "''a''" step_c 3]
    by (fastforce split: prod.splits sum.splits)
qed

lemma has_dependents_exact:
  assumes "dag_wf (m_dag m)" "deps_agree m" "range_order (m_steps m) ord"
  shows "has_dependents ord n m \<longleftrightarrow> (\<exists>b. (n, b) \<in> dag_edges (m_dag m))"
proof
  assume "has_dependents ord n m"
  then obtain k s where "m_steps m k = Some s" "n \<in> set (st_deps s)"
    by (auto simp: has_dependents_def list_ex_iff split: option.splits)
  with assms(2) show "\<exists>b. (n, b) \<in> dag_edges (m_dag m)" by (auto simp: deps_agree_edges)
next
  assume "\<exists>b. (n, b) \<in> dag_edges (m_dag m)"
  then obtain b where e: "(n, b) \<in> dag_edges (m_dag m)" by blast
  with assms(1) have "b \<noteq> n" by (auto simp: dag_wf_def acyclic_def)
  have "b \<in> dom (d_nodes (m_dag m))" using edge_ends [OF _ e] assms(1) by (simp add: dag_wf_def)
  then obtain s where s: "m_steps m b = Some s" using assms(2) unfolding deps_agree_edges by (metis domD)
  with assms(2) e have "st_id s = b" "n \<in> set (st_deps s)" by (auto simp: deps_agree_edges)
  with s \<open>b \<noteq> n\<close> assms(3) show "has_dependents ord n m"
    by (auto simp: has_dependents_def list_ex_iff range_order_def intro!: bexI [of _ b])
qed

text \<open>
  The guard of \<open>RemoveNode\<close> is exact on graphs edited with trimmed steps (and without \<open>ReplaceNode\<close>):
  in every reachable state a node is refused exactly while another node depends on it, and else
  disappears with its edges, whatever else is in the graph.
\<close>

theorem remove_guard_exact:
  assumes "dag_wf (m_dag m0)" "deps_agree m0" "list_all agree_op_ok xs" "enumerates en"
  defines "m \<equiv> fold exec_dag xs m0"
  assumes "n \<in> dom (d_nodes (m_dag m))"
  shows "if (\<exists>b. (n, b) \<in> dag_edges (m_dag m))
    then \<exists>m'. remove_node (orders_by en n None m) False now n m = (Inl ErrNodeHasDependents, m') \<and> m_dag m' = m_dag m
    else \<exists>m'. remove_node (orders_by en n None m) False now n m = (Inr (), m') \<and>
      dom (d_nodes (m_dag m')) = dom (d_nodes (m_dag m)) - {n} \<and>
      dag_edges (m_dag m') = {(a, b) \<in> dag_edges (m_dag m). b \<noteq> n}"
proof -
  have m: "dag_wf (m_dag m)" "deps_agree m"
    using agreeing_graph.run_inv [of m0 xs] assms(1-3) by (simp_all add: m_def)
  have sh: "dag_shape (m_dag m)" using m(1) by (simp add: dag_wf_def)
  let ?mo = "orders_by en n None m"
  have "finite (dom (m_steps m))" using m(2) shapeD(1)[OF sh] by (simp add: deps_agree_def)
  then have o: "range_order (d_edges (m_dag m)) (mo_edges ?mo)" "range_order (m_steps m) (mo_steps ?mo)"
    using enumerates_order [OF assms(4) edges_finite [OF sh]] enumerates_order [OF assms(4), of "m_steps m"]
    by (simp_all add: orders_by_def Let_def)
  have n: "\<exists>x. d_nodes (m_dag m) n = Some x" using assms(6) by blast
  show ?thesis
  proof (cases "\<exists>b. (n, b) \<in> dag_edges (m_dag m)")
    case True
    with has_dependents_exact [OF m o(2)] n show ?thesis by (auto simp: remove_node_def Let_def)
  next
    case False
    then have "\<exists>m'. remove_node ?mo False now n m = (Inr (), m')"
      using has_dependents_exact [OF m o(2)] n by (auto simp: remove_node_def Let_def)
    then obtain m' where r: "remove_node ?mo False now n m = (Inr (), m')" by blast
    have "{(a, b) \<in> dag_edges (m_dag m). a \<noteq> n \<and> b \<noteq> n} = {(a, b) \<in> dag_edges (m_dag m). b \<noteq> n}"
      using False by auto
    with remove_node_done(2,3)[OF m(1) o(1) r] r False show ?thesis by simp
  qed
qed

lemma remove_guard_exact_witness:
  "\<exists>m'. remove_node (orders_by sorted_list_of_set ''a'' None edge_graph) False 9 ''a'' edge_graph = (Inl ErrNodeHasDependents, m')"
  using remove_guard_exact [OF edge_graph_wf edge_graph_agrees, of "[]" sorted_list_of_set "''a''" 9] enumerates_sorted
  by (auto simp: edge_graph_nodes edge_graph_edges)

text \<open>
  The guard of \<open>RemoveNode\<close> reads the dependencies as they were written, the edges were made from
  them trimmed. So a node whose only dependent names it with white space around is removed, and the
  dependent loses its edge but keeps the dependency.
\<close>

theorem untrimmed_dependent_ignored:
  assumes "dag_wf (m_dag m)" "\<not> has_dependents (mo_steps mo) p m"
    "add_node False t1 (Some s) m = (Inr u, m1)" "p \<in> clean_deps (st_deps s)" "p \<notin> set (st_deps s)"
    "range_order (d_edges (m_dag m1)) (mo_edges mo)" "trim_space (st_id s) \<notin> dom (m_steps m)"
  shows "(p, trim_space (st_id s)) \<in> dag_edges (m_dag m1) \<and>
    (\<exists>m2. remove_node mo False t2 p m1 = (Inr (), m2) \<and> p \<notin> dom (d_nodes (m_dag m2)) \<and>
      m_steps m2 (trim_space (st_id s)) = Some s \<and> (\<forall>q. (p, q) \<notin> dag_edges (m_dag m2)))"
proof -
  obtain d: "dag_wf (m_dag m1)" "trim_space (st_id s) \<notin> dom (d_nodes (m_dag m))"
      "dag_edges (m_dag m1) = dag_edges (m_dag m) \<union> (\<lambda>p. (p, trim_space (st_id s))) ` clean_deps (st_deps s)"
      "m_steps m1 = (m_steps m)(trim_space (st_id s) \<mapsto> s)"
    using add_node_done [OF assms(1,3)] by (metis option.inject)
  have e: "(p, trim_space (st_id s)) \<in> dag_edges (m_dag m1)" using assms(4) by (simp add: d(3))
  have ne: "p \<noteq> trim_space (st_id s)" using e d(1) unfolding dag_wf_def acyclic_def by (metis r_into_trancl)
  have sh: "dag_shape (m_dag m1)" using d(1) by (simp add: dag_wf_def)
  have p: "\<exists>x. d_nodes (m_dag m1) p = Some x" using edge_ends [OF sh e] by blast
  have "\<not> has_dependents (mo_steps mo) p m1"
  proof
    assume "has_dependents (mo_steps mo) p m1"
    then obtain k x where k: "k \<in> set (mo_steps mo)" "m_steps m1 k = Some x" "st_id x \<noteq> p" "p \<in> set (st_deps x)"
      by (auto simp: has_dependents_def list_ex_iff split: option.splits)
    with d(4) assms(5) have "m_steps m k = Some x" by (auto split: if_splits)
    moreover from this k(1) have "k \<in> set (range_keys (m_steps m) (mo_steps mo))" by auto
    ultimately have "has_dependents (mo_steps mo) p m"
      unfolding has_dependents_def list_ex_iff using k(3,4) by (intro bexI [of _ k]) simp_all
    with assms(2) show False by simp
  qed
  with p have "\<exists>m2. remove_node mo False t2 p m1 = (Inr (), m2)" by (auto simp: remove_node_def Let_def)
  then obtain m2 where r: "remove_node mo False t2 p m1 = (Inr (), m2)" by blast
  from remove_node_done(2-4)[OF d(1) assms(6) r] d(4) ne e r show ?thesis by auto
qed

definition step_w :: "unit wf_step" where
  "step_w = \<lparr>st_id = ''w'', st_deps = ['' b''], st_body = ()\<rparr>"

lemma trim_w: "trim_space '' b'' = ''b''" "trim_space ''w'' = ''w''"
proof -
  have "strip_left space_encodings '' b'' = strip_left space_encodings ''b''"
    by (subst strip_left.simps) (simp add: space_encodings_def of_char_of char_of_def bit_Suc_0_iff)
  then show "trim_space '' b'' = ''b''" using trim_ab(2) by (simp add: trim_space_def)
  show "trim_space ''w'' = ''w''" by (simp add: trim_space_graphic graphic_def)
qed

lemma untrimmed_dependent_ignored_witness:
  "case add_node False 0 (Some step_w) edge_graph of
     (Inl e, m1) \<Rightarrow> False
   | (Inr u, m1) \<Rightarrow> (''b'', ''w'') \<in> dag_edges (m_dag m1) \<and>
       (\<exists>m2. remove_node (orders_by sorted_list_of_set ''b'' None m1) False 1 ''b'' m1 = (Inr (), m2))"
proof -
  have sw: "st_id step_w = ''w''" "st_deps step_w = ['' b'']" by (simp_all add: step_w_def)
  have cd: "clean_deps (st_deps step_w) = {''b''}" by (simp add: sw trim_w)
  obtain m1 where m1: "add_node False 0 (Some step_w) edge_graph = (Inr (), m1)"
    using add_node_accepts [OF edge_graph_wf, of step_w 0] by (auto simp: sw trim_w edge_graph_nodes)
  let ?mo = "orders_by sorted_list_of_set ''b'' None m1"
  have nd: "\<not> has_dependents ord ''b'' edge_graph" for ord
    by (auto simp: has_dependents_def list_ex_iff edge_graph_def step_a_def step_b_def split: option.splits if_splits)
  obtain d: "dag_wf (m_dag m1)" using add_node_done [OF edge_graph_wf m1] by blast
  have o: "range_order (d_edges (m_dag m1)) (mo_edges ?mo)"
    using enumerates_order [OF enumerates_sorted edges_finite] d by (simp add: orders_by_def Let_def dag_wf_def)
  have fresh: "trim_space (st_id step_w) \<notin> dom (m_steps edge_graph)" by (simp add: sw trim_w edge_graph_def)
  from untrimmed_dependent_ignored [OF edge_graph_wf nd m1 _ _ o fresh, of 1] m1 show ?thesis
    by (auto simp: cd sw trim_w)
qed

section \<open>Change events\<close>

lemma offer_all:
  "length buf \<le> graph_event_buffer_size \<Longrightarrow>
   fold offer evs buf = buf @ take (graph_event_buffer_size - length buf) evs"
  by (induction evs arbitrary: buf) (auto simp: offer_def take_Cons')

lemma subscribers_publish: "h_subs (fold hub_publish evs h) sid = map_option (fold offer evs) (h_subs h sid)"
  by (induction evs arbitrary: h) (auto simp: hub_publish_def option.map_comp comp_def option.map_ident option.map_id)

text \<open>
  Publishing never blocks and never reorders: a subscriber with room for them gets all events in order,
  and one that does not read gets the first that fit into its buffer of 64 and misses the rest.
\<close>

theorem hub_delivers:
  assumes "h_subs h sid = Some buf" "length buf \<le> graph_event_buffer_size"
  shows "h_subs (fold hub_publish evs h) sid = Some (buf @ take (graph_event_buffer_size - length buf) evs)"
  using assms by (simp add: subscribers_publish offer_all)

lemma hub_delivers_witness:
  "h_subs (fold hub_publish (replicate 70 (blank_event ChangeAddEdge 0)) (snd (hub_subscribe (new_hub :: unit hub)))) ''sub-1''
     = Some (replicate 64 (blank_event ChangeAddEdge 0))"
proof -
  have sub: "h_subs (snd (hub_subscribe (new_hub :: unit hub))) ''sub-1'' = Some []"
    by (simp add: hub_subscribe_def new_hub_def Let_def go_itoa.simps char_of_def bit_Suc_0_iff)
  from hub_delivers [OF sub, of "replicate 70 (blank_event ChangeAddEdge 0)"] show ?thesis
    by (simp add: graph_event_buffer_size_def)
qed

end
