(* ===== verification/Go_Channel.thy ===== *)
theory Go_Channel
  imports Go_Prelude
begin

text \<open>
  Buffered Go channels. A channel is its capacity, the values in its buffer and whether it has been
  closed. Only the non-blocking uses of the modelled code appear: a send or a receive in a
  \<open>select\<close> with a \<open>default\<close> branch. A send on a closed channel and a second close panic.
\<close>

section \<open>Channels\<close>

record 'a chan =
  ch_cap :: nat
  ch_buf :: "'a list"
  ch_closed :: bool

definition make_chan :: "nat \<Rightarrow> 'a chan" where
  "make_chan n = \<lparr>ch_cap = n, ch_buf = [], ch_closed = False\<rparr>"

datatype 'a sending = Sent "'a chan" | WouldBlock | SendPanics

definition try_send :: "'a \<Rightarrow> 'a chan \<Rightarrow> 'a sending" where
  "try_send x c =
     (if ch_closed c then SendPanics
      else if length (ch_buf c) < ch_cap c then Sent (c\<lparr>ch_buf := ch_buf c @ [x]\<rparr>)
      else WouldBlock)"

text \<open>A receive: a value, the end of a closed and drained channel, or nothing there yet.\<close>

datatype 'a receiving = Received 'a "'a chan" | Drained | NothingYet

definition try_receive :: "'a chan \<Rightarrow> 'a receiving" where
  "try_receive c =
     (case ch_buf c of
        x # xs \<Rightarrow> Received x (c\<lparr>ch_buf := xs\<rparr>)
      | [] \<Rightarrow> if ch_closed c then Drained else NothingYet)"

definition close_chan :: "'a chan \<Rightarrow> 'a chan option" where
  "close_chan c = (if ch_closed c then None else Some (c\<lparr>ch_closed := True\<rparr>))"

section \<open>Open channels within their capacity\<close>

definition chan_ok :: "nat \<Rightarrow> 'a chan \<Rightarrow> bool" where
  "chan_ok n c \<longleftrightarrow> \<not> ch_closed c \<and> ch_cap c = n \<and> length (ch_buf c) \<le> n"

lemma chan_ok_make [simp]: "chan_ok n (make_chan n)"
  by (simp add: chan_ok_def make_chan_def)

lemma chan_ok_send: "chan_ok n c \<Longrightarrow> try_send x c = Sent c' \<Longrightarrow> chan_ok n c'"
  by (auto simp: chan_ok_def try_send_def split: if_splits)

lemma chan_ok_no_panic: "chan_ok n c \<Longrightarrow> try_send x c \<noteq> SendPanics"
  by (simp add: chan_ok_def try_send_def)

lemma chan_ok_receive: "chan_ok n c \<Longrightarrow> try_receive c = Received x c' \<Longrightarrow> chan_ok n c'"
  by (auto simp: chan_ok_def try_receive_def split: list.splits if_splits)

lemma chan_ok_close: "chan_ok n c \<Longrightarrow> close_chan c = Some (c\<lparr>ch_closed := True\<rparr>)"
  by (simp add: chan_ok_def close_chan_def)

end
