(* ===== verification/Event_Store.thy ===== *)
theory Event_Store
  imports Go_Channel
begin

text \<open>
  Package \<open>internal/ares_events\<close>: events and read options (\<open>types.go\<close>), the in-memory event store
  (\<open>memory_store.go\<close>), the trimming of a stream (\<open>trim_store.go\<close>) and the integrity check of a
  stream (\<open>types.go\<close>). The store owns the events it is given: an event is a value. Every method
  holds the mutex from start to end and is one step.
\<close>

section \<open>Events\<close>

type_synonym payload = "(string \<times> goval) list"

record event =
  ev_id :: string
  ev_stream :: string
  ev_type :: string
  ev_module :: string
  ev_payload :: payload
  ev_metadata :: payload
  ev_version :: int
  ev_time :: time

definition ty_task_created :: string where "ty_task_created = ''task.created''"
definition ty_task_completed :: string where "ty_task_completed = ''task.completed''"
definition ty_task_failed :: string where "ty_task_failed = ''task.failed''"
definition ty_session_created :: string where "ty_session_created = ''session.created''"
definition ty_message_added :: string where "ty_message_added = ''message.added''"
definition ty_failover_triggered :: string where "ty_failover_triggered = ''failover.triggered''"
definition ty_llm_call :: string where "ty_llm_call = ''llm.call''"
definition ty_tool_call_started :: string where "ty_tool_call_started = ''tool.call.started''"
definition ty_tool_call_completed :: string where "ty_tool_call_completed = ''tool.call.completed''"

text \<open>The type assertion \<open>payload[key].(string)\<close>.\<close>

definition get_str :: "payload \<Rightarrow> string \<Rightarrow> string option" where
  "get_str pl key = (case map_of pl key of Some (GStr s) \<Rightarrow> Some s | _ \<Rightarrow> None)"

datatype read_direction = ReadUnset | ReadAscending | ReadDescending

record read_options =
  ro_from :: int
  ro_limit :: int
  ro_dir :: read_direction
  ro_since :: time

record event_filter =
  fl_streams :: "string list"
  fl_types :: "string list"
  fl_since :: time

text \<open>
  The sentinel errors, the overflow error \<open>Append\<close> builds in place, and the panic of a send on or a
  second close of a closed channel.
\<close>

datatype events_error =
    ErrVersionConflict
  | ErrStreamNotFound
  | ErrEventStoreClosed
  | ErrEventIntegrity
  | ErrSummaryNotFound
  | ErrVersionOverflow
  | PanicClosedChannel

section \<open>The store\<close>

record subscription =
  su_id :: int
  su_filter :: event_filter

text \<open>The channels handed to subscribers, open or closed, are kept by the id of their subscription.\<close>

record event_store =
  es_events :: "event list"
  es_streams :: "string \<rightharpoonup> event list"
  es_versions :: "string \<rightharpoonup> int"
  es_subs :: "subscription list"
  es_closed :: bool
  es_next_sub :: int
  es_dropped :: int
  es_chans :: "int \<rightharpoonup> event chan"

definition new_event_store :: event_store where
  "new_event_store = \<lparr>es_events = [], es_streams = Map.empty, es_versions = Map.empty, es_subs = [],
     es_closed = False, es_next_sub = 0, es_dropped = 0, es_chans = Map.empty\<rparr>"

definition stream_of :: "event_store \<Rightarrow> string \<Rightarrow> event list" where
  "stream_of s k = (case es_streams s k of None \<Rightarrow> [] | Some es \<Rightarrow> es)"

definition version_of :: "event_store \<Rightarrow> string \<Rightarrow> int" where
  "version_of s k = (case es_versions s k of None \<Rightarrow> 0 | Some v \<Rightarrow> v)"

subsection \<open>Subscribers\<close>

definition matches_filter :: "event \<Rightarrow> event_filter \<Rightarrow> bool" where
  "matches_filter e fl \<longleftrightarrow>
     (if fl_streams fl \<noteq> [] \<and> ev_stream e \<notin> set (fl_streams fl) then False
      else if fl_types fl \<noteq> [] \<and> ev_type e \<notin> set (fl_types fl) then False
      else if fl_since fl \<noteq> zero_time \<and> ev_time e < fl_since fl then False
      else True)"

fun notify_subscribers ::
  "event \<Rightarrow> subscription list \<Rightarrow> event_store \<Rightarrow> (events_error, unit, event_store) outcome" where
  "notify_subscribers e [] s = (Inr (), s)"
| "notify_subscribers e (u # us) s =
     (if matches_filter e (su_filter u)
      then (case es_chans s (su_id u) of
              None \<Rightarrow> notify_subscribers e us (s\<lparr>es_dropped := es_dropped s + 1\<rparr>)
            | Some c \<Rightarrow>
                (case try_send e c of
                   SendPanics \<Rightarrow> (Inl PanicClosedChannel, s)
                 | Sent c' \<Rightarrow> notify_subscribers e us (s\<lparr>es_chans := (es_chans s)(su_id u \<mapsto> c')\<rparr>)
                 | WouldBlock \<Rightarrow> notify_subscribers e us (s\<lparr>es_dropped := es_dropped s + 1\<rparr>)))
      else notify_subscribers e us s)"

definition event_buffer :: nat where
  "event_buffer = 64"

definition subscribe :: "event_filter \<Rightarrow> event_store \<Rightarrow> (events_error, int, event_store) outcome" where
  "subscribe fl s =
     (if es_closed s then (Inl ErrEventStoreClosed, s)
      else (let n = es_next_sub s + 1
            in (Inr n, s\<lparr>es_next_sub := n, es_subs := es_subs s @ [\<lparr>su_id = n, su_filter = fl\<rparr>],
                         es_chans := (es_chans s)(n \<mapsto> make_chan event_buffer)\<rparr>)))"

definition close_sub :: "int \<Rightarrow> event_store \<Rightarrow> (events_error, unit, event_store) outcome" where
  "close_sub n s =
     (case es_chans s n of
        None \<Rightarrow> (Inl PanicClosedChannel, s)
      | Some c \<Rightarrow> (case close_chan c of
                     None \<Rightarrow> (Inl PanicClosedChannel, s)
                   | Some c' \<Rightarrow> (Inr (), s\<lparr>es_chans := (es_chans s)(n \<mapsto> c')\<rparr>)))"

text \<open>\<open>unsubscribe\<close>, run when a subscriber's context ends: the first subscriber with the id goes.\<close>

fun without_sub :: "int \<Rightarrow> subscription list \<Rightarrow> subscription list" where
  "without_sub n [] = []"
| "without_sub n (u # us) = (if su_id u = n then us else u # without_sub n us)"

definition unsubscribe :: "int \<Rightarrow> event_store \<Rightarrow> (events_error, unit, event_store) outcome" where
  "unsubscribe n s =
     (if list_ex (\<lambda>u. su_id u = n) (es_subs s)
      then (case close_sub n s of
              (Inl e, s') \<Rightarrow> (Inl e, s')
            | (Inr u, s') \<Rightarrow> (Inr (), s'\<lparr>es_subs := without_sub n (es_subs s')\<rparr>))
      else (Inr (), s))"

text \<open>A subscriber taking the next event off its channel.\<close>

definition receive :: "int \<Rightarrow> event_store \<Rightarrow> event option \<times> event_store" where
  "receive n s =
     (case es_chans s n of
        None \<Rightarrow> (None, s)
      | Some c \<Rightarrow> (case try_receive c of
                     Received e c' \<Rightarrow> (Some e, s\<lparr>es_chans := (es_chans s)(n \<mapsto> c')\<rparr>)
                   | _ \<Rightarrow> (None, s)))"

fun close_subs :: "subscription list \<Rightarrow> event_store \<Rightarrow> (events_error, unit, event_store) outcome" where
  "close_subs [] s = (Inr (), s)"
| "close_subs (u # us) s =
     (case close_sub (su_id u) s of (Inl e, s') \<Rightarrow> (Inl e, s') | (Inr _, s') \<Rightarrow> close_subs us s')"

definition close_store :: "event_store \<Rightarrow> (events_error, unit, event_store) outcome" where
  "close_store s =
     (if es_closed s then (Inl ErrEventStoreClosed, s)
      else (case close_subs (es_subs s) (s\<lparr>es_closed := True\<rparr>) of
              (Inl e, s') \<Rightarrow> (Inl e, s')
            | (Inr _, s') \<Rightarrow> (Inr (), s'\<lparr>es_subs := []\<rparr>)))"

definition subscriber_total :: "event_store \<Rightarrow> nat" where
  "subscriber_total s = length (es_subs s)"

subsection \<open>Appending\<close>

text \<open>
  The event as it is stored. \<open>clock i\<close> and \<open>uuid i\<close> are what \<open>timeNow\<close> and \<open>NewEventID\<close> give for the
  \<open>i\<close>-th event of the batch.
\<close>

definition stamp :: "(int \<Rightarrow> time) \<Rightarrow> (int \<Rightarrow> string) \<Rightarrow> string \<Rightarrow> int \<Rightarrow> int \<Rightarrow> event \<Rightarrow> event" where
  "stamp clock uuid k v i e =
     e\<lparr>ev_version := v, ev_stream := k,
       ev_time := (if ev_time e = zero_time then clock i else ev_time e),
       ev_id := (if ev_id e = '''' then uuid i else ev_id e)\<rparr>"

definition store_event :: "string \<Rightarrow> event \<Rightarrow> event_store \<Rightarrow> event_store" where
  "store_event k e s =
     s\<lparr>es_events := es_events s @ [e],
       es_streams := (es_streams s)(k \<mapsto> stream_of s k @ [e]),
       es_versions := (es_versions s)(k \<mapsto> ev_version e)\<rparr>"

text \<open>The loop over the batch; a nil event is skipped and takes no version.\<close>

fun append_loop ::
  "(int \<Rightarrow> time) \<Rightarrow> (int \<Rightarrow> string) \<Rightarrow> string \<Rightarrow> int \<Rightarrow> int \<Rightarrow> event option list \<Rightarrow> event_store
    \<Rightarrow> (events_error, unit, event_store) outcome" where
  "append_loop clock uuid k start i [] s = (Inr (), s)"
| "append_loop clock uuid k start i (None # es) s = append_loop clock uuid k start i es s"
| "append_loop clock uuid k start i (Some e # es) s =
     (let v = wrap64 (start + (i + 1)) in
      if v \<le> 0 then (Inl ErrVersionOverflow, s)
      else (let e' = stamp clock uuid k v (i + 1) e in
            case notify_subscribers e' (es_subs s) (store_event k e' s) of
              (Inl err, s') \<Rightarrow> (Inl err, s')
            | (Inr _, s') \<Rightarrow> append_loop clock uuid k start (i + 1) es s'))"

definition append_events ::
  "(int \<Rightarrow> time) \<Rightarrow> (int \<Rightarrow> string) \<Rightarrow> string \<Rightarrow> event option list \<Rightarrow> int \<Rightarrow> event_store
    \<Rightarrow> (events_error, unit, event_store) outcome" where
  "append_events clock uuid k es expected s =
     (if k = '''' then (Inl ErrStreamNotFound, s)
      else if es = [] then (Inr (), s)
      else if es_closed s then (Inl ErrEventStoreClosed, s)
      else if expected > 0 \<and> version_of s k \<noteq> expected then (Inl ErrVersionConflict, s)
      else append_loop clock uuid k (version_of s k) 0 es s)"

text \<open>\<open>Emit\<close>: one event, appended without a version check; whether that worked.\<close>

definition emit ::
  "(int \<Rightarrow> time) \<Rightarrow> (int \<Rightarrow> string) \<Rightarrow> string \<Rightarrow> string \<Rightarrow> string \<Rightarrow> payload \<Rightarrow> event_store \<Rightarrow> bool \<times> event_store"
  where
  "emit clock uuid k ty md pl s =
     (let e = \<lparr>ev_id = uuid 0, ev_stream = k, ev_type = ty, ev_module = md, ev_payload = pl,
               ev_metadata = [], ev_version = 0, ev_time = clock 0\<rparr>
      in case append_events clock uuid k [Some e] 0 s of
           (Inl _, s') \<Rightarrow> (False, s') | (Inr _, s') \<Rightarrow> (True, s'))"

subsection \<open>Reading\<close>

definition since_filter :: "time \<Rightarrow> event list \<Rightarrow> event list" where
  "since_filter t es = (if t \<noteq> zero_time then [e \<leftarrow> es. ev_time e \<ge> t] else es)"

definition limit_to :: "int \<Rightarrow> event list \<Rightarrow> event list" where
  "limit_to n es = (if n > 0 \<and> int (length es) > n then take (nat n) es else es)"

definition read_stream ::
  "((event \<Rightarrow> event \<Rightarrow> bool) \<Rightarrow> event list \<Rightarrow> event list) \<Rightarrow> string \<Rightarrow> read_options \<Rightarrow> event_store
    \<Rightarrow> events_error + event list" where
  "read_stream srt k ro s =
     (if k = '''' then Inl ErrStreamNotFound
      else if es_closed s then Inl ErrEventStoreClosed
      else if stream_of s k = [] then Inr []
      else (let es = since_filter (ro_since ro) [e \<leftarrow> stream_of s k. ev_version e \<ge> ro_from ro];
                es' = (if ro_dir ro = ReadDescending then srt (\<lambda>a b. ev_version a > ev_version b) es else es)
            in Inr (limit_to (ro_limit ro) es')))"

definition read_all ::
  "((event \<Rightarrow> event \<Rightarrow> bool) \<Rightarrow> event list \<Rightarrow> event list) \<Rightarrow> read_options \<Rightarrow> event_store
    \<Rightarrow> events_error + event list" where
  "read_all srt ro s =
     (if es_closed s then Inl ErrEventStoreClosed
      else (let es = since_filter (ro_since ro) (es_events s);
                es' = (if ro_dir ro = ReadDescending then srt (\<lambda>a b. ev_time a > ev_time b) es
                       else srt (\<lambda>a b. ev_time a < ev_time b) es)
            in Inr (limit_to (ro_limit ro) es')))"

definition stream_version :: "string \<Rightarrow> event_store \<Rightarrow> events_error + int" where
  "stream_version k s = (if es_closed s then Inl ErrEventStoreClosed else Inr (version_of s k))"

subsection \<open>Trimming\<close>

text \<open>The index of the first event past \<open>end\<close>, or the length.\<close>

fun split_at :: "int \<Rightarrow> event list \<Rightarrow> nat" where
  "split_at end [] = 0"
| "split_at end (e # es) = (if ev_version e > end then 0 else Suc (split_at end es))"

definition trim_before :: "string \<Rightarrow> int \<Rightarrow> event_store \<Rightarrow> int \<times> event_store" where
  "trim_before k end s =
     (case es_streams s k of
        None \<Rightarrow> (0, s)
      | Some es \<Rightarrow>
          (let n = split_at end es in
           if n > 0
           then (int n, s\<lparr>es_streams := (es_streams s)(k \<mapsto> drop n es),
                          es_events := [e \<leftarrow> es_events s. ev_stream e \<noteq> k \<or> ev_version e > end]\<rparr>)
           else (int n, s)))"

section \<open>Integrity of a stream\<close>

fun verify_from :: "int \<Rightarrow> event list \<Rightarrow> events_error + unit" where
  "verify_from expected [] = Inr ()"
| "verify_from expected (e # es) =
     (if ev_version e = 0 then Inr ()
      else if ev_version e \<noteq> expected then Inl ErrEventIntegrity
      else verify_from (wrap64 (expected + 1)) es)"

definition verify_stream_integrity :: "event list \<Rightarrow> events_error + unit" where
  "verify_stream_integrity es =
     (case es of
        [] \<Rightarrow> Inr ()
      | [e] \<Rightarrow> Inr ()
      | e # _ \<Rightarrow> if ev_version e = 0 then Inr () else verify_from (ev_version e) es)"

end
