(* ===== verification/Event_Store_Inv.thy ===== *)
theory Event_Store_Inv
  imports Event_Store Interfaces
begin

text \<open>
  Well-formedness of the event store: every stream holds an unbroken run of versions that ends at
  the stream's version, the global log holds the same events, and every registered subscriber has an
  open channel within its buffer. The calls as a datatype, and the invariant of every list of them.
\<close>

section \<open>The invariant\<close>

definition subs_ok :: "event_store \<Rightarrow> bool" where
  "subs_ok s \<longleftrightarrow> distinct (map su_id (es_subs s)) \<and> (es_closed s \<longrightarrow> es_subs s = [])
     \<and> (\<forall>u \<in> set (es_subs s). su_id u \<le> es_next_sub s
          \<and> (\<exists>c. es_chans s (su_id u) = Some c \<and> chan_ok event_buffer c))"

text \<open>The versions of the live events of a stream: those up to its version, but for a trimmed prefix.\<close>

definition contiguous :: "int \<Rightarrow> event list \<Rightarrow> bool" where
  "contiguous v es \<longleftrightarrow> (\<forall>i < length es. ev_version (es ! i) = v - int (length es) + 1 + int i)"

definition stream_ok :: "string \<Rightarrow> int \<Rightarrow> event list \<Rightarrow> event list \<Rightarrow> bool" where
  "stream_ok k v es evs \<longleftrightarrow>
     contiguous v es \<and> int (length es) \<le> v \<and> v < 2 ^ 63 \<and> [e \<leftarrow> evs. ev_stream e = k] = es"

definition streams_ok :: "event_store \<Rightarrow> bool" where
  "streams_ok s \<longleftrightarrow> (\<forall>k. stream_ok k (version_of s k) (stream_of s k) (es_events s))"

definition event_store_wf :: "event_store \<Rightarrow> bool" where
  "event_store_wf s \<longleftrightarrow> subs_ok s \<and> streams_ok s"

lemma contiguousD: "contiguous v es \<Longrightarrow> i < length es \<Longrightarrow> ev_version (es ! i) = v - int (length es) + 1 + int i"
  by (simp add: contiguous_def)

lemma contiguous_Nil [simp]: "contiguous v []"
  by (simp add: contiguous_def)

lemma contiguous_snoc: "contiguous v es \<Longrightarrow> ev_version e = v + 1 \<Longrightarrow> contiguous (v + 1) (es @ [e])"
  by (auto simp: contiguous_def nth_append less_Suc_eq)

lemma contiguous_drop: "contiguous v es \<Longrightarrow> contiguous v (drop n es)"
  by (auto simp: contiguous_def)

lemma contiguous_le: "contiguous v es \<Longrightarrow> e \<in> set es \<Longrightarrow> v - int (length es) < ev_version e \<and> ev_version e \<le> v"
  by (auto simp: contiguous_def in_set_conv_nth)

lemma contiguous_sorted: "contiguous v es \<Longrightarrow> sorted_wrt (<) (map ev_version es)"
  by (auto simp: contiguous_def sorted_wrt_iff_nth_less)

lemma contiguous_from: "contiguous v es \<Longrightarrow> [e \<leftarrow> es. ev_version e \<ge> m] = drop (nat (m - (v - int (length es)) - 1)) es"
proof (induction es)
  case (Cons e es)
  from Cons.prems have tl: "contiguous v es" and e: "ev_version e = v - int (length es)"
    using contiguous_drop [of v "e # es" 1] contiguousD [of v "e # es" 0] by auto
  show ?case
  proof (cases "m \<le> v - int (length es)")
    case True
    have "\<forall>x \<in> set es. m \<le> ev_version x" using contiguous_le [OF tl] True by fastforce
    then show ?thesis using True e by simp
  next
    case False
    then have "nat (m - (v - int (length (e # es))) - 1) = Suc (nat (m - (v - int (length es)) - 1))" by simp
    then show ?thesis using False e Cons.IH [OF tl] by simp
  qed
qed simp

lemma contiguous_split:
  assumes "contiguous v es"
  shows "split_at m es = nat (min (int (length es)) (m - (v - int (length es))))"
  using assms
proof (induction es)
  case (Cons e es)
  from Cons.prems have tl: "contiguous v es" and e: "ev_version e = v - int (length es)"
    using contiguous_drop [of v "e # es" 1] contiguousD [of v "e # es" 0] by auto
  show ?case using Cons.IH [OF tl] e by auto
qed simp

lemma drop_split: "drop (split_at m es) es = dropWhile (\<lambda>e. ev_version e \<le> m) es"
  by (induction es) auto

lemma contiguous_drop_split: "contiguous v es \<Longrightarrow> drop (split_at m es) es = [e \<leftarrow> es. ev_version e > m]"
proof -
  assume c: "contiguous v es"
  have "[e \<leftarrow> es. ev_version e > m] = [e \<leftarrow> es. ev_version e \<ge> m + 1]" by (rule filter_cong) auto
  also have "\<dots> = drop (nat (m - (v - int (length es)))) es"
    using contiguous_from [OF c, of "m + 1"] by (simp add: algebra_simps)
  also have "\<dots> = drop (split_at m es) es"
    unfolding contiguous_split [OF c]
    by (cases "m - (v - int (length es)) \<le> int (length es)") (auto simp: algebra_simps)
  finally show ?thesis by simp
qed

section \<open>Subscribers\<close>

lemma wf_new [simp]: "event_store_wf new_event_store"
  by (simp add: event_store_wf_def subs_ok_def streams_ok_def stream_ok_def new_event_store_def stream_of_def version_of_def)

lemma streams_frame:
  "es_streams t = es_streams s \<Longrightarrow> es_versions t = es_versions s \<Longrightarrow> es_events t = es_events s \<Longrightarrow>
   streams_ok t = streams_ok s"
  by (simp add: streams_ok_def stream_of_def version_of_def)

text \<open>What a notification may change: channels and the counter of dropped events.\<close>

definition notified :: "event_store \<Rightarrow> event_store \<Rightarrow> bool" where
  "notified s t \<longleftrightarrow> (\<exists>d c. t = s\<lparr>es_dropped := d, es_chans := c\<rparr>)"

lemma notified_frame:
  assumes "notified s t"
  shows "es_events t = es_events s" "es_streams t = es_streams s" "es_versions t = es_versions s"
    "es_subs t = es_subs s" "es_closed t = es_closed s" "es_next_sub t = es_next_sub s"
  using assms by (auto simp: notified_def)

lemma notified_refl: "notified s s"
  unfolding notified_def by (rule exI [of _ "es_dropped s"], rule exI [of _ "es_chans s"]) simp

lemma notified_trans: "notified s t \<Longrightarrow> notified t u \<Longrightarrow> notified s u"
  by (force simp: notified_def)

lemma notified_drop: "notified s (s\<lparr>es_dropped := d\<rparr>)"
  unfolding notified_def by (rule exI [of _ d], rule exI [of _ "es_chans s"]) simp

lemma notified_chan: "notified s (s\<lparr>es_chans := c\<rparr>)"
  unfolding notified_def by (rule exI [of _ "es_dropped s"], rule exI [of _ c]) simp

lemma notify_ok:
  assumes "subs_ok s" "set us \<subseteq> set (es_subs s)"
  obtains t where "notify_subscribers e us s = (Inr (), t)" "notified s t" "subs_ok t"
proof -
  have "\<exists>t. notify_subscribers e us s = (Inr (), t) \<and> notified s t \<and> subs_ok t"
    using assms
  proof (induction us arbitrary: s)
    case Nil
    then show ?case using notified_refl by auto
  next
    case (Cons u us)
    then obtain c where c: "es_chans s (su_id u) = Some c" "chan_ok event_buffer c"
      by (auto simp: subs_ok_def)
    define s1 where "s1 = (if matches_filter e (su_filter u)
      then (case try_send e c of Sent c' \<Rightarrow> s\<lparr>es_chans := (es_chans s)(su_id u \<mapsto> c')\<rparr>
                                 | _ \<Rightarrow> s\<lparr>es_dropped := es_dropped s + 1\<rparr>) else s)"
    have step: "notify_subscribers e (u # us) s = notify_subscribers e us s1"
      using c chan_ok_no_panic [OF c(2), of e] by (auto simp: s1_def split: sending.splits)
    have n: "notified s s1"
      by (auto simp: s1_def notified_refl notified_drop notified_chan split: sending.splits)
    have ok: "subs_ok s1"
      using Cons.prems(1) chan_ok_send [OF c(2), of e]
      by (auto simp: s1_def subs_ok_def split: sending.splits)
    from Cons.IH [OF ok] Cons.prems(2) obtain t
      where "notify_subscribers e us s1 = (Inr (), t)" "notified s1 t" "subs_ok t"
      using notified_frame [OF n] by auto
    then show ?case using step notified_trans [OF n] by auto
  qed
  then show ?thesis using that by blast
qed

section \<open>Appending\<close>

lemma stream_of_store: "stream_of (store_event k e s) = (stream_of s)(k := stream_of s k @ [e])"
  by (rule ext) (simp add: store_event_def stream_of_def)

lemma version_of_store: "version_of (store_event k e s) = (version_of s)(k := ev_version e)"
  by (rule ext) (simp add: store_event_def version_of_def)

lemma store_event_frame [simp]:
  "es_subs (store_event k e s) = es_subs s" "es_closed (store_event k e s) = es_closed s"
  "es_next_sub (store_event k e s) = es_next_sub s" "es_chans (store_event k e s) = es_chans s"
  "es_events (store_event k e s) = es_events s @ [e]"
  by (simp_all add: store_event_def)

lemma stamp_fields [simp]: "ev_version (stamp clock uuid k v i e) = v" "ev_stream (stamp clock uuid k v i e) = k"
  "ev_type (stamp clock uuid k v i e) = ev_type e" "ev_payload (stamp clock uuid k v i e) = ev_payload e"
  by (simp_all add: stamp_def)

lemma stream_ok_snoc:
  "stream_ok k v es evs \<Longrightarrow> ev_version e = v + 1 \<Longrightarrow> v + 1 < 2 ^ 63 \<Longrightarrow> ev_stream e = k \<Longrightarrow>
   stream_ok k (v + 1) (es @ [e]) (evs @ [e])"
  by (simp add: stream_ok_def contiguous_snoc)

lemma stream_ok_other: "stream_ok k v es evs \<Longrightarrow> ev_stream e \<noteq> k \<Longrightarrow> stream_ok k v es (evs @ [e])"
  by (simp add: stream_ok_def)

lemma streams_ok_store:
  assumes "streams_ok s" "ev_version e = version_of s k + 1" "ev_version e < 2 ^ 63" "ev_stream e = k"
  shows "streams_ok (store_event k e s)"
proof -
  have "stream_ok j (version_of (store_event k e s) j) (stream_of (store_event k e s) j) (es_events s @ [e])" for j
    using assms(1) [unfolded streams_ok_def, rule_format, of j] assms(2-4)
      stream_ok_snoc [of k "version_of s k" "stream_of s k" "es_events s" e]
    by (cases "j = k") (simp_all add: stream_of_store version_of_store stream_ok_other)
  then show ?thesis by (simp add: streams_ok_def)
qed

lemma wf_stream: "event_store_wf s \<Longrightarrow> stream_ok k (version_of s k) (stream_of s k) (es_events s)"
  by (simp add: event_store_wf_def streams_ok_def)

lemma wf_version: "event_store_wf s \<Longrightarrow> 0 \<le> version_of s k \<and> version_of s k < 2 ^ 63"
  using wf_stream [of s k] by (simp add: stream_ok_def)

lemma subs_ok_store: "subs_ok (store_event k e s) = subs_ok s"
  by (simp add: subs_ok_def)

lemma notified_wf: "notified s t \<Longrightarrow> streams_ok t = streams_ok s"
  using notified_frame by (intro streams_frame) auto

lemma notified_reads: "notified s t \<Longrightarrow> stream_of t = stream_of s \<and> version_of t = version_of s"
  using notified_frame [of s t] by (simp add: stream_of_def version_of_def fun_eq_iff)

text \<open>One event: the version that is next, or the overflow error.\<close>

lemma append_step:
  assumes wf: "event_store_wf s" and v: "version_of s k = start + i" and small: "start + i + 1 < 2 ^ 63"
  obtains t where
    "append_loop clock uuid k start i (Some e # es) s = append_loop clock uuid k start (i + 1) es t"
    "event_store_wf t" "notified (store_event k (stamp clock uuid k (start + i + 1) (i + 1) e) s) t"
proof -
  define e' where "e' = stamp clock uuid k (start + i + 1) (i + 1) e"
  have pos: "0 \<le> version_of s k" using wf_version [OF wf] by simp
  then have w: "wrap64 (start + (i + 1)) = start + i + 1" using v small by (simp add: wrap64_def)
  have ok: "subs_ok (store_event k e' s)" "streams_ok (store_event k e' s)"
    using wf v small by (simp_all add: event_store_wf_def subs_ok_store streams_ok_store e'_def)
  from notify_ok [OF ok(1), of "es_subs s" e'] obtain t where
    t: "notify_subscribers e' (es_subs s) (store_event k e' s) = (Inr (), t)" "notified (store_event k e' s) t" "subs_ok t"
    by auto
  have "event_store_wf t" using t notified_wf [OF t(2)] ok by (simp add: event_store_wf_def)
  moreover have "append_loop clock uuid k start i (Some e # es) s = append_loop clock uuid k start (i + 1) es t"
    using w pos v t(1) by (simp add: Let_def e'_def)
  ultimately show ?thesis using that t(2) by (simp add: e'_def)
qed

text \<open>The batch as it is stored.\<close>

fun stamped :: "(int \<Rightarrow> time) \<Rightarrow> (int \<Rightarrow> string) \<Rightarrow> string \<Rightarrow> int \<Rightarrow> int \<Rightarrow> event option list \<Rightarrow> event list" where
  "stamped clock uuid k start i [] = []"
| "stamped clock uuid k start i (None # es) = stamped clock uuid k start i es"
| "stamped clock uuid k start i (Some e # es) =
     stamp clock uuid k (start + i + 1) (i + 1) e # stamped clock uuid k start (i + 1) es"

text \<open>What an accepted batch does to the store.\<close>

definition appended :: "string \<Rightarrow> event list \<Rightarrow> event_store \<Rightarrow> event_store \<Rightarrow> bool" where
  "appended k new s t \<longleftrightarrow>
     stream_of t = (stream_of s)(k := stream_of s k @ new)
     \<and> version_of t = (version_of s)(k := version_of s k + int (length new))
     \<and> es_events t = es_events s @ new
     \<and> es_subs t = es_subs s \<and> es_closed t = es_closed s \<and> es_next_sub t = es_next_sub s"

lemma append_loop_ok:
  assumes "event_store_wf s" "version_of s k = start + i"
    "start + i + int (length (stamped clock uuid k start i es)) < 2 ^ 63"
  shows "\<exists>t. append_loop clock uuid k start i es s = (Inr (), t) \<and> event_store_wf t
           \<and> appended k (stamped clock uuid k start i es) s t"
  using assms
proof (induction es arbitrary: i s)
  case Nil
  then show ?case by (auto simp: appended_def fun_eq_iff)
next
  case (Cons x es)
  show ?case
  proof (cases x)
    case None
    with Cons show ?thesis by simp
  next
    case (Some e)
    with Cons.prems have small: "start + i + 1 < 2 ^ 63"
      "start + (i + 1) + int (length (stamped clock uuid k start (i + 1) es)) < 2 ^ 63" by simp_all
    obtain t where t:
      "append_loop clock uuid k start i (Some e # es) s = append_loop clock uuid k start (i + 1) es t"
      "event_store_wf t" "notified (store_event k (stamp clock uuid k (start + i + 1) (i + 1) e) s) t"
      by (rule append_step [OF Cons.prems(1,2) small(1), of clock uuid e es]) blast
    note rd = notified_reads [OF t(3)] and fr = notified_frame [OF t(3)]
    have "version_of t k = start + (i + 1)" using rd by (simp add: version_of_store)
    from Cons.IH [OF t(2) this small(2)] obtain u where u:
      "append_loop clock uuid k start (i + 1) es t = (Inr (), u)" "event_store_wf u"
      "appended k (stamped clock uuid k start (i + 1) es) t u" by blast
    have "appended k (stamped clock uuid k start i (Some e # es)) s u"
      using u(3) rd fr Cons.prems(2) by (auto simp: appended_def stream_of_store version_of_store fun_eq_iff)
    then show ?thesis using t(1) u(1,2) Some by auto
  qed
qed

text \<open>Whatever the batch: the store stays well-formed, a version that would overflow ends the loop.\<close>

lemma append_some_cases:
  assumes "event_store_wf s" "version_of s k = start + i"
  obtains (overflow) "append_loop clock uuid k start i (Some e # es) s = (Inl ErrVersionOverflow, s)"
  | (stored) t where
      "append_loop clock uuid k start i (Some e # es) s = append_loop clock uuid k start (i + 1) es t"
      "event_store_wf t" "version_of t = (version_of s)(k := start + (i + 1))"
      "notified (store_event k (stamp clock uuid k (start + i + 1) (i + 1) e) s) t"
proof (cases "start + i + 1 < 2 ^ 63")
  case True
  obtain t where t:
    "append_loop clock uuid k start i (Some e # es) s = append_loop clock uuid k start (i + 1) es t"
    "event_store_wf t" "notified (store_event k (stamp clock uuid k (start + i + 1) (i + 1) e) s) t"
    by (rule append_step [OF assms True, of clock uuid e es]) blast
  have "version_of t = (version_of s)(k := start + (i + 1))"
    using notified_reads [OF t(3)] by (simp add: version_of_store add.assoc)
  with t show ?thesis by (intro stored)
next
  case False
  then have "start + (i + 1) = 2 ^ 63" using wf_version [OF assms(1), of k] assms(2) by simp
  then have "wrap64 (start + (i + 1)) \<le> 0" by (simp only: wrap64_def) simp
  then show ?thesis by (intro overflow) simp
qed

lemma append_loop_wf:
  "event_store_wf s \<Longrightarrow> version_of s k = start + i \<Longrightarrow> event_store_wf (snd (append_loop clock uuid k start i es s))"
proof (induction es arbitrary: i s)
  case (Cons x es)
  show ?case
  proof (cases x)
    case (Some e)
    show ?thesis
      by (rule append_some_cases [OF Cons.prems, of clock uuid e es]) (use Some Cons in auto)
  qed (use Cons in simp)
qed simp

section \<open>The calls\<close>

datatype es_call =
    CallAppend "int \<Rightarrow> time" "int \<Rightarrow> string" string "event option list" int
  | CallEmit "int \<Rightarrow> time" "int \<Rightarrow> string" string string string payload
  | CallSubscribe event_filter
  | CallUnsubscribe int
  | CallReceive int
  | CallTrim string int
  | CallClose

fun exec_es :: "es_call \<Rightarrow> event_store \<Rightarrow> event_store" where
  "exec_es (CallAppend clock uuid k es expected) s = snd (append_events clock uuid k es expected s)"
| "exec_es (CallEmit clock uuid k ty md pl) s = snd (emit clock uuid k ty md pl s)"
| "exec_es (CallSubscribe fl) s = snd (subscribe fl s)"
| "exec_es (CallUnsubscribe n) s = snd (unsubscribe n s)"
| "exec_es (CallReceive n) s = snd (receive n s)"
| "exec_es (CallTrim k end) s = snd (trim_before k end s)"
| "exec_es CallClose s = snd (close_store s)"

lemma append_events_wf: "event_store_wf s \<Longrightarrow> event_store_wf (snd (append_events clock uuid k es expected s))"
  by (simp add: append_events_def append_loop_wf)

lemma emit_snd:
  "snd (emit clock uuid k ty md pl s) = snd (append_events clock uuid k
     [Some \<lparr>ev_id = uuid 0, ev_stream = k, ev_type = ty, ev_module = md, ev_payload = pl,
       ev_metadata = [], ev_version = 0, ev_time = clock 0\<rparr>] 0 s)"
  by (auto simp: emit_def Let_def split: prod.splits sum.splits)

lemma subscribe_wf: "event_store_wf s \<Longrightarrow> event_store_wf (snd (subscribe fl s))"
proof -
  assume wf: "event_store_wf s"
  then have "es_next_sub s + 1 \<notin> su_id ` set (es_subs s)"
    by (auto simp: event_store_wf_def subs_ok_def)
  with wf show ?thesis
    by (auto simp: event_store_wf_def subscribe_def Let_def subs_ok_def streams_ok_def stream_of_def version_of_def)
qed

lemma set_without_sub: "distinct (map su_id us) \<Longrightarrow> set (without_sub n us) = {u \<in> set us. su_id u \<noteq> n}"
proof (induction us)
  case (Cons u us)
  then have "\<forall>x \<in> set us. su_id x \<noteq> su_id u" by (simp add: image_iff) metis
  with Cons show ?case by auto
qed simp

lemma distinct_without_sub: "distinct (map su_id us) \<Longrightarrow> distinct (map su_id (without_sub n us))"
  by (induction us) (auto simp: set_without_sub)

lemma close_sub_open: "es_chans s n = Some c \<Longrightarrow> \<not> ch_closed c \<Longrightarrow>
  close_sub n s = (Inr (), s\<lparr>es_chans := (es_chans s)(n \<mapsto> c\<lparr>ch_closed := True\<rparr>)\<rparr>)"
  by (simp add: close_sub_def close_chan_def)

lemma subs_ok_chan: "subs_ok s \<Longrightarrow> u \<in> set (es_subs s) \<Longrightarrow>
  \<exists>c. es_chans s (su_id u) = Some c \<and> \<not> ch_closed c \<and> chan_ok event_buffer c"
  by (auto simp: subs_ok_def chan_ok_def)

lemma close_sub_ok: "subs_ok s \<Longrightarrow> u \<in> set (es_subs s) \<Longrightarrow>
  \<exists>c. close_sub (su_id u) s = (Inr (), s\<lparr>es_chans := (es_chans s)(su_id u \<mapsto> c)\<rparr>)"
  using subs_ok_chan close_sub_open by blast

lemma unsubscribe_cases:
  assumes "subs_ok s"
  obtains "unsubscribe n s = (Inr (), s)"
  | c where "unsubscribe n s = (Inr (), s\<lparr>es_chans := (es_chans s)(n \<mapsto> c), es_subs := without_sub n (es_subs s)\<rparr>)"
proof (cases "list_ex (\<lambda>u. su_id u = n) (es_subs s)")
  case True
  then obtain u where "u \<in> set (es_subs s)" "su_id u = n" by (auto simp: list_ex_iff)
  with close_sub_ok [OF assms] obtain c
    where "close_sub n s = (Inr (), s\<lparr>es_chans := (es_chans s)(n \<mapsto> c)\<rparr>)" by blast
  with True that(2) [of c] show ?thesis by (simp add: unsubscribe_def)
qed (use that in \<open>simp add: unsubscribe_def\<close>)

lemma streams_frame':
  "streams_ok (s\<lparr>es_chans := c, es_subs := us\<rparr>) = streams_ok s"
  "streams_ok (s\<lparr>es_chans := c\<rparr>) = streams_ok s"
  "streams_ok (s\<lparr>es_closed := b\<rparr>) = streams_ok s"
  "streams_ok (s\<lparr>es_subs := us\<rparr>) = streams_ok s"
  by (rule streams_frame; simp)+

lemma unsubscribe_wf: "event_store_wf s \<Longrightarrow> event_store_wf (snd (unsubscribe n s))"
proof -
  assume wf: "event_store_wf s"
  then have ok: "subs_ok s" by (simp add: event_store_wf_def)
  show ?thesis
  proof (rule unsubscribe_cases [OF ok, of n])
    fix c
    assume u: "unsubscribe n s = (Inr (), s\<lparr>es_chans := (es_chans s)(n \<mapsto> c), es_subs := without_sub n (es_subs s)\<rparr>)"
    from ok have "subs_ok (s\<lparr>es_chans := (es_chans s)(n \<mapsto> c), es_subs := without_sub n (es_subs s)\<rparr>)"
      by (auto simp: subs_ok_def set_without_sub distinct_without_sub)
    with u wf show ?thesis by (simp add: event_store_wf_def streams_frame')
  qed (use wf in simp)
qed

lemma receive_wf: "event_store_wf s \<Longrightarrow> event_store_wf (snd (receive n s))"
proof -
  assume wf: "event_store_wf s"
  then have ok: "subs_ok s" by (simp add: event_store_wf_def)
  show ?thesis
  proof (cases "\<exists>c e c'. es_chans s n = Some c \<and> try_receive c = Received e c'")
    case True
    then obtain c e c' where c: "es_chans s n = Some c" "try_receive c = Received e c'" by blast
    have "subs_ok (s\<lparr>es_chans := (es_chans s)(n \<mapsto> c')\<rparr>)"
      using ok c chan_ok_receive [of event_buffer c e c'] by (auto simp: subs_ok_def)
    with c wf show ?thesis by (simp add: receive_def event_store_wf_def streams_frame')
  next
    case False
    then show ?thesis using wf by (auto simp: receive_def split: option.splits receiving.splits)
  qed
qed

lemma close_subs_ok:
  assumes "\<forall>u \<in> set us. \<exists>c. es_chans s (su_id u) = Some c \<and> \<not> ch_closed c" "distinct (map su_id us)"
  shows "\<exists>cs. close_subs us s = (Inr (), s\<lparr>es_chans := cs\<rparr>)"
  using assms
proof (induction us arbitrary: s)
  case Nil
  show ?case by (auto intro: exI [of _ "es_chans s"])
next
  case (Cons u us)
  then obtain c where c: "es_chans s (su_id u) = Some c" "\<not> ch_closed c" by auto
  define s1 where "s1 = s\<lparr>es_chans := (es_chans s)(su_id u \<mapsto> c\<lparr>ch_closed := True\<rparr>)\<rparr>"
  have "close_sub (su_id u) s = (Inr (), s1)" using c by (simp add: close_sub_open s1_def)
  moreover have "\<forall>x \<in> set us. \<exists>c. es_chans s1 (su_id x) = Some c \<and> \<not> ch_closed c"
    using Cons.prems by (auto simp: s1_def image_iff)
  with Cons.IH [of s1] Cons.prems(2) obtain cs where "close_subs us s1 = (Inr (), s1\<lparr>es_chans := cs\<rparr>)"
    by auto
  ultimately show ?case by (auto simp: s1_def)
qed

lemma close_store_ok:
  assumes "subs_ok s" "\<not> es_closed s"
  shows "\<exists>cs. close_store s = (Inr (), s\<lparr>es_closed := True, es_chans := cs, es_subs := []\<rparr>)"
proof -
  have "\<exists>cs. close_subs (es_subs s) (s\<lparr>es_closed := True\<rparr>) = (Inr (), s\<lparr>es_closed := True, es_chans := cs\<rparr>)"
    using close_subs_ok [of "es_subs s" "s\<lparr>es_closed := True\<rparr>"] assms by (auto simp: subs_ok_def chan_ok_def)
  then show ?thesis using assms by (auto simp: close_store_def)
qed

lemma close_store_wf: "event_store_wf s \<Longrightarrow> event_store_wf (snd (close_store s))"
  using close_store_ok [of s]
  by (cases "es_closed s") (auto simp: event_store_wf_def subs_ok_def streams_ok_def stream_of_def version_of_def close_store_def)

lemma trim_before_stream: "event_store_wf s \<Longrightarrow>
  stream_of (snd (trim_before k end s)) = (stream_of s)(k := [e \<leftarrow> stream_of s k. ev_version e > end])"
proof -
  assume wf: "event_store_wf s"
  have "drop (split_at end (stream_of s k)) (stream_of s k) = [e \<leftarrow> stream_of s k. ev_version e > end]"
    using wf_stream [OF wf, of k] by (auto simp: stream_ok_def intro: contiguous_drop_split)
  then show ?thesis
    by (auto simp: trim_before_def stream_of_def fun_eq_iff Let_def split: option.splits)
qed

lemma trim_before_frame [simp]:
  "es_versions (snd (trim_before k end s)) = es_versions s" "es_subs (snd (trim_before k end s)) = es_subs s"
  "es_closed (snd (trim_before k end s)) = es_closed s" "es_next_sub (snd (trim_before k end s)) = es_next_sub s"
  "es_chans (snd (trim_before k end s)) = es_chans s"
  by (auto simp: trim_before_def Let_def split: option.splits)

lemma trim_before_version [simp]: "version_of (snd (trim_before k end s)) = version_of s"
  by (simp add: version_of_def fun_eq_iff)

lemma stream_ok_trim:
  assumes "stream_ok j v es evs"
  shows "stream_ok j v (if j = k then [e \<leftarrow> es. ev_version e > end] else es)
           [e \<leftarrow> evs. ev_stream e \<noteq> k \<or> ev_version e > end]"
proof (cases "j = k")
  case True
  with assms have es: "contiguous v es" "int (length es) \<le> v" "v < 2 ^ 63" "es = [e \<leftarrow> evs. ev_stream e = k]"
    by (simp_all add: stream_ok_def)
  have "contiguous v [e \<leftarrow> es. ev_version e > end]"
    using contiguous_drop_split [OF es(1), of "end"] contiguous_drop [OF es(1), of "split_at end es"] by simp
  moreover have "int (length [e \<leftarrow> es. ev_version e > end]) \<le> v"
    using es(2) by (rule order_trans [rotated]) simp
  moreover have "[e \<leftarrow> [e \<leftarrow> evs. ev_stream e \<noteq> k \<or> ev_version e > end]. ev_stream e = k] = [e \<leftarrow> es. ev_version e > end]"
    unfolding es(4) by (auto intro: filter_cong)
  ultimately show ?thesis using True es(3) by (simp add: stream_ok_def)
next
  case False
  then have "[e \<leftarrow> [e \<leftarrow> evs. ev_stream e \<noteq> k \<or> ev_version e > end]. ev_stream e = j] = [e \<leftarrow> evs. ev_stream e = j]"
    by (auto intro: filter_cong)
  then show ?thesis using assms False by (simp add: stream_ok_def)
qed

lemma trim_before_evs:
  assumes "event_store_wf s"
  shows "es_events (snd (trim_before k end s)) = [e \<leftarrow> es_events s. ev_stream e \<noteq> k \<or> ev_version e > end]"
proof (cases "split_at end (stream_of s k) = 0")
  case True
  then have "[e \<leftarrow> stream_of s k. ev_version e > end] = stream_of s k"
    using wf_stream [OF assms, of k] contiguous_drop_split [of "version_of s k" "stream_of s k" "end"]
    by (simp add: stream_ok_def)
  then have "\<forall>e \<in> set (stream_of s k). ev_version e > end" by (simp add: filter_id_conv)
  moreover have "set (stream_of s k) = {e \<in> set (es_events s). ev_stream e = k}"
    using wf_stream [OF assms, of k] by (simp add: stream_ok_def flip: set_filter)
  ultimately have "\<forall>e \<in> set (es_events s). ev_stream e = k \<longrightarrow> ev_version e > end" by simp
  then have "[e \<leftarrow> es_events s. ev_stream e \<noteq> k \<or> ev_version e > end] = es_events s"
    by (auto simp: filter_id_conv)
  then show ?thesis using True by (auto simp: trim_before_def stream_of_def Let_def split: option.splits)
next
  case False
  then show ?thesis by (auto simp: trim_before_def stream_of_def Let_def split: option.splits)
qed

lemma trim_before_wf: "event_store_wf s \<Longrightarrow> event_store_wf (snd (trim_before k end s))"
proof -
  assume wf: "event_store_wf s"
  have "stream_ok j (version_of s j) (stream_of (snd (trim_before k end s)) j) (es_events (snd (trim_before k end s)))" for j
    using stream_ok_trim [OF wf_stream [OF wf, of j], of k "end"]
    by (auto simp: trim_before_stream [OF wf] trim_before_evs [OF wf] split: if_splits)
  with wf show ?thesis by (simp add: event_store_wf_def streams_ok_def subs_ok_def)
qed

lemma exec_es_wf: "event_store_wf s \<Longrightarrow> event_store_wf (exec_es x s)"
  by (cases x) (simp_all add: append_events_wf emit_snd subscribe_wf unsubscribe_wf receive_wf
    trim_before_wf close_store_wf)

interpretation events: invariant_system exec_es "\<lambda>_. True" event_store_wf
  by unfold_locales (rule exec_es_wf)

end
