(* ===== verification/Event_Store_Props.thy ===== *)
theory Event_Store_Props
  imports Event_Store_Inv
begin

text \<open>
  The properties of the event store: no call sequence breaks it or makes it panic, a version is
  claimed once (optimistic concurrency), and reads give an unbroken part of the stream.
\<close>

section \<open>Reading\<close>

lemma contiguous_take: "contiguous v es \<Longrightarrow> n \<le> length es \<Longrightarrow> contiguous (v - int (length es) + int n) (take n es)"
  by (auto simp: contiguous_def)

lemma contiguous_limit: "contiguous v es \<Longrightarrow> \<exists>w \<le> v. contiguous w (limit_to n es) \<and> v - int (length es) = w - int (length (limit_to n es))"
proof (cases "n > 0 \<and> int (length es) > n")
  case True
  assume "contiguous v es"
  moreover from True have "nat n \<le> length es" "length (take (nat n) es) = nat n" by auto
  ultimately show ?thesis using True contiguous_take [of v es "nat n"]
    by (intro exI [of _ "v - int (length es) + n"]) (simp add: limit_to_def del: length_take)
qed (auto simp: limit_to_def)

lemma verify_from_contiguous:
  assumes "contiguous v es" "int (length es) \<le> v" "v < 2 ^ 63"
  shows "verify_from (v - int (length es) + 1) es = Inr ()"
  using assms
proof (induction es)
  case (Cons e es)
  have tl: "contiguous v es" using contiguous_drop [OF Cons.prems(1), of 1] by simp
  have e: "ev_version e = v - int (length es)" using contiguousD [OF Cons.prems(1), of 0] by simp
  show ?case
  proof (cases "es = []")
    case False
    then have "1 \<le> int (length es)" by (cases es) simp_all
    moreover have "1 + int (length es) \<le> v" "v < 2 ^ 63" using Cons.prems(2,3) by simp_all
    ultimately have "- (2 ^ 63) \<le> v - int (length es) + 1" "v - int (length es) + 1 < 2 ^ 63" by linarith+
    moreover have "v - int (length (e # es)) + 1 + 1 = v - int (length es) + 1" by simp
    ultimately have "wrap64 (v - int (length (e # es)) + 1 + 1) = v - int (length es) + 1"
      by (simp only: wrap64_id)
    then show ?thesis using Cons.IH [OF tl] Cons.prems(2,3) e by simp
  qed (use e in simp)
qed simp

lemma verify_contiguous:
  assumes "contiguous v es" "int (length es) \<le> v" "v < 2 ^ 63"
  shows "verify_stream_integrity es = Inr ()"
proof (cases es)
  case (Cons e es')
  then have "ev_version e = v - int (length es) + 1" using contiguousD [OF assms(1), of 0] by simp
  then show ?thesis
    using verify_from_contiguous [OF assms] Cons
    by (cases es') (simp_all add: verify_stream_integrity_def del: verify_from.simps)
qed (simp add: verify_stream_integrity_def)

lemma descending_is_rev:
  assumes "slice_sort srt" "contiguous v es"
  shows "srt (\<lambda>a b. ev_version a > ev_version b) es = rev es"
proof -
  have s: "sorted_wrt (<) (map ev_version es)" by (rule contiguous_sorted [OF assms(2)])
  then have "sorted_wrt (\<lambda>a b. ev_version a < ev_version b) es" by (simp add: sorted_wrt_map)
  then have "sorted_wrt (\<lambda>a b. - ev_version a \<le> - ev_version b) (rev es)"
    by (auto simp: sorted_wrt_rev intro: sorted_wrt_mono_rel [rotated])
  then have "sorted (map (\<lambda>e. - ev_version e) (rev es))"
    by (simp only: sorted_map)
  moreover have "distinct (map (\<lambda>e. - ev_version e) es)"
    using s strict_sorted_iff [of "map ev_version es"] by (auto simp: distinct_map inj_on_def)
  ultimately show ?thesis
    using slice_sort_unique [OF assms(1), of "\<lambda>e. - ev_version e" es "rev es"] by simp
qed

lemma read_stream_open:
  assumes "event_store_wf s" "k \<noteq> ''''" "\<not> es_closed s" "slice_sort srt" "ro_since ro = zero_time"
  shows "read_stream srt k ro s = Inr (limit_to (ro_limit ro)
           ((if ro_dir ro = ReadDescending then rev else id) [e \<leftarrow> stream_of s k. ev_version e \<ge> ro_from ro]))"
proof -
  let ?es = "[e \<leftarrow> stream_of s k. ev_version e \<ge> ro_from ro]"
  have c: "contiguous (version_of s k) (stream_of s k)"
    using wf_stream [OF assms(1), of k] by (simp add: stream_ok_def)
  have "contiguous (version_of s k) ?es"
    unfolding contiguous_from [OF c] by (rule contiguous_drop [OF c])
  note desc = descending_is_rev [OF assms(4) this]
  show ?thesis
  proof (cases "stream_of s k = []")
    case False
    then show ?thesis
      using assms(2,3,5) by (simp add: read_stream_def since_filter_def desc Let_def)
  qed (use assms(2,3,5) in \<open>simp add: read_stream_def limit_to_def\<close>)
qed

section \<open>Versions only grow\<close>

lemma append_loop_grows:
  "event_store_wf s \<Longrightarrow> version_of s k = start + i \<Longrightarrow>
   version_of s j \<le> version_of (snd (append_loop clock uuid k start i es s)) j"
proof (induction es arbitrary: i s)
  case (Cons x es)
  show ?case
  proof (cases x)
    case (Some e)
    show ?thesis
    proof (rule append_some_cases [OF Cons.prems, of clock uuid e es])
      fix t assume t:
        "append_loop clock uuid k start i (Some e # es) s = append_loop clock uuid k start (i + 1) es t"
        "event_store_wf t" "version_of t = (version_of s)(k := start + (i + 1))"
        "notified (store_event k (stamp clock uuid k (start + i + 1) (i + 1) e) s) t"
      have "version_of s j \<le> version_of t j" using t(3) Cons.prems(2) by simp
      also have "\<dots> \<le> version_of (snd (append_loop clock uuid k start (i + 1) es t)) j"
        using Cons.IH [OF t(2)] t(3) by simp
      finally show ?thesis using t(1) Some by simp
    qed (use Some in simp)
  qed (use Cons in simp)
qed simp

lemma append_events_grows:
  "event_store_wf s \<Longrightarrow> version_of s j \<le> version_of (snd (append_events clock uuid k es expected s)) j"
  by (simp add: append_events_def append_loop_grows)

lemma versions_frame: "es_versions t = es_versions s \<Longrightarrow> version_of t = version_of s"
  by (simp add: version_of_def fun_eq_iff)

lemma unsubscribe_versions: "event_store_wf s \<Longrightarrow> es_versions (snd (unsubscribe n s)) = es_versions s"
  by (rule unsubscribe_cases [of s n]) (auto simp: event_store_wf_def)

lemma close_versions: "event_store_wf s \<Longrightarrow> es_versions (snd (close_store s)) = es_versions s"
  using close_store_ok [of s] by (cases "es_closed s") (auto simp: event_store_wf_def close_store_def)

lemma receive_versions: "es_versions (snd (receive n s)) = es_versions s"
  by (auto simp: receive_def split: option.splits receiving.splits)

lemma subscribe_versions: "es_versions (snd (subscribe fl s)) = es_versions s"
  by (simp add: subscribe_def Let_def)

lemma exec_es_grows: "event_store_wf s \<Longrightarrow> version_of s j \<le> version_of (exec_es x s) j"
  by (cases x) (simp_all only: exec_es.simps append_events_grows emit_snd order_refl
    versions_frame [OF unsubscribe_versions] versions_frame [OF close_versions]
    versions_frame [OF receive_versions] versions_frame [OF subscribe_versions] trim_before_version)

definition versions_below :: "event_store \<Rightarrow> event_store \<Rightarrow> bool" where
  "versions_below s t \<longleftrightarrow> (event_store_wf s \<longrightarrow> event_store_wf t \<and> (\<forall>k. version_of s k \<le> version_of t k))"

interpretation event_log: growing_system exec_es versions_below
  by unfold_locales (auto simp: versions_below_def exec_es_wf exec_es_grows intro: order_trans)

section \<open>Properties\<close>

lemma append_loop_result:
  "event_store_wf s \<Longrightarrow> version_of s k = start + i \<Longrightarrow>
   fst (append_loop clock uuid k start i es s) \<in> {Inr (), Inl ErrVersionOverflow}"
proof (induction es arbitrary: i s)
  case (Cons x es)
  show ?case
  proof (cases x)
    case (Some e)
    show ?thesis
      by (rule append_some_cases [OF Cons.prems, of clock uuid e es]) (use Some Cons in auto)
  qed (use Cons in simp)
qed simp

lemma append_no_panic: "event_store_wf s \<Longrightarrow> fst (append_events clock uuid k es expected s) \<noteq> Inl PanicClosedChannel"
  using append_loop_result [of s k "version_of s k" 0 clock uuid es] by (auto simp: append_events_def)

lemma unsubscribe_no_panic: "event_store_wf s \<Longrightarrow> fst (unsubscribe n s) = Inr ()"
  by (rule unsubscribe_cases [of s n]) (auto simp: event_store_wf_def)

lemma close_no_panic: "event_store_wf s \<Longrightarrow> fst (close_store s) \<noteq> Inl PanicClosedChannel"
  using close_store_ok [of s] by (cases "es_closed s") (auto simp: event_store_wf_def close_store_def)

lemma append_accepted:
  assumes "event_store_wf s" "k \<noteq> ''''" "\<not> es_closed s" "expected \<le> 0 \<or> expected = version_of s k"
    "version_of s k + int (length (stamped clock uuid k (version_of s k) 0 es)) < 2 ^ 63"
  shows "\<exists>t. append_events clock uuid k es expected s = (Inr (), t) \<and> event_store_wf t
           \<and> appended k (stamped clock uuid k (version_of s k) 0 es) s t"
proof (cases "es = []")
  case True
  then show ?thesis using assms(1,2) by (auto simp: append_events_def appended_def fun_eq_iff)
next
  case False
  then show ?thesis
    using assms append_loop_ok [OF assms(1), of k "version_of s k" 0 clock uuid es] by (auto simp: append_events_def)
qed

lemma append_loop_moves_on:
  "event_store_wf s \<Longrightarrow> append_loop clock uuid k start i es s = (Inr (), t) \<Longrightarrow> version_of s k = start + i \<Longrightarrow>
   \<not> list_all (\<lambda>x. x = None) es \<Longrightarrow> version_of s k < version_of t k"
proof (induction es arbitrary: i s)
  case (Cons x es)
  show ?case
  proof (cases x)
    case (Some e)
    show ?thesis
    proof (rule append_some_cases [OF Cons.prems(1,3), of clock uuid e es])
      fix u assume u:
        "append_loop clock uuid k start i (Some e # es) s = append_loop clock uuid k start (i + 1) es u"
        "event_store_wf u" "version_of u = (version_of s)(k := start + (i + 1))"
        "notified (store_event k (stamp clock uuid k (start + i + 1) (i + 1) e) s) u"
      have "version_of u k \<le> version_of (snd (append_loop clock uuid k start (i + 1) es u)) k"
        by (rule append_loop_grows [OF u(2)]) (simp add: u(3))
      then show ?thesis using u Some Cons.prems(2,3) by simp
    qed (use Some Cons.prems(2) in simp)
  qed (use Cons in simp)
qed simp

lemma append_moves_on:
  "event_store_wf s \<Longrightarrow> append_events clock uuid k es expected s = (Inr (), t) \<Longrightarrow>
   \<not> list_all (\<lambda>x. x = None) es \<Longrightarrow> version_of s k < version_of t k"
  using append_loop_moves_on [of s clock uuid k "version_of s k" 0 es t]
  by (auto simp: append_events_def split: if_splits)

lemma log_wf: "event_store_wf (fold exec_es calls new_event_store)"
  using events.run_inv [OF wf_new, of calls] by (simp add: list_all_iff)

text \<open>
  C15: No sequence of calls breaks the event store: every stream keeps an unbroken run of versions that
  ends at the stream's version and agrees with the global log, and no call ever sends on a closed
  channel or closes one twice.
\<close>

theorem event_store_safe:
  "event_store_wf (fold exec_es calls new_event_store)
   \<and> fst (append_events clock uuid k es expected (fold exec_es calls new_event_store)) \<noteq> Inl PanicClosedChannel
   \<and> fst (unsubscribe n (fold exec_es calls new_event_store)) = Inr ()
   \<and> fst (close_store (fold exec_es calls new_event_store)) \<noteq> Inl PanicClosedChannel"
  using log_wf append_no_panic unsubscribe_no_panic close_no_panic by blast

text \<open>
  C16: Appending is exact: an accepted batch extends its stream by its non-nil events under the next
  versions and touches no other stream.
\<close>

theorem append_exact:
  assumes "s = fold exec_es calls new_event_store" "k \<noteq> ''''" "\<not> es_closed s"
    "expected \<le> 0 \<or> expected = version_of s k" "version_of s k + int (length es) < 2 ^ 63"
  shows "fst (append_events clock uuid k es expected s) = Inr ()
    \<and> appended k (stamped clock uuid k (version_of s k) 0 es) s (snd (append_events clock uuid k es expected s))"
proof -
  have wf: "event_store_wf s" using log_wf assms(1) by simp
  have "length (stamped clock uuid k start i es) \<le> length es" for start i
    by (induction clock uuid k start i es rule: stamped.induct) simp_all
  then have "int (length (stamped clock uuid k (version_of s k) 0 es)) \<le> int (length es)" by simp
  then have "version_of s k + int (length (stamped clock uuid k (version_of s k) 0 es)) < 2 ^ 63"
    using assms(5) by linarith
  from append_accepted [OF wf assms(2-4) this] show ?thesis by auto
qed

definition sample_event :: "string \<Rightarrow> time \<Rightarrow> event" where
  "sample_event ty t = \<lparr>ev_id = ''e'', ev_stream = '''', ev_type = ty, ev_module = ''m'', ev_payload = [],
     ev_metadata = [], ev_version = 0, ev_time = t\<rparr>"

lemmas run_small_log = append_events_def new_event_store_def version_of_def wrap64_def store_event_def
  stamp_def stream_of_def Let_def sample_event_def zero_time_def

lemma append_exact_witness:
  "version_of (snd (append_events (\<lambda>_. 5) (\<lambda>_. ''id'') ''s'' [None, Some (sample_event ''a'' 1)] 1
     (fold exec_es [CallAppend (\<lambda>_. 5) (\<lambda>_. ''id'') ''s'' [Some (sample_event ''b'' 1)] 0] new_event_store))) ''s'' = 2"
proof -
  let ?s = "fold exec_es [CallAppend (\<lambda>_. 5) (\<lambda>_. ''id'') ''s'' [Some (sample_event ''b'' 1)] 0] new_event_store"
  have v: "version_of ?s ''s'' = 1" and live: "\<not> es_closed ?s"
    by (simp_all add: run_small_log)
  have "appended ''s'' (stamped (\<lambda>_. 5) (\<lambda>_. ''id'') ''s'' (version_of ?s ''s'') 0 [None, Some (sample_event ''a'' 1)]) ?s
      (snd (append_events (\<lambda>_. 5) (\<lambda>_. ''id'') ''s'' [None, Some (sample_event ''a'' 1)] 1 ?s))"
    using append_exact [OF refl _ live, of "''s''" 1 "[None, Some (sample_event ''a'' 1)]" "\<lambda>_. 5" "\<lambda>_. ''id''"] v
    by simp
  then show ?thesis using v by (simp add: appended_def)
qed

text \<open>
  C17: Optimistic concurrency: once an append that expected version \<open>n\<close> has been accepted, no later
  append to the stream that expects \<open>n\<close> is, whatever happens in between; it changes nothing.
\<close>

theorem version_claimed_once:
  assumes "s = fold exec_es calls new_event_store" "n > 0" "append_events clock uuid k es n s = (Inr (), t)"
    "\<not> list_all (\<lambda>x. x = None) es" "es' \<noteq> []"
  shows "append_events clock' uuid' k es' n (fold exec_es later t)
           = (Inl (if es_closed (fold exec_es later t) then ErrEventStoreClosed else ErrVersionConflict), fold exec_es later t)"
proof -
  have wf: "event_store_wf s" using log_wf assms(1) by simp
  have k: "k \<noteq> ''''" "version_of s k = n" using assms(2-4) by (auto simp: append_events_def split: if_splits)
  have "event_store_wf t" using append_events_wf [OF wf, of clock uuid k es n] assms(3) by simp
  moreover have "n < version_of t k" using append_moves_on [OF wf assms(3,4)] k by simp
  moreover have "version_of t k \<le> version_of (fold exec_es later t) k"
    using event_log.run_below [of t later] calculation(1) by (simp add: versions_below_def)
  ultimately have "n < version_of (fold exec_es later t) k" by simp
  then show ?thesis using assms(2,5) k(1) by (simp add: append_events_def)
qed

lemma version_claimed_once_witness:
  "\<exists>s t. append_events (\<lambda>_. 5) (\<lambda>_. ''id'') ''s'' [Some (sample_event ''b'' 1)] 1 s = (Inr (), t)
     \<and> append_events (\<lambda>_. 5) (\<lambda>_. ''id'') ''s'' [Some (sample_event ''c'' 1)] 1 (exec_es (CallReceive 7) t)
         = (Inl ErrVersionConflict, exec_es (CallReceive 7) t)"
proof -
  let ?s = "fold exec_es [CallAppend (\<lambda>_. 5) (\<lambda>_. ''id'') ''s'' [Some (sample_event ''b'' 1)] 0] new_event_store"
  let ?r = "append_events (\<lambda>_. 5) (\<lambda>_. ''id'') ''s'' [Some (sample_event ''b'' 1)] 1 ?s"
  have ok: "?r = (Inr (), snd ?r)" and live: "\<not> es_closed (snd ?r)"
    by (simp_all add: run_small_log)
  have "es_closed (exec_es (CallReceive 7) (snd ?r)) = es_closed (snd ?r)"
    by (auto simp: receive_def split: option.splits receiving.splits)
  with version_claimed_once [OF refl _ ok, of "[Some (sample_event ''c'' 1)]" "\<lambda>_. 5" "\<lambda>_. ''id''" "[CallReceive 7]"] live
  show ?thesis using ok by (intro exI [of _ ?s] exI [of _ "snd ?r"]) simp
qed

text \<open>
  A read gives exactly the live events of the stream from the requested version on, oldest or
  newest first and cut to the limit; an ascending one always passes the integrity check.
\<close>

theorem reads_exact:
  assumes "s = fold exec_es calls new_event_store" "k \<noteq> ''''" "\<not> es_closed s" "slice_sort srt" "ro_since ro = zero_time"
  shows "read_stream srt k ro s = Inr (limit_to (ro_limit ro)
           ((if ro_dir ro = ReadDescending then rev else id) [e \<leftarrow> es_events s. ev_stream e = k \<and> ev_version e \<ge> ro_from ro]))
    \<and> verify_stream_integrity (limit_to (ro_limit ro) [e \<leftarrow> es_events s. ev_stream e = k \<and> ev_version e \<ge> ro_from ro]) = Inr ()"
proof -
  have wf: "event_store_wf s" using log_wf assms(1) by simp
  have st: "stream_ok k (version_of s k) (stream_of s k) (es_events s)" by (rule wf_stream [OF wf])
  have es: "[e \<leftarrow> es_events s. ev_stream e = k \<and> ev_version e \<ge> ro_from ro]
      = [e \<leftarrow> stream_of s k. ev_version e \<ge> ro_from ro]" (is "?es = _")
  proof -
    have "stream_of s k = [e \<leftarrow> es_events s. ev_stream e = k]" using st by (simp add: stream_ok_def)
    then show ?thesis by (simp add: conj_commute)
  qed
  have c: "contiguous (version_of s k) (stream_of s k)" using st by (simp add: stream_ok_def)
  have ce: "contiguous (version_of s k) ?es"
    unfolding es contiguous_from [OF c] by (rule contiguous_drop [OF c])
  from contiguous_limit [OF ce, of "ro_limit ro"] obtain w where
    w: "w \<le> version_of s k" "contiguous w (limit_to (ro_limit ro) ?es)"
      "version_of s k - int (length ?es) = w - int (length (limit_to (ro_limit ro) ?es))" by blast
  have "int (length ?es) \<le> int (length (stream_of s k))"
    unfolding es of_nat_le_iff by (rule length_filter_le)
  then have "int (length ?es) \<le> version_of s k" "version_of s k < 2 ^ 63"
    using st unfolding stream_ok_def by linarith+
  then have "verify_stream_integrity (limit_to (ro_limit ro) ?es) = Inr ()"
    using verify_contiguous [OF w(2)] w by linarith
  then show ?thesis using read_stream_open [OF wf assms(2-5)] es by simp
qed

lemma reads_exact_witness:
  "map_sum id (map ev_type) (read_stream insertion_sort ''s''
     \<lparr>ro_from = 0, ro_limit = 1, ro_dir = ReadDescending, ro_since = zero_time\<rparr>
     (fold exec_es [CallAppend (\<lambda>_. 5) (\<lambda>_. ''id'') ''s'' [Some (sample_event ''b'' 1), Some (sample_event ''c'' 1)] 0]
        new_event_store)) = Inr [''c'']"
proof -
  let ?s = "fold exec_es [CallAppend (\<lambda>_. 5) (\<lambda>_. ''id'') ''s'' [Some (sample_event ''b'' 1), Some (sample_event ''c'' 1)] 0]
        new_event_store"
  have s: "es_events ?s = [stamp (\<lambda>_. 5) (\<lambda>_. ''id'') ''s'' 1 1 (sample_event ''b'' 1),
      stamp (\<lambda>_. 5) (\<lambda>_. ''id'') ''s'' 2 2 (sample_event ''c'' 1)]" and live: "\<not> es_closed ?s"
    by (simp_all add: append_events_def new_event_store_def version_of_def wrap64_def store_event_def stream_of_def Let_def)
  show ?thesis
    using reads_exact [OF refl _ live slice_sort_insertion, of "''s''"
      "\<lparr>ro_from = 0, ro_limit = 1, ro_dir = ReadDescending, ro_since = zero_time\<rparr>"] s
    by (simp add: limit_to_def sample_event_def)
qed

end
