(* ===== verification/Event_Summary.thy ===== *)
theory Event_Summary
  imports Event_Store_Props
begin

text \<open>
  Package \<open>internal/ares_events\<close>: summaries of compacted events and the compaction settings
  (\<open>summary.go\<close>) and the in-memory repository of summaries (\<open>memory_summary_repo.go\<close>), whose index
  per stream is kept in order of the first version by a binary search.
\<close>

section \<open>Summaries\<close>

record event_summary =
  sm_id :: string
  sm_stream :: string
  sm_agent :: string
  sm_task :: string
  sm_session :: string
  sm_user :: string
  sm_text :: string
  sm_count :: int
  sm_start :: int
  sm_end :: int
  sm_start_time :: time
  sm_end_time :: time
  sm_types :: "string \<rightharpoonup> int"
  sm_tasks :: "string list"
  sm_tools :: "string list"
  sm_errors :: "string list"
  sm_request :: string
  sm_outcome :: string
  sm_created :: time

record compaction_config =
  cc_threshold :: int
  cc_keep :: int
  cc_max_summaries :: int
  cc_ttl :: duration
  cc_trim :: bool

definition default_compaction_config :: compaction_config where
  "default_compaction_config = \<lparr>cc_threshold = 500, cc_keep = 100, cc_max_summaries = 50,
     cc_ttl = 30 * 24 * 3600 * 1000000000, cc_trim = False\<rparr>"

section \<open>\<open>sort.Search\<close>\<close>

text \<open>The binary search of the library: the least index in \<open>[i, j)\<close> with \<open>f\<close>, for a monotone \<open>f\<close>.\<close>

function search_between :: "(nat \<Rightarrow> bool) \<Rightarrow> nat \<Rightarrow> nat \<Rightarrow> nat" where
  "search_between f i j =
     (if i < j then (let h = (i + j) div 2 in
                     if \<not> f h then search_between f (h + 1) j else search_between f i h)
      else i)"
  by pat_completeness auto
termination
  by (relation "measure (\<lambda>(f, i, j). j - i)") auto

declare search_between.simps [simp del]

definition sort_search :: "nat \<Rightarrow> (nat \<Rightarrow> bool) \<Rightarrow> nat" where
  "sort_search n f = search_between f 0 n"

definition upward :: "nat \<Rightarrow> (nat \<Rightarrow> bool) \<Rightarrow> bool" where
  "upward n f \<longleftrightarrow> (\<forall>a b. a \<le> b \<longrightarrow> b < n \<longrightarrow> f a \<longrightarrow> f b)"

lemma upwardD: "upward n f \<Longrightarrow> f a \<Longrightarrow> a \<le> b \<Longrightarrow> b < n \<Longrightarrow> f b"
  unfolding upward_def by blast

definition splits_at :: "(nat \<Rightarrow> bool) \<Rightarrow> nat \<Rightarrow> nat \<Rightarrow> nat \<Rightarrow> bool" where
  "splits_at f i j r \<longleftrightarrow> i \<le> r \<and> r \<le> j \<and> (\<forall>m. i \<le> m \<and> m < r \<longrightarrow> \<not> f m) \<and> (\<forall>m. r \<le> m \<and> m < j \<longrightarrow> f m)"

lemma search_between_finds: "i \<le> j \<Longrightarrow> upward j f \<Longrightarrow> splits_at f i j (search_between f i j)"
proof (induction f i j rule: search_between.induct)
  case (1 f i j)
  show ?case
  proof (cases "i < j")
    case False
    then have "i = j" using "1.prems"(1) by simp
    moreover have "search_between f j j = j" by (subst search_between.simps) simp
    ultimately show ?thesis by (auto simp: splits_at_def)
  next
    case True
    define h where "h = (i + j) div 2"
    have h: "i \<le> h" "h < j" using True by (auto simp: h_def)
    show ?thesis
    proof (cases "f h")
      case False
      have u: "search_between f i j = search_between f (h + 1) j"
        using True False by (subst search_between.simps) (simp add: h_def [symmetric])
      have "h + 1 \<le> j" using h by simp
      with "1.IH"(1) [OF True h_def False] "1.prems"(2)
      have ih: "splits_at f (h + 1) j (search_between f i j)" unfolding u by blast
      have low: "\<not> f m" if "m \<le> h" for m using upwardD [OF "1.prems"(2) _ that h(2)] False by blast
      have "\<not> f m" if "i \<le> m" "m < search_between f i j" for m
        using ih low [of m] that unfolding splits_at_def by (cases "m \<le> h") auto
      then show ?thesis using ih h unfolding splits_at_def by auto
    next
      case True': True
      have u: "search_between f i j = search_between f i h"
        using True True' by (subst search_between.simps) (simp add: h_def [symmetric])
      have "upward h f" using "1.prems"(2) h(2) unfolding upward_def by (meson less_trans)
      with "1.IH"(2) [OF True h_def] True' h(1)
      have ih: "splits_at f i h (search_between f i j)" unfolding u by blast
      have high: "f m" if "h \<le> m" "m < j" for m using upwardD [OF "1.prems"(2) True' that] .
      have "f m" if "search_between f i j \<le> m" "m < j" for m
        using ih high [of m] that unfolding splits_at_def by (cases "m < h") auto
      then show ?thesis using ih h unfolding splits_at_def by auto
    qed
  qed
qed

lemma search_between_cong:
  "(\<And>m. m < j \<Longrightarrow> f m = g m) \<Longrightarrow> search_between f i j = search_between g i j"
proof (induction f i j rule: search_between.induct)
  case (1 f i j)
  show ?case
  proof (cases "i < j")
    case True
    define h where "h = (i + j) div 2"
    have "h < j" using True by (auto simp: h_def)
    then show ?thesis
      using "1.IH" [OF True h_def] "1.prems" True
      by (simp add: search_between.simps [of f i j] search_between.simps [of g i j] h_def [symmetric])
  qed (simp add: search_between.simps [of f i j] search_between.simps [of g i j])
qed

lemma sort_search_cong: "(\<And>m. m < n \<Longrightarrow> f m = g m) \<Longrightarrow> sort_search n f = sort_search n g"
  unfolding sort_search_def by (rule search_between_cong)

lemma sort_search_finds: "upward n f \<Longrightarrow> splits_at f 0 n (sort_search n f)"
  unfolding sort_search_def by (rule search_between_finds) simp_all

section \<open>The repository\<close>

record summary_repo =
  sr_summaries :: "string \<rightharpoonup> event_summary"
  sr_by_stream :: "string \<rightharpoonup> string list"

definition new_summary_repo :: summary_repo where
  "new_summary_repo = \<lparr>sr_summaries = Map.empty, sr_by_stream = Map.empty\<rparr>"

definition stream_ids :: "summary_repo \<Rightarrow> string \<Rightarrow> string list" where
  "stream_ids r k = (case sr_by_stream r k of None \<Rightarrow> [] | Some ids \<Rightarrow> ids)"

definition insert_at :: "nat \<Rightarrow> 'a \<Rightarrow> 'a list \<Rightarrow> 'a list" where
  "insert_at i x xs = take i xs @ x # drop i xs"

text \<open>The new entry of a stream's index, before the first one that starts later.\<close>

definition index_summary :: "event_summary \<Rightarrow> summary_repo \<Rightarrow> summary_repo" where
  "index_summary sm r =
     (let ids = stream_ids r (sm_stream sm);
          i = sort_search (length ids) (\<lambda>i. case sr_summaries r (ids ! i) of
                None \<Rightarrow> True | Some e \<Rightarrow> sm_start e > sm_start sm)
      in r\<lparr>sr_by_stream := (sr_by_stream r)(sm_stream sm \<mapsto> insert_at i (sm_id sm) ids)\<rparr>)"

text \<open>Taking an id out of an index; an index without the id is left alone.\<close>

definition unindex :: "string \<Rightarrow> string \<Rightarrow> summary_repo \<Rightarrow> summary_repo" where
  "unindex k sid r =
     (if sid \<in> set (stream_ids r k)
      then r\<lparr>sr_by_stream := (sr_by_stream r)(k \<mapsto> remove1 sid (stream_ids r k))\<rparr> else r)"

definition save_summary :: "event_summary \<Rightarrow> summary_repo \<Rightarrow> summary_repo" where
  "save_summary sm r =
     (if sm_id sm = '''' then r
      else (let r1 = r\<lparr>sr_summaries := (sr_summaries r)(sm_id sm \<mapsto> sm)\<rparr> in
            case sr_summaries r (sm_id sm) of
              None \<Rightarrow> index_summary sm r1
            | Some e \<Rightarrow> if sm_stream e \<noteq> sm_stream sm
                        then index_summary sm (unindex (sm_stream e) (sm_id sm) r1) else r1))"

definition find_by_stream :: "string \<Rightarrow> summary_repo \<Rightarrow> event_summary list" where
  "find_by_stream k r = List.map_filter (sr_summaries r) (stream_ids r k)"

definition find_by_agent_and_task ::
  "((event_summary \<Rightarrow> event_summary \<Rightarrow> bool) \<Rightarrow> event_summary list \<Rightarrow> event_summary list) \<Rightarrow> string list
    \<Rightarrow> string \<Rightarrow> string \<Rightarrow> summary_repo \<Rightarrow> event_summary list" where
  "find_by_agent_and_task srt ord agent tid r =
     srt (\<lambda>a b. sm_start a < sm_start b)
       [s \<leftarrow> List.map_filter (sr_summaries r) ord. sm_agent s = agent \<and> sm_task s = tid]"

definition find_by_agent ::
  "((event_summary \<Rightarrow> event_summary \<Rightarrow> bool) \<Rightarrow> event_summary list \<Rightarrow> event_summary list) \<Rightarrow> string list
    \<Rightarrow> string \<Rightarrow> summary_repo \<Rightarrow> event_summary list" where
  "find_by_agent srt ord agent r =
     srt (\<lambda>a b. sm_created a > sm_created b) [s \<leftarrow> List.map_filter (sr_summaries r) ord. sm_agent s = agent]"

definition find_latest :: "string \<Rightarrow> summary_repo \<Rightarrow> events_error + event_summary option" where
  "find_latest k r =
     (if stream_ids r k = [] then Inl ErrSummaryNotFound
      else Inr (sr_summaries r (last (stream_ids r k))))"

definition drop_summary :: "string \<Rightarrow> event_summary \<Rightarrow> summary_repo \<Rightarrow> summary_repo" where
  "drop_summary sid sm r =
     (let r1 = unindex (sm_stream sm) sid r in r1\<lparr>sr_summaries := (sr_summaries r1)(sid := None)\<rparr>)"

definition delete_summary :: "string \<Rightarrow> summary_repo \<Rightarrow> summary_repo" where
  "delete_summary sid r =
     (case sr_summaries r sid of None \<Rightarrow> r | Some sm \<Rightarrow> drop_summary sid sm r)"

text \<open>Expired summaries; \<open>ord\<close> is the order in which the map is visited.\<close>

definition expire_summary :: "time \<Rightarrow> string \<Rightarrow> int \<times> summary_repo \<Rightarrow> int \<times> summary_repo" where
  "expire_summary threshold sid st =
     (case sr_summaries (snd st) sid of
        None \<Rightarrow> st
      | Some sm \<Rightarrow> if sm_created sm < threshold then (fst st + 1, drop_summary sid sm (snd st)) else st)"

definition delete_older_than :: "string list \<Rightarrow> time \<Rightarrow> summary_repo \<Rightarrow> int \<times> summary_repo" where
  "delete_older_than ord threshold r =
     fold (expire_summary threshold) (range_keys (sr_summaries r) ord) (0, r)"

section \<open>The index stays in order\<close>

definition start_of :: "summary_repo \<Rightarrow> string \<Rightarrow> int" where
  "start_of r sid = (case sr_summaries r sid of None \<Rightarrow> 0 | Some sm \<Rightarrow> sm_start sm)"

definition repo_wf :: "summary_repo \<Rightarrow> bool" where
  "repo_wf r \<longleftrightarrow>
     (\<forall>k. distinct (stream_ids r k) \<and> sorted (map (start_of r) (stream_ids r k)))
     \<and> (\<forall>k sid. sid \<in> set (stream_ids r k) \<longleftrightarrow> (\<exists>sm. sr_summaries r sid = Some sm \<and> sm_stream sm = k))
     \<and> (\<forall>sid sm. sr_summaries r sid = Some sm \<longrightarrow> sm_id sm = sid)"

lemma repo_wfD:
  assumes "repo_wf r"
  shows "distinct (stream_ids r k)" "sorted (map (start_of r) (stream_ids r k))"
    "sid \<in> set (stream_ids r k) \<longleftrightarrow> (\<exists>sm. sr_summaries r sid = Some sm \<and> sm_stream sm = k)"
    "sr_summaries r sid = Some sm \<Longrightarrow> sm_id sm = sid"
  using assms by (auto simp: repo_wf_def)

lemma repo_wf_new [simp]: "repo_wf new_summary_repo"
  by (simp add: repo_wf_def new_summary_repo_def stream_ids_def)

lemma set_insert_at [simp]: "set (insert_at i x xs) = insert x (set xs)"
  by (metis append_take_drop_id insert_at_def insert_is_Un list.simps(15) set_append sup_left_commute)

lemma distinct_insert_at: "distinct xs \<Longrightarrow> x \<notin> set xs \<Longrightarrow> distinct (insert_at i x xs)"
  by (auto simp: insert_at_def dest: in_set_takeD in_set_dropD set_take_disj_set_drop_if_distinct)

lemma sorted_between:
  "sorted (xs @ ys) \<Longrightarrow> \<forall>y \<in> set xs. y \<le> k \<Longrightarrow> \<forall>y \<in> set ys. k \<le> y \<Longrightarrow> sorted (xs @ k # ys)" for k :: int
  by (auto simp: sorted_append)

text \<open>The binary search on an index in order finds the place that keeps it so.\<close>

lemma sorted_insert_search:
  fixes key :: "'a \<Rightarrow> int"
  assumes "sorted (map key xs)"
  shows "sorted (map key (insert_at (sort_search (length xs) (\<lambda>i. key (xs ! i) > key x)) x xs))"
proof -
  let ?f = "\<lambda>i. key (xs ! i) > key x" and ?i = "sort_search (length xs) (\<lambda>i. key (xs ! i) > key x)"
  have "upward (length xs) ?f"
    unfolding upward_def using sorted_nth_mono [OF assms] by (force intro: less_le_trans)
  from sort_search_finds [OF this]
  have i: "?i \<le> length xs" "\<And>m. m < ?i \<Longrightarrow> \<not> ?f m" "\<And>m. ?i \<le> m \<Longrightarrow> m < length xs \<Longrightarrow> ?f m"
    unfolding splits_at_def by blast+
  have "\<forall>y \<in> set (take ?i xs). key y \<le> key x"
    using i(1,2) by (auto simp: in_set_conv_nth not_less)
  moreover have "\<forall>y \<in> set (drop ?i xs). key x \<le> key y"
  proof
    fix y assume "y \<in> set (drop ?i xs)"
    then obtain m where m: "m < length xs - ?i" "y = xs ! (?i + m)" by (auto simp: in_set_conv_nth)
    then have "?i + m < length xs" by linarith
    then show "key x \<le> key y" using i(3) [of "?i + m"] m(2) by simp
  qed
  moreover have "sorted (map key (take ?i xs) @ map key (drop ?i xs))"
    using assms by (simp flip: map_append)
  ultimately show ?thesis
    unfolding insert_at_def map_append list.map by (intro sorted_between) simp_all
qed

lemma stream_ids_upd [simp]:
  "stream_ids (r\<lparr>sr_by_stream := (sr_by_stream r)(k \<mapsto> ids)\<rparr>) = (stream_ids r)(k := ids)"
  "stream_ids (r\<lparr>sr_summaries := m\<rparr>) = stream_ids r"
  by (auto simp: stream_ids_def fun_eq_iff)

lemma stream_ids_unindex: "stream_ids (unindex k sid r) = (stream_ids r)(k := remove1 sid (stream_ids r k))"
  by (auto simp: unindex_def fun_eq_iff remove1_idem)

lemma summaries_unindex [simp]: "sr_summaries (unindex k sid r) = sr_summaries r"
  by (simp add: unindex_def)

text \<open>Indexing a summary that is stored and in no index yet.\<close>

lemma index_summary_wf:
  assumes "\<forall>k. distinct (stream_ids r k) \<and> sorted (map (start_of r) (stream_ids r k))"
    and "\<forall>k sid. sid \<in> set (stream_ids r k) \<longleftrightarrow> sid \<noteq> sm_id sm \<and> (\<exists>s. sr_summaries r sid = Some s \<and> sm_stream s = k)"
    and "\<forall>sid s. sr_summaries r sid = Some s \<longrightarrow> sm_id s = sid"
    and "sr_summaries r (sm_id sm) = Some sm"
  shows "repo_wf (index_summary sm r)"
proof -
  let ?ids = "stream_ids r (sm_stream sm)"
  let ?i = "sort_search (length ?ids) (\<lambda>i. case sr_summaries r (?ids ! i) of None \<Rightarrow> True | Some e \<Rightarrow> sm_start e > sm_start sm)"
  let ?j = "sort_search (length ?ids) (\<lambda>i. start_of r (?ids ! i) > start_of r (sm_id sm))"
  have start: "start_of r (sm_id sm) = sm_start sm" using assms(4) by (simp add: start_of_def)
  have eq: "?i = ?j"
  proof (rule sort_search_cong)
    fix i assume "i < length ?ids"
    then have "?ids ! i \<in> set ?ids" by simp
    then obtain e where "sr_summaries r (?ids ! i) = Some e" using assms(2) by blast
    then show "(case sr_summaries r (?ids ! i) of None \<Rightarrow> True | Some e \<Rightarrow> sm_start e > sm_start sm)
      = (start_of r (?ids ! i) > start_of r (sm_id sm))" using start by (simp add: start_of_def)
  qed
  let ?new = "insert_at ?i (sm_id sm) ?ids"
  have ids: "stream_ids (index_summary sm r) = (stream_ids r)(sm_stream sm := ?new)"
    and sums: "sr_summaries (index_summary sm r) = sr_summaries r"
    by (simp_all add: index_summary_def Let_def)
  then have starts: "start_of (index_summary sm r) = start_of r" by (simp add: start_of_def fun_eq_iff)
  have "distinct ?new" using assms(1,2) by (simp add: distinct_insert_at)
  moreover have "sorted (map (start_of r) ?new)" unfolding eq using assms(1) by (simp add: sorted_insert_search)
  ultimately have order: "\<forall>k. distinct (stream_ids (index_summary sm r) k)
      \<and> sorted (map (start_of (index_summary sm r)) (stream_ids (index_summary sm r) k))"
    using assms(1) by (simp add: ids starts)
  have "sid \<in> set (stream_ids (index_summary sm r) k) \<longleftrightarrow> (\<exists>s. sr_summaries r sid = Some s \<and> sm_stream s = k)" for k sid
    using assms(2,4) by (cases "k = sm_stream sm"; cases "sid = sm_id sm") (auto simp: ids)
  with order assms(3) show ?thesis by (simp add: repo_wf_def sums)
qed

lemma repo_parts:
  assumes "repo_wf r"
  shows "\<forall>k. distinct (stream_ids r k) \<and> sorted (map (start_of r) (stream_ids r k))"
    "\<forall>sid sm. sr_summaries r sid = Some sm \<longrightarrow> sm_id sm = sid"
  using assms by (auto simp: repo_wf_def)

lemma start_of_upd: "start_of (r\<lparr>sr_summaries := (sr_summaries r)(sid \<mapsto> sm)\<rparr>) = (start_of r)(sid := sm_start sm)"
  by (simp add: start_of_def fun_eq_iff)

lemma map_start_other: "sid \<notin> set ids \<Longrightarrow> map (g(sid := v)) ids = map g ids"
  by (induction ids) auto

text \<open>A summary may change everything but, within its stream, its first version.\<close>

definition keeps_start :: "event_summary \<Rightarrow> summary_repo \<Rightarrow> bool" where
  "keeps_start sm r \<longleftrightarrow> (case sr_summaries r (sm_id sm) of
     None \<Rightarrow> True | Some e \<Rightarrow> sm_stream e = sm_stream sm \<longrightarrow> sm_start e = sm_start sm)"

lemma save_summary_wf:
  assumes wf: "repo_wf r" and keep: "keeps_start sm r"
  shows "repo_wf (save_summary sm r)"
proof (cases "sm_id sm = ''''")
  case True
  then show ?thesis using wf by (simp add: save_summary_def)
next
  case False
  let ?r1 = "r\<lparr>sr_summaries := (sr_summaries r)(sm_id sm \<mapsto> sm)\<rparr>"
  note parts = repo_parts [OF wf]
  have mem: "\<And>k sid. sid \<in> set (stream_ids r k) \<longleftrightarrow> (\<exists>sm. sr_summaries r sid = Some sm \<and> sm_stream sm = k)"
    using repo_wfD(3) [OF wf] .
  show ?thesis
  proof (cases "sr_summaries r (sm_id sm)")
    case None
    then have new: "sm_id sm \<notin> set (stream_ids r k)" for k using mem by auto
    have "repo_wf (index_summary sm ?r1)"
      by (rule index_summary_wf)
        (use parts new mem None in \<open>auto simp: start_of_upd map_start_other split: if_splits\<close>)
    then show ?thesis using False None by (simp add: save_summary_def)
  next
    case (Some e)
    show ?thesis
    proof (cases "sm_stream e = sm_stream sm")
      case True
      then have "start_of ?r1 = start_of r"
        using keep Some by (auto simp: keeps_start_def start_of_def fun_eq_iff)
      then have "repo_wf ?r1" using parts mem True Some by (auto simp: repo_wf_def)
      then show ?thesis using False Some True by (simp add: save_summary_def)
    next
      case other: False
      let ?r2 = "unindex (sm_stream e) (sm_id sm) ?r1"
      have at: "sm_id sm \<in> set (stream_ids r k) \<longleftrightarrow> k = sm_stream e" for k using mem Some by auto
      have ids: "stream_ids ?r2 = (stream_ids r)(sm_stream e := remove1 (sm_id sm) (stream_ids r (sm_stream e)))"
        by (simp add: stream_ids_unindex)
      have gone: "sm_id sm \<notin> set (stream_ids ?r2 k)" for k
        using at parts(1) by (auto simp: ids)
      have st: "start_of ?r2 = (start_of r)(sm_id sm := sm_start sm)"
        by (simp add: start_of_def fun_eq_iff)
      have order: "distinct (stream_ids ?r2 k) \<and> sorted (map (start_of r) (stream_ids ?r2 k))" for k
        using parts(1) by (simp add: ids sorted_map_remove1)
      have "repo_wf (index_summary sm ?r2)"
      proof (rule index_summary_wf)
        show "\<forall>k. distinct (stream_ids ?r2 k) \<and> sorted (map (start_of ?r2) (stream_ids ?r2 k))"
          using order by (simp add: st map_start_other [OF gone])
        show "\<forall>k sid. sid \<in> set (stream_ids ?r2 k) \<longleftrightarrow>
            sid \<noteq> sm_id sm \<and> (\<exists>s. sr_summaries ?r2 sid = Some s \<and> sm_stream s = k)"
        proof (intro allI)
          fix k sid
          show "sid \<in> set (stream_ids ?r2 k) \<longleftrightarrow>
            sid \<noteq> sm_id sm \<and> (\<exists>s. sr_summaries ?r2 sid = Some s \<and> sm_stream s = k)"
          proof (cases "sid = sm_id sm")
            case True
            then show ?thesis using gone [of k] by blast
          next
            case differ: False
            then have "sid \<in> set (stream_ids ?r2 k) \<longleftrightarrow> sid \<in> set (stream_ids r k)"
              using parts(1) by (simp add: ids)
            then show ?thesis using mem differ by simp
          qed
        qed
        show "\<forall>sid s. sr_summaries ?r2 sid = Some s \<longrightarrow> sm_id s = sid" using parts(2) by simp
      qed simp
      then show ?thesis using False Some other by (simp add: save_summary_def)
    qed
  qed
qed

lemma drop_summary_wf:
  assumes wf: "repo_wf r" and sm: "sr_summaries r sid = Some sm"
  shows "repo_wf (drop_summary sid sm r)"
proof -
  note parts = repo_parts [OF wf]
  have mem: "\<And>k sid. sid \<in> set (stream_ids r k) \<longleftrightarrow> (\<exists>sm. sr_summaries r sid = Some sm \<and> sm_stream sm = k)"
    using repo_wfD(3) [OF wf] .
  have ids: "stream_ids (drop_summary sid sm r) = (stream_ids r)(sm_stream sm := remove1 sid (stream_ids r (sm_stream sm)))"
    by (simp add: drop_summary_def Let_def stream_ids_unindex)
  have sums: "sr_summaries (drop_summary sid sm r) = (sr_summaries r)(sid := None)"
    by (simp add: drop_summary_def Let_def)
  then have st: "start_of (drop_summary sid sm r) = (start_of r)(sid := 0)" by (simp add: start_of_def fun_eq_iff)
  have gone: "sid \<notin> set (stream_ids (drop_summary sid sm r) k)" for k
    using mem sm parts(1) by (auto simp: ids)
  have "distinct (stream_ids (drop_summary sid sm r) k) \<and> sorted (map (start_of r) (stream_ids (drop_summary sid sm r) k))" for k
    using parts(1) by (simp add: ids sorted_map_remove1)
  then have order: "\<forall>k. distinct (stream_ids (drop_summary sid sm r) k)
      \<and> sorted (map (start_of (drop_summary sid sm r)) (stream_ids (drop_summary sid sm r) k))"
    by (simp add: st map_start_other [OF gone])
  have "x \<in> set (stream_ids (drop_summary sid sm r) k) \<longleftrightarrow>
      (\<exists>s. sr_summaries (drop_summary sid sm r) x = Some s \<and> sm_stream s = k)" for x k
  proof (cases "x = sid")
    case True
    then show ?thesis using gone [of k] by (simp add: sums)
  next
    case False
    then have "x \<in> set (stream_ids (drop_summary sid sm r) k) \<longleftrightarrow> x \<in> set (stream_ids r k)"
      using parts(1) by (simp add: ids)
    then show ?thesis using mem False by (simp add: sums)
  qed
  with order parts(2) show ?thesis by (simp add: repo_wf_def sums)
qed

lemma delete_summary_wf: "repo_wf r \<Longrightarrow> repo_wf (delete_summary sid r)"
  by (auto simp: delete_summary_def drop_summary_wf split: option.splits)

lemma delete_older_than_wf: "repo_wf r \<Longrightarrow> repo_wf (snd (delete_older_than ord threshold r))"
proof -
  assume wf: "repo_wf r"
  show ?thesis
    unfolding delete_older_than_def
    by (rule fold_preserves [where P = "\<lambda>st. repo_wf (snd st)"])
      (auto simp: wf expire_summary_def drop_summary_wf split: option.splits)
qed

section \<open>Sequences of calls\<close>

datatype repo_call = CallSave event_summary | CallDelete string | CallExpire "string list" time

fun exec_repo :: "repo_call \<Rightarrow> summary_repo \<Rightarrow> summary_repo" where
  "exec_repo (CallSave sm) r = save_summary sm r"
| "exec_repo (CallDelete sid) r = delete_summary sid r"
| "exec_repo (CallExpire ord threshold) r = snd (delete_older_than ord threshold r)"

text \<open>A summary that is saved again keeps the first version it had: it depends on the id alone.\<close>

fun call_keeps :: "(string \<Rightarrow> int) \<Rightarrow> repo_call \<Rightarrow> bool" where
  "call_keeps starts (CallSave sm) \<longleftrightarrow> sm_start sm = starts (sm_id sm)"
| "call_keeps starts c \<longleftrightarrow> True"

definition repo_inv :: "(string \<Rightarrow> int) \<Rightarrow> summary_repo \<Rightarrow> bool" where
  "repo_inv starts r \<longleftrightarrow> repo_wf r \<and> (\<forall>sid sm. sr_summaries r sid = Some sm \<longrightarrow> sm_start sm = starts sid)"

lemma index_summary_summaries [simp]: "sr_summaries (index_summary sm r) = sr_summaries r"
  by (simp add: index_summary_def Let_def)

lemma save_summaries:
  "sr_summaries (save_summary sm r) = (if sm_id sm = '''' then sr_summaries r else (sr_summaries r)(sm_id sm \<mapsto> sm))"
  by (auto simp: save_summary_def Let_def split: option.splits)

lemma drop_summaries: "sr_summaries (drop_summary sid sm r) = (sr_summaries r)(sid := None)"
  by (simp add: drop_summary_def Let_def)

lemma expire_inv: "repo_inv starts (snd st) \<Longrightarrow> repo_inv starts (snd (expire_summary threshold sid st))"
  by (auto simp: repo_inv_def expire_summary_def drop_summary_wf drop_summaries split: option.splits)

lemma exec_repo_inv: "repo_inv starts r \<Longrightarrow> call_keeps starts c \<Longrightarrow> repo_inv starts (exec_repo c r)"
proof (cases c)
  case (CallSave sm)
  assume "repo_inv starts r" "call_keeps starts c"
  then show ?thesis using CallSave
    by (auto simp: repo_inv_def save_summaries keeps_start_def intro!: save_summary_wf split: option.splits)
next
  case (CallDelete sid)
  assume "repo_inv starts r"
  then show ?thesis using CallDelete
    by (auto simp: repo_inv_def delete_summary_def drop_summary_wf drop_summaries split: option.splits)
next
  case (CallExpire ord threshold)
  assume inv: "repo_inv starts r"
  have "repo_inv starts (snd (fold (expire_summary threshold) ids (0, r)))" for ids
    by (rule fold_preserves [where P = "\<lambda>st. repo_inv starts (snd st)"]) (auto simp: inv expire_inv)
  then show ?thesis using CallExpire by (simp add: delete_older_than_def)
qed

interpretation summaries: invariant_system exec_repo "call_keeps starts" "repo_inv starts" for starts
  by unfold_locales (rule exec_repo_inv)

lemma find_by_stream_map:
  assumes "repo_wf r"
  shows "map sm_id (find_by_stream k r) = stream_ids r k"
    and "map sm_start (find_by_stream k r) = map (start_of r) (stream_ids r k)"
proof -
  have "\<forall>sid \<in> set (stream_ids r k). \<exists>sm. sr_summaries r sid = Some sm \<and> sm_id sm = sid"
    using repo_wfD(3,4) [OF assms] by metis
  then have "map sm_id (List.map_filter (sr_summaries r) ids) = ids
      \<and> map sm_start (List.map_filter (sr_summaries r) ids) = map (start_of r) ids"
    if "set ids \<subseteq> set (stream_ids r k)" for ids
    using that by (induction ids) (auto simp: map_filter_simps start_of_def)
  then show "map sm_id (find_by_stream k r) = stream_ids r k"
    "map sm_start (find_by_stream k r) = map (start_of r) (stream_ids r k)"
    by (simp_all add: find_by_stream_def)
qed

lemma set_find_by_stream:
  assumes "repo_wf r"
  shows "set (find_by_stream k r) = {sm. sr_summaries r (sm_id sm) = Some sm \<and> sm_stream sm = k}"
proof -
  have "set (List.map_filter (sr_summaries r) ids) = {sm. \<exists>sid \<in> set ids. sr_summaries r sid = Some sm}" for ids
    by (induction ids) (auto simp: map_filter_simps split: option.splits)
  then show ?thesis using repo_wfD(3,4) [OF assms] by (fastforce simp: find_by_stream_def)
qed

text \<open>
  The repository's index by binary search is right: after any saves, deletions and expiries, the
  summaries found for a stream are exactly those stored for it, each once, in the order of the first
  version they cover, as long as a summary that is saved again keeps its first version.
\<close>

theorem summaries_found_in_order:
  assumes "list_all (call_keeps starts) calls" "r = fold exec_repo calls new_summary_repo"
  shows "sorted (map sm_start (find_by_stream k r)) \<and> distinct (map sm_id (find_by_stream k r))
    \<and> set (find_by_stream k r) = {sm. sr_summaries r (sm_id sm) = Some sm \<and> sm_stream sm = k}"
proof -
  have "repo_inv starts new_summary_repo" by (simp add: repo_inv_def) (simp add: new_summary_repo_def)
  from summaries.run_inv [OF this assms(1)] have wf: "repo_wf r"
    unfolding assms(2) repo_inv_def by blast
  show ?thesis
    unfolding find_by_stream_map [OF wf] set_find_by_stream [OF wf] using repo_wfD(1,2) [OF wf] by blast
qed

definition sample_summary :: "string \<Rightarrow> int \<Rightarrow> event_summary" where
  "sample_summary sid v = \<lparr>sm_id = sid, sm_stream = ''s'', sm_agent = '''', sm_task = '''', sm_session = '''',
     sm_user = '''', sm_text = '''', sm_count = 1, sm_start = v, sm_end = v, sm_start_time = 0, sm_end_time = 0,
     sm_types = Map.empty, sm_tasks = [], sm_tools = [], sm_errors = [], sm_request = '''', sm_outcome = '''',
     sm_created = 0\<rparr>"

lemma summaries_found_in_order_witness:
  "sorted (map sm_start (find_by_stream ''s'' (fold exec_repo
     [CallSave (sample_summary ''b'' 7), CallSave (sample_summary ''a'' 3), CallDelete ''x''] new_summary_repo)))"
proof -
  have "list_all (call_keeps (\<lambda>sid. if sid = ''a'' then 3 else 7))
      [CallSave (sample_summary ''b'' 7), CallSave (sample_summary ''a'' 3), CallDelete ''x'']"
    by (simp add: sample_summary_def)
  from summaries_found_in_order [OF this refl] show ?thesis by blast
qed

text \<open>Without that, the order is lost: a summary saved again with an earlier first version stays where it was.\<close>

lemma resaved_summary_out_of_order:
  "map sm_start (find_by_stream ''s'' (fold exec_repo
     [CallSave (sample_summary ''a'' 3), CallSave (sample_summary ''b'' 7), CallSave (sample_summary ''b'' 1)] new_summary_repo))
   = [3, 1]"
  by code_simp

end
