(* ===== verification/Event_Compaction.thy ===== *)
theory Event_Compaction
  imports Event_Summary
begin

text \<open>
  Package \<open>internal/ares_events\<close>: the compactor (\<open>compactor.go\<close>), which turns the old events of a long
  stream into a summary and trims them, and the auto-compacting store around it
  (\<open>compactable_store.go\<close>, \<open>archive_hook.go\<close>), which also archives every finished round of a stream
  before its events can be trimmed. The background worker an append launches is a call of its own,
  so it may run at any later point between other calls; one run of it is one step.
\<close>

section \<open>Building a summary\<close>

text \<open>\<open>v, ok := payload[key].(string); ok && v != ""\<close> holds when this is not empty.\<close>

definition str_or_empty :: "payload \<Rightarrow> string \<Rightarrow> string" where
  "str_or_empty pl key = (case get_str pl key of Some s \<Rightarrow> s | None \<Rightarrow> '''')"

definition add_new :: "string \<Rightarrow> string list \<Rightarrow> string list" where
  "add_new x xs = (if x = '''' \<or> x \<in> set xs then xs else xs @ [x])"

text \<open>A request is cut after 200 bytes.\<close>

definition cut_request :: "string \<Rightarrow> string" where
  "cut_request s = (if length s > 200 then take 200 s @ ''...'' else s)"

definition agg_type :: "event \<Rightarrow> event_summary \<Rightarrow> event_summary" where
  "agg_type e sm = sm\<lparr>sm_types := (sm_types sm)(ev_type e \<mapsto>
     (case sm_types sm (ev_type e) of None \<Rightarrow> 0 | Some n \<Rightarrow> n) + 1)\<rparr>"

definition agg_agent :: "event \<Rightarrow> event_summary \<Rightarrow> event_summary" where
  "agg_agent e sm =
     (if sm_agent sm \<noteq> '''' then sm
      else if str_or_empty (ev_metadata e) ''agent_id'' \<noteq> ''''
      then sm\<lparr>sm_agent := str_or_empty (ev_metadata e) ''agent_id''\<rparr>
      else if str_or_empty (ev_payload e) ''agent_id'' \<noteq> ''''
      then sm\<lparr>sm_agent := str_or_empty (ev_payload e) ''agent_id''\<rparr>
      else sm\<lparr>sm_agent := ''unknown''\<rparr>)"

definition agg_task :: "event \<Rightarrow> event_summary \<Rightarrow> event_summary" where
  "agg_task e sm =
     (let tid = str_or_empty (ev_payload e) ''task_id'' in
      if ev_type e = ty_task_created \<and> tid \<noteq> ''''
      then sm\<lparr>sm_tasks := add_new tid (sm_tasks sm),
              sm_task := (if sm_task sm = '''' then tid else sm_task sm)\<rparr>
      else sm)"

definition agg_tools :: "event \<Rightarrow> event_summary \<Rightarrow> event_summary" where
  "agg_tools e sm =
     (let tool = (\<lambda>key. str_or_empty (ev_payload e) key) in
      if ev_type e = ty_llm_call
      then sm\<lparr>sm_tools := add_new (tool ''function'') (add_new (tool ''tool'') (sm_tools sm))\<rparr>
      else if ev_type e = ty_tool_call_started \<or> ev_type e = ty_tool_call_completed
      then sm\<lparr>sm_tools := add_new (tool ''tool_name'') (add_new (tool ''tool'') (sm_tools sm))\<rparr>
      else sm)"

definition agg_session :: "event \<Rightarrow> event_summary \<Rightarrow> event_summary" where
  "agg_session e sm =
     (if ev_type e = ty_session_created
      then sm\<lparr>sm_session := (case get_str (ev_payload e) ''session_id'' of Some x \<Rightarrow> x | None \<Rightarrow> sm_session sm),
              sm_user := (case get_str (ev_payload e) ''user_id'' of Some x \<Rightarrow> x | None \<Rightarrow> sm_user sm),
              sm_request := (case get_str (ev_payload e) ''input'' of
                               Some x \<Rightarrow> cut_request x | None \<Rightarrow> sm_request sm)\<rparr>
      else sm)"

definition agg_message :: "event \<Rightarrow> event_summary \<Rightarrow> event_summary" where
  "agg_message e sm =
     (let content = str_or_empty (ev_payload e) ''content'' in
      if ev_type e = ty_message_added \<and> sm_request sm = '''' \<and> content \<noteq> ''''
      then sm\<lparr>sm_request := cut_request content\<rparr> else sm)"

definition agg_error :: "event \<Rightarrow> event_summary \<Rightarrow> event_summary" where
  "agg_error e sm =
     (let err = str_or_empty (ev_payload e) ''error'' in
      if (ev_type e = ty_task_failed \<or> ev_type e = ty_failover_triggered) \<and> err \<noteq> '''' \<and> length (sm_errors sm) < 10
      then sm\<lparr>sm_errors := sm_errors sm @ [err]\<rparr> else sm)"

definition agg_event :: "event \<Rightarrow> event_summary \<Rightarrow> event_summary" where
  "agg_event e sm =
     agg_error e (agg_message e (agg_session e (agg_tools e (agg_task e (agg_agent e (agg_type e sm))))))"

definition type_count :: "event_summary \<Rightarrow> string \<Rightarrow> int" where
  "type_count sm ty = (case sm_types sm ty of None \<Rightarrow> 0 | Some n \<Rightarrow> n)"

definition outcome_of :: "event_summary \<Rightarrow> string" where
  "outcome_of sm =
     (if type_count sm ty_task_failed > 0 \<or> type_count sm ty_failover_triggered > 0
      then (if type_count sm ty_task_completed > 0 then ''partial'' else ''failed'')
      else if type_count sm ty_task_completed > 0 then ''completed''
      else ''active'')"

text \<open>What one compaction gets from outside: a fresh id, the clock, and the summarizer in use.\<close>

record compaction_env =
  ce_uuid :: string
  ce_now :: time
  ce_text :: "event list \<Rightarrow> string"

definition build_summary :: "compaction_env \<Rightarrow> string \<Rightarrow> event list \<Rightarrow> event_summary" where
  "build_summary env k es =
     (let sm = fold agg_event es
        \<lparr>sm_id = ce_uuid env, sm_stream = k, sm_agent = '''', sm_task = '''', sm_session = '''', sm_user = '''',
         sm_text = '''', sm_count = int (length es), sm_start = ev_version (hd es), sm_end = ev_version (last es),
         sm_start_time = ev_time (hd es), sm_end_time = ev_time (last es), sm_types = Map.empty, sm_tasks = [],
         sm_tools = [], sm_errors = [], sm_request = '''', sm_outcome = '''', sm_created = ce_now env\<rparr>
      in sm\<lparr>sm_outcome := outcome_of sm, sm_text := ce_text env es\<rparr>)"

section \<open>The compactor\<close>

record compactor =
  cp_store :: event_store
  cp_repo :: summary_repo
  cp_config :: compaction_config
  cp_trim :: bool

definition sanitize_config :: "compaction_config \<Rightarrow> compaction_config" where
  "sanitize_config cfg = (if cc_threshold cfg \<le> 0 \<or> cc_keep cfg < 0 then default_compaction_config else cfg)"

definition new_compactor :: "event_store \<Rightarrow> summary_repo \<Rightarrow> compaction_config \<Rightarrow> compactor" where
  "new_compactor s r cfg = \<lparr>cp_store = s, cp_repo = r, cp_config = sanitize_config cfg, cp_trim = False\<rparr>"

definition with_trim_store :: "compactor \<Rightarrow> compactor" where
  "with_trim_store c = c\<lparr>cp_trim := True\<rparr>"

definition ascending_from :: "int \<Rightarrow> int \<Rightarrow> read_options" where
  "ascending_from v n = \<lparr>ro_from = v, ro_limit = n, ro_dir = ReadAscending, ro_since = zero_time\<rparr>"

definition compact_stream ::
  "compaction_env \<Rightarrow> string \<Rightarrow> compactor \<Rightarrow> (events_error, bool, compactor) outcome" where
  "compact_stream env k c =
     (case read_stream insertion_sort k (ascending_from 0 0) (cp_store c) of
        Inl e \<Rightarrow> (Inl e, c)
      | Inr all \<Rightarrow>
          (let keep = cc_keep (cp_config c); n = int (length all) in
           if keep < 0 \<or> n \<le> keep then (Inr False, c)
           else (let cands = take (nat (n - keep)) all in
                 if cands = [] then (Inr False, c)
                 else (let sm = build_summary env k cands;
                           c1 = c\<lparr>cp_repo := save_summary sm (cp_repo c)\<rparr>
                       in (Inr True,
                           if cc_trim (cp_config c) \<and> cp_trim c
                           then c1\<lparr>cp_store := snd (trim_before k (sm_end sm) (cp_store c1))\<rparr> else c1)))))"

definition check_and_compact ::
  "compaction_env \<Rightarrow> string \<Rightarrow> compactor \<Rightarrow> (events_error, bool, compactor) outcome" where
  "check_and_compact env k c =
     (case stream_version k (cp_store c) of
        Inl e \<Rightarrow> (Inl e, c)
      | Inr v \<Rightarrow> if v \<le> cc_threshold (cp_config c) then (Inr False, c) else compact_stream env k c)"

definition force_compact ::
  "compaction_env \<Rightarrow> string \<Rightarrow> compactor \<Rightarrow> (events_error, bool, compactor) outcome" where
  "force_compact env k c = compact_stream env k c"

text \<open>A stream that fails is logged and skipped; the result counts the compacted ones.\<close>

fun compact_all :: "(string \<times> compaction_env) list \<Rightarrow> compactor \<Rightarrow> int \<times> compactor" where
  "compact_all [] c = (0, c)"
| "compact_all ((k, env) # ks) c =
     (case check_and_compact env k c of
        (Inr True, c1) \<Rightarrow> (case compact_all ks c1 of (n, c2) \<Rightarrow> (n + 1, c2))
      | (_, c1) \<Rightarrow> compact_all ks c1)"

definition cleanup_old_summaries :: "string list \<Rightarrow> time \<Rightarrow> compactor \<Rightarrow> int \<times> compactor" where
  "cleanup_old_summaries ord now c =
     (case delete_older_than ord (now - cc_ttl (cp_config c)) (cp_repo c) of
        (n, r) \<Rightarrow> (n, c\<lparr>cp_repo := r\<rparr>))"

end
