(* ===== verification/Event_Archive.thy ===== *)
theory Event_Archive
  imports Event_Compaction
begin

text \<open>
  Package \<open>internal/ares_events\<close>, \<open>compactable_store.go\<close> and \<open>archive_hook.go\<close>: the store that compacts
  itself. \<open>cs_records\<close> is what the archive sink has stored; whether a call of the sink succeeds is an
  argument (\<open>sink\<close>). Pages of a round are read one after another from the same state of the store.
\<close>

section \<open>State\<close>

record archive_record =
  ar_round :: int
  ar_stream :: string
  ar_events :: "event list"

record compactable = compactor +
  cs_trimming :: bool
  cs_last_checked :: "string \<rightharpoonup> int"
  cs_sink :: bool
  cs_rounds :: "string \<rightharpoonup> int"
  cs_archived :: "string \<rightharpoonup> int"
  cs_records :: "archive_record list"
  cs_closed :: bool

definition new_compactable :: "event_store \<Rightarrow> summary_repo \<Rightarrow> bool \<Rightarrow> compaction_config \<Rightarrow> compactable" where
  "new_compactable s r trimming cfg =
     \<lparr>cp_store = s, cp_repo = r, cp_config = sanitize_config cfg, cp_trim = (trimming \<and> cc_trim cfg),
      cs_trimming = trimming, cs_last_checked = Map.empty, cs_sink = False, cs_rounds = Map.empty,
      cs_archived = Map.empty, cs_records = [], cs_closed = False\<rparr>"

definition with_archive_sink :: "compactable \<Rightarrow> compactable" where
  "with_archive_sink c = c\<lparr>cs_sink := True\<rparr>"

text \<open>Running an operation of the wrapped compactor.\<close>

definition inner :: "compactable \<Rightarrow> compactor" where
  "inner c = \<lparr>cp_store = cp_store c, cp_repo = cp_repo c, cp_config = cp_config c, cp_trim = cp_trim c\<rparr>"

definition with_inner :: "compactor \<Rightarrow> compactable \<Rightarrow> compactable" where
  "with_inner i c = c\<lparr>cp_store := cp_store i, cp_repo := cp_repo i\<rparr>"

section \<open>Archiving rounds\<close>

definition is_terminal :: "event \<Rightarrow> bool" where
  "is_terminal e \<longleftrightarrow> ev_type e = ty_task_completed \<or> ev_type e = ty_task_failed"

definition filter_terminal_events :: "event option list \<Rightarrow> event list" where
  "filter_terminal_events es = [e \<leftarrow> List.map_filter id es. is_terminal e]"

definition archive_read_limit :: nat where
  "archive_read_limit = 500"

definition max_archive_drain_rounds :: nat where
  "max_archive_drain_rounds = 1000"

text \<open>One page: the events past \<open>seen\<close>, up to the first terminal one.\<close>

fun page_round :: "int \<Rightarrow> event list \<Rightarrow> event list \<Rightarrow> event list \<times> event option" where
  "page_round seen [] acc = (acc, None)"
| "page_round seen (e # es) acc =
     (if ev_version e \<le> seen then page_round seen es acc
      else if is_terminal e then (acc @ [e], Some e)
      else page_round seen es (acc @ [e]))"

text \<open>
  Paging through the stream; the fuel bounds the number of pages, \<open>None\<close> is a scan that ran out.
\<close>

fun scan_round ::
  "nat \<Rightarrow> string \<Rightarrow> int \<Rightarrow> event list \<Rightarrow> event_store \<Rightarrow> (events_error + event list \<times> event option) option" where
  "scan_round n k seen acc s =
     (case read_stream insertion_sort k (ascending_from seen (int archive_read_limit)) s of
        Inl e \<Rightarrow> Some (Inl e)
      | Inr [] \<Rightarrow> Some (Inr (acc, None))
      | Inr (e # es) \<Rightarrow>
          (let p = page_round seen (e # es) acc in
           if snd p \<noteq> None \<or> length (e # es) < archive_read_limit then Some (Inr p)
           else (case n of
                   0 \<Rightarrow> None
                 | Suc n' \<Rightarrow> scan_round n' k (ev_version (last (e # es))) (fst p) s)))"

declare scan_round.simps [simp del]

definition archived_upto :: "compactable \<Rightarrow> string \<Rightarrow> int" where
  "archived_upto c k = (case cs_archived c k of None \<Rightarrow> 0 | Some v \<Rightarrow> v)"

definition rounds_of :: "compactable \<Rightarrow> string \<Rightarrow> int" where
  "rounds_of c k = (case cs_rounds c k of None \<Rightarrow> 0 | Some n \<Rightarrow> n)"

datatype archive_error = ArchiveRead events_error | ArchiveSink | ArchiveDiverges

text \<open>
  \<open>archivePendingRoundsOnce\<close>. No other worker moves the boundary in between, so its two checks for
  that always pass and do not appear.
\<close>

definition archive_once ::
  "(archive_record \<Rightarrow> bool) \<Rightarrow> string \<Rightarrow> compactable \<Rightarrow> (archive_error, bool, compactable) outcome" where
  "archive_once sink k c =
     (if \<not> cs_sink c then (Inr False, c)
      else (case scan_round (length (stream_of (cp_store c) k)) k (archived_upto c k) [] (cp_store c) of
              None \<Rightarrow> (Inl ArchiveDiverges, c)
            | Some (Inl e) \<Rightarrow> (Inl (ArchiveRead e), c)
            | Some (Inr (es, None)) \<Rightarrow> (Inr False, c)
            | Some (Inr (es, Some t)) \<Rightarrow>
                (let ar = \<lparr>ar_round = rounds_of c k + 1, ar_stream = k, ar_events = es\<rparr> in
                 if sink ar
                 then (Inr True, c\<lparr>cs_rounds := (cs_rounds c)(k \<mapsto> ar_round ar),
                                   cs_archived := (cs_archived c)(k \<mapsto> ev_version t),
                                   cs_records := cs_records c @ [ar]\<rparr>)
                 else (Inl ArchiveSink, c))))"

fun drain_rounds ::
  "nat \<Rightarrow> (archive_record \<Rightarrow> bool) \<Rightarrow> string \<Rightarrow> compactable \<Rightarrow> (archive_error, unit, compactable) outcome" where
  "drain_rounds 0 sink k c = (Inr (), c)"
| "drain_rounds (Suc n) sink k c =
     (case archive_once sink k c of
        (Inl e, c1) \<Rightarrow> (Inl e, c1)
      | (Inr False, c1) \<Rightarrow> (Inr (), c1)
      | (Inr True, c1) \<Rightarrow> drain_rounds n sink k c1)"

definition drain_pending_rounds ::
  "(archive_record \<Rightarrow> bool) \<Rightarrow> string \<Rightarrow> compactable \<Rightarrow> (archive_error, unit, compactable) outcome" where
  "drain_pending_rounds = drain_rounds max_archive_drain_rounds"

section \<open>Compaction after an append\<close>

definition compaction_check_divisor :: int where
  "compaction_check_divisor = 4"

definition last_checked :: "compactable \<Rightarrow> string \<Rightarrow> int" where
  "last_checked c k = (case cs_last_checked c k of None \<Rightarrow> 0 | Some v \<Rightarrow> v)"

text \<open>The trim after a compaction, up to the end of the latest summary of the stream.\<close>

definition trim_compacted :: "string \<Rightarrow> compactable \<Rightarrow> compactable" where
  "trim_compacted k c =
     (let found = find_by_stream k (cp_repo c) in
      if cs_trimming c \<and> cc_trim (cp_config c) \<and> found \<noteq> []
      then c\<lparr>cp_store := snd (trim_before k (sm_end (last found)) (cp_store c))\<rparr> else c)"

definition maybe_compact ::
  "(archive_record \<Rightarrow> bool) \<Rightarrow> compaction_env \<Rightarrow> string \<Rightarrow> compactable \<Rightarrow> compactable" where
  "maybe_compact sink env k c =
     (case stream_version k (cp_store c) of
        Inl e \<Rightarrow> c
      | Inr v \<Rightarrow>
          (let th = cc_threshold (cp_config c) in
           if v \<le> th \<or> v - last_checked c k < th div compaction_check_divisor then c
           else
             (let c1 = c\<lparr>cs_last_checked := (cs_last_checked c)(k \<mapsto> v)\<rparr>;
                  c2 = (if cs_sink c1 then snd (drain_pending_rounds sink k c1) else c1)
              in case check_and_compact env k (inner c2) of
                   (Inl e, i) \<Rightarrow> with_inner i c2
                 | (Inr did, i) \<Rightarrow>
                     if did then trim_compacted k (with_inner i c2) else with_inner i c2)))"

text \<open>\<open>Append\<close>: the result, and whether its worker drains rounds before it compacts.\<close>

definition append_compactable ::
  "(int \<Rightarrow> time) \<Rightarrow> (int \<Rightarrow> string) \<Rightarrow> string \<Rightarrow> event option list \<Rightarrow> int \<Rightarrow> compactable
    \<Rightarrow> (events_error, bool, compactable) outcome" where
  "append_compactable clock uuid k es expected c =
     (case append_events clock uuid k es expected (cp_store c) of
        (Inl e, s) \<Rightarrow> (Inl e, c\<lparr>cp_store := s\<rparr>)
      | (Inr _, s) \<Rightarrow> (Inr (cs_sink c \<and> filter_terminal_events es \<noteq> []), c\<lparr>cp_store := s\<rparr>))"

definition worker ::
  "bool \<Rightarrow> (archive_record \<Rightarrow> bool) \<Rightarrow> compaction_env \<Rightarrow> string \<Rightarrow> compactable \<Rightarrow> compactable" where
  "worker has_terminal sink env k c =
     maybe_compact sink env k (if has_terminal then snd (drain_pending_rounds sink k c) else c)"

definition force_compactable ::
  "compaction_env \<Rightarrow> string \<Rightarrow> compactable \<Rightarrow> (events_error, bool, compactable) outcome" where
  "force_compactable env k c = (case force_compact env k (inner c) of (r, i) \<Rightarrow> (r, with_inner i c))"

definition cleanup_summaries :: "string list \<Rightarrow> time \<Rightarrow> compactable \<Rightarrow> int \<times> compactable" where
  "cleanup_summaries ord now c = (case cleanup_old_summaries ord now (inner c) of (n, i) \<Rightarrow> (n, with_inner i c))"

definition summaries_for_stream :: "string \<Rightarrow> compactable \<Rightarrow> event_summary list" where
  "summaries_for_stream k c = find_by_stream k (cp_repo c)"

definition summaries_for_agent ::
  "((event_summary \<Rightarrow> event_summary \<Rightarrow> bool) \<Rightarrow> event_summary list \<Rightarrow> event_summary list) \<Rightarrow> string list
    \<Rightarrow> string \<Rightarrow> compactable \<Rightarrow> event_summary list" where
  "summaries_for_agent srt ord agent c = find_by_agent srt ord agent (cp_repo c)"

definition close_compactable :: "compactable \<Rightarrow> (events_error, unit, compactable) outcome" where
  "close_compactable c =
     (case close_store (cp_store c) of (r, s) \<Rightarrow> (r, c\<lparr>cs_closed := True, cp_store := s\<rparr>))"

section \<open>Reading\<close>

definition synthetic_event :: "event_summary \<Rightarrow> event" where
  "synthetic_event sm = \<lparr>ev_id = sm_id sm, ev_stream = sm_stream sm, ev_type = ''event.summary'', ev_module = '''',
     ev_payload = [(''summary_text'', GStr (sm_text sm)), (''event_count'', GInt (sm_count sm)),
                   (''start_version'', GInt (sm_start sm)), (''end_version'', GInt (sm_end sm)),
                   (''outcome'', GStr (sm_outcome sm))],
     ev_metadata = [], ev_version = sm_end sm, ev_time = sm_created sm\<rparr>"

definition read_compactable ::
  "((event \<Rightarrow> event \<Rightarrow> bool) \<Rightarrow> event list \<Rightarrow> event list) \<Rightarrow> string \<Rightarrow> read_options \<Rightarrow> compactable
    \<Rightarrow> events_error + event list" where
  "read_compactable srt k ro c =
     (case read_stream srt k ro (cp_store c) of
        Inl e \<Rightarrow> Inl e
      | Inr es \<Rightarrow>
          if es \<noteq> [] then Inr es
          else (let found = find_by_stream k (cp_repo c) in
                if found = [] then Inr es else Inr (map synthetic_event found)))"

end
