(* ===== verification/Event_Archive_Props.thy ===== *)
theory Event_Archive_Props
  imports Event_Archive
begin

text \<open>
  The properties of the auto-compacting store: a scan finds exactly the next finished round, archived
  rounds partition the stream, and no event is lost to compaction without a summary that covers it.
\<close>

section \<open>Scanning for a round\<close>

text \<open>The events up to the first terminal one.\<close>

fun round_of :: "event list \<Rightarrow> event list \<times> event option" where
  "round_of [] = ([], None)"
| "round_of (e # es) = (if is_terminal e then ([e], Some e) else (e # fst (round_of es), snd (round_of es)))"

lemma round_of_append:
  "round_of (xs @ ys) = (if snd (round_of xs) \<noteq> None then round_of xs
     else (xs @ fst (round_of ys), snd (round_of ys)))"
  by (induction xs) auto

lemma round_of_None: "snd (round_of es) = None \<longleftrightarrow> (\<forall>e \<in> set es. \<not> is_terminal e)"
  by (induction es) auto

lemma round_of_None_fst: "snd (round_of es) = None \<Longrightarrow> fst (round_of es) = es"
  by (induction es) (auto split: if_splits)

lemma round_of_Some:
  "snd (round_of es) = Some t \<Longrightarrow> \<exists>pre post. es = pre @ t # post \<and> fst (round_of es) = pre @ [t]
     \<and> is_terminal t \<and> (\<forall>e \<in> set pre. \<not> is_terminal e)"
proof (induction es)
  case (Cons e es)
  show ?case
  proof (cases "is_terminal e")
    case True
    then show ?thesis using Cons.prems by (intro exI [of _ "[]"] exI [of _ es]) auto
  next
    case False
    with Cons obtain pre post where "es = pre @ t # post" "fst (round_of es) = pre @ [t]" "is_terminal t"
      "\<forall>e \<in> set pre. \<not> is_terminal e" by auto
    then show ?thesis using False by (intro exI [of _ "e # pre"] exI [of _ post]) auto
  qed
qed simp

lemma page_round_all:
  "page_round seen es acc =
     (let new = [e \<leftarrow> es. ev_version e > seen] in (acc @ fst (round_of new), snd (round_of new)))"
  by (induction es arbitrary: acc) (auto simp: Let_def)

lemma scan_page:
  assumes "event_store_wf s" "k \<noteq> ''''" "\<not> es_closed s"
  shows "read_stream insertion_sort k (ascending_from seen (int archive_read_limit)) s
    = Inr (take archive_read_limit [e \<leftarrow> stream_of s k. ev_version e \<ge> seen])"
  using read_stream_open [OF assms slice_sort_insertion, of "ascending_from seen (int archive_read_limit)"]
  by (auto simp: ascending_from_def limit_to_def archive_read_limit_def)

text \<open>The events past a version, and how a page moves on.\<close>

abbreviation past :: "event_store \<Rightarrow> string \<Rightarrow> int \<Rightarrow> event list" where
  "past s k seen \<equiv> [e \<leftarrow> stream_of s k. ev_version e > seen]"

lemma past_contiguous:
  assumes "event_store_wf s"
  shows "contiguous (version_of s k) (past s k seen)"
proof -
  have c: "contiguous (version_of s k) (stream_of s k)"
    using wf_stream [OF assms, of k] by (simp add: stream_ok_def)
  show ?thesis unfolding contiguous_drop_split [OF c, symmetric] by (rule contiguous_drop [OF c])
qed

lemma from_past:
  assumes "event_store_wf s"
  obtains ov where "[e \<leftarrow> stream_of s k. ev_version e \<ge> seen] = ov @ past s k seen" "length ov \<le> 1"
    "\<forall>e \<in> set ov. ev_version e = seen"
proof -
  have c: "contiguous (version_of s k) (stream_of s k)"
    using wf_stream [OF assms, of k] by (simp add: stream_ok_def)
  let ?from = "[e \<leftarrow> stream_of s k. ev_version e \<ge> seen]"
  have srt: "sorted_wrt (<) (map ev_version ?from)"
    unfolding contiguous_from [OF c] using contiguous_sorted [OF contiguous_drop [OF c]] .
  have past: "past s k seen = [e \<leftarrow> ?from. ev_version e > seen]"
    by (auto intro: filter_cong)
  have ge: "\<forall>e \<in> set ?from. seen \<le> ev_version e" by simp
  show ?thesis
  proof (cases ?from)
    case Nil
    then show ?thesis using past that [of "[]"] by simp
  next
    case (Cons e es)
    have tail: "\<forall>x \<in> set es. ev_version e < ev_version x" using srt Cons by simp
    show ?thesis
    proof (cases "ev_version e = seen")
      case True
      then have "[x \<leftarrow> es. ev_version x > seen] = es" using tail by (auto simp: filter_id_conv)
      then show ?thesis using past Cons True that [of "[e]"] by simp
    next
      case False
      then have "ev_version e > seen" using ge Cons by auto
      moreover from this have "[x \<leftarrow> es. ev_version x > seen] = es" using tail by (auto simp: filter_id_conv)
      ultimately show ?thesis using past Cons that [of "[]"] by simp
    qed
  qed
qed

lemma past_past:
  assumes "event_store_wf s" "n < length (past s k seen)"
  shows "past s k (ev_version (past s k seen ! n)) = drop (Suc n) (past s k seen)"
proof -
  let ?p = "past s k seen" and ?m = "ev_version (past s k seen ! n)"
  have c: "contiguous (version_of s k) ?p" by (rule past_contiguous [OF assms(1)])
  have m: "?m = version_of s k - int (length ?p) + 1 + int n" using contiguousD [OF c assms(2)] .
  have "past s k ?m = [e \<leftarrow> ?p. ev_version e > ?m]"
    using contiguous_le [OF c nth_mem [OF assms(2)]] nth_mem [OF assms(2)] by (auto intro: filter_cong)
  also have "\<dots> = drop (split_at ?m ?p) ?p" by (simp only: contiguous_drop_split [OF c])
  also have "split_at ?m ?p = Suc n"
    unfolding contiguous_split [OF c] using m assms(2) by simp
  finally show ?thesis .
qed

lemma page_exact:
  assumes "event_store_wf s" "k \<noteq> ''''" "\<not> es_closed s"
  obtains ov m where
    "read_stream insertion_sort k (ascending_from seen (int archive_read_limit)) s = Inr (ov @ take m (past s k seen))"
    "m + length ov = 500" "1 \<le> m"
    "page_round seen (ov @ take m (past s k seen)) acc
       = (acc @ fst (round_of (take m (past s k seen))), snd (round_of (take m (past s k seen))))"
proof -
  from from_past [OF assms(1), of seen k] obtain ov where
    ov: "[e \<leftarrow> stream_of s k. ev_version e \<ge> seen] = ov @ past s k seen" "length ov \<le> 1"
      "\<forall>e \<in> set ov. ev_version e = seen" by blast
  let ?m = "500 - length ov"
  have "read_stream insertion_sort k (ascending_from seen (int archive_read_limit)) s = Inr (ov @ take ?m (past s k seen))"
    using scan_page [OF assms, of seen] ov(1,2) by (simp add: archive_read_limit_def)
  moreover have "[e \<leftarrow> ov @ take ?m (past s k seen). ev_version e > seen] = take ?m (past s k seen)"
    using ov(3) by (auto simp: filter_id_conv dest: in_set_takeD)
  then have "page_round seen (ov @ take ?m (past s k seen)) acc
       = (acc @ fst (round_of (take ?m (past s k seen))), snd (round_of (take ?m (past s k seen))))"
    unfolding page_round_all by (simp add: Let_def)
  ultimately show ?thesis using ov(2) that [of ov ?m] by simp
qed

lemma scan_round_exact:
  assumes "event_store_wf s" "k \<noteq> ''''" "\<not> es_closed s"
  shows "length (past s k seen) \<le> n \<Longrightarrow> scan_round n k seen acc s
    = Some (Inr (acc @ fst (round_of (past s k seen)), snd (round_of (past s k seen))))"
proof (induction n arbitrary: seen acc rule: less_induct)
  case (less n)
  let ?p = "past s k seen"
  from page_exact [OF assms, of seen acc] obtain ov m where
    rd: "read_stream insertion_sort k (ascending_from seen (int archive_read_limit)) s = Inr (ov @ take m ?p)"
    and m: "m + length ov = 500" "1 \<le> m"
    and pr: "page_round seen (ov @ take m ?p) acc = (acc @ fst (round_of (take m ?p)), snd (round_of (take m ?p)))"
    by blast
  have split: "round_of ?p = (if snd (round_of (take m ?p)) \<noteq> None then round_of (take m ?p)
      else (take m ?p @ fst (round_of (drop m ?p)), snd (round_of (drop m ?p))))"
    using round_of_append [of "take m ?p" "drop m ?p"] by simp
  show ?case
  proof (cases "ov @ take m ?p")
    case Nil
    then have "?p = []" using m by simp
    then show ?thesis using rd Nil by (simp add: scan_round.simps [of n])
  next
    case (Cons e es)
    have page_len: "length (e # es) = length ov + min m (length ?p)" unfolding Cons [symmetric] by simp
    have scan: "scan_round n k seen acc s =
        (if snd (round_of (take m ?p)) \<noteq> None \<or> length (e # es) < archive_read_limit
         then Some (Inr (acc @ fst (round_of (take m ?p)), snd (round_of (take m ?p))))
         else (case n of 0 \<Rightarrow> None
               | Suc n' \<Rightarrow> scan_round n' k (ev_version (last (e # es))) (acc @ fst (round_of (take m ?p))) s))"
      using rd pr unfolding Cons scan_round.simps [of n] by (simp del: page_round.simps split: nat.split)
    show ?thesis
    proof (cases "snd (round_of (take m ?p)) \<noteq> None \<or> length ?p < m")
      case True
      moreover from this have "snd (round_of (take m ?p)) \<noteq> None \<or> length (e # es) < archive_read_limit"
        using page_len m by (auto simp: archive_read_limit_def)
      ultimately show ?thesis unfolding scan using split by auto
    next
      case False
      then have none: "snd (round_of (take m ?p)) = None" and full: "m \<le> length ?p" by auto
      then obtain n' where n': "n = Suc n'" using less.prems m by (cases n) auto
      have big: "\<not> length (e # es) < archive_read_limit"
        using page_len m full by (simp add: archive_read_limit_def)
      have "take m ?p \<noteq> []" using m full by auto
      then have "last (e # es) = last (take m ?p)" unfolding Cons [symmetric] by simp
      also have "\<dots> = ?p ! (m - 1)" using m full by (subst last_conv_nth) auto
      finally have last: "last (e # es) = ?p ! (m - 1)" .
      have rest: "past s k (ev_version (?p ! (m - 1))) = drop m ?p"
        using past_past [OF assms(1), where n = "m - 1" and k = k and seen = seen] m full by simp
      have "length (drop m ?p) \<le> n'" using less.prems n' m by simp
      then have "scan_round n' k (ev_version (?p ! (m - 1))) (acc @ take m ?p) s
          = Some (Inr ((acc @ take m ?p) @ fst (round_of (drop m ?p)), snd (round_of (drop m ?p))))"
        using less.IH [of n' "ev_version (?p ! (m - 1))" "acc @ take m ?p"] n' by (simp only: rest)
      then show ?thesis
        unfolding scan last using none big n' split by (simp add: round_of_None_fst)
    qed
  qed
qed

section \<open>Calls\<close>

text \<open>
  \<open>CsStore\<close> are the methods the wrapper inherits from the store (subscriptions and reads);
  \<open>CsWorker\<close> is a run of the background worker of an append.
\<close>

datatype cs_call =
    CsAppend "int \<Rightarrow> time" "int \<Rightarrow> string" string "event option list" int
  | CsWorker bool "archive_record \<Rightarrow> bool" compaction_env string
  | CsForce compaction_env string
  | CsSubscribe event_filter
  | CsUnsubscribe int
  | CsReceive int
  | CsClose

fun exec_cs :: "cs_call \<Rightarrow> compactable \<Rightarrow> compactable" where
  "exec_cs (CsAppend clock uuid k es expected) c = snd (append_compactable clock uuid k es expected c)"
| "exec_cs (CsWorker ht sink env k) c = worker ht sink env k c"
| "exec_cs (CsForce env k) c = snd (force_compactable env k c)"
| "exec_cs (CsSubscribe fl) c = c\<lparr>cp_store := snd (subscribe fl (cp_store c))\<rparr>"
| "exec_cs (CsUnsubscribe n) c = c\<lparr>cp_store := snd (unsubscribe n (cp_store c))\<rparr>"
| "exec_cs (CsReceive n) c = c\<lparr>cp_store := snd (receive n (cp_store c))\<rparr>"
| "exec_cs CsClose c = snd (close_compactable c)"

text \<open>What a call may do to the wrapped store: append, manage subscribers, close.\<close>

fun store_call :: "cs_call \<Rightarrow> es_call option" where
  "store_call (CsAppend clock uuid k es expected) = Some (CallAppend clock uuid k es expected)"
| "store_call (CsSubscribe fl) = Some (CallSubscribe fl)"
| "store_call (CsUnsubscribe n) = Some (CallUnsubscribe n)"
| "store_call (CsReceive n) = Some (CallReceive n)"
| "store_call CsClose = Some CallClose"
| "store_call _ = None"

text \<open>The state beside the wrapped store.\<close>

definition same_books :: "compactable \<Rightarrow> compactable \<Rightarrow> bool" where
  "same_books c d \<longleftrightarrow> cp_repo d = cp_repo c \<and> cp_config d = cp_config c \<and> cp_trim d = cp_trim c
     \<and> cs_trimming d = cs_trimming c \<and> cs_sink d = cs_sink c \<and> cs_rounds d = cs_rounds c
     \<and> cs_archived d = cs_archived c \<and> cs_records d = cs_records c"

lemma exec_cs_store:
  "store_call x = Some y \<Longrightarrow> cp_store (exec_cs x c) = exec_es y (cp_store c) \<and> same_books c (exec_cs x c)"
  by (cases x) (auto simp: append_compactable_def close_compactable_def same_books_def split: prod.splits sum.splits)

section \<open>Appends extend streams\<close>

definition extends :: "event_store \<Rightarrow> event_store \<Rightarrow> bool" where
  "extends s t \<longleftrightarrow> event_store_wf t \<and> (\<forall>k. \<exists>new. stream_of t k = stream_of s k @ new
     \<and> version_of t k = version_of s k + int (length new))"

lemma extends_refl: "event_store_wf s \<Longrightarrow> extends s s"
  by (auto simp: extends_def)

lemma extends_same: "event_store_wf t \<Longrightarrow> es_streams t = es_streams s \<Longrightarrow> es_versions t = es_versions s \<Longrightarrow> extends s t"
  by (simp add: extends_def stream_of_def version_of_def)

lemma extends_trans: "extends s t \<Longrightarrow> extends t u \<Longrightarrow> extends s u"
  unfolding extends_def by (metis append.assoc length_append of_nat_add add.assoc)

lemma extends_store_event:
  "event_store_wf t \<Longrightarrow> ev_version e = version_of s k + 1 \<Longrightarrow> notified (store_event k e s) t \<Longrightarrow> extends s t"
  by (auto simp: extends_def notified_reads stream_of_store version_of_store)

lemma append_loop_extends:
  "event_store_wf s \<Longrightarrow> version_of s k = start + i \<Longrightarrow> extends s (snd (append_loop clock uuid k start i es s))"
proof (induction es arbitrary: i s)
  case (Cons x es)
  show ?case
  proof (cases x)
    case (Some e)
    show ?thesis
    proof (rule append_some_cases [OF Cons.prems, of clock uuid e es])
      fix t assume t:
        "append_loop clock uuid k start i (Some e # es) s = append_loop clock uuid k start (i + 1) es t"
        "event_store_wf t" "version_of t = (version_of s)(k := start + (i + 1))"
        "notified (store_event k (stamp clock uuid k (start + i + 1) (i + 1) e) s) t"
      have "extends s t" by (rule extends_store_event [OF t(2) _ t(4)]) (simp add: Cons.prems(2))
      moreover have "extends t (snd (append_loop clock uuid k start (i + 1) es t))"
        using Cons.IH [OF t(2)] t(3) by simp
      ultimately show ?thesis using t(1) Some extends_trans by simp
    qed (use Some extends_refl [OF Cons.prems(1)] in simp)
  qed (use Cons in simp)
qed (simp add: extends_refl)

lemma exec_es_extends:
  assumes "event_store_wf s" "\<not> (\<exists>k v. x = CallTrim k v)"
  shows "extends s (exec_es x s)"
proof -
  have wf: "event_store_wf (exec_es x s)" by (rule exec_es_wf [OF assms(1)])
  have app: "extends s (snd (append_events clock uuid k es expected s))" for clock uuid k es expected
    using append_loop_extends [OF assms(1)] extends_refl [OF assms(1)] by (simp add: append_events_def)
  have streams: "es_streams (exec_es x s) = es_streams s \<and> es_versions (exec_es x s) = es_versions s"
    if "\<not> (\<exists>clock uuid k es e. x = CallAppend clock uuid k es e)" "\<not> (\<exists>clock uuid k ty md pl. x = CallEmit clock uuid k ty md pl)"
  proof (cases x)
    case (CallUnsubscribe n)
    then show ?thesis using assms(1) by (auto simp: event_store_wf_def intro: unsubscribe_cases [of s n])
  next
    case CallClose
    then show ?thesis using close_store_ok [of s] assms(1)
      by (cases "es_closed s") (auto simp: event_store_wf_def close_store_def)
  qed (use that assms(2) in \<open>auto simp: subscribe_def receive_def Let_def split: option.splits receiving.splits\<close>)
  show ?thesis
  proof (cases x)
    case (CallAppend clock uuid k es e)
    then show ?thesis using app by simp
  next
    case (CallEmit clock uuid k ty md pl)
    then show ?thesis using app by (simp add: emit_snd)
  qed (use streams extends_same [OF wf] in auto)
qed

section \<open>Rounds partition the stream\<close>

definition records_of :: "compactable \<Rightarrow> string \<Rightarrow> archive_record list" where
  "records_of c k = [r \<leftarrow> cs_records c. ar_stream r = k]"

text \<open>A finished round: it ends at its only terminal event.\<close>

definition finished_round :: "event list \<Rightarrow> bool" where
  "finished_round es \<longleftrightarrow> es \<noteq> [] \<and> is_terminal (last es) \<and> (\<forall>e \<in> set (butlast es). \<not> is_terminal e)"

definition rounds_ok :: "compactable \<Rightarrow> string \<Rightarrow> bool" where
  "rounds_ok c k \<longleftrightarrow>
     archived_upto c k \<le> version_of (cp_store c) k
     \<and> concat (map ar_events (records_of c k)) = [e \<leftarrow> stream_of (cp_store c) k. ev_version e \<le> archived_upto c k]
     \<and> map ar_round (records_of c k) = map int [1..<Suc (length (records_of c k))]
     \<and> rounds_of c k = int (length (records_of c k))
     \<and> list_all (finished_round \<circ> ar_events) (records_of c k)"

lemma sorted_filter_split:
  "sorted_wrt (<) (map f es) \<Longrightarrow> es = [e \<leftarrow> es. f e \<le> v] @ [e \<leftarrow> es. f e > v]" for f :: "'a \<Rightarrow> int"
proof (induction es)
  case (Cons e es)
  show ?case
  proof (cases "f e \<le> v")
    case False
    then have "\<forall>x \<in> set es. \<not> f x \<le> v" using Cons.prems by force
    then show ?thesis using False by (simp add: filter_id_conv filter_empty_conv not_le)
  qed (use Cons in simp)
qed simp

text \<open>A finished round past the boundary moves the boundary to its terminal event.\<close>

lemma upto_terminal:
  assumes "event_store_wf s" "round_of (past s k v) = (es, Some t)"
  shows "[e \<leftarrow> stream_of s k. ev_version e \<le> ev_version t] = [e \<leftarrow> stream_of s k. ev_version e \<le> v] @ es"
    and "finished_round es" "ev_version t \<le> version_of s k" "v < ev_version t"
proof -
  have c: "contiguous (version_of s k) (stream_of s k)"
    using wf_stream [OF assms(1), of k] by (simp add: stream_ok_def)
  have srt: "sorted_wrt (<) (map ev_version (stream_of s k))" by (rule contiguous_sorted [OF c])
  from round_of_Some [of "past s k v" t] assms(2) obtain pre post where
    p: "past s k v = pre @ t # post" "es = pre @ [t]" "is_terminal t" "\<forall>e \<in> set pre. \<not> is_terminal e" by auto
  then show "finished_round es" by (simp add: finished_round_def)
  have t: "t \<in> set (past s k v)" using p(1) by simp
  then show tv: "v < ev_version t" by simp
  show "ev_version t \<le> version_of s k" using contiguous_le [OF c, of t] t by simp
  have all: "stream_of s k = [e \<leftarrow> stream_of s k. ev_version e \<le> v] @ pre @ t # post"
    using sorted_filter_split [OF srt, of v] p(1) by simp
  have "sorted_wrt (<) (map ev_version (past s k v))"
    by (rule contiguous_sorted [OF past_contiguous [OF assms(1)]])
  then have ord: "\<forall>e \<in> set pre. ev_version e < ev_version t" "\<forall>e \<in> set post. ev_version t < ev_version e"
    unfolding p(1) by (auto simp: sorted_wrt_append)
  then have "[e \<leftarrow> pre @ t # post. ev_version e \<le> ev_version t] = pre @ [t]"
    by (auto simp: filter_id_conv filter_empty_conv not_le less_imp_le)
  moreover have "[e \<leftarrow> [e \<leftarrow> stream_of s k. ev_version e \<le> v]. ev_version e \<le> ev_version t] = [e \<leftarrow> stream_of s k. ev_version e \<le> v]"
    using tv by (auto intro!: filter_cong)
  ultimately show "[e \<leftarrow> stream_of s k. ev_version e \<le> ev_version t] = [e \<leftarrow> stream_of s k. ev_version e \<le> v] @ es"
    using p(2) by (subst all) simp
qed

lemma archive_once_cases:
  assumes "event_store_wf (cp_store c)"
  obtains "snd (archive_once sink k c) = c" "fst (archive_once sink k c) \<noteq> Inr True"
  | es t where "archive_once sink k c = (Inr True, c\<lparr>cs_rounds := (cs_rounds c)(k \<mapsto> rounds_of c k + 1),
        cs_archived := (cs_archived c)(k \<mapsto> ev_version t),
        cs_records := cs_records c @ [\<lparr>ar_round = rounds_of c k + 1, ar_stream = k, ar_events = es\<rparr>]\<rparr>)"
      "round_of (past (cp_store c) k (archived_upto c k)) = (es, Some t)"
proof (cases "cs_sink c \<and> k \<noteq> '''' \<and> \<not> es_closed (cp_store c)")
  case True
  let ?p = "past (cp_store c) k (archived_upto c k)"
  have "length ?p \<le> length (stream_of (cp_store c) k)" by simp
  moreover obtain es found where r: "round_of ?p = (es, found)" by (cases "round_of ?p")
  ultimately have scan: "scan_round (length (stream_of (cp_store c) k)) k (archived_upto c k) [] (cp_store c)
      = Some (Inr (es, found))" using scan_round_exact [OF assms, of k "archived_upto c k" _ "[]"] True by simp
  show ?thesis
  proof (cases found)
    case None
    then show ?thesis using that(1) True scan by (simp add: archive_once_def)
  next
    case (Some t)
    show ?thesis
    proof (cases "sink \<lparr>ar_round = rounds_of c k + 1, ar_stream = k, ar_events = es\<rparr>")
      case True
      then show ?thesis using that(2) [of es t] \<open>cs_sink c \<and> _\<close> scan Some r
        by (simp add: archive_once_def Let_def)
    next
      case False
      then show ?thesis using that(1) \<open>cs_sink c \<and> _\<close> scan Some by (simp add: archive_once_def Let_def)
    qed
  qed
next
  case False
  have "snd (archive_once sink k c) = c \<and> fst (archive_once sink k c) \<noteq> Inr True"
  proof (cases "cs_sink c")
    case True
    then have "read_stream insertion_sort k (ascending_from (archived_upto c k) (int archive_read_limit)) (cp_store c)
        = Inl (if k = [] then ErrStreamNotFound else ErrEventStoreClosed)"
      using False by (auto simp: read_stream_def)
    then have "scan_round (length (stream_of (cp_store c) k)) k (archived_upto c k) [] (cp_store c)
        = Some (Inl (if k = [] then ErrStreamNotFound else ErrEventStoreClosed))"
      by (subst scan_round.simps) simp
    then show ?thesis using True by (simp add: archive_once_def)
  qed (simp add: archive_once_def)
  then show ?thesis using that(1) by blast
qed

lemma archive_once_store [simp]:
  "cp_store (snd (archive_once sink k c)) = cp_store c" "cp_repo (snd (archive_once sink k c)) = cp_repo c"
  "cp_config (snd (archive_once sink k c)) = cp_config c" "cp_trim (snd (archive_once sink k c)) = cp_trim c"
  "cs_trimming (snd (archive_once sink k c)) = cs_trimming c" "cs_sink (snd (archive_once sink k c)) = cs_sink c"
  by (auto simp: archive_once_def Let_def split: option.splits sum.splits prod.splits)

lemma drain_keeps:
  assumes "\<And>d. P d \<Longrightarrow> P (snd (archive_once sink k d))" "P c"
  shows "P (snd (drain_rounds n sink k c))"
  using assms(2)
proof (induction n arbitrary: c)
  case (Suc n)
  have "P (snd (archive_once sink k c))" by (rule assms(1) [OF Suc.prems])
  moreover obtain r d where "archive_once sink k c = (r, d)" by (cases "archive_once sink k c")
  ultimately show ?case using Suc.IH [of d] by (auto split: sum.splits bool.splits)
qed simp

lemma drain_store [simp]:
  "cp_store (snd (drain_rounds n sink k c)) = cp_store c" "cp_repo (snd (drain_rounds n sink k c)) = cp_repo c"
  "cp_config (snd (drain_rounds n sink k c)) = cp_config c" "cp_trim (snd (drain_rounds n sink k c)) = cp_trim c"
  "cs_trimming (snd (drain_rounds n sink k c)) = cs_trimming c" "cs_sink (snd (drain_rounds n sink k c)) = cs_sink c"
  by (rule drain_keeps [where P = "\<lambda>d. cp_store d = cp_store c"] drain_keeps [where P = "\<lambda>d. cp_repo d = cp_repo c"]
    drain_keeps [where P = "\<lambda>d. cp_config d = cp_config c"] drain_keeps [where P = "\<lambda>d. cp_trim d = cp_trim c"]
    drain_keeps [where P = "\<lambda>d. cs_trimming d = cs_trimming c"] drain_keeps [where P = "\<lambda>d. cs_sink d = cs_sink c"]; simp)+

lemma archive_once_rounds:
  assumes "event_store_wf (cp_store c)" "rounds_ok c j"
  shows "rounds_ok (snd (archive_once sink k c)) j"
proof (rule archive_once_cases [OF assms(1), of sink k])
  assume "snd (archive_once sink k c) = c"
  then show ?thesis using assms(2) by simp
next
  fix es t
  let ?ar = "\<lparr>ar_round = rounds_of c k + 1, ar_stream = k, ar_events = es\<rparr>"
  assume a: "archive_once sink k c = (Inr True, c\<lparr>cs_rounds := (cs_rounds c)(k \<mapsto> rounds_of c k + 1),
        cs_archived := (cs_archived c)(k \<mapsto> ev_version t), cs_records := cs_records c @ [?ar]\<rparr>)"
    "round_of (past (cp_store c) k (archived_upto c k)) = (es, Some t)"
  let ?d = "snd (archive_once sink k c)"
  have d: "archived_upto ?d j = (if j = k then ev_version t else archived_upto c j)"
    "rounds_of ?d j = (if j = k then rounds_of c k + 1 else rounds_of c j)"
    "records_of ?d j = (if j = k then records_of c k @ [?ar] else records_of c j)"
    "cp_store ?d = cp_store c"
    by (simp_all add: a(1) archived_upto_def rounds_of_def records_of_def)
  show ?thesis
  proof (cases "j = k")
    case True
    then show ?thesis
      using assms(2) upto_terminal [OF assms(1) a(2)] unfolding rounds_ok_def d by simp
  next
    case False
    then show ?thesis using assms(2) unfolding rounds_ok_def d by simp
  qed
qed

lemma rounds_ok_books:
  "extends (cp_store c) (cp_store d) \<Longrightarrow> event_store_wf (cp_store c) \<Longrightarrow> same_books c d \<Longrightarrow>
   rounds_ok c k \<Longrightarrow> rounds_ok d k"
proof -
  assume e: "extends (cp_store c) (cp_store d)" and wf: "event_store_wf (cp_store c)" and b: "same_books c d"
    and r: "rounds_ok c k"
  have same: "archived_upto d k = archived_upto c k" "rounds_of d k = rounds_of c k" "records_of d k = records_of c k"
    using b by (simp_all add: same_books_def archived_upto_def rounds_of_def records_of_def)
  from e obtain new where new: "stream_of (cp_store d) k = stream_of (cp_store c) k @ new"
    "version_of (cp_store d) k = version_of (cp_store c) k + int (length new)" "event_store_wf (cp_store d)"
    by (auto simp: extends_def)
  have c: "contiguous (version_of (cp_store d) k) (stream_of (cp_store d) k)"
    using wf_stream [OF new(3), of k] by (simp add: stream_ok_def)
  have "contiguous (version_of (cp_store d) k) new"
    using contiguous_drop [OF c, of "length (stream_of (cp_store c) k)"] new(1) by simp
  then have "\<forall>e \<in> set new. version_of (cp_store c) k < ev_version e"
    using contiguous_le new(2) by fastforce
  then have "[e \<leftarrow> new. ev_version e \<le> archived_upto c k] = []"
    using r by (auto simp: rounds_ok_def filter_empty_conv)
  then show ?thesis using r new(1,2) unfolding rounds_ok_def same by simp
qed

section \<open>One compaction\<close>

definition frame :: "event_summary \<Rightarrow> string \<times> string \<times> int \<times> int \<times> int" where
  "frame sm = (sm_id sm, sm_stream sm, sm_start sm, sm_end sm, sm_count sm)"

lemma agg_event_frame: "frame (agg_event e sm) = frame sm"
proof -
  have "frame (agg_type e sm) = frame sm" "frame (agg_agent e sm) = frame sm" "frame (agg_task e sm) = frame sm"
    "frame (agg_tools e sm) = frame sm" "frame (agg_session e sm) = frame sm" "frame (agg_message e sm) = frame sm"
    "frame (agg_error e sm) = frame sm" for sm
    by (simp_all add: frame_def agg_type_def agg_agent_def agg_task_def agg_tools_def agg_session_def
      agg_message_def agg_error_def Let_def split del: if_split) (simp_all split: if_split)
  then show ?thesis by (simp add: agg_event_def)
qed

lemma agg_fold_frame: "frame (fold agg_event es sm) = frame sm"
  by (induction es arbitrary: sm) (simp_all add: agg_event_frame)

lemma build_summary_frame [simp]:
  "sm_id (build_summary env k es) = ce_uuid env" "sm_stream (build_summary env k es) = k"
  "sm_start (build_summary env k es) = ev_version (hd es)" "sm_end (build_summary env k es) = ev_version (last es)"
  "sm_count (build_summary env k es) = int (length es)"
  using agg_fold_frame [of es] by (simp_all add: build_summary_def frame_def Let_def)

lemma read_for_compaction:
  assumes "event_store_wf s"
  shows "read_stream insertion_sort k (ascending_from 0 0) s
    = (if k = '''' then Inl ErrStreamNotFound else if es_closed s then Inl ErrEventStoreClosed else Inr (stream_of s k))"
proof -
  have "\<forall>e \<in> set (stream_of s k). 0 \<le> ev_version e"
    using wf_stream [OF assms, of k] contiguous_le by (fastforce simp: stream_ok_def)
  then have "[e \<leftarrow> stream_of s k. 0 \<le> ev_version e] = stream_of s k" by (simp add: filter_id_conv)
  then show ?thesis
    by (auto simp: read_stream_def ascending_from_def since_filter_def limit_to_def Let_def)
qed

text \<open>Nothing happens, or the oldest events get a summary and, if trimming is on, go.\<close>

lemma compact_stream_cases:
  assumes "event_store_wf (cp_store c)"
  obtains "snd (compact_stream env k c) = c"
  | n where "0 < n" "n \<le> length (stream_of (cp_store c) k)"
      "snd (compact_stream env k c) = c\<lparr>cp_repo := save_summary (build_summary env k (take n (stream_of (cp_store c) k))) (cp_repo c),
         cp_store := (if cc_trim (cp_config c) \<and> cp_trim c
           then snd (trim_before k (ev_version (stream_of (cp_store c) k ! (n - 1))) (cp_store c)) else cp_store c)\<rparr>"
proof -
  let ?all = "stream_of (cp_store c) k" and ?keep = "cc_keep (cp_config c)"
  let ?n = "nat (int (length ?all) - ?keep)"
  show ?thesis
  proof (cases "k = '''' \<or> es_closed (cp_store c) \<or> ?keep < 0 \<or> int (length ?all) \<le> ?keep")
    case True
    then show ?thesis using that(1) by (auto simp: compact_stream_def read_for_compaction [OF assms] Let_def)
  next
    case False
    then have n: "0 < ?n" "?n \<le> length ?all" by auto
    then have ne: "take ?n ?all \<noteq> []" by auto
    then have last: "last (take ?n ?all) = ?all ! (?n - 1)" using n by (subst last_conv_nth) auto
    show ?thesis
      by (rule that(2) [OF n]) (use False ne last in \<open>simp add: compact_stream_def read_for_compaction [OF assms] Let_def\<close>)
  qed
qed

lemma check_and_compact_snd:
  "snd (check_and_compact env k c) = c \<or> snd (check_and_compact env k c) = snd (compact_stream env k c)"
  by (auto simp: check_and_compact_def split: sum.splits)

lemma with_inner_self [simp]: "with_inner (inner c) c = c"
  by (simp add: with_inner_def inner_def)

lemma worker_keeps:
  assumes "P c" and drain: "\<And>d. P d \<Longrightarrow> P (snd (archive_once sink k d))"
    and check: "\<And>d x. P d \<Longrightarrow> P (d\<lparr>cs_last_checked := x\<rparr>)" and weaken: "\<And>d. P d \<Longrightarrow> Q d"
    and compact: "\<And>d. P d \<Longrightarrow> Q (with_inner (snd (compact_stream env k (inner d))) d)"
    and trim: "\<And>d. Q d \<Longrightarrow> Q (trim_compacted k d)"
  shows "Q (worker ht sink env k c)"
proof -
  have drained: "P d \<Longrightarrow> P (snd (drain_pending_rounds sink k d))" for d
    unfolding drain_pending_rounds_def using drain_keeps [of P] drain by blast
  have maybe: "Q (maybe_compact sink env k d)" if "P d" for d
  proof -
    define d1 where "d1 v = d\<lparr>cs_last_checked := (cs_last_checked d)(k \<mapsto> v)\<rparr>" for v
    define d2 where "d2 v = (if cs_sink (d1 v) then snd (drain_pending_rounds sink k (d1 v)) else d1 v)" for v
    have "P (d2 v)" for v using drained check [OF that] by (simp add: d1_def d2_def)
    then have after: "Q (with_inner (snd (check_and_compact env k (inner (d2 v)))) (d2 v))" for v
      using check_and_compact_snd [of env k "inner (d2 v)"] compact weaken by (metis with_inner_self)
    show ?thesis
    proof (cases "stream_version k (cp_store d)")
      case (Inr v)
      obtain r i where r: "check_and_compact env k (inner (d2 v)) = (r, i)" by (cases "check_and_compact env k (inner (d2 v))")
      then have "Q (with_inner i (d2 v))" using after [of v] by simp
      then have "Q (case (r, i) of (Inl e, i) \<Rightarrow> with_inner i (d2 v)
          | (Inr did, i) \<Rightarrow> if did then trim_compacted k (with_inner i (d2 v)) else with_inner i (d2 v))"
        using trim by (auto split: sum.splits)
      moreover have "maybe_compact sink env k d =
          (if v \<le> cc_threshold (cp_config d)
              \<or> v - last_checked d k < cc_threshold (cp_config d) div compaction_check_divisor then d
           else (case check_and_compact env k (inner (d2 v)) of
                   (Inl e, i) \<Rightarrow> with_inner i (d2 v)
                 | (Inr did, i) \<Rightarrow> if did then trim_compacted k (with_inner i (d2 v)) else with_inner i (d2 v)))"
        unfolding maybe_compact_def Let_def d1_def d2_def Inr by (simp only: sum.case)
      ultimately show ?thesis using weaken [OF that] r by simp
    qed (use weaken [OF that] in \<open>simp add: maybe_compact_def\<close>)
  qed
  show ?thesis using maybe drained assms(1) by (simp add: worker_def)
qed

section \<open>Archived rounds\<close>

definition untrimmed_inv :: "compactable \<Rightarrow> bool" where
  "untrimmed_inv c \<longleftrightarrow> event_store_wf (cp_store c) \<and> \<not> cc_trim (cp_config c) \<and> cs_sink c
     \<and> (\<forall>k. rounds_ok c k)"

lemma rounds_ok_cong:
  "cp_store d = cp_store c \<Longrightarrow> cs_rounds d = cs_rounds c \<Longrightarrow> cs_archived d = cs_archived c \<Longrightarrow>
   cs_records d = cs_records c \<Longrightarrow> rounds_ok d k = rounds_ok c k"
  by (simp add: rounds_ok_def records_of_def rounds_of_def archived_upto_def)

lemma inner_simps [simp]:
  "cp_store (inner c) = cp_store c" "cp_repo (inner c) = cp_repo c"
  "cp_config (inner c) = cp_config c" "cp_trim (inner c) = cp_trim c"
  by (simp_all add: inner_def)

lemma with_inner_simps [simp]:
  "cp_store (with_inner i c) = cp_store i" "cp_repo (with_inner i c) = cp_repo i"
  "cp_config (with_inner i c) = cp_config c" "cp_trim (with_inner i c) = cp_trim c"
  "cs_trimming (with_inner i c) = cs_trimming c" "cs_sink (with_inner i c) = cs_sink c"
  "cs_rounds (with_inner i c) = cs_rounds c" "cs_archived (with_inner i c) = cs_archived c"
  "cs_records (with_inner i c) = cs_records c"
  by (simp_all add: with_inner_def)

lemma compact_untrimmed:
  assumes "untrimmed_inv d"
  shows "untrimmed_inv (with_inner (snd (compact_stream env k (inner d))) d)"
proof -
  have wf: "event_store_wf (cp_store (inner d))" using assms by (simp add: untrimmed_inv_def)
  have "cp_store (snd (compact_stream env k (inner d))) = cp_store d"
    by (rule compact_stream_cases [OF wf, of env k]) (use assms in \<open>simp_all add: untrimmed_inv_def\<close>)
  moreover from this have "rounds_ok (with_inner (snd (compact_stream env k (inner d))) d) j = rounds_ok d j" for j
    by (intro rounds_ok_cong) simp_all
  ultimately show ?thesis using assms by (simp add: untrimmed_inv_def)
qed

lemma worker_untrimmed: "untrimmed_inv c \<Longrightarrow> untrimmed_inv (worker ht sink env k c)"
proof (rule worker_keeps [where P = untrimmed_inv])
  fix d assume d: "untrimmed_inv d"
  then show "untrimmed_inv (snd (archive_once sink k d))"
    using archive_once_rounds [of d] by (simp add: untrimmed_inv_def)
  show "untrimmed_inv (d\<lparr>cs_last_checked := x\<rparr>)" for x
    using d rounds_ok_cong [of "d\<lparr>cs_last_checked := x\<rparr>" d] by (simp add: untrimmed_inv_def)
  show "untrimmed_inv (with_inner (snd (compact_stream env k (inner d))) d)"
    by (rule compact_untrimmed [OF d])
  show "untrimmed_inv (trim_compacted k d)"
    using d by (simp add: untrimmed_inv_def trim_compacted_def Let_def)
qed

lemma exec_cs_untrimmed: "untrimmed_inv c \<Longrightarrow> untrimmed_inv (exec_cs x c)"
proof (cases "store_call x")
  case (Some y)
  assume inv: "untrimmed_inv c"
  have s: "cp_store (exec_cs x c) = exec_es y (cp_store c)" "same_books c (exec_cs x c)"
    using exec_cs_store [OF Some, of c] by blast+
  have "\<not> (\<exists>k v. y = CallTrim k v)" using Some by (cases x) auto
  then have "extends (cp_store c) (cp_store (exec_cs x c))"
    using exec_es_extends inv s(1) by (simp add: untrimmed_inv_def)
  then show ?thesis
    using inv s(2) rounds_ok_books [of c "exec_cs x c"] unfolding untrimmed_inv_def extends_def same_books_def by auto
next
  case None
  assume "untrimmed_inv c"
  with None show ?thesis
    by (cases x) (simp_all add: worker_untrimmed force_compactable_def force_compact_def compact_untrimmed split: prod.split,
        metis compact_untrimmed snd_conv)
qed

interpretation untrimmed: invariant_system exec_cs "\<lambda>_. True" untrimmed_inv
  by unfold_locales (rule exec_cs_untrimmed)

definition fresh_archive :: "bool \<Rightarrow> compaction_config \<Rightarrow> compactable" where
  "fresh_archive trimming cfg = with_archive_sink (new_compactable new_event_store new_summary_repo trimming cfg)"

lemma fresh_untrimmed: "\<not> cc_trim (sanitize_config cfg) \<Longrightarrow> untrimmed_inv (fresh_archive trimming cfg)"
  by (simp add: untrimmed_inv_def fresh_archive_def with_archive_sink_def new_compactable_def rounds_ok_def
    records_of_def archived_upto_def rounds_of_def) (simp add: new_event_store_def version_of_def stream_of_def)

text \<open>A drain with a working sink leaves no finished round behind, up to its bound.\<close>

lemma drain_complete:
  assumes "\<And>r. sink r" "k \<noteq> ''''"
  shows "event_store_wf (cp_store c) \<Longrightarrow> \<not> es_closed (cp_store c) \<Longrightarrow> cs_sink c \<Longrightarrow>
    length [e \<leftarrow> past (cp_store c) k (archived_upto c k). is_terminal e] \<le> n \<Longrightarrow>
    [e \<leftarrow> past (cp_store c) k (archived_upto (snd (drain_rounds n sink k c)) k). is_terminal e] = []"
proof (induction n arbitrary: c)
  case (Suc n)
  let ?p = "past (cp_store c) k (archived_upto c k)"
  have "length ?p \<le> length (stream_of (cp_store c) k)" by simp
  from scan_round_exact [OF Suc.prems(1) assms(2) Suc.prems(2) this, of "[]"]
  have scan: "scan_round (length (stream_of (cp_store c) k)) k (archived_upto c k) [] (cp_store c)
      = Some (Inr (fst (round_of ?p), snd (round_of ?p)))" by simp
  show ?case
  proof (cases "snd (round_of ?p)")
    case None
    then have "[e \<leftarrow> ?p. is_terminal e] = []" by (simp add: round_of_None filter_empty_conv)
    then show ?thesis using None scan Suc.prems(3) by (simp add: archive_once_def)
  next
    case (Some t)
    then obtain es where es: "round_of ?p = (es, Some t)" by (cases "round_of ?p") auto
    have "archive_once sink k c = (Inr True, snd (archive_once sink k c))"
      "archived_upto (snd (archive_once sink k c)) k = ev_version t"
      using es scan Suc.prems(3) assms(1) by (simp_all add: archive_once_def Let_def archived_upto_def)
    then obtain d where a: "archive_once sink k c = (Inr True, d)" "archived_upto d k = ev_version t" by metis
    have d: "cp_store d = cp_store c" "cs_sink d = cs_sink c"
      using archive_once_store(1,6) [of sink k c] a(1) by simp_all
    from upto_terminal [OF Suc.prems(1) es] have t: "archived_upto c k < ev_version t" by blast
    from round_of_Some [of ?p t] Some obtain pre post where p: "?p = pre @ t # post" "is_terminal t" by blast
    have "length [e \<leftarrow> past (cp_store c) k (ev_version t). is_terminal e] < length [e \<leftarrow> ?p. is_terminal e]"
    proof -
      have "past (cp_store c) k (ev_version t) = [e \<leftarrow> ?p. ev_version e > ev_version t]"
        using t by (auto intro: filter_cong)
      then have "[e \<leftarrow> past (cp_store c) k (ev_version t). is_terminal e]
          = [e \<leftarrow> pre. ev_version e > ev_version t \<and> is_terminal e] @ [e \<leftarrow> post. ev_version e > ev_version t \<and> is_terminal e]"
        unfolding p(1) by (simp add: conj_commute)
      moreover have "length [e \<leftarrow> es. ev_version e > v \<and> is_terminal e] \<le> length [e \<leftarrow> es. is_terminal e]" for es v
        by (induction es) auto
      ultimately show ?thesis unfolding p(1) using p(2) by (simp add: add_mono less_Suc_eq_le)
    qed
    then have "length [e \<leftarrow> past (cp_store d) k (archived_upto d k). is_terminal e] \<le> n"
      using Suc.prems(4) a(2) d(1) by simp
    from Suc.IH [OF _ _ _ this] show ?thesis using Suc.prems(1-3) a(1) d by simp
  qed
qed simp

text \<open>
  Archiving is exact while nothing is trimmed: whatever appends, workers and failing sinks there
  were, the archived rounds of a stream are numbered from 1, each ends at its only terminal event, and
  together they are the stream up to its archive boundary, without gap or overlap; and a drain whose sink
  works leaves no finished round behind, as long as at most 1000 are pending.
\<close>

theorem rounds_partition_stream:
  assumes "\<not> cc_trim (sanitize_config cfg)" "c = fold exec_cs calls (fresh_archive trimming cfg)"
  shows "concat (map ar_events (records_of c k))
      = [e \<leftarrow> es_events (cp_store c). ev_stream e = k \<and> ev_version e \<le> archived_upto c k]
    \<and> map ar_round (records_of c k) = map int [1..<Suc (length (records_of c k))]
    \<and> list_all (finished_round \<circ> ar_events) (records_of c k)
    \<and> (k \<noteq> '''' \<and> \<not> es_closed (cp_store c)
        \<and> length [e \<leftarrow> past (cp_store c) k (archived_upto c k). is_terminal e] \<le> max_archive_drain_rounds
       \<longrightarrow> [e \<leftarrow> past (cp_store c) k (archived_upto (snd (drain_pending_rounds (\<lambda>_. True) k c)) k). is_terminal e] = [])"
proof -
  have "untrimmed_inv c"
    using untrimmed.run_inv [OF fresh_untrimmed [OF assms(1)], of calls] assms(2) by (simp add: list_all_iff)
  then have inv: "event_store_wf (cp_store c)" "cs_sink c" "rounds_ok c k" by (simp_all add: untrimmed_inv_def)
  have "stream_of (cp_store c) k = [e \<leftarrow> es_events (cp_store c). ev_stream e = k]"
    using wf_stream [OF inv(1), of k] by (simp add: stream_ok_def)
  then show ?thesis
    using inv(3) drain_complete [of "\<lambda>_. True", OF TrueI _ inv(1) _ inv(2), of k max_archive_drain_rounds]
    by (simp add: rounds_ok_def drain_pending_rounds_def conj_commute)
qed

definition sample_env :: compaction_env where
  "sample_env = \<lparr>ce_uuid = ''sum'', ce_now = 9, ce_text = (\<lambda>_. ''text'')\<rparr>"

definition sample_append :: "string \<Rightarrow> cs_call" where
  "sample_append ty = CsAppend (\<lambda>_. 5) (\<lambda>_. ''id'') ''s'' [Some (sample_event ty 1)] 0"

lemma rounds_partition_stream_witness:
  "list_all (finished_round \<circ> ar_events) (records_of (fold exec_cs
     [sample_append ''task.created'', sample_append ''task.completed'', CsWorker True (\<lambda>_. True) sample_env ''s'']
     (fresh_archive False default_compaction_config)) ''s'')"
proof -
  have "\<not> cc_trim (sanitize_config default_compaction_config)"
    by (simp add: sanitize_config_def default_compaction_config_def)
  from rounds_partition_stream [OF this refl] show ?thesis by blast
qed

section \<open>No event goes without a summary\<close>

text \<open>The number of events trimmed from a stream: its live events are the versions after it.\<close>

definition trimmed :: "event_store \<Rightarrow> string \<Rightarrow> int" where
  "trimmed s k = version_of s k - int (length (stream_of s k))"

definition covers :: "event_summary \<Rightarrow> string \<Rightarrow> int \<Rightarrow> bool" where
  "covers sm k v \<longleftrightarrow> sm_stream sm = k \<and> sm_start sm \<le> v \<and> v \<le> sm_end sm"

definition covered :: "event_store \<Rightarrow> summary_repo \<Rightarrow> bool" where
  "covered s r \<longleftrightarrow>
     (\<forall>k v. 1 \<le> v \<longrightarrow> v \<le> trimmed s k \<longrightarrow> (\<exists>sid sm. sr_summaries r sid = Some sm \<and> covers sm k v))
     \<and> (\<forall>sid sm. sr_summaries r sid = Some sm \<longrightarrow> sm_start sm \<le> trimmed s (sm_stream sm) + 1)"

lemma extends_trimmed: "extends s t \<Longrightarrow> trimmed t k = trimmed s k"
proof -
  assume "extends s t"
  then obtain new where "stream_of t k = stream_of s k @ new" "version_of t k = version_of s k + int (length new)"
    by (auto simp: extends_def)
  then show ?thesis by (simp add: trimmed_def)
qed

lemma trim_before_trimmed:
  assumes "event_store_wf s"
  shows "trimmed (snd (trim_before k end s)) j =
    (if j = k then max (trimmed s k) (min end (version_of s k)) else trimmed s j)"
proof (cases "j = k")
  case True
  have c: "contiguous (version_of s k) (stream_of s k)"
    using wf_stream [OF assms, of k] by (simp add: stream_ok_def)
  have "length [e \<leftarrow> stream_of s k. ev_version e > end] = length (stream_of s k) - split_at end (stream_of s k)"
    using contiguous_drop_split [OF c, of "end"] by (metis length_drop)
  also have "split_at end (stream_of s k) = nat (min (int (length (stream_of s k))) (end - trimmed s k))"
    using contiguous_split [OF c] by (simp add: trimmed_def)
  finally show ?thesis
    using True by (auto simp: trimmed_def trim_before_stream [OF assms])
qed (simp add: trimmed_def trim_before_stream [OF assms])

text \<open>Trimming up to the end of a stored summary of the stream is safe.\<close>

lemma covered_trim:
  assumes "event_store_wf s" "covered s r" "sr_summaries r sid = Some sm" "sm_stream sm = k"
  shows "covered (snd (trim_before k (sm_end sm) s)) r"
proof -
  let ?t = "snd (trim_before k (sm_end sm) s)"
  have t: "trimmed ?t j = (if j = k then max (trimmed s k) (min (sm_end sm) (version_of s k)) else trimmed s j)" for j
    by (rule trim_before_trimmed [OF assms(1)])
  have start: "sm_start sm \<le> trimmed s k + 1" using assms by (auto simp: covered_def)
  have "\<exists>sid sm. sr_summaries r sid = Some sm \<and> covers sm j v" if "1 \<le> v" "v \<le> trimmed ?t j" for j v
  proof (cases "v \<le> trimmed s j")
    case True
    then show ?thesis using assms(2) that(1) by (auto simp: covered_def)
  next
    case False
    then have "covers sm j v" using that(2) start assms(4) by (auto simp: t covers_def split: if_splits)
    then show ?thesis using assms(3) by blast
  qed
  moreover have "sm_start x \<le> trimmed ?t (sm_stream x) + 1" if "sr_summaries r i = Some x" for i x
  proof -
    have "sm_start x \<le> trimmed s (sm_stream x) + 1" using assms(2) that by (auto simp: covered_def)
    then show ?thesis by (auto simp: t)
  qed
  ultimately show ?thesis by (simp add: covered_def)
qed

definition coverage_inv :: "string set \<Rightarrow> compactable \<Rightarrow> bool" where
  "coverage_inv D c \<longleftrightarrow> event_store_wf (cp_store c) \<and> repo_wf (cp_repo c) \<and> covered (cp_store c) (cp_repo c)
     \<and> dom (sr_summaries (cp_repo c)) \<subseteq> D"

lemma covered_save:
  assumes "covered s r" "sr_summaries r (sm_id sm) = None" "sm_start sm \<le> trimmed s (sm_stream sm) + 1"
  shows "covered s (save_summary sm r)"
proof -
  have "\<exists>sid x. sr_summaries (save_summary sm r) sid = Some x \<and> covers x k v"
    if v: "1 \<le> v" "v \<le> trimmed s k" for k v
  proof -
    obtain sid x where x: "sr_summaries r sid = Some x" "covers x k v"
      using assms(1) v unfolding covered_def by blast
    then have "sid \<noteq> sm_id sm" using assms(2) by auto
    then show ?thesis using x by (auto simp: save_summaries)
  qed
  moreover have "sm_start x \<le> trimmed s (sm_stream x) + 1" if "sr_summaries (save_summary sm r) sid = Some x" for sid x
    using that assms(1,3) by (auto simp: save_summaries covered_def split: if_splits)
  ultimately show ?thesis by (simp add: covered_def)
qed

lemma compact_coverage:
  assumes inv: "coverage_inv D d" and fresh: "ce_uuid env \<notin> D" "ce_uuid env \<noteq> ''''"
  shows "coverage_inv (insert (ce_uuid env) D) (with_inner (snd (compact_stream env k (inner d))) d)"
proof -
  let ?s = "cp_store d" and ?r = "cp_repo d"
  have wf: "event_store_wf (cp_store (inner d))" using inv by (simp add: coverage_inv_def)
  have c: "contiguous (version_of ?s k) (stream_of ?s k)"
    using wf_stream [OF wf, of k] by (simp add: stream_ok_def)
  show ?thesis
  proof (rule compact_stream_cases [OF wf, of env k])
    assume "snd (compact_stream env k (inner d)) = inner d"
    then show ?thesis using inv by (auto simp: coverage_inv_def)
  next
    fix n
    let ?sm = "build_summary env k (take n (stream_of ?s k))"
    assume n: "0 < n" "n \<le> length (stream_of (cp_store (inner d)) k)"
      and r: "snd (compact_stream env k (inner d)) = inner d\<lparr>
         cp_repo := save_summary (build_summary env k (take n (stream_of (cp_store (inner d)) k))) (cp_repo (inner d)),
         cp_store := (if cc_trim (cp_config (inner d)) \<and> cp_trim (inner d)
           then snd (trim_before k (ev_version (stream_of (cp_store (inner d)) k ! (n - 1))) (cp_store (inner d)))
           else cp_store (inner d))\<rparr>"
    have none: "sr_summaries ?r (ce_uuid env) = None" using inv fresh by (auto simp: coverage_inv_def)
    have take: "take n (stream_of ?s k) \<noteq> []" using n by auto
    have "sm_start ?sm = ev_version (stream_of ?s k ! 0)" using n take by (simp add: hd_conv_nth)
    then have start: "sm_start ?sm = trimmed ?s k + 1"
      using contiguousD [OF c, of 0] n by (cases "stream_of ?s k") (simp_all add: trimmed_def)
    have "last (take n (stream_of ?s k)) = stream_of ?s k ! (n - 1)" using n take by (subst last_conv_nth) auto
    then have endv: "sm_end ?sm = ev_version (stream_of ?s k ! (n - 1))" by simp
    let ?r' = "save_summary ?sm ?r"
    have "covered ?s ?r'"
      by (rule covered_save) (use inv none start in \<open>simp_all add: coverage_inv_def\<close>)
    moreover have saved: "sr_summaries ?r' (ce_uuid env) = Some ?sm" using fresh by (simp add: save_summaries)
    moreover have "event_store_wf ?s" using inv by (simp add: coverage_inv_def)
    ultimately have "covered (snd (trim_before k (sm_end ?sm) ?s)) ?r'" by (intro covered_trim) simp_all
    moreover have "repo_wf ?r'"
      by (rule save_summary_wf) (use inv none in \<open>simp_all add: coverage_inv_def keeps_start_def\<close>)
    moreover have "dom (sr_summaries ?r') \<subseteq> insert (ce_uuid env) D"
      using inv by (auto simp: coverage_inv_def save_summaries split: if_splits)
    moreover have "event_store_wf (snd (trim_before k (sm_end ?sm) ?s))" by (rule trim_before_wf) fact
    ultimately show ?thesis
      using \<open>covered ?s ?r'\<close> \<open>event_store_wf ?s\<close> unfolding r coverage_inv_def endv by simp
  qed
qed

lemma trim_coverage:
  assumes "coverage_inv D d"
  shows "coverage_inv D (trim_compacted k d)"
proof -
  let ?found = "find_by_stream k (cp_repo d)"
  have wf: "event_store_wf (cp_store d)" "repo_wf (cp_repo d)" "covered (cp_store d) (cp_repo d)"
    using assms by (simp_all add: coverage_inv_def)
  show ?thesis
  proof (cases "?found = []")
    case False
    then have "last ?found \<in> set ?found" by simp
    then have "sr_summaries (cp_repo d) (sm_id (last ?found)) = Some (last ?found)" "sm_stream (last ?found) = k"
      by (simp_all add: set_find_by_stream [OF wf(2)])
    from covered_trim [OF wf(1,3) this] show ?thesis
      using assms trim_before_wf [OF wf(1)] by (simp add: trim_compacted_def Let_def coverage_inv_def)
  qed (use assms in \<open>simp add: trim_compacted_def\<close>)
qed

lemma coverage_archive: "coverage_inv D d \<Longrightarrow> coverage_inv D (snd (archive_once sink k d))"
  by (simp add: coverage_inv_def)

lemma worker_coverage:
  assumes "coverage_inv D c" "ce_uuid env \<notin> D" "ce_uuid env \<noteq> ''''"
  shows "coverage_inv (insert (ce_uuid env) D) (worker ht sink env k c)"
  by (rule worker_keeps [where P = "coverage_inv D" and Q = "coverage_inv (insert (ce_uuid env) D)", OF assms(1)])
    (use compact_coverage [OF _ assms(2,3)] trim_coverage coverage_archive in \<open>auto simp: coverage_inv_def\<close>)

fun call_uuids :: "cs_call \<Rightarrow> string list" where
  "call_uuids (CsWorker ht sink env k) = [ce_uuid env]"
| "call_uuids (CsForce env k) = [ce_uuid env]"
| "call_uuids _ = []"

lemma exec_cs_coverage:
  assumes "coverage_inv D c" "set (call_uuids x) \<inter> insert '''' D = {}"
  shows "coverage_inv (set (call_uuids x) \<union> D) (exec_cs x c)"
proof (cases "store_call x")
  case (Some y)
  have s: "cp_store (exec_cs x c) = exec_es y (cp_store c)" "same_books c (exec_cs x c)"
    using exec_cs_store [OF Some, of c] by blast+
  have "\<not> (\<exists>k v. y = CallTrim k v)" using Some by (cases x) auto
  then have e: "extends (cp_store c) (cp_store (exec_cs x c))"
    using exec_es_extends assms(1) s(1) by (simp add: coverage_inv_def)
  have "covered (cp_store (exec_cs x c)) (cp_repo c)"
    using assms(1) extends_trimmed [OF e] by (simp add: coverage_inv_def covered_def)
  moreover have "call_uuids x = []" using Some by (cases x) simp_all
  ultimately show ?thesis
    using assms(1) s(2) e by (simp add: coverage_inv_def same_books_def extends_def)
next
  case None
  show ?thesis
  proof (cases x)
    case (CsWorker ht sink env k)
    then have "ce_uuid env \<notin> D" "ce_uuid env \<noteq> ''''" using assms(2) by auto
    from worker_coverage [OF assms(1) this] show ?thesis using CsWorker by simp
  next
    case (CsForce env k)
    obtain r i where "compact_stream env k (inner c) = (r, i)" by (cases "compact_stream env k (inner c)")
    moreover have "ce_uuid env \<notin> D" "ce_uuid env \<noteq> ''''" using CsForce assms(2) by auto
    ultimately show ?thesis
      using CsForce compact_coverage [OF assms(1), of env k]
      by (simp add: force_compactable_def force_compact_def)
  qed (use None in simp_all)
qed

lemma run_coverage:
  "coverage_inv D c \<Longrightarrow> distinct (concat (map call_uuids calls)) \<Longrightarrow>
   set (concat (map call_uuids calls)) \<inter> insert '''' D = {} \<Longrightarrow> \<exists>E. coverage_inv E (fold exec_cs calls c)"
proof (induction calls arbitrary: c D)
  case (Cons x calls)
  from Cons.prems(3) have "set (call_uuids x) \<inter> insert '''' D = {}" by auto
  note step = exec_cs_coverage [OF Cons.prems(1) this]
  have "distinct (concat (map call_uuids calls))"
    "set (concat (map call_uuids calls)) \<inter> insert '''' (set (call_uuids x) \<union> D) = {}"
    using Cons.prems(2,3) by auto
  from Cons.IH [OF step this] show ?case by simp
qed auto

text \<open>
  C19: No event disappears without a trace: with compaction and trimming in any combination of appends,
  workers and forced compactions, every version a stream has given out is still live or covered by a stored
  summary of that stream, as long as the ids drawn for summaries are fresh.
\<close>

theorem compaction_loses_no_event:
  assumes "distinct (concat (map call_uuids calls))" "'''' \<notin> set (concat (map call_uuids calls))"
    "c = fold exec_cs calls (fresh_archive trimming cfg)" "1 \<le> v" "v \<le> version_of (cp_store c) k"
  shows "(\<exists>e \<in> set (es_events (cp_store c)). ev_stream e = k \<and> ev_version e = v)
    \<or> (\<exists>sm \<in> set (summaries_for_stream k c). sm_start sm \<le> v \<and> v \<le> sm_end sm)"
proof -
  have "coverage_inv {} (fresh_archive trimming cfg)"
    by (simp add: coverage_inv_def fresh_archive_def with_archive_sink_def new_compactable_def covered_def)
      (simp add: new_summary_repo_def trimmed_def new_event_store_def version_of_def)
  from run_coverage [OF this assms(1)] assms(2,3) obtain D where "coverage_inv D c" by auto
  then have inv: "event_store_wf (cp_store c)" "repo_wf (cp_repo c)" "covered (cp_store c) (cp_repo c)"
    by (simp_all add: coverage_inv_def)
  have st: "stream_ok k (version_of (cp_store c) k) (stream_of (cp_store c) k) (es_events (cp_store c))"
    by (rule wf_stream [OF inv(1)])
  show ?thesis
  proof (cases "v \<le> trimmed (cp_store c) k")
    case True
    then obtain sid sm where sm: "sr_summaries (cp_repo c) sid = Some sm" "covers sm k v"
      using inv(3) assms(4) unfolding covered_def by blast
    then have "sm \<in> set (summaries_for_stream k c)"
      using repo_wfD(4) [OF inv(2) sm(1)]
      by (simp add: summaries_for_stream_def set_find_by_stream [OF inv(2)] covers_def)
    then show ?thesis using sm(2) by (auto simp: covers_def)
  next
    case False
    let ?es = "stream_of (cp_store c) k"
    define i where "i = nat (v - trimmed (cp_store c) k - 1)"
    have i: "i < length ?es" "int i = v - trimmed (cp_store c) k - 1"
      using False assms(5) by (simp_all add: i_def trimmed_def)
    then have "ev_version (?es ! i) = v"
      using st contiguousD [of "version_of (cp_store c) k" ?es i] by (simp add: stream_ok_def trimmed_def)
    moreover have "?es ! i \<in> set ?es" using i(1) by simp
    moreover have "set ?es = {e \<in> set (es_events (cp_store c)). ev_stream e = k}"
      using st by (simp add: stream_ok_def flip: set_filter)
    ultimately show ?thesis by blast
  qed
qed

definition trimming_config :: compaction_config where
  "trimming_config = \<lparr>cc_threshold = 1, cc_keep = 1, cc_max_summaries = 50, cc_ttl = 0, cc_trim = True\<rparr>"

lemma compaction_loses_no_event_witness:
  "\<exists>c. c = fold exec_cs [sample_append ''a'', sample_append ''b'', sample_append ''c'', CsWorker False (\<lambda>_. True) sample_env ''s'']
        (fresh_archive True trimming_config)
     \<and> ((\<exists>e \<in> set (es_events (cp_store c)). ev_stream e = ''s'' \<and> ev_version e = 1)
        \<or> (\<exists>sm \<in> set (summaries_for_stream ''s'' c). sm_start sm \<le> 1 \<and> 1 \<le> sm_end sm))"
proof -
  let ?calls = "[sample_append ''a'', sample_append ''b'', sample_append ''c'', CsWorker False (\<lambda>_. True) sample_env ''s'']"
  let ?c = "fold exec_cs ?calls (fresh_archive True trimming_config)"
  have ids: "distinct (concat (map call_uuids ?calls))" "'''' \<notin> set (concat (map call_uuids ?calls))"
    by (simp_all add: sample_append_def sample_env_def)
  have "1 \<le> version_of (cp_store ?c) ''s''"
    by code_simp
  from compaction_loses_no_event [OF ids refl _ this] show ?thesis by auto
qed

text \<open>
  With trimming on, archiving is not: compaction trims the events of a round that is not finished yet
  (the record archived when it ends lacks them), and those of a finished round whose sink failed (its
  record is never complete), although the drain runs first to prevent that.
\<close>

theorem unarchived_rounds_trimmed:
  "map (map ev_type \<circ> ar_events) (records_of (fold exec_cs
      [sample_append ''task.created'', sample_append ''task.started'', sample_append ''tool.call.started'',
       CsWorker False (\<lambda>_. True) sample_env ''s'', sample_append ''task.completed'',
       CsWorker True (\<lambda>_. True) sample_env ''s''] (fresh_archive True trimming_config)) ''s'')
     = [[''tool.call.started'', ''task.completed'']]
   \<and> map (map ev_type \<circ> ar_events) (records_of (fold exec_cs
      [sample_append ''task.created'', sample_append ''task.completed'', sample_append ''task.created'',
       CsWorker True (\<lambda>_. False) sample_env ''s'', sample_append ''task.completed'',
       CsWorker True (\<lambda>_. True) sample_env ''s''] (fresh_archive True trimming_config)) ''s'')
     = [[''task.created'', ''task.completed'']]"
  by code_simp

end
