(* ===== verification/Fabric_Event_Log.thy ===== *)
theory Fabric_Event_Log
  imports Task_Fabric_Props Event_Store_Props
begin

text \<open>
  The Task Fabric on the in-memory event store: the writes the fabric's operations flush
  (\<open>recordLocked\<close> and \<open>flushAppends\<close> of \<open>internal/taskfabric/fabric.go\<close>), appended to the streams of
  \<open>internal/ares_events\<close>. A call changes the fabric under its lock and writes afterwards, so the writes
  of overlapping calls interleave: \<open>fly_step\<close> is one locked call or one write. The durable log holds
  every lifecycle event, one stream per task; the state of a task whose calls do not overlap can be
  rebuilt from it alone, and that of another may not (\<open>reordered_writes_mislead\<close>).
\<close>

section \<open>From the fabric to the store\<close>

fun state_name :: "task_state \<Rightarrow> string" where
  "state_name StateReady = ''READY''"
| "state_name StateLeased = ''LEASED''"
| "state_name StateRunning = ''RUNNING''"
| "state_name StateSuspended = ''SUSPENDED''"
| "state_name StateCompleted = ''COMPLETED''"
| "state_name StateFailed = ''FAILED''"

definition durable_as_event :: "durable_event \<Rightarrow> event" where
  "durable_as_event p = \<lparr>ev_id = '''', ev_stream = d_stream p, ev_type = d_type p, ev_module = ''taskfabric'',
     ev_payload = [(''task_id'', GStr (d_stream p)), (''agent_id'', GStr (d_agent p)),
                   (''origin'', GStr (d_origin p)), (''state'', GStr (state_name (d_state p)))],
     ev_metadata = [], ev_version = 0, ev_time = d_at p\<rparr>"

text \<open>One write of \<open>flushAppends\<close>: an append without a version check; \<open>None\<close> is its error.\<close>

definition flush_one ::
  "(nat \<Rightarrow> time) \<Rightarrow> (nat \<Rightarrow> string) \<Rightarrow> durable_event \<Rightarrow> event_store \<Rightarrow> event_store option" where
  "flush_one clock uuid p s =
     (case append_events (\<lambda>_. clock (length (es_events s))) (\<lambda>_. uuid (length (es_events s)))
             (d_stream p) [Some (durable_as_event p)] 0 s of
        (Inl _, _) \<Rightarrow> None | (Inr _, s') \<Rightarrow> Some s')"

section \<open>Every write lands\<close>

definition view :: "event \<Rightarrow> string \<times> string \<times> payload" where
  "view e = (ev_stream e, ev_type e, ev_payload e)"

lemma view_stamp [simp]: "view (stamp clock uuid k v i e) = (k, ev_type e, ev_payload e)"
  by (simp add: view_def)

definition short_log :: "event_store \<Rightarrow> bool" where
  "short_log s \<longleftrightarrow> event_store_wf s \<and> \<not> es_closed s \<and> (\<forall>k. version_of s k \<le> int (length (es_events s)))"

lemma short_log_new [simp]: "short_log new_event_store"
  using wf_new by (simp add: short_log_def version_of_def) (simp add: new_event_store_def)

lemma flush_one_ok:
  assumes "short_log s" "d_stream p \<noteq> ''''" "length (es_events s) + 1 < 2 ^ 63"
  obtains s' where "flush_one clock uuid p s = Some s'" "short_log s'"
    "map view (es_events s') = map view (es_events s) @ [view (durable_as_event p)]"
    "length (es_events s') = length (es_events s) + 1"
proof -
  let ?n = "length (es_events s)" and ?k = "d_stream p"
  have wf: "event_store_wf s" and live: "\<not> es_closed s" and short: "\<And>k. version_of s k \<le> int ?n"
    using assms(1) by (simp_all add: short_log_def)
  let ?new = "stamped (\<lambda>_. clock ?n) (\<lambda>_. uuid ?n) ?k (version_of s ?k) 0 [Some (durable_as_event p)]"
  have "version_of s ?k + int (length ?new) < 2 ^ 63" using assms(3) short [of ?k] by simp
  from append_accepted [OF wf assms(2) live _ this, of 0] obtain t where
    t: "append_events (\<lambda>_. clock ?n) (\<lambda>_. uuid ?n) ?k [Some (durable_as_event p)] 0 s = (Inr (), t)"
      "event_store_wf t" "appended ?k ?new s t" by auto
  have "version_of t k \<le> int (length (es_events t))" for k
    using t(3) short [of k] by (cases "k = ?k") (simp_all add: appended_def)
  then have "short_log t" using t(2,3) live by (simp add: short_log_def appended_def)
  moreover have "flush_one clock uuid p s = Some t" using t(1) by (simp add: flush_one_def)
  moreover have "es_events t = es_events s @ ?new" using t(3) by (simp add: appended_def)
  then have "map view (es_events t) = map view (es_events s) @ [view (durable_as_event p)]"
    "length (es_events t) = ?n + 1" by (simp_all add: view_def durable_as_event_def)
  ultimately show ?thesis using that by blast
qed

section \<open>Rebuilding the tasks from the store\<close>

text \<open>A specification, performed nowhere in the code: what the comments promise of recovery and replay. The last event
  of a task's stream carries its state and its owner.\<close>

fun rebuild_view :: "string \<times> string \<times> payload \<Rightarrow> (string \<rightharpoonup> string option \<times> string option)
    \<Rightarrow> (string \<rightharpoonup> string option \<times> string option)" where
  "rebuild_view (k, ty, pl) m = m(k \<mapsto> (get_str pl ''state'', get_str pl ''agent_id''))"

definition rebuild :: "event list \<Rightarrow> (string \<rightharpoonup> string option \<times> string option)" where
  "rebuild es = fold rebuild_view (map view es) Map.empty"

lemma view_durable: "view (durable_as_event (durable_of e)) =
  (e_task e, task_event_type (e_type e), [(''task_id'', GStr (e_task e)), (''agent_id'', GStr (e_agent e)),
     (''origin'', GStr (e_origin e)), (''state'', GStr (state_name (e_state e)))])"
  by (simp add: view_def durable_as_event_def durable_of_def)

lemma rebuild_replay:
  "fold rebuild_view (map (view \<circ> durable_as_event \<circ> durable_of) evs) (\<lambda>k. map_option (\<lambda>(st, a). (Some (state_name st), Some a)) (m k))
    = (\<lambda>k. map_option (\<lambda>(st, a). (Some (state_name st), Some a)) (fold replay_event evs m k))"
proof (induction evs arbitrary: m)
  case (Cons e evs)
  have "(\<lambda>k. map_option (\<lambda>(st, a). (Some (state_name st), Some a)) (m k))(e_task e \<mapsto> (Some (state_name (e_state e)), Some (e_agent e)))
      = (\<lambda>k. map_option (\<lambda>(st, a). (Some (state_name st), Some a)) ((m(e_task e \<mapsto> (e_state e, e_agent e))) k))"
    by (simp add: fun_eq_iff)
  then show ?case using Cons.IH [of "m(e_task e \<mapsto> (e_state e, e_agent e))"]
    by (simp add: view_durable get_str_def)
qed simp

text \<open>Every event names a task.\<close>

definition log_named :: "fabric \<Rightarrow> bool" where
  "log_named f \<longleftrightarrow> (\<forall>e \<in> set (f_events f). e_task e \<noteq> '''')"

lemma fstep_named: "fstep f g \<Longrightarrow> fabric_wf f \<Longrightarrow> log_named f \<Longrightarrow> log_named g"
proof (induction rule: fstep.induct)
  case (fs_acquire f tid t l t')
  then have "t_id t' \<noteq> ''''" using fabric_wfD [of f tid t] by (auto simp: task_wf_def)
  then show ?case using fs_acquire.prems by (simp add: log_named_def)
next
  case (fs_move f tid t l t' evs)
  have "t_id t' = t_id t" by (subst fs_move(6)) simp
  then have "t_id t' \<noteq> ''''" using fabric_wfD [of f tid t] fs_move by (auto simp: task_wf_def)
  then show ?case using fs_move.prems by (auto simp: log_named_def)
next
  case (fs_requeue f tid t l evs t')
  have "t_id t' = t_id t" by (subst fs_requeue(5)) simp
  then have "t_id t' \<noteq> ''''" using fabric_wfD [of f tid t] fs_requeue by (auto simp: task_wf_def)
  then show ?case using fs_requeue.prems by (auto simp: log_named_def)
qed (simp_all add: log_named_def)

lemma frun_named:
  "frun n f g \<Longrightarrow> fabric_wf f \<Longrightarrow> unat (f_epoch f) + n < 2 ^ 64 \<Longrightarrow> log_named f \<Longrightarrow> log_named g"
proof (induction rule: frun.induct)
  case (frun_keep n f g h)
  then show ?case using fstep_named frun_wf [OF frun_keep(1)] by blast
next
  case (frun_bump n f g h)
  then show ?case using fstep_named frun_wf [OF frun_bump(1)] by simp
qed simp

section \<open>Calls and their writes\<close>

text \<open>
  A call of the fabric changes the fabric under its lock and collects its writes; it hands them to the store one by one
  after the lock is released (\<open>defer f.flushAppends(&pending)\<close> runs after \<open>defer f.mu.Unlock()\<close>). So the writes of
  calls that overlap may reach the store in any order that keeps the order within each call. \<open>Call x\<close> is the locked
  part of a call, \<open>Write i\<close> the next write of the \<open>i\<close>-th call.
\<close>

datatype fabric_act = Call fabric_op | Write nat

record in_flight =
  fl_fabric :: fabric
  fl_pending :: "durable_event list list"
  fl_store :: event_store
  fl_logged :: "durable_event list"

definition grounded :: "time \<Rightarrow> in_flight" where
  "grounded now = \<lparr>fl_fabric = with_event_store True (new_fabric now), fl_pending = [], fl_store = new_event_store,
     fl_logged = []\<rparr>"

definition writes_of :: "fabric_op \<Rightarrow> fabric \<Rightarrow> durable_event list" where
  "writes_of x f = drop (length (f_appends f)) (f_appends (exec_op x f))"

fun fly_step :: "(nat \<Rightarrow> time) \<Rightarrow> (nat \<Rightarrow> string) \<Rightarrow> fabric_act \<Rightarrow> in_flight \<Rightarrow> in_flight" where
  "fly_step clock uuid (Call x) v =
     v\<lparr>fl_fabric := exec_op x (fl_fabric v), fl_pending := fl_pending v @ [writes_of x (fl_fabric v)]\<rparr>"
| "fly_step clock uuid (Write i) v =
     (if i < length (fl_pending v) then
        (case fl_pending v ! i of
           [] \<Rightarrow> v
         | p # ps \<Rightarrow>
             (case flush_appends (flush_one clock uuid) [p] (fl_store v, fl_logged v) of
                (s, logged) \<Rightarrow> v\<lparr>fl_pending := (fl_pending v)[i := ps], fl_store := s, fl_logged := logged\<rparr>))
      else v)"

definition fly :: "(nat \<Rightarrow> time) \<Rightarrow> (nat \<Rightarrow> string) \<Rightarrow> fabric_act list \<Rightarrow> in_flight \<Rightarrow> in_flight" where
  "fly clock uuid acts v = fold (fly_step clock uuid) acts v"

fun calls :: "fabric_act list \<Rightarrow> fabric_op list" where
  "calls [] = []"
| "calls (Call x # acts) = x # calls acts"
| "calls (Write i # acts) = calls acts"

lemma calls_append [simp]: "calls (xs @ ys) = calls xs @ calls ys"
  by (induction xs rule: calls.induct) simp_all

lemma fly_simps [simp]:
  "fly clock uuid [] v = v" "fly clock uuid (a # acts) v = fly clock uuid acts (fly_step clock uuid a v)"
  "fly clock uuid (xs @ ys) v = fly clock uuid ys (fly clock uuid xs v)"
  by (simp_all add: fly_def)

text \<open>No two calls that record events of a task overlap: when one does, no write for the task is under way.\<close>

definition awaited :: "string \<Rightarrow> in_flight \<Rightarrow> durable_event list" where
  "awaited tid v = [p \<leftarrow> concat (fl_pending v). d_stream p = tid]"

fun apart :: "(nat \<Rightarrow> time) \<Rightarrow> (nat \<Rightarrow> string) \<Rightarrow> string \<Rightarrow> fabric_act list \<Rightarrow> in_flight \<Rightarrow> bool" where
  "apart clock uuid tid [] v = True"
| "apart clock uuid tid (Call x # acts) v =
     ((tid \<in> d_stream ` set (writes_of x (fl_fabric v)) \<longrightarrow> awaited tid v = [])
      \<and> apart clock uuid tid acts (fly_step clock uuid (Call x) v))"
| "apart clock uuid tid (Write i # acts) v = apart clock uuid tid acts (fly_step clock uuid (Write i) v)"

lemma apart_append:
  "apart clock uuid tid (xs @ ys) v \<longleftrightarrow> apart clock uuid tid xs v \<and> apart clock uuid tid ys (fly clock uuid xs v)"
  by (induction clock uuid tid xs v rule: apart.induct) auto

lemma fly_fabric: "fl_fabric (fly clock uuid acts v) = exec_ops (calls acts) (fl_fabric v)"
proof (induction acts arbitrary: v rule: calls.induct)
  case (3 i acts)
  have "fl_fabric (fly_step clock uuid (Write i) v) = fl_fabric v" by (auto split: list.split prod.split)
  then show ?case using 3 by simp
qed simp_all

lemma exec_op_writes:
  assumes "f_store f" "f_appends f = map durable_of (f_events f)" "x \<notin> range OpStore"
  obtains new where "f_events (exec_op x f) = f_events f @ new" "writes_of x f = map durable_of new"
    "f_appends (exec_op x f) = map durable_of (f_events (exec_op x f))" "f_store (exec_op x f)"
proof -
  obtain new where "f_events (exec_op x f) = f_events f @ new"
      "f_appends (exec_op x f) = f_appends f @ map durable_of new"
    using exec_op_log_below [of f x] assms(1) by (auto simp: log_below_def)
  then show thesis using that exec_op_store [of x f] assms by (simp add: writes_of_def)
qed

section \<open>Nothing is lost, whatever the order\<close>

abbreviation sent :: "task_event \<Rightarrow> string \<times> string \<times> payload" where
  "sent e \<equiv> view (durable_as_event (durable_of e))"

abbreviation due :: "durable_event \<Rightarrow> string \<times> string \<times> payload" where
  "due p \<equiv> view (durable_as_event p)"

definition flight_ok :: "in_flight \<Rightarrow> bool" where
  "flight_ok v \<longleftrightarrow> short_log (fl_store v) \<and> fl_logged v = [] \<and> f_store (fl_fabric v)
     \<and> f_appends (fl_fabric v) = map durable_of (f_events (fl_fabric v))
     \<and> (\<forall>p \<in> set (concat (fl_pending v)). d_stream p \<noteq> '''')
     \<and> mset (map view (es_events (fl_store v)) @ map due (concat (fl_pending v))) = mset (map sent (f_events (fl_fabric v)))"

lemma concat_update:
  assumes "i < length xss" "xss ! i = x # xs"
  shows "mset (concat xss) = add_mset x (mset (concat (xss[i := xs])))"
proof -
  have "xss = take i xss @ (x # xs) # drop (Suc i) xss" using id_take_nth_drop [OF assms(1)] assms(2) by simp
  then have "mset (concat xss) = mset (concat (take i xss)) + mset (x # xs) + mset (concat (drop (Suc i) xss))"
    by (metis concat.simps(2) concat_append mset_append union_assoc)
  then show ?thesis using assms(1) by (simp add: upd_conv_take_nth_drop)
qed

lemma write_cases:
  obtains (none) "fly_step clock uuid (Write i) v = v"
  | (some) p ps where "i < length (fl_pending v)" "fl_pending v ! i = p # ps"
  by (cases "i < length (fl_pending v)"; cases "fl_pending v ! i") auto

lemma write_step:
  assumes "flight_ok v" "i < length (fl_pending v)" "fl_pending v ! i = p # ps" "length (f_events (fl_fabric v)) < 2 ^ 63"
  obtains s where "fly_step clock uuid (Write i) v = v\<lparr>fl_pending := (fl_pending v)[i := ps], fl_store := s\<rparr>"
    "short_log s" "map view (es_events s) = map view (es_events (fl_store v)) @ [due p]"
proof -
  have p: "p \<in> set (concat (fl_pending v))" using assms(2,3) by (metis concat.simps(1) in_set_conv_nth list.set_intros(1) set_concat UN_I)
  have "length (map view (es_events (fl_store v)) @ map due (concat (fl_pending v))) = length (map sent (f_events (fl_fabric v)))"
    using assms(1) unfolding flight_ok_def by (metis size_mset)
  moreover have "0 < length (concat (fl_pending v))" using p by (rule length_pos_if_in_set)
  ultimately have "length (es_events (fl_store v)) + 1 < 2 ^ 63" using assms(4) unfolding length_append length_map by linarith
  moreover have "short_log (fl_store v)" "d_stream p \<noteq> ''''" "fl_logged v = []" using assms(1) p by (auto simp: flight_ok_def)
  ultimately obtain s where s: "flush_one clock uuid p (fl_store v) = Some s" "short_log s"
      "map view (es_events s) = map view (es_events (fl_store v)) @ [due p]"
    using flush_one_ok [of "fl_store v" p clock uuid] by blast
  then have "fly_step clock uuid (Write i) v = v\<lparr>fl_pending := (fl_pending v)[i := ps], fl_store := s\<rparr>"
    using assms(2,3) by simp
  with s show thesis using that by blast
qed

lemma flight_write:
  assumes "flight_ok v" "length (f_events (fl_fabric v)) < 2 ^ 63"
  shows "flight_ok (fly_step clock uuid (Write i) v)"
proof (cases rule: write_cases [of clock uuid i v])
  case (some p ps)
  from write_step [OF assms(1) some assms(2), of clock uuid] obtain s where
    s: "fly_step clock uuid (Write i) v = v\<lparr>fl_pending := (fl_pending v)[i := ps], fl_store := s\<rparr>" "short_log s"
      "map view (es_events s) = map view (es_events (fl_store v)) @ [due p]" by blast
  note con = concat_update [OF some]
  have "set (concat ((fl_pending v)[i := ps])) \<subseteq> set (concat (fl_pending v))"
    using arg_cong [OF con, of set_mset] by auto
  moreover have "mset (map view (es_events s) @ map due (concat ((fl_pending v)[i := ps])))
      = mset (map view (es_events (fl_store v)) @ map due (concat (fl_pending v)))"
    unfolding s(3) using con by simp
  ultimately show ?thesis using assms(1) unfolding flight_ok_def s(1) by (auto simp: s(2))
qed (use assms in simp)

lemma flight_call:
  assumes "flight_ok v" "x \<notin> range OpStore" "log_named (exec_op x (fl_fabric v))"
  shows "flight_ok (fly_step clock uuid (Call x) v)"
proof -
  obtain new where new: "f_events (exec_op x (fl_fabric v)) = f_events (fl_fabric v) @ new"
      "writes_of x (fl_fabric v) = map durable_of new"
      "f_appends (exec_op x (fl_fabric v)) = map durable_of (f_events (exec_op x (fl_fabric v)))"
      "f_store (exec_op x (fl_fabric v))"
    using exec_op_writes [of "fl_fabric v" x] assms(1,2) by (auto simp: flight_ok_def)
  have "d_stream p \<noteq> ''''" if "p \<in> set (writes_of x (fl_fabric v))" for p
    using that assms(3) new(1,2) by (auto simp: log_named_def durable_of_def)
  moreover have "image_mset (due \<circ> durable_of) (mset new) = image_mset sent (mset new)" by (simp add: comp_def)
  ultimately show ?thesis using assms(1) new by (auto simp: flight_ok_def)
qed

lemma stream_views:
  assumes "event_store_wf s"
  shows "map ev_type (stream_of s k) = map (fst \<circ> snd) [v \<leftarrow> map view (es_events s). fst v = k]"
proof -
  have "stream_of s k = [e \<leftarrow> es_events s. ev_stream e = k]"
    using wf_stream [OF assms, of k] by (simp add: stream_ok_def)
  then show ?thesis by (simp add: filter_map comp_def view_def)
qed

section \<open>The order of one task's writes\<close>

definition of_task :: "string \<Rightarrow> durable_event list \<Rightarrow> durable_event list" where
  "of_task tid ps = [p \<leftarrow> ps. d_stream p = tid]"

definition task_in_order :: "string \<Rightarrow> in_flight \<Rightarrow> bool" where
  "task_in_order tid v \<longleftrightarrow>
     [w \<leftarrow> map view (es_events (fl_store v)). fst w = tid] @ map due (awaited tid v)
       = map sent [e \<leftarrow> f_events (fl_fabric v). e_task e = tid]
     \<and> (\<forall>i < length (fl_pending v). \<forall>j < length (fl_pending v).
          of_task tid (fl_pending v ! i) \<noteq> [] \<longrightarrow> of_task tid (fl_pending v ! j) \<noteq> [] \<longrightarrow> i = j)"

lemma awaited_concat: "awaited tid v = concat (map (of_task tid) (fl_pending v))"
  by (simp add: awaited_def of_task_def filter_concat comp_def cong: map_cong)

lemma concat_lone:
  "i < length xss \<Longrightarrow> (\<And>j. j < length xss \<Longrightarrow> j \<noteq> i \<Longrightarrow> xss ! j = []) \<Longrightarrow> concat xss = xss ! i"
proof (induction xss arbitrary: i)
  case (Cons xs xss)
  show ?case
  proof (cases i)
    case 0
    have "\<forall>ys \<in> set xss. ys = []"
      using Cons.prems(2) [of "Suc _"] 0 by (auto simp: in_set_conv_nth)
    then show ?thesis using 0 by simp
  next
    case (Suc k)
    have "xss ! j = []" if "j < length xss" "j \<noteq> k" for j
      using Cons.prems(2) [of "Suc j"] Suc that by simp
    then show ?thesis using Cons.IH [of k] Cons.prems(1) Cons.prems(2) [of 0] Suc by simp
  qed
qed simp

lemma order_write:
  assumes "flight_ok v" "task_in_order tid v" "length (f_events (fl_fabric v)) < 2 ^ 63"
  shows "task_in_order tid (fly_step clock uuid (Write i) v)"
proof (cases rule: write_cases [of clock uuid i v])
  case (some p ps)
  from write_step [OF assms(1) some assms(3), of clock uuid] obtain s where
    s: "fly_step clock uuid (Write i) v = v\<lparr>fl_pending := (fl_pending v)[i := ps], fl_store := s\<rparr>"
      "map view (es_events s) = map view (es_events (fl_store v)) @ [due p]" by blast
  let ?g = "map (of_task tid) (fl_pending v)" and ?h = "map (of_task tid) ((fl_pending v)[i := ps])"
  have fst: "fst (due p) = d_stream p" by (simp add: view_def durable_as_event_def)
  have lone: "of_task tid ((fl_pending v)[i := ps] ! j) \<noteq> [] \<Longrightarrow> of_task tid (fl_pending v ! j) \<noteq> []"
    if "j < length (fl_pending v)" for j
    using that some by (cases "j = i") (auto simp: of_task_def)
  have one: "\<forall>a < length ((fl_pending v)[i := ps]). \<forall>b < length ((fl_pending v)[i := ps]).
      of_task tid ((fl_pending v)[i := ps] ! a) \<noteq> [] \<longrightarrow> of_task tid ((fl_pending v)[i := ps] ! b) \<noteq> [] \<longrightarrow> a = b"
    using assms(2) lone unfolding task_in_order_def by (metis length_list_update)
  have "[w \<leftarrow> map view (es_events s). fst w = tid] @ map due (concat ?h)
      = [w \<leftarrow> map view (es_events (fl_store v)). fst w = tid] @ map due (concat ?g)"
  proof (cases "d_stream p = tid")
    case True
    have g: "?g ! i = p # of_task tid ps" using some True by (simp add: of_task_def)
    have others: "?g ! j = []" if "j < length ?g" "j \<noteq> i" for j
      using assms(2) that some g unfolding task_in_order_def by (metis length_map list.distinct(1) nth_map)
    have "concat ?g = p # of_task tid ps" using concat_lone [of i ?g] others g some(1) by simp
    moreover have "concat ?h = of_task tid ps"
    proof -
      have "concat ?h = ?h ! i" by (rule concat_lone) (use others some(1) in \<open>auto simp: map_update\<close>)
      then show ?thesis using some(1) by (simp add: map_update)
    qed
    ultimately show ?thesis using True by (simp add: s(2) fst)
  next
    case False
    have "of_task tid ps = of_task tid (fl_pending v ! i)" using False some(2) by (simp add: of_task_def)
    then have "?h = ?g" by (metis list_update_id map_update)
    then show ?thesis using False by (simp add: s(2) fst)
  qed
  then show ?thesis using assms(2) one unfolding task_in_order_def awaited_concat s(1) by simp
qed (use assms in simp)

lemma order_call:
  assumes "flight_ok v" "task_in_order tid v" "x \<notin> range OpStore"
    and "tid \<in> d_stream ` set (writes_of x (fl_fabric v)) \<longrightarrow> awaited tid v = []"
  shows "task_in_order tid (fly_step clock uuid (Call x) v)"
proof -
  obtain new where new: "f_events (exec_op x (fl_fabric v)) = f_events (fl_fabric v) @ new"
      "writes_of x (fl_fabric v) = map durable_of new"
    using exec_op_writes [of "fl_fabric v" x] assms(1,3) unfolding flight_ok_def by metis
  have "map due (of_task tid (map durable_of new)) = map sent [e \<leftarrow> new. e_task e = tid]"
    by (simp add: of_task_def filter_map comp_def durable_of_def)
  moreover have "of_task tid (fl_pending v ! j) = []" if "of_task tid (writes_of x (fl_fabric v)) \<noteq> []" "j < length (fl_pending v)" for j
  proof -
    have "tid \<in> d_stream ` set (writes_of x (fl_fabric v))"
      using that(1) by (auto simp: of_task_def filter_empty_conv)
    then have "concat (map (of_task tid) (fl_pending v)) = []" using assms(4) awaited_concat by metis
    then show ?thesis using that(2) by simp
  qed
  ultimately show ?thesis
    using assms(2) new unfolding task_in_order_def awaited_concat
    by (auto simp: nth_append less_Suc_eq)
qed

section \<open>The durable log\<close>

lemma named_run:
  assumes "length ops < 2 ^ 64"
  shows "log_named (exec_ops ops (with_event_store True (new_fabric now)))"
proof -
  let ?f0 = "with_event_store True (new_fabric now)"
  have f0: "f_epoch ?f0 = 0" "f_tasks ?f0 = Map.empty" "f_events ?f0 = []"
    by (simp_all add: with_event_store_def new_fabric_def)
  obtain n where n: "n \<le> length ops" "frun n ?f0 (exec_ops ops ?f0)" using exec_ops_frun by blast
  have "fabric_wf ?f0" "log_named ?f0" "unat (f_epoch ?f0) + n < 2 ^ 64"
    using f0 n(1) assms by (simp_all add: fabric_wf_def current_token_def log_named_def)
  then show ?thesis using frun_named [OF n(2)] by blast
qed

lemma grounded_ok: "flight_ok (grounded now)" "task_in_order tid (grounded now)"
  by (simp_all add: flight_ok_def grounded_def with_event_store_def new_fabric_def task_in_order_def awaited_def)
    (simp_all add: new_event_store_def)

lemma events_grow:
  assumes "flight_ok v" "x \<notin> range OpStore"
  shows "length (f_events (fl_fabric v)) \<le> length (f_events (fl_fabric (fly_step clock uuid (Call x) v)))"
  using exec_op_log_below [of "fl_fabric v" x] by (auto simp: log_below_def)

lemma fly_ok:
  assumes "length (calls acts) < 2 ^ 64" "set (calls acts) \<inter> range OpStore = {}"
    "length (f_events (fl_fabric (fly clock uuid acts (grounded now)))) < 2 ^ 63"
  shows "flight_ok (fly clock uuid acts (grounded now))
    \<and> (apart clock uuid tid acts (grounded now) \<longrightarrow> task_in_order tid (fly clock uuid acts (grounded now)))"
  using assms
proof (induction acts rule: rev_induct)
  case Nil
  then show ?case using grounded_ok by simp
next
  case (snoc a acts)
  let ?v = "fly clock uuid acts (grounded now)"
  show ?case
  proof (cases a)
    case (Call x)
    have x: "x \<notin> range OpStore" using snoc.prems(2) Call by auto
    have "length (f_events (fl_fabric ?v)) \<le> length (f_events (exec_op x (fl_fabric ?v)))"
      using exec_op_log_below [of "fl_fabric ?v" x] by (auto simp: log_below_def)
    then have ih: "flight_ok ?v" "apart clock uuid tid acts (grounded now) \<Longrightarrow> task_in_order tid ?v"
      using snoc Call by auto
    have "exec_op x (fl_fabric ?v) = exec_ops (calls acts @ [x]) (with_event_store True (new_fabric now))"
      by (simp add: fly_fabric grounded_def)
    then have "log_named (exec_op x (fl_fabric ?v))"
      using named_run [of "calls acts @ [x]" now] snoc.prems(1) Call by simp
    then show ?thesis
      using flight_call [OF ih(1) x] order_call [OF ih(1) ih(2) x] Call by (simp add: apart_append)
  next
    case (Write i)
    then have "fl_fabric (fly_step clock uuid a ?v) = fl_fabric ?v" using fly_fabric [of clock uuid "[a]" ?v] by simp
    then have len: "length (f_events (fl_fabric ?v)) < 2 ^ 63" using snoc.prems(3) by simp
    then have ih: "flight_ok ?v" "apart clock uuid tid acts (grounded now) \<Longrightarrow> task_in_order tid ?v"
      using snoc Write by auto
    show ?thesis
      using flight_write [OF ih(1) len] order_write [OF ih(1) ih(2) len] Write by (simp add: apart_append)
  qed
qed

lemma rebuild_of_task: "fold rebuild_view vs m k = fold rebuild_view [v \<leftarrow> vs. fst v = k] m' k" if "m k = m' k" for m m' k
  using that
proof (induction vs arbitrary: m m')
  case (Cons w vs)
  obtain j ty pl where w: "w = (j, ty, pl)" by (cases w)
  show ?case
  proof (cases "j = k")
    case True
    then show ?thesis by (simp add: w) (rule Cons.IH, simp)
  next
    case False
    then show ?thesis using Cons.prems by (simp add: w) (rule Cons.IH, simp)
  qed
qed simp

text \<open>
  C18: Recovery from the store alone. Take any interleaving of fabric calls, under the lock, with the writes of the
  calls, which reach the in-memory store after the lock is released. No write fails; at every moment what is in the
  store and what is still under way are together exactly the fabric's own log, each event once; and every stream is
  unbroken. For a task none of whose calls overlapped and whose writes have all landed, the stream is the task's log
  in order, and the store alone gives the task's state and owner.
\<close>

theorem tasks_rebuilt_from_store:
  assumes "length (calls acts) < 2 ^ 64" "set (calls acts) \<inter> range OpStore = {}"
    "v = fly clock uuid acts (grounded now)" "length (f_events (fl_fabric v)) < 2 ^ 63"
  shows "fl_logged v = [] \<and> event_store_wf (fl_store v)
    \<and> fl_fabric v = exec_ops (calls acts) (with_event_store True (new_fabric now))
    \<and> mset (map view (es_events (fl_store v)) @ map due (concat (fl_pending v))) = mset (map sent (f_events (fl_fabric v)))
    \<and> (\<forall>tid t. apart clock uuid tid acts (grounded now) \<longrightarrow> awaited tid v = [] \<longrightarrow> f_tasks (fl_fabric v) tid = Some t \<longrightarrow>
         map ev_type (stream_of (fl_store v) tid) = map (task_event_type \<circ> e_type) [e \<leftarrow> f_events (fl_fabric v). e_task e = tid]
         \<and> rebuild (es_events (fl_store v)) tid = Some (Some (state_name (t_state t)), Some (t_owner t)))"
proof -
  let ?f = "fl_fabric v" and ?s = "fl_store v"
  have ok: "flight_ok v" using fly_ok [OF assms(1,2)] assms(3,4) by blast
  have wf: "event_store_wf ?s" using ok by (simp add: flight_ok_def short_log_def)
  have f: "?f = exec_ops (calls acts) (with_event_store True (new_fabric now))"
    using assms(3) by (simp add: fly_fabric grounded_def)
  have faithful: "log_faithful ?f"
    unfolding f by (rule exec_ops_faithful [OF assms(1)]) (simp_all add: with_event_store_def new_fabric_def)
  have "map ev_type (stream_of ?s tid) = map (task_event_type \<circ> e_type) [e \<leftarrow> f_events ?f. e_task e = tid]
      \<and> rebuild (es_events ?s) tid = Some (Some (state_name (t_state t)), Some (t_owner t))"
    if "apart clock uuid tid acts (grounded now)" "awaited tid v = []" "f_tasks ?f tid = Some t" for tid t
  proof
    have "task_in_order tid v" using fly_ok [OF assms(1,2), of clock uuid now tid] assms(3,4) that(1) by blast
    then have views: "[w \<leftarrow> map view (es_events ?s). fst w = tid] = map sent [e \<leftarrow> f_events ?f. e_task e = tid]"
      using that(2) by (simp add: task_in_order_def)
    show "map ev_type (stream_of ?s tid) = map (task_event_type \<circ> e_type) [e \<leftarrow> f_events ?f. e_task e = tid]"
      unfolding stream_views [OF wf] views by (simp add: comp_def view_durable)
    have "rebuild (es_events ?s) tid = fold rebuild_view [w \<leftarrow> map view (es_events ?s). fst w = tid] Map.empty tid"
      unfolding rebuild_def by (rule rebuild_of_task) simp
    also have "\<dots> = fold rebuild_view [w \<leftarrow> map sent (f_events ?f). fst w = tid] Map.empty tid"
      unfolding views by (simp add: filter_map comp_def view_durable)
    also have "\<dots> = fold rebuild_view (map sent (f_events ?f)) Map.empty tid"
      by (rule rebuild_of_task [symmetric]) simp
    also have "\<dots> = map_option (\<lambda>(st, a). (Some (state_name st), Some a)) (replay (f_events ?f) tid)"
      using rebuild_replay [of "f_events ?f" Map.empty] unfolding replay_def by (simp add: comp_def)
    finally show "rebuild (es_events ?s) tid = Some (Some (state_name (t_state t)), Some (t_owner t))"
      using faithful that(3) by (simp add: log_faithful_def)
  qed
  then show ?thesis using ok wf f unfolding flight_ok_def by blast
qed

text \<open>A task leased, and another one created, whose write overtakes that of the lease.\<close>

definition orderly :: "fabric_act list" where
  "orderly = [Call (OpCreate sample_task), Write 0, Call (OpAcquire ''t'' ''a'' 5),
     Call (OpCreate (sample_task\<lparr>t_id := ''u''\<rparr>)), Write 2, Write 1]"

text \<open>What is under way, whatever the store.\<close>

lemma fly_write:
  "fl_pending (fly_step clock uuid (Write i) v) = (fl_pending v)[i := tl (fl_pending v ! i)]"
  "fl_fabric (fly_step clock uuid (Write i) v) = fl_fabric v"
proof -
  show "fl_pending (fly_step clock uuid (Write i) v) = (fl_pending v)[i := tl (fl_pending v ! i)]"
  proof (cases "i < length (fl_pending v)")
    case True
    show ?thesis
    proof (cases "fl_pending v ! i")
      case Nil
      then have "(fl_pending v)[i := tl (fl_pending v ! i)] = fl_pending v" by (metis list.sel(2) list_update_id)
      then show ?thesis using True Nil by simp
    qed (simp add: True split: prod.split)
  qed (simp add: list_update_beyond)
  show "fl_fabric (fly_step clock uuid (Write i) v) = fl_fabric v" by (auto split: list.split prod.split)
qed

lemma fly_call:
  "fl_pending (fly_step clock uuid (Call x) v) = fl_pending v @ [writes_of x (fl_fabric v)]"
  "fl_fabric (fly_step clock uuid (Call x) v) = exec_op x (fl_fabric v)"
  by simp_all

lemmas flight_run = grounded_def writes_of_def awaited_def with_event_store_def sample_defs start_def
  yield_task_def owner_locked_def

lemma tasks_rebuilt_from_store_witness:
  "\<exists>v. v = fly (\<lambda>_. 1) (\<lambda>_. ''id'') orderly (grounded 0) \<and> fl_logged v = [] \<and> awaited ''t'' v = []
     \<and> rebuild (es_events (fl_store v)) ''t'' = Some (Some ''LEASED'', Some ''a'')"
proof -
  let ?v = "fly (\<lambda>_. 1) (\<lambda>_. ''id'') orderly (grounded 0)"
  have c: "length (calls orderly) < 2 ^ 64" "set (calls orderly) \<inter> range OpStore = {}" by (auto simp: orderly_def)
  have f: "fl_fabric ?v = exec_ops [OpCreate sample_task, OpAcquire ''t'' ''a'' 5, OpCreate (sample_task\<lparr>t_id := ''u''\<rparr>)]
      (with_event_store True (new_fabric 0))"
    by (simp add: fly_fabric orderly_def grounded_def del: fly_simps fly_step.simps)
  obtain t where t: "f_tasks (fl_fabric ?v) ''t'' = Some t" "t_state t = StateLeased" "t_owner t = ''a''"
      "length (f_events (fl_fabric ?v)) = 3"
    unfolding f by (simp add: sample_defs with_event_store_def)
  have apart: "apart (\<lambda>_. 1) (\<lambda>_. ''id'') ''t'' orderly (grounded 0)"
    by (simp add: orderly_def flight_run fly_write fly_call del: fly_step.simps)
  have "awaited ''t'' ?v = []" by (simp add: orderly_def flight_run fly_write fly_call del: fly_step.simps)
  with tasks_rebuilt_from_store [OF c refl, of "\<lambda>_. 1" "\<lambda>_. ''id''" 0] t apart show ?thesis by auto
qed

text \<open>
  When the calls of a task overlap, the store may mislead: an agent yields, another acquires the task, and the write
  of the yield comes last. Every event is in the store, and it says the task is suspended with its former owner.
\<close>

definition overtaken :: "fabric_act list" where
  "overtaken = [Call (OpCreate sample_task), Write 0, Call (OpAcquire ''t'' ''a'' 5), Write 1,
     Call (OpStart ''t'' ''a'' 1), Write 2, Call (OpYield ''t'' ''a'' 1 GNil), Call (OpAcquire ''t'' ''b'' 5),
     Write 4, Write 3]"

lemma reordered_writes_mislead:
  "\<exists>v t. v = fly (\<lambda>_. 1) (\<lambda>_. ''id'') overtaken (grounded 0) \<and> fl_logged v = [] \<and> concat (fl_pending v) = []
     \<and> f_tasks (fl_fabric v) ''t'' = Some t \<and> t_state t = StateLeased \<and> t_owner t = ''b''
     \<and> rebuild (es_events (fl_store v)) ''t'' = Some (Some ''SUSPENDED'', Some ''a'')"
  by (simp add: overtaken_def flight_run flush_one_def append_events_def append_loop.simps new_event_store_def
      store_event_def stamp_def version_of_def stream_of_def rebuild_def view_def durable_as_event_def get_str_def wrap64_def)

end
