(* ===== verification/Rate_Limit.thy ===== *)
theory Rate_Limit
  imports Interfaces Go_Channel
begin

text \<open>
  Package \<open>internal/ares_ratelimit\<close>: the token bucket (\<open>token_bucket.go\<close>), the sliding window
  (\<open>sliding_window.go\<close>), the plain and the weighted semaphore (\<open>semaphore.go\<close>) and the factory
  (\<open>limiter.go\<close>). Each method runs under its limiter's mutex and is one step; the readings of the
  clock are arguments. A method that blocks is the list of its wake-ups: a timer that fires some
  time late, or the context that is cancelled; a list too short is a call that still waits.
\<close>

section \<open>Configuration\<close>

record limiter_config =
  lc_rate :: rat
  lc_burst :: int
  lc_timeout :: duration
  lc_refill :: duration

definition default_config :: limiter_config where
  "default_config = \<lparr>lc_rate = 10, lc_burst = 20, lc_timeout = 5000000000, lc_refill = 1\<rparr>"

definition second :: duration where
  "second = 1000000000"

definition millisecond :: duration where
  "millisecond = 1000000"

datatype wake = Fires duration | Cancelled

datatype limiter_error =
  ErrUnsupported | ErrRateNotPositive | ErrWeightNotPositive | ErrContext | PanicNegativeCapacity

section \<open>Token bucket\<close>

record token_bucket =
  tb_tokens :: rat
  tb_max :: rat
  tb_rate :: rat
  tb_last :: time

definition new_token_bucket :: "limiter_config option \<Rightarrow> time \<Rightarrow> token_bucket" where
  "new_token_bucket cfg now =
     (let (r, b) = (case cfg of None \<Rightarrow> (1, 1) | Some c \<Rightarrow> (lc_rate c, lc_burst c))
      in \<lparr>tb_tokens = of_int b, tb_max = of_int b, tb_rate = r, tb_last = now\<rparr>)"

text \<open>\<open>refill\<close>: the seconds since the last check times the rate, at most the maximum.\<close>

definition refill :: "time \<Rightarrow> token_bucket \<Rightarrow> token_bucket" where
  "refill now l =
     (let t = tb_tokens l + of_int (now - tb_last l) / of_int second * tb_rate l
      in l\<lparr>tb_tokens := (if t > tb_max l then tb_max l else t), tb_last := now\<rparr>)"

definition allow_bucket :: "time \<Rightarrow> token_bucket \<Rightarrow> bool \<times> token_bucket" where
  "allow_bucket now l =
     (let l1 = refill now l
      in if tb_tokens l1 \<ge> 1 then (True, l1\<lparr>tb_tokens := tb_tokens l1 - 1\<rparr>) else (False, l1))"

text \<open>The length of one sleep of \<open>Wait\<close>.\<close>

definition bucket_pause :: "token_bucket \<Rightarrow> duration" where
  "bucket_pause l =
     (let w = go_trunc ((1 - tb_tokens l) / tb_rate l * of_int second)
      in if w \<le> 0 then millisecond else w)"

fun wait_bucket ::
  "wake list \<Rightarrow> time \<Rightarrow> token_bucket \<Rightarrow> (limiter_error + time) option \<times> token_bucket" where
  "wait_bucket ws now l =
     (case allow_bucket now l of
        (True, l1) \<Rightarrow> (Some (Inr now), l1)
      | (False, l1) \<Rightarrow>
          if tb_rate l1 \<le> 0 then (Some (Inl ErrRateNotPositive), l1)
          else (case ws of
                  [] \<Rightarrow> (None, l1)
                | Cancelled # _ \<Rightarrow> (Some (Inl ErrContext), l1)
                | Fires late # ws' \<Rightarrow> wait_bucket ws' (now + bucket_pause l1 + late) l1))"

declare wait_bucket.simps [simp del]

definition reset_bucket :: "time \<Rightarrow> token_bucket \<Rightarrow> token_bucket" where
  "reset_bucket now l = l\<lparr>tb_tokens := tb_max l, tb_last := now\<rparr>"

definition available_tokens :: "time \<Rightarrow> token_bucket \<Rightarrow> rat \<times> token_bucket" where
  "available_tokens now l = (let l1 = refill now l in (tb_tokens l1, l1))"

definition set_rate :: "rat \<Rightarrow> token_bucket \<Rightarrow> token_bucket" where
  "set_rate r l = l\<lparr>tb_rate := r\<rparr>"

definition set_burst :: "int \<Rightarrow> token_bucket \<Rightarrow> token_bucket" where
  "set_burst b l = l\<lparr>tb_max := of_int b, tb_tokens := (if tb_tokens l > of_int b then of_int b else tb_tokens l)\<rparr>"

section \<open>Sliding window\<close>

record sliding_window =
  sw_requests :: "time list"
  sw_size :: duration
  sw_max :: int

definition new_sliding_window :: "limiter_config option \<Rightarrow> sliding_window" where
  "new_sliding_window cfg =
     \<lparr>sw_requests = [], sw_size = second,
      sw_max = (case cfg of None \<Rightarrow> 1 | Some c \<Rightarrow> \<lceil>lc_rate c\<rceil>)\<rparr>"

text \<open>\<open>cleanup\<close> at a time, and \<open>ResetAt\<close>, which is the same scan at the time it is given.\<close>

definition cleanup :: "time \<Rightarrow> sliding_window \<Rightarrow> sliding_window" where
  "cleanup now l = l\<lparr>sw_requests := dropWhile (\<lambda>t. \<not> now - sw_size l < t) (sw_requests l)\<rparr>"

definition reset_at :: "time \<Rightarrow> sliding_window \<Rightarrow> sliding_window" where
  "reset_at t l = l\<lparr>sw_requests := dropWhile (\<lambda>x. \<not> t - sw_size l < x) (sw_requests l)\<rparr>"

definition allow_window :: "time \<Rightarrow> sliding_window \<Rightarrow> bool \<times> sliding_window" where
  "allow_window now l =
     (let l1 = cleanup now l
      in if int (length (sw_requests l1)) < sw_max l1
         then (True, l1\<lparr>sw_requests := sw_requests l1 @ [now]\<rparr>) else (False, l1))"

text \<open>The sleep of \<open>Wait\<close>: until the oldest request leaves the window, or a tenth of the window.\<close>

definition window_pause :: "time \<Rightarrow> sliding_window \<Rightarrow> duration" where
  "window_pause now l =
     (case sw_requests l of
        oldest # _ \<Rightarrow> max 0 (sw_size l - (now - oldest))
      | [] \<Rightarrow> sw_size l div 10)"

fun wait_window :: "wake list \<Rightarrow> time \<Rightarrow> sliding_window \<Rightarrow> (limiter_error + time) option \<times> sliding_window" where
  "wait_window ws now l =
     (case allow_window now l of
        (True, l1) \<Rightarrow> (Some (Inr now), l1)
      | (False, l1) \<Rightarrow>
          (case ws of
             [] \<Rightarrow> (None, l1)
           | Cancelled # _ \<Rightarrow> (Some (Inl ErrContext), l1)
           | Fires late # ws' \<Rightarrow> wait_window ws' (now + window_pause now l1 + late) l1))"

declare wait_window.simps [simp del]

definition reset_window :: "sliding_window \<Rightarrow> sliding_window" where
  "reset_window l = l\<lparr>sw_requests := []\<rparr>"

definition current_count :: "time \<Rightarrow> sliding_window \<Rightarrow> int \<times> sliding_window" where
  "current_count now l = (let l1 = cleanup now l in (int (length (sw_requests l1)), l1))"

definition remaining_requests :: "time \<Rightarrow> sliding_window \<Rightarrow> int \<times> sliding_window" where
  "remaining_requests now l =
     (let l1 = cleanup now l; r = sw_max l1 - int (length (sw_requests l1))
      in (if r < 0 then 0 else r, l1))"

section \<open>Semaphore\<close>

text \<open>
  The slots are the values in a buffered channel, beside a count per key. \<open>Acquire\<close> gives nothing
  (\<open>None\<close>) while it blocks; with a slot free and the context cancelled, \<open>select\<close> picks either
  (\<open>ctx_first\<close>). \<open>Release\<close> frees a slot for any key, and lowers that key's count only
  when it is positive.
\<close>

record semaphore =
  sem_slots :: "unit chan"
  sem_acquired :: "string \<rightharpoonup> int"
  sem_burst :: int

definition new_semaphore :: "limiter_config option \<Rightarrow> limiter_error + semaphore" where
  "new_semaphore cfg =
     (let b = (case cfg of None \<Rightarrow> 1 | Some c \<Rightarrow> lc_burst c)
      in if b < 0 then Inl PanicNegativeCapacity
         else Inr \<lparr>sem_slots = make_chan (nat b), sem_acquired = Map.empty, sem_burst = b\<rparr>)"

definition acquired_by :: "semaphore \<Rightarrow> string \<Rightarrow> int" where
  "acquired_by l key = (case sem_acquired l key of None \<Rightarrow> 0 | Some n \<Rightarrow> n)"

definition take_slot :: "string \<Rightarrow> semaphore \<Rightarrow> semaphore option" where
  "take_slot key l =
     (case try_send () (sem_slots l) of
        Sent c \<Rightarrow> Some (l\<lparr>sem_slots := c, sem_acquired := (sem_acquired l)(key \<mapsto> acquired_by l key + 1)\<rparr>)
      | _ \<Rightarrow> None)"

definition acquire_slot ::
  "bool \<Rightarrow> bool \<Rightarrow> string \<Rightarrow> semaphore \<Rightarrow> (limiter_error + unit) option \<times> semaphore" where
  "acquire_slot cancelled ctx_first key l =
     (case take_slot key l of
        Some l' \<Rightarrow> if cancelled \<and> ctx_first then (Some (Inl ErrContext), l) else (Some (Inr ()), l')
      | None \<Rightarrow> (if cancelled then Some (Inl ErrContext) else None, l))"

definition release_slot :: "string \<Rightarrow> semaphore \<Rightarrow> semaphore" where
  "release_slot key l =
     (case try_receive (sem_slots l) of
        Received _ c \<Rightarrow>
          (let l1 = l\<lparr>sem_slots := c\<rparr>
           in case sem_acquired l key of
                Some n \<Rightarrow> if n > 0 then l1\<lparr>sem_acquired := (sem_acquired l)(key \<mapsto> n - 1)\<rparr> else l1
              | None \<Rightarrow> l1)
      | _ \<Rightarrow> l)"

definition allow_slot :: "bool \<Rightarrow> semaphore \<Rightarrow> (limiter_error + bool) \<times> semaphore" where
  "allow_slot cancelled l =
     (if cancelled then (Inl ErrContext, l)
      else (case take_slot ''default'' l of Some l' \<Rightarrow> (Inr True, l') | None \<Rightarrow> (Inr False, l)))"

definition reset_slots :: "semaphore \<Rightarrow> semaphore" where
  "reset_slots l = l\<lparr>sem_slots := (sem_slots l)\<lparr>ch_buf := []\<rparr>, sem_acquired := Map.empty\<rparr>"

definition available_slots :: "semaphore \<Rightarrow> int" where
  "available_slots l = int (ch_cap (sem_slots l)) - int (length (ch_buf (sem_slots l)))"

section \<open>Weighted semaphore\<close>

text \<open>
  \<open>Acquire\<close> gives nothing while it waits for a broadcast; woken it tests the context, and then the
  capacity again.
\<close>

record weighted_semaphore =
  ws_available :: int
  ws_used :: int
  ws_weighted :: "string \<rightharpoonup> int"
  ws_burst :: int

definition new_weighted :: "limiter_config option \<Rightarrow> weighted_semaphore" where
  "new_weighted cfg =
     (let b = (case cfg of None \<Rightarrow> 1 | Some c \<Rightarrow> lc_burst c)
      in \<lparr>ws_available = b, ws_used = 0, ws_weighted = Map.empty, ws_burst = b\<rparr>)"

definition weight_of :: "weighted_semaphore \<Rightarrow> string \<Rightarrow> int" where
  "weight_of l key = (case ws_weighted l key of None \<Rightarrow> 0 | Some n \<Rightarrow> n)"

definition grant_weight :: "string \<Rightarrow> int \<Rightarrow> weighted_semaphore \<Rightarrow> weighted_semaphore" where
  "grant_weight key w l =
     l\<lparr>ws_available := ws_available l - w, ws_used := ws_used l + w,
       ws_weighted := (ws_weighted l)(key \<mapsto> weight_of l key + w)\<rparr>"

definition acquire_weight ::
  "bool \<Rightarrow> bool \<Rightarrow> string \<Rightarrow> int \<Rightarrow> weighted_semaphore
    \<Rightarrow> (limiter_error + unit) option \<times> weighted_semaphore" where
  "acquire_weight woken cancelled key w l =
     (if w \<le> 0 then (Some (Inl ErrWeightNotPositive), l)
      else if woken \<and> cancelled then (Some (Inl ErrContext), l)
      else if ws_available l < w then (if cancelled then Some (Inl ErrContext) else None, l)
      else (Some (Inr ()), grant_weight key w l))"

definition release_weight :: "string \<Rightarrow> int \<Rightarrow> weighted_semaphore \<Rightarrow> weighted_semaphore" where
  "release_weight key w l =
     (case ws_weighted l key of
        None \<Rightarrow> l
      | Some n \<Rightarrow>
          if n \<ge> w
          then l\<lparr>ws_available := ws_available l + w, ws_used := ws_used l - w,
                 ws_weighted := (if n - w \<le> 0 then (ws_weighted l)(key := None)
                                 else (ws_weighted l)(key \<mapsto> n - w))\<rparr>
          else l)"

definition allow_weight :: "string \<Rightarrow> int \<Rightarrow> weighted_semaphore \<Rightarrow> bool \<times> weighted_semaphore" where
  "allow_weight key w l = (if ws_available l \<ge> w then (True, grant_weight key w l) else (False, l))"

definition reset_weights :: "weighted_semaphore \<Rightarrow> weighted_semaphore" where
  "reset_weights l = l\<lparr>ws_available := ws_burst l, ws_used := 0, ws_weighted := Map.empty\<rparr>"

section \<open>Factory\<close>

datatype limiter = LBucket token_bucket | LWindow sliding_window | LSemaphore semaphore

type_synonym limiter_creator = "limiter_config \<Rightarrow> time \<Rightarrow> limiter_error + limiter"
type_synonym limiter_factory = "string \<rightharpoonup> limiter_creator"

definition register_limiter :: "string \<Rightarrow> limiter_creator \<Rightarrow> limiter_factory \<Rightarrow> limiter_factory" where
  "register_limiter ty f fac = fac(ty \<mapsto> f)"

definition new_factory :: limiter_factory where
  "new_factory =
     register_limiter ''semaphore'' (\<lambda>c now. map_sum id LSemaphore (new_semaphore (Some c)))
       (register_limiter ''sliding_window'' (\<lambda>c now. Inr (LWindow (new_sliding_window (Some c))))
         (register_limiter ''token_bucket'' (\<lambda>c now. Inr (LBucket (new_token_bucket (Some c) now))) Map.empty))"

definition create_limiter ::
  "string \<Rightarrow> limiter_config option \<Rightarrow> time \<Rightarrow> limiter_factory \<Rightarrow> limiter_error + limiter" where
  "create_limiter ty cfg now fac =
     (case fac ty of
        None \<Rightarrow> Inl ErrUnsupported
      | Some f \<Rightarrow> f (case cfg of None \<Rightarrow> default_config | Some c \<Rightarrow> c) now)"

definition limiter_rate :: "limiter \<Rightarrow> rat" where
  "limiter_rate l =
     (case l of LBucket b \<Rightarrow> tb_rate b | LWindow w \<Rightarrow> of_int (sw_max w) | LSemaphore s \<Rightarrow> of_int (sem_burst s))"

end
