(* ===== verification/Rate_Limit_Props.thy ===== *)
theory Rate_Limit_Props
  imports Rate_Limit
begin

text \<open>
  What the limiters guarantee. The token bucket is a \<open>funded_system\<close>: requests are paid from the
  tokens, time is the income. The sliding window is compared with the exact count of the accepted
  requests. The weighted semaphore keeps its books, as long as weights are not negative.
\<close>

section \<open>The token bucket as a fund\<close>

datatype bucket_op =
    BAllow time
  | BTokens time
  | BSetRate rat
  | BSetBurst int
  | BReset time

fun exec_bucket :: "bucket_op \<Rightarrow> token_bucket \<Rightarrow> token_bucket" where
  "exec_bucket (BAllow t) l = snd (allow_bucket t l)"
| "exec_bucket (BTokens t) l = snd (available_tokens t l)"
| "exec_bucket (BSetRate r) l = set_rate r l"
| "exec_bucket (BSetBurst b) l = set_burst b l"
| "exec_bucket (BReset t) l = reset_bucket t l"

fun bucket_grants :: "bucket_op \<Rightarrow> token_bucket \<Rightarrow> rat" where
  "bucket_grants (BAllow t) l = (if fst (allow_bucket t l) then 1 else 0)"
| "bucket_grants _ l = 0"

text \<open>The clock does not go back, rates are at most \<open>r\<close> and bursts at most \<open>b\<close>.\<close>

fun bucket_op_ok :: "rat \<Rightarrow> int \<Rightarrow> bucket_op \<Rightarrow> token_bucket \<Rightarrow> bool" where
  "bucket_op_ok r b (BAllow t) l = (tb_last l \<le> t)"
| "bucket_op_ok r b (BTokens t) l = (tb_last l \<le> t)"
| "bucket_op_ok r b (BSetRate q) l = (0 \<le> q \<and> q \<le> r)"
| "bucket_op_ok r b (BSetBurst n) l = (0 \<le> n \<and> n \<le> b)"
| "bucket_op_ok r b (BReset t) l = (tb_last l \<le> t)"

definition bucket_inv :: "rat \<Rightarrow> int \<Rightarrow> token_bucket \<Rightarrow> bool" where
  "bucket_inv r b l \<longleftrightarrow> 0 \<le> tb_tokens l \<and> tb_tokens l \<le> tb_max l \<and> tb_max l \<le> of_int b
     \<and> 0 \<le> tb_rate l \<and> tb_rate l \<le> r"

definition seconds :: "duration \<Rightarrow> rat" where
  "seconds d = of_int d / of_int second"

text \<open>A step earns the rate for the time it passes, and a reset at most one full bucket.\<close>

fun bucket_income :: "rat \<Rightarrow> int \<Rightarrow> bucket_op \<Rightarrow> token_bucket \<Rightarrow> rat" where
  "bucket_income r b (BReset t) l = of_int b + r * seconds (t - tb_last l)"
| "bucket_income r b x l = r * seconds (tb_last (exec_bucket x l) - tb_last l)"

lemma seconds_mono: "0 \<le> d \<Longrightarrow> 0 \<le> seconds d"
  by (simp add: seconds_def second_def)

lemma refill_simps [simp]: "tb_max (refill t l) = tb_max l" "tb_rate (refill t l) = tb_rate l"
    "tb_last (refill t l) = t"
  by (simp_all add: refill_def Let_def)

lemma tokens_refill: "tb_tokens (refill t l) = min (tb_max l) (tb_tokens l + seconds (t - tb_last l) * tb_rate l)"
  by (simp add: refill_def Let_def seconds_def min_def)

lemma refill_earns:
  assumes "bucket_inv r b l" "tb_last l \<le> t"
  shows "bucket_inv r b (refill t l)" "tb_tokens (refill t l) \<le> tb_tokens l + r * seconds (t - tb_last l)"
proof -
  have s: "0 \<le> seconds (t - tb_last l)" using assms(2) by (intro seconds_mono) simp
  then have "seconds (t - tb_last l) * tb_rate l \<le> r * seconds (t - tb_last l)"
    using assms(1) by (simp add: bucket_inv_def mult.commute [of r] mult_left_mono)
  then show "tb_tokens (refill t l) \<le> tb_tokens l + r * seconds (t - tb_last l)"
    by (simp add: tokens_refill min_def)
  show "bucket_inv r b (refill t l)"
    using assms s by (auto simp: bucket_inv_def tokens_refill)
qed

lemma allow_bucket_cases:
  obtains "tb_tokens (refill t l) \<ge> 1" "allow_bucket t l = (True, (refill t l)\<lparr>tb_tokens := tb_tokens (refill t l) - 1\<rparr>)"
  | "tb_tokens (refill t l) < 1" "allow_bucket t l = (False, refill t l)"
  by (cases "tb_tokens (refill t l) \<ge> 1") (auto simp: allow_bucket_def Let_def)

lemma bucket_step:
  assumes "bucket_inv r b l" "bucket_op_ok r b x l"
  shows "bucket_inv r b (exec_bucket x l)
    \<and> bucket_grants x l + tb_tokens (exec_bucket x l) \<le> tb_tokens l + bucket_income r b x l"
proof (cases x)
  case (BAllow t)
  then have "bucket_inv r b (refill t l)"
    "tb_tokens (refill t l) \<le> tb_tokens l + r * seconds (t - tb_last l)"
    using refill_earns assms by simp_all
  then show ?thesis using BAllow
    by (cases rule: allow_bucket_cases [of t l]) (simp_all add: bucket_inv_def)
next
  case (BTokens t)
  then show ?thesis using refill_earns [OF assms(1), of t] assms(2)
    by (simp add: available_tokens_def Let_def)
next
  case (BReset t)
  then have "0 \<le> r * seconds (t - tb_last l)" using assms
    by (simp add: bucket_inv_def seconds_mono)
  then show ?thesis using BReset assms by (auto simp: reset_bucket_def bucket_inv_def)
qed (use assms in \<open>auto simp: set_rate_def set_burst_def bucket_inv_def seconds_def\<close>)

interpretation bucket: funded_system exec_bucket "bucket_op_ok r b" "bucket_inv r b" bucket_grants
    tb_tokens "bucket_income r b" for r b
  by unfold_locales (simp_all add: bucket_step, simp add: bucket_inv_def)

text \<open>The income of a run: the rate for the time it spans, and the resets.\<close>

definition resets :: "bucket_op list \<Rightarrow> nat" where
  "resets xs = length [x \<leftarrow> xs. case x of BReset _ \<Rightarrow> True | _ \<Rightarrow> False]"

lemma seconds_add: "seconds (c - a) = seconds (b - a) + seconds (c - b)"
  by (simp add: seconds_def diff_divide_distrib)

lemma income_total:
  "total exec_bucket (bucket_income r b) xs l
     = r * seconds (tb_last (fold exec_bucket xs l) - tb_last l) + of_nat (resets xs) * of_int b"
proof (induction xs arbitrary: l)
  case (Cons x xs)
  have "bucket_income r b x l = r * seconds (tb_last (exec_bucket x l) - tb_last l)
      + (of_nat (resets [x]) :: rat) * of_int b"
    by (cases x) (simp_all add: resets_def reset_bucket_def)
  moreover have "resets (x # xs) = resets [x] + resets xs" by (simp add: resets_def)
  ultimately show ?case
    using seconds_add [of "tb_last (fold exec_bucket (x # xs) l)" "tb_last l" "tb_last (exec_bucket x l)"]
    by (simp add: Cons.IH algebra_simps)
qed (simp add: resets_def seconds_def)

section \<open>Waiting for a token\<close>

definition can_earn :: "token_bucket \<Rightarrow> bool" where
  "can_earn l \<longleftrightarrow> 0 < tb_rate l \<and> 0 \<le> tb_tokens l"

text \<open>A refused attempt sleeps; the next one has missed less than a nanosecond's worth of tokens.\<close>

lemma wait_granted: "tb_tokens (refill now l) \<ge> 1 \<Longrightarrow> \<exists>l'. wait_bucket ws now l = (Some (Inr now), l')"
  by (simp add: wait_bucket.simps [of ws now l] allow_bucket_def Let_def)

lemma wait_refused:
  assumes "tb_tokens (refill now l) < 1" "0 < tb_rate l"
  shows "wait_bucket (Fires a # ws) now l
    = wait_bucket ws (now + bucket_pause (refill now l) + a) (refill now l)"
    "wait_bucket [] now l = (None, refill now l)"
  using assms by (simp_all add: wait_bucket.simps [of _ now l] allow_bucket_def Let_def)

lemma pause_deficit:
  fixes d r :: rat
  assumes "0 < d" "0 < r"
  shows "0 \<le> go_trunc (d / r * of_int second)"
    "d - r * of_int (go_trunc (d / r * of_int second)) / of_int second < r / of_int second"
proof -
  let ?x = "d / r * of_int second"
  have x: "0 \<le> ?x" using assms by (simp add: second_def)
  then show "0 \<le> go_trunc ?x" by (simp add: go_trunc_def)
  have "?x - 1 < of_int (go_trunc ?x)" using x by (simp add: go_trunc_def) linarith
  then have "r * (?x - 1) < r * of_int (go_trunc ?x)" using assms(2) by simp
  moreover have "r * ?x = d * of_int second" using assms(2) by simp
  ultimately have "(d * of_int second - r) / of_int second < r * of_int (go_trunc ?x) / of_int second"
    by (simp add: right_diff_distrib second_def)
  then show "d - r * of_int (go_trunc ?x) / of_int second < r / of_int second"
    by (simp add: diff_divide_distrib second_def)
qed

lemma short_deficit:
  assumes "can_earn l" "1 \<le> tb_max l" "tb_tokens l < 1" "0 \<le> a"
    "1 - tb_tokens l < tb_rate l / of_int second"
  shows "1 \<le> tb_tokens (refill (tb_last l + bucket_pause l + a) l)"
proof -
  let ?d = "1 - tb_tokens l" and ?r = "tb_rate l"
  have r: "0 < ?r" "0 < ?d" using assms by (simp_all add: can_earn_def)
  have "?d / ?r * of_int second < 1"
    using assms(5) r by (simp add: second_def field_simps)
  then have "go_trunc (?d / ?r * of_int second) \<le> 0"
    using r by (simp add: go_trunc_def second_def)
  then have p: "bucket_pause l = millisecond" by (simp add: bucket_pause_def Let_def)
  have "?d \<le> ?r * 1 / of_int second" using assms(5) by simp
  also have "\<dots> \<le> ?r * seconds (bucket_pause l + a)"
    using r assms(4) by (simp add: p seconds_def millisecond_def second_def divide_right_mono)
  finally show ?thesis using assms(2) by (simp add: tokens_refill algebra_simps)
qed

lemma pause_earns:
  assumes "can_earn l" "1 \<le> tb_max l" "tb_tokens l < 1" "0 \<le> a"
  shows "1 - tb_tokens (refill (tb_last l + bucket_pause l + a) l) < tb_rate l / of_int second"
proof -
  let ?d = "1 - tb_tokens l" and ?r = "tb_rate l"
  let ?w = "go_trunc (?d / ?r * of_int second)"
  have r: "0 < ?r" "0 < ?d" using assms by (simp_all add: can_earn_def)
  have "?w \<le> bucket_pause l + a"
    using assms(4) by (simp add: bucket_pause_def Let_def millisecond_def)
  then have "?r * (of_int ?w / of_int second) \<le> ?r * seconds (bucket_pause l + a)"
    unfolding seconds_def using r by (intro mult_left_mono divide_right_mono) (simp_all add: second_def)
  then have "?d - ?r * seconds (bucket_pause l + a) < ?r / of_int second"
    using pause_deficit [OF r(2,1)] by simp
  moreover have "0 < ?r / of_int second" using r by (simp add: second_def)
  ultimately show ?thesis using assms(2) by (simp add: tokens_refill min_def algebra_simps)
qed

lemma can_earn_refill: "can_earn l \<Longrightarrow> tb_last l \<le> t \<Longrightarrow> 0 \<le> tb_max l \<Longrightarrow> can_earn (refill t l)"
  using seconds_mono [of "t - tb_last l"] by (simp add: can_earn_def tokens_refill)

lemma bucket_pause_pos: "0 < bucket_pause l"
  by (simp add: bucket_pause_def Let_def millisecond_def)

text \<open>C20: The rate is enforced. Over any sequence of calls on one token bucket, rate and burst
  changes and resets included, the number of requests let through is at most one full bucket (and one
  more per reset) plus the largest rate times the time the calls span.\<close>

theorem bucket_rate_enforced:
  assumes "bucket_inv r b l" "along exec_bucket (bucket_op_ok r b) xs l"
    and "l' = fold exec_bucket xs l"
  shows "total exec_bucket bucket_grants xs l
    \<le> of_int b * of_nat (1 + resets xs) + r * seconds (tb_last l' - tb_last l)"
proof -
  have "tb_tokens l \<le> of_int b" using assms(1) by (simp add: bucket_inv_def)
  with bucket.granted_within [OF assms(1,2)] show ?thesis
    by (simp add: income_total assms(3) algebra_simps)
qed

definition sample_bucket :: token_bucket where
  "sample_bucket = new_token_bucket (Some (default_config\<lparr>lc_burst := 2\<rparr>)) 0"

lemma bucket_rate_enforced_witness:
  "total exec_bucket bucket_grants
     [BAllow 0, BAllow 0, BAllow 0, BAllow 100000000, BAllow 150000000] sample_bucket = 3
   \<and> total exec_bucket bucket_grants
     [BAllow 0, BAllow 0, BAllow 0, BAllow 100000000, BAllow 150000000] sample_bucket
       \<le> of_int 2 * of_nat 1 + 10 * seconds 150000000"
proof -
  let ?xs = "[BAllow 0, BAllow 0, BAllow 0, BAllow 100000000, BAllow 150000000]"
  have h: "bucket_inv 10 2 sample_bucket" "along exec_bucket (bucket_op_ok 10 2) ?xs sample_bucket" by code_simp+
  have "tb_last (fold exec_bucket ?xs sample_bucket) = 150000000" "tb_last sample_bucket = 0"
    "resets ?xs = 0" by code_simp+
  then have "total exec_bucket bucket_grants ?xs sample_bucket \<le> of_int 2 * of_nat 1 + 10 * seconds 150000000"
    using bucket_rate_enforced [OF h refl] by simp
  moreover have "total exec_bucket bucket_grants ?xs sample_bucket = 3" by code_simp
  ultimately show ?thesis by simp
qed

lemma wait_starves:
  assumes "0 < tb_rate l" "tb_max l < 1"
  shows "fst (wait_bucket (map Fires ds) now l) = None"
  using assms
proof (induction ds arbitrary: now l)
  case Nil
  then have "tb_tokens (refill now l) < 1" by (simp add: tokens_refill)
  with Nil show ?case by (simp add: wait_refused)
next
  case (Cons d ds)
  then have "tb_tokens (refill now l) < 1" by (simp add: tokens_refill)
  with Cons show ?case by (simp add: wait_refused)
qed

lemma wait_two_sleeps:
  assumes "can_earn l" "1 \<le> tb_max l" "tb_last l \<le> now" "0 \<le> a" "0 \<le> b"
  shows "\<exists>t l'. wait_bucket [Fires a, Fires b] now l = (Some (Inr t), l')"
proof (cases "tb_tokens (refill now l) \<ge> 1")
  case False
  define l1 where "l1 = refill now l"
  define t1 where "t1 = tb_last l1 + bucket_pause l1 + a"
  have l1: "can_earn l1" "1 \<le> tb_max l1" "tb_tokens l1 < 1" "tb_last l1 = now" "0 < tb_rate l"
    using assms False can_earn_refill [of l now] by (simp_all add: l1_def can_earn_def)
  have w1: "wait_bucket [Fires a, Fires b] now l = wait_bucket [Fires b] t1 l1"
    using l1 wait_refused(1) [of now l a "[Fires b]"] by (simp add: t1_def l1_def)
  show ?thesis
  proof (cases "tb_tokens (refill t1 l1) \<ge> 1")
    case False
    define l2 where "l2 = refill t1 l1"
    have "tb_last l1 \<le> t1" using assms(4) bucket_pause_pos [of l1] by (simp add: t1_def)
    then have l2: "can_earn l2" "1 \<le> tb_max l2" "tb_tokens l2 < 1" "tb_last l2 = t1"
      using l1 False can_earn_refill [of l1 t1] by (simp_all add: l2_def)
    have "1 - tb_tokens l2 < tb_rate l2 / of_int second"
      using pause_earns [OF l1(1-3) assms(4)] by (simp add: l2_def t1_def)
    from short_deficit [OF l2(1-3) assms(5) this]
    have "\<exists>l'. wait_bucket [] (t1 + bucket_pause l2 + b) l2 = (Some (Inr (t1 + bucket_pause l2 + b)), l')"
      using l2(4) by (intro wait_granted) simp
    moreover have "0 < tb_rate l1" using l1(1) by (simp add: can_earn_def)
    then have "wait_bucket [Fires b] t1 l1 = wait_bucket [] (t1 + bucket_pause l2 + b) l2"
      using l2(3) wait_refused(1) [of t1 l1 b "[]"] by (simp add: l2_def)
    ultimately show ?thesis using w1 by auto
  qed (use wait_granted w1 in fastforce)
qed (use wait_granted in fastforce)

text \<open>C21: Waiting for a token ends. A \<open>Wait\<close> that nobody competes with returns after at most two
  sleeps, however late their timers fire, if the bucket holds at least one token; a bucket of less
  than one token lets nobody through, and \<open>Wait\<close> sleeps for ever.\<close>

theorem wait_for_token:
  assumes "can_earn l" "tb_last l \<le> now" "0 \<le> a" "0 \<le> b"
  shows "if 1 \<le> tb_max l
    then \<exists>t l'. wait_bucket [Fires a, Fires b] now l = (Some (Inr t), l')
    else fst (wait_bucket (map Fires ds) now l) = None"
  using assms wait_two_sleeps wait_starves [of l ds now] by (simp add: can_earn_def)

lemma wait_for_token_witness:
  "(\<exists>t l'. wait_bucket [Fires 5, Fires 0] 30000000
      (snd (allow_bucket 20000000 (snd (allow_bucket 10000000 sample_bucket)))) = (Some (Inr t), l'))
   \<and> fst (wait_bucket (map Fires [7, 8, 9]) 0 (set_burst 0 sample_bucket)) = None"
proof -
  let ?l = "snd (allow_bucket 20000000 (snd (allow_bucket 10000000 sample_bucket)))"
  have l: "can_earn ?l" "tb_last ?l \<le> 30000000" "1 \<le> tb_max ?l" by code_simp+
  have e: "can_earn (set_burst 0 sample_bucket)" "tb_last (set_burst 0 sample_bucket) \<le> 0"
    "\<not> 1 \<le> tb_max (set_burst 0 sample_bucket)" by code_simp+
  show ?thesis
    using wait_for_token [OF l(1,2), of 5 0] l(3)
      wait_for_token [OF e(1,2), where ds = "[7, 8, 9]" and a = 0 and b = 0] e(3) by simp
qed

text \<open>
  \<open>SetRate\<close> does not refill first: the time since the last check is paid at the new rate. Ten idle
  seconds at one token a second become a thousand tokens.
\<close>

lemma new_rate_applies_backwards:
  "let l = \<lparr>tb_tokens = 0, tb_max = 1000, tb_rate = 1, tb_last = 0\<rparr>; now = 10 * second
   in fst (available_tokens now l) = 10 \<and> fst (available_tokens now (set_rate 100 l)) = 1000"
  by code_simp

section \<open>The sliding window counts exactly\<close>

datatype window_op =
    WAllow time
  | WCount time
  | WRemaining time
  | WResetAt time
  | WReset

fun exec_window :: "window_op \<Rightarrow> sliding_window \<Rightarrow> sliding_window" where
  "exec_window (WAllow t) l = snd (allow_window t l)"
| "exec_window (WCount t) l = snd (current_count t l)"
| "exec_window (WRemaining t) l = snd (remaining_requests t l)"
| "exec_window (WResetAt t) l = reset_at t l"
| "exec_window WReset l = reset_window l"

text \<open>The times of the requests that were let through.\<close>

fun accepted :: "window_op list \<Rightarrow> sliding_window \<Rightarrow> time list" where
  "accepted [] l = []"
| "accepted (x # xs) l =
     (case x of WAllow t \<Rightarrow> if fst (allow_window t l) then [t] else [] | _ \<Rightarrow> [])
       @ accepted xs (exec_window x l)"

text \<open>The clock does not go back, and nobody forgets requests that are still in the window.\<close>

fun window_times_ok :: "time \<Rightarrow> window_op list \<Rightarrow> bool" where
  "window_times_ok now [] = True"
| "window_times_ok now (WAllow t # xs) = (now \<le> t \<and> window_times_ok t xs)"
| "window_times_ok now (WCount t # xs) = (now \<le> t \<and> window_times_ok t xs)"
| "window_times_ok now (WRemaining t # xs) = (now \<le> t \<and> window_times_ok t xs)"
| "window_times_ok now (WResetAt t # xs) = (t \<le> now \<and> window_times_ok now xs)"
| "window_times_ok now (WReset # xs) = False"

definition in_window :: "sliding_window \<Rightarrow> time \<Rightarrow> time list \<Rightarrow> int" where
  "in_window l u g = int (length [x \<leftarrow> g. u - sw_size l < x \<and> x \<le> u])"

text \<open>What has left the window for good, and what the limiter still holds.\<close>

definition window_inv :: "time \<Rightarrow> time list \<Rightarrow> sliding_window \<Rightarrow> bool" where
  "window_inv now g l \<longleftrightarrow>
     (\<exists>old. g = old @ sw_requests l \<and> (\<forall>x \<in> set old. x \<le> now - sw_size l))
     \<and> sorted g \<and> (\<forall>x \<in> set g. x \<le> now) \<and> (\<forall>u. in_window l u g \<le> max 0 (sw_max l))"

lemma sorted_dropWhile: "sorted ts \<Longrightarrow> dropWhile (\<lambda>x. \<not> c < x) ts = [x \<leftarrow> ts. c < x]" for ts :: "int list"
  by (induction ts) (auto intro!: filter_True [symmetric] simp: Ball_def)

lemma cleanup_reset_at: "reset_at t l = cleanup t l"
  by (simp add: reset_at_def cleanup_def)

lemma cleanup_simps [simp]: "sw_size (cleanup t l) = sw_size l" "sw_max (cleanup t l) = sw_max l"
  by (simp_all add: cleanup_def)

lemma window_inv_cleanup:
  assumes "window_inv now g l" "t \<le> now'" "now \<le> now'"
  shows "window_inv now' g (cleanup t l)"
proof -
  obtain old where old: "g = old @ sw_requests l" "\<And>x. x \<in> set old \<Longrightarrow> x \<le> now - sw_size l"
    using assms(1) by (auto simp: window_inv_def)
  let ?gone = "takeWhile (\<lambda>x. \<not> t - sw_size l < x) (sw_requests l)"
  have "x \<le> now' - sw_size l" if "x \<in> set (old @ ?gone)" for x
    using that old(2) [of x] assms(2,3) by (auto dest: set_takeWhileD)
  moreover have "g = (old @ ?gone) @ sw_requests (cleanup t l)"
    using old(1) by (simp add: cleanup_def)
  ultimately have "\<exists>old. g = old @ sw_requests (cleanup t l) \<and> (\<forall>x \<in> set old. x \<le> now' - sw_size l)"
    by blast
  moreover have "x \<le> now'" if "x \<in> set g" for x
    using that assms(1,3) by (force simp: window_inv_def)
  ultimately show ?thesis using assms(1) by (simp add: window_inv_def in_window_def)
qed

text \<open>After the clean-up at the present the limiter holds exactly what is in the window.\<close>

lemma cleaned_requests:
  assumes "window_inv now g l" "now \<le> t" "t \<le> u"
  shows "[x \<leftarrow> sw_requests (cleanup t l). u - sw_size l < x] = [x \<leftarrow> g. u - sw_size l < x \<and> x \<le> u]"
    "sw_requests (cleanup t l) = [x \<leftarrow> g. t - sw_size l < x]"
proof -
  obtain old where old: "g = old @ sw_requests l" "\<And>x. x \<in> set old \<Longrightarrow> x \<le> now - sw_size l"
    using assms(1) by (auto simp: window_inv_def)
  have g: "sorted g" "\<And>x. x \<in> set g \<Longrightarrow> x \<le> now" using assms(1) by (auto simp: window_inv_def)
  have "[x \<leftarrow> old. t - sw_size l < x] = []" using old(2) assms(2) by (fastforce simp: filter_empty_conv)
  then show req: "sw_requests (cleanup t l) = [x \<leftarrow> g. t - sw_size l < x]"
    using g(1) old(1) by (simp add: cleanup_def sorted_dropWhile sorted_append)
  have "[x \<leftarrow> g. u - sw_size l < x \<and> x \<le> u] = [x \<leftarrow> g. t - sw_size l < x \<and> u - sw_size l < x]"
    using g(2) assms(2,3) by (intro filter_cong refl) force
  then show "[x \<leftarrow> sw_requests (cleanup t l). u - sw_size l < x] = [x \<leftarrow> g. u - sw_size l < x \<and> x \<le> u]"
    by (simp add: req conj_commute)
qed

lemma allow_window_exact:
  assumes "window_inv now g l" "now \<le> t"
  shows "fst (allow_window t l) \<longleftrightarrow> int (length [x \<leftarrow> g. t - sw_size l < x]) < sw_max l"
  using cleaned_requests(2) [OF assms order_refl] by (simp add: allow_window_def Let_def)

lemma window_inv_allow:
  assumes "window_inv now g l" "now \<le> t"
  shows "window_inv t (g @ (if fst (allow_window t l) then [t] else [])) (snd (allow_window t l))"
proof (cases "fst (allow_window t l)")
  case False
  then show ?thesis using window_inv_cleanup [OF assms(1) order_refl assms(2)]
    by (simp add: allow_window_def Let_def split: if_splits)
next
  case True
  let ?l = "cleanup t l"
  have inv: "window_inv t g ?l" by (rule window_inv_cleanup [OF assms(1) order_refl assms(2)])
  have room: "int (length (sw_requests ?l)) < sw_max l"
    using True by (simp add: allow_window_def Let_def split: if_splits)
  have "in_window l u (g @ [t]) \<le> max 0 (sw_max l)" for u
  proof (cases "t \<le> u")
    case True
    have "in_window l u g \<le> int (length (sw_requests ?l))"
      by (simp add: in_window_def flip: cleaned_requests(1) [OF assms True])
    then show ?thesis using room by (auto simp: in_window_def)
  next
    case False
    then show ?thesis using assms(1) by (simp add: in_window_def window_inv_def)
  qed
  moreover have "\<forall>x \<in> set g. x \<le> t" using inv by (simp add: window_inv_def)
  ultimately show ?thesis using inv True room
    by (auto simp: window_inv_def allow_window_def Let_def in_window_def sorted_append)
qed

lemma exec_window_fields [simp]: "sw_size (exec_window x l) = sw_size l" "sw_max (exec_window x l) = sw_max l"
  by (cases x; simp add: allow_window_def current_count_def remaining_requests_def reset_at_def
      reset_window_def Let_def)+

lemma fold_window_fields [simp]: "sw_size (fold exec_window xs l) = sw_size l"
    "sw_max (fold exec_window xs l) = sw_max l"
  by (induction xs arbitrary: l) simp_all

lemma window_run:
  assumes "window_inv now g l" "window_times_ok now (xs @ ys)"
  shows "\<exists>now'. window_inv now' (g @ accepted xs l) (fold exec_window xs l) \<and> window_times_ok now' ys"
  using assms
proof (induction xs arbitrary: now g l)
  case (Cons x xs)
  have "\<exists>now1. window_inv now1 (g @ accepted [x] l) (exec_window x l) \<and> window_times_ok now1 (xs @ ys)"
  proof (cases x)
    case (WAllow t)
    then show ?thesis using window_inv_allow [OF Cons.prems(1), of t] Cons.prems(2) by auto
  next
    case (WCount t)
    then show ?thesis using window_inv_cleanup [OF Cons.prems(1) order_refl, of t] Cons.prems(2)
      by (auto simp: current_count_def Let_def)
  next
    case (WRemaining t)
    then show ?thesis using window_inv_cleanup [OF Cons.prems(1) order_refl, of t] Cons.prems(2)
      by (auto simp: remaining_requests_def Let_def)
  next
    case (WResetAt t)
    then show ?thesis using window_inv_cleanup [OF Cons.prems(1), of t now] Cons.prems(2)
      by (auto simp: cleanup_reset_at)
  qed (use Cons.prems(2) in simp)
  then obtain now1 where "window_inv now1 (g @ accepted [x] l) (exec_window x l)"
    "window_times_ok now1 (xs @ ys)" by blast
  from Cons.IH [OF this] show ?case by simp
qed auto

text \<open>The sliding window is exact. From an empty window, over any calls with a clock that does not
  go back, a request is let through exactly when fewer than the maximum were let through within the
  last window, and no interval of the length of a window ever contains more than the maximum.\<close>

theorem sliding_window_exact:
  assumes "sw_requests l = []" "window_times_ok now (xs @ [WAllow t])"
    and "g = accepted xs l"
  shows "(fst (allow_window t (fold exec_window xs l))
        \<longleftrightarrow> int (length [x \<leftarrow> g. t - sw_size l < x]) < sw_max l)
    \<and> (\<forall>u. in_window l u g \<le> max 0 (sw_max l))"
proof -
  have "window_inv now [] l" using assms(1) by (simp add: window_inv_def in_window_def)
  from window_run [OF this assms(2)] obtain now' where
    "window_inv now' g (fold exec_window xs l)" "now' \<le> t" using assms(3) by auto
  with allow_window_exact [OF this] show ?thesis by (simp add: window_inv_def in_window_def)
qed

definition sample_window :: sliding_window where
  "sample_window = new_sliding_window (Some (default_config\<lparr>lc_rate := 3 / 2\<rparr>))"

lemma sliding_window_exact_witness:
  "accepted [WAllow 0, WAllow 400000000, WAllow 900000000, WAllow 1000000000] sample_window
     = [0, 400000000, 1000000000]
   \<and> fst (allow_window 1300000000 (fold exec_window
       [WAllow 0, WAllow 400000000, WAllow 900000000, WAllow 1000000000] sample_window)) = False"
proof -
  let ?xs = "[WAllow 0, WAllow 400000000, WAllow 900000000, WAllow 1000000000]"
  have g: "[0, 400000000, 1000000000] = accepted ?xs sample_window" by code_simp
  have h: "sw_requests sample_window = []" "window_times_ok 0 (?xs @ [WAllow 1300000000])" by code_simp+
  have w: "sw_size sample_window = 1000000000" "sw_max sample_window = 2" by code_simp+
  have "fst (allow_window 1300000000 (fold exec_window ?xs sample_window))
      \<longleftrightarrow> int (length [x \<leftarrow> [0, 400000000, 1000000000]. 1300000000 - sw_size sample_window < x]) < sw_max sample_window"
    using sliding_window_exact [OF h g] by (rule conjunct1)
  then show ?thesis by (simp add: w g [symmetric] del: accepted.simps)
qed

section \<open>Semaphores\<close>

datatype weight_op = WtAcquire bool bool string int | WtAllow string int | WtRelease string int | WtReset

fun exec_weight :: "weight_op \<Rightarrow> weighted_semaphore \<Rightarrow> weighted_semaphore" where
  "exec_weight (WtAcquire b c k w) l = snd (acquire_weight b c k w l)"
| "exec_weight (WtAllow k w) l = snd (allow_weight k w l)"
| "exec_weight (WtRelease k w) l = release_weight k w l"
| "exec_weight WtReset l = reset_weights l"

text \<open>\<open>Acquire\<close> refuses a weight that is not positive by itself; the other calls take any weight.\<close>

fun weight_ok :: "weight_op \<Rightarrow> bool" where
  "weight_ok (WtAllow k w) = (0 \<le> w)"
| "weight_ok (WtRelease k w) = (0 \<le> w)"
| "weight_ok _ = True"

definition weights_inv :: "weighted_semaphore \<Rightarrow> bool" where
  "weights_inv l \<longleftrightarrow> 0 \<le> ws_available l \<and> ws_available l + ws_used l = ws_burst l
     \<and> finite (dom (ws_weighted l)) \<and> (\<forall>k. 0 \<le> weight_of l k)
     \<and> (\<Sum>k \<in> dom (ws_weighted l). weight_of l k) = ws_used l"

lemma weight_of_update:
  "weight_of (l\<lparr>ws_available := a, ws_used := u, ws_weighted := m\<rparr>) k = (case m k of None \<Rightarrow> 0 | Some n \<Rightarrow> n)"
  by (simp add: weight_of_def)

text \<open>A key out of the map weighs nothing, so the sum may range over any larger set.\<close>

lemma weight_sum_insert:
  assumes "finite (dom (ws_weighted l))"
  shows "(\<Sum>j \<in> insert k (dom (ws_weighted l)). weight_of l j) = (\<Sum>j \<in> dom (ws_weighted l). weight_of l j)"
proof (cases "k \<in> dom (ws_weighted l)")
  case False
  then have "weight_of l k = 0" by (auto simp: weight_of_def domIff)
  with False assms show ?thesis by simp
qed (simp add: insert_absorb)

lemma weight_sum_change:
  assumes "finite (dom (ws_weighted l))"
  shows "(\<Sum>j \<in> insert k (dom (ws_weighted l)). if j = k then n else weight_of l j)
    = (\<Sum>j \<in> dom (ws_weighted l). weight_of l j) - weight_of l k + n"
proof -
  let ?D = "insert k (dom (ws_weighted l))"
  have "(\<Sum>j \<in> ?D. if j = k then n else weight_of l j)
      = n + (\<Sum>j \<in> ?D - {k}. if j = k then n else weight_of l j)"
    using assms sum.remove [of ?D k "\<lambda>j. if j = k then n else weight_of l j"] by simp
  also have "(\<Sum>j \<in> ?D - {k}. if j = k then n else weight_of l j) = (\<Sum>j \<in> ?D - {k}. weight_of l j)"
    by (rule sum.cong) auto
  also have "\<dots> = (\<Sum>j \<in> ?D. weight_of l j) - weight_of l k"
    using assms sum.remove [of ?D k "weight_of l"] by simp
  finally show ?thesis using weight_sum_insert [OF assms] by simp
qed

lemma weights_inv_grant:
  assumes "weights_inv l" "0 \<le> w" "w \<le> ws_available l"
  shows "weights_inv (grant_weight k w l)"
proof -
  let ?l = "grant_weight k w l"
  have w: "weight_of ?l j = (if j = k then weight_of l k + w else weight_of l j)" for j
    by (simp add: grant_weight_def weight_of_def)
  have fin: "finite (dom (ws_weighted l))" using assms(1) by (simp add: weights_inv_def)
  have "(\<Sum>j \<in> dom (ws_weighted ?l). weight_of ?l j)
      = (\<Sum>j \<in> insert k (dom (ws_weighted l)). if j = k then weight_of l k + w else weight_of l j)"
    by (simp add: grant_weight_def w [unfolded grant_weight_def])
  also have "\<dots> = ws_used l + w"
    using weight_sum_change [OF fin, of k "weight_of l k + w"] assms(1) by (simp add: weights_inv_def)
  finally have "(\<Sum>j \<in> dom (ws_weighted ?l). weight_of ?l j) = ws_used ?l" by (simp add: grant_weight_def)
  moreover have "\<forall>j. 0 \<le> weight_of ?l j" using assms(1,2) by (simp add: w weights_inv_def)
  ultimately show ?thesis using assms
    by (simp add: weights_inv_def) (simp add: grant_weight_def)
qed

lemma weights_inv_release:
  assumes "weights_inv l" "0 \<le> w"
  shows "weights_inv (release_weight k w l)"
proof (cases "\<exists>n. ws_weighted l k = Some n \<and> n \<ge> w")
  case True
  then obtain n where n: "ws_weighted l k = Some n" "n \<ge> w" by blast
  let ?l = "release_weight k w l"
  have w: "weight_of ?l j = (if j = k then n - w else weight_of l j)" for j
    using n by (simp add: release_weight_def weight_of_def)
  have fin: "finite (dom (ws_weighted l))" using assms(1) by (simp add: weights_inv_def)
  have k: "weight_of l k = n" "insert k (dom (ws_weighted l)) = dom (ws_weighted l)"
    using n by (auto simp: weight_of_def)
  have "(\<Sum>j \<in> dom (ws_weighted ?l). weight_of ?l j) = (\<Sum>j \<in> dom (ws_weighted l). weight_of ?l j)"
    using fin n by (intro sum.mono_neutral_left)
      (auto simp: release_weight_def weight_of_def split: if_splits)
  also have "\<dots> = ws_used l - w"
    using weight_sum_change [OF fin, of k "n - w"] assms(1) k by (simp add: w weights_inv_def)
  finally have "(\<Sum>j \<in> dom (ws_weighted ?l). weight_of ?l j) = ws_used ?l"
    using n by (simp add: release_weight_def)
  moreover have "\<forall>j. 0 \<le> weight_of ?l j" using assms(1) n by (simp add: w weights_inv_def)
  ultimately show ?thesis using assms n
    by (simp add: weights_inv_def) (simp add: release_weight_def)
next
  case False
  then have "release_weight k w l = l" by (auto simp: release_weight_def split: option.splits)
  with assms show ?thesis by simp
qed

lemma weights_inv_reset: "0 \<le> ws_burst l \<Longrightarrow> weights_inv (reset_weights l)"
  by (simp add: weights_inv_def reset_weights_def weight_of_def)

lemma weights_burst: "weights_inv l \<Longrightarrow> 0 \<le> ws_burst l"
proof -
  assume "weights_inv l"
  moreover have "0 \<le> ws_used l" if "weights_inv l"
    using that sum_nonneg [of "dom (ws_weighted l)" "weight_of l"] by (simp add: weights_inv_def)
  ultimately show ?thesis by (simp add: weights_inv_def)
qed

interpretation weights: invariant_system exec_weight weight_ok weights_inv
proof
  show "weights_inv (exec_weight x l)" if "weights_inv l" "weight_ok x" for l x
    using that
    by (cases x) (auto simp: acquire_weight_def allow_weight_def weights_inv_grant weights_inv_release
        weights_burst weights_inv_reset)
qed

lemma exec_weight_burst [simp]: "ws_burst (fold exec_weight xs l) = ws_burst l"
proof (induction xs arbitrary: l)
  case (Cons x xs)
  have "ws_burst (exec_weight x l) = ws_burst l"
    by (cases x) (auto simp: acquire_weight_def allow_weight_def grant_weight_def release_weight_def
        reset_weights_def split: option.splits)
  with Cons show ?case by simp
qed simp

text \<open>C22: The weighted semaphore keeps its books. Over any sequence of calls whose weights are not
  negative the capacity is never exceeded: what is available is never negative, it and what is in use
  add up to the burst, and what is in use is the sum of the weights recorded for the keys.\<close>

theorem weights_balanced:
  assumes "0 \<le> (case cfg of None \<Rightarrow> 1 | Some c \<Rightarrow> lc_burst c)" "list_all weight_ok xs"
    and "l = fold exec_weight xs (new_weighted cfg)"
  shows "0 \<le> ws_available l
    \<and> ws_available l + ws_used l = (case cfg of None \<Rightarrow> 1 | Some c \<Rightarrow> lc_burst c)
    \<and> (\<Sum>k \<in> dom (ws_weighted l). weight_of l k) = ws_used l"
proof -
  have "new_weighted cfg = reset_weights (new_weighted cfg)"
    by (simp add: new_weighted_def reset_weights_def Let_def)
  then have "weights_inv (new_weighted cfg)"
    using weights_inv_reset [of "new_weighted cfg"] assms(1) by (simp add: new_weighted_def Let_def)
  from weights.run_inv [OF this assms(2)] have "weights_inv l" using assms(3) by simp
  moreover have "ws_burst l = (case cfg of None \<Rightarrow> 1 | Some c \<Rightarrow> lc_burst c)"
    using assms(3) by (simp add: new_weighted_def Let_def)
  ultimately show ?thesis by (simp add: weights_inv_def)
qed

lemma weights_balanced_witness:
  "ws_available (fold exec_weight [WtAcquire False False ''a'' 3, WtAllow ''b'' 4, WtAllow ''c'' 20, WtRelease ''a'' 2]
      (new_weighted (Some default_config))) = 15
   \<and> ws_used (fold exec_weight [WtAcquire False False ''a'' 3, WtAllow ''b'' 4, WtAllow ''c'' 20, WtRelease ''a'' 2]
      (new_weighted (Some default_config))) = 5"
proof -
  let ?xs = "[WtAcquire False False ''a'' 3, WtAllow ''b'' 4, WtAllow ''c'' 20, WtRelease ''a'' 2]"
  have h: "0 \<le> (case Some default_config of None \<Rightarrow> 1 | Some c \<Rightarrow> lc_burst c)" "list_all weight_ok ?xs"
    by code_simp+
  have "ws_available (fold exec_weight ?xs (new_weighted (Some default_config))) = 15" by code_simp
  moreover from this have "ws_used (fold exec_weight ?xs (new_weighted (Some default_config))) = 5"
    using weights_balanced [OF h refl] by (simp add: default_config_def del: fold_simps)
  ultimately show ?thesis by simp
qed

text \<open>\<open>Allow\<close> does not look at the sign of a weight: a negative one makes capacity from nothing.\<close>

lemma negative_weight_mints:
  "let l = snd (allow_weight ''a'' (- 5) (new_weighted (Some (default_config\<lparr>lc_burst := 2\<rparr>))))
   in ws_available l = 7 \<and> fst (allow_weight ''b'' 7 l)"
  by code_simp

text \<open>\<open>Release\<close> of the plain semaphore frees the slot of whoever holds one.\<close>

datatype slot_op = SlAcquire bool bool string | SlAllow | SlRelease string | SlReset

fun exec_slot :: "slot_op \<Rightarrow> semaphore \<Rightarrow> semaphore" where
  "exec_slot (SlAcquire c b k) l = snd (acquire_slot c b k l)"
| "exec_slot SlAllow l = snd (allow_slot False l)"
| "exec_slot (SlRelease k) l = release_slot k l"
| "exec_slot SlReset l = reset_slots l"

definition slots_inv :: "semaphore \<Rightarrow> bool" where
  "slots_inv l \<longleftrightarrow> chan_ok (ch_cap (sem_slots l)) (sem_slots l) \<and> (\<forall>k. 0 \<le> acquired_by l k)"

interpretation slots: invariant_system exec_slot "\<lambda>_. True" slots_inv
proof
  show "slots_inv (exec_slot x l)" if "slots_inv l" for l x
    using that
    by (cases x) (auto simp: slots_inv_def chan_ok_def acquire_slot_def allow_slot_def take_slot_def
        release_slot_def reset_slots_def Let_def try_send_def try_receive_def acquired_by_def
        split: option.splits sending.splits receiving.splits list.splits if_splits)
qed

lemma foreign_release_frees:
  "case new_semaphore (Some (default_config\<lparr>lc_burst := 1\<rparr>)) of
     Inl e \<Rightarrow> False
   | Inr l \<Rightarrow> (let l2 = fold exec_slot [SlAcquire False False ''a'', SlRelease ''b'', SlAcquire False False ''b''] l
               in acquired_by l2 ''a'' = 1 \<and> acquired_by l2 ''b'' = 1 \<and> available_slots l2 = 0)"
  by code_simp

end
