(* ===== verification/Ahp_Queue.thy ===== *)
theory Ahp_Queue
  imports Interfaces Go_Channel
begin

text \<open>
  The message queues of the agent protocol, \<open>queue.go\<close> of \<open>internal/ares_protocol/ahp\<close>: a bounded
  channel with a backup buffer in front of it, and the registry of the queues of all agents.
\<close>

section \<open>One queue\<close>

datatype queue_error =
  ErrQueueClosed | ErrQueueFull | ErrQueueEmpty | ErrContextCanceled | ErrContextDeadline | PanicSendOnClosed

record queue_options =
  qo_max :: int
  qo_workers :: int
  qo_timeout :: duration

definition default_queue_options :: queue_options where
  "default_queue_options = \<lparr>qo_max = 1000, qo_workers = 10, qo_timeout = 30000000000\<rparr>"

record 'm msg_queue =
  mq_messages :: "'m chan"
  mq_agent :: string
  mq_opts :: queue_options
  mq_backup :: "'m list"
  mq_closed :: bool

definition new_queue :: "string \<Rightarrow> queue_options option \<Rightarrow> 'm msg_queue" where
  "new_queue aid opts =
     (let o1 = (case opts of None \<Rightarrow> default_queue_options | Some x \<Rightarrow> x)
      in \<lparr>mq_messages = make_chan (nat (qo_max o1)), mq_agent = aid, mq_opts = o1,
          mq_backup = [], mq_closed = False\<rparr>)"

text \<open>
  A send that panics, because \<open>Close\<close> ran after the test of the flag, is recovered and reported as
  a closed queue.
\<close>

definition enqueue :: "'m \<Rightarrow> 'm msg_queue \<Rightarrow> (queue_error, unit, 'm msg_queue) outcome" where
  "enqueue msg q =
     (if mq_closed q then (Inl ErrQueueClosed, q)
      else (case try_send msg (mq_messages q) of
              Sent c \<Rightarrow> (Inr (), q\<lparr>mq_messages := c\<rparr>)
            | WouldBlock \<Rightarrow> (Inl ErrQueueFull, q)
            | SendPanics \<Rightarrow> (Inl ErrQueueClosed, q)))"

text \<open>
  A receive that waits either for a message or for another event (the context or a timer): \<open>over\<close> is
  the error of that event once it has happened, \<open>first\<close> says that \<open>select\<close> prefers it when both are
  ready. The result \<open>None\<close> is a receiver that still waits.
\<close>

definition receive_or ::
  "queue_error option \<Rightarrow> bool \<Rightarrow> 'm msg_queue \<Rightarrow> (queue_error + 'm) option \<times> 'm msg_queue" where
  "receive_or over first q =
     (case mq_backup q of
        msg # rest \<Rightarrow> (Some (Inr msg), q\<lparr>mq_backup := rest\<rparr>)
      | [] \<Rightarrow>
          if over \<noteq> None \<and> first then (map_option Inl over, q)
          else (case try_receive (mq_messages q) of
                  Received msg c \<Rightarrow> (Some (Inr msg), q\<lparr>mq_messages := c\<rparr>)
                | Drained \<Rightarrow> (Some (Inl ErrQueueClosed), q)
                | NothingYet \<Rightarrow> (map_option Inl over, q)))"

definition dequeue ::
  "queue_error option \<Rightarrow> bool \<Rightarrow> 'm msg_queue \<Rightarrow> (queue_error + 'm) option \<times> 'm msg_queue" where
  "dequeue ctx_err first q = receive_or ctx_err first q"

definition dequeue_with_timeout :: "bool \<Rightarrow> bool \<Rightarrow> 'm msg_queue \<Rightarrow> (queue_error + 'm) option \<times> 'm msg_queue" where
  "dequeue_with_timeout fired first q = receive_or (if fired then Some ErrQueueEmpty else None) first q"

text \<open>
  \<open>Peek\<close> takes a message from the channel and sends it back. The channel's other users do not take
  the buffer's mutex: \<open>mid\<close> is what they do in between, and a \<open>Close\<close> there makes the send panic.
\<close>

definition peek ::
  "('m msg_queue \<Rightarrow> 'm msg_queue) \<Rightarrow> 'm msg_queue \<Rightarrow> (queue_error, 'm, 'm msg_queue) outcome" where
  "peek mid q =
     (if mq_closed q then (Inl ErrQueueClosed, q)
      else (case mq_backup q of
              msg # rest \<Rightarrow> (Inr msg, q)
            | [] \<Rightarrow>
                (case try_receive (mq_messages q) of
                   Drained \<Rightarrow> (Inl ErrQueueClosed, q)
                 | NothingYet \<Rightarrow> (Inl ErrQueueEmpty, q)
                 | Received msg c \<Rightarrow>
                     (let q1 = mid (q\<lparr>mq_messages := c\<rparr>) in
                      case try_send msg (mq_messages q1) of
                        Sent c' \<Rightarrow> (Inr msg, q1\<lparr>mq_messages := c'\<rparr>)
                      | WouldBlock \<Rightarrow> (Inr msg, q1\<lparr>mq_backup := mq_backup q1 @ [msg]\<rparr>)
                      | SendPanics \<Rightarrow> (Inl PanicSendOnClosed, q1)))))"

definition queue_size :: "'m msg_queue \<Rightarrow> int" where
  "queue_size q = int (length (ch_buf (mq_messages q))) + int (length (mq_backup q))"

definition queue_empty :: "'m msg_queue \<Rightarrow> bool" where
  "queue_empty q \<longleftrightarrow> ch_buf (mq_messages q) = [] \<and> mq_backup q = []"

definition queue_full :: "'m msg_queue \<Rightarrow> bool" where
  "queue_full q \<longleftrightarrow> int (length (ch_buf (mq_messages q))) \<ge> qo_max (mq_opts q)"

definition queue_available :: "'m msg_queue \<Rightarrow> int" where
  "queue_available q = qo_max (mq_opts q) - int (length (ch_buf (mq_messages q))) - int (length (mq_backup q))"

definition close_queue :: "'m msg_queue \<Rightarrow> 'm msg_queue" where
  "close_queue q =
     (case close_chan (mq_messages q) of
        None \<Rightarrow> q
      | Some c \<Rightarrow> q\<lparr>mq_closed := True, mq_messages := c\<rparr>)"

section \<open>The queues of all agents\<close>

record 'm queue_registry =
  qr_queues :: "string \<rightharpoonup> 'm msg_queue"
  qr_opts :: queue_options

definition new_queue_registry :: "queue_options option \<Rightarrow> 'm queue_registry" where
  "new_queue_registry opts =
     \<lparr>qr_queues = Map.empty, qr_opts = (case opts of None \<Rightarrow> default_queue_options | Some x \<Rightarrow> x)\<rparr>"

definition get_or_create :: "string \<Rightarrow> 'm queue_registry \<Rightarrow> 'm msg_queue \<times> 'm queue_registry" where
  "get_or_create aid r =
     (case qr_queues r aid of
        Some q \<Rightarrow> (q, r)
      | None \<Rightarrow> (let q = new_queue aid (Some (qr_opts r)) in (q, r\<lparr>qr_queues := (qr_queues r)(aid \<mapsto> q)\<rparr>)))"

text \<open>
  A queue is shared by pointer: what is done to it is visible in the registry. \<open>delete_queue\<close>
  closes the queue and forgets it; a holder of the pointer keeps the closed queue it returns.
\<close>

definition update_queue :: "string \<Rightarrow> 'm msg_queue \<Rightarrow> 'm queue_registry \<Rightarrow> 'm queue_registry" where
  "update_queue aid q r = r\<lparr>qr_queues := (qr_queues r)(aid \<mapsto> q)\<rparr>"

definition delete_queue :: "string \<Rightarrow> 'm queue_registry \<Rightarrow> 'm msg_queue option \<times> 'm queue_registry" where
  "delete_queue aid r =
     (case qr_queues r aid of
        None \<Rightarrow> (None, r)
      | Some q \<Rightarrow> (Some (close_queue q), r\<lparr>qr_queues := (qr_queues r)(aid := None)\<rparr>))"

definition registry_agents :: "string list \<Rightarrow> 'm queue_registry \<Rightarrow> string list" where
  "registry_agents ord r = range_keys (qr_queues r) ord"

definition registry_size :: "string list \<Rightarrow> 'm queue_registry \<Rightarrow> int" where
  "registry_size ord r = sum_list (map (\<lambda>k. queue_size (the (qr_queues r k))) (range_keys (qr_queues r) ord))"

section \<open>Order and conservation of one queue\<close>

datatype 'm queue_op =
    QEnqueue 'm
  | QDequeue "queue_error option" bool
  | QTimeout bool bool
  | QPeek
  | QClose

fun exec_queue :: "'m queue_op \<Rightarrow> 'm msg_queue \<Rightarrow> 'm msg_queue" where
  "exec_queue (QEnqueue msg) q = snd (enqueue msg q)"
| "exec_queue (QDequeue c f) q = snd (dequeue c f q)"
| "exec_queue (QTimeout c f) q = snd (dequeue_with_timeout c f q)"
| "exec_queue QPeek q = snd (peek id q)"
| "exec_queue QClose q = close_queue q"

text \<open>The messages a call got accepted, and those it returned and removed.\<close>

fun queue_sent :: "'m queue_op \<Rightarrow> 'm msg_queue \<Rightarrow> 'm list" where
  "queue_sent (QEnqueue msg) q = (if fst (enqueue msg q) = Inr () then [msg] else [])"
| "queue_sent _ q = []"

definition returned :: "(queue_error + 'm) option \<Rightarrow> 'm list" where
  "returned r = (case r of Some (Inr msg) \<Rightarrow> [msg] | _ \<Rightarrow> [])"

fun queue_got :: "'m queue_op \<Rightarrow> 'm msg_queue \<Rightarrow> 'm list" where
  "queue_got (QDequeue c f) q = returned (fst (dequeue c f q))"
| "queue_got (QTimeout c f) q = returned (fst (dequeue_with_timeout c f q))"
| "queue_got _ q = []"

definition queue_contents :: "'m msg_queue \<Rightarrow> 'm list" where
  "queue_contents q = mq_backup q @ ch_buf (mq_messages q)"

fun not_peek :: "'m queue_op \<Rightarrow> bool" where
  "not_peek QPeek = False"
| "not_peek _ = True"

lemma enqueue_contents:
  "queue_contents (snd (enqueue msg q)) = queue_contents q @ (if fst (enqueue msg q) = Inr () then [msg] else [])"
  by (auto simp: enqueue_def queue_contents_def try_send_def)

lemma receive_contents:
  "queue_contents q = returned (fst (receive_or over first q)) @ queue_contents (snd (receive_or over first q))"
  by (auto simp: receive_or_def queue_contents_def try_receive_def returned_def split: list.splits option.splits)

lemma close_contents: "queue_contents (close_queue q) = queue_contents q"
  by (auto simp: close_queue_def close_chan_def queue_contents_def)

definition queue_wf :: "'m msg_queue \<Rightarrow> bool" where
  "queue_wf q \<longleftrightarrow> ch_closed (mq_messages q) = mq_closed q
     \<and> length (ch_buf (mq_messages q)) \<le> ch_cap (mq_messages q)"

lemma peek_contents: "queue_wf q \<Longrightarrow> mset (queue_contents (snd (peek id q))) = mset (queue_contents q)"
  by (auto simp: peek_def queue_contents_def queue_wf_def try_receive_def try_send_def Let_def
      split: list.splits)

lemma exec_queue_wf: "queue_wf q \<Longrightarrow> queue_wf (exec_queue x q)"
  by (cases x) (auto simp: queue_wf_def enqueue_def dequeue_def dequeue_with_timeout_def receive_or_def
      peek_def close_queue_def close_chan_def try_receive_def try_send_def Let_def split: list.splits)

interpretation queue_order: fifo exec_queue not_peek queue_wf queue_contents queue_sent queue_got
proof
  show "queue_contents q @ queue_sent x q = queue_got x q @ queue_contents (exec_queue x q)"
    if "not_peek x" for x and q :: "'a msg_queue"
    using that
    by (cases x) (simp_all add: enqueue_contents close_contents dequeue_def dequeue_with_timeout_def
        flip: receive_contents)
qed (rule exec_queue_wf)

interpretation queue_mass: conserving exec_queue "\<lambda>_. True" queue_wf queue_contents queue_sent queue_got
proof
  show "mset (queue_contents q @ queue_sent x q) = mset (queue_got x q @ queue_contents (exec_queue x q))"
    if "queue_wf q" for x and q :: "'a msg_queue"
  proof (cases "not_peek x")
    case False
    then show ?thesis using that by (cases x) (simp_all add: peek_contents)
  qed (use that queue_order.exec_conserves in blast)
qed (rule exec_queue_wf)

end
