(* ===== verification/Ahp_Protocol.thy ===== *)
theory Ahp_Protocol
  imports Ahp_Queue
begin

text \<open>
  The agent protocol, \<open>internal/ares_protocol/ahp\<close>: messages (\<open>message.go\<close>), the dead letter queue and
  its processor (\<open>dlq.go\<close>), the heartbeat monitor (\<open>heartbeat.go\<close>) and the protocol that joins them
  (\<open>protocol.go\<close>), with the peer registry of \<open>internal/agents/peer\<close>. Message ids and clock readings
  are arguments.
\<close>

section \<open>Messages\<close>

datatype ahp_method = MethodTask | MethodResult | MethodProgress | MethodAck | MethodHeartbeat | MethodOther string

record ahp_message =
  am_id :: string
  am_method :: ahp_method
  am_agent :: string
  am_target :: string
  am_task :: string
  am_session :: string
  am_payload :: "(string \<times> goval) list option"
  am_time :: time

text \<open>\<open>Clone\<close> copies the payload map; as a value it is the same message.\<close>

definition clone_message :: "ahp_message \<Rightarrow> ahp_message" where
  "clone_message m = m"

definition new_message ::
  "string \<Rightarrow> time \<Rightarrow> ahp_method \<Rightarrow> string \<Rightarrow> string \<Rightarrow> string \<Rightarrow> string \<Rightarrow> ahp_message" where
  "new_message mid now meth agent target tid sid =
     \<lparr>am_id = mid, am_method = meth, am_agent = agent, am_target = target, am_task = tid,
      am_session = sid, am_payload = Some [], am_time = now\<rparr>"

definition new_task_message ::
  "string \<Rightarrow> time \<Rightarrow> string \<Rightarrow> string \<Rightarrow> string \<Rightarrow> string \<Rightarrow> (string \<times> goval) list option \<Rightarrow> ahp_message" where
  "new_task_message mid now agent target tid sid payload =
     (let m = new_message mid now MethodTask agent target tid sid
      in if payload \<noteq> None then m\<lparr>am_payload := payload\<rparr> else m)"

definition new_result_message ::
  "string \<Rightarrow> time \<Rightarrow> string \<Rightarrow> string \<Rightarrow> string \<Rightarrow> string \<Rightarrow> goval \<Rightarrow> ahp_message" where
  "new_result_message mid now agent target tid sid res =
     (new_message mid now MethodResult agent target tid sid)\<lparr>am_payload := Some [(''result'', res)]\<rparr>"

definition new_progress_message ::
  "string \<Rightarrow> time \<Rightarrow> string \<Rightarrow> string \<Rightarrow> string \<Rightarrow> string \<Rightarrow> rat \<Rightarrow> ahp_message" where
  "new_progress_message mid now agent target tid sid x =
     (new_message mid now MethodProgress agent target tid sid)\<lparr>am_payload := Some [(''progress'', GFloat x)]\<rparr>"

definition new_ack_message :: "string \<Rightarrow> time \<Rightarrow> string \<Rightarrow> string \<Rightarrow> string \<Rightarrow> string \<Rightarrow> ahp_message" where
  "new_ack_message mid now agent target tid sid = new_message mid now MethodAck agent target tid sid"

definition new_heartbeat_message :: "string \<Rightarrow> time \<Rightarrow> string \<Rightarrow> ahp_message" where
  "new_heartbeat_message mid now agent =
     \<lparr>am_id = mid, am_method = MethodHeartbeat, am_agent = agent, am_target = '''', am_task = '''',
      am_session = '''', am_payload = None, am_time = now\<rparr>"

definition payload_get :: "ahp_message \<Rightarrow> string \<Rightarrow> goval" where
  "payload_get m k =
     (case am_payload m of None \<Rightarrow> GNil | Some p \<Rightarrow> (case map_of p k of None \<Rightarrow> GNil | Some v \<Rightarrow> v))"

definition get_progress :: "ahp_message \<Rightarrow> rat option" where
  "get_progress m =
     (if am_method m \<noteq> MethodProgress then None
      else (case payload_get m ''progress'' of GFloat x \<Rightarrow> Some x | _ \<Rightarrow> None))"

subsection \<open>Task results in messages\<close>

text \<open>
  \<open>TaskResult\<close> and \<open>RecommendItem\<close> of \<open>internal/core/models\<close>; \<open>ri_rest\<close> holds the other fields of an
  item by their JSON names. A nil item is \<open>None\<close>.
\<close>

record recommend_item =
  ri_id :: string
  ri_category :: string
  ri_name :: string
  ri_price :: rat
  ri_rest :: "(string \<times> goval) list"

record task_result =
  tr_task :: string
  tr_agent_type :: string
  tr_success :: bool
  tr_items :: "recommend_item option list option"
  tr_reason :: string
  tr_metadata :: goval
  tr_error :: string
  tr_duration :: duration
  tr_created :: string

definition string_field :: "(string \<times> goval) list \<Rightarrow> string \<Rightarrow> string" where
  "string_field m k = (case map_of m k of Some (GStr s) \<Rightarrow> s | _ \<Rightarrow> '''')"

definition reconstruct_item :: "(string \<times> goval) list \<Rightarrow> recommend_item" where
  "reconstruct_item m =
     \<lparr>ri_id = string_field m ''item_id'', ri_category = string_field m ''category'',
      ri_name = string_field m ''name'',
      ri_price = (case map_of m ''price'' of Some (GFloat x) \<Rightarrow> x | _ \<Rightarrow> 0), ri_rest = []\<rparr>"

definition reconstruct_items :: "goval list \<Rightarrow> recommend_item option list" where
  "reconstruct_items vs =
     List.map_filter (\<lambda>v. case v of GMap m \<Rightarrow> Some (Some (reconstruct_item m)) | _ \<Rightarrow> None) vs"

definition reconstruct_result :: "(string \<times> goval) list \<Rightarrow> task_result" where
  "reconstruct_result m =
     \<lparr>tr_task = string_field m ''task_id'', tr_agent_type = '''',
      tr_success = (case map_of m ''success'' of Some (GBool b) \<Rightarrow> b | _ \<Rightarrow> False),
      tr_items = Some (case map_of m ''items'' of Some (GList vs) \<Rightarrow> reconstruct_items vs | _ \<Rightarrow> []),
      tr_reason = string_field m ''reason'', tr_metadata = GNil, tr_error = string_field m ''error'',
      tr_duration = 0, tr_created = ''''\<rparr>"

text \<open>
  In memory the payload holds a pointer to the result (\<open>deref\<close> follows it), after JSON a document.
\<close>

definition get_result :: "(nat \<Rightarrow> task_result) \<Rightarrow> ahp_message \<Rightarrow> task_result option" where
  "get_result deref m =
     (if am_method m \<noteq> MethodResult then None
      else (case payload_get m ''result'' of
              GOpaque ty n \<Rightarrow> if ty = ''*models.TaskResult'' then Some (deref n) else None
            | GMap d \<Rightarrow> Some (reconstruct_result d)
            | _ \<Rightarrow> None))"

text \<open>The documents \<open>encoding/json\<close> writes for these types, as a reader gets them back.\<close>

definition item_document :: "recommend_item option \<Rightarrow> goval" where
  "item_document i =
     (case i of
        None \<Rightarrow> GNil
      | Some x \<Rightarrow> GMap ([(''item_id'', GStr (ri_id x)), (''category'', GStr (ri_category x)),
                         (''name'', GStr (ri_name x)), (''price'', GFloat (ri_price x))] @ ri_rest x))"

definition result_document :: "task_result \<Rightarrow> goval" where
  "result_document r =
     GMap [(''task_id'', GStr (tr_task r)), (''agent_type'', GStr (tr_agent_type r)),
           (''success'', GBool (tr_success r)),
           (''items'', case tr_items r of None \<Rightarrow> GNil | Some is \<Rightarrow> GList (map item_document is)),
           (''reason'', GStr (tr_reason r)), (''metadata'', tr_metadata r), (''error'', GStr (tr_error r)),
           (''duration'', GFloat (of_int (tr_duration r))), (''created_at'', GStr (tr_created r))]"

section \<open>Dead letter queue\<close>

text \<open>
  Entries are shared by pointer between the queue and its processor: the queue holds addresses, the
  entries are in a store (\<open>dq_heap\<close>).
\<close>

record dlq_entry =
  de_message :: "ahp_message option"
  de_error :: queue_error
  de_reason :: string
  de_time :: time
  de_retries :: int
  de_max :: int

record dlq =
  dq_messages :: "nat list"
  dq_heap :: "nat \<rightharpoonup> dlq_entry"
  dq_next :: nat
  dq_max :: int

definition new_dlq :: "int \<Rightarrow> dlq" where
  "new_dlq n = \<lparr>dq_messages = [], dq_heap = Map.empty, dq_next = 0, dq_max = (if n \<le> 0 then 10000 else n)\<rparr>"

definition dlq_add_max ::
  "time \<Rightarrow> ahp_message option \<Rightarrow> queue_error \<Rightarrow> string \<Rightarrow> int \<Rightarrow> dlq \<Rightarrow> dlq" where
  "dlq_add_max now msg e reason n d =
     (let entry = \<lparr>de_message = msg, de_error = e, de_reason = reason, de_time = now,
                   de_retries = 0, de_max = n\<rparr>;
          kept = (if int (length (dq_messages d)) \<ge> dq_max d then tl (dq_messages d) else dq_messages d)
      in d\<lparr>dq_messages := kept @ [dq_next d], dq_heap := (dq_heap d)(dq_next d \<mapsto> entry),
           dq_next := Suc (dq_next d)\<rparr>)"

definition max_retries_unlimited :: int where
  "max_retries_unlimited = 0"

definition dlq_add :: "time \<Rightarrow> ahp_message option \<Rightarrow> queue_error \<Rightarrow> string \<Rightarrow> dlq \<Rightarrow> dlq" where
  "dlq_add now msg e reason d = dlq_add_max now msg e reason max_retries_unlimited d"

definition dlq_matches :: "(ahp_message \<Rightarrow> bool) \<Rightarrow> dlq \<Rightarrow> nat \<Rightarrow> bool" where
  "dlq_matches f d i =
     (case dq_heap d i of
        None \<Rightarrow> False
      | Some e \<Rightarrow> (case de_message e of None \<Rightarrow> False | Some m \<Rightarrow> f m))"

definition dlq_by_agent :: "string \<Rightarrow> dlq \<Rightarrow> nat list" where
  "dlq_by_agent aid d = [i \<leftarrow> dq_messages d. dlq_matches (\<lambda>m. am_agent m = aid) d i]"

definition dlq_by_session :: "string \<Rightarrow> dlq \<Rightarrow> nat list" where
  "dlq_by_session sid d = [i \<leftarrow> dq_messages d. dlq_matches (\<lambda>m. am_session m = sid) d i]"

definition dlq_size :: "dlq \<Rightarrow> int" where
  "dlq_size d = int (length (dq_messages d))"

definition dlq_clear :: "dlq \<Rightarrow> dlq" where
  "dlq_clear d = d\<lparr>dq_messages := []\<rparr>"

definition dlq_remove :: "nat \<Rightarrow> dlq \<Rightarrow> dlq" where
  "dlq_remove i d = d\<lparr>dq_messages := remove1 i (dq_messages d)\<rparr>"

definition dlq_remove_session :: "string \<Rightarrow> dlq \<Rightarrow> dlq" where
  "dlq_remove_session sid d =
     d\<lparr>dq_messages := [i \<leftarrow> dq_messages d. dlq_matches (\<lambda>m. am_session m \<noteq> sid) d i]\<rparr>"

subsection \<open>Processing\<close>

text \<open>
  A handler gets the entry and may change the queue; whether it succeeded. The default handler
  reads the session of the message, which panics on an entry without a message.
\<close>

type_synonym dlq_handler = "nat \<Rightarrow> dlq \<Rightarrow> bool \<times> dlq"

record dlq_processor =
  dp_dlq :: dlq
  dp_handlers :: "string \<rightharpoonup> dlq_handler"
  dp_processed :: int
  dp_failed :: int

definition new_processor :: "dlq \<Rightarrow> dlq_processor" where
  "new_processor d = \<lparr>dp_dlq = d, dp_handlers = Map.empty, dp_processed = 0, dp_failed = 0\<rparr>"

definition register_handler :: "string \<Rightarrow> dlq_handler \<Rightarrow> dlq_processor \<Rightarrow> dlq_processor" where
  "register_handler ty h p = p\<lparr>dp_handlers := (dp_handlers p)(ty \<mapsto> h)\<rparr>"

definition process_entry :: "nat \<Rightarrow> dlq_entry \<Rightarrow> dlq_processor \<Rightarrow> (bool \<times> dlq) option" where
  "process_entry i e p =
     (case dp_handlers p (de_reason e) of
        Some h \<Rightarrow> Some (h i (dp_dlq p))
      | None \<Rightarrow> (if de_message e = None then None else Some (True, dp_dlq p)))"

text \<open>The loop over a snapshot of the queue; the result \<open>False\<close> is a panic.\<close>

fun process_loop :: "nat list \<Rightarrow> dlq_processor \<Rightarrow> bool \<times> dlq_processor" where
  "process_loop [] p = (True, p)"
| "process_loop (i # is) p =
     (case dq_heap (dp_dlq p) i of
        None \<Rightarrow> process_loop is p
      | Some e \<Rightarrow>
          if de_max e > 0 \<and> de_retries e \<ge> de_max e then process_loop is p
          else
            (let e1 = e\<lparr>de_retries := de_retries e + 1\<rparr>;
                 p1 = p\<lparr>dp_dlq := (dp_dlq p)\<lparr>dq_heap := (dq_heap (dp_dlq p))(i \<mapsto> e1)\<rparr>\<rparr>
             in case process_entry i e1 p1 of
                  None \<Rightarrow> (False, p1)
                | Some (ok, d) \<Rightarrow>
                    process_loop is
                      (if ok then p1\<lparr>dp_dlq := dlq_remove i d, dp_processed := dp_processed p1 + 1\<rparr>
                       else p1\<lparr>dp_dlq := d, dp_failed := dp_failed p1 + 1\<rparr>)))"

definition process_dlq :: "dlq_processor \<Rightarrow> bool \<times> dlq_processor" where
  "process_dlq p = process_loop (dq_messages (dp_dlq p)) p"

section \<open>Heartbeats\<close>

text \<open>The states of an agent, \<open>AgentStatus\<close> of \<open>internal/core/models\<close>.\<close>

datatype agent_status = StatusStarting | StatusReady | StatusBusy | StatusStopping | StatusOffline

record heartbeat_config =
  hc_interval :: duration
  hc_timeout :: duration
  hc_max_missed :: int

definition default_heartbeat_config :: heartbeat_config where
  "default_heartbeat_config = \<lparr>hc_interval = 5000000000, hc_timeout = 30000000000, hc_max_missed = 3\<rparr>"

record agent_heartbeat =
  hb_agent :: string
  hb_seen :: time
  hb_status :: agent_status
  hb_missed :: int

text \<open>A callback is known by a number; notifying is the list of the calls made.\<close>

record heartbeat_monitor =
  hm_agents :: "string \<rightharpoonup> agent_heartbeat"
  hm_config :: heartbeat_config
  hm_callbacks :: "nat list"

definition new_monitor :: "heartbeat_config option \<Rightarrow> heartbeat_monitor" where
  "new_monitor cfg =
     \<lparr>hm_agents = Map.empty, hm_config = (case cfg of None \<Rightarrow> default_heartbeat_config | Some c \<Rightarrow> c),
      hm_callbacks = []\<rparr>"

definition record_heartbeat :: "time \<Rightarrow> string \<Rightarrow> heartbeat_monitor \<Rightarrow> heartbeat_monitor" where
  "record_heartbeat now aid m =
     (if aid = '''' then m
      else (case hm_agents m aid of
              Some hb \<Rightarrow> m\<lparr>hm_agents := (hm_agents m)(aid \<mapsto>
                 hb\<lparr>hb_seen := now, hb_missed := 0, hb_status := StatusReady\<rparr>)\<rparr>
            | None \<Rightarrow> m\<lparr>hm_agents := (hm_agents m)(aid \<mapsto>
                 \<lparr>hb_agent = aid, hb_seen = now, hb_status = StatusReady, hb_missed = 0\<rparr>)\<rparr>))"

definition heartbeat_status :: "string \<Rightarrow> heartbeat_monitor \<Rightarrow> agent_status option" where
  "heartbeat_status aid m = map_option hb_status (hm_agents m aid)"

text \<open>One agent of the sweep: its new state, and whether it has just been marked offline.\<close>

definition check_agent :: "heartbeat_config \<Rightarrow> time \<Rightarrow> agent_heartbeat \<Rightarrow> agent_heartbeat \<times> bool" where
  "check_agent c now hb =
     (if hb_status hb = StatusOffline then (hb, False)
      else if now - hb_seen hb > hc_timeout c
      then (let hb1 = hb\<lparr>hb_missed := hb_missed hb + 1\<rparr>
            in if hb_missed hb1 \<ge> hc_max_missed c then (hb1\<lparr>hb_status := StatusOffline\<rparr>, True)
               else (hb1, False))
      else (hb, False))"

definition mark_offline :: "string list \<Rightarrow> time \<Rightarrow> heartbeat_monitor \<Rightarrow> string list \<times> heartbeat_monitor" where
  "mark_offline ord now m =
     fold (\<lambda>aid (out, m1).
        case hm_agents m1 aid of
          None \<Rightarrow> (out, m1)
        | Some hb \<Rightarrow>
            (case check_agent (hm_config m1) now hb of
               (hb1, timed_out) \<Rightarrow>
                 (if timed_out then out @ [aid] else out, m1\<lparr>hm_agents := (hm_agents m1)(aid \<mapsto> hb1)\<rparr>)))
       (range_keys (hm_agents m) ord) ([], m)"

definition notify_callbacks :: "string \<Rightarrow> heartbeat_monitor \<Rightarrow> (nat \<times> string) list" where
  "notify_callbacks aid m = map (\<lambda>cb. (cb, aid)) (hm_callbacks m)"

definition check_timeouts ::
  "string list \<Rightarrow> time \<Rightarrow> heartbeat_monitor \<Rightarrow> (string list \<times> (nat \<times> string) list) \<times> heartbeat_monitor" where
  "check_timeouts ord now m =
     (case mark_offline ord now m of
        (out, m1) \<Rightarrow> ((out, concat (map (\<lambda>aid. notify_callbacks aid m1) out)), m1))"

definition remove_agent :: "string \<Rightarrow> heartbeat_monitor \<Rightarrow> heartbeat_monitor" where
  "remove_agent aid m = m\<lparr>hm_agents := (hm_agents m)(aid := None)\<rparr>"

definition monitored_agents :: "string list \<Rightarrow> heartbeat_monitor \<Rightarrow> string list" where
  "monitored_agents ord m = range_keys (hm_agents m) ord"

definition register_callback :: "nat option \<Rightarrow> heartbeat_monitor \<Rightarrow> heartbeat_monitor" where
  "register_callback cb m =
     (case cb of None \<Rightarrow> m | Some n \<Rightarrow> m\<lparr>hm_callbacks := hm_callbacks m @ [n]\<rparr>)"

section \<open>The protocol\<close>

datatype protocol_error = ErrInvalidMessage | ErrAgentNotFound | ErrSend queue_error

record protocol_config =
  pg_queue_size :: int
  pg_heartbeat :: "heartbeat_config option"
  pg_enable_dlq :: bool
  pg_dlq_size :: int

definition default_protocol_config :: protocol_config where
  "default_protocol_config = \<lparr>pg_queue_size = 1000, pg_heartbeat = Some default_heartbeat_config,
     pg_enable_dlq = True, pg_dlq_size = 10000\<rparr>"

record protocol =
  pr_registry :: "ahp_message queue_registry"
  pr_dlq :: "dlq option"
  pr_heartbeat :: heartbeat_monitor

definition new_protocol :: "protocol_config option \<Rightarrow> protocol" where
  "new_protocol cfg =
     (let c = (case cfg of None \<Rightarrow> default_protocol_config | Some x \<Rightarrow> x)
      in \<lparr>pr_registry = new_queue_registry (Some \<lparr>qo_max = pg_queue_size c, qo_workers = 0, qo_timeout = 0\<rparr>),
          pr_dlq = (if pg_enable_dlq c then Some (new_dlq (pg_dlq_size c)) else None),
          pr_heartbeat = new_monitor (pg_heartbeat c)\<rparr>)"

definition get_queue :: "string \<Rightarrow> protocol \<Rightarrow> ahp_message msg_queue \<times> protocol" where
  "get_queue aid p =
     (case get_or_create aid (pr_registry p) of (q, r) \<Rightarrow> (q, p\<lparr>pr_registry := r\<rparr>))"

definition classify_enqueue_error :: "queue_error \<Rightarrow> string" where
  "classify_enqueue_error e =
     (case e of
        ErrQueueClosed \<Rightarrow> ''queue_closed''
      | ErrQueueFull \<Rightarrow> ''queue_full''
      | ErrContextCanceled \<Rightarrow> ''context_canceled''
      | ErrContextDeadline \<Rightarrow> ''context_deadline''
      | _ \<Rightarrow> ''unknown'')"

definition send_message ::
  "time \<Rightarrow> ahp_message option \<Rightarrow> protocol \<Rightarrow> (protocol_error, unit, protocol) outcome" where
  "send_message now msg p =
     (case msg of
        None \<Rightarrow> (Inl ErrInvalidMessage, p)
      | Some m \<Rightarrow>
          (case get_queue (am_target m) p of
             (q, p1) \<Rightarrow>
               (case enqueue m q of
                  (Inr _, q1) \<Rightarrow> (Inr (), p1\<lparr>pr_registry := update_queue (am_target m) q1 (pr_registry p1)\<rparr>)
                | (Inl e, q1) \<Rightarrow>
                    (Inl (ErrSend e),
                     p1\<lparr>pr_dlq := map_option (dlq_add now (Some m) e (classify_enqueue_error e)) (pr_dlq p1)\<rparr>))))"

definition receive_message ::
  "queue_error option \<Rightarrow> bool \<Rightarrow> string \<Rightarrow> protocol \<Rightarrow> (protocol_error + ahp_message) option \<times> protocol" where
  "receive_message ctx_err first aid p =
     (case qr_queues (pr_registry p) aid of
        None \<Rightarrow> (Some (Inl ErrAgentNotFound), p)
      | Some q \<Rightarrow>
          (case dequeue ctx_err first q of
             (r, q1) \<Rightarrow> (map_option (map_sum ErrSend id) r,
                         p\<lparr>pr_registry := update_queue aid q1 (pr_registry p)\<rparr>)))"

definition send_task ::
  "string \<Rightarrow> time \<Rightarrow> string \<Rightarrow> string \<Rightarrow> string \<Rightarrow> (string \<times> goval) list option \<Rightarrow> protocol
    \<Rightarrow> (protocol_error, unit, protocol) outcome" where
  "send_task mid now target tid sid payload p =
     send_message now (Some (new_task_message mid now ''leader'' target tid sid payload)) p"

definition send_result ::
  "string \<Rightarrow> time \<Rightarrow> string \<Rightarrow> string \<Rightarrow> string \<Rightarrow> goval \<Rightarrow> protocol
    \<Rightarrow> (protocol_error, unit, protocol) outcome" where
  "send_result mid now target tid sid res p =
     send_message now (Some (new_result_message mid now target ''leader'' tid sid res)) p"

definition close_protocol :: "string list \<Rightarrow> protocol \<Rightarrow> protocol" where
  "close_protocol ord p =
     p\<lparr>pr_registry := fold (\<lambda>aid r. snd (delete_queue aid r)) (registry_agents ord (pr_registry p)) (pr_registry p)\<rparr>"

text \<open>Queues, messages, dead letters and monitored agents.\<close>

definition protocol_stats :: "string list \<Rightarrow> string list \<Rightarrow> protocol \<Rightarrow> int \<times> int \<times> int \<times> int" where
  "protocol_stats ord hord p =
     (int (length (registry_agents ord (pr_registry p))), registry_size ord (pr_registry p),
      (case pr_dlq p of None \<Rightarrow> 0 | Some d \<Rightarrow> dlq_size d), int (length (monitored_agents hord (pr_heartbeat p))))"

section \<open>Peers\<close>

text \<open>A send function is known by the number of its target mailbox; delivery is its call.\<close>

datatype peer_error = ErrPeerEmptyId | ErrPeerNilSend | ErrPeerUnknown | ErrPeerNilMessage

type_synonym peer_registry = "string \<rightharpoonup> nat"

definition register_peer :: "string \<Rightarrow> nat option \<Rightarrow> peer_registry \<Rightarrow> (peer_error, unit, peer_registry) outcome" where
  "register_peer aid send r =
     (if aid = '''' then (Inl ErrPeerEmptyId, r)
      else (case send of None \<Rightarrow> (Inl ErrPeerNilSend, r) | Some f \<Rightarrow> (Inr (), r(aid \<mapsto> f))))"

definition unregister_peer :: "string \<Rightarrow> peer_registry \<Rightarrow> peer_registry" where
  "unregister_peer aid r = r(aid := None)"

definition lookup_peer :: "string \<Rightarrow> peer_registry \<Rightarrow> nat option" where
  "lookup_peer aid r = r aid"

definition peer_ids :: "(string list \<Rightarrow> string list) \<Rightarrow> string list \<Rightarrow> peer_registry \<Rightarrow> string list" where
  "peer_ids srt ord r = srt (range_keys r ord)"

definition send_peer :: "string \<Rightarrow> ahp_message option \<Rightarrow> peer_registry \<Rightarrow> peer_error + nat \<times> ahp_message" where
  "send_peer target msg r =
     (case lookup_peer target r of
        None \<Rightarrow> Inl ErrPeerUnknown
      | Some f \<Rightarrow>
          (case msg of
             None \<Rightarrow> Inl ErrPeerNilMessage
           | Some m \<Rightarrow> Inr (f, (clone_message m)\<lparr>am_target := target\<rparr>)))"

end
