(* ===== verification/Ahp_Props.thy ===== *)
theory Ahp_Props
  imports Ahp_Protocol
begin

text \<open>
  What the agent protocol guarantees: every message is queued in order for its target or dead
  lettered, an agent is declared dead once and at the right time, a dead letter is retried within its
  budget, and what of a task result survives the wire.
\<close>

section \<open>Delivery\<close>

datatype proto_op =
    PSend time "ahp_message option"
  | PReceive "queue_error option" bool string
  | PQueue string
  | PBeat time string

fun exec_proto :: "proto_op \<Rightarrow> protocol \<Rightarrow> protocol" where
  "exec_proto (PSend now msg) p = snd (send_message now msg p)"
| "exec_proto (PReceive c f aid) p = snd (receive_message c f aid p)"
| "exec_proto (PQueue aid) p = snd (get_queue aid p)"
| "exec_proto (PBeat now aid) p = p\<lparr>pr_heartbeat := record_heartbeat now aid (pr_heartbeat p)\<rparr>"

text \<open>The messages accepted for an agent, those it received, and those that were refused.\<close>

fun accepted_for :: "string \<Rightarrow> proto_op \<Rightarrow> protocol \<Rightarrow> ahp_message list" where
  "accepted_for k (PSend now (Some m)) p =
     (if am_target m = k \<and> fst (send_message now (Some m) p) = Inr () then [m] else [])"
| "accepted_for k _ p = []"

fun received_by :: "string \<Rightarrow> proto_op \<Rightarrow> protocol \<Rightarrow> ahp_message list" where
  "received_by k (PReceive c f aid) p =
     (if aid = k then (case fst (receive_message c f aid p) of Some (Inr m) \<Rightarrow> [m] | _ \<Rightarrow> []) else [])"
| "received_by k _ p = []"

fun refused :: "proto_op \<Rightarrow> protocol \<Rightarrow> ahp_message list" where
  "refused (PSend now (Some m)) p = (if fst (send_message now (Some m) p) = Inr () then [] else [m])"
| "refused _ p = []"

definition held_for :: "string \<Rightarrow> protocol \<Rightarrow> ahp_message list" where
  "held_for k p = (case qr_queues (pr_registry p) k of None \<Rightarrow> [] | Some q \<Rightarrow> queue_contents q)"

lemma held_for_get_queue [simp]: "held_for k (snd (get_queue aid p)) = held_for k p"
  by (auto simp: held_for_def get_queue_def get_or_create_def new_queue_def make_chan_def Let_def
      queue_contents_def split: option.splits)

lemma get_queue_lookup:
  assumes "get_queue aid p = (q, p1)"
  shows "qr_queues (pr_registry p1) aid = Some q" "pr_dlq p1 = pr_dlq p"
  using assms by (auto simp: get_queue_def get_or_create_def Let_def split: option.splits)

lemma held_for_update:
  "held_for k (p\<lparr>pr_registry := update_queue aid q (pr_registry p)\<rparr>) = (if k = aid then queue_contents q else held_for k p)"
  by (simp add: held_for_def update_queue_def)

lemma send_cases:
  obtains (accepted) q p1 q1 where "get_queue (am_target m) p = (q, p1)" "enqueue m q = (Inr (), q1)"
    "send_message now (Some m) p = (Inr (), p1\<lparr>pr_registry := update_queue (am_target m) q1 (pr_registry p1)\<rparr>)"
  | (refused) q p1 e where "get_queue (am_target m) p = (q, p1)" "enqueue m q = (Inl e, q)"
    "send_message now (Some m) p = (Inl (ErrSend e),
       p1\<lparr>pr_dlq := map_option (dlq_add now (Some m) e (classify_enqueue_error e)) (pr_dlq p1)\<rparr>)"
proof -
  obtain q p1 where q: "get_queue (am_target m) p = (q, p1)" by (cases "get_queue (am_target m) p")
  show ?thesis
  proof (cases "fst (enqueue m q)")
    case (Inl e)
    then have e: "enqueue m q = (Inl e, q)"
      by (auto simp: enqueue_def split: if_splits sending.splits)
    show ?thesis by (rule refused [OF q e]) (simp add: send_message_def q e)
  next
    case (Inr u)
    then obtain q1 where e: "enqueue m q = (Inr (), q1)" by (cases "enqueue m q") auto
    show ?thesis by (rule accepted [OF q e]) (simp add: send_message_def q e)
  qed
qed

lemma held_for_send:
  "held_for k (snd (send_message now (Some m) p)) = held_for k p
     @ (if am_target m = k \<and> fst (send_message now (Some m) p) = Inr () then [m] else [])"
proof (cases rule: send_cases [of m p now])
  case (accepted q p1 q1)
  have "held_for k p1 = held_for k p" using held_for_get_queue [of k "am_target m" p] accepted(1) by simp
  moreover have "held_for (am_target m) p1 = queue_contents q"
    using get_queue_lookup(1) [OF accepted(1)] by (simp add: held_for_def)
  moreover have "queue_contents q1 = queue_contents q @ [m]"
    using enqueue_contents [of m q] accepted(2) by simp
  ultimately show ?thesis using accepted(3) by (auto simp: held_for_update)
next
  case (refused q p1 e)
  have "held_for k p1 = held_for k p" using held_for_get_queue [of k "am_target m" p] refused(1) by simp
  then show ?thesis using refused(3) by (simp add: held_for_def)
qed

lemma held_for_receive:
  "held_for k p = (if aid = k then (case fst (receive_message c f aid p) of Some (Inr m) \<Rightarrow> [m] | _ \<Rightarrow> []) else [])
     @ held_for k (snd (receive_message c f aid p))"
proof (cases "qr_queues (pr_registry p) aid")
  case None
  then show ?thesis by (auto simp: receive_message_def)
next
  case (Some q)
  obtain r q1 where d: "dequeue c f q = (r, q1)" by (cases "dequeue c f q")
  have "queue_contents q = returned r @ queue_contents q1"
    using receive_contents [of q c f] d by (simp add: dequeue_def)
  moreover have "held_for aid p = queue_contents q" using Some by (simp add: held_for_def)
  moreover have "receive_message c f aid p
      = (map_option (map_sum ErrSend id) r, p\<lparr>pr_registry := update_queue aid q1 (pr_registry p)\<rparr>)"
    using Some d by (simp add: receive_message_def)
  ultimately show ?thesis
    by (auto simp: held_for_update returned_def split: option.splits sum.splits)
qed

interpretation mailbox: fifo exec_proto "\<lambda>_. True" "\<lambda>_. True" "held_for k" "accepted_for k" "received_by k" for k
proof
  show "held_for k p @ accepted_for k x p = received_by k x p @ held_for k (exec_proto x p)" for x p
  proof (cases x)
    case (PSend now msg)
    show ?thesis
    proof (cases msg)
      case None
      then show ?thesis using PSend by (simp add: send_message_def)
    next
      case (Some m)
      then show ?thesis using PSend held_for_send [of k now m p] by simp
    qed
  next
    case (PReceive c f aid)
    then show ?thesis using held_for_receive [of k p aid c f] by simp
  next
    case (PBeat now aid)
    then show ?thesis by (simp add: held_for_def)
  qed simp
qed simp

subsection \<open>Dead letters\<close>

text \<open>The messages of the dead letter queue, oldest first.\<close>

definition dead_letters :: "dlq \<Rightarrow> ahp_message option list" where
  "dead_letters d = map (\<lambda>i. Option.bind (dq_heap d i) de_message) (dq_messages d)"

definition last_n :: "nat \<Rightarrow> 'a list \<Rightarrow> 'a list" where
  "last_n n xs = drop (length xs - n) xs"

lemma last_n_append: "last_n n (last_n n xs @ ys) = last_n n (xs @ ys)"
proof (cases "length xs \<le> n")
  case False
  have "last_n n xs @ ys = drop (length xs - n) (xs @ ys)" by (simp add: last_n_def)
  then show ?thesis using False by (simp add: last_n_def add.commute)
qed (simp add: last_n_def)

definition dlq_wf :: "dlq \<Rightarrow> bool" where
  "dlq_wf d \<longleftrightarrow> 0 < dq_max d \<and> int (length (dq_messages d)) \<le> dq_max d
     \<and> (\<forall>i \<in> set (dq_messages d). i < dq_next d)"

lemma dlq_add_letters:
  assumes "dlq_wf d"
  shows "dlq_wf (dlq_add now (Some m) e reason d)"
    "dead_letters (dlq_add now (Some m) e reason d) = last_n (nat (dq_max d)) (dead_letters d @ [Some m])"
    "dq_max (dlq_add now (Some m) e reason d) = dq_max d"
proof -
  let ?kept = "if int (length (dq_messages d)) \<ge> dq_max d then tl (dq_messages d) else dq_messages d"
  have kept: "set ?kept \<subseteq> set (dq_messages d)" by (cases "dq_messages d") auto
  have new: "\<forall>i \<in> set ?kept. i \<noteq> dq_next d" using assms kept by (force simp: dlq_wf_def)
  have len: "int (length ?kept) + 1 \<le> dq_max d" using assms by (auto simp: dlq_wf_def)
  show "dlq_wf (dlq_add now (Some m) e reason d)"
    using assms len kept
    by (auto simp: dlq_wf_def dlq_add_def dlq_add_max_def Let_def less_Suc_eq split: if_splits)
  have "dead_letters (dlq_add now (Some m) e reason d)
      = map (\<lambda>i. Option.bind (dq_heap d i) de_message) ?kept @ [Some m]"
    using new by (simp add: dead_letters_def dlq_add_def dlq_add_max_def Let_def)
  also have "map (\<lambda>i. Option.bind (dq_heap d i) de_message) ?kept
      = (if int (length (dead_letters d)) \<ge> dq_max d then tl (dead_letters d) else dead_letters d)"
    by (simp add: dead_letters_def map_tl)
  also have "\<dots> @ [Some m] = last_n (nat (dq_max d)) (dead_letters d @ [Some m])"
  proof (cases "int (length (dead_letters d)) \<ge> dq_max d")
    case True
    then have n: "length (dead_letters d) = nat (dq_max d)" "0 < nat (dq_max d)"
      using assms by (auto simp: dlq_wf_def dead_letters_def)
    then have "Suc 0 - nat (dq_max d) = 0" "dead_letters d \<noteq> []" by auto
    with n True show ?thesis by (simp add: last_n_def drop_Suc)
  next
    case False
    then show ?thesis by (simp add: last_n_def)
  qed
  finally show "dead_letters (dlq_add now (Some m) e reason d)
      = last_n (nat (dq_max d)) (dead_letters d @ [Some m])" .
  show "dq_max (dlq_add now (Some m) e reason d) = dq_max d"
    by (simp add: dlq_add_def dlq_add_max_def Let_def)
qed

lemma dlq_run:
  assumes "pr_dlq p = Some d" "dlq_wf d" "dead_letters d = last_n (nat (dq_max d)) (map Some ms)"
  shows "\<exists>d'. pr_dlq (fold exec_proto xs p) = Some d' \<and> dq_max d' = dq_max d
    \<and> dead_letters d' = last_n (nat (dq_max d)) (map Some (ms @ gathered exec_proto refused xs p))"
  using assms
proof (induction xs arbitrary: p d ms)
  case (Cons x xs)
  have "\<exists>d1. pr_dlq (exec_proto x p) = Some d1 \<and> dq_max d1 = dq_max d \<and> dlq_wf d1
    \<and> dead_letters d1 = last_n (nat (dq_max d)) (map Some (ms @ refused x p))"
  proof (cases x)
    case (PSend now msg)
    show ?thesis
    proof (cases msg)
      case None
      then show ?thesis using PSend Cons.prems by (simp add: send_message_def)
    next
      case (Some m)
      show ?thesis
      proof (cases rule: send_cases [of m p now])
        case (accepted q p1 q1)
        then show ?thesis using get_queue_lookup(2) [OF accepted(1)] PSend Some Cons.prems by simp
      next
        case (refused q p1 e)
        let ?d = "dlq_add now (Some m) e (classify_enqueue_error e) d"
        have "pr_dlq (exec_proto x p) = Some ?d" "refused x p = [m]"
          using get_queue_lookup(2) [OF refused(1)] refused(3) PSend Some Cons.prems by simp_all
        moreover have "dead_letters ?d = last_n (nat (dq_max d)) (map Some (ms @ [m]))"
          using dlq_add_letters(2) [OF Cons.prems(2)] Cons.prems(3) by (simp add: last_n_append)
        ultimately show ?thesis using dlq_add_letters(1,3) [OF Cons.prems(2)] by simp
      qed
    qed
  next
    case (PReceive c f aid)
    have "pr_dlq (snd (receive_message c f aid p)) = pr_dlq p"
      by (auto simp: receive_message_def split: option.splits prod.splits)
    then show ?thesis using PReceive Cons.prems by simp
  next
    case (PQueue aid)
    then show ?thesis using Cons.prems get_queue_lookup(2) [of aid p] by (cases "get_queue aid p") simp
  next
    case (PBeat now aid)
    then show ?thesis using Cons.prems by simp
  qed
  then obtain d1 where "pr_dlq (exec_proto x p) = Some d1" "dlq_wf d1" "dq_max d1 = dq_max d"
    "dead_letters d1 = last_n (nat (dq_max d)) (map Some (ms @ refused x p))" by blast
  with Cons.IH [of "exec_proto x p" d1 "ms @ refused x p"] show ?case by simp
qed simp

text \<open>C23: Delivery is exact. Over any sequence of sends and receives on a fresh protocol every agent
  receives exactly the messages accepted for it, once each and in the order they were sent, up to
  those still queued; and the dead letter queue holds exactly the most recent of the refused
  messages, in order, as many as it has room for.\<close>

theorem delivery_exact:
  assumes "p' = fold exec_proto xs (new_protocol (Some cfg))" "pg_enable_dlq cfg"
    and "n = nat (if pg_dlq_size cfg \<le> 0 then 10000 else pg_dlq_size cfg)"
  shows "gathered exec_proto (accepted_for k) xs (new_protocol (Some cfg))
      = gathered exec_proto (received_by k) xs (new_protocol (Some cfg)) @ held_for k p'
    \<and> map_option dead_letters (pr_dlq p')
      = Some (last_n n (map Some (gathered exec_proto refused xs (new_protocol (Some cfg)))))"
proof -
  let ?p = "new_protocol (Some cfg)" and ?d = "new_dlq (pg_dlq_size cfg)"
  have held: "held_for k ?p = []"
    by (simp add: held_for_def new_protocol_def new_queue_registry_def Let_def)
  have d: "pr_dlq ?p = Some ?d" using assms(2) by (simp add: new_protocol_def Let_def)
  have wf: "dlq_wf ?d" "dead_letters ?d = last_n (nat (dq_max ?d)) (map Some [])"
    by (simp_all add: new_dlq_def dlq_wf_def dead_letters_def last_n_def)
  have "nat (dq_max ?d) = n" using assms(3) by (simp add: new_dlq_def)
  with dlq_run [OF d wf, of xs] have "map_option dead_letters (pr_dlq p')
      = Some (last_n n (map Some (gathered exec_proto refused xs ?p)))" using assms(1) by auto
  moreover have "list_all (\<lambda>_. True) xs" by (simp add: list_all_iff)
  ultimately show ?thesis using mailbox.run_order [where s = ?p and xs = xs and k = k] held assms(1) by simp
qed

definition sample_traffic :: "proto_op list" where
  "sample_traffic =
     (let m = (\<lambda>i k. new_ack_message i 0 ''boss'' k '''' '''')
      in [PSend 1 (Some (m ''1'' ''a'')), PSend 2 (Some (m ''2'' ''b'')), PSend 3 (Some (m ''3'' ''a'')),
          PSend 4 (Some (m ''4'' ''a'')), PReceive None False ''a'', PSend 5 (Some (m ''5'' ''a'')),
          PSend 6 (Some (m ''6'' ''a''))])"

definition sample_protocol_config :: protocol_config where
  "sample_protocol_config = default_protocol_config\<lparr>pg_queue_size := 2, pg_dlq_size := 1\<rparr>"

lemma delivery_exact_witness:
  "map am_id (gathered exec_proto (received_by ''a'') sample_traffic (new_protocol (Some sample_protocol_config)))
     = [''1'']
   \<and> map am_id (held_for ''a'' (fold exec_proto sample_traffic (new_protocol (Some sample_protocol_config))))
     = [''3'', ''5'']
   \<and> map_option (map (map_option am_id) \<circ> dead_letters)
       (pr_dlq (fold exec_proto sample_traffic (new_protocol (Some sample_protocol_config)))) = Some [Some ''6'']"
proof -
  let ?p = "new_protocol (Some sample_protocol_config)"
  have e: "pg_enable_dlq sample_protocol_config"
    "1 = nat (if pg_dlq_size sample_protocol_config \<le> 0 then 10000 else pg_dlq_size sample_protocol_config)"
    by code_simp+
  have d: "map_option dead_letters (pr_dlq (fold exec_proto sample_traffic ?p))
      = Some (last_n 1 (map Some (gathered exec_proto refused sample_traffic ?p)))"
    using delivery_exact [OF refl e] by simp
  have "map am_id (gathered exec_proto refused sample_traffic ?p) = [''4'', ''6'']" by code_simp
  then obtain a b where "gathered exec_proto refused sample_traffic ?p = [a, b]" "am_id b = ''6''"
    by (auto simp: map_eq_Cons_conv)
  with d have "map_option (map (map_option am_id) \<circ> dead_letters)
      (pr_dlq (fold exec_proto sample_traffic ?p)) = Some [Some ''6'']"
    by (cases "pr_dlq (fold exec_proto sample_traffic ?p)") (simp_all add: last_n_def)
  moreover have "map am_id (gathered exec_proto (received_by ''a'') sample_traffic ?p) = [''1'']" by code_simp
  moreover have "map am_id (held_for ''a'' (fold exec_proto sample_traffic ?p)) = [''3'', ''5'']" by code_simp
  ultimately show ?thesis by simp
qed

text \<open>
  \<open>Peek\<close> sends the message it looked at back to the end of the channel, so it rotates the queue, and a
  \<open>Close\<close> between its two halves makes it panic.
\<close>

lemma peek_rotates:
  "let q = fold exec_queue [QEnqueue ''a'', QEnqueue ''b'', QPeek] (new_queue ''k'' None)
   in fst (peek id (fold exec_queue [QEnqueue ''a'', QEnqueue ''b''] (new_queue ''k'' None))) = Inr ''a''
      \<and> returned (fst (dequeue None False q)) = [''b'']"
  by code_simp

lemma peek_panics:
  "fst (peek close_queue (snd (enqueue ''a'' (new_queue ''k'' None)))) = Inl PanicSendOnClosed"
  by code_simp

text \<open>Closing a queue drains nothing: what is in it can still be received.\<close>

lemma close_keeps_messages:
  "returned (fst (dequeue None False (close_queue (snd (enqueue ''a'' (new_queue ''k'' None)))))) = [''a'']"
  by code_simp

text \<open>Removing a session also removes the entries without a message.\<close>

lemma remove_session_drops_empty:
  "dq_messages (dlq_remove_session ''s'' (dlq_add 0 None ErrQueueFull ''r'' (new_dlq 5))) = []"
  by code_simp

section \<open>Heartbeats\<close>

datatype monitor_op =
    HBeat time string
  | HCheck "string list" time
  | HRemove string

fun exec_monitor :: "monitor_op \<Rightarrow> heartbeat_monitor \<Rightarrow> heartbeat_monitor" where
  "exec_monitor (HBeat now aid) m = record_heartbeat now aid m"
| "exec_monitor (HCheck ord now) m = snd (check_timeouts ord now m)"
| "exec_monitor (HRemove aid) m = remove_agent aid m"

text \<open>The agent sends nothing and stays registered, and every sweep visits it.\<close>

fun silent :: "string \<Rightarrow> monitor_op \<Rightarrow> bool" where
  "silent aid (HBeat now b) = (b \<noteq> aid)"
| "silent aid (HCheck ord now) = (aid \<in> set ord \<and> distinct ord)"
| "silent aid (HRemove b) = (b \<noteq> aid)"

fun reports :: "string \<Rightarrow> monitor_op \<Rightarrow> heartbeat_monitor \<Rightarrow> string list" where
  "reports aid (HCheck ord now) m = [b \<leftarrow> fst (fst (check_timeouts ord now m)). b = aid]"
| "reports aid _ m = []"

text \<open>The sweeps that find the agent silent for longer than the timeout.\<close>

definition late_sweeps :: "duration \<Rightarrow> time \<Rightarrow> monitor_op list \<Rightarrow> nat" where
  "late_sweeps timeout seen xs =
     length [x \<leftarrow> xs. case x of HCheck ord now \<Rightarrow> now - seen > timeout | _ \<Rightarrow> False]"

abbreviation sweep_step :: "time \<Rightarrow> string \<Rightarrow> string list \<times> heartbeat_monitor \<Rightarrow> string list \<times> heartbeat_monitor" where
  "sweep_step now \<equiv> \<lambda>aid (out, m1).
        case hm_agents m1 aid of
          None \<Rightarrow> (out, m1)
        | Some hb \<Rightarrow>
            (case check_agent (hm_config m1) now hb of
               (hb1, timed_out) \<Rightarrow>
                 (if timed_out then out @ [aid] else out, m1\<lparr>hm_agents := (hm_agents m1)(aid \<mapsto> hb1)\<rparr>))"

lemma sweep_effect:
  assumes "distinct ks" "\<forall>k \<in> set ks. hm_agents m k \<noteq> None"
  shows "fold (sweep_step now) ks (out, m)
    = (out @ [k \<leftarrow> ks. snd (check_agent (hm_config m) now (the (hm_agents m k)))],
       m\<lparr>hm_agents := (\<lambda>k. if k \<in> set ks
         then map_option (\<lambda>hb. fst (check_agent (hm_config m) now hb)) (hm_agents m k) else hm_agents m k)\<rparr>)"
  using assms
proof (induction ks arbitrary: out m)
  case (Cons k ks)
  obtain hb where hb: "hm_agents m k = Some hb" using Cons.prems by auto
  obtain hb1 t where c: "check_agent (hm_config m) now hb = (hb1, t)" by fastforce
  let ?m = "m\<lparr>hm_agents := (hm_agents m)(k \<mapsto> hb1)\<rparr>" and ?out = "if t then out @ [k] else out"
  have step: "fold (sweep_step now) (k # ks) (out, m) = fold (sweep_step now) ks (?out, ?m)"
    by (simp add: hb c)
  have ks: "distinct ks" "\<forall>j \<in> set ks. hm_agents ?m j \<noteq> None" "k \<notin> set ks" using Cons.prems by auto
  have "[j \<leftarrow> ks. snd (check_agent (hm_config ?m) now (the (hm_agents ?m j)))]
      = [j \<leftarrow> ks. snd (check_agent (hm_config m) now (the (hm_agents m j)))]"
    using ks(3) by (intro filter_cong refl) auto
  then show ?case unfolding step Cons.IH [OF ks(1,2)] using ks(3)
    by (auto simp: hb c fun_eq_iff)
qed simp

lemma filter_eq_distinct: "distinct ks \<Longrightarrow> a \<in> set ks \<Longrightarrow> [k \<leftarrow> ks. k = a] = [a]"
  by (induction ks) (auto simp: filter_empty_conv)

lemma check_effect:
  assumes "hm_agents m aid = Some hb" "aid \<in> set ord" "distinct ord"
  shows "hm_agents (snd (check_timeouts ord now m)) aid = Some (fst (check_agent (hm_config m) now hb))"
    "[b \<leftarrow> fst (fst (check_timeouts ord now m)). b = aid]
      = (if snd (check_agent (hm_config m) now hb) then [aid] else [])"
    "hm_config (snd (check_timeouts ord now m)) = hm_config m"
proof -
  let ?ks = "range_keys (hm_agents m) ord"
  have ks: "distinct ?ks" "\<forall>k \<in> set ?ks. hm_agents m k \<noteq> None" "aid \<in> set ?ks"
    using assms by auto
  have m: "mark_offline ord now m = fold (sweep_step now) ?ks ([], m)" by (simp add: mark_offline_def)
  obtain out m1 where om: "mark_offline ord now m = (out, m1)" by fastforce
  have out: "out = [k \<leftarrow> ?ks. snd (check_agent (hm_config m) now (the (hm_agents m k)))]"
    and m1: "m1 = m\<lparr>hm_agents := (\<lambda>k. if k \<in> set ?ks
        then map_option (\<lambda>hb. fst (check_agent (hm_config m) now hb)) (hm_agents m k) else hm_agents m k)\<rparr>"
    using sweep_effect [OF ks(1,2), of now "[]"] om m by simp_all
  show "hm_agents (snd (check_timeouts ord now m)) aid = Some (fst (check_agent (hm_config m) now hb))"
    "hm_config (snd (check_timeouts ord now m)) = hm_config m"
    using ks(3) assms(1) by (simp_all add: check_timeouts_def om m1)
  have "[b \<leftarrow> out. b = aid] = [b \<leftarrow> [k \<leftarrow> ?ks. k = aid]. snd (check_agent (hm_config m) now hb)]"
    unfolding out filter_filter using assms(1) by (intro filter_cong refl) auto
  also have "[k \<leftarrow> ?ks. k = aid] = [aid]"
    by (rule filter_eq_distinct [OF ks(1,3)])
  finally show "[b \<leftarrow> fst (fst (check_timeouts ord now m)). b = aid]
      = (if snd (check_agent (hm_config m) now hb) then [aid] else [])"
    by (simp add: check_timeouts_def om)
qed

text \<open>From a heartbeat on, the state of the agent counts the late sweeps until it is offline.\<close>

definition heard :: "string \<Rightarrow> time \<Rightarrow> nat \<Rightarrow> heartbeat_monitor \<Rightarrow> bool" where
  "heard aid seen c m \<longleftrightarrow> (\<exists>hb. hm_agents m aid = Some hb \<and> hb_seen hb = seen \<and>
     (if int c \<ge> max 1 (hc_max_missed (hm_config m)) then hb_status hb = StatusOffline
      else hb_status hb \<noteq> StatusOffline \<and> hb_missed hb = int c))"

lemma silent_step:
  assumes "heard aid seen c m" "silent aid x" "late_sweeps (hc_timeout (hm_config m)) seen [x] = j"
  shows "heard aid seen (c + j) (exec_monitor x m) \<and> hm_config (exec_monitor x m) = hm_config m
    \<and> reports aid x m = (if int c < max 1 (hc_max_missed (hm_config m))
        \<and> max 1 (hc_max_missed (hm_config m)) \<le> int (c + j) then [aid] else [])"
proof (cases x)
  case (HCheck ord now)
  obtain hb where hb: "hm_agents m aid = Some hb" "hb_seen hb = seen"
    "if int c \<ge> max 1 (hc_max_missed (hm_config m)) then hb_status hb = StatusOffline
      else hb_status hb \<noteq> StatusOffline \<and> hb_missed hb = int c" using assms(1) by (auto simp: heard_def)
  have ord: "aid \<in> set ord" "distinct ord" using assms(2) HCheck by simp_all
  note eff = check_effect [OF hb(1) ord, of now]
  have j: "j = (if now - seen > hc_timeout (hm_config m) then 1 else 0)"
    using assms(3) HCheck by (auto simp: late_sweeps_def)
  show ?thesis using HCheck hb(2,3) eff j
    by (auto simp: heard_def check_agent_def Let_def split: if_splits)
next
  case (HBeat now b)
  then show ?thesis using assms
    by (auto simp: heard_def record_heartbeat_def late_sweeps_def split: option.splits)
next
  case (HRemove b)
  then show ?thesis using assms by (auto simp: heard_def remove_agent_def late_sweeps_def)
qed

lemma silent_run:
  assumes "heard aid seen c m" "list_all (silent aid) xs"
    and "j = late_sweeps (hc_timeout (hm_config m)) seen xs" "n = max 1 (hc_max_missed (hm_config m))"
  shows "heard aid seen (c + j) (fold exec_monitor xs m) \<and> hm_config (fold exec_monitor xs m) = hm_config m
    \<and> gathered exec_monitor (reports aid) xs m = (if int c < n \<and> n \<le> int (c + j) then [aid] else [])"
  using assms
proof (induction xs arbitrary: c m j)
  case (Cons x xs)
  define j1 where "j1 = late_sweeps (hc_timeout (hm_config m)) seen [x]"
  define j2 where "j2 = late_sweeps (hc_timeout (hm_config m)) seen xs"
  have j: "j = j1 + j2" using Cons.prems(3) by (simp add: j1_def j2_def late_sweeps_def)
  have s: "heard aid seen (c + j1) (exec_monitor x m)" "hm_config (exec_monitor x m) = hm_config m"
    "reports aid x m = (if int c < n \<and> n \<le> int (c + j1) then [aid] else [])"
    using silent_step [OF Cons.prems(1), of x j1] Cons.prems(2,4) j1_def by simp_all
  have "heard aid seen (c + j1 + j2) (fold exec_monitor xs (exec_monitor x m))
    \<and> hm_config (fold exec_monitor xs (exec_monitor x m)) = hm_config (exec_monitor x m)
    \<and> gathered exec_monitor (reports aid) xs (exec_monitor x m)
      = (if int (c + j1) < n \<and> n \<le> int (c + j1 + j2) then [aid] else [])"
    by (rule Cons.IH [OF s(1)]) (use Cons.prems(2,4) s(2) j2_def in simp_all)
  then show ?case using s j by (auto simp: add.assoc)
qed (auto simp: late_sweeps_def)

text \<open>C24: Death is detected exactly once. After a heartbeat of an agent that then stays silent, the
  sweeps report it exactly when the configured number of them (at least one) have found it silent for
  longer than the timeout; they report it once, whatever the order of the map and however many sweeps
  follow, and it is offline from then on and not before.\<close>

theorem death_detected_once:
  assumes "aid \<noteq> ''''" "m = record_heartbeat seen aid m0" "list_all (silent aid) xs"
    and "n = max 1 (hc_max_missed (hm_config m0))"
    and "late = int (late_sweeps (hc_timeout (hm_config m0)) seen xs)"
  shows "gathered exec_monitor (reports aid) xs m = (if n \<le> late then [aid] else [])
    \<and> (heartbeat_status aid (fold exec_monitor xs m) = Some StatusOffline \<longleftrightarrow> n \<le> late)"
proof -
  have m: "heard aid seen 0 m" "hm_config m = hm_config m0"
    using assms(1,2) by (auto simp: heard_def record_heartbeat_def split: option.splits)
  from silent_run [OF m(1) assms(3) refl refl]
  have r: "heard aid seen (late_sweeps (hc_timeout (hm_config m)) seen xs) (fold exec_monitor xs m)"
    "hm_config (fold exec_monitor xs m) = hm_config m"
    "gathered exec_monitor (reports aid) xs m = (if n \<le> late then [aid] else [])"
    using assms(4,5) m(2) by simp_all
  then show ?thesis using assms(4,5) m(2)
    by (auto simp: heard_def heartbeat_status_def split: if_splits)
qed

definition sample_sweeps :: "monitor_op list" where
  "sample_sweeps =
     [HCheck [''b'', ''a''] 20000000000, HCheck [''a''] 31000000000, HBeat 32000000000 ''b'',
      HCheck [''a'', ''b''] 40000000000, HCheck [''b'', ''a''] 50000000000, HCheck [''a''] 60000000000]"

lemma death_detected_once_witness:
  "gathered exec_monitor (reports ''a'') sample_sweeps (record_heartbeat 0 ''a'' (new_monitor None)) = [''a'']
   \<and> heartbeat_status ''a'' (fold exec_monitor sample_sweeps (record_heartbeat 0 ''a'' (new_monitor None)))
     = Some StatusOffline"
proof -
  have h: "''a'' \<noteq> ''''" "list_all (silent ''a'') sample_sweeps"
    "3 = max 1 (hc_max_missed (hm_config (new_monitor None)))"
    "4 = int (late_sweeps (hc_timeout (hm_config (new_monitor None))) 0 sample_sweeps)"
    by code_simp+
  show ?thesis using death_detected_once [OF h(1) refl h(2,3,4)] by simp
qed

section \<open>Retry budgets of dead letters\<close>

definition budgets_kept :: "dlq \<Rightarrow> bool" where
  "budgets_kept d \<longleftrightarrow> (\<forall>i e. dq_heap d i = Some e \<longrightarrow>
     i < dq_next d \<and> (0 < de_max e \<longrightarrow> de_retries e \<le> de_max e))"

text \<open>A handler may add and remove entries; it does not tamper with those there are.\<close>

definition calm :: "dlq_handler \<Rightarrow> bool" where
  "calm h \<longleftrightarrow> (\<forall>i d. budgets_kept d \<longrightarrow> budgets_kept (snd (h i d)))"

lemma budgets_add: "budgets_kept d \<Longrightarrow> budgets_kept (dlq_add_max now msg e reason n d)"
  by (auto simp: budgets_kept_def dlq_add_max_def Let_def less_Suc_eq)

lemma budgets_shrink [simp]:
  "budgets_kept (dlq_remove i d) = budgets_kept d" "budgets_kept (dlq_clear d) = budgets_kept d"
  "budgets_kept (dlq_remove_session s d) = budgets_kept d"
  by (simp_all add: budgets_kept_def dlq_remove_def dlq_clear_def dlq_remove_session_def)

definition processor_wf :: "dlq_processor \<Rightarrow> bool" where
  "processor_wf p \<longleftrightarrow> budgets_kept (dp_dlq p) \<and> (\<forall>ty h. dp_handlers p ty = Some h \<longrightarrow> calm h)"

lemma process_loop_wf: "processor_wf p \<Longrightarrow> processor_wf (snd (process_loop is p))"
proof (induction "is" p rule: process_loop.induct)
  case (2 i "is" p)
  show ?case
  proof (cases "dq_heap (dp_dlq p) i")
    case (Some e)
    show ?thesis
    proof (cases "de_max e > 0 \<and> de_retries e \<ge> de_max e")
      case False
      let ?e = "e\<lparr>de_retries := de_retries e + 1\<rparr>"
      let ?p = "p\<lparr>dp_dlq := (dp_dlq p)\<lparr>dq_heap := (dq_heap (dp_dlq p))(i \<mapsto> ?e)\<rparr>\<rparr>"
      have p: "processor_wf ?p" using 2(4) Some False by (auto simp: processor_wf_def budgets_kept_def)
      show ?thesis
      proof (cases "process_entry i ?e ?p")
        case None
        then show ?thesis using p Some False by (auto simp: Let_def)
      next
        case (Some r)
        have "budgets_kept (snd r)"
          using p Some by (auto simp: process_entry_def processor_wf_def calm_def split: option.splits if_splits)
        then have "processor_wf (if fst r then ?p\<lparr>dp_dlq := dlq_remove i (snd r), dp_processed := dp_processed ?p + 1\<rparr>
            else ?p\<lparr>dp_dlq := snd r, dp_failed := dp_failed ?p + 1\<rparr>)"
          using p by (simp add: processor_wf_def)
        from 2(3) [OF \<open>dq_heap (dp_dlq p) i = Some e\<close> False refl refl Some, of "fst r" "snd r", OF _ this]
        show ?thesis using \<open>dq_heap (dp_dlq p) i = Some e\<close> False Some by (auto simp: Let_def split: prod.split)
      qed
    qed (use 2 Some in simp)
  qed (use 2 in simp)
qed simp

lemma exhausted_entry_skipped:
  "dq_heap (dp_dlq p) i = Some e \<Longrightarrow> 0 < de_max e \<Longrightarrow> de_max e \<le> de_retries e \<Longrightarrow>
   process_loop (i # is) p = process_loop is p"
  by simp

section \<open>Task results over the wire\<close>

text \<open>What a reader of the JSON document gets: the rest of the result is gone.\<close>

definition wire_item :: "recommend_item \<Rightarrow> recommend_item" where
  "wire_item x = x\<lparr>ri_rest := []\<rparr>"

definition wire_part :: "task_result \<Rightarrow> task_result" where
  "wire_part r =
     r\<lparr>tr_agent_type := '''', tr_metadata := GNil, tr_duration := 0, tr_created := '''',
       tr_items := Some (case tr_items r of None \<Rightarrow> [] | Some is \<Rightarrow> [Some (wire_item x). Some x \<leftarrow> is])\<rparr>"

lemma reconstruct_item_document:
  "item_document (Some x) = GMap d \<Longrightarrow> reconstruct_item d = wire_item x"
  by (auto simp: item_document_def reconstruct_item_def string_field_def wire_item_def)

lemma reconstruct_items_document:
  "reconstruct_items (map item_document is) = [Some (wire_item x). Some x \<leftarrow> is]"
proof (induction "is")
  case (Cons i "is")
  show ?case
  proof (cases i)
    case (Some x)
    then obtain d where "item_document (Some x) = GMap d" by (auto simp: item_document_def)
    with Cons reconstruct_item_document [OF this] Some show ?thesis
      by (simp add: reconstruct_items_def List.map_filter_simps)
  next
    case None
    have "item_document None = GNil" by (simp add: item_document_def)
    with Cons None show ?thesis by (simp add: reconstruct_items_def List.map_filter_simps)
  qed
qed (simp add: reconstruct_items_def List.map_filter_simps)

text \<open>What survives the wire. A result message taken from memory gives back exactly the result; one
  that went through JSON gives back its task, success, reason and error, and of every item that is not
  nil its id, category, name and price, in order; everything else is lost.\<close>

theorem result_over_wire:
  "get_result deref (new_result_message mid now agent target tid sid (GOpaque ''*models.TaskResult'' n))
     = Some (deref n)
   \<and> get_result deref (new_result_message mid now agent target tid sid (result_document r)) = Some (wire_part r)"
proof -
  have "reconstruct_result (case result_document r of GMap d \<Rightarrow> d) = wire_part r"
    by (cases "tr_items r")
      (simp_all add: result_document_def reconstruct_result_def string_field_def wire_part_def
        reconstruct_items_document)
  moreover obtain d where "result_document r = GMap d" by (auto simp: result_document_def)
  ultimately show ?thesis
    by (simp add: get_result_def new_result_message_def new_message_def payload_get_def)
qed

section \<open>Peers\<close>

interpretation peers: registry "\<lambda>r k. lookup_peer k r" "\<lambda>k f r. snd (register_peer k (Some f) r)" unregister_peer
    "\<lambda>k. k \<noteq> ''''"
  by unfold_locales (simp_all add: lookup_peer_def register_peer_def unregister_peer_def)

text \<open>The last registration of a peer gets the message, stamped with its target.\<close>

lemma peer_gets_message:
  assumes "list_all (\<lambda>kv. fst kv \<noteq> '''') kvs"
  shows "send_peer k (Some m) (fold (\<lambda>(k, f) r. snd (register_peer k (Some f) r)) kvs Map.empty)
    = (case map_of (rev kvs) k of None \<Rightarrow> Inl ErrPeerUnknown | Some f \<Rightarrow> Inr (f, m\<lparr>am_target := k\<rparr>))"
proof -
  have "lookup_peer k (fold (\<lambda>(k, f). \<lambda>r. snd (register_peer k (Some f) r)) kvs Map.empty) = map_of (rev kvs) k"
    using peers.lookup_put_all [where kvs = kvs and s = Map.empty and j = k] assms
    by (simp add: comp_def lookup_peer_def split: option.splits)
  then show ?thesis by (simp add: send_peer_def clone_message_def split: option.splits)
qed

end
