(* ===== verification/Recovery.thy ===== *)
theory Recovery
  imports Task_Fabric_Props Agent_Fabric_Props Agent_Context
begin

text \<open>
  Package \<open>internal/aresrecovery\<close>: the recovery of tasks and agents after a death (\<open>recovery.go\<close>), the
  spawn gate of the evolution (\<open>evolution_spawner.go\<close>), failure injection (\<open>chaos.go\<close>) and the sandbox that
  replays scripted failures (\<open>sandbox.go\<close>). All of them work on the two fabrics: the state holds both.
  The spawner and the sandbox are wired to the fabrics of the recovery.
\<close>

section \<open>The spawn gate\<close>

record spawn_policy =
  sp_enabled :: bool
  sp_max :: int
  sp_preferred :: "string list"

text \<open>No spawner, a spawner without a source, or one whose source answers with a policy or an error.\<close>

datatype spawn_source = NoSpawner | NoSource | Source "spawn_policy option"

datatype recovery_error =
    ErrTask fabric_error
  | ErrAgent agent_error
  | ErrNotRecoverable
  | ErrRecoveryExhausted
  | ErrSpawnDisabled
  | ErrSpawnLimitReached
  | ErrSpawnPolicy
  | ErrUnknownFailure
  | ErrUnknownEvent

definition merge_capabilities :: "string list \<Rightarrow> string list \<Rightarrow> string list" where
  "merge_capabilities base extra =
     fold (\<lambda>c out. if c \<noteq> '''' \<and> c \<notin> set out then out @ [c] else out) extra base"

definition spawn_agent_error ::
  "(agent_error, 'c agent, 'c agent_fabric) outcome \<Rightarrow> (recovery_error, 'c agent, 'c agent_fabric) outcome" where
  "spawn_agent_error r = map_prod (map_sum ErrAgent id) id r"

text \<open>\<open>len(Agents())\<close> counts every registered agent, the retired ones included.\<close>

definition gated_spawn ::
  "string list \<Rightarrow> spawn_policy option option \<Rightarrow> bool \<Rightarrow> 'c spawn_spec \<Rightarrow> 'c agent_fabric
    \<Rightarrow> (recovery_error, 'c agent, 'c agent_fabric) outcome" where
  "gated_spawn ord source skip_quota spec f =
     (case (case source of None \<Rightarrow> Some \<lparr>sp_enabled = True, sp_max = 0, sp_preferred = []\<rparr> | Some p \<Rightarrow> p) of
        None \<Rightarrow> (Inl ErrSpawnPolicy, f)
      | Some p \<Rightarrow>
          if \<not> sp_enabled p then (Inl ErrSpawnDisabled, f)
          else if \<not> skip_quota \<and> sp_max p > 0 \<and> int (length (agent_ids ord f)) \<ge> sp_max p
          then (Inl ErrSpawnLimitReached, f)
          else spawn_agent_error
                 (spawn (spec\<lparr>ss_capabilities := merge_capabilities (ss_capabilities spec) (sp_preferred p)\<rparr>) f))"

section \<open>Recovery\<close>

record restart_policy =
  rs_max :: int
  rs_backoff :: duration
  rs_max_backoff :: duration

definition default_restart_policy :: restart_policy where
  "default_restart_policy = \<lparr>rs_max = 5, rs_backoff = 1000000000, rs_max_backoff = 30000000000\<rparr>"

record 'c recovery =
  rc_tasks :: fabric
  rc_agents :: "'c agent_fabric"
  rc_spawner :: spawn_source
  rc_factory :: "(string list \<Rightarrow> 'c option) option"
  rc_policy :: restart_policy
  rc_restarts :: "string \<rightharpoonup> int"

definition new_recovery :: "fabric \<Rightarrow> 'c agent_fabric \<Rightarrow> restart_policy \<Rightarrow> 'c recovery" where
  "new_recovery tf af pol =
     (let p1 = (if rs_max pol = 0 then default_restart_policy else pol);
          p2 = (if rs_backoff p1 = 0 then p1\<lparr>rs_backoff := 1000000000\<rparr> else p1);
          p3 = (if rs_max_backoff p2 = 0 then p2\<lparr>rs_max_backoff := 30000000000\<rparr> else p2)
      in \<lparr>rc_tasks = tf, rc_agents = af, rc_spawner = NoSpawner, rc_factory = None, rc_policy = p3,
          rc_restarts = Map.empty\<rparr>)"

definition with_spawner :: "spawn_source \<Rightarrow> 'c recovery \<Rightarrow> 'c recovery" where
  "with_spawner s r = r\<lparr>rc_spawner := s\<rparr>"

definition with_cognition_factory :: "(string list \<Rightarrow> 'c option) option \<Rightarrow> 'c recovery \<Rightarrow> 'c recovery" where
  "with_cognition_factory fac r = r\<lparr>rc_factory := fac\<rparr>"

definition plain_spec :: "string list \<Rightarrow> 'c spawn_spec" where
  "plain_spec caps =
     \<lparr>ss_identity = '''', ss_capabilities = caps, ss_parent = '''', ss_task_context = Map.empty,
      ss_resources = [], ss_governance = \<lparr>gv_token_budget = 0, gv_tool_budget = 0, gv_deadline = 0\<rparr>,
      ss_priority = 0, ss_factory = None, ss_prior = GNil\<rparr>"

definition spawn_agent ::
  "'c spawn_spec \<Rightarrow> 'c recovery \<Rightarrow> (recovery_error, 'c agent, 'c recovery) outcome" where
  "spawn_agent spec r =
     (let spec1 = (if rc_factory r \<noteq> None \<and> ss_factory spec = None
                   then spec\<lparr>ss_factory := rc_factory r\<rparr> else spec);
          res = (case rc_spawner r of
                   NoSpawner \<Rightarrow> spawn_agent_error (spawn spec1 (rc_agents r))
                 | NoSource \<Rightarrow> gated_spawn [] None True spec1 (rc_agents r)
                 | Source p \<Rightarrow> gated_spawn [] (Some p) True spec1 (rc_agents r))
      in (fst res, r\<lparr>rc_agents := snd res\<rparr>))"

definition requeue_expired_leases :: "string list \<Rightarrow> 'c recovery \<Rightarrow> string list \<times> 'c recovery" where
  "requeue_expired_leases ord r =
     (case check_expired_leases ord (rc_tasks r) of (out, tf) \<Rightarrow> (out, r\<lparr>rc_tasks := tf\<rparr>))"

definition minute :: duration where
  "minute = 60000000000"

text \<open>
  The three steps of \<open>RecoverTaskCheckpoint\<close>: a replacement, the lease for it, the checkpoint into it.
  An error leaves what the steps before it did.
\<close>

definition install_checkpoint ::
  "string \<Rightarrow> goval \<Rightarrow> 'c recovery \<Rightarrow> (recovery_error, unit, 'c recovery) outcome" where
  "install_checkpoint aid cp r =
     (if cp = GNil then (Inr (), r)
      else (case set_cognitive_state aid (zero_cognitive\<lparr>cs_checkpoint := cp, cs_context := cp\<rparr>) (rc_agents r) of
              (Inl e, af) \<Rightarrow> (Inl (ErrAgent e), r\<lparr>rc_agents := af\<rparr>)
            | (Inr _, af) \<Rightarrow> (Inr (), r\<lparr>rc_agents := af\<rparr>)))"

definition claim_for ::
  "string \<Rightarrow> string \<Rightarrow> goval \<Rightarrow> 'c recovery \<Rightarrow> (recovery_error, string \<times> u64, 'c recovery) outcome" where
  "claim_for tid aid cp r =
     (case acquire tid aid minute (rc_tasks r) of
        (Inl e, tf) \<Rightarrow> (Inl (ErrTask e), r\<lparr>rc_tasks := tf\<rparr>)
      | (Inr ep, tf) \<Rightarrow>
          (case install_checkpoint aid cp (r\<lparr>rc_tasks := tf\<rparr>) of
             (Inl e, r1) \<Rightarrow> (Inl e, r1)
           | (Inr _, r1) \<Rightarrow> (Inr (aid, ep), r1)))"

definition recover_task_checkpoint ::
  "string \<Rightarrow> string \<Rightarrow> 'c recovery \<Rightarrow> (recovery_error, string \<times> u64, 'c recovery) outcome" where
  "recover_task_checkpoint tid replacement r =
     (case get_task tid (rc_tasks r) of
        Inl e \<Rightarrow> (Inl (ErrTask e), r)
      | Inr t \<Rightarrow>
          if t_state t \<noteq> StateReady \<and> t_state t \<noteq> StateSuspended then (Inl ErrNotRecoverable, r)
          else if replacement \<noteq> '''' then claim_for tid replacement (t_checkpoint t) r
          else (case spawn_agent (plain_spec [t_capability t]) r of
                  (Inl e, r1) \<Rightarrow> (Inl e, r1)
                | (Inr a, r1) \<Rightarrow> claim_for tid (a_identity a) (t_checkpoint t) r1))"

definition restart_count :: "string \<Rightarrow> 'c recovery \<Rightarrow> int" where
  "restart_count aid r = (case rc_restarts r aid of None \<Rightarrow> 0 | Some n \<Rightarrow> n)"

definition restart_spec :: "string \<Rightarrow> string list \<Rightarrow> 'c recovery \<Rightarrow> 'c spawn_spec" where
  "restart_spec aid caps r =
     (if last_snapshot aid (rc_agents r) \<noteq> None then (plain_spec caps)\<lparr>ss_identity := aid\<rparr> else plain_spec caps)"

definition restart_agent ::
  "string \<Rightarrow> cognitive_state \<Rightarrow> string list \<Rightarrow> 'c recovery \<Rightarrow> (recovery_error, 'c agent, 'c recovery) outcome" where
  "restart_agent aid cog caps r =
     (if restart_count aid r \<ge> rs_max (rc_policy r) then (Inl ErrRecoveryExhausted, r)
      else
        (let r1 = r\<lparr>rc_restarts := (rc_restarts r)(aid \<mapsto> restart_count aid r + 1)\<rparr>
         in case spawn_agent (restart_spec aid caps r1) r1 of
              (Inl e, r2) \<Rightarrow> (Inl e, r2)
            | (Inr a, r2) \<Rightarrow>
                (case recover (a_identity a) cog (rc_agents r2) of
                   (Inl e, af) \<Rightarrow> (Inl (ErrAgent e), r2\<lparr>rc_agents := af\<rparr>)
                 | (Inr _, af) \<Rightarrow> (Inr a, r2\<lparr>rc_agents := clear_snapshot aid af\<rparr>))))"

definition revivable_snapshot :: "string list \<Rightarrow> string \<Rightarrow> 'c recovery \<Rightarrow> (string \<times> agent_snapshot) option" where
  "revivable_snapshot ord cap r = find_revivable_snapshot ord cap (rc_agents r)"

text \<open>The loop of \<open>RecoverFromAgentDeath\<close>: a failure is logged and the next task tried.\<close>

fun recover_tasks :: "string list \<Rightarrow> 'c recovery \<Rightarrow> int \<times> 'c recovery" where
  "recover_tasks [] r = (0, r)"
| "recover_tasks (tid # tids) r =
     (case recover_task_checkpoint tid '''' r of
        (Inl e, r1) \<Rightarrow> recover_tasks tids r1
      | (Inr _, r1) \<Rightarrow> (case recover_tasks tids r1 of (n, r2) \<Rightarrow> (n + 1, r2)))"

definition recover_from_agent_death :: "string list \<Rightarrow> 'c recovery \<Rightarrow> int \<times> 'c recovery" where
  "recover_from_agent_death ord r =
     (case requeue_expired_leases ord r of
        (tids, r1) \<Rightarrow> if tids = [] then (0, r1) else recover_tasks tids r1)"

record recovery_task =
  rt_id :: string
  rt_capability :: string
  rt_checkpoint :: goval

definition recovery_tasks_for :: "string list \<Rightarrow> 'c recovery \<Rightarrow> recovery_task list" where
  "recovery_tasks_for tids r =
     List.map_filter (\<lambda>tid. case get_task tid (rc_tasks r) of
         Inl e \<Rightarrow> None
       | Inr t \<Rightarrow> Some \<lparr>rt_id = t_id t, rt_capability = t_capability t, rt_checkpoint = t_checkpoint t\<rparr>) tids"

section \<open>Failure injection\<close>

datatype failure_type = FailureKill | FailureSuspend | FailureOther string

record 'c chaos =
  ch_recovery :: "'c recovery"
  ch_injected :: "string \<rightharpoonup> failure_type"

definition inject_failure :: "string \<Rightarrow> failure_type \<Rightarrow> 'c chaos \<Rightarrow> (recovery_error, unit, 'c chaos) outcome" where
  "inject_failure aid fl c =
     (let r = ch_recovery c;
          res = (case fl of
                   FailureKill \<Rightarrow> map_prod (map_sum ErrAgent id) id (kill aid (rc_agents r))
                 | FailureSuspend \<Rightarrow> map_prod (map_sum ErrAgent id) id (suspend aid (rc_agents r))
                 | FailureOther s \<Rightarrow> (Inl ErrUnknownFailure, rc_agents r));
          c1 = c\<lparr>ch_recovery := r\<lparr>rc_agents := snd res\<rparr>\<rparr>
      in case fst res of
           Inl e \<Rightarrow> (Inl e, c1)
         | Inr _ \<Rightarrow> (Inr (), c1\<lparr>ch_injected := (ch_injected c)(aid \<mapsto> fl)\<rparr>))"

definition verify_recovery :: "string list \<Rightarrow> 'c chaos \<Rightarrow> int \<times> 'c chaos" where
  "verify_recovery ord c =
     (case recover_from_agent_death ord (ch_recovery c) of (n, r) \<Rightarrow> (n, c\<lparr>ch_recovery := r\<rparr>))"

text \<open>\<open>AdaptPopulation\<close>: the spawns, then the retirements; it stops at the first error.\<close>

fun adapt_spawns :: "'c spawn_spec list \<Rightarrow> 'c agent_fabric \<Rightarrow> (string list \<times> agent_error option) \<times> 'c agent_fabric" where
  "adapt_spawns [] f = (([], None), f)"
| "adapt_spawns (s # ss) f =
     (case spawn s f of
        (Inl e, f1) \<Rightarrow> (([], Some e), f1)
      | (Inr a, f1) \<Rightarrow> (case adapt_spawns ss f1 of ((out, e), f2) \<Rightarrow> ((a_identity a # out, e), f2)))"

fun adapt_retires :: "string list \<Rightarrow> 'c agent_fabric \<Rightarrow> agent_error option \<times> 'c agent_fabric" where
  "adapt_retires [] f = (None, f)"
| "adapt_retires (aid # aids) f =
     (case retire aid f of (Inl e, f1) \<Rightarrow> (Some e, f1) | (Inr _, f1) \<Rightarrow> adapt_retires aids f1)"

definition adapt_population ::
  "'c spawn_spec list \<Rightarrow> string list \<Rightarrow> 'c agent_fabric \<Rightarrow> (string list \<times> agent_error option) \<times> 'c agent_fabric" where
  "adapt_population ss aids f =
     (case adapt_spawns ss f of
        ((out, Some e), f1) \<Rightarrow> ((out, Some e), f1)
      | ((out, None), f1) \<Rightarrow> (case adapt_retires aids f1 of (e, f2) \<Rightarrow> ((out, e), f2)))"

section \<open>The sandbox\<close>

text \<open>
  A sandbox drives the fabrics of a recovery; \<open>sb_now\<close> is its clock, the injected one or the time of day
  of a run that takes no time. An event carries its type as the string it is. \<open>ord\<close> is the order in which the sweep of
  a recovery meets the tasks.
\<close>

record 'c sandbox =
  sb_recovery :: "'c recovery"
  sb_now :: time

record sandbox_event =
  se_type :: string
  se_task :: string
  se_agent :: string

record sandbox_outcome =
  so_type :: string
  so_task :: string
  so_agent :: string
  so_state :: string
  so_detail :: "(string \<times> goval) list"

definition sandbox_capability :: string where
  "sandbox_capability = ''code''"

fun task_state_name :: "task_state \<Rightarrow> string" where
  "task_state_name StateReady = ''READY''"
| "task_state_name StateLeased = ''LEASED''"
| "task_state_name StateRunning = ''RUNNING''"
| "task_state_name StateSuspended = ''SUSPENDED''"
| "task_state_name StateCompleted = ''COMPLETED''"
| "task_state_name StateFailed = ''FAILED''"

definition set_task_clock :: "time \<Rightarrow> 'c recovery \<Rightarrow> 'c recovery" where
  "set_task_clock now r = r\<lparr>rc_tasks := with_clock now (rc_tasks r)\<rparr>"

definition new_sandbox :: "time \<Rightarrow> 'c recovery \<Rightarrow> 'c sandbox" where
  "new_sandbox now r = \<lparr>sb_recovery = r, sb_now = now\<rparr>"

definition sandbox_with_clock :: "time \<Rightarrow> 'c sandbox \<Rightarrow> 'c sandbox" where
  "sandbox_with_clock now s = \<lparr>sb_recovery = set_task_clock now (sb_recovery s), sb_now = now\<rparr>"

definition sandbox_task_state :: "string \<Rightarrow> 'c recovery \<Rightarrow> string" where
  "sandbox_task_state tid r =
     (case get_task tid (rc_tasks r) of Inl e \<Rightarrow> '''' | Inr t \<Rightarrow> task_state_name (t_state t))"

text \<open>The task a scripted creation makes: every field but the id and the capability is zero.\<close>

definition scripted_task :: "string \<Rightarrow> task" where
  "scripted_task tid =
     \<lparr>t_id = tid, t_capability = sandbox_capability, t_state = StateReady, t_priority = 0, t_owner = '''',
      t_lease = None, t_checkpoint = GNil, t_deps = [], t_deadline = zero_time,
      t_retry = \<lparr>rp_max = 0, rp_attempts = 0\<rparr>, t_origin = ''''\<rparr>"

definition expire_clock :: "'c sandbox \<Rightarrow> 'c recovery" where
  "expire_clock s = set_task_clock (sb_now s + 10 * minute) (sb_recovery s)"

definition sandbox_step ::
  "string list \<Rightarrow> sandbox_event \<Rightarrow> 'c sandbox \<Rightarrow> (recovery_error, (string \<times> goval) list, 'c recovery) outcome"
  where
  "sandbox_step ord ev s =
     (let r = sb_recovery s in
      if se_type ev = ''task.create'' then
        (case create (scripted_task (se_task ev)) (rc_tasks r) of
           (res, tf) \<Rightarrow> (map_sum ErrTask (\<lambda>_. []) res, r\<lparr>rc_tasks := tf\<rparr>))
      else if se_type ev = ''task.acquire'' then
        (case acquire (se_task ev) (se_agent ev) minute (rc_tasks r) of
           (res, tf) \<Rightarrow> (map_sum ErrTask (\<lambda>_. []) res, r\<lparr>rc_tasks := tf\<rparr>))
      else if se_type ev = ''agent.spawn'' then
        (case spawn ((plain_spec [sandbox_capability])\<lparr>ss_identity := se_agent ev\<rparr>) (rc_agents r) of
           (res, af) \<Rightarrow> (map_sum ErrAgent (\<lambda>a. [(''spawned'', GStr (a_identity a))]) res, r\<lparr>rc_agents := af\<rparr>))
      else if se_type ev = ''agent.kill'' then
        (case kill (se_agent ev) (rc_agents r) of
           (res, af) \<Rightarrow> (map_sum ErrAgent (\<lambda>_. []) res, r\<lparr>rc_agents := af\<rparr>))
      else if se_type ev = ''lease.expire'' then
        (Inr [(''clock_advanced'', GBool True)], expire_clock s)
      else if se_type ev = ''recover.all'' then
        (case recover_from_agent_death ord r of (n, r1) \<Rightarrow> (Inr [(''recovered'', GInt n)], r1))
      else (Inl ErrUnknownEvent, r))"

text \<open>\<open>Replay\<close>: an outcome per event, and the first error.\<close>

fun replay_events ::
  "(string list \<times> sandbox_event) list \<Rightarrow> 'c sandbox \<Rightarrow> (sandbox_outcome list \<times> recovery_error option) \<times> 'c sandbox"
  where
  "replay_events [] s = (([], None), s)"
| "replay_events ((ord, ev) # evs) s =
     (case sandbox_step ord ev s of
        (Inl e, r) \<Rightarrow> (([], Some e), s\<lparr>sb_recovery := r\<rparr>)
      | (Inr detail, r) \<Rightarrow>
          (case replay_events evs (s\<lparr>sb_recovery := r\<rparr>) of
             ((out, err), s1) \<Rightarrow>
               ((\<lparr>so_type = se_type ev, so_task = se_task ev, so_agent = se_agent ev,
                  so_state = sandbox_task_state (se_task ev) r, so_detail = detail\<rparr> # out, err), s1)))"

record simulation_result =
  sr_dead :: string
  sr_final_state :: string
  sr_recovered :: bool

definition simulate ::
  "string list \<Rightarrow> string \<Rightarrow> string \<Rightarrow> 'c sandbox \<Rightarrow> (recovery_error, simulation_result, 'c sandbox) outcome" where
  "simulate ord dead tid s =
     (case kill dead (rc_agents (sb_recovery s)) of
        (Inl e, af) \<Rightarrow> (Inl (ErrAgent e), s\<lparr>sb_recovery := (sb_recovery s)\<lparr>rc_agents := af\<rparr>\<rparr>)
      | (Inr _, af) \<Rightarrow>
          (case recover_from_agent_death ord
                  (expire_clock (s\<lparr>sb_recovery := (sb_recovery s)\<lparr>rc_agents := af\<rparr>\<rparr>)) of
             (n, r) \<Rightarrow> (Inr \<lparr>sr_dead = dead, sr_final_state = sandbox_task_state tid r, sr_recovered = (n > 0)\<rparr>,
                        s\<lparr>sb_recovery := r\<rparr>)))"

section \<open>Evolution policies\<close>

text \<open>
  \<open>Apply\<close> of the population adapter and of the quota manager: a source is absent, or answers with a
  policy or an error.
\<close>

datatype 'p policy_source = NoPolicySource | PolicyError | PolicyOf 'p

datatype policy_error = ErrPolicySource | ErrPolicyAgent agent_error

definition apply_population ::
  "('c spawn_spec list \<times> string list) policy_source \<Rightarrow> 'c agent_fabric
    \<Rightarrow> (string list \<times> policy_error option) \<times> 'c agent_fabric" where
  "apply_population source f =
     (case source of
        NoPolicySource \<Rightarrow> (([], None), f)
      | PolicyError \<Rightarrow> (([], Some ErrPolicySource), f)
      | PolicyOf p \<Rightarrow>
          (case adapt_population (fst p) (snd p) f of ((out, e), g) \<Rightarrow> ((out, map_option ErrPolicyAgent e), g)))"

definition apply_quota ::
  "(string \<rightharpoonup> rat) policy_source \<Rightarrow> 'c agent_fabric \<Rightarrow> (policy_error, unit, 'c agent_fabric) outcome" where
  "apply_quota source f =
     (case source of
        NoPolicySource \<Rightarrow> (Inr (), f)
      | PolicyError \<Rightarrow> (Inl ErrPolicySource, f)
      | PolicyOf budget \<Rightarrow> (Inr (), update_resource_budget budget f))"

end
