(* ===== verification/Recovery_Props.thy ===== *)
theory Recovery_Props
  imports Recovery
begin

text \<open>
  The properties of recovery: every task of a dead agent goes on under a replacement that starts from
  the task's checkpoint, the spawn gate lets recovery past the quota but not past the switch, an
  identity is restarted at most as often as its policy allows, and a killed agent whose snapshot is
  kept comes back under its own name.
\<close>

section \<open>Generated names\<close>

text \<open>No agent is registered under a name the fabric will still generate.\<close>

definition ids_fresh :: "'c agent_fabric \<Rightarrow> bool" where
  "ids_fresh f \<longleftrightarrow> (\<forall>n > af_idseq f. af_agents f (''agent-'' @ go_itoa n) = None)"

section \<open>Replacements\<close>

text \<open>What the gate lets a recovery spawn: nothing when it is shut, else the capabilities it adds.\<close>

fun gate_capabilities :: "spawn_source \<Rightarrow> string list option" where
  "gate_capabilities NoSpawner = Some []"
| "gate_capabilities NoSource = Some []"
| "gate_capabilities (Source None) = None"
| "gate_capabilities (Source (Some p)) = (if sp_enabled p then Some (sp_preferred p) else None)"

lemma merge_capabilities_prefix: "\<exists>out. merge_capabilities base extra = base @ out"
proof -
  have "\<exists>out. fold (\<lambda>c out. if c \<noteq> '''' \<and> c \<notin> set out then out @ [c] else out) extra xs = xs @ out" for xs
    by (induction extra arbitrary: xs) (auto, metis append.assoc)
  then show ?thesis by (simp add: merge_capabilities_def)
qed

lemma merge_capabilities_keeps: "c \<in> set base \<Longrightarrow> c \<in> set (merge_capabilities base extra)"
  using merge_capabilities_prefix [of base extra] by auto

lemma merge_capabilities_nil [simp]: "merge_capabilities base [] = base"
  by (simp add: merge_capabilities_def)

definition replacement :: "string \<Rightarrow> string list \<Rightarrow> 'c recovery \<Rightarrow> 'c agent" where
  "replacement cap extra r =
     new_agent (fst (next_id (rc_agents r)))
       ((plain_spec (merge_capabilities [cap] extra))\<lparr>ss_factory := rc_factory r\<rparr>) [] (af_now (rc_agents r))"

lemma replacement_simps [simp]:
  "a_identity (replacement cap extra r) = fst (next_id (rc_agents r))"
  "a_state (replacement cap extra r) = AgentIdle"
  "a_capabilities (replacement cap extra r) = merge_capabilities [cap] extra"
  "a_cognitive (replacement cap extra r) = zero_cognitive"
  "a_parent (replacement cap extra r) = ''''"
  by (simp_all add: replacement_def new_agent_def plain_spec_def)

lemma fresh_next_id: "ids_fresh f \<Longrightarrow> af_agents f (fst (next_id f)) = None"
  by (simp add: ids_fresh_def next_id_def)

lemma next_id_nonempty [simp]: "fst (next_id f) \<noteq> []"
  by (simp add: next_id_def)

lemma emit_event_idseq [simp]: "af_idseq (emit_event a et p f) = af_idseq f"
  by (simp add: emit_event_def)

text \<open>A replacement is spawned under a new name, in a fabric that otherwise keeps its agents.\<close>

lemma spawn_replacement:
  assumes "gate_capabilities (rc_spawner r) = Some extra" "ids_fresh (rc_agents r)"
  obtains g where "spawn_agent (plain_spec [cap]) r = (Inr (replacement cap extra r), r\<lparr>rc_agents := g\<rparr>)"
    "af_agents g = (af_agents (rc_agents r))(fst (next_id (rc_agents r)) \<mapsto> replacement cap extra r)"
    "af_idseq g = Suc (af_idseq (rc_agents r))" "af_snapshots g = af_snapshots (rc_agents r)"
proof -
  let ?f = "rc_agents r" and ?spec = "(plain_spec (merge_capabilities [cap] extra))\<lparr>ss_factory := rc_factory r\<rparr>"
  define g where "g = snd (spawn ?spec ?f)"
  have eq: "spawn ?spec ?f = (Inr (replacement cap extra r), g)"
    using fresh_next_id [OF assms(2)]
    by (simp add: spawn_def g_def validate_spawn_spec_def plain_spec_def Let_def parse_resource_claim_def
        map_filter_simps can_allocate_def replacement_def)
  have "spawn_agent (plain_spec [cap]) r
      = (fst (spawn_agent_error (spawn ?spec ?f)), r\<lparr>rc_agents := snd (spawn_agent_error (spawn ?spec ?f))\<rparr>)"
    using assms(1)
    by (cases "rc_spawner r" rule: gate_capabilities.cases; cases "rc_factory r")
      (simp_all add: spawn_agent_def gated_spawn_def plain_spec_def Let_def split: if_splits)
  then have "spawn_agent (plain_spec [cap]) r = (Inr (replacement cap extra r), r\<lparr>rc_agents := g\<rparr>)"
    using eq by (simp add: spawn_agent_error_def)
  moreover have "af_agents g = (af_agents ?f)(fst (next_id ?f) \<mapsto> replacement cap extra r)"
    "af_idseq g = Suc (af_idseq ?f)" "af_snapshots g = af_snapshots ?f"
    using fresh_next_id [OF assms(2)]
    by (simp_all add: g_def spawn_def validate_spawn_spec_def plain_spec_def Let_def parse_resource_claim_def
        map_filter_simps can_allocate_def replacement_def add_child_def put_agent_def next_id_def)
  ultimately show thesis using that by blast
qed

section \<open>A task goes on\<close>

definition installed_cognition :: "goval \<Rightarrow> cognitive_state" where
  "installed_cognition cp =
     (if cp = GNil then zero_cognitive
      else zero_cognitive\<lparr>cs_version := cognitive_state_schema_version, cs_checkpoint := cp, cs_context := cp\<rparr>)"

text \<open>
  In \<open>r'\<close> the task, which was \<open>t\<close> in the fabric \<open>f\<close>, is leased until a minute from \<open>f\<close>'s now, with a token
  that \<open>f\<close> had not handed out, by the idle agent \<open>aid\<close>, which can do it and starts from its checkpoint.
\<close>

definition resumed_by :: "fabric \<Rightarrow> string \<Rightarrow> task \<Rightarrow> string \<Rightarrow> 'c recovery \<Rightarrow> bool" where
  "resumed_by f tid t aid r' \<longleftrightarrow>
     (\<exists>ep a. f_tasks (rc_tasks r') tid = Some (t\<lparr>t_state := StateLeased, t_owner := aid,
              t_lease := Some \<lparr>l_owner = aid, l_expires = f_now f + minute, l_epoch = ep\<rparr>\<rparr>)
        \<and> \<not> token_issued f ep
        \<and> af_agents (rc_agents r') aid = Some a \<and> a_state a = AgentIdle
        \<and> t_capability t \<in> set (a_capabilities a) \<and> a_cognitive a = installed_cognition (t_checkpoint t))"

lemma acquire_InrI:
  assumes "f_tasks f tid = Some t" "t_state t = StateReady \<or> t_state t = StateSuspended" "a \<noteq> ''''"
  obtains g where "acquire tid a ttl f = (Inr (f_epoch f + 1), g)" "f_now g = f_now f" "f_epoch g = f_epoch f + 1"
    "f_tasks g = (f_tasks f)(tid \<mapsto> t\<lparr>t_state := StateLeased, t_owner := a,
       t_lease := Some \<lparr>l_owner = a, l_expires = f_now f + ttl, l_epoch = f_epoch f + 1\<rparr>\<rparr>)"
  using assms
  by (auto simp: acquire_def Let_def transition_def record_locked_def put_task_def)

lemma install_replacement:
  assumes "af_agents (rc_agents r) aid = Some a" "a_cognitive a = zero_cognitive"
  obtains h where "install_checkpoint aid cp r = (Inr (), r\<lparr>rc_agents := h\<rparr>)"
    "af_agents h = (af_agents (rc_agents r))(aid \<mapsto> a\<lparr>a_cognitive := installed_cognition cp\<rparr>)"
    "af_idseq h = af_idseq (rc_agents r)"
proof (cases "cp = GNil")
  case True
  have "a\<lparr>a_cognitive := zero_cognitive\<rparr> = a" using assms(2) by simp
  then have "af_agents (rc_agents r) = (af_agents (rc_agents r))(aid \<mapsto> a\<lparr>a_cognitive := installed_cognition cp\<rparr>)"
    using True assms(1) by (simp add: installed_cognition_def fun_upd_idem)
  moreover have "install_checkpoint aid cp r = (Inr (), r\<lparr>rc_agents := rc_agents r\<rparr>)"
    using True by (simp add: install_checkpoint_def)
  ultimately show thesis using that by metis
next
  case False
  then show thesis
    using that [of "put_agent aid (a\<lparr>a_cognitive := installed_cognition cp\<rparr>) (rc_agents r)"] assms(1)
    by (simp add: install_checkpoint_def set_cognitive_state_def installed_cognition_def upgraded_def
        put_agent_def zero_cognitive_def)
qed

text \<open>One task: the replacement is new, the task is resumed by it, and nothing else changes.\<close>

lemma recover_one:
  assumes "gate_capabilities (rc_spawner r) = Some extra" "ids_fresh (rc_agents r)"
    and "f_tasks (rc_tasks r) tid = Some t" "t_state t = StateReady"
    and "0 < epoch_budget (rc_tasks r)" "res = recover_task_checkpoint tid '''' r" "r' = snd res"
  obtains aid where "fst res = Inr (aid, f_epoch (rc_tasks r) + 1)"
    "af_agents (rc_agents r) aid = None" "resumed_by (rc_tasks r) tid t aid r'"
    "\<And>b. b \<noteq> aid \<Longrightarrow> af_agents (rc_agents r') b = af_agents (rc_agents r) b"
    "\<And>k. k \<noteq> tid \<Longrightarrow> f_tasks (rc_tasks r') k = f_tasks (rc_tasks r) k"
    "ids_fresh (rc_agents r')" "rc_spawner r' = rc_spawner r"
    "f_now (rc_tasks r') = f_now (rc_tasks r)" "f_epoch (rc_tasks r') = f_epoch (rc_tasks r) + 1"
proof -
  let ?f = "rc_tasks r" and ?aid = "fst (next_id (rc_agents r))" and ?a = "replacement (t_capability t) extra r"
  obtain g where g: "spawn_agent (plain_spec [t_capability t]) r = (Inr ?a, r\<lparr>rc_agents := g\<rparr>)"
    "af_agents g = (af_agents (rc_agents r))(?aid \<mapsto> ?a)" "af_idseq g = Suc (af_idseq (rc_agents r))"
    by (rule spawn_replacement [OF assms(1,2)])
  obtain tf where tf: "acquire tid ?aid minute ?f = (Inr (f_epoch ?f + 1), tf)" "f_now tf = f_now ?f"
    "f_epoch tf = f_epoch ?f + 1"
    "f_tasks tf = (f_tasks ?f)(tid \<mapsto> t\<lparr>t_state := StateLeased, t_owner := ?aid,
       t_lease := Some \<lparr>l_owner = ?aid, l_expires = f_now ?f + minute, l_epoch = f_epoch ?f + 1\<rparr>\<rparr>)"
    by (rule acquire_InrI [OF assms(3), of ?aid minute]) (use assms(4) in auto)
  let ?r = "r\<lparr>rc_agents := g, rc_tasks := tf\<rparr>"
  obtain h where h: "install_checkpoint ?aid (t_checkpoint t) ?r = (Inr (), ?r\<lparr>rc_agents := h\<rparr>)"
    "af_agents h = (af_agents g)(?aid \<mapsto> ?a\<lparr>a_cognitive := installed_cognition (t_checkpoint t)\<rparr>)"
    "af_idseq h = af_idseq g"
    using install_replacement [of ?r ?aid ?a "t_checkpoint t"] g(2) by auto
  have res: "res = (Inr (?aid, f_epoch ?f + 1), ?r\<lparr>rc_agents := h\<rparr>)"
    using assms(3,4,6) g(1) tf(1) h(1)
    by (simp add: recover_task_checkpoint_def get_task_def claim_for_def)
  have "ids_fresh h"
    using assms(2) g(2,3) h(2,3) by (auto simp: ids_fresh_def next_id_def)
  moreover have "resumed_by ?f tid t ?aid r'"
    unfolding resumed_by_def
    by (rule exI [of _ "f_epoch ?f + 1"])
      (use res assms(5,7) tf(4) h(2) unat_epoch_Suc [of "f_epoch ?f"] in
        \<open>simp add: token_issued_def word_le_nat_alt epoch_budget_def merge_capabilities_keeps\<close>)
  ultimately show thesis
    using that [of ?aid] res assms(7) fresh_next_id [OF assms(2)] g(2) h(2) tf(2,3,4) by simp
qed

lemma resumed_by_mono:
  assumes "resumed_by f tid t aid r" "f_tasks (rc_tasks r') tid = f_tasks (rc_tasks r) tid"
    and "af_agents (rc_agents r') aid = af_agents (rc_agents r) aid"
  shows "resumed_by f tid t aid r'"
  using assms by (simp add: resumed_by_def)

lemma resumed_by_earlier:
  assumes "resumed_by g tid t aid r" "f_now g = f_now f" "f_epoch f \<le> f_epoch g"
  shows "resumed_by f tid t aid r"
proof -
  from assms(1) obtain ep a where "f_tasks (rc_tasks r) tid = Some (t\<lparr>t_state := StateLeased, t_owner := aid,
        t_lease := Some \<lparr>l_owner = aid, l_expires = f_now g + minute, l_epoch = ep\<rparr>\<rparr>)"
    "\<not> ep \<le> f_epoch g" "af_agents (rc_agents r) aid = Some a" "a_state a = AgentIdle"
    "t_capability t \<in> set (a_capabilities a)" "a_cognitive a = installed_cognition (t_checkpoint t)"
    by (auto simp: resumed_by_def token_issued_def)
  moreover from this(2) have "\<not> ep \<le> f_epoch f" using assms(3) by (meson order_trans)
  ultimately show ?thesis
    unfolding resumed_by_def token_issued_def using assms(2) by (intro exI [of _ ep] exI [of _ a]) simp
qed

text \<open>
  Every task of the list is resumed, each by an agent of its own that is not in \<open>r\<close>; every other task
  and every other agent is in \<open>r'\<close> as it is in \<open>r\<close>.
\<close>

definition all_resumed :: "string list \<Rightarrow> (string \<Rightarrow> task) \<Rightarrow> 'c recovery \<Rightarrow> 'c recovery \<Rightarrow> bool" where
  "all_resumed tids ts r r' \<longleftrightarrow>
     (\<exists>own. inj_on own (set tids)
        \<and> (\<forall>tid \<in> set tids. af_agents (rc_agents r) (own tid) = None
              \<and> resumed_by (rc_tasks r) tid (ts tid) (own tid) r')
        \<and> (\<forall>b. b \<notin> own ` set tids \<longrightarrow> af_agents (rc_agents r') b = af_agents (rc_agents r) b))
     \<and> (\<forall>k. k \<notin> set tids \<longrightarrow> f_tasks (rc_tasks r') k = f_tasks (rc_tasks r) k)"

lemma all_resumed_Cons:
  assumes "af_agents (rc_agents r) aid = None" "resumed_by (rc_tasks r) tid (ts tid) aid r1"
    and "\<And>b. b \<noteq> aid \<Longrightarrow> af_agents (rc_agents r1) b = af_agents (rc_agents r) b"
    and "\<And>k. k \<noteq> tid \<Longrightarrow> f_tasks (rc_tasks r1) k = f_tasks (rc_tasks r) k"
    and "f_now (rc_tasks r1) = f_now (rc_tasks r)" "f_epoch (rc_tasks r) \<le> f_epoch (rc_tasks r1)"
    and "tid \<notin> set tids" "all_resumed tids ts r1 r2"
  shows "all_resumed (tid # tids) ts r r2"
proof -
  from assms(8) obtain own where own: "inj_on own (set tids)"
    "\<And>k. k \<in> set tids \<Longrightarrow> af_agents (rc_agents r1) (own k) = None \<and> resumed_by (rc_tasks r1) k (ts k) (own k) r2"
    "\<And>b. b \<notin> own ` set tids \<Longrightarrow> af_agents (rc_agents r2) b = af_agents (rc_agents r1) b"
    "\<And>k. k \<notin> set tids \<Longrightarrow> f_tasks (rc_tasks r2) k = f_tasks (rc_tasks r1) k"
    unfolding all_resumed_def by blast
  have new: "aid \<notin> own ` set tids" using assms(2) own(2) by (auto simp: resumed_by_def)
  let ?own = "own(tid := aid)"
  have im: "?own ` set (tid # tids) = insert aid (own ` set tids)" using assms(7) by auto
  have "inj_on ?own (set (tid # tids))" using own(1) new assms(7) by (auto simp: inj_on_def)
  moreover have "af_agents (rc_agents r) (?own k) = None \<and> resumed_by (rc_tasks r) k (ts k) (?own k) r2"
    if "k \<in> set (tid # tids)" for k
  proof (cases "k = tid")
    case True
    then show ?thesis using assms(1,7) resumed_by_mono [OF assms(2) own(4) own(3)] new by simp
  next
    case False
    then have k: "k \<in> set tids" using that by simp
    then have "own k \<noteq> aid" using new by auto
    then show ?thesis
      using False own(2) [OF k] assms(3) [of "own k"] resumed_by_earlier [OF _ assms(5,6)] by auto
  qed
  moreover have "af_agents (rc_agents r2) b = af_agents (rc_agents r) b" if "b \<notin> ?own ` set (tid # tids)" for b
    using that own(3) [of b] assms(3) [of b] unfolding im by simp
  ultimately have "\<exists>own. inj_on own (set (tid # tids))
        \<and> (\<forall>k \<in> set (tid # tids). af_agents (rc_agents r) (own k) = None
              \<and> resumed_by (rc_tasks r) k (ts k) (own k) r2)
        \<and> (\<forall>b. b \<notin> own ` set (tid # tids) \<longrightarrow> af_agents (rc_agents r2) b = af_agents (rc_agents r) b)"
    by (intro exI [of _ ?own]) blast
  moreover have "f_tasks (rc_tasks r2) k = f_tasks (rc_tasks r) k" if "k \<notin> set (tid # tids)" for k
    using that own(4) [of k] assms(4) [of k] by simp
  ultimately show ?thesis unfolding all_resumed_def by blast
qed

lemma recover_tasks_all:
  assumes "gate_capabilities (rc_spawner r) = Some extra" "ids_fresh (rc_agents r)" "distinct tids"
    and "\<And>tid. tid \<in> set tids \<Longrightarrow> f_tasks (rc_tasks r) tid = Some (ts tid) \<and> t_state (ts tid) = StateReady"
    and "length tids \<le> epoch_budget (rc_tasks r)"
  shows "fst (recover_tasks tids r) = int (length tids) \<and> all_resumed tids ts r (snd (recover_tasks tids r))"
  using assms
proof (induction tids arbitrary: r)
  case Nil
  show ?case by (simp add: all_resumed_def)
next
  case (Cons tid tids)
  have t: "f_tasks (rc_tasks r) tid = Some (ts tid)" "t_state (ts tid) = StateReady" using Cons.prems(4) by simp_all
  define r1 where "r1 = snd (recover_task_checkpoint tid '''' r)"
  obtain aid where one: "fst (recover_task_checkpoint tid '''' r) = Inr (aid, f_epoch (rc_tasks r) + 1)"
    "af_agents (rc_agents r) aid = None" "resumed_by (rc_tasks r) tid (ts tid) aid r1"
    "\<And>b. b \<noteq> aid \<Longrightarrow> af_agents (rc_agents r1) b = af_agents (rc_agents r) b"
    "\<And>k. k \<noteq> tid \<Longrightarrow> f_tasks (rc_tasks r1) k = f_tasks (rc_tasks r) k"
    "ids_fresh (rc_agents r1)" "rc_spawner r1 = rc_spawner r"
    "f_now (rc_tasks r1) = f_now (rc_tasks r)" "f_epoch (rc_tasks r1) = f_epoch (rc_tasks r) + 1"
    by (rule recover_one [OF Cons.prems(1,2) t _ refl r1_def]) (use Cons.prems(5) in auto)
  have step: "unat (f_epoch (rc_tasks r1)) = unat (f_epoch (rc_tasks r)) + 1"
    using one(9) Cons.prems(5) unat_epoch_Suc [of "f_epoch (rc_tasks r)"] by (simp add: epoch_budget_def)
  have "f_tasks (rc_tasks r1) k = Some (ts k) \<and> t_state (ts k) = StateReady" if "k \<in> set tids" for k
    using that Cons.prems(3) Cons.prems(4) [of k] one(5) [of k] by (cases "k = tid") simp_all
  then have IH: "fst (recover_tasks tids r1) = int (length tids) \<and> all_resumed tids ts r1 (snd (recover_tasks tids r1))"
    using Cons.prems(1,3,5) one(6,7) step by (intro Cons.IH) (simp_all add: epoch_budget_def)
  have "recover_tasks (tid # tids) r = (int (length (tid # tids)), snd (recover_tasks tids r1))"
    using one(1) IH unfolding r1_def by (auto split: prod.splits sum.splits)
  moreover have "f_epoch (rc_tasks r) \<le> f_epoch (rc_tasks r1)" using step by (simp add: word_le_nat_alt)
  ultimately show ?case
    using all_resumed_Cons [OF one(2,3,4,5,8) _ _ conjunct2 [OF IH]] Cons.prems(3) by simp
qed

text \<open>A shut gate: nothing is spawned, so no task is touched.\<close>

lemma spawn_gate_shut:
  "gate_capabilities (rc_spawner r) = None \<Longrightarrow> \<exists>e. spawn_agent spec r = (Inl e, r)"
  by (cases "rc_spawner r" rule: gate_capabilities.cases)
    (auto simp: spawn_agent_def gated_spawn_def split: if_splits)

lemma recover_tasks_shut:
  "gate_capabilities (rc_spawner r) = None \<Longrightarrow> recover_tasks tids r = (0, r)"
proof (induction tids)
  case (Cons tid tids)
  have "\<exists>e. recover_task_checkpoint tid '''' r = (Inl e, r)"
  proof (cases "get_task tid (rc_tasks r)")
    case (Inr t)
    then show ?thesis
      using spawn_gate_shut [OF Cons.prems, of "plain_spec [t_capability t]"]
      by (auto simp: recover_task_checkpoint_def)
  qed (simp add: recover_task_checkpoint_def)
  then show ?case using Cons by auto
qed simp

definition expired_tasks :: "string list \<Rightarrow> fabric \<Rightarrow> string list" where
  "expired_tasks ord f = filter (swept (f_now f) (f_tasks f)) ord"

lemma swept_requeued:
  assumes "tid \<in> set (expired_tasks ord f)"
  obtains t where "f_tasks f tid = Some t" "f_tasks (snd (check_expired_leases ord f)) tid = Some (requeued t)"
  using assms by (auto simp: expired_tasks_def check_expired_tasks swept_def sweep_task_def split: option.splits)

lemma unswept_kept:
  "k \<notin> set (expired_tasks ord f) \<Longrightarrow> f_tasks (snd (check_expired_leases ord f)) k = f_tasks f k"
  by (auto simp: expired_tasks_def check_expired_tasks swept_def sweep_task_def map_option_case split: option.splits)

lemma resumed_requeued:
  "resumed_by g tid (requeued t) aid q \<Longrightarrow> f_now g = f_now f \<Longrightarrow> f_epoch g = f_epoch f \<Longrightarrow>
     resumed_by f tid t aid q"
  by (simp add: resumed_by_def token_issued_def disown_def)

lemma death_survived_open:
  assumes "gate_capabilities (rc_spawner r) = Some extra" "ids_fresh (rc_agents r)" "distinct ord"
    and "length ord \<le> epoch_budget (rc_tasks r)"
    and "expired = expired_tasks ord (rc_tasks r)" "g = snd (check_expired_leases ord (rc_tasks r))"
    and "out = recover_tasks expired (r\<lparr>rc_tasks := g\<rparr>)"
  shows "fst out = int (length expired) \<and> all_resumed expired (\<lambda>tid. the (f_tasks (rc_tasks r) tid)) r (snd out)"
proof -
  let ?r = "r\<lparr>rc_tasks := g\<rparr>" and ?t = "\<lambda>tid. the (f_tasks (rc_tasks r) tid)"
  have frame: "f_now g = f_now (rc_tasks r)" "f_epoch g = f_epoch (rc_tasks r)"
    using assms(6) by simp_all
  have all: "fst out = int (length expired) \<and> all_resumed expired (\<lambda>tid. requeued (?t tid)) ?r (snd out)"
    unfolding assms(7)
  proof (rule recover_tasks_all)
    show "gate_capabilities (rc_spawner ?r) = Some extra" "ids_fresh (rc_agents ?r)" using assms(1,2) by simp_all
    show "distinct expired" using assms(3,5) by (simp add: expired_tasks_def)
    show "length expired \<le> epoch_budget (rc_tasks ?r)"
      using assms(4,5) frame
      by (simp add: expired_tasks_def epoch_budget_def le_trans [OF length_filter_le])
    show "f_tasks (rc_tasks ?r) tid = Some (requeued (?t tid)) \<and> t_state (requeued (?t tid)) = StateReady"
      if "tid \<in> set expired" for tid
      by (rule swept_requeued [of tid ord "rc_tasks r"]) (use that assms(5,6) in \<open>auto simp: disown_def\<close>)
  qed
  then show ?thesis
    using resumed_requeued [of g _ _ _ "snd out" "rc_tasks r"] frame unswept_kept [of _ ord "rc_tasks r"] assms(5,6)
    unfolding all_resumed_def by simp blast
qed

lemma recover_from_death_run:
  assumes "fabric_wf (rc_tasks r)" "distinct ord"
  shows "recover_from_agent_death ord r =
    recover_tasks (expired_tasks ord (rc_tasks r)) (r\<lparr>rc_tasks := snd (check_expired_leases ord (rc_tasks r))\<rparr>)"
proof -
  obtain tids g where g: "check_expired_leases ord (rc_tasks r) = (tids, g)" by fastforce
  then have "tids = expired_tasks ord (rc_tasks r)"
    using check_expired_ids [OF assms(2,1)] by (simp add: expired_tasks_def)
  then show ?thesis
    using g by (cases "tids = []") (simp_all add: recover_from_agent_death_def requeue_expired_leases_def)
qed

text \<open>C25: Agent death is not task death, end to end. While the spawn gate is open, the recovery chain resumes every
  task whose lease has run out, and only those: each is leased by an agent of its own that did not
  exist before, with a token never handed out before, and the agent starts from the task's
  checkpoint; every other task and every other agent is untouched. While the gate is shut, the expired
  tasks are requeued and nothing else happens.\<close>

theorem death_survived:
  assumes "fabric_wf (rc_tasks r)" "ids_fresh (rc_agents r)" "distinct ord"
    and "length ord \<le> epoch_budget (rc_tasks r)"
    and "expired = expired_tasks ord (rc_tasks r)" "g = snd (check_expired_leases ord (rc_tasks r))"
    and "out = recover_from_agent_death ord r"
  shows "(gate_capabilities (rc_spawner r) \<noteq> None \<longrightarrow> fst out = int (length expired)
        \<and> (\<exists>own. inj_on own (set expired)
             \<and> (\<forall>tid \<in> set expired. \<exists>t. f_tasks (rc_tasks r) tid = Some t
                  \<and> af_agents (rc_agents r) (own tid) = None
                  \<and> resumed_by (rc_tasks r) tid t (own tid) (snd out))
             \<and> (\<forall>b. b \<notin> own ` set expired \<longrightarrow>
                  af_agents (rc_agents (snd out)) b = af_agents (rc_agents r) b))
        \<and> (\<forall>k. k \<notin> set expired \<longrightarrow> f_tasks (rc_tasks (snd out)) k = f_tasks (rc_tasks r) k))
    \<and> (gate_capabilities (rc_spawner r) = None \<longrightarrow> out = (0, r\<lparr>rc_tasks := g\<rparr>))"
proof -
  have out: "out = recover_tasks expired (r\<lparr>rc_tasks := g\<rparr>)"
    using recover_from_death_run [OF assms(1,3)] assms(5-7) by simp
  show ?thesis
  proof (cases "gate_capabilities (rc_spawner r)")
    case None
    then show ?thesis using out recover_tasks_shut [of "r\<lparr>rc_tasks := g\<rparr>" expired] by simp
  next
    case (Some extra)
    have known: "f_tasks (rc_tasks r) tid \<noteq> None" if "tid \<in> set expired" for tid
      using that assms(5) by (auto elim: swept_requeued)
    note all = death_survived_open [OF Some assms(2-6) out, unfolded all_resumed_def]
    have "\<exists>own. inj_on own (set expired)
             \<and> (\<forall>tid \<in> set expired. \<exists>t. f_tasks (rc_tasks r) tid = Some t
                  \<and> af_agents (rc_agents r) (own tid) = None
                  \<and> resumed_by (rc_tasks r) tid t (own tid) (snd out))
             \<and> (\<forall>b. b \<notin> own ` set expired \<longrightarrow>
                  af_agents (rc_agents (snd out)) b = af_agents (rc_agents r) b)"
      using all known by (metis option.collapse)
    then show ?thesis using Some all by simp
  qed
qed

definition sample_recovery :: "nat recovery" where
  "sample_recovery = new_recovery (with_clock 9 leased_fabric) (new_agent_fabric 9) default_restart_policy"

lemma sample_recovery_simps [simp]:
  "rc_tasks sample_recovery = with_clock 9 leased_fabric" "rc_agents sample_recovery = new_agent_fabric 9"
  "rc_spawner sample_recovery = NoSpawner"
  by (simp_all add: sample_recovery_def new_recovery_def default_restart_policy_def Let_def)

lemma sample_recovery_ok:
  "fabric_wf (with_clock 9 leased_fabric)" "length [''t''] \<le> epoch_budget (with_clock 9 leased_fabric)"
  "ids_fresh (new_agent_fabric 9)" "expired_tasks [''t''] (with_clock 9 leased_fabric) = [''t'']"
proof -
  show "fabric_wf (with_clock 9 leased_fabric)"
    using exec_ops_wf [OF sample_fabric_wf(2), of "[OpClock 9]"] leased_token by simp
  show "length [''t''] \<le> epoch_budget (with_clock 9 leased_fabric)"
    using leased_token by (simp add: epoch_budget_def with_clock_def)
  show "ids_fresh (new_agent_fabric 9)" by (simp add: ids_fresh_def new_agent_fabric_def)
  show "expired_tasks [''t''] (with_clock 9 leased_fabric) = [''t'']"
    by (simp add: expired_tasks_def swept_def sweepable_def with_clock_def sample_defs)
qed

lemma death_survived_witness:
  "fst (recover_from_agent_death [''t''] sample_recovery) = 1
   \<and> (\<exists>t a. f_tasks (rc_tasks (snd (recover_from_agent_death [''t''] sample_recovery))) ''t'' = Some t
        \<and> af_agents (rc_agents (snd (recover_from_agent_death [''t''] sample_recovery))) (t_owner t) = Some a
        \<and> t_state t = StateLeased \<and> cs_checkpoint (a_cognitive a) = GInt 3)"
proof -
  have t: "f_tasks (with_clock 9 leased_fabric) ''t'' = Some t \<Longrightarrow> t_checkpoint t = GInt 3" for t
    by (auto simp: with_clock_def sample_defs)
  have wf: "fabric_wf (rc_tasks sample_recovery)" and fresh: "ids_fresh (rc_agents sample_recovery)"
    and len: "length [''t''] \<le> epoch_budget (rc_tasks sample_recovery)"
    and ex: "[''t''] = expired_tasks [''t''] (rc_tasks sample_recovery)"
    using sample_recovery_ok by simp_all
  have "gate_capabilities (rc_spawner sample_recovery) \<noteq> None" "distinct [''t'']" by simp_all
  from death_survived [OF wf fresh this(2) len ex refl refl] this(1) show ?thesis
    by (auto simp: resumed_by_def installed_cognition_def dest!: t)
qed

section \<open>Restarts\<close>

datatype 'c recovery_op =
    RRestart string cognitive_state "string list"
  | RDeath "string list"
  | RTask string string
  | RSweep "string list"
  | RAgents "'c agent_op"
  | RTasks fabric_op
  | RGate spawn_source
  | RFactory "(string list \<Rightarrow> 'c option) option"

fun exec_recovery :: "'c recovery_op \<Rightarrow> 'c recovery \<Rightarrow> 'c recovery" where
  "exec_recovery (RRestart aid cog caps) r = snd (restart_agent aid cog caps r)"
| "exec_recovery (RDeath ord) r = snd (recover_from_agent_death ord r)"
| "exec_recovery (RTask tid aid) r = snd (recover_task_checkpoint tid aid r)"
| "exec_recovery (RSweep ord) r = snd (requeue_expired_leases ord r)"
| "exec_recovery (RAgents x) r = r\<lparr>rc_agents := exec_agent x (rc_agents r)\<rparr>"
| "exec_recovery (RTasks x) r = r\<lparr>rc_tasks := exec_op x (rc_tasks r)\<rparr>"
| "exec_recovery (RGate s) r = with_spawner s r"
| "exec_recovery (RFactory fac) r = with_cognition_factory fac r"

text \<open>Only \<open>RestartAgent\<close> touches the counters.\<close>

lemma spawn_agent_frame [simp]:
  "rc_restarts (snd (spawn_agent spec r)) = rc_restarts r" "rc_policy (snd (spawn_agent spec r)) = rc_policy r"
  "rc_spawner (snd (spawn_agent spec r)) = rc_spawner r" "rc_factory (snd (spawn_agent spec r)) = rc_factory r"
  "rc_tasks (snd (spawn_agent spec r)) = rc_tasks r"
  by (simp_all add: spawn_agent_def Let_def)

lemma claim_for_frame [simp]:
  "rc_restarts (snd (claim_for tid aid cp r)) = rc_restarts r" "rc_policy (snd (claim_for tid aid cp r)) = rc_policy r"
  by (auto simp: claim_for_def install_checkpoint_def split: sum.splits prod.splits)

lemma recover_task_frame [simp]:
  "rc_restarts (snd (recover_task_checkpoint tid aid r)) = rc_restarts r"
  "rc_policy (snd (recover_task_checkpoint tid aid r)) = rc_policy r"
proof -
  have *: "rc_restarts q = rc_restarts r \<and> rc_policy q = rc_policy r" if "spawn_agent spec r = (res, q)" for spec res q
    using spawn_agent_frame(1,2) [of spec r] that by simp
  have "rc_restarts (snd (recover_task_checkpoint tid aid r)) = rc_restarts r
      \<and> rc_policy (snd (recover_task_checkpoint tid aid r)) = rc_policy r"
    by (auto simp: recover_task_checkpoint_def split: sum.split prod.split dest!: *)
  then show "rc_restarts (snd (recover_task_checkpoint tid aid r)) = rc_restarts r"
    "rc_policy (snd (recover_task_checkpoint tid aid r)) = rc_policy r" by simp_all
qed

lemma recover_tasks_frame:
  "rc_restarts (snd (recover_tasks tids r)) = rc_restarts r \<and> rc_policy (snd (recover_tasks tids r)) = rc_policy r"
proof (induction tids arbitrary: r)
  case (Cons tid tids)
  obtain res q where q: "recover_task_checkpoint tid '''' r = (res, q)" by fastforce
  have "rc_restarts q = rc_restarts r" "rc_policy q = rc_policy r"
    using recover_task_frame [of tid "''''" r] q by simp_all
  then show ?case using Cons.IH [of q] q by (auto split: sum.split prod.split)
qed simp

lemma recover_death_frame [simp]:
  "rc_restarts (snd (recover_from_agent_death ord r)) = rc_restarts r"
  "rc_policy (snd (recover_from_agent_death ord r)) = rc_policy r"
  by (auto simp: recover_tasks_frame recover_from_agent_death_def requeue_expired_leases_def split: prod.split)

lemma restart_agent_counts:
  "rc_policy (snd (restart_agent aid cog caps r)) = rc_policy r"
  "rc_restarts (snd (restart_agent aid cog caps r)) =
     (if restart_count aid r \<ge> rs_max (rc_policy r) then rc_restarts r
      else (rc_restarts r)(aid \<mapsto> restart_count aid r + 1))"
proof -
  define r1 where "r1 = r\<lparr>rc_restarts := (rc_restarts r)(aid \<mapsto> restart_count aid r + 1)\<rparr>"
  have *: "rc_restarts q = rc_restarts r1 \<and> rc_policy q = rc_policy r1" if "spawn_agent spec r1 = (res, q)" for spec res q
    using spawn_agent_frame(1,2) [of spec r1] that by simp
  have r1: "rc_restarts r1 = (rc_restarts r)(aid \<mapsto> restart_count aid r + 1)" "rc_policy r1 = rc_policy r"
    by (simp_all add: r1_def)
  have "rc_policy (snd (restart_agent aid cog caps r)) = rc_policy r
    \<and> rc_restarts (snd (restart_agent aid cog caps r)) =
       (if restart_count aid r \<ge> rs_max (rc_policy r) then rc_restarts r
        else (rc_restarts r)(aid \<mapsto> restart_count aid r + 1))"
    unfolding restart_agent_def r1_def [symmetric] Let_def
    by (auto split: sum.split prod.split dest!: * simp: r1)
  then show "rc_policy (snd (restart_agent aid cog caps r)) = rc_policy r"
    "rc_restarts (snd (restart_agent aid cog caps r)) =
       (if restart_count aid r \<ge> rs_max (rc_policy r) then rc_restarts r
        else (rc_restarts r)(aid \<mapsto> restart_count aid r + 1))" by simp_all
qed

definition restart_fund :: "string \<Rightarrow> 'c recovery \<Rightarrow> rat" where
  "restart_fund aid r = of_int (max 0 (rs_max (rc_policy r) - restart_count aid r))"

fun restart_granted :: "string \<Rightarrow> 'c recovery_op \<Rightarrow> 'c recovery \<Rightarrow> rat" where
  "restart_granted aid (RRestart b cog caps) r =
     (if b = aid \<and> \<not> isl (fst (restart_agent b cog caps r)) then 1 else 0)"
| "restart_granted aid _ r = 0"

lemma restart_fund_frame:
  "rc_restarts q = rc_restarts r \<Longrightarrow> rc_policy q = rc_policy r \<Longrightarrow> restart_fund aid q = restart_fund aid r"
  by (simp add: restart_fund_def restart_count_def)

interpretation restarts: funded_system exec_recovery "\<lambda>_ _. True" "\<lambda>_. True" "restart_granted aid" "restart_fund aid"
    "\<lambda>_ _. 0" for aid
proof
  show "restart_granted aid x r + restart_fund aid (exec_recovery x r) \<le> restart_fund aid r + 0"
    for x and r :: "'c recovery"
  proof (cases x)
    case (RRestart b cog caps)
    show ?thesis
    proof (cases "restart_count b r \<ge> rs_max (rc_policy r)")
      case True
      then show ?thesis using RRestart by (simp add: restart_agent_def)
    next
      case False
      then show ?thesis
        using RRestart restart_agent_counts [of b cog caps r]
        by (auto simp: restart_fund_def restart_count_def)
    qed
  next
    case (RDeath ord)
    then show ?thesis using restart_fund_frame [of "exec_recovery x r" r] by simp
  next
    case (RTask tid b)
    then show ?thesis using restart_fund_frame [of "exec_recovery x r" r] by simp
  next
    case (RSweep ord)
    then show ?thesis
      using restart_fund_frame [of "exec_recovery x r" r] by (simp add: requeue_expired_leases_def split_beta)
  qed (simp_all add: restart_fund_def restart_count_def with_spawner_def with_cognition_factory_def)
qed (simp_all add: restart_fund_def)

lemma total_zero: "total exec (\<lambda>_ _. 0) xs s = 0"
  by (induction xs arbitrary: s) auto

lemma exec_recovery_counts:
  "rc_policy (exec_recovery x r) = rc_policy r" "restart_count aid r \<le> restart_count aid (exec_recovery x r)"
proof -
  have "rc_policy (exec_recovery x r) = rc_policy r \<and> restart_count aid r \<le> restart_count aid (exec_recovery x r)"
    by (cases x) (auto simp: restart_agent_counts restart_count_def requeue_expired_leases_def with_spawner_def
        with_cognition_factory_def split_beta split: option.split)
  then show "rc_policy (exec_recovery x r) = rc_policy r" "restart_count aid r \<le> restart_count aid (exec_recovery x r)"
    by simp_all
qed

text \<open>C26: The restart budget of an identity is for its lifetime. Whatever the runtime does, an identity is
  restarted at most as often as its policy still allows; and once the budget is spent every further
  restart is refused and changes nothing, however many revivals succeeded in between.\<close>

theorem restarts_bounded:
  "total exec_recovery (restart_granted aid) ops r
     \<le> of_int (max 0 (rs_max (rc_policy r) - restart_count aid r))
   \<and> (rs_max (rc_policy r) \<le> restart_count aid r \<longrightarrow>
        restart_agent aid cog caps (fold exec_recovery ops r)
          = (Inl ErrRecoveryExhausted, fold exec_recovery ops r))"
proof
  have "along exec_recovery (\<lambda>_ _. True) ops r" by (induction ops arbitrary: r) auto
  then show "total exec_recovery (restart_granted aid) ops r
      \<le> of_int (max 0 (rs_max (rc_policy r) - restart_count aid r))"
    using restarts.granted_within [where s = r and xs = ops and aid = aid]
    by (simp add: total_zero restart_fund_def)
  have "rc_policy (fold exec_recovery ops r) = rc_policy r
      \<and> restart_count aid r \<le> restart_count aid (fold exec_recovery ops r)"
  proof (induction ops arbitrary: r)
    case (Cons x ops)
    show ?case
      using Cons.IH [of "exec_recovery x r"] exec_recovery_counts [where x = x and r = r]
      by (metis fold_simps(2) order_trans)
  qed simp
  then show "rs_max (rc_policy r) \<le> restart_count aid r \<longrightarrow>
      restart_agent aid cog caps (fold exec_recovery ops r) = (Inl ErrRecoveryExhausted, fold exec_recovery ops r)"
    by (simp add: restart_agent_def)
qed

text \<open>A killed agent and its restart: in place, from the snapshot.\<close>

lemma spawn_named:
  assumes "gate_capabilities (rc_spawner r) = Some extra" "af_agents (rc_agents r) aid = None"
    and "aid \<noteq> ''''" "CHR '' '' \<notin> set aid"
  obtains g a where "spawn_agent ((plain_spec caps)\<lparr>ss_identity := aid\<rparr>) r = (Inr a, r\<lparr>rc_agents := g\<rparr>)"
    "af_agents g = (af_agents (rc_agents r))(aid \<mapsto> a)" "af_snapshots g = af_snapshots (rc_agents r)"
    "a_identity a = aid" "a_state a = AgentIdle" "a_capabilities a = merge_capabilities caps extra"
    "a_parent a = ''''"
proof -
  let ?f = "rc_agents r"
  let ?spec = "(plain_spec (merge_capabilities caps extra))\<lparr>ss_identity := aid, ss_factory := rc_factory r\<rparr>"
  define a where "a = new_agent aid ?spec [] (af_now ?f)"
  define g where "g = snd (spawn ?spec ?f)"
  have eq: "spawn ?spec ?f = (Inr a, g)"
    using assms(2-4)
    by (simp add: spawn_def g_def validate_spawn_spec_def plain_spec_def Let_def parse_resource_claim_def
        map_filter_simps can_allocate_def a_def)
  have "spawn_agent ((plain_spec caps)\<lparr>ss_identity := aid\<rparr>) r
      = (fst (spawn_agent_error (spawn ?spec ?f)), r\<lparr>rc_agents := snd (spawn_agent_error (spawn ?spec ?f))\<rparr>)"
    using assms(1)
    by (cases "rc_spawner r" rule: gate_capabilities.cases; cases "rc_factory r")
      (simp_all add: spawn_agent_def gated_spawn_def plain_spec_def Let_def split: if_splits)
  then have "spawn_agent ((plain_spec caps)\<lparr>ss_identity := aid\<rparr>) r = (Inr a, r\<lparr>rc_agents := g\<rparr>)"
    using eq by (simp add: spawn_agent_error_def)
  moreover have "af_agents g = (af_agents ?f)(aid \<mapsto> a)" "af_snapshots g = af_snapshots ?f"
    using assms(2-4)
    by (simp_all add: g_def spawn_def validate_spawn_spec_def plain_spec_def Let_def parse_resource_claim_def
        map_filter_simps can_allocate_def a_def add_child_def put_agent_def)
  ultimately show thesis using that by (simp add: a_def plain_spec_def)
qed

text \<open>A crashed agent is revived in place. Killing an agent and restarting it from its snapshot
  brings it back under its own identity, idle, with its capabilities and its cognitive state; the
  snapshot is consumed, so a later death cannot restore stale cognition; every other agent is
  untouched and one restart is counted. What it loses is its parent. If the spawn gate is shut, the
  restart fails, nobody is revived, and the restart is counted all the same.\<close>

theorem restart_in_place:
  assumes "af_agents (rc_agents r) aid = Some a" "aid \<noteq> ''''" "CHR '' '' \<notin> set aid"
    and "restart_count aid r < rs_max (rc_policy r)"
    and "q = r\<lparr>rc_agents := snd (kill aid (rc_agents r))\<rparr>" "last_snapshot aid (rc_agents q) = Some sn"
    and "out = restart_agent aid (sn_cognitive sn) (sn_capabilities sn) q"
  shows "restart_count aid (snd out) = restart_count aid r + 1
    \<and> (gate_capabilities (rc_spawner r) \<noteq> None \<longrightarrow>
        (\<exists>a'. af_agents (rc_agents (snd out)) aid = Some a' \<and> a_state a' = AgentIdle \<and> \<not> isl (fst out)
           \<and> set (a_capabilities a) \<subseteq> set (a_capabilities a')
           \<and> a_cognitive a' = upgraded (a_cognitive a) \<and> a_parent a' = '''')
        \<and> last_snapshot aid (rc_agents (snd out)) = None
        \<and> (\<forall>b. b \<noteq> aid \<longrightarrow> af_agents (rc_agents (snd out)) b = af_agents (rc_agents r) b))
    \<and> (gate_capabilities (rc_spawner r) = None \<longrightarrow>
        isl (fst out) \<and> af_agents (rc_agents (snd out)) aid = None)"
proof -
  have q: "af_agents (rc_agents q) = (af_agents (rc_agents r))(aid := None)" "rc_spawner q = rc_spawner r"
    "restart_count b q = restart_count b r" "rc_policy q = rc_policy r" for b
    using assms(1,5) by (simp_all add: kill_def Let_def restart_count_def)
  have sn: "sn_capabilities sn = a_capabilities a" "upgraded (sn_cognitive sn) = upgraded (a_cognitive a)"
    using assms(1,5,6)
    by (auto simp: kill_def Let_def last_snapshot_def capture_from_agent_def upgraded_def cognitive_state_schema_version_def)
  let ?q = "q\<lparr>rc_restarts := (rc_restarts q)(aid \<mapsto> restart_count aid q + 1)\<rparr>"
  have spec: "restart_spec aid (sn_capabilities sn) ?q = (plain_spec (a_capabilities a))\<lparr>ss_identity := aid\<rparr>"
    using assms(6) sn(1) by (simp add: restart_spec_def)
  have count: "restart_count aid (snd out) = restart_count aid r + 1"
    using assms(4,7) restart_agent_counts(2) [of aid "sn_cognitive sn" "sn_capabilities sn" q] q(3,4)
    by (simp add: restart_count_def)
  note run = assms(7) [unfolded restart_agent_def Let_def spec]
  show ?thesis
  proof (cases "gate_capabilities (rc_spawner r)")
    case None
    then obtain e where "spawn_agent ((plain_spec (a_capabilities a))\<lparr>ss_identity := aid\<rparr>) ?q = (Inl e, ?q)"
      using spawn_gate_shut [of ?q] q(2) by auto
    then show ?thesis using None count run assms(4) q by simp
  next
    case (Some extra)
    obtain g b where g: "spawn_agent ((plain_spec (a_capabilities a))\<lparr>ss_identity := aid\<rparr>) ?q = (Inr b, ?q\<lparr>rc_agents := g\<rparr>)"
      "af_agents g = (af_agents (rc_agents q))(aid \<mapsto> b)" "a_identity b = aid" "a_state b = AgentIdle"
      "a_capabilities b = merge_capabilities (a_capabilities a) extra" "a_parent b = ''''"
      by (rule spawn_named [of ?q extra aid "a_capabilities a"]) (use assms(2,3) Some q(1,2) in auto)
    then show ?thesis
      using Some count run assms(4) q sn(2)
      by (auto simp: recover_def Let_def last_snapshot_def merge_capabilities_keeps)
  qed
qed

definition crashed_recovery :: "unit recovery" where
  "crashed_recovery = new_recovery (new_fabric 0) sample_agents \<lparr>rs_max = 1, rs_backoff = 0, rs_max_backoff = 0\<rparr>"

lemma crashed_recovery_simps [simp]:
  "rc_agents crashed_recovery = sample_agents" "rc_spawner crashed_recovery = NoSpawner"
  "restart_count aid crashed_recovery = 0" "rs_max (rc_policy crashed_recovery) = 1"
  by (simp_all add: crashed_recovery_def new_recovery_def Let_def restart_count_def)

lemma restart_in_place_witness:
  "\<exists>a. af_agents (rc_agents (snd (restart_agent ''w'' (zero_cognitive\<lparr>cs_version := 1\<rparr>) [''code'']
        (crashed_recovery\<lparr>rc_agents := snd (kill ''w'' sample_agents)\<rparr>)))) ''w'' = Some a \<and> a_parent a = ''''"
proof -
  obtain a where a: "af_agents (rc_agents crashed_recovery) ''w'' = Some a" "a_capabilities a = [''code'']"
    "a_cognitive a = zero_cognitive"
    by (simp add: sample_agent_defs new_agent_def)
  have sn: "last_snapshot ''w'' (rc_agents (crashed_recovery\<lparr>rc_agents := snd (kill ''w'' sample_agents)\<rparr>))
      = Some (capture_from_agent a (af_now sample_agents))"
    using a(1) by (simp add: kill_def Let_def last_snapshot_def)
  have cog: "sn_cognitive (capture_from_agent a (af_now sample_agents)) = zero_cognitive\<lparr>cs_version := 1\<rparr>"
    and caps: "sn_capabilities (capture_from_agent a (af_now sample_agents)) = [''code'']"
    using a(2,3) by (simp_all add: capture_from_agent_def zero_cognitive_def cognitive_state_schema_version_def)
  have name: "''w'' \<noteq> ''''" "CHR '' '' \<notin> set ''w''" "restart_count ''w'' crashed_recovery < rs_max (rc_policy crashed_recovery)"
    by simp_all
  show ?thesis
    using restart_in_place [OF a(1) name refl _ refl, unfolded crashed_recovery_simps(1), OF sn] cog caps
    by (auto simp: sample_agent_defs)
qed

lemma restarts_bounded_witness:
  "total exec_recovery (restart_granted ''w'')
      [RAgents (AKill ''w''), RRestart ''w'' zero_cognitive [''code''], RAgents (AKill ''w''),
       RRestart ''w'' zero_cognitive [''code'']] crashed_recovery \<le> 1"
  using restarts_bounded [where r = crashed_recovery and aid = "''w''" and
      ops = "[RAgents (AKill ''w''), RRestart ''w'' zero_cognitive [''code''], RAgents (AKill ''w''),
       RRestart ''w'' zero_cognitive [''code'']]"] by simp

section \<open>The sandbox\<close>

lemma release_claim_idseq [simp]: "af_idseq (release_claim cl f) = af_idseq f"
  by (induction cl arbitrary: f) auto

lemma expire_clock_simps [simp]:
  "rc_agents (expire_clock s) = rc_agents (sb_recovery s)" "rc_spawner (expire_clock s) = rc_spawner (sb_recovery s)"
  "rc_tasks (expire_clock s) = with_clock (sb_now s + 10 * minute) (rc_tasks (sb_recovery s))"
  by (simp_all add: expire_clock_def set_task_clock_def)

text \<open>The simulation tells the truth about a crash. For a task that an agent holds under a lease which
  ends within ten minutes, and with the spawn gate open, killing that agent is simulated to end with
  the task recovered and LEASED, and the sandbox then has the task in the hands of a living agent.\<close>

theorem simulation_predicts_recovery:
  assumes "r = sb_recovery s" "fabric_wf (rc_tasks r)" "ids_fresh (rc_agents r)" "distinct ord" "tid \<in> set ord"
    and "length ord \<le> epoch_budget (rc_tasks r)" "gate_capabilities (rc_spawner r) \<noteq> None"
    and "af_agents (rc_agents r) dead = Some a"
    and "f_tasks (rc_tasks r) tid = Some t" "t_state t \<in> {StateLeased, StateRunning, StateSuspended}"
    and "t_owner t = dead" "t_lease t = Some l" "l_expires l \<le> sb_now s + 10 * minute"
    and "out = simulate ord dead tid s"
  shows "fst out = Inr \<lparr>sr_dead = dead, sr_final_state = ''LEASED'', sr_recovered = True\<rparr>
    \<and> (\<exists>t'. f_tasks (rc_tasks (sb_recovery (snd out))) tid = Some t' \<and> t_state t' = StateLeased
          \<and> af_agents (rc_agents (sb_recovery (snd out))) (t_owner t') \<noteq> None)"
proof -
  obtain af where kill: "kill dead (rc_agents r) = (Inr (), af)"
    "af_agents af = (af_agents (rc_agents r))(dead := None)" "af_idseq af = af_idseq (rc_agents r)"
    using assms(8) by (simp add: kill_def Let_def save_snapshot_def)
  let ?r = "expire_clock (s\<lparr>sb_recovery := r\<lparr>rc_agents := af\<rparr>\<rparr>)"
  have wf: "fabric_wf (rc_tasks ?r)" and room: "length ord \<le> epoch_budget (rc_tasks ?r)"
    using assms(2,6) fabric_wf_cong [of "rc_tasks ?r" "rc_tasks r"] by (simp_all add: with_clock_def epoch_budget_def)
  have fresh: "ids_fresh (rc_agents ?r)" using assms(3) kill(2,3) by (simp add: ids_fresh_def)
  have tid: "tid \<in> set (expired_tasks ord (rc_tasks ?r))"
    using assms(5,9,10,12,13)
    by (auto simp: expired_tasks_def swept_def sweepable_def is_expired_def with_clock_def)
  obtain extra where gate: "gate_capabilities (rc_spawner ?r) = Some extra" using assms(1,7) by auto
  let ?out = "recover_from_agent_death ord ?r"
  note open_run = death_survived_open [OF gate fresh assms(4) room refl refl recover_from_death_run [OF wf assms(4)]]
  then obtain own where "resumed_by (rc_tasks ?r) tid (the (f_tasks (rc_tasks ?r) tid)) (own tid) (snd ?out)"
    using tid unfolding all_resumed_def by blast
  then obtain t' where t': "f_tasks (rc_tasks (snd ?out)) tid = Some t'" "t_state t' = StateLeased"
    "af_agents (rc_agents (snd ?out)) (t_owner t') \<noteq> None"
    by (auto simp: resumed_by_def)
  have "0 < fst ?out" using open_run tid by (cases "expired_tasks ord (rc_tasks ?r)") auto
  moreover have "out = (Inr \<lparr>sr_dead = dead, sr_final_state = sandbox_task_state tid (snd ?out),
      sr_recovered = (fst ?out > 0)\<rparr>, s\<lparr>sb_recovery := snd ?out\<rparr>)"
    using kill(1) assms(1,14) by (cases ?out) (simp add: simulate_def)
  ultimately show ?thesis using t' by (simp add: sandbox_task_state_def get_task_def)
qed

definition scripted :: "string \<Rightarrow> string \<Rightarrow> string \<Rightarrow> string list \<times> sandbox_event" where
  "scripted ty tid aid = ([''t''], \<lparr>se_type = ty, se_task = tid, se_agent = aid\<rparr>)"

definition empty_sandbox :: "unit sandbox" where
  "empty_sandbox = new_sandbox 0 (new_recovery (new_fabric 0) (new_agent_fabric 0) default_restart_policy)"

definition worker_died :: "(string list \<times> sandbox_event) list" where
  "worker_died = [scripted ''agent.spawn'' '''' ''w'', scripted ''task.create'' ''t'' '''',
     scripted ''task.acquire'' ''t'' ''w'']"

definition staged_sandbox :: "unit sandbox" where
  "staged_sandbox = snd (replay_events worker_died empty_sandbox)"

lemmas sandbox_defs = staged_sandbox_def worker_died_def empty_sandbox_def scripted_def new_sandbox_def
  sandbox_step_def new_recovery_def default_restart_policy_def scripted_task_def sandbox_capability_def
  plain_spec_def sample_defs sample_agent_defs minute_def

lemma staged_sandbox_facts:
  "rc_tasks (sb_recovery staged_sandbox) = exec_ops [OpCreate (scripted_task ''t''), OpAcquire ''t'' ''w'' minute] (new_fabric 0)"
  "rc_spawner (sb_recovery staged_sandbox) = NoSpawner" "sb_now staged_sandbox = 0"
  "af_idseq (rc_agents (sb_recovery staged_sandbox)) = 0"
  "\<exists>a. af_agents (rc_agents (sb_recovery staged_sandbox)) = [''w'' \<mapsto> a]"
  by (simp_all add: sandbox_defs add_child_def put_agent_def) (rule exI, rule refl)

lemma simulation_predicts_recovery_witness:
  "fst (simulate [''t''] ''w'' ''t'' staged_sandbox) = Inr \<lparr>sr_dead = ''w'', sr_final_state = ''LEASED'', sr_recovered = True\<rparr>"
proof -
  note facts = staged_sandbox_facts
  have wf: "fabric_wf (rc_tasks (sb_recovery staged_sandbox))"
    unfolding facts(1) by (rule exec_ops_wf) simp_all
  obtain a where a: "af_agents (rc_agents (sb_recovery staged_sandbox)) = [''w'' \<mapsto> a]" using facts(5) by blast
  then have fresh: "ids_fresh (rc_agents (sb_recovery staged_sandbox))" by (simp add: ids_fresh_def)
  have room: "length [''t''] \<le> epoch_budget (rc_tasks (sb_recovery staged_sandbox))"
    unfolding facts(1) by (simp add: epoch_budget_def sandbox_defs)
  obtain t l where t: "f_tasks (rc_tasks (sb_recovery staged_sandbox)) ''t'' = Some t"
    "t_state t \<in> {StateLeased, StateRunning, StateSuspended}" "t_owner t = ''w''" "t_lease t = Some l"
    "l_expires l \<le> sb_now staged_sandbox + 10 * minute"
    unfolding facts(1,3) by (simp add: sandbox_defs)
  show ?thesis
    using simulation_predicts_recovery [OF refl wf fresh _ _ room _ _ t(1,2,3,4,5) refl] a facts(2) by simp
qed

text \<open>
  \<open>lease.expire\<close> puts the clock at one fixed moment: the lease of the replacement starts there and ends a
  minute later, so scripting a second death leaves the task with the dead replacement.
\<close>

lemma second_expiry_missed:
  "map so_state (fst (fst (replay_events
     (worker_died @ [scripted ''agent.kill'' '''' ''w'', scripted ''lease.expire'' '''' '''', scripted ''recover.all'' ''t'' '''',
        scripted ''agent.kill'' '''' ''agent-1'', scripted ''lease.expire'' '''' '''', scripted ''recover.all'' ''t'' ''''])
     empty_sandbox))) = ['''', ''READY'', ''LEASED'', '''', '''', ''LEASED'', '''', '''', ''LEASED'']
   \<and> so_detail (last (fst (fst (replay_events
     (worker_died @ [scripted ''agent.kill'' '''' ''w'', scripted ''lease.expire'' '''' '''', scripted ''recover.all'' ''t'' '''',
        scripted ''agent.kill'' '''' ''agent-1'', scripted ''lease.expire'' '''' '''', scripted ''recover.all'' ''t'' ''''])
     empty_sandbox)))) = [(''recovered'', GInt 0)]"
  by code_simp

end
