(* ===== verification/Agent_Syscall.thy ===== *)
theory Agent_Syscall
  imports Task_Fabric_Props Agent_Fabric_Props
begin

text \<open>
  Package \<open>internal/agentsyscall\<close> (\<open>syscall.go\<close>): the two system calls by which an agent spawns a peer
  and creates a task, and the tools through which a language model reaches them. The identity of the
  caller travels in the context of a tool call (package \<open>internal/kernelctx\<close>), \<open>''''\<close> when there is none.
  An executor is an interface; its type is the parameter \<open>'c\<close>, and the execution body of a spawned
  agent is that executor. What the code hands to the register function is kept as a list.
\<close>

section \<open>The caller's identity\<close>

definition with_caller_id :: "string \<Rightarrow> string \<Rightarrow> string" where
  "with_caller_id aid ctx = (if aid = '''' then ctx else aid)"

section \<open>The kernel\<close>

record 'c syscall_kernel =
  sk_agents :: "'c agent_fabric option"
  sk_tasks :: "fabric option"
  sk_factory :: "(string \<Rightarrow> string \<Rightarrow> 'c option) option"
  sk_register :: bool
  sk_registered :: "(string \<times> 'c) list"
  sk_seq :: nat

datatype syscall_error =
    ErrAgentFabricNotWired
  | ErrTaskFabricNotWired
  | ErrCapabilityRequired
  | ErrSpawnFailed agent_error
  | ErrCreateFailed fabric_error

definition new_syscall_kernel ::
  "'c agent_fabric option \<Rightarrow> fabric option \<Rightarrow> (string \<Rightarrow> string \<Rightarrow> 'c option) option \<Rightarrow> bool \<Rightarrow> 'c syscall_kernel" where
  "new_syscall_kernel af tf fac reg =
     \<lparr>sk_agents = af, sk_tasks = tf, sk_factory = fac, sk_register = reg, sk_registered = [], sk_seq = 0\<rparr>"

section \<open>The execution body of a spawned agent\<close>

record 'r syscall_outcome =
  st_done :: bool
  st_checkpoint :: goval
  st_result :: 'r

text \<open>\<open>cognitionFunc\<close>: the executor's outcome, field by field.\<close>

definition cognition_func :: "('c \<Rightarrow> 't \<Rightarrow> 'e + 'r syscall_outcome) \<Rightarrow> 'c \<Rightarrow> 't \<Rightarrow> 'e + 'r syscall_outcome" where
  "cognition_func step ex task =
     (case step ex task of
        Inl e \<Rightarrow> Inl e
      | Inr out \<Rightarrow> Inr \<lparr>st_done = st_done out, st_checkpoint = st_checkpoint out, st_result = st_result out\<rparr>)"

section \<open>spawn\_agent\<close>

record spawn_agent_args =
  sa_capability :: string
  sa_task_context :: "string \<rightharpoonup> goval"
  sa_resources :: "(string \<times> goval) list"
  sa_parent :: string

record spawn_agent_result =
  sg_agent :: string
  sg_capability :: string
  sg_registered :: bool

definition numbered :: "string \<Rightarrow> string \<Rightarrow> nat \<Rightarrow> string" where
  "numbered pre cap n = pre @ cap @ CHR ''-'' # go_itoa n"

text \<open>The context's caller wins over the argument.\<close>

definition effective_parent :: "string \<Rightarrow> spawn_agent_args \<Rightarrow> string" where
  "effective_parent caller args = (if caller \<noteq> '''' then caller else sa_parent args)"

definition made_executor :: "string \<Rightarrow> string \<Rightarrow> 'c syscall_kernel \<Rightarrow> 'c option" where
  "made_executor aid cap k = (case sk_factory k of None \<Rightarrow> None | Some fac \<Rightarrow> fac aid cap)"

definition syscall_spec :: "string \<Rightarrow> string \<Rightarrow> spawn_agent_args \<Rightarrow> 'c option \<Rightarrow> 'c spawn_spec" where
  "syscall_spec aid caller args ex =
     \<lparr>ss_identity = aid, ss_capabilities = [sa_capability args], ss_parent = effective_parent caller args,
      ss_task_context = sa_task_context args, ss_resources = sa_resources args,
      ss_governance = \<lparr>gv_token_budget = 0, gv_tool_budget = 0, gv_deadline = 0\<rparr>, ss_priority = 0,
      ss_factory = (case ex of None \<Rightarrow> None | Some e \<Rightarrow> Some (\<lambda>_. Some e)), ss_prior = GNil\<rparr>"

definition register_spawned :: "string \<Rightarrow> 'c option \<Rightarrow> 'c syscall_kernel \<Rightarrow> bool \<times> 'c syscall_kernel" where
  "register_spawned aid ex k =
     (case ex of
        Some e \<Rightarrow> if sk_register k then (True, k\<lparr>sk_registered := sk_registered k @ [(aid, e)]\<rparr>) else (False, k)
      | None \<Rightarrow> (False, k))"

definition syscall_spawn ::
  "string \<Rightarrow> spawn_agent_args \<Rightarrow> 'c syscall_kernel \<Rightarrow> (syscall_error, spawn_agent_result, 'c syscall_kernel) outcome"
  where
  "syscall_spawn caller args k =
     (case sk_agents k of
        None \<Rightarrow> (Inl ErrAgentFabricNotWired, k)
      | Some af \<Rightarrow>
          if sa_capability args = '''' then (Inl ErrCapabilityRequired, k)
          else
            (let k1 = k\<lparr>sk_seq := Suc (sk_seq k)\<rparr>;
                 aid = numbered ''spawned-'' (sa_capability args) (sk_seq k1);
                 ex = made_executor aid (sa_capability args) k1
             in case spawn (syscall_spec aid caller args ex) af of
                  (Inl e, af1) \<Rightarrow> (Inl (ErrSpawnFailed e), k1\<lparr>sk_agents := Some af1\<rparr>)
                | (Inr a, af1) \<Rightarrow>
                    (case register_spawned (a_identity a) ex (k1\<lparr>sk_agents := Some af1\<rparr>) of
                       (reg, k2) \<Rightarrow> (Inr \<lparr>sg_agent = a_identity a, sg_capability = sa_capability args,
                                        sg_registered = reg\<rparr>, k2))))"

section \<open>create\_task\<close>

record create_task_args =
  ct_capability :: string
  ct_priority :: int
  ct_deps :: "string list"
  ct_payload :: "(string \<times> goval) list option"

definition syscall_task :: "string \<Rightarrow> string \<Rightarrow> create_task_args \<Rightarrow> task" where
  "syscall_task tid caller args =
     \<lparr>t_id = tid, t_capability = ct_capability args, t_state = StateReady, t_priority = ct_priority args,
      t_owner = '''', t_lease = None, t_checkpoint = GEnvelope 0 GNil (ct_payload args) '''' GNil,
      t_deps = ct_deps args, t_deadline = zero_time, t_retry = \<lparr>rp_max = 2, rp_attempts = 0\<rparr>,
      t_origin = caller\<rparr>"

definition syscall_create ::
  "string \<Rightarrow> create_task_args \<Rightarrow> 'c syscall_kernel \<Rightarrow> (syscall_error, string \<times> string, 'c syscall_kernel) outcome"
  where
  "syscall_create caller args k =
     (case sk_tasks k of
        None \<Rightarrow> (Inl ErrTaskFabricNotWired, k)
      | Some tf \<Rightarrow>
          if ct_capability args = '''' then (Inl ErrCapabilityRequired, k)
          else
            (let k1 = k\<lparr>sk_seq := Suc (sk_seq k)\<rparr>;
                 tid = numbered ''task-'' (ct_capability args) (sk_seq k1)
             in case create (syscall_task tid caller args) tf of
                  (Inl e, tf1) \<Rightarrow> (Inl (ErrCreateFailed e), k1\<lparr>sk_tasks := Some tf1\<rparr>)
                | (Inr _, tf1) \<Rightarrow> (Inr (tid, ''READY''), k1\<lparr>sk_tasks := Some tf1\<rparr>)))"

section \<open>The tools\<close>

text \<open>A tool gets the arguments the model wrote, a map of dynamic values; a field of the wrong type is
  read as absent.\<close>

type_synonym tool_args = "(string \<times> goval) list"

definition string_arg :: "tool_args \<Rightarrow> string \<Rightarrow> string" where
  "string_arg args k = (case map_of args k of Some (GStr s) \<Rightarrow> s | _ \<Rightarrow> '''')"

definition map_arg :: "tool_args \<Rightarrow> string \<Rightarrow> (string \<times> goval) list option" where
  "map_arg args k = (case map_of args k of Some (GMap m) \<Rightarrow> Some m | _ \<Rightarrow> None)"

fun string_items :: "goval list \<Rightarrow> string list" where
  "string_items [] = []"
| "string_items (GStr s # vs) = s # string_items vs"
| "string_items (_ # vs) = string_items vs"

definition read_spawn_args :: "tool_args \<Rightarrow> spawn_agent_args" where
  "read_spawn_args args =
     \<lparr>sa_capability = string_arg args ''capability'',
      sa_task_context = (case map_arg args ''task_context'' of Some m \<Rightarrow> map_of m | None \<Rightarrow> Map.empty),
      sa_resources = (case map_arg args ''resources'' of Some m \<Rightarrow> m | None \<Rightarrow> []),
      sa_parent = string_arg args ''parent_id''\<rparr>"

definition read_create_args :: "tool_args \<Rightarrow> create_task_args" where
  "read_create_args args =
     \<lparr>ct_capability = string_arg args ''capability'', ct_priority = 0,
      ct_deps = (case map_of args ''dependencies'' of Some (GList vs) \<Rightarrow> string_items vs | _ \<Rightarrow> []),
      ct_payload = map_arg args ''payload''\<rparr>"

definition spawn_agent_tool :: "string \<Rightarrow> tool_args \<Rightarrow> 'c syscall_kernel
    \<Rightarrow> (syscall_error, spawn_agent_result, 'c syscall_kernel) outcome" where
  "spawn_agent_tool caller args k = syscall_spawn caller (read_spawn_args args) k"

definition create_task_tool :: "string \<Rightarrow> tool_args \<Rightarrow> 'c syscall_kernel
    \<Rightarrow> (syscall_error, string \<times> string, 'c syscall_kernel) outcome" where
  "create_task_tool caller args k = syscall_create caller (read_create_args args) k"

text \<open>What \<open>ToolSchemas\<close> tells the model: per tool the parameters with their types, and the required ones.\<close>

record tool_schema =
  tc_name :: string
  tc_parameters :: "(string \<times> string) list"
  tc_required :: "string list"

definition tool_schemas :: "tool_schema list" where
  "tool_schemas =
     [\<lparr>tc_name = ''spawn_agent'',
       tc_parameters = [(''capability'', ''string''), (''parent_id'', ''string''), (''task_context'', ''object'')],
       tc_required = [''capability'']\<rparr>,
      \<lparr>tc_name = ''create_task'',
       tc_parameters = [(''capability'', ''string''), (''dependencies'', ''array''), (''payload'', ''object'')],
       tc_required = [''capability'']\<rparr>]"

end
