(* ===== verification/Agent_Syscall_Props.thy ===== *)
theory Agent_Syscall_Props
  imports Agent_Syscall
begin

text \<open>
  The properties of the system calls: whoever makes a call is recorded by the kernel, whatever the
  arguments say; what a call makes is new; a spawned agent runs the executor it was registered with.
\<close>

section \<open>Runs of tool calls\<close>

text \<open>
  A call carries its caller and the arguments the model wrote. Beside the kernel a run keeps what the
  calls made: a task or an agent, its id and the caller of the call.
\<close>

datatype tool_call = CallSpawn string tool_args | CallCreate string tool_args

datatype made_object = MadeTask | MadeAgent

type_synonym made = "(made_object \<times> string \<times> string) list"

fun exec_tool :: "tool_call \<Rightarrow> 'c syscall_kernel \<times> made \<Rightarrow> 'c syscall_kernel \<times> made" where
  "exec_tool (CallSpawn caller args) (k, ms) =
     (case spawn_agent_tool caller args k of
        (Inl e, k1) \<Rightarrow> (k1, ms) | (Inr r, k1) \<Rightarrow> (k1, ms @ [(MadeAgent, sg_agent r, caller)]))"
| "exec_tool (CallCreate caller args) (k, ms) =
     (case create_task_tool caller args k of
        (Inl e, k1) \<Rightarrow> (k1, ms) | (Inr r, k1) \<Rightarrow> (k1, ms @ [(MadeTask, fst r, caller)]))"

definition task_map :: "'c syscall_kernel \<Rightarrow> string \<rightharpoonup> task" where
  "task_map k = (case sk_tasks k of None \<Rightarrow> Map.empty | Some tf \<Rightarrow> f_tasks tf)"

definition agent_map :: "'c syscall_kernel \<Rightarrow> string \<rightharpoonup> 'c agent" where
  "agent_map k = (case sk_agents k of None \<Rightarrow> Map.empty | Some af \<Rightarrow> af_agents af)"

definition attributed :: "'c syscall_kernel \<Rightarrow> 'c syscall_kernel \<times> made \<Rightarrow> bool" where
  "attributed k0 st \<longleftrightarrow> (case st of (k, ms) \<Rightarrow>
     distinct (map (fst \<circ> snd) ms)
     \<and> (\<forall>m \<in> set ms. \<exists>p n. fst (snd m) = p @ CHR ''-'' # go_itoa n \<and> n \<le> sk_seq k)
     \<and> (\<forall>tid c. (MadeTask, tid, c) \<in> set ms \<longrightarrow> (\<exists>t. task_map k tid = Some t \<and> t_origin t = c))
     \<and> (\<forall>aid c. (MadeAgent, aid, c) \<in> set ms \<longrightarrow> (\<exists>a. agent_map k aid = Some a \<and> (c \<noteq> '''' \<longrightarrow> a_parent a = c)))
     \<and> (\<forall>tid. (\<nexists>c. (MadeTask, tid, c) \<in> set ms) \<longrightarrow> task_map k tid = task_map k0 tid)
     \<and> (\<forall>aid. (\<nexists>c. (MadeAgent, aid, c) \<in> set ms) \<longrightarrow> agent_map k aid = agent_map k0 aid))"

lemma attributed_start: "attributed k (k, [])"
  by (simp add: attributed_def)

lemma syscall_create_cases:
  obtains (failed) e q where "syscall_create caller args k = (Inl e, q)"
      "task_map q = task_map k" "agent_map q = agent_map k" "sk_seq k \<le> sk_seq q"
  | (made) tid q where "syscall_create caller args k = (Inr (tid, ''READY''), q)"
      "tid = numbered ''task-'' (ct_capability args) (Suc (sk_seq k))" "task_map k tid = None"
      "task_map q = (task_map k)(tid \<mapsto> syscall_task tid caller args)"
      "agent_map q = agent_map k" "sk_seq q = Suc (sk_seq k)"
proof -
  let ?tid = "numbered ''task-'' (ct_capability args) (Suc (sk_seq k))"
  let ?t = "syscall_task ?tid caller args"
  consider (unwired) "sk_tasks k = None" | (nocap) tf where "sk_tasks k = Some tf" "ct_capability args = ''''"
    | (exists) tf t where "sk_tasks k = Some tf" "ct_capability args \<noteq> ''''" "f_tasks tf ?tid = Some t"
    | (fresh) tf where "sk_tasks k = Some tf" "ct_capability args \<noteq> ''''" "f_tasks tf ?tid = None"
    by (metis option.exhaust)
  then show thesis
  proof cases
    case unwired
    show thesis by (rule failed [of _ k]) (use unwired in \<open>simp_all add: syscall_create_def\<close>)
  next
    case (nocap tf)
    show thesis by (rule failed [of _ k]) (use nocap in \<open>simp_all add: syscall_create_def\<close>)
  next
    case (exists tf t)
    have "create ?t tf = (Inl ErrTaskExists, tf)"
      using exists(3) by (simp add: create_def syscall_task_def numbered_def)
    then show thesis
      using exists by (intro failed [of "ErrCreateFailed ErrTaskExists" "k\<lparr>sk_seq := Suc (sk_seq k), sk_tasks := Some tf\<rparr>"])
        (simp_all add: syscall_create_def task_map_def agent_map_def Let_def)
  next
    case (fresh tf)
    define g where "g = snd (create ?t tf)"
    have g: "create ?t tf = (Inr (), g)" "f_tasks g = (f_tasks tf)(?tid \<mapsto> ?t)"
      using fresh(3) by (simp_all add: g_def create_def syscall_task_def numbered_def disown_def put_task_def
          record_locked_def Let_def)
    show thesis
      by (rule made [of ?tid "k\<lparr>sk_seq := Suc (sk_seq k), sk_tasks := Some g\<rparr>"])
        (use fresh g in \<open>simp_all add: syscall_create_def task_map_def agent_map_def Let_def\<close>)
  qed
qed

lemma register_spawned_frame [simp]:
  "sk_agents (snd (register_spawned aid ex k)) = sk_agents k" "sk_tasks (snd (register_spawned aid ex k)) = sk_tasks k"
  "sk_seq (snd (register_spawned aid ex k)) = sk_seq k"
  by (auto simp: register_spawned_def split: option.split)

lemma syscall_spec_simps [simp]:
  "ss_identity (syscall_spec aid caller args ex) = aid" "ss_parent (syscall_spec aid caller args ex) = effective_parent caller args"
  "ss_capabilities (syscall_spec aid caller args ex) = [sa_capability args]"
  by (simp_all add: syscall_spec_def)

lemma syscall_spawn_cases:
  obtains (failed) e q where "syscall_spawn caller args k = (Inl e, q)"
      "task_map q = task_map k" "agent_map q = agent_map k" "sk_seq k \<le> sk_seq q"
  | (made) aid a ex cl now q where
      "syscall_spawn caller args k = (Inr \<lparr>sg_agent = aid, sg_capability = sa_capability args,
         sg_registered = (ex \<noteq> None \<and> sk_register k)\<rparr>, q)"
      "aid = numbered ''spawned-'' (sa_capability args) (Suc (sk_seq k))"
      "ex = made_executor aid (sa_capability args) k" "a = new_agent aid (syscall_spec aid caller args ex) cl now"
      "agent_map k aid = None" "agent_map q = (agent_map k)(aid \<mapsto> a)" "task_map q = task_map k"
      "sk_seq q = Suc (sk_seq k)"
      "sk_registered q = sk_registered k @ (if sk_register k then (case ex of None \<Rightarrow> [] | Some e \<Rightarrow> [(aid, e)]) else [])"
proof -
  let ?aid = "numbered ''spawned-'' (sa_capability args) (Suc (sk_seq k))"
  let ?ex = "made_executor ?aid (sa_capability args) k"
  let ?spec = "syscall_spec ?aid caller args ?ex"
  have ex: "made_executor b c (k\<lparr>sk_seq := n\<rparr>) = made_executor b c k" for b c n by (simp add: made_executor_def)
  consider (unwired) "sk_agents k = None" | (nocap) af where "sk_agents k = Some af" "sa_capability args = ''''"
    | (some) af where "sk_agents k = Some af" "sa_capability args \<noteq> ''''"
    by (cases "sk_agents k") auto
  then show thesis
  proof cases
    case unwired
    show thesis by (rule failed [of _ k]) (use unwired in \<open>simp_all add: syscall_spawn_def\<close>)
  next
    case (nocap af)
    show thesis by (rule failed [of _ k]) (use nocap in \<open>simp_all add: syscall_spawn_def\<close>)
  next
    case (some af)
    have name: "?aid \<noteq> ''''" by (simp add: numbered_def)
    show thesis
    proof (cases rule: spawn_named_cases [of ?spec af, unfolded syscall_spec_simps, OF name, case_names failed spawned])
      case (failed e)
      then show thesis
        using some
        by (intro that(1) [of "ErrSpawnFailed e" "k\<lparr>sk_seq := Suc (sk_seq k), sk_agents := Some af\<rparr>"])
          (simp_all add: syscall_spawn_def task_map_def agent_map_def Let_def ex)
    next
      case (spawned a g)
      define k1 where "k1 = k\<lparr>sk_seq := Suc (sk_seq k), sk_agents := Some g\<rparr>"
      have k1: "sk_register k1 = sk_register k" "sk_registered k1 = sk_registered k" "sk_seq k1 = Suc (sk_seq k)"
        "task_map k1 = task_map k" "agent_map k1 = (agent_map k)(?aid \<mapsto> a)"
        using spawned(4) some by (simp_all add: k1_def task_map_def agent_map_def)
      have aid: "a_identity a = ?aid" using spawned(3) by simp
      obtain reg q where q: "register_spawned ?aid ?ex k1 = (reg, q)" by fastforce
      have reg: "reg = (?ex \<noteq> None \<and> sk_register k)" "task_map q = task_map k1" "agent_map q = agent_map k1"
        "sk_seq q = sk_seq k1"
        "sk_registered q = sk_registered k @ (if sk_register k then (case ?ex of None \<Rightarrow> [] | Some e \<Rightarrow> [(?aid, e)]) else [])"
        using q k1 by (auto simp: register_spawned_def task_map_def agent_map_def split: option.splits if_splits)
      have "syscall_spawn caller args k = (Inr \<lparr>sg_agent = ?aid, sg_capability = sa_capability args, sg_registered = reg\<rparr>, q)"
        using some spawned(1) q aid by (simp add: syscall_spawn_def Let_def ex k1_def)
      then show thesis
        using that(2) [of ?aid ?ex q a] spawned(2,3) reg k1 some by (simp add: agent_map_def)
    qed
  qed
qed

lemma attributed_new_id:
  assumes "attributed k0 (k, ms)" "m \<in> set ms"
  shows "fst (snd m) \<noteq> p @ CHR ''-'' # go_itoa (Suc (sk_seq k))"
proof
  assume eq: "fst (snd m) = p @ CHR ''-'' # go_itoa (Suc (sk_seq k))"
  obtain q n where "fst (snd m) = q @ CHR ''-'' # go_itoa n" "n \<le> sk_seq k"
    using assms by (auto simp: attributed_def)
  with eq have "n = Suc (sk_seq k)" using numbered_inject by metis
  then show False using \<open>n \<le> sk_seq k\<close> by simp
qed

lemma attributed_failed:
  assumes "attributed k0 (k, ms)" "task_map q = task_map k" "agent_map q = agent_map k" "sk_seq k \<le> sk_seq q"
  shows "attributed k0 (q, ms)"
proof -
  have "\<exists>p n. fst (snd m) = p @ CHR ''-'' # go_itoa n \<and> n \<le> sk_seq q" if "m \<in> set ms" for m
    using assms(1,4) that unfolding attributed_def split_conv by (meson order_trans)
  then show ?thesis using assms(1-3) by (simp add: attributed_def)
qed

lemma attributed_made:
  assumes "attributed k0 (k, ms)" "sk_seq q = Suc (sk_seq k)" "i = p @ CHR ''-'' # go_itoa (Suc (sk_seq k))"
    and "kind = MadeTask \<Longrightarrow> agent_map q = agent_map k \<and> (\<exists>t. task_map q = (task_map k)(i \<mapsto> t) \<and> t_origin t = c)"
    and "kind = MadeAgent \<Longrightarrow> task_map q = task_map k
      \<and> (\<exists>a. agent_map q = (agent_map k)(i \<mapsto> a) \<and> (c \<noteq> '''' \<longrightarrow> a_parent a = c))"
  shows "attributed k0 (q, ms @ [(kind, i, c)])"
proof -
  have new: "fst (snd m) \<noteq> i" if "m \<in> set ms" for m
    using attributed_new_id [OF assms(1) that] assms(3) by simp
  then have new': "(kd, i, c') \<notin> set ms" for kd c' by fastforce
  have seq: "\<exists>p n. fst (snd m) = p @ CHR ''-'' # go_itoa n \<and> n \<le> sk_seq q" if "m \<in> set (ms @ [(kind, i, c)])" for m
  proof (cases "m \<in> set ms")
    case True
    then obtain p n where "fst (snd m) = p @ CHR ''-'' # go_itoa n" "n \<le> sk_seq k"
      using assms(1) by (auto simp: attributed_def)
    then show ?thesis using assms(2) by (metis le_SucI)
  next
    case False
    then show ?thesis using that assms(2,3) by (metis fst_conv insert_iff le_refl list.simps(15) rotate1.simps(2) set_rotate1 snd_conv)
  qed
  have dist: "distinct (map (fst \<circ> snd) (ms @ [(kind, i, c)]))"
    using assms(1) new by (auto simp: attributed_def)
  show ?thesis
  proof (cases kind)
    case MadeTask
    then obtain t where "agent_map q = agent_map k" "task_map q = (task_map k)(i \<mapsto> t)" "t_origin t = c"
      using assms(4) by blast
    then show ?thesis using MadeTask assms(1) dist seq new' by (auto simp: attributed_def)
  next
    case MadeAgent
    then obtain a where "task_map q = task_map k" "agent_map q = (agent_map k)(i \<mapsto> a)" "c \<noteq> '''' \<longrightarrow> a_parent a = c"
      using assms(5) by blast
    then show ?thesis using MadeAgent assms(1) dist seq new' by (auto simp: attributed_def)
  qed
qed

lemma exec_tool_attributed: "attributed k0 st \<Longrightarrow> attributed k0 (exec_tool x st)"
proof -
  obtain k ms where st: "st = (k, ms)" by (cases st)
  assume inv: "attributed k0 st"
  show ?thesis
  proof (cases x)
    case (CallSpawn caller args)
    show ?thesis
    proof (cases rule: syscall_spawn_cases [of caller "read_spawn_args args" k])
      case (failed e q)
      then show ?thesis
        using inv st CallSpawn attributed_failed [of k0 k ms q] by (simp add: spawn_agent_tool_def)
    next
      case (made aid a ex cl now q)
      have "a_parent a = effective_parent caller (read_spawn_args args)" using made(4) by simp
      moreover have "aid = (''spawned-'' @ sa_capability (read_spawn_args args)) @ CHR ''-'' # go_itoa (Suc (sk_seq k))"
        using made(2) by (simp add: numbered_def)
      ultimately have "attributed k0 (q, ms @ [(MadeAgent, aid, caller)])"
        using inv st made(6,7,8) by (intro attributed_made) (auto simp: effective_parent_def)
      then show ?thesis using made(1) st CallSpawn by (simp add: spawn_agent_tool_def)
    qed
  next
    case (CallCreate caller args)
    show ?thesis
    proof (cases rule: syscall_create_cases [of caller "read_create_args args" k])
      case (failed e q)
      then show ?thesis
        using inv st CallCreate attributed_failed [of k0 k ms q] by (simp add: create_task_tool_def)
    next
      case (made tid q)
      have "tid = (''task-'' @ ct_capability (read_create_args args)) @ CHR ''-'' # go_itoa (Suc (sk_seq k))"
        using made(2) by (simp add: numbered_def)
      then have "attributed k0 (q, ms @ [(MadeTask, tid, caller)])"
        using inv st made(4,5,6) by (intro attributed_made) (auto simp: syscall_task_def)
      then show ?thesis using made(1) st CallCreate by (simp add: create_task_tool_def)
    qed
  qed
qed

interpretation provenance: invariant_system exec_tool "\<lambda>_. True" "attributed k0" for k0
  by unfold_locales (rule exec_tool_attributed)

section \<open>Properties\<close>

text \<open>C27: Provenance is the kernel's. Whatever agents call whatever tools with whatever arguments, no two
  calls make objects with one id; every task a call made names that caller as its origin; every agent made on
  behalf of a caller has that caller as its parent, whatever parent the arguments claim; and what the
  calls did not make is as it was.\<close>

theorem provenance_enforced:
  assumes "(k', ms) = fold exec_tool calls (k, [])"
  shows "distinct (map (fst \<circ> snd) ms)
    \<and> (\<forall>tid c. (MadeTask, tid, c) \<in> set ms \<longrightarrow> (\<exists>t. task_map k' tid = Some t \<and> t_origin t = c))
    \<and> (\<forall>aid c. (MadeAgent, aid, c) \<in> set ms \<longrightarrow>
         (\<exists>a. agent_map k' aid = Some a \<and> (c \<noteq> '''' \<longrightarrow> a_parent a = c)))
    \<and> (\<forall>tid. (\<nexists>c. (MadeTask, tid, c) \<in> set ms) \<longrightarrow> task_map k' tid = task_map k tid)
    \<and> (\<forall>aid. (\<nexists>c. (MadeAgent, aid, c) \<in> set ms) \<longrightarrow> agent_map k' aid = agent_map k aid)"
proof -
  have "attributed k (k', ms)"
    using provenance.run_inv [OF attributed_start, of calls k] assms by (simp add: list_all_iff)
  then show ?thesis by (simp add: attributed_def)
qed

definition sample_syscalls :: "nat syscall_kernel" where
  "sample_syscalls = new_syscall_kernel (Some (new_agent_fabric 0)) (Some (new_fabric 0)) (Some (\<lambda>aid cap. Some 7)) True"

definition forging_calls :: "tool_call list" where
  "forging_calls =
     [CallSpawn ''boss'' [(''capability'', GStr ''coder''), (''parent_id'', GStr ''king'')],
      CallCreate ''spawned-coder-1'' [(''capability'', GStr ''coder''), (''origin'', GStr ''king'')]]"

lemma forging_calls_made:
  "snd (fold exec_tool forging_calls (sample_syscalls, [])) =
     [(MadeAgent, ''spawned-coder-1'', ''boss''), (MadeTask, ''task-coder-2'', ''spawned-coder-1'')]"
  by code_simp

lemma provenance_enforced_witness:
  "\<exists>a t. agent_map (fst (fold exec_tool forging_calls (sample_syscalls, []))) ''spawned-coder-1'' = Some a
     \<and> a_parent a = ''boss''
     \<and> task_map (fst (fold exec_tool forging_calls (sample_syscalls, []))) ''task-coder-2'' = Some t
     \<and> t_origin t = ''spawned-coder-1''"
  using provenance_enforced [OF prod.collapse, of forging_calls sample_syscalls]
  unfolding forging_calls_made by force

text \<open>A spawned agent can work. If the spawn tool answers with an id, the agent is in the fabric under
  it, idle, with the requested capability; if a factory made an executor, that very executor is the agent's body, so
  one quantum of the agent is one step of it; the same executor is registered exactly when a register
  function is wired, and the answer says so.\<close>

theorem spawned_agent_runs:
  assumes "spawn_agent_tool caller args k = (Inr r, k')"
  shows "\<exists>a. agent_map k' (sg_agent r) = Some a \<and> agent_map k (sg_agent r) = None \<and> a_state a = AgentIdle
      \<and> a_capabilities a = [string_arg args ''capability'']
      \<and> a_cognition a = made_executor (sg_agent r) (string_arg args ''capability'') k
      \<and> agent_execute_step (cognition_func step) a task =
          (case made_executor (sg_agent r) (string_arg args ''capability'') k of
             None \<Rightarrow> Inl (Inl ErrAgentNotExecutable)
           | Some ex \<Rightarrow> (case step ex task of Inl e \<Rightarrow> Inl (Inr e) | Inr out \<Rightarrow> Inr out))
    \<and> (sg_registered r \<longleftrightarrow> executable a \<and> sk_register k)
    \<and> sk_registered k' = sk_registered k @
        (if sk_register k then (case a_cognition a of None \<Rightarrow> [] | Some ex \<Rightarrow> [(sg_agent r, ex)]) else [])"
proof (cases rule: syscall_spawn_cases [of caller "read_spawn_args args" k])
  case (failed e q)
  then show ?thesis using assms by (simp add: spawn_agent_tool_def)
next
  case (made aid a ex cl now q)
  have r: "r = \<lparr>sg_agent = aid, sg_capability = sa_capability (read_spawn_args args),
      sg_registered = (ex \<noteq> None \<and> sk_register k)\<rparr>" "k' = q"
    using assms made(1) by (simp_all add: spawn_agent_tool_def)
  have cog: "a_cognition a = ex" using made(4) by (simp add: new_agent_def syscall_spec_def split: option.split)
  have "sa_capability (read_spawn_args args) = string_arg args ''capability''" by (simp add: read_spawn_args_def)
  then show ?thesis
    using made r cog
    by (intro exI [of _ a]) (auto simp: agent_execute_step_def cognition_func_def executable_def split: option.split sum.split)
qed

lemma spawned_agent_runs_witness:
  "\<exists>a. agent_map (snd (spawn_agent_tool ''boss'' [(''capability'', GStr ''coder'')] sample_syscalls)) ''spawned-coder-1'' = Some a
     \<and> agent_execute_step (cognition_func (\<lambda>ex t. Inr \<lparr>st_done = (ex = t), st_checkpoint = GNil, st_result = ()\<rparr>)) a 7
        = (Inr \<lparr>st_done = True, st_checkpoint = GNil, st_result = ()\<rparr> :: (agent_error + unit) + unit syscall_outcome)"
proof -
  let ?out = "spawn_agent_tool ''boss'' [(''capability'', GStr ''coder'')] sample_syscalls"
  have fst: "fst ?out = Inr \<lparr>sg_agent = ''spawned-coder-1'', sg_capability = ''coder'', sg_registered = True\<rparr>"
    by code_simp
  then have out: "?out = (Inr \<lparr>sg_agent = ''spawned-coder-1'', sg_capability = ''coder'', sg_registered = True\<rparr>, snd ?out)"
    by (metis prod.collapse)
  have ex: "made_executor aid cap sample_syscalls = Some 7" for aid cap
    by (simp add: made_executor_def sample_syscalls_def new_syscall_kernel_def)
  show ?thesis
    using spawned_agent_runs [OF out, of "\<lambda>ex t. Inr \<lparr>st_done = (ex = t), st_checkpoint = GNil, st_result = ()\<rparr>" 7] ex
    by auto
qed

text \<open>A created task is schedulable at once. If the create tool answers with an id, the answer says READY and the
  task is there: without an owner, with the requested capability and the dependencies that are strings,
  two retries, priority zero whatever the arguments say, and a checkpoint that decodes to the payload; every task that
  was there is unchanged, and any agent can acquire it.\<close>

theorem created_task_ready:
  assumes "create_task_tool caller args k = (Inr (tid, st), k')" "agent \<noteq> ''''"
  shows "st = ''READY'' \<and> task_map k tid = None
    \<and> (\<exists>t. task_map k' = (task_map k)(tid \<mapsto> t) \<and> t_state t = StateReady \<and> t_owner t = '''' \<and> t_id t = tid
        \<and> t_capability t = string_arg args ''capability'' \<and> t_deps t = ct_deps (read_create_args args)
        \<and> t_priority t = 0 \<and> rp_max (t_retry t) = 2 \<and> can_retry t
        \<and> map_sum id dc_payload (decode_checkpoint (t_checkpoint t)) = Inr (map_arg args ''payload''))
    \<and> (\<exists>tf. sk_tasks k' = Some tf \<and> \<not> isl (fst (acquire tid agent ttl tf)))"
proof (cases rule: syscall_create_cases [of caller "read_create_args args" k])
  case (failed e q)
  then show ?thesis using assms by (simp add: create_task_tool_def)
next
  case (made i q)
  have r: "tid = i" "st = ''READY''" "k' = q" using assms made(1) by (simp_all add: create_task_tool_def)
  let ?t = "syscall_task tid caller (read_create_args args)"
  obtain tf where tf: "sk_tasks k' = Some tf" "f_tasks tf tid = Some ?t"
    using made(4) r by (cases "sk_tasks k'") (auto simp: task_map_def fun_eq_iff split: if_splits)
  then have "\<not> isl (fst (acquire tid agent ttl tf))"
    using assms(2) by (simp add: acquire_def syscall_task_def transition_def Let_def)
  then show ?thesis
    using made r tf
    by (intro conjI exI [of _ ?t]) (auto simp: syscall_task_def read_create_args_def can_retry_def current_checkpoint_schema_version_def)
qed

lemma created_task_ready_witness:
  "\<exists>t. task_map (snd (create_task_tool '''' [(''capability'', GStr ''coder''), (''priority'', GInt 9)] sample_syscalls)) ''task-coder-1'' = Some t
     \<and> t_priority t = 0"
proof -
  let ?out = "create_task_tool '''' [(''capability'', GStr ''coder''), (''priority'', GInt 9)] sample_syscalls"
  have "fst ?out = Inr (''task-coder-1'', ''READY'')" by code_simp
  then have out: "?out = (Inr (''task-coder-1'', ''READY''), snd ?out)" by (metis prod.collapse)
  show ?thesis using created_task_ready [OF out, of "''a''" 0] by auto
qed

end
