(* ===== verification/Agent_Ipc.thy ===== *)
theory Agent_Ipc
  imports Interfaces
begin

text \<open>
  Package \<open>internal/agentipc\<close>: the message bus between agents (\<open>bus.go\<close>, \<open>primitives.go\<close>) and the dispatcher
  that runs the old and the new execution path side by side (\<open>policy.go\<close>). A handler is a value of
  the parameter \<open>'h\<close>; what it does with a message is an argument, and it may use the bus. A request
  runs its handler in a goroutine of its own, so requests are a step relation.
\<close>

section \<open>The bus\<close>

record ipc_message =
  im_id :: string
  im_from :: string
  im_to :: string
  im_topic :: string
  im_corr :: string
  im_payload :: goval
  im_at :: time

datatype 'e ipc_error =
    ErrAgentNotRegistered
  | ErrInvalidMessage
  | ErrIpcTimeout
  | ErrIpcCancelled
  | ErrIpcAgentId
  | ErrIpcHandlerNil
  | ErrIpcHandler 'e

text \<open>
  A pending request is its reply channel, a buffer of one: \<open>None\<close> when it is empty, else the reply,
  where no message is the signal of a handler's error.
\<close>

type_synonym reply_channel = "ipc_message option option"

record ('h, 'e) ipc_bus =
  ib_handlers :: "string \<rightharpoonup> 'h"
  ib_subs :: "string \<rightharpoonup> string list"
  ib_pending :: "string \<rightharpoonup> reply_channel"
  ib_errors :: "string \<rightharpoonup> 'e"
  ib_seq :: nat
  ib_now :: time

definition new_bus :: "time \<Rightarrow> ('h, 'e) ipc_bus" where
  "new_bus now = \<lparr>ib_handlers = Map.empty, ib_subs = Map.empty, ib_pending = Map.empty, ib_errors = Map.empty,
     ib_seq = 0, ib_now = now\<rparr>"

definition bus_with_clock :: "time \<Rightarrow> ('h, 'e) ipc_bus \<Rightarrow> ('h, 'e) ipc_bus" where
  "bus_with_clock now b = b\<lparr>ib_now := now\<rparr>"

definition bus_register ::
  "string \<Rightarrow> 'h option \<Rightarrow> ('h, 'e) ipc_bus \<Rightarrow> ('e ipc_error, unit, ('h, 'e) ipc_bus) outcome" where
  "bus_register aid h b =
     (if aid = '''' then (Inl ErrIpcAgentId, b)
      else (case h of
              None \<Rightarrow> (Inl ErrIpcHandlerNil, b)
            | Some g \<Rightarrow> (Inr (), b\<lparr>ib_handlers := (ib_handlers b)(aid \<mapsto> g)\<rparr>)))"

definition drop_subscriber :: "string \<Rightarrow> string list \<Rightarrow> string list" where
  "drop_subscriber aid subs = filter (\<lambda>s. s \<noteq> aid) subs"

definition bus_unregister :: "string \<Rightarrow> ('h, 'e) ipc_bus \<Rightarrow> ('h, 'e) ipc_bus" where
  "bus_unregister aid b =
     b\<lparr>ib_handlers := (ib_handlers b)(aid := None),
       ib_subs := (\<lambda>topic. map_option (drop_subscriber aid) (ib_subs b topic))\<rparr>"

definition alloc_id :: "('h, 'e) ipc_bus \<Rightarrow> string \<times> ('h, 'e) ipc_bus" where
  "alloc_id b = (''msg-'' @ go_itoa (Suc (ib_seq b)), b\<lparr>ib_seq := Suc (ib_seq b)\<rparr>)"

definition subscribers :: "string \<Rightarrow> ('h, 'e) ipc_bus \<Rightarrow> string list" where
  "subscribers topic b = (case ib_subs b topic of None \<Rightarrow> [] | Some subs \<Rightarrow> subs)"

definition bus_subscribe ::
  "string \<Rightarrow> string \<Rightarrow> ('h, 'e) ipc_bus \<Rightarrow> ('e ipc_error, unit, ('h, 'e) ipc_bus) outcome" where
  "bus_subscribe aid topic b =
     (if aid = '''' then (Inl ErrIpcAgentId, b)
      else (Inr (), b\<lparr>ib_subs := (ib_subs b)(topic \<mapsto> subscribers topic b @ [aid])\<rparr>))"

definition bus_unsubscribe :: "string \<Rightarrow> string \<Rightarrow> ('h, 'e) ipc_bus \<Rightarrow> ('h, 'e) ipc_bus" where
  "bus_unsubscribe aid topic b =
     b\<lparr>ib_subs := (ib_subs b)(topic \<mapsto> drop_subscriber aid (subscribers topic b))\<rparr>"

section \<open>Messages without a reply\<close>

text \<open>What a handler does: an error or not, and what it made of the bus.\<close>

type_synonym ('h, 'e) ipc_run = "'h \<Rightarrow> ipc_message \<Rightarrow> ('h, 'e) ipc_bus \<Rightarrow> 'e option \<times> ('h, 'e) ipc_bus"

definition one_way :: "string \<Rightarrow> string \<Rightarrow> string \<Rightarrow> goval \<Rightarrow> ('h, 'e) ipc_bus \<Rightarrow> ipc_message \<times> ('h, 'e) ipc_bus" where
  "one_way from to topic payload b =
     (case alloc_id b of
        (i, b1) \<Rightarrow> (\<lparr>im_id = i, im_from = from, im_to = to, im_topic = topic, im_corr = '''',
                    im_payload = payload, im_at = ib_now b1\<rparr>, b1))"

definition bus_send ::
  "('h, 'e) ipc_run \<Rightarrow> string \<Rightarrow> string \<Rightarrow> string \<Rightarrow> goval \<Rightarrow> ('h, 'e) ipc_bus
    \<Rightarrow> ('e ipc_error, unit, ('h, 'e) ipc_bus) outcome" where
  "bus_send run from to topic payload b =
     (case ib_handlers b to of
        None \<Rightarrow> (Inl ErrAgentNotRegistered, b)
      | Some h \<Rightarrow>
          (case one_way from to topic payload b of
             (msg, b1) \<Rightarrow>
               (case run h msg b1 of
                  (Some e, b2) \<Rightarrow> (Inl (ErrIpcHandler e), b2)
                | (None, b2) \<Rightarrow> (Inr (), b2))))"

text \<open>\<open>Broadcast\<close>: the subscribers are those when it starts, the handlers those when their turn comes.\<close>

fun broadcast_to ::
  "('h, 'e) ipc_run \<Rightarrow> string \<Rightarrow> string \<Rightarrow> goval \<Rightarrow> string list \<Rightarrow> ('h, 'e) ipc_bus \<Rightarrow> int \<times> ('h, 'e) ipc_bus" where
  "broadcast_to run from topic payload [] b = (0, b)"
| "broadcast_to run from topic payload (sub # subs) b =
     (case ib_handlers b sub of
        None \<Rightarrow> broadcast_to run from topic payload subs b
      | Some h \<Rightarrow>
          (case one_way from sub topic payload b of
             (msg, b1) \<Rightarrow>
               (case run h msg b1 of
                  (err, b2) \<Rightarrow>
                    (case broadcast_to run from topic payload subs b2 of
                       (n, b3) \<Rightarrow> (if err = None then n + 1 else n, b3)))))"

definition bus_broadcast ::
  "('h, 'e) ipc_run \<Rightarrow> string \<Rightarrow> string \<Rightarrow> goval \<Rightarrow> ('h, 'e) ipc_bus \<Rightarrow> int \<times> ('h, 'e) ipc_bus" where
  "bus_broadcast run from topic payload b = broadcast_to run from topic payload (subscribers topic b) b"

section \<open>The pending table\<close>

definition deliver_reply :: "string \<Rightarrow> ipc_message option \<Rightarrow> ('h, 'e) ipc_bus \<Rightarrow> ('h, 'e) ipc_bus" where
  "deliver_reply corr reply b =
     (case ib_pending b corr of
        None \<Rightarrow> b
      | Some (Some r) \<Rightarrow> b
      | Some None \<Rightarrow> b\<lparr>ib_pending := (ib_pending b)(corr \<mapsto> Some reply)\<rparr>)"

definition remove_pending :: "string \<Rightarrow> ('h, 'e) ipc_bus \<Rightarrow> ('h, 'e) ipc_bus" where
  "remove_pending corr b =
     b\<lparr>ib_pending := (ib_pending b)(corr := None), ib_errors := (ib_errors b)(corr := None)\<rparr>"

definition stash_error :: "string \<Rightarrow> 'e \<Rightarrow> ('h, 'e) ipc_bus \<Rightarrow> ('h, 'e) ipc_bus" where
  "stash_error corr e b = b\<lparr>ib_errors := (ib_errors b)(corr \<mapsto> e)\<rparr>"

definition pop_error :: "string \<Rightarrow> ('h, 'e) ipc_bus \<Rightarrow> 'e option \<times> ('h, 'e) ipc_bus" where
  "pop_error corr b = (ib_errors b corr, b\<lparr>ib_errors := (ib_errors b)(corr := None)\<rparr>)"

definition bus_reply ::
  "string \<Rightarrow> ipc_message option \<Rightarrow> ('h, 'e) ipc_bus \<Rightarrow> ('e ipc_error, unit, ('h, 'e) ipc_bus) outcome" where
  "bus_reply corr reply b =
     (if corr = '''' then (Inl ErrInvalidMessage, b)
      else if reply = None then (Inl ErrInvalidMessage, b)
      else (Inr (), deliver_reply corr reply b))"

section \<open>Requests\<close>

text \<open>\<open>Request\<close> up to the start of the goroutine: the correlation id and the request the handler gets.\<close>

definition begin_request ::
  "string \<Rightarrow> string \<Rightarrow> string \<Rightarrow> goval \<Rightarrow> ('h, 'e) ipc_bus
    \<Rightarrow> ('e ipc_error, ipc_message, ('h, 'e) ipc_bus) outcome" where
  "begin_request from to topic payload b =
     (case ib_handlers b to of
        None \<Rightarrow> (Inl ErrAgentNotRegistered, b)
      | Some h \<Rightarrow>
          (case alloc_id b of
             (i, b1) \<Rightarrow>
               (let corr = i @ ''-corr'';
                    b2 = b1\<lparr>ib_pending := (ib_pending b1)(corr \<mapsto> None)\<rparr>
                in case alloc_id b2 of
                     (j, b3) \<Rightarrow> (Inr \<lparr>im_id = j, im_from = from, im_to = to, im_topic = topic, im_corr = corr,
                                   im_payload = payload, im_at = ib_now b3\<rparr>, b3))))"

definition stamped_reply :: "ipc_message \<Rightarrow> ipc_message \<Rightarrow> ipc_message" where
  "stamped_reply req reply = reply\<lparr>im_corr := im_corr req, im_to := im_from req, im_from := im_to req\<rparr>"

text \<open>What \<open>Request\<close> makes of the reply it received, and its deferred clean-up.\<close>

definition finish_request ::
  "string \<Rightarrow> ipc_message option \<Rightarrow> ('h, 'e) ipc_bus \<Rightarrow> ('e ipc_error, ipc_message, ('h, 'e) ipc_bus) outcome" where
  "finish_request corr reply b =
     (case reply of
        Some m \<Rightarrow> (Inr m, remove_pending corr b)
      | None \<Rightarrow>
          (case pop_error corr b of
             (Some e, b1) \<Rightarrow> (Inl (ErrIpcHandler e), remove_pending corr b1)
           | (None, b1) \<Rightarrow> (Inl ErrIpcTimeout, remove_pending corr b1)))"

definition handoff_payload :: "string \<Rightarrow> (string \<times> goval) list \<Rightarrow> goval" where
  "handoff_payload tid ctx = GMap [(''task_id'', GStr tid), (''context'', GMap ctx), (''artifacts'', GList [])]"

definition begin_handoff ::
  "string \<Rightarrow> string \<Rightarrow> string \<Rightarrow> (string \<times> goval) list \<Rightarrow> ('h, 'e) ipc_bus
    \<Rightarrow> ('e ipc_error, ipc_message, ('h, 'e) ipc_bus) outcome" where
  "begin_handoff from to tid ctx b = begin_request from to ''handoff-task'' (handoff_payload tid ctx) b"

definition begin_delegate ::
  "string \<Rightarrow> string \<Rightarrow> string \<Rightarrow> goval \<Rightarrow> ('h, 'e) ipc_bus
    \<Rightarrow> ('e ipc_error, ipc_message, ('h, 'e) ipc_bus) outcome" where
  "begin_delegate delegator to topic payload b = begin_request delegator to topic payload b"

section \<open>The two execution paths\<close>

text \<open>
  \<open>ExecutionPolicy\<close> is an integer; a dispatcher is a value of the parameter \<open>'d\<close>, \<open>None\<close> when it is not
  wired. What a dispatch does to the world, and its error, is an argument.
\<close>

definition policy_legacy :: int where "policy_legacy = 0"

definition policy_task_fabric :: int where "policy_task_fabric = 1"

record 'd dual_track =
  dt_flag :: int
  dt_legacy :: "'d option"
  dt_new :: "'d option"
  dt_shadow :: bool
  dt_mismatches :: int

type_synonym ('d, 'e, 'w) dispatch_run = "'d \<Rightarrow> string \<Rightarrow> string \<Rightarrow> goval \<Rightarrow> 'w \<Rightarrow> 'e option \<times> 'w"

datatype 'e dispatch_error = ErrDispatcherNotRegistered | ErrDispatch 'e

definition new_dual_track :: "int \<Rightarrow> 'd option \<Rightarrow> 'd option \<Rightarrow> bool \<Rightarrow> 'd dual_track" where
  "new_dual_track flag legacy new shadow =
     \<lparr>dt_flag = flag, dt_legacy = legacy, dt_new = new, dt_shadow = shadow, dt_mismatches = 0\<rparr>"

definition set_policy :: "int \<Rightarrow> 'd dual_track \<Rightarrow> 'd dual_track" where
  "set_policy p d = d\<lparr>dt_flag := p\<rparr>"

definition set_shadow :: "bool \<Rightarrow> 'd dual_track \<Rightarrow> 'd dual_track" where
  "set_shadow b d = d\<lparr>dt_shadow := b\<rparr>"

definition set_new_path :: "'d option \<Rightarrow> 'd dual_track \<Rightarrow> 'd dual_track" where
  "set_new_path n d = d\<lparr>dt_new := n\<rparr>"

definition is_legacy :: "'d dual_track \<Rightarrow> bool" where
  "is_legacy d \<longleftrightarrow> dt_flag d = policy_legacy"

definition is_task_fabric :: "'d dual_track \<Rightarrow> bool" where
  "is_task_fabric d \<longleftrightarrow> dt_flag d = policy_task_fabric"

definition compare_shadow ::
  "('d, 'e, 'w) dispatch_run \<Rightarrow> string \<Rightarrow> string \<Rightarrow> goval \<Rightarrow> 'e option \<Rightarrow> 'd option \<Rightarrow> 'd dual_track \<times> 'w
    \<Rightarrow> 'd dual_track \<times> 'w" where
  "compare_shadow run aid tid payload err other s =
     (case other of
        None \<Rightarrow> s
      | Some o1 \<Rightarrow>
          (case run o1 aid tid payload (snd s) of
             (shadow_err, w) \<Rightarrow>
               (if (err = None) \<noteq> (shadow_err = None)
                then (fst s)\<lparr>dt_mismatches := dt_mismatches (fst s) + 1\<rparr> else fst s, w)))"

definition dispatch_on ::
  "('d, 'e, 'w) dispatch_run \<Rightarrow> string \<Rightarrow> string \<Rightarrow> goval \<Rightarrow> 'd option \<Rightarrow> 'd option \<Rightarrow> 'd dual_track \<times> 'w
    \<Rightarrow> 'e dispatch_error option \<times> 'd dual_track \<times> 'w" where
  "dispatch_on run aid tid payload active other s =
     (case active of
        None \<Rightarrow> (Some ErrDispatcherNotRegistered, s)
      | Some a \<Rightarrow>
          (case run a aid tid payload (snd s) of
             (err, w) \<Rightarrow>
               (map_option ErrDispatch err,
                if dt_shadow (fst s) then compare_shadow run aid tid payload err other (fst s, w) else (fst s, w))))"

definition dual_dispatch ::
  "('d, 'e, 'w) dispatch_run \<Rightarrow> string \<Rightarrow> string \<Rightarrow> goval \<Rightarrow> 'd dual_track \<times> 'w
    \<Rightarrow> 'e dispatch_error option \<times> 'd dual_track \<times> 'w" where
  "dual_dispatch run aid tid payload s =
     (if is_legacy (fst s) then dispatch_on run aid tid payload (dt_legacy (fst s)) (dt_new (fst s)) s
      else dispatch_on run aid tid payload (dt_new (fst s)) (dt_legacy (fst s)) s)"

end
