(* ===== verification/Agent_Ipc_Props.thy ===== *)
theory Agent_Ipc_Props
  imports Agent_Ipc
begin

text \<open>
  The properties of the bus: the requests of all agents as a step relation, what a requester gets, who
  can answer it and what a late answer leaves behind; broadcasts; the dual dispatcher.
\<close>

section \<open>The system of requests\<close>

text \<open>
  A request waits, has received, or is over (each with the message it sent); its handler runs, has stored its error, or is over. The
  system remembers which replies reached a channel (and whether they came from the handler's return),
  which errors handlers returned, and which requests gave up.
\<close>

datatype 'e request_state =
    RqWaiting ipc_message
  | RqReceived ipc_message "ipc_message option"
  | RqDone ipc_message "'e ipc_error + ipc_message"

datatype 'e worker_state = HRunning ipc_message | HStashed 'e | HFinished

record ('h, 'e) ipc_system =
  sy_bus :: "('h, 'e) ipc_bus"
  sy_requests :: "string \<rightharpoonup> 'e request_state"
  sy_workers :: "string \<rightharpoonup> 'e worker_state"
  sy_accepted :: "(string \<times> ipc_message \<times> bool) list"
  sy_raised :: "(string \<times> 'e) list"
  sy_gave_up :: "string list"

definition new_system :: "time \<Rightarrow> ('h, 'e) ipc_system" where
  "new_system now = \<lparr>sy_bus = new_bus now, sy_requests = Map.empty, sy_workers = Map.empty,
     sy_accepted = [], sy_raised = [], sy_gave_up = []\<rparr>"

definition accepts :: "string \<Rightarrow> ('h, 'e) ipc_bus \<Rightarrow> bool" where
  "accepts corr b \<longleftrightarrow> ib_pending b corr = Some None"

text \<open>An operation that is not part of a request leaves the pending table alone.\<close>

definition aside :: "('h, 'e) ipc_bus \<Rightarrow> ('h, 'e) ipc_bus \<Rightarrow> bool" where
  "aside b b' \<longleftrightarrow> ib_pending b' = ib_pending b \<and> ib_errors b' = ib_errors b \<and> ib_seq b \<le> ib_seq b'"

inductive ipc_step :: "('h, 'e) ipc_system \<Rightarrow> ('h, 'e) ipc_system \<Rightarrow> bool" where
  start: "begin_request from to topic payload (sy_bus s) = (Inr req, b) \<Longrightarrow>
    ipc_step s (s\<lparr>sy_bus := b, sy_requests := (sy_requests s)(im_corr req \<mapsto> RqWaiting req),
                  sy_workers := (sy_workers s)(im_corr req \<mapsto> HRunning req)\<rparr>)"
| handler_error: "sy_workers s corr = Some (HRunning req) \<Longrightarrow>
    ipc_step s (s\<lparr>sy_bus := stash_error corr e (sy_bus s), sy_workers := (sy_workers s)(corr \<mapsto> HStashed e),
                  sy_raised := (corr, e) # sy_raised s\<rparr>)"
| handler_signal: "sy_workers s corr = Some (HStashed e) \<Longrightarrow>
    ipc_step s (s\<lparr>sy_bus := deliver_reply corr None (sy_bus s), sy_workers := (sy_workers s)(corr \<mapsto> HFinished)\<rparr>)"
| handler_reply: "sy_workers s corr = Some (HRunning req) \<Longrightarrow>
    ipc_step s (s\<lparr>sy_bus := deliver_reply corr (Some (stamped_reply req m)) (sy_bus s),
                  sy_workers := (sy_workers s)(corr \<mapsto> HFinished),
                  sy_accepted := (if accepts corr (sy_bus s)
                     then (corr, stamped_reply req m, True) # sy_accepted s else sy_accepted s)\<rparr>)"
| handler_silent: "sy_workers s corr = Some (HRunning req) \<Longrightarrow>
    ipc_step s (s\<lparr>sy_workers := (sy_workers s)(corr \<mapsto> HFinished)\<rparr>)"
| late_reply: "bus_reply corr (Some m) (sy_bus s) = (Inr (), b) \<Longrightarrow>
    ipc_step s (s\<lparr>sy_bus := b, sy_accepted := (if accepts corr (sy_bus s)
                     then (corr, m, False) # sy_accepted s else sy_accepted s)\<rparr>)"
| receive: "sy_requests s corr = Some (RqWaiting req) \<Longrightarrow> ib_pending (sy_bus s) corr = Some (Some r) \<Longrightarrow>
    ipc_step s (s\<lparr>sy_bus := (sy_bus s)\<lparr>ib_pending := (ib_pending (sy_bus s))(corr \<mapsto> None)\<rparr>,
                  sy_requests := (sy_requests s)(corr \<mapsto> RqReceived req r)\<rparr>)"
| finish: "sy_requests s corr = Some (RqReceived req r) \<Longrightarrow> finish_request corr r (sy_bus s) = (res, b) \<Longrightarrow>
    ipc_step s (s\<lparr>sy_bus := b, sy_requests := (sy_requests s)(corr \<mapsto> RqDone req res)\<rparr>)"
| give_up: "sy_requests s corr = Some (RqWaiting req) \<Longrightarrow> err = ErrIpcTimeout \<or> err = ErrIpcCancelled \<Longrightarrow>
    ipc_step s (s\<lparr>sy_bus := remove_pending corr (sy_bus s),
                  sy_requests := (sy_requests s)(corr \<mapsto> RqDone req (Inl err)), sy_gave_up := corr # sy_gave_up s\<rparr>)"
| other: "aside (sy_bus s) b \<Longrightarrow> ipc_step s (s\<lparr>sy_bus := b\<rparr>)"

text \<open>The other operations of the bus, as long as the handlers they run use such operations only.\<close>

lemma aside_refl [simp]: "aside b b"
  by (simp add: aside_def)

lemma aside_trans: "aside a b \<Longrightarrow> aside b c \<Longrightarrow> aside a c"
  by (auto simp: aside_def)

lemma one_way_aside: "one_way from to topic payload b = (msg, b') \<Longrightarrow> aside b b'"
  by (auto simp: one_way_def alloc_id_def aside_def)

lemma other_ops_aside:
  "aside b (bus_with_clock now b)" "aside b (snd (bus_register aid h b))" "aside b (bus_unregister aid b)"
  "aside b (snd (bus_subscribe aid topic b))" "aside b (bus_unsubscribe aid topic b)"
  by (auto simp: aside_def bus_with_clock_def bus_register_def bus_unregister_def bus_subscribe_def
      bus_unsubscribe_def split: option.split)

lemma send_aside:
  assumes "\<And>h m b. aside b (snd (run h m b))"
  shows "aside b (snd (bus_send run from to topic payload b))"
proof (cases "ib_handlers b to")
  case (Some h)
  obtain msg b1 where m: "one_way from to topic payload b = (msg, b1)" by fastforce
  obtain e b2 where e: "run h msg b1 = (e, b2)" by fastforce
  have "aside b b1" "aside b1 b2" using one_way_aside [OF m] assms [of b1 h msg] e by simp_all
  then have "aside b b2" by (rule aside_trans)
  then show ?thesis using Some m e by (simp add: bus_send_def split: option.split)
qed (simp add: bus_send_def)

lemma broadcast_aside:
  assumes "\<And>h m b. aside b (snd (run h m b))"
  shows "aside b (snd (broadcast_to run from topic payload subs b))"
proof (induction subs arbitrary: b)
  case (Cons sub subs)
  show ?case
  proof (cases "ib_handlers b sub")
    case None
    then show ?thesis using Cons.IH [of b] by simp
  next
    case (Some h)
    obtain msg b1 where m: "one_way from sub topic payload b = (msg, b1)" by fastforce
    obtain e b2 where e: "run h msg b1 = (e, b2)" by fastforce
    have "aside b b1" "aside b1 b2" using one_way_aside [OF m] assms [of b1 h msg] e by simp_all
    then have "aside b (snd (broadcast_to run from topic payload subs b2))"
      using Cons.IH [of b2] aside_trans by blast
    then show ?thesis using Some m e by (auto split: prod.split)
  qed
qed simp

section \<open>The invariant\<close>

definition corr_name :: "nat \<Rightarrow> string" where
  "corr_name n = ''msg-'' @ go_itoa n @ ''-corr''"

lemma corr_name_inject [simp]: "corr_name m = corr_name n \<longleftrightarrow> m = n"
  by (simp add: corr_name_def)

fun request_of :: "'e request_state \<Rightarrow> ipc_message" where
  "request_of (RqWaiting req) = req"
| "request_of (RqReceived req r) = req"
| "request_of (RqDone req res) = req"

fun active :: "'e request_state \<Rightarrow> bool" where
  "active (RqDone req res) = False"
| "active _ = True"

lemma active_cases: "active q \<longleftrightarrow> (\<exists>req. q = RqWaiting req) \<or> (\<exists>req r. q = RqReceived req r)"
  by (cases q) auto

definition used :: "('h, 'e) ipc_system \<Rightarrow> string \<Rightarrow> bool" where
  "used s c \<longleftrightarrow> sy_requests s c \<noteq> None \<or> sy_workers s c \<noteq> None \<or> ib_pending (sy_bus s) c \<noteq> None
     \<or> ib_errors (sy_bus s) c \<noteq> None"

definition named_ok :: "('h, 'e) ipc_system \<Rightarrow> bool" where
  "named_ok s \<longleftrightarrow> (\<forall>c. used s c \<longrightarrow> (\<exists>n \<le> ib_seq (sy_bus s). c = corr_name n))"

definition pending_ok :: "('h, 'e) ipc_system \<Rightarrow> bool" where
  "pending_ok s \<longleftrightarrow> (\<forall>c. ib_pending (sy_bus s) c \<noteq> None \<longleftrightarrow> (\<exists>q. sy_requests s c = Some q \<and> active q))"

definition signal_ok :: "('h, 'e) ipc_system \<Rightarrow> bool" where
  "signal_ok s \<longleftrightarrow>
     (\<forall>c. ib_pending (sy_bus s) c = Some (Some None) \<longrightarrow> ib_errors (sy_bus s) c \<noteq> None)
     \<and> (\<forall>c req. sy_requests s c = Some (RqReceived req None) \<longrightarrow> ib_errors (sy_bus s) c \<noteq> None)
     \<and> (\<forall>c e. sy_workers s c = Some (HStashed e) \<and> ib_pending (sy_bus s) c \<noteq> None \<longrightarrow> ib_errors (sy_bus s) c \<noteq> None)"

definition reply_ok :: "('h, 'e) ipc_system \<Rightarrow> bool" where
  "reply_ok s \<longleftrightarrow>
     (\<forall>c m. ib_pending (sy_bus s) c = Some (Some (Some m)) \<longrightarrow> (\<exists>k. (c, m, k) \<in> set (sy_accepted s)))
     \<and> (\<forall>c req m. sy_requests s c = Some (RqReceived req (Some m)) \<longrightarrow> (\<exists>k. (c, m, k) \<in> set (sy_accepted s)))
     \<and> (\<forall>c req m. sy_requests s c = Some (RqDone req (Inr m)) \<longrightarrow> (\<exists>k. (c, m, k) \<in> set (sy_accepted s)))"

definition error_ok :: "('h, 'e) ipc_system \<Rightarrow> bool" where
  "error_ok s \<longleftrightarrow>
     (\<forall>c e. ib_errors (sy_bus s) c = Some e \<longrightarrow> (c, e) \<in> set (sy_raised s))
     \<and> (\<forall>c req err. sy_requests s c = Some (RqDone req (Inl err)) \<longrightarrow>
          (\<exists>e. err = ErrIpcHandler e \<and> (c, e) \<in> set (sy_raised s))
          \<or> (err = ErrIpcTimeout \<or> err = ErrIpcCancelled) \<and> c \<in> set (sy_gave_up s))"

definition stamp_ok :: "('h, 'e) ipc_system \<Rightarrow> bool" where
  "stamp_ok s \<longleftrightarrow>
     (\<forall>c q. sy_requests s c = Some q \<longrightarrow> im_corr (request_of q) = c)
     \<and> (\<forall>c req. sy_workers s c = Some (HRunning req) \<longrightarrow> (\<exists>q. sy_requests s c = Some q \<and> request_of q = req))
     \<and> (\<forall>c m. (c, m, True) \<in> set (sy_accepted s) \<longrightarrow>
          (\<exists>q r. sy_requests s c = Some q \<and> m = stamped_reply (request_of q) r))"

definition ipc_inv :: "('h, 'e) ipc_system \<Rightarrow> bool" where
  "ipc_inv s \<longleftrightarrow> named_ok s \<and> pending_ok s \<and> signal_ok s \<and> reply_ok s \<and> error_ok s \<and> stamp_ok s"

lemma ipc_inv_new: "ipc_inv (new_system now)"
  by (simp add: ipc_inv_def named_ok_def used_def pending_ok_def signal_ok_def reply_ok_def error_ok_def stamp_ok_def
      new_system_def new_bus_def)

lemma begin_request_Inr:
  assumes "begin_request from to topic payload b = (Inr req, b')"
  shows "im_corr req = corr_name (Suc (ib_seq b)) \<and> ib_pending b' = (ib_pending b)(im_corr req \<mapsto> None)
    \<and> ib_errors b' = ib_errors b \<and> ib_seq b' = Suc (Suc (ib_seq b)) \<and> im_from req = from \<and> im_to req = to"
  using assms
  by (auto simp: begin_request_def alloc_id_def corr_name_def Let_def split: option.splits)

lemma start_fresh:
  assumes "named_ok s" "c = corr_name (Suc (ib_seq (sy_bus s)))"
  shows "sy_requests s c = None" "sy_workers s c = None" "ib_pending (sy_bus s) c = None" "ib_errors (sy_bus s) c = None"
proof -
  have "\<not> used s c" using assms by (auto simp: named_ok_def)
  then show "sy_requests s c = None" "sy_workers s c = None" "ib_pending (sy_bus s) c = None" "ib_errors (sy_bus s) c = None"
    by (simp_all add: used_def)
qed

lemmas bus_step_defs = stash_error_def deliver_reply_def remove_pending_def pop_error_def finish_request_def
  bus_reply_def aside_def accepts_def

lemma used_step:
  "ipc_step s t \<Longrightarrow> ib_seq (sy_bus s) \<le> ib_seq (sy_bus t)
     \<and> (used t c \<longrightarrow> used s c \<or> c = corr_name (Suc (ib_seq (sy_bus s))) \<and> Suc (ib_seq (sy_bus s)) \<le> ib_seq (sy_bus t))"
proof -
  assume "ipc_step s t"
  then show ?thesis
  proof (cases rule: ipc_step.cases)
    case (start sender target topic payload req b)
    then show ?thesis using begin_request_Inr [OF start(2)] by (auto simp: used_def)
  qed (auto simp: used_def bus_step_defs split: option.splits if_splits)
qed

lemma named_step: "ipc_step s t \<Longrightarrow> named_ok s \<Longrightarrow> named_ok t"
  unfolding named_ok_def by (metis used_step order_trans)


lemma pending_step: "ipc_step s t \<Longrightarrow> named_ok s \<Longrightarrow> pending_ok s \<Longrightarrow> pending_ok t"
proof -
  assume step: "ipc_step s t" and inv: "named_ok s" "pending_ok s"
  from step show ?thesis
  proof (cases rule: ipc_step.cases)
    case (start sender target topic payload req b)
    then show ?thesis using inv begin_request_Inr [OF start(2)] by (simp add: pending_ok_def)
  next
    case (receive corr req r)
    then show ?thesis using inv(2) by (simp add: pending_ok_def)
  next
    case (finish corr req r res b)
    then have "ib_pending b = (ib_pending (sy_bus s))(corr := None)"
      by (auto simp: bus_step_defs split: option.splits)
    then show ?thesis using finish inv(2) by (simp add: pending_ok_def)
  next
    case (handler_signal corr e)
    then show ?thesis using inv(2) by (auto simp: pending_ok_def bus_step_defs split: option.splits)
  next
    case (handler_reply corr req m)
    then show ?thesis using inv(2) by (auto simp: pending_ok_def bus_step_defs split: option.splits)
  next
    case (late_reply corr m b)
    then show ?thesis using inv(2) by (auto simp: pending_ok_def bus_step_defs split: option.splits if_splits)
  qed (use inv(2) in \<open>auto simp: pending_ok_def bus_step_defs\<close>)
qed

lemma signal_step: "ipc_step s t \<Longrightarrow> named_ok s \<Longrightarrow> pending_ok s \<Longrightarrow> signal_ok s \<Longrightarrow> signal_ok t"
proof -
  assume step: "ipc_step s t" and inv: "named_ok s" "pending_ok s" "signal_ok s"
  from step show ?thesis
  proof (cases rule: ipc_step.cases)
    case (start sender target topic payload req b)
    then show ?thesis
      using inv(3) begin_request_Inr [OF start(2)] by (auto simp: signal_ok_def)
  next
    case (handler_error corr req e)
    then show ?thesis using inv(3) by (auto simp: signal_ok_def bus_step_defs)
  next
    case (handler_signal corr e)
    then show ?thesis using inv(3) by (auto simp: signal_ok_def bus_step_defs split: option.splits)
  next
    case (handler_reply corr req m)
    then show ?thesis using inv(3) by (auto simp: signal_ok_def bus_step_defs split: option.splits)
  next
    case (handler_silent corr req)
    then show ?thesis using inv(3) by (auto simp: signal_ok_def)
  next
    case (late_reply corr m b)
    then show ?thesis using inv(3) by (auto simp: signal_ok_def bus_step_defs split: option.splits if_splits)
  next
    case (receive corr req r)
    then show ?thesis using inv(3) by (auto simp: signal_ok_def)
  next
    case (finish corr req r res b)
    then have "ib_pending b = (ib_pending (sy_bus s))(corr := None)" "ib_errors b = (ib_errors (sy_bus s))(corr := None)"
      by (auto simp: bus_step_defs split: option.splits)
    then show ?thesis using finish inv(3) by (auto simp: signal_ok_def)
  next
    case (give_up corr req err)
    moreover have "sy_requests s c \<noteq> Some (RqReceived q r)" if "c = corr" for c q r using that give_up(2) by simp
    ultimately show ?thesis using inv(3) by (auto simp: signal_ok_def bus_step_defs)
  next
    case (other b)
    then show ?thesis using inv(3) by (auto simp: signal_ok_def aside_def)
  qed
qed

lemma reply_step: "ipc_step s t \<Longrightarrow> named_ok s \<Longrightarrow> reply_ok s \<Longrightarrow> reply_ok t"
proof -
  assume step: "ipc_step s t" and inv: "named_ok s" "reply_ok s"
  from step show ?thesis
  proof (cases rule: ipc_step.cases)
    case (start sender target topic payload req b)
    then show ?thesis using inv(2) begin_request_Inr [OF start(2)] by (auto simp: reply_ok_def)
  next
    case (handler_signal corr e)
    then show ?thesis using inv(2) by (auto simp: reply_ok_def bus_step_defs split: option.splits if_splits)
  next
    case (handler_reply corr req m)
    then show ?thesis using inv(2) by (auto simp: reply_ok_def bus_step_defs split: option.splits) blast+
  next
    case (late_reply corr m b)
    then show ?thesis using inv(2) by (auto simp: reply_ok_def bus_step_defs split: option.splits if_splits) blast+
  next
    case (finish corr req r res b)
    then show ?thesis using inv(2) by (auto simp: reply_ok_def bus_step_defs split: option.splits if_splits)
  next
    case (receive corr req r)
    then show ?thesis using inv(2) by (auto simp: reply_ok_def)
  next
    case (other b)
    then show ?thesis using inv(2) by (auto simp: reply_ok_def aside_def)
  qed (use inv(2) in \<open>auto simp: reply_ok_def bus_step_defs split: if_splits\<close>)
qed

lemma error_step: "ipc_step s t \<Longrightarrow> signal_ok s \<Longrightarrow> error_ok s \<Longrightarrow> error_ok t"
proof -
  assume step: "ipc_step s t" and inv: "signal_ok s" "error_ok s"
  from step show ?thesis
  proof (cases rule: ipc_step.cases)
    case (start sender target topic payload req b)
    then show ?thesis using inv(2) begin_request_Inr [OF start(2)] by (auto simp: error_ok_def)
  next
    case (handler_error corr req e)
    then show ?thesis using inv(2) by (simp add: error_ok_def bus_step_defs) blast
  next
    case (handler_signal corr e)
    then show ?thesis using inv(2) by (auto simp: error_ok_def bus_step_defs split: option.splits if_splits)
  next
    case (handler_reply corr req m)
    then show ?thesis using inv(2) by (auto simp: error_ok_def bus_step_defs split: option.splits if_splits)
  next
    case (late_reply corr m b)
    then show ?thesis using inv(2) by (auto simp: error_ok_def bus_step_defs split: option.splits if_splits)
  next
    case (finish corr req r res b)
    have "r = None \<Longrightarrow> ib_errors (sy_bus s) corr \<noteq> None" using finish(2) inv(1) by (auto simp: signal_ok_def)
    then show ?thesis using finish inv(2) by (auto simp: error_ok_def bus_step_defs split: option.splits if_splits)
  next
    case (other b)
    then show ?thesis using inv(2) by (auto simp: error_ok_def aside_def)
  qed (use inv(2) in \<open>auto simp: error_ok_def bus_step_defs split: if_splits\<close>)
qed

lemma stamp_step: "ipc_step s t \<Longrightarrow> named_ok s \<Longrightarrow> stamp_ok s \<Longrightarrow> stamp_ok t"
proof -
  assume step: "ipc_step s t" and inv: "named_ok s" "stamp_ok s"
  from step show ?thesis
  proof (cases rule: ipc_step.cases)
    case (start sender target topic payload req b)
    have "sy_requests s (im_corr req) = None"
      using start_fresh [OF inv(1)] begin_request_Inr [OF start(2)] by simp
    then show ?thesis using start inv(2) by (fastforce simp: stamp_ok_def)
  next
    case (handler_reply corr req m)
    then show ?thesis using inv(2) by (fastforce simp: stamp_ok_def)
  next
    case (receive corr req r)
    then show ?thesis using inv(2) by (fastforce simp: stamp_ok_def)
  next
    case (finish corr req r res b)
    then show ?thesis using inv(2) by (fastforce simp: stamp_ok_def)
  next
    case (give_up corr req err)
    then show ?thesis using inv(2) by (fastforce simp: stamp_ok_def)
  qed (use inv(2) in \<open>auto simp: stamp_ok_def split: if_splits\<close>)
qed

interpretation ipc: step_system ipc_step ipc_inv
  by unfold_locales
    (auto simp: ipc_inv_def intro: named_step pending_step signal_step reply_step error_step stamp_step)

section \<open>Properties\<close>

inductive_cases start_stepE: "ipc_step (new_system now) t"

definition sy_reach :: "time \<Rightarrow> ('h, 'e) ipc_system \<Rightarrow> bool" where
  "sy_reach now s \<longleftrightarrow> ipc_step\<^sup>*\<^sup>* (new_system now) s"

lemma reach_ipc_inv: "sy_reach now s \<Longrightarrow> ipc_inv s"
  unfolding sy_reach_def using ipc.reach_inv ipc_inv_new by blast

lemma done_stays:
  assumes "ipc_step s t" "ipc_inv s" "sy_requests s c = Some (RqDone req res)"
  shows "sy_requests t c = Some (RqDone req res)"
  using assms(1)
proof (cases rule: ipc_step.cases)
  case (start sender target topic payload rq b)
  have "named_ok s" using assms(2) by (simp add: ipc_inv_def)
  then have "sy_requests s (im_corr rq) = None"
    using start_fresh [of s] begin_request_Inr [OF start(2)] by simp
  then show ?thesis using start assms(3) by auto
qed (use assms(3) in auto)

text \<open>C28: Whatever agents, handlers and late repliers do, a request ends once and with what happened.
  When it is over it holds no channel, its outcome never changes again, and the outcome is either a reply that
  reached its channel (one the handler returned is addressed to the requester, comes from the
  target and carries the correlation id), or an error the handler of this very request returned, or
  a timeout or cancellation of the wait: no error is ever reported as a timeout, and no reply is
  invented.\<close>

theorem request_outcome_sound:
  assumes "sy_reach now s" "sy_requests s c = Some (RqDone req res)"
  shows "ib_pending (sy_bus s) c = None \<and> im_corr req = c
    \<and> (case res of
         Inr m \<Rightarrow> \<exists>k. (c, m, k) \<in> set (sy_accepted s)
           \<and> (k \<longrightarrow> im_corr m = c \<and> im_to m = im_from req \<and> im_from m = im_to req)
       | Inl err \<Rightarrow> (\<exists>e. err = ErrIpcHandler e \<and> (c, e) \<in> set (sy_raised s))
           \<or> (err = ErrIpcTimeout \<or> err = ErrIpcCancelled) \<and> c \<in> set (sy_gave_up s))
    \<and> (\<forall>t. ipc_step\<^sup>*\<^sup>* s t \<longrightarrow> sy_requests t c = Some (RqDone req res))"
proof -
  have inv: "pending_ok s" "reply_ok s" "error_ok s" "stamp_ok s" "ipc_inv s"
    using reach_ipc_inv [OF assms(1)] by (simp_all add: ipc_inv_def)
  have corr: "im_corr req = c" using inv(4) assms(2) unfolding stamp_ok_def by (metis request_of.simps(3))
  have "ib_pending (sy_bus s) c = None"
    using inv(1) assms(2) unfolding pending_ok_def by (metis active.simps(1) option.inject)
  moreover have "\<exists>k. (c, m, k) \<in> set (sy_accepted s)
      \<and> (k \<longrightarrow> im_corr m = c \<and> im_to m = im_from req \<and> im_from m = im_to req)" if res: "res = Inr m" for m
  proof -
    obtain k where k: "(c, m, k) \<in> set (sy_accepted s)" using inv(2) assms(2) res unfolding reply_ok_def by blast
    have "\<exists>r. m = stamped_reply req r" if k
      using inv(4) assms(2) k that unfolding stamp_ok_def by fastforce
    then show ?thesis using k corr by (intro exI [of _ k]) (auto simp: stamped_reply_def)
  qed
  moreover have "(\<exists>e. err = ErrIpcHandler e \<and> (c, e) \<in> set (sy_raised s))
      \<or> (err = ErrIpcTimeout \<or> err = ErrIpcCancelled) \<and> c \<in> set (sy_gave_up s)" if "res = Inl err" for err
    using inv(3) assms(2) that unfolding error_ok_def by blast
  moreover have "sy_requests t c = Some (RqDone req res)" if "ipc_step\<^sup>*\<^sup>* s t" for t
    using ipc.reach_stable [OF that inv(5), of "\<lambda>s. sy_requests s c = Some (RqDone req res)"] assms(2) done_stays by blast
  ultimately show ?thesis using corr by (auto split: sum.split)
qed

text \<open>A handler that fails after its requester gave up stores an error nobody will take away.\<close>

definition leaked :: "string \<Rightarrow> 'e \<Rightarrow> ('h, 'e) ipc_system \<Rightarrow> bool" where
  "leaked c e s \<longleftrightarrow> (\<exists>req res. sy_requests s c = Some (RqDone req res))
     \<and> (\<nexists>req. sy_workers s c = Some (HRunning req)) \<and> sy_workers s c \<noteq> None \<and> ib_errors (sy_bus s) c = Some e"

lemma leaked_stays:
  assumes "ipc_step s t" "ipc_inv s" "leaked c e s"
  shows "leaked c e t"
  using assms(1)
proof (cases rule: ipc_step.cases)
  case (start sender target topic payload rq b)
  have "named_ok s" using assms(2) by (simp add: ipc_inv_def)
  then have "c \<noteq> im_corr rq"
    using start_fresh [of s c] begin_request_Inr [OF start(2)] assms(3) by (auto simp: leaked_def)
  then show ?thesis using start assms(3) begin_request_Inr [OF start(2)] by (simp add: leaked_def)
next
  case (finish corr req r res b)
  then have "c \<noteq> corr" using assms(3) by (auto simp: leaked_def)
  then show ?thesis using finish assms(3) by (auto simp: leaked_def bus_step_defs split: option.splits)
next
  case (receive corr req r)
  then have "c \<noteq> corr" using assms(3) by (auto simp: leaked_def)
  then show ?thesis using receive assms(3) by (simp add: leaked_def)
next
  case (give_up corr req err)
  then have "c \<noteq> corr" using assms(3) by (auto simp: leaked_def)
  then show ?thesis using give_up assms(3) by (simp add: leaked_def remove_pending_def)
qed (use assms(3) in \<open>auto simp: leaked_def bus_step_defs split: option.splits if_splits\<close>)

text \<open>Late errors leak. If a requester has given up and its handler then returns an error, the error
  enters the bus's table and no later operation whatever takes it out again: the clean-up ran before it.\<close>

theorem late_error_leaks:
  assumes "sy_reach now s" "sy_requests s c = Some (RqDone req res)" "sy_workers s c = Some (HRunning req')"
    and "s' = s\<lparr>sy_bus := stash_error c e (sy_bus s), sy_workers := (sy_workers s)(c \<mapsto> HStashed e),
               sy_raised := (c, e) # sy_raised s\<rparr>"
  shows "ipc_step s s' \<and> (\<forall>t. ipc_step\<^sup>*\<^sup>* s' t \<longrightarrow> ib_errors (sy_bus t) c = Some e)"
proof -
  have step: "ipc_step s s'" unfolding assms(4) by (rule ipc_step.handler_error [OF assms(3)])
  have inv: "ipc_inv s'" using ipc.step_inv [OF step reach_ipc_inv [OF assms(1)]] .
  have leak: "leaked c e s'" using assms(2,4) by (simp add: leaked_def stash_error_def)
  have "leaked c e t" if "ipc_step\<^sup>*\<^sup>* s' t" for t
    by (rule ipc.reach_stable [where P = "leaked c e", OF that inv leak leaked_stays])
  then have "ib_errors (sy_bus t) c = Some e" if "ipc_step\<^sup>*\<^sup>* s' t" for t
    using that by (simp add: leaked_def)
  then show ?thesis using step by blast
qed

text \<open>A run: \<open>a\<close> asks \<open>b\<close>, gives up, and \<open>b\<close> fails afterwards.\<close>

definition asked_bus :: "(nat, nat) ipc_bus" where
  "asked_bus = snd (bus_register ''b'' (Some 0) (new_bus 0))"

definition sample_request :: ipc_message where
  "sample_request = \<lparr>im_id = ''msg-2'', im_from = ''a'', im_to = ''b'', im_topic = ''q'', im_corr = ''msg-1-corr'',
     im_payload = GNil, im_at = 0\<rparr>"

definition asked_system :: "(nat, nat) ipc_system" where
  "asked_system = (new_system 0)\<lparr>sy_bus := asked_bus\<lparr>ib_seq := 2, ib_pending := [''msg-1-corr'' \<mapsto> None]\<rparr>,
     sy_requests := [''msg-1-corr'' \<mapsto> RqWaiting sample_request],
     sy_workers := [''msg-1-corr'' \<mapsto> HRunning sample_request]\<rparr>"

definition given_up_system :: "(nat, nat) ipc_system" where
  "given_up_system = asked_system\<lparr>sy_bus := remove_pending ''msg-1-corr'' (sy_bus asked_system),
     sy_requests := (sy_requests asked_system)(''msg-1-corr'' \<mapsto> RqDone sample_request (Inl ErrIpcTimeout)),
     sy_gave_up := ''msg-1-corr'' # sy_gave_up asked_system\<rparr>"

lemma itoa_samples: "go_itoa (Suc 0) = ''1''" "go_itoa (Suc (Suc 0)) = ''2''"
  by code_simp+

lemma begin_sample: "begin_request ''a'' ''b'' ''q'' GNil asked_bus = (Inr sample_request, sy_bus asked_system)"
  by (simp add: begin_request_def asked_bus_def bus_register_def new_bus_def alloc_id_def Let_def sample_request_def
      asked_system_def itoa_samples numeral_2_eq_2)

lemma asked_system_reach: "sy_reach 0 asked_system"
proof -
  have "ipc_step (new_system 0) ((new_system 0 :: (nat, nat) ipc_system)\<lparr>sy_bus := asked_bus\<rparr>)"
    by (rule ipc_step.other) (simp add: new_system_def asked_bus_def other_ops_aside)
  moreover have "ipc_step ((new_system 0 :: (nat, nat) ipc_system)\<lparr>sy_bus := asked_bus\<rparr>) asked_system"
    using ipc_step.start [of "''a''" "''b''" "''q''" GNil "(new_system 0)\<lparr>sy_bus := asked_bus\<rparr>", simplified, OF begin_sample]
    by (simp add: asked_system_def sample_request_def new_system_def)
  ultimately show ?thesis unfolding sy_reach_def by (meson converse_rtranclp_into_rtranclp rtranclp.rtrancl_refl)
qed

lemma given_up_reach: "sy_reach 0 given_up_system"
proof -
  have "ipc_step asked_system given_up_system"
    unfolding given_up_system_def
    by (rule ipc_step.give_up) (simp_all add: asked_system_def)
  then show ?thesis using asked_system_reach unfolding sy_reach_def by (rule rtranclp.rtrancl_into_rtrancl [rotated])
qed

lemma request_outcome_sound_witness:
  "{t. ipc_step\<^sup>*\<^sup>* given_up_system t}
    \<subseteq> {t. sy_requests t ''msg-1-corr'' = Some (RqDone sample_request (Inl ErrIpcTimeout))}"
proof -
  have "sy_requests given_up_system ''msg-1-corr'' = Some (RqDone sample_request (Inl ErrIpcTimeout))"
    by (simp add: given_up_system_def)
  from request_outcome_sound [OF given_up_reach this] show ?thesis by blast
qed

lemma late_error_leaks_witness:
  "\<exists>s :: (nat, nat) ipc_system. sy_reach 0 s
    \<and> {t. ipc_step\<^sup>*\<^sup>* s t} \<subseteq> {t. ib_errors (sy_bus t) ''msg-1-corr'' = Some (7 :: nat)}"
proof -
  have s: "sy_requests given_up_system ''msg-1-corr'' = Some (RqDone sample_request (Inl ErrIpcTimeout))"
    "sy_workers given_up_system ''msg-1-corr'' = Some (HRunning sample_request)"
    by (simp_all add: given_up_system_def asked_system_def)
  obtain s' where "ipc_step given_up_system s'"
    "\<forall>t. ipc_step\<^sup>*\<^sup>* s' t \<longrightarrow> ib_errors (sy_bus t) ''msg-1-corr'' = Some (7 :: nat)"
    using late_error_leaks [OF given_up_reach s refl, of 7] by blast
  moreover have "sy_reach 0 s'"
    using given_up_reach calculation(1) unfolding sy_reach_def by (rule rtranclp.rtrancl_into_rtrancl)
  ultimately show ?thesis by blast
qed

text \<open>\<open>Reply\<close> stamps nothing: whoever knows a correlation id can answer under any name.\<close>

lemma reply_unstamped:
  "ib_pending (snd (bus_reply ''msg-1-corr'' (Some (sample_request\<lparr>im_from := ''mallory'', im_corr := ''''\<rparr>))
      (sy_bus asked_system))) ''msg-1-corr'' = Some (Some (Some (sample_request\<lparr>im_from := ''mallory'', im_corr := ''''\<rparr>)))"
  by (simp add: bus_reply_def deliver_reply_def asked_system_def)

section \<open>Broadcasts\<close>

definition run_keeps_handlers :: "('h, 'e) ipc_run \<Rightarrow> bool" where
  "run_keeps_handlers run \<longleftrightarrow> (\<forall>h m b. ib_handlers (snd (run h m b)) = ib_handlers b)"

text \<open>A broadcast counts whom it reached. If a handler's verdict depends on the handler alone and
  handlers do not change the registrations, a broadcast returns the number of entries in the topic's subscriber list whose
  agent is registered and whose handler succeeds: an agent that subscribed twice counts, and is
  called, twice.\<close>

theorem broadcast_exact:
  assumes "run_keeps_handlers run" "\<And>h m b. (fst (run h m b) = None) = good h"
  shows "fst (bus_broadcast run from topic payload b) =
     int (length [aid \<leftarrow> subscribers topic b. case ib_handlers b aid of None \<Rightarrow> False | Some h \<Rightarrow> good h])"
proof -
  have "fst (broadcast_to run from topic payload subs b) =
      int (length [aid \<leftarrow> subs. case ib_handlers b aid of None \<Rightarrow> False | Some h \<Rightarrow> good h])" for subs b
  proof (induction subs arbitrary: b)
    case (Cons sub subs)
    show ?case
    proof (cases "ib_handlers b sub")
      case None
      then show ?thesis using Cons.IH [of b] by simp
    next
      case (Some h)
      obtain msg b1 where m: "one_way from sub topic payload b = (msg, b1)" by fastforce
      obtain e b2 where e: "run h msg b1 = (e, b2)" by fastforce
      have "ib_handlers b1 = ib_handlers b" using m by (auto simp: one_way_def alloc_id_def)
      moreover have "ib_handlers b2 = ib_handlers b1" using assms(1) e unfolding run_keeps_handlers_def by (metis snd_conv)
      ultimately have "ib_handlers b2 = ib_handlers b" by simp
      moreover have "(e = None) = good h" using assms(2) [of h msg b1] e by simp
      ultimately show ?thesis using Some m e Cons.IH [of b2] by (auto split: prod.split)
    qed
  qed simp
  then show ?thesis by (simp add: bus_broadcast_def)
qed

definition twice_subscribed :: "(nat, nat) ipc_bus" where
  "twice_subscribed = snd (bus_subscribe ''b'' ''t'' (snd (bus_subscribe ''b'' ''t'' asked_bus)))"

lemma broadcast_exact_witness: "fst (bus_broadcast (\<lambda>h m b. (None, b)) ''a'' ''t'' GNil twice_subscribed) = 2"
  using broadcast_exact [of "\<lambda>h m b. (None, b)" "\<lambda>_. True" "''a''" "''t''" GNil twice_subscribed]
  by (simp add: run_keeps_handlers_def twice_subscribed_def asked_bus_def bus_register_def bus_subscribe_def
      subscribers_def new_bus_def)

section \<open>The dual dispatcher\<close>

text \<open>A dispatch call of a run: the configuration may be changed between dispatches.\<close>

datatype 'd dual_op =
    DDispatch string string goval
  | DPolicy int
  | DShadow bool
  | DNewPath "'d option"

fun exec_dual :: "('d, 'e, 'w) dispatch_run \<Rightarrow> 'd dual_op \<Rightarrow> 'd dual_track \<times> 'w \<Rightarrow> 'd dual_track \<times> 'w" where
  "exec_dual run (DDispatch aid tid p) s = snd (dual_dispatch run aid tid p s)"
| "exec_dual run (DPolicy q) s = (set_policy q (fst s), snd s)"
| "exec_dual run (DShadow b) s = (set_shadow b (fst s), snd s)"
| "exec_dual run (DNewPath n) s = (set_new_path n (fst s), snd s)"

definition active_path :: "'d dual_track \<Rightarrow> 'd option" where
  "active_path d = (if is_legacy d then dt_legacy d else dt_new d)"

definition idle_path :: "'d dual_track \<Rightarrow> 'd option" where
  "idle_path d = (if is_legacy d then dt_new d else dt_legacy d)"

text \<open>The shadow never decides. What a dispatch answers is the answer of the active path in the
  world as it found it, whether shadow mode is on or off and whatever the other path does; the active path runs exactly once and first,
  and the other path runs after it exactly when shadow mode is on and it is wired; a mismatch is counted exactly when
  one of the two failed and the other did not; an unwired active path is an error and runs nothing.\<close>

theorem shadow_never_decides:
  "dual_dispatch run aid tid p (d, w) =
     (case active_path d of
        None \<Rightarrow> (Some ErrDispatcherNotRegistered, d, w)
      | Some a \<Rightarrow>
          (map_option ErrDispatch (fst (run a aid tid p w)),
           (case idle_path d of
              Some q \<Rightarrow>
                if dt_shadow d
                then (if (fst (run a aid tid p w) = None) \<noteq> (fst (run q aid tid p (snd (run a aid tid p w))) = None)
                      then d\<lparr>dt_mismatches := dt_mismatches d + 1\<rparr> else d,
                      snd (run q aid tid p (snd (run a aid tid p w))))
                else (d, snd (run a aid tid p w))
            | None \<Rightarrow> (d, snd (run a aid tid p w)))))"
  by (simp add: dual_dispatch_def dispatch_on_def compare_shadow_def active_path_def idle_path_def split_beta
      split: option.split)

text \<open>With shadow mode left on after the flip to the new path, one dispatch executes the task twice.\<close>

lemma shadow_executes_twice:
  "snd (snd (dual_dispatch (\<lambda>d aid tid p w. (None, w @ [(d, tid)])) ''a'' ''t'' GNil
      (new_dual_track policy_task_fabric (Some ''old'') (Some ''new'') True, []))) = [(''new'', ''t''), (''old'', ''t'')]"
  by (simp add: dual_dispatch_def dispatch_on_def compare_shadow_def new_dual_track_def is_legacy_def
      policy_task_fabric_def policy_legacy_def)

end
