(* ===== verification/Node_Scheduler.thy ===== *)
theory Node_Scheduler
  imports Go_Prelude
begin

text \<open>
  Package \<open>internal/workflow/graph\<close>, \<open>scheduler.go\<close>: the five ready-node selectors. A selector is a
  value; selecting returns the node and the selector afterwards (only the cursor of the round robin and the counters
  of the weighted fair one change). No node is ready: the answer is the empty id.
\<close>

section \<open>Stateless selectors\<close>

definition fifo_select :: "string list \<Rightarrow> string" where
  "fifo_select ready = (case ready of [] \<Rightarrow> '''' | n # ns \<Rightarrow> n)"

text \<open>The loop that keeps the first of the best nodes; \<open>better\<close> compares a node's figure with the best one so far.\<close>

fun pick_best :: "(int \<Rightarrow> int \<Rightarrow> bool) \<Rightarrow> (string \<Rightarrow> int) \<Rightarrow> string \<Rightarrow> string list \<Rightarrow> string" where
  "pick_best better figure best [] = best"
| "pick_best better figure best (n # ns) =
     pick_best better figure (if better (figure n) (figure best) then n else best) ns"

definition get_priority :: "(string \<rightharpoonup> int) \<Rightarrow> string \<Rightarrow> int" where
  "get_priority priorities n = (case priorities n of None \<Rightarrow> 0 | Some p \<Rightarrow> p)"

definition priority_select :: "(string \<rightharpoonup> int) \<Rightarrow> string list \<Rightarrow> string" where
  "priority_select priorities ready =
     (case ready of [] \<Rightarrow> '''' | n # ns \<Rightarrow> pick_best (>) (get_priority priorities) n ns)"

definition get_estimate :: "(string \<rightharpoonup> int) \<Rightarrow> string \<Rightarrow> int" where
  "get_estimate estimates n = (case estimates n of None \<Rightarrow> 1000 | Some e \<Rightarrow> e)"

definition short_job_select :: "(string \<rightharpoonup> int) \<Rightarrow> string list \<Rightarrow> string" where
  "short_job_select estimates ready =
     (case ready of [] \<Rightarrow> '''' | n # ns \<Rightarrow> pick_best (<) (get_estimate estimates) n ns)"

section \<open>Round robin\<close>

definition round_robin_select :: "nat \<Rightarrow> string list \<Rightarrow> string \<times> nat" where
  "round_robin_select cursor ready =
     (if ready = [] then ('''', cursor)
      else let i = (if cursor \<ge> length ready then 0 else cursor) in (ready ! i, Suc i))"

section \<open>Weighted fair\<close>

text \<open>A weight that is missing or not positive counts as one; a counter that is missing reads as zero.\<close>

definition fair_weight :: "(string \<rightharpoonup> int) \<Rightarrow> string \<Rightarrow> int" where
  "fair_weight weights n = (case weights n of None \<Rightarrow> 1 | Some w \<Rightarrow> if w > 0 then w else 1)"

fun add_credit :: "(string \<rightharpoonup> int) \<Rightarrow> string list \<Rightarrow> (string \<Rightarrow> int) \<times> int \<Rightarrow> (string \<Rightarrow> int) \<times> int" where
  "add_credit weights [] (c, charge) = (c, charge)"
| "add_credit weights (n # ns) (c, charge) =
     add_credit weights ns (c(n := c n + fair_weight weights n), charge + fair_weight weights n)"

definition fair_select :: "(string \<rightharpoonup> int) \<Rightarrow> (string \<Rightarrow> int) \<Rightarrow> string list \<Rightarrow> string \<times> (string \<Rightarrow> int)" where
  "fair_select weights c ready =
     (case ready of
        [] \<Rightarrow> ('''', c)
      | n # ns \<Rightarrow>
          (case add_credit weights ready (c, 0) of
             (c1, charge) \<Rightarrow> (let best = pick_best (>) c1 n ns in (best, c1(best := c1 best - charge)))))"

section \<open>The selectors as one type\<close>

datatype node_scheduler =
    DefaultScheduler
  | PriorityScheduler "string \<rightharpoonup> int"
  | ShortJobScheduler "string \<rightharpoonup> int"
  | RoundRobinScheduler nat
  | WeightedFairScheduler "string \<rightharpoonup> int" "string \<Rightarrow> int"

definition new_round_robin :: node_scheduler where
  "new_round_robin = RoundRobinScheduler 0"

definition new_weighted_fair :: "(string \<rightharpoonup> int) \<Rightarrow> node_scheduler" where
  "new_weighted_fair weights = WeightedFairScheduler weights (\<lambda>n. 0)"

fun select_node :: "node_scheduler \<Rightarrow> string list \<Rightarrow> string \<times> node_scheduler" where
  "select_node DefaultScheduler ready = (fifo_select ready, DefaultScheduler)"
| "select_node (PriorityScheduler ps) ready = (priority_select ps ready, PriorityScheduler ps)"
| "select_node (ShortJobScheduler es) ready = (short_job_select es ready, ShortJobScheduler es)"
| "select_node (RoundRobinScheduler cursor) ready =
     (case round_robin_select cursor ready of (n, cursor1) \<Rightarrow> (n, RoundRobinScheduler cursor1))"
| "select_node (WeightedFairScheduler ws c) ready =
     (case fair_select ws c ready of (n, c1) \<Rightarrow> (n, WeightedFairScheduler ws c1))"

text \<open>A run: what is ready in each round, and who is served.\<close>

fun select_rounds :: "node_scheduler \<Rightarrow> string list list \<Rightarrow> string list \<times> node_scheduler" where
  "select_rounds s [] = ([], s)"
| "select_rounds s (ready # rounds) =
     (case select_node s ready of
        (n, s1) \<Rightarrow> (case select_rounds s1 rounds of (ns, s2) \<Rightarrow> (n # ns, s2)))"

end
