(* ===== verification/Node_Scheduler_Props.thy ===== *)
theory Node_Scheduler_Props
  imports Node_Scheduler
begin

text \<open>
  What the selectors promise: whom each one picks, and for the weighted fair one that its counters stay
  bounded whatever is ready when, that service follows the weights and that nobody starves.
\<close>

section \<open>The best of the ready nodes\<close>

lemma pick_best_set: "pick_best better figure best ns \<in> insert best (set ns)"
  by (induction ns arbitrary: best) (auto split: if_splits)

lemma pick_best_max: "n \<in> insert best (set ns) \<Longrightarrow> figure n \<le> figure (pick_best (>) figure best ns)"
proof (induction ns arbitrary: best n)
  case (Cons m ns)
  let ?b = "if figure m > figure best then m else best"
  have "figure best \<le> figure ?b" "figure m \<le> figure ?b" by auto
  then show ?case using Cons.IH [of ?b ?b] Cons.IH [of n ?b] Cons.prems by (auto intro: order_trans)
qed simp

lemma pick_best_min: "n \<in> insert best (set ns) \<Longrightarrow> figure (pick_best (<) figure best ns) \<le> figure n"
proof (induction ns arbitrary: best n)
  case (Cons m ns)
  let ?b = "if figure m < figure best then m else best"
  have "figure ?b \<le> figure best" "figure ?b \<le> figure m" by auto
  then show ?case using Cons.IH [of ?b ?b] Cons.IH [of n ?b] Cons.prems by (auto intro: order_trans)
qed simp

text \<open>Ties go to the first: what comes before the winner is strictly worse.\<close>

lemma pick_best_first:
  assumes "pick_best (>) figure best ns = w" "w \<noteq> best"
  shows "figure best < figure w"
  using assms
proof (induction ns arbitrary: best)
  case (Cons m ns)
  show ?case
  proof (cases "figure m > figure best")
    case True
    then show ?thesis using Cons.IH [of m] Cons.prems by (cases "w = m") auto
  next
    case False
    then show ?thesis using Cons.IH [of best] Cons.prems by auto
  qed
qed simp

lemma select_node_ready:
  assumes "ready \<noteq> []"
  shows "fst (select_node s ready) \<in> set ready"
proof -
  obtain n ns where r: "ready = n # ns" using assms by (cases ready) auto
  note pick = pick_best_set [of _ _ n ns, folded list.set(2), folded r]
  show ?thesis
  proof (cases s)
    case (RoundRobinScheduler cursor)
    then show ?thesis using assms by (auto simp: round_robin_select_def Let_def)
  next
    case (WeightedFairScheduler ws c)
    then show ?thesis using pick by (auto simp: fair_select_def r Let_def split: prod.split)
  qed (use pick in \<open>simp_all add: fifo_select_def priority_select_def short_job_select_def r\<close>)
qed

section \<open>One round of the weighted fair selector\<close>

definition ready_weight :: "(string \<rightharpoonup> int) \<Rightarrow> string set \<Rightarrow> int" where
  "ready_weight ws R = (\<Sum>n\<in>R. fair_weight ws n)"

lemma fair_weight_pos: "1 \<le> fair_weight ws n"
  by (auto simp: fair_weight_def split: option.split)

lemma ready_weight_nonneg: "0 \<le> ready_weight ws R"
  unfolding ready_weight_def using fair_weight_pos by (intro sum_nonneg) (metis zero_le_one order_trans)

lemma ready_weight_mono: "finite N \<Longrightarrow> R \<subseteq> N \<Longrightarrow> ready_weight ws R \<le> ready_weight ws N"
  unfolding ready_weight_def using fair_weight_pos by (intro sum_mono2) (metis zero_le_one order_trans)+

definition credited :: "(string \<rightharpoonup> int) \<Rightarrow> string set \<Rightarrow> (string \<Rightarrow> int) \<Rightarrow> string \<Rightarrow> int" where
  "credited ws R c n = c n + (if n \<in> R then fair_weight ws n else 0)"

lemma add_credit_eq:
  "distinct ns \<Longrightarrow> add_credit ws ns (c, t) = (credited ws (set ns) c, t + ready_weight ws (set ns))"
proof (induction ns arbitrary: c t)
  case Nil
  show ?case by (auto simp: credited_def ready_weight_def)
next
  case (Cons n ns)
  then show ?case by (auto simp: credited_def ready_weight_def fun_eq_iff)
qed

lemma fair_selectE:
  assumes "fair_select ws c ready = (b, c')" "distinct ready" "ready \<noteq> []"
  obtains "b \<in> set ready" "\<And>n. n \<in> set ready \<Longrightarrow> credited ws (set ready) c n \<le> credited ws (set ready) c b"
    "c' = (credited ws (set ready) c)(b := credited ws (set ready) c b - ready_weight ws (set ready))"
proof -
  obtain n ns where r: "ready = n # ns" using assms(3) by (cases ready) auto
  let ?c = "credited ws (set ready) c"
  have eq: "b = pick_best (>) ?c n ns" "c' = ?c(b := ?c b - ready_weight ws (set ready))"
    using assms(1) add_credit_eq [OF assms(2), of ws c 0]
    by (auto simp: fair_select_def r Let_def simp del: add_credit.simps split: prod.splits)
  show ?thesis
  proof (rule that)
    show "b \<in> set ready" using pick_best_set [of "(>)" ?c n ns] eq(1) r by simp
    show "?c m \<le> ?c b" if "m \<in> set ready" for m using pick_best_max [of m n ns ?c] that eq(1) r by simp
  qed (fact eq(2))
qed

lemma sum_credited:
  assumes "finite T"
  shows "sum (credited ws R c) T = sum c T + ready_weight ws (T \<inter> R)"
  using assms by (simp add: credited_def ready_weight_def sum.distrib sum.If_cases)


section \<open>The counters stay bounded\<close>

text \<open>
  That the counters sum up to zero does not bound them by itself. What does: the counters of any \<open>k\<close> of the \<open>n\<close>
  nodes sum up to at most \<open>W k (n - k) / 2\<close>, where \<open>W\<close> is the weight of all.
\<close>

definition fair_balanced :: "string set \<Rightarrow> int \<Rightarrow> (string \<Rightarrow> int) \<Rightarrow> bool" where
  "fair_balanced N W c \<longleftrightarrow>
     sum c N = 0 \<and> (\<forall>T\<subseteq>N. 2 * sum c T \<le> W * int (card T) * (int (card N) - int (card T)))"

lemma fair_balanced_zero: "0 \<le> W \<Longrightarrow> finite N \<Longrightarrow> fair_balanced N W (\<lambda>n. 0)"
  by (auto simp: fair_balanced_def intro!: mult_nonneg_nonneg card_mono)

lemma fair_balanced_counter:
  assumes "fair_balanced N W c" "finite N" "i \<in> N"
  shows "2 * \<bar>c i\<bar> \<le> W * (int (card N) - 1)"
proof -
  have "2 * sum c {i} \<le> W * int (card {i}) * (int (card N) - int (card {i}))"
    using assms(1,3) unfolding fair_balanced_def by blast
  moreover have "2 * sum c (N - {i}) \<le> W * int (card (N - {i})) * (int (card N) - int (card (N - {i})))"
    using assms(1) unfolding fair_balanced_def by blast
  moreover have "sum c (N - {i}) = - c i"
    using assms by (simp add: fair_balanced_def sum_diff1)
  moreover have "int (card (N - {i})) = int (card N) - 1"
    using assms(2,3) by (metis card_Diff_singleton card_gt_0_iff empty_iff int_ops(6) of_nat_1 Suc_leI One_nat_def not_less
        diff_is_0_eq of_nat_diff)
  ultimately show ?thesis by simp
qed

text \<open>The arithmetic of one round for nodes without the winner, \<open>m\<close> of which are ready.\<close>

lemma fair_round_arith:
  fixes A X d W k m n :: int
  assumes "2 * A \<le> W * (k - m) * (n - (k - m))" "2 * (A + X + d) \<le> W * (k + 1) * (n - (k + 1)) + 2 * W"
    and "X \<le> m * d" "1 \<le> m" "0 \<le> W"
  shows "2 * (A + X) \<le> W * k * (n - k)"
proof -
  have "(m + 1) * (2 * (A + X)) \<le> 2 * A + m * (2 * (A + X + d))"
    using assms(3) by (simp add: algebra_simps)
  also have "\<dots> \<le> W * (k - m) * (n - (k - m)) + m * (W * (k + 1) * (n - (k + 1)) + 2 * W)"
    using assms(1,2,4) by (intro add_mono mult_left_mono) auto
  also have "\<dots> = (m + 1) * (W * k * (n - k)) + W * (m * (1 - m))"
    by (simp add: algebra_simps)
  also have "\<dots> \<le> (m + 1) * (W * k * (n - k))"
    using assms(4,5) by (simp add: mult_nonneg_nonpos)
  finally show ?thesis using assms(4) by simp
qed

lemma fair_balanced_bound:
  assumes "fair_balanced N W c" "T \<subseteq> N"
  shows "2 * sum c T \<le> W * int (card T) * (int (card N) - int (card T))"
  using assms unfolding fair_balanced_def by blast

lemma ready_weight_inter: "finite R \<Longrightarrow> ready_weight ws (T \<inter> R) \<le> ready_weight ws R"
  by (intro ready_weight_mono) auto

lemma loser_sum_bound:
  assumes bal: "fair_balanced N (ready_weight ws N) c" and fin: "finite N" and sub: "R \<subseteq> N" "T \<subseteq> N"
    and b: "b \<in> R" "b \<notin> T" "\<And>n. n \<in> R \<Longrightarrow> credited ws R c n \<le> credited ws R c b"
  shows "2 * sum (credited ws R c) T \<le> ready_weight ws N * int (card T) * (int (card N) - int (card T))"
proof (cases "T \<inter> R = {}")
  case True
  have "finite T" using sub fin by (meson finite_subset)
  then show ?thesis using fair_balanced_bound [OF bal sub(2)] True by (simp add: sum_credited ready_weight_def)
next
  case False
  let ?d = "credited ws R c"
  have fT: "finite T" using sub fin by (meson finite_subset)
  define k m n where "k = int (card T)" and "m = int (card (T \<inter> R))" and "n = int (card N)"
  have m1: "1 \<le> m" using False fT by (simp add: m_def card_gt_0_iff Suc_le_eq)
  have out: "sum ?d (T - R) = sum c (T - R)" by (intro sum.cong) (auto simp: credited_def)
  have cd: "int (card (T - R)) = k - m"
    using fT card_Int_Diff [of T R] by (simp add: k_def m_def)
  have A: "2 * sum c (T - R) \<le> ready_weight ws N * (k - m) * (n - (k - m))"
    using fair_balanced_bound [OF bal, of "T - R"] sub(2) cd by (auto simp: n_def)
  have split: "sum ?d T = sum c (T - R) + sum ?d (T \<inter> R)"
    using sum.Int_Diff [OF fT, of ?d R] out by simp
  have X: "sum ?d (T \<inter> R) \<le> m * ?d b"
    using sum_bounded_above [of "T \<inter> R" ?d "?d b"] b(3) by (auto simp: m_def)
  have "int (card (insert b T)) = k + 1" using fT b(2) by (simp add: k_def)
  then have "2 * sum c (insert b T) \<le> ready_weight ws N * (k + 1) * (n - (k + 1))"
    using fair_balanced_bound [OF bal, of "insert b T"] sub b(1) by (auto simp: n_def)
  moreover have "sum ?d (insert b T) \<le> sum c (insert b T) + ready_weight ws N"
    using sum_credited [of "insert b T" ws R c] fT ready_weight_mono [OF fin, of "insert b T \<inter> R"] sub by auto
  moreover have "sum ?d (insert b T) = sum c (T - R) + sum ?d (T \<inter> R) + ?d b"
    using fT b(2) split by simp
  ultimately have "2 * (sum c (T - R) + sum ?d (T \<inter> R) + ?d b) - 2 * ready_weight ws N
      \<le> ready_weight ws N * (k + 1) * (n - (k + 1))" by (smt (verit))
  then have "2 * (sum c (T - R) + sum ?d (T \<inter> R) + ?d b)
      \<le> ready_weight ws N * (k + 1) * (n - (k + 1)) + 2 * ready_weight ws N" by simp
  from fair_round_arith [OF A this X m1 ready_weight_nonneg]
  show ?thesis by (simp add: split k_def n_def)
qed

lemma fair_balanced_step:
  assumes bal: "fair_balanced N (ready_weight ws N) c" and fin: "finite N" and sub: "set ready \<subseteq> N"
    and sel: "fair_select ws c ready = (b, c')" and ready: "distinct ready" "ready \<noteq> []"
  shows "fair_balanced N (ready_weight ws N) c'"
proof -
  let ?R = "set ready" and ?d = "credited ws (set ready) c" and ?w = "ready_weight ws (set ready)"
  obtain b: "b \<in> ?R" "\<And>n. n \<in> ?R \<Longrightarrow> ?d n \<le> ?d b" and c': "c' = ?d(b := ?d b - ?w)"
    using fair_selectE [OF sel ready] by blast
  have "c' = (\<lambda>n. ?d n - (if n = b then ?w else 0))" unfolding c' by auto
  then have upd: "sum c' T = sum ?d T - (if b \<in> T then ?w else 0)" if "finite T" for T
    using that by (simp add: sum_subtractf)
  have fin_sub: "finite T" if "T \<subseteq> N" for T using that fin by (rule finite_subset)
  have "N \<inter> ?R = ?R" using sub by auto
  then have "sum c' N = 0"
    using b(1) sub bal by (auto simp: upd [OF fin] sum_credited [OF fin] fair_balanced_def)
  moreover have "2 * sum c' T \<le> ready_weight ws N * int (card T) * (int (card N) - int (card T))" if T: "T \<subseteq> N" for T
  proof (cases "b \<in> T")
    case True
    have "sum c' T = sum c T + ready_weight ws (T \<inter> ?R) - ?w"
      using True by (simp add: upd [OF fin_sub [OF T]] sum_credited [OF fin_sub [OF T]])
    then have "sum c' T \<le> sum c T" using ready_weight_inter [of ?R ws T] by simp
    then show ?thesis using fair_balanced_bound [OF bal T] by linarith
  next
    case False
    then show ?thesis
      using loser_sum_bound [OF bal fin sub T b(1) False b(2)] by (simp add: upd [OF fin_sub [OF T]])
  qed
  ultimately show ?thesis by (simp add: fair_balanced_def)
qed

section \<open>Runs\<close>

text \<open>What a node is due for a run, its weight whenever it is ready, and what it is charged, the weight of all that is ready whenever it is served.\<close>

fun earned :: "(string \<rightharpoonup> int) \<Rightarrow> string list list \<Rightarrow> string \<Rightarrow> int" where
  "earned ws [] i = 0"
| "earned ws (ready # rounds) i = (if i \<in> set ready then fair_weight ws i else 0) + earned ws rounds i"

fun charged :: "(string \<rightharpoonup> int) \<Rightarrow> string list list \<Rightarrow> string list \<Rightarrow> string \<Rightarrow> int" where
  "charged ws (ready # rounds) (n # ns) i =
     (if n = i then ready_weight ws (set ready) else 0) + charged ws rounds ns i"
| "charged ws rounds ns i = 0"

definition proper_rounds :: "string set \<Rightarrow> string list list \<Rightarrow> bool" where
  "proper_rounds N rounds \<longleftrightarrow> (\<forall>ready\<in>set rounds. ready \<noteq> [] \<and> distinct ready \<and> set ready \<subseteq> N)"

lemma proper_rounds_simps [simp]:
  "proper_rounds N []"
  "proper_rounds N (r # rs) \<longleftrightarrow> r \<noteq> [] \<and> distinct r \<and> set r \<subseteq> N \<and> proper_rounds N rs"
  "proper_rounds N (rs @ rs') \<longleftrightarrow> proper_rounds N rs \<and> proper_rounds N rs'"
  by (auto simp: proper_rounds_def)

lemma select_rounds_append:
  "select_rounds s (rs @ rs') =
     (case select_rounds s rs of (ns, s1) \<Rightarrow> (case select_rounds s1 rs' of (ns', s2) \<Rightarrow> (ns @ ns', s2)))"
  by (induction rs arbitrary: s) (auto split: prod.split)

lemma length_select_rounds: "length (fst (select_rounds s rs)) = length rs"
proof (induction rs arbitrary: s)
  case (Cons r rs)
  obtain n s1 where n: "select_node s r = (n, s1)" by fastforce
  obtain ns s2 where ns: "select_rounds s1 rs = (ns, s2)" by fastforce
  show ?case using Cons.IH [of s1] n ns by simp
qed simp

lemma not_charged: "i \<notin> set ns \<Longrightarrow> charged ws rounds ns i = 0"
  by (induction ws rounds ns i rule: charged.induct) auto

lemma fair_step_ledger:
  assumes "fair_select ws c ready = (b, c')" "distinct ready" "ready \<noteq> []"
  shows "c' i = c i + (if i \<in> set ready then fair_weight ws i else 0) - (if b = i then ready_weight ws (set ready) else 0)"
proof -
  have "c' = (credited ws (set ready) c)(b := credited ws (set ready) c b - ready_weight ws (set ready))"
    using fair_selectE [OF assms] by blast
  then show ?thesis by (simp add: credited_def)
qed

lemma fair_rounds:
  assumes "finite N" "proper_rounds N rounds" "fair_balanced N (ready_weight ws N) c"
    and "select_rounds (WeightedFairScheduler ws c) rounds = (ns, s)"
  shows "\<exists>c'. s = WeightedFairScheduler ws c' \<and> fair_balanced N (ready_weight ws N) c'
    \<and> (\<forall>i. c' i = c i + earned ws rounds i - charged ws rounds ns i)"
  using assms(2-4)
proof (induction rounds arbitrary: c ns)
  case (Cons ready rounds)
  obtain b c1 where b: "fair_select ws c ready = (b, c1)" by fastforce
  obtain ms s2 where ms: "select_rounds (WeightedFairScheduler ws c1) rounds = (ms, s2)" by fastforce
  have eq: "ns = b # ms" "s = s2" using Cons.prems(3) b ms by auto
  have ready: "ready \<noteq> []" "distinct ready" "set ready \<subseteq> N" "proper_rounds N rounds" using Cons.prems(1) by auto
  have bal: "fair_balanced N (ready_weight ws N) c1"
    by (rule fair_balanced_step [OF Cons.prems(2) assms(1) ready(3) b ready(2,1)])
  obtain c' where c': "s = WeightedFairScheduler ws c'" "fair_balanced N (ready_weight ws N) c'"
      "\<And>i. c' i = c1 i + earned ws rounds i - charged ws rounds ms i"
    using Cons.IH [OF ready(4) bal ms [folded eq(2)]] by blast
  have "c' i = c i + earned ws (ready # rounds) i - charged ws (ready # rounds) ns i" for i
    using c'(3) [of i] fair_step_ledger [OF b ready(2,1), of i] eq(1) by simp
  then show ?case using c'(1,2) by blast
qed auto

lemma fresh_rounds:
  assumes "finite N" "proper_rounds N rounds" "select_rounds (new_weighted_fair ws) rounds = (ns, s)"
  obtains c where "s = WeightedFairScheduler ws c" "fair_balanced N (ready_weight ws N) c"
    "\<And>i. c i = earned ws rounds i - charged ws rounds ns i"
  using fair_rounds [OF assms(1,2) fair_balanced_zero [OF ready_weight_nonneg assms(1)], of ws ns s]
    assms(3) by (auto simp: new_weighted_fair_def)

text \<open>C29: The weighted fair selector serves by weight, whatever is ready when. In every run from a fresh
  selector the credit counter of a node is what it was due (its weight in every round it was ready)
  minus what it was charged (the weights of all ready nodes in every round it was served), and the two never
  differ by more than \<open>(n - 1) W / 2\<close>, for \<open>n\<close> nodes of total weight \<open>W\<close>: no counter grows with the length of
  the run. With the same nodes ready in all of the \<open>k\<close> rounds, a node is served \<open>k w / W\<close> times up to \<open>(n - 1) / 2\<close>.\<close>

theorem fair_service_bounded:
  assumes "finite N" "proper_rounds N rounds" "i \<in> N"
    and "select_rounds (new_weighted_fair ws) rounds = (ns, WeightedFairScheduler ws' c)"
  shows "c i = earned ws rounds i - charged ws rounds ns i
    \<and> 2 * \<bar>earned ws rounds i - charged ws rounds ns i\<bar> \<le> ready_weight ws N * (int (card N) - 1)
    \<and> (\<forall>k ready. rounds = replicate k ready \<and> set ready = N \<longrightarrow>
         2 * \<bar>int k * fair_weight ws i - ready_weight ws N * int (count_list ns i)\<bar>
           \<le> ready_weight ws N * (int (card N) - 1))"
proof -
  have c: "c i = earned ws rounds i - charged ws rounds ns i" "fair_balanced N (ready_weight ws N) c"
    using fresh_rounds [OF assms(1,2,4)] by blast+
  have same: "earned ws (replicate k ready) i = int k * fair_weight ws i" if "set ready = N" for k ready
    using that assms(3) by (induction k) (auto simp: algebra_simps)
  have serve: "charged ws (replicate k ready) ms i = ready_weight ws N * int (count_list ms i)"
    if "set ready = N" "length ms = k" for k ready ms
    using that
  proof (induction k arbitrary: ms)
    case (Suc k)
    then show ?case by (cases ms) (auto simp: algebra_simps)
  qed simp
  have "length ns = length rounds" using length_select_rounds [of "new_weighted_fair ws" rounds] assms(4) by simp
  then show ?thesis
    using c fair_balanced_counter [OF c(2) assms(1,3)] by (auto simp: same serve)
qed

text \<open>Nobody starves. At any time of a run, a node that stays ready is served before \<open>k\<close> rounds
  have passed as soon as \<open>k\<close> times its weight exceeds \<open>(n - 1) W\<close>.\<close>

theorem fair_no_starvation:
  assumes "finite N" "proper_rounds N (past @ rounds)" "\<forall>ready\<in>set rounds. i \<in> set ready"
    and "ready_weight ws N * (int (card N) - 1) < int (length rounds) * fair_weight ws i"
    and "select_rounds (new_weighted_fair ws) past = (ns, s)"
  shows "i \<in> set (fst (select_rounds s rounds))"
proof (rule ccontr)
  assume no: "i \<notin> set (fst (select_rounds s rounds))"
  obtain ms s2 where ms: "select_rounds s rounds = (ms, s2)" by fastforce
  have proper: "proper_rounds N past" "proper_rounds N rounds" using assms(2) by simp_all
  obtain c where c: "s = WeightedFairScheduler ws c" "fair_balanced N (ready_weight ws N) c"
    using fresh_rounds [OF assms(1) proper(1) assms(5)] by blast
  obtain c' where c': "fair_balanced N (ready_weight ws N) c'"
      "c' i = c i + earned ws rounds i - charged ws rounds ms i"
    using fair_rounds [OF assms(1) proper(2) c(2) ms [unfolded c(1)]] by blast
  have "charged ws rounds ms i = 0" using no ms by (simp add: not_charged)
  moreover have "earned ws rounds i = int (length rounds) * fair_weight ws i"
    using assms(3) by (induction rounds) (auto simp: algebra_simps)
  moreover have "0 \<le> ready_weight ws N * (int (card N) - 1)"
  proof (cases "N = {}")
    case False
    then have "1 \<le> card N" using assms(1) by (simp add: Suc_le_eq card_gt_0_iff)
    then show ?thesis using ready_weight_nonneg [of ws N] by simp
  qed (simp add: ready_weight_def)
  then have "rounds \<noteq> []" using assms(4) by auto
  then have "i \<in> N" using assms(3) proper(2) by (cases rounds) (auto simp: proper_rounds_def)
  ultimately show False
    using fair_balanced_counter [OF c(2) assms(1)] fair_balanced_counter [OF c'(1) assms(1)] c'(2) assms(4)
    by (smt (verit))
qed

section \<open>Witnesses\<close>

definition sample_weights :: "string \<rightharpoonup> int" where
  "sample_weights = [''a'' \<mapsto> 3]"

definition sample_rounds :: "string list list" where
  "sample_rounds = replicate 8 [''a'', ''b'']"

lemma sample_proper: "proper_rounds {''a'', ''b''} (sample_rounds @ replicate 5 [''a'', ''b''])"
  by (simp add: proper_rounds_def sample_rounds_def)

theorem fair_service_bounded_witness:
  "2 * \<bar>8 * 3 - 4 * int (count_list (fst (select_rounds (new_weighted_fair sample_weights) sample_rounds)) ''a'')\<bar>
     \<le> (4 :: int)"
proof -
  obtain ns s where run: "select_rounds (new_weighted_fair sample_weights) sample_rounds = (ns, s)" by fastforce
  have proper: "proper_rounds {''a'', ''b''} sample_rounds" using sample_proper by simp
  obtain c where "s = WeightedFairScheduler sample_weights c"
    using fresh_rounds [OF _ proper run] by auto
  then have "2 * \<bar>int 8 * fair_weight sample_weights ''a''
      - ready_weight sample_weights {''a'', ''b''} * int (count_list ns ''a'')\<bar>
      \<le> ready_weight sample_weights {''a'', ''b''} * (int (card {''a'', ''b''}) - 1)"
    using fair_service_bounded [OF _ proper _ run [unfolded \<open>s = _\<close>], of "''a''"] by (auto simp: sample_rounds_def)
  then show ?thesis
    using run by (simp add: ready_weight_def fair_weight_def sample_weights_def)
qed

theorem fair_no_starvation_witness:
  "''b'' \<in> set (fst (select_rounds (snd (select_rounds (new_weighted_fair sample_weights) sample_rounds))
     (replicate 5 [''a'', ''b''])))"
  using fair_no_starvation [of "{''a'', ''b''}" sample_rounds "replicate 5 [''a'', ''b'']" "''b''" sample_weights,
      OF _ sample_proper]
  by (simp add: ready_weight_def fair_weight_def sample_weights_def del: select_rounds.simps replicate.simps)
    (metis prod.collapse)

section \<open>The other selectors\<close>

text \<open>The priority selector starves: a node that is never the best ready one is never served.\<close>

theorem priority_starves:
  assumes "\<forall>ready\<in>set rounds. ready \<noteq> [] \<and> (\<exists>m\<in>set ready. get_priority ps n < get_priority ps m)"
  shows "n \<notin> set (fst (select_rounds (PriorityScheduler ps) rounds))"
  using assms
proof (induction rounds)
  case (Cons ready rounds)
  obtain r rs where r: "ready = r # rs" using Cons.prems by (cases ready) auto
  have "\<exists>m\<in>set ready. get_priority ps n < get_priority ps m" using Cons.prems by simp
  then have "priority_select ps ready \<noteq> n"
    using pick_best_max [of _ r rs "get_priority ps"] by (fastforce simp: priority_select_def r)
  then show ?case using Cons by (simp split: prod.split) (metis fst_conv)
qed simp

text \<open>The round robin serves everybody once per turn as long as the ready nodes stay the same,\<close>

lemma round_robin_select_mod:
  "ready \<noteq> [] \<Longrightarrow> cursor \<le> length ready \<Longrightarrow>
    round_robin_select cursor ready = (ready ! (cursor mod length ready), Suc (cursor mod length ready))"
  by (cases "cursor = length ready") (auto simp: round_robin_select_def Let_def)

lemma round_robin_turn:
  assumes "ready \<noteq> []" "cursor \<le> length ready"
  shows "fst (select_rounds (RoundRobinScheduler cursor) (replicate k ready)) =
    map (\<lambda>i. ready ! ((cursor + i) mod length ready)) [0..<k]"
  using assms(2)
proof (induction k arbitrary: cursor)
  case (Suc k)
  let ?next = "Suc (cursor mod length ready)"
  have "?next \<le> length ready" using assms(1) by (simp add: Suc_leI)
  then have "fst (select_rounds (RoundRobinScheduler ?next) (replicate k ready)) =
      map (\<lambda>i. ready ! ((?next + i) mod length ready)) [0..<k]" by (rule Suc.IH)
  moreover have "(?next + i) mod length ready = (cursor + Suc i) mod length ready" for i
    by (simp add: mod_simps flip: add_Suc_right)
  ultimately show ?case
    using round_robin_select_mod [OF assms(1) Suc.prems]
    by (simp add: map_upt_Suc case_prod_beta del: upt_Suc)
qed simp

text \<open>but starves a node when they change: two nodes whose order alternates.\<close>

lemma round_robin_starves:
  "select_rounds (RoundRobinScheduler 0) (concat (replicate k [[a, x], [x, a]])) =
     (replicate (2 * k) a, RoundRobinScheduler (if k = 0 then 0 else 2))"
proof -
  have *: "select_rounds (RoundRobinScheduler c) (concat (replicate k [[a, x], [x, a]])) =
     (replicate (2 * k) a, RoundRobinScheduler (if k = 0 then c else 2))" if "c = 0 \<or> c = 2" for c
    using that
  proof (induction k arbitrary: c)
    case (Suc k)
    have "select_rounds (RoundRobinScheduler c) [[a, x], [x, a]] = ([a, a], RoundRobinScheduler 2)"
      using Suc.prems by (elim disjE) (simp_all add: round_robin_select_def)
    then show ?case
      using Suc.IH [of 2] select_rounds_append [of _ "[[a, x], [x, a]]" "concat (replicate k [[a, x], [x, a]])"]
      by (simp del: select_rounds.simps)
  qed simp
  show ?thesis by (rule *) simp
qed

section \<open>Equal weights\<close>

lemma pick_best_append: "pick_best better f b (xs @ ys) = pick_best better f (pick_best better f b xs) ys"
  by (induction xs arbitrary: b) auto

lemma pick_best_keep: "\<forall>y\<in>set ys. f y \<le> f b \<Longrightarrow> pick_best (>) f b ys = b"
  by (induction ys) (auto simp: not_less)

lemma pick_best_nth:
  assumes "j < length ready" "\<And>i. i < j \<Longrightarrow> f (ready ! i) < f (ready ! j)"
    and "\<And>m. m \<in> set ready \<Longrightarrow> f m \<le> f (ready ! j)"
  shows "pick_best (>) f (hd ready) (tl ready) = ready ! j"
proof (cases j)
  case 0
  then show ?thesis using assms by (cases ready) (auto intro: pick_best_keep)
next
  case (Suc k)
  obtain r rs where r: "ready = r # rs" using assms(1) by (cases ready) auto
  have k: "k < length rs" using assms(1) Suc r by simp
  let ?p = "pick_best (>) f r (take k rs)"
  have "?p \<in> insert r (set (take k rs))" by (rule pick_best_set)
  then have "?p \<in> set (take j ready)" using r Suc by simp
  then obtain i where "i < j" "?p = ready ! i" by (auto simp: in_set_conv_nth)
  then have "f ?p < f (rs ! k)" using assms(2) r Suc by simp
  moreover have "rs = take k rs @ rs ! k # drop (Suc k) rs" using k by (rule id_take_nth_drop)
  then have "pick_best (>) f r rs = pick_best (>) f ?p (rs ! k # drop (Suc k) rs)"
    by (metis pick_best_append)
  moreover have "pick_best (>) f (rs ! k) (drop (Suc k) rs) = rs ! k"
    using assms(3) r Suc by (intro pick_best_keep) (auto dest: in_set_dropD)
  ultimately show ?thesis using r Suc by simp
qed

definition turn_of :: "string list \<Rightarrow> int \<Rightarrow> nat \<Rightarrow> (string \<Rightarrow> int) \<Rightarrow> bool" where
  "turn_of ready w j c \<longleftrightarrow> j < length ready
     \<and> (\<forall>i<length ready. c (ready ! i) = w * int j - (if i < j then w * int (length ready) else 0))"

lemma equal_weights_step:
  assumes turn: "turn_of ready w j c" and "distinct ready" and w: "\<forall>m\<in>set ready. fair_weight ws m = w"
  shows "\<exists>c'. fair_select ws c ready = (ready ! j, c') \<and> turn_of ready w (Suc j mod length ready) c'"
proof -
  let ?n = "length ready" and ?d = "credited ws (set ready) c"
  have j: "j < ?n" using turn by (simp add: turn_of_def)
  then have "ready \<noteq> []" by auto
  then have "1 \<le> w" using w fair_weight_pos [of ws] by (metis last_in_set)
  have d: "?d (ready ! i) = w * int (Suc j) - (if i < j then w * int ?n else 0)" if "i < ?n" for i
    using turn w that by (auto simp: turn_of_def credited_def algebra_simps)
  have wn: "0 < w * int ?n" using \<open>1 \<le> w\<close> j by (intro mult_pos_pos) auto
  obtain r rs where r: "ready = r # rs" using \<open>ready \<noteq> []\<close> by (cases ready) auto
  have "pick_best (>) ?d (hd ready) (tl ready) = ready ! j"
    using wn d j by (intro pick_best_nth) (auto simp: in_set_conv_nth)
  then have pick: "pick_best (>) ?d r rs = ready ! j" by (simp add: r)
  have weight: "ready_weight ws (set ready) = w * int ?n"
    using w \<open>distinct ready\<close> by (simp add: ready_weight_def distinct_card)
  let ?c = "?d(ready ! j := ?d (ready ! j) - w * int ?n)"
  have sel: "fair_select ws c ready = (ready ! j, ?c)"
    using add_credit_eq [OF \<open>distinct ready\<close>, of ws c 0] pick weight
    by (simp add: fair_select_def r Let_def del: add_credit.simps)
  have c: "?c (ready ! i) = w * int (Suc j) - (if i < Suc j then w * int ?n else 0)" if "i < ?n" for i
    using d [OF that] d [OF j] that j \<open>distinct ready\<close> by (auto simp: nth_eq_iff_index_eq)
  have "turn_of ready w (Suc j mod ?n) ?c"
  proof (cases "Suc j = ?n")
    case True
    then show ?thesis using c j unfolding turn_of_def by auto
  next
    case False
    then show ?thesis using c j unfolding turn_of_def by simp
  qed
  with sel show ?thesis by blast
qed

text \<open>Equal weights are the round robin: with the same nodes ready in every round, the weighted fair
  selector with equal weights and the round robin serve the same node in every round.\<close>

theorem equal_weights_round_robin:
  assumes "distinct ready" "ready \<noteq> []" "\<forall>m\<in>set ready. fair_weight ws m = w"
  shows "fst (select_rounds (new_weighted_fair ws) (replicate k ready))
    = fst (select_rounds new_round_robin (replicate k ready))"
proof -
  have "fst (select_rounds (WeightedFairScheduler ws c) (replicate k ready)) =
      map (\<lambda>i. ready ! ((j + i) mod length ready)) [0..<k]" if "turn_of ready w j c" for j c
    using that
  proof (induction k arbitrary: j c)
    case (Suc k)
    obtain c' where c': "fair_select ws c ready = (ready ! j, c')" "turn_of ready w (Suc j mod length ready) c'"
      using equal_weights_step [OF Suc.prems assms(1,3)] by blast
    have "j < length ready" using Suc.prems by (simp add: turn_of_def)
    moreover have "(Suc j mod length ready + i) mod length ready = (j + Suc i) mod length ready" for i
      by (simp add: mod_simps)
    ultimately show ?case
      using c'(1) Suc.IH [OF c'(2)] by (simp add: map_upt_Suc case_prod_beta del: upt_Suc)
  qed simp
  moreover have "turn_of ready w 0 (\<lambda>n. 0)" using assms(2) by (simp add: turn_of_def)
  ultimately show ?thesis
    using round_robin_turn [OF assms(2), of 0 k] by (simp add: new_weighted_fair_def new_round_robin_def)
qed

end
