(* ===== verification/Runtime_Patch.thy ===== *)
theory Runtime_Patch
  imports Go_Prelude
begin

text \<open>
  Package \<open>internal/evolution/patch\<close>: runtime patches and the registry that hands them to the
  executors of the subsystems. An executor is a value of the parameter \<open>'x\<close>; what it does to the
  subsystems, a world \<open>'w\<close>, is an argument. The value of a patch is a parameter as well.
\<close>

section \<open>Patches\<close>

datatype patch_type =
    PatchInsertNode
  | PatchRemoveNode
  | PatchReplaceNode
  | PatchAddEdge
  | PatchRemoveEdge
  | PatchChangeScheduler
  | PatchChangePlanner
  | PatchChangeReducer
  | PatchChangeBudget
  | PatchChangeRecoveryStrategy
  | PatchChangeMaxRetries
  | PatchChangeBackoff
  | PatchChangeInstruction
  | PatchUnknown int

fun patch_type_name :: "patch_type \<Rightarrow> string" where
  "patch_type_name PatchInsertNode = ''insert_node''"
| "patch_type_name PatchRemoveNode = ''remove_node''"
| "patch_type_name PatchReplaceNode = ''replace_node''"
| "patch_type_name PatchAddEdge = ''add_edge''"
| "patch_type_name PatchRemoveEdge = ''remove_edge''"
| "patch_type_name PatchChangeScheduler = ''change_scheduler''"
| "patch_type_name PatchChangePlanner = ''change_planner''"
| "patch_type_name PatchChangeReducer = ''change_reducer''"
| "patch_type_name PatchChangeBudget = ''change_budget''"
| "patch_type_name PatchChangeRecoveryStrategy = ''change_recovery_strategy''"
| "patch_type_name PatchChangeMaxRetries = ''change_max_retries''"
| "patch_type_name PatchChangeBackoff = ''change_backoff''"
| "patch_type_name PatchChangeInstruction = ''change_instruction''"
| "patch_type_name (PatchUnknown i) =
     ''unknown('' @ (if i < 0 then CHR ''-'' # go_itoa (nat (- i)) else go_itoa (nat i)) @ '')''"

text \<open>A \<open>RuntimePatch\<close>: its id, type, target, value, reason, source and the rollback its proposer gave.\<close>

datatype 'v runtime_patch =
  RuntimePatch (pt_id: string) (pt_type: patch_type) (pt_target: string) (pt_value: 'v)
    (pt_reason: string) (pt_source: string) (pt_rollback: "'v runtime_patch option")

text \<open>A patch as the executors build it for the undoing: type, target, value and reason.\<close>

definition undo_patch :: "patch_type \<Rightarrow> string \<Rightarrow> 'v \<Rightarrow> string \<Rightarrow> 'v runtime_patch" where
  "undo_patch ty target v reason = RuntimePatch '''' ty target v reason '''' None"

section \<open>The registry\<close>

datatype 'e patch_error =
    ErrTargetEmpty
  | ErrExecutorNil
  | ErrExecutorRegistered
  | ErrNoExecutor
  | ErrPatchFailed 'e
  | ErrPatchRollbackFailed 'e 'e
  | ErrPatchRefused 'e

record 'x patch_registry =
  pr_executors :: "string \<rightharpoonup> 'x"
  pr_fallback :: "'x option"
  pr_applied :: "string set"

definition new_registry :: "'x patch_registry" where
  "new_registry = \<lparr>pr_executors = Map.empty, pr_fallback = None, pr_applied = {}\<rparr>"

definition set_fallback :: "'x option \<Rightarrow> 'x patch_registry \<Rightarrow> 'x patch_registry" where
  "set_fallback x r = r\<lparr>pr_fallback := x\<rparr>"

definition registry_can_apply :: "string \<Rightarrow> 'x patch_registry \<Rightarrow> bool" where
  "registry_can_apply target r \<longleftrightarrow> pr_executors r target \<noteq> None \<or> pr_fallback r \<noteq> None"

definition register_patch_executor ::
  "string \<Rightarrow> 'x option \<Rightarrow> 'x patch_registry \<Rightarrow> ('e patch_error, unit, 'x patch_registry) outcome" where
  "register_patch_executor target ex r =
     (if target = '''' then (Inl ErrTargetEmpty, r)
      else (case ex of
              None \<Rightarrow> (Inl ErrExecutorNil, r)
            | Some x \<Rightarrow>
                if pr_executors r target \<noteq> None then (Inl ErrExecutorRegistered, r)
                else (Inr (), r\<lparr>pr_executors := (pr_executors r)(target \<mapsto> x)\<rparr>)))"

definition replace_executor ::
  "string \<Rightarrow> 'x option \<Rightarrow> 'x patch_registry \<Rightarrow> ('e patch_error, unit, 'x patch_registry) outcome" where
  "replace_executor target ex r =
     (if target = '''' then (Inl ErrTargetEmpty, r)
      else (case ex of
              None \<Rightarrow> (Inl ErrExecutorNil, r)
            | Some x \<Rightarrow> (Inr (), r\<lparr>pr_executors := (pr_executors r)(target \<mapsto> x)\<rparr>)))"

definition register_component ::
  "('x \<Rightarrow> string) \<Rightarrow> 'x option \<Rightarrow> 'x patch_registry \<Rightarrow> ('e patch_error, unit, 'x patch_registry) outcome" where
  "register_component name ex r =
     (case ex of None \<Rightarrow> (Inl ErrExecutorNil, r) | Some c \<Rightarrow> register_patch_executor (name c) (Some c) r)"

definition replace_component ::
  "('x \<Rightarrow> string) \<Rightarrow> 'x option \<Rightarrow> 'x patch_registry \<Rightarrow> ('e patch_error, unit, 'x patch_registry) outcome" where
  "replace_component name ex r =
     (case ex of None \<Rightarrow> (Inl ErrExecutorNil, r) | Some c \<Rightarrow> replace_executor (name c) (Some c) r)"

section \<open>Applying patches\<close>

text \<open>
  An executor's \<open>Apply\<close> answers a rollback patch (or none) beside an error (or none) and the world; its
  \<open>CanApply\<close> an error or none.
\<close>

type_synonym ('x, 'v, 'e, 'w) patch_run =
  "'x \<Rightarrow> 'v runtime_patch \<Rightarrow> 'w \<Rightarrow> 'v runtime_patch option \<times> 'e option \<times> 'w"

type_synonym ('x, 'v, 'e, 'w) patch_check = "'x \<Rightarrow> 'v runtime_patch \<Rightarrow> 'w \<Rightarrow> 'e option"

definition already_applied :: "'v runtime_patch \<Rightarrow> 'x patch_registry \<Rightarrow> bool" where
  "already_applied p r \<longleftrightarrow> pt_id p \<noteq> '''' \<and> pt_id p \<in> pr_applied r"

definition mark_applied :: "'v runtime_patch \<Rightarrow> 'x patch_registry \<Rightarrow> 'x patch_registry" where
  "mark_applied p r = (if pt_id p \<noteq> '''' then r\<lparr>pr_applied := insert (pt_id p) (pr_applied r)\<rparr> else r)"

text \<open>After a failed \<open>Apply\<close>: the rollback the executor handed out goes to \<open>undo\<close>, when there is one.\<close>

definition undo_failed ::
  "('x, 'v, 'e, 'w) patch_run \<Rightarrow> 'x option \<Rightarrow> 'e \<Rightarrow> 'v runtime_patch \<Rightarrow> 'w \<Rightarrow> 'e patch_error \<times> 'w" where
  "undo_failed run undo err rollback w =
     (case undo of
        None \<Rightarrow> (ErrPatchFailed err, w)
      | Some x \<Rightarrow>
          (case run x rollback w of
             (_, Some err2, w2) \<Rightarrow> (ErrPatchRollbackFailed err err2, w2)
           | (_, None, w2) \<Rightarrow> (ErrPatchFailed err, w2)))"

definition registry_apply ::
  "('x, 'v, 'e, 'w) patch_run \<Rightarrow> 'v runtime_patch \<Rightarrow> 'x patch_registry \<times> 'w
    \<Rightarrow> ('e patch_error, unit, 'x patch_registry \<times> 'w) outcome" where
  "registry_apply run p s =
     (case s of
        (r, w) \<Rightarrow>
          if already_applied p r then (Inr (), r, w)
          else (case pr_executors r (pt_target p) of
            None \<Rightarrow>
              (case pr_fallback r of
                 None \<Rightarrow> (Inl ErrNoExecutor, r, w)
               | Some fb \<Rightarrow>
                   (case run fb p w of
                      (_, None, w1) \<Rightarrow> (Inr (), mark_applied p r, w1)
                    | (None, Some err, w1) \<Rightarrow> (Inl (ErrPatchFailed err), r, w1)
                    | (Some rollback, Some err, w1) \<Rightarrow>
                        (case undo_failed run (Some fb) err rollback w1 of (e, w2) \<Rightarrow> (Inl e, r, w2))))
          | Some x \<Rightarrow>
              (case run x p w of
                 (_, None, w1) \<Rightarrow> (Inr (), mark_applied p r, w1)
               | (None, Some err, w1) \<Rightarrow> (Inl (ErrPatchFailed err), r, w1)
               | (Some rollback, Some err, w1) \<Rightarrow>
                   (case undo_failed run (pr_executors r (pt_target rollback)) err rollback w1 of
                      (e, w2) \<Rightarrow> (Inl e, r, w2)))))"

text \<open>
  \<open>ApplySet\<close>. What was applied is kept newest first; the rollback loop visits it in that order and looks
  executors up by the target of the rollback patch, errors ignored.
\<close>

fun roll_back_patches ::
  "('x, 'v, 'e, 'w) patch_run \<Rightarrow> 'x patch_registry \<Rightarrow> 'v runtime_patch option list \<Rightarrow> 'w \<Rightarrow> 'w" where
  "roll_back_patches run r [] w = w"
| "roll_back_patches run r (None # rbs) w = roll_back_patches run r rbs w"
| "roll_back_patches run r (Some rb # rbs) w =
     roll_back_patches run r rbs
       (case pr_executors r (pt_target rb) of None \<Rightarrow> w | Some x \<Rightarrow> snd (snd (run x rb w)))"

fun apply_patches ::
  "('x, 'v, 'e, 'w) patch_run \<Rightarrow> ('x, 'v, 'e, 'w) patch_check \<Rightarrow> 'v runtime_patch list
    \<Rightarrow> 'v runtime_patch option list \<Rightarrow> 'x patch_registry \<times> 'w
    \<Rightarrow> ('e patch_error, unit, 'x patch_registry \<times> 'w) outcome" where
  "apply_patches run can [] rbs s = (Inr (), s)"
| "apply_patches run can (p # ps) rbs (r, w) =
     (if already_applied p r then apply_patches run can ps rbs (r, w)
      else (case pr_executors r (pt_target p) of
        None \<Rightarrow>
          (case pr_fallback r of
             Some fb \<Rightarrow>
               (case run fb p w of
                  (_, Some err, w1) \<Rightarrow> (Inl (ErrPatchFailed err), r, roll_back_patches run r rbs w1)
                | (rb, None, w1) \<Rightarrow> apply_patches run can ps (rb # rbs) (mark_applied p r, w1))
           | None \<Rightarrow> (Inl ErrNoExecutor, r, roll_back_patches run r rbs w))
      | Some x \<Rightarrow>
          (case can x p w of
             Some err \<Rightarrow> (Inl (ErrPatchRefused err), r, roll_back_patches run r rbs w)
           | None \<Rightarrow>
               (case run x p w of
                  (_, Some err, w1) \<Rightarrow> (Inl (ErrPatchFailed err), r, roll_back_patches run r rbs w1)
                | (rb, None, w1) \<Rightarrow> apply_patches run can ps (rb # rbs) (mark_applied p r, w1)))))"

definition apply_set ::
  "('x, 'v, 'e, 'w) patch_run \<Rightarrow> ('x, 'v, 'e, 'w) patch_check \<Rightarrow> 'v runtime_patch list \<Rightarrow> 'x patch_registry \<times> 'w
    \<Rightarrow> ('e patch_error, unit, 'x patch_registry \<times> 'w) outcome" where
  "apply_set run can ps s = (if ps = [] then (Inr (), s) else apply_patches run can ps [] s)"

end
