(* ===== verification/Runtime_Graph.thy ===== *)
theory Runtime_Graph
  imports Runtime_Patch
begin

text \<open>
  Package \<open>internal/workflow/graph\<close>: the graph (\<open>graph.go\<close>), its shared state (\<open>state.go\<close>) and the executor
  of graph patches (\<open>patcher.go\<close>). Nodes, conditions and schedulers are pointers or functions the graph only
  stores: values of the parameters \<open>'n\<close>, \<open>'c\<close> and \<open>'s\<close>. A placeholder node, which the executor makes itself, is
  its id. Every method runs under the mutex.
\<close>

section \<open>Nodes, edges, graphs\<close>

datatype 'n node_cell = RealNode 'n | PlaceholderNode string

record 'c edge_cell =
  gx_from :: string
  gx_to :: string
  gx_cond :: "'c option"

record ('n, 'c, 's) node_graph =
  ng_id :: string
  ng_nodes :: "string \<rightharpoonup> 'n node_cell"
  ng_edges :: "string \<rightharpoonup> 'c edge_cell list"
  ng_start :: string
  ng_scheduler :: 's

datatype graph_error =
    ErrGraphIdEmpty
  | ErrGraphNodeIdEmpty
  | ErrGraphNodeNil
  | ErrGraphDuplicateNode
  | ErrEdgeFromEmpty
  | ErrEdgeToEmpty
  | ErrEdgeFromMissing
  | ErrEdgeToMissing
  | ErrStartEmpty
  | ErrSchedulerNil
  | ErrPatchUnsupported
  | ErrPatchTarget
  | ErrPatchValue
  | ErrPatchNodeMissing

text \<open>\<open>fresh\<close> is the pointer of the default scheduler that a new graph gets.\<close>

definition new_graph :: "'s \<Rightarrow> string \<Rightarrow> graph_error + ('n, 'c, 's) node_graph" where
  "new_graph fresh gid =
     (if gid = '''' then Inl ErrGraphIdEmpty
      else Inr \<lparr>ng_id = gid, ng_nodes = Map.empty, ng_edges = Map.empty, ng_start = '''', ng_scheduler = fresh\<rparr>)"

definition edges_from :: "('n, 'c, 's) node_graph \<Rightarrow> string \<Rightarrow> 'c edge_cell list" where
  "edges_from g n = (case ng_edges g n of None \<Rightarrow> [] | Some es \<Rightarrow> es)"

definition graph_node ::
  "string \<Rightarrow> 'n node_cell option \<Rightarrow> ('n, 'c, 's) node_graph \<Rightarrow> (graph_error, unit, ('n, 'c, 's) node_graph) outcome" where
  "graph_node nid node g =
     (if nid = '''' then (Inl ErrGraphNodeIdEmpty, g)
      else (case node of
              None \<Rightarrow> (Inl ErrGraphNodeNil, g)
            | Some n \<Rightarrow>
                if ng_nodes g nid \<noteq> None then (Inl ErrGraphDuplicateNode, g)
                else (Inr (), g\<lparr>ng_nodes := (ng_nodes g)(nid \<mapsto> n)\<rparr>)))"

definition duplicate_edge :: "string \<Rightarrow> 'c option \<Rightarrow> 'c edge_cell list \<Rightarrow> bool" where
  "duplicate_edge to cond es \<longleftrightarrow> (\<exists>e\<in>set es. gx_to e = to \<and> cond = None \<and> gx_cond e = None)"

definition graph_edge ::
  "string \<Rightarrow> string \<Rightarrow> 'c option \<Rightarrow> ('n, 'c, 's) node_graph \<Rightarrow> (graph_error, unit, ('n, 'c, 's) node_graph) outcome" where
  "graph_edge source to cond g =
     (if source = '''' then (Inl ErrEdgeFromEmpty, g)
      else if to = '''' then (Inl ErrEdgeToEmpty, g)
      else if ng_nodes g source = None then (Inl ErrEdgeFromMissing, g)
      else if ng_nodes g to = None then (Inl ErrEdgeToMissing, g)
      else if duplicate_edge to cond (edges_from g source) then (Inr (), g)
      else (Inr (), g\<lparr>ng_edges := (ng_edges g)(source \<mapsto>
             edges_from g source @ [\<lparr>gx_from = source, gx_to = to, gx_cond = cond\<rparr>])\<rparr>))"

definition graph_start ::
  "string \<Rightarrow> ('n, 'c, 's) node_graph \<Rightarrow> (graph_error, unit, ('n, 'c, 's) node_graph) outcome" where
  "graph_start nid g = (if nid = '''' then (Inl ErrStartEmpty, g) else (Inr (), g\<lparr>ng_start := nid\<rparr>))"

definition drop_edges_to :: "string \<Rightarrow> 'c edge_cell list \<Rightarrow> 'c edge_cell list" where
  "drop_edges_to to es = [e \<leftarrow> es. gx_to e \<noteq> to]"

definition graph_remove_edge ::
  "string \<Rightarrow> string \<Rightarrow> ('n, 'c, 's) node_graph \<Rightarrow> (graph_error, unit, ('n, 'c, 's) node_graph) outcome" where
  "graph_remove_edge source to g =
     (if source = '''' then (Inl ErrEdgeFromEmpty, g)
      else if to = '''' then (Inl ErrEdgeToEmpty, g)
      else (case ng_edges g source of
              None \<Rightarrow> (Inr (), g)
            | Some es \<Rightarrow> (Inr (), g\<lparr>ng_edges := (ng_edges g)(source \<mapsto> drop_edges_to to es)\<rparr>)))"

definition graph_remove_node ::
  "string \<Rightarrow> ('n, 'c, 's) node_graph \<Rightarrow> (graph_error, unit, ('n, 'c, 's) node_graph) outcome" where
  "graph_remove_node nid g =
     (if nid = '''' then (Inl ErrGraphNodeIdEmpty, g)
      else (Inr (), g\<lparr>ng_nodes := (ng_nodes g)(nid := None),
                      ng_edges := (\<lambda>n. map_option (drop_edges_to nid) (ng_edges g n))(nid := None),
                      ng_start := (if ng_start g = nid then '''' else ng_start g)\<rparr>))"

definition graph_clear :: "('n, 'c, 's) node_graph \<Rightarrow> ('n, 'c, 's) node_graph" where
  "graph_clear g = g\<lparr>ng_nodes := Map.empty, ng_edges := Map.empty, ng_start := ''''\<rparr>"

definition graph_set_scheduler ::
  "'s option \<Rightarrow> ('n, 'c, 's) node_graph \<Rightarrow> (graph_error, unit, ('n, 'c, 's) node_graph) outcome" where
  "graph_set_scheduler s g =
     (case s of None \<Rightarrow> (Inl ErrSchedulerNil, g) | Some s1 \<Rightarrow> (Inr (), g\<lparr>ng_scheduler := s1\<rparr>))"

text \<open>Reading: the edges and node ids in the order the map is visited in.\<close>

definition graph_node_ids :: "string list \<Rightarrow> ('n, 'c, 's) node_graph \<Rightarrow> string list" where
  "graph_node_ids ord g = range_keys (ng_nodes g) ord"

definition runtime_edges :: "string list \<Rightarrow> ('n, 'c, 's) node_graph \<Rightarrow> (string \<times> string \<times> 'c option) list" where
  "runtime_edges ord g =
     concat (map (\<lambda>source. map (\<lambda>e. (source, gx_to e, gx_cond e)) (edges_from g source)) (range_keys (ng_edges g) ord))"

definition edge_infos :: "string list \<Rightarrow> ('n, 'c, 's) node_graph \<Rightarrow> (string \<times> string \<times> bool) list" where
  "edge_infos ord g = map (\<lambda>(source, to, cond). (source, to, cond \<noteq> None)) (runtime_edges ord g)"

section \<open>The shared state\<close>

text \<open>A \<open>*State\<close> is \<open>None\<close> when it is the nil pointer.\<close>

type_synonym 'v graph_state = "(string \<rightharpoonup> 'v) option"

definition new_state :: "'v graph_state" where
  "new_state = Some Map.empty"

definition state_from_values :: "(string \<rightharpoonup> 'v) \<Rightarrow> 'v graph_state" where
  "state_from_values values = Some values"

definition state_get :: "string \<Rightarrow> 'v graph_state \<Rightarrow> 'v option" where
  "state_get k s = (case s of None \<Rightarrow> None | Some m \<Rightarrow> m k)"

definition state_set :: "string \<Rightarrow> 'v \<Rightarrow> 'v graph_state \<Rightarrow> 'v graph_state" where
  "state_set k v s = map_option (\<lambda>m. m(k \<mapsto> v)) s"

definition state_params :: "'v graph_state \<Rightarrow> (string \<rightharpoonup> 'v)" where
  "state_params s = (case s of None \<Rightarrow> Map.empty | Some m \<Rightarrow> m)"

definition placeholder_result :: "string \<Rightarrow> goval" where
  "placeholder_result nid =
     GMap [(''placeholder'', GBool True), (''node_id'', GStr nid),
           (''reason'', GStr ''structural placeholder: no executor configured'')]"

definition placeholder_execute :: "string \<Rightarrow> goval graph_state \<Rightarrow> goval graph_state" where
  "placeholder_execute nid s = state_set (''node.'' @ nid) (placeholder_result nid) s"

section \<open>The executor of graph patches\<close>

text \<open>
  The value of a patch, an \<open>any\<close>: nil, a string, an int, a duration, a node, a scheduler, the three kinds of
  snapshots the recovery executor makes (for each step the old figure and whether it had a policy), or anything else.
\<close>

type_synonym 'f policy_snapshot = "(string \<rightharpoonup> 'f) \<times> (string \<rightharpoonup> bool)"

datatype ('n, 's) patch_value =
    PvNil
  | PvString string
  | PvInt int
  | PvDuration duration
  | PvNode "'n node_cell"
  | PvScheduler 's
  | PvStrategies "string policy_snapshot"
  | PvAttempts "int policy_snapshot"
  | PvBackoffs "duration policy_snapshot"
  | PvOther goval

text \<open>The node of an insert or replace: the value when it is one, else a placeholder (which needs an id).\<close>

definition patched_node :: "('n, 's) patch_value runtime_patch \<Rightarrow> graph_error + 'n node_cell" where
  "patched_node p =
     (case pt_value p of
        PvNode n \<Rightarrow> Inr n
      | _ \<Rightarrow> if pt_target p = '''' then Inl ErrGraphNodeIdEmpty else Inr (PlaceholderNode (pt_target p)))"

definition node_value :: "'n node_cell option \<Rightarrow> ('n, 's) patch_value" where
  "node_value n = (case n of None \<Rightarrow> PvNil | Some n1 \<Rightarrow> PvNode n1)"

type_synonym ('n, 'c, 's) graph_patched =
  "('n, 's) patch_value runtime_patch option \<times> graph_error option \<times> ('n, 'c, 's) node_graph"

text \<open>What an executor makes of the outcome of a graph operation: the rollback patch, or the error.\<close>

definition patched ::
  "('n, 's) patch_value runtime_patch \<Rightarrow> (graph_error, unit, ('n, 'c, 's) node_graph) outcome \<Rightarrow> ('n, 'c, 's) graph_patched" where
  "patched rb res = (case res of (Inl e, g) \<Rightarrow> (None, Some e, g) | (Inr _, g) \<Rightarrow> (Some rb, None, g))"

definition apply_insert_node ::
  "('n, 's) patch_value runtime_patch \<Rightarrow> ('n, 'c, 's) node_graph \<Rightarrow> ('n, 'c, 's) graph_patched" where
  "apply_insert_node p g =
     (case patched_node p of
        Inl e \<Rightarrow> (None, Some e, g)
      | Inr n \<Rightarrow>
          patched (undo_patch PatchRemoveNode (pt_target p) (node_value (ng_nodes g (pt_target p)))
                     ''rollback: remove inserted node'')
            (graph_node (pt_target p) (Some n) g))"

definition apply_remove_node ::
  "('n, 's) patch_value runtime_patch \<Rightarrow> ('n, 'c, 's) node_graph \<Rightarrow> ('n, 'c, 's) graph_patched" where
  "apply_remove_node p g =
     (case ng_nodes g (pt_target p) of
        None \<Rightarrow> (None, Some ErrPatchNodeMissing, g)
      | Some old \<Rightarrow>
          patched (undo_patch PatchInsertNode (pt_target p) (PvNode old) ''rollback: re-insert removed node'')
            (graph_remove_node (pt_target p) g))"

definition apply_replace_node ::
  "('n, 's) patch_value runtime_patch \<Rightarrow> ('n, 'c, 's) node_graph \<Rightarrow> ('n, 'c, 's) graph_patched" where
  "apply_replace_node p g =
     (case ng_nodes g (pt_target p) of
        None \<Rightarrow> (None, Some ErrPatchNodeMissing, g)
      | Some old \<Rightarrow>
          (case patched_node p of
             Inl e \<Rightarrow> (None, Some e, g)
           | Inr n \<Rightarrow>
               (Some (undo_patch PatchReplaceNode (pt_target p) (PvNode old) ''rollback: restore replaced node''), None,
                g\<lparr>ng_nodes := (ng_nodes g)(pt_target p \<mapsto> n)\<rparr>)))"

definition apply_add_edge ::
  "('n, 's) patch_value runtime_patch \<Rightarrow> ('n, 'c, 's) node_graph \<Rightarrow> ('n, 'c, 's) graph_patched" where
  "apply_add_edge p g =
     (case pt_value p of
        PvString to \<Rightarrow>
          patched (undo_patch PatchRemoveEdge (pt_target p) (PvString to) ''rollback: remove added edge'')
            (graph_edge (pt_target p) to None g)
      | _ \<Rightarrow> (None, Some ErrPatchValue, g))"

definition apply_remove_edge ::
  "('n, 's) patch_value runtime_patch \<Rightarrow> ('n, 'c, 's) node_graph \<Rightarrow> ('n, 'c, 's) graph_patched" where
  "apply_remove_edge p g =
     (case pt_value p of
        PvString to \<Rightarrow>
          patched (undo_patch PatchAddEdge (pt_target p) (PvString to) ''rollback: re-add removed edge'')
            (graph_remove_edge (pt_target p) to g)
      | _ \<Rightarrow> (None, Some ErrPatchValue, g))"

definition apply_change_scheduler ::
  "('n, 's) patch_value runtime_patch \<Rightarrow> ('n, 'c, 's) node_graph \<Rightarrow> ('n, 'c, 's) graph_patched" where
  "apply_change_scheduler p g =
     (case pt_value p of
        PvScheduler s \<Rightarrow>
          patched (undo_patch PatchChangeScheduler '''' (PvScheduler (ng_scheduler g)) ''rollback: restore previous scheduler'')
            (graph_set_scheduler (Some s) g)
      | _ \<Rightarrow> (None, Some ErrPatchValue, g))"

definition graph_apply ::
  "('n, 's) patch_value runtime_patch \<Rightarrow> ('n, 'c, 's) node_graph \<Rightarrow> ('n, 'c, 's) graph_patched" where
  "graph_apply p g =
     (case pt_type p of
        PatchInsertNode \<Rightarrow> apply_insert_node p g
      | PatchRemoveNode \<Rightarrow> apply_remove_node p g
      | PatchReplaceNode \<Rightarrow> apply_replace_node p g
      | PatchAddEdge \<Rightarrow> apply_add_edge p g
      | PatchRemoveEdge \<Rightarrow> apply_remove_edge p g
      | PatchChangeScheduler \<Rightarrow> apply_change_scheduler p g
      | _ \<Rightarrow> (None, Some ErrPatchUnsupported, g))"

text \<open>\<open>CanApply\<close> of an executor that has a graph.\<close>

definition target_named :: "('n, 's) patch_value runtime_patch \<Rightarrow> graph_error option" where
  "target_named p = (if pt_target p = '''' then Some ErrPatchTarget else None)"

definition edge_named :: "('n, 's) patch_value runtime_patch \<Rightarrow> graph_error option" where
  "edge_named p =
     (if pt_target p = '''' then Some ErrPatchTarget
      else (case pt_value p of
              PvString to \<Rightarrow> if to = '''' then Some ErrPatchValue else None
            | _ \<Rightarrow> Some ErrPatchValue))"

definition graph_can_apply :: "('n, 's) patch_value runtime_patch \<Rightarrow> graph_error option" where
  "graph_can_apply p =
     (case pt_type p of
        PatchInsertNode \<Rightarrow> target_named p
      | PatchRemoveNode \<Rightarrow> target_named p
      | PatchReplaceNode \<Rightarrow> target_named p
      | PatchAddEdge \<Rightarrow> edge_named p
      | PatchRemoveEdge \<Rightarrow> edge_named p
      | PatchChangeScheduler \<Rightarrow> None
      | _ \<Rightarrow> Some ErrPatchUnsupported)"

end
