(* ===== verification/Recovery_Patch.thy ===== *)
theory Recovery_Patch
  imports Runtime_Graph
begin

text \<open>
  Package \<open>internal/workflow/engine\<close>, \<open>recovery_patcher.go\<close>: the executor that changes the recovery policies of
  the steps of a workflow. A step holds a pointer to its policy, and steps may share one, so the policies live in
  a store of cells: of a step only the pointer (or nil) matters here. The loops visit the steps in the order
  of a map, the argument \<open>ord\<close>.
\<close>

section \<open>Policies and steps\<close>

record recovery_policy =
  rp_strategy :: string
  rp_max_attempts :: int
  rp_replacement :: string
  rp_backoff :: duration

definition zero_policy :: recovery_policy where
  "zero_policy = \<lparr>rp_strategy = '''', rp_max_attempts = 0, rp_replacement = '''', rp_backoff = 0\<rparr>"

record policy_dag =
  pd_steps :: "string \<rightharpoonup> nat option"
  pd_cells :: "nat \<Rightarrow> recovery_policy"
  pd_next :: nat

definition recovery_retry :: string where "recovery_retry = ''retry''"

definition recovery_replace_node :: string where "recovery_replace_node = ''replace_node''"

definition recovery_fail_fast :: string where "recovery_fail_fast = ''fail_fast''"

text \<open>A figure of a policy: how to read it, how to write it, and its zero value.\<close>

type_synonym 'f policy_figure = "(recovery_policy \<Rightarrow> 'f) \<times> ('f \<Rightarrow> recovery_policy \<Rightarrow> recovery_policy) \<times> 'f"

definition strategy_figure :: "string policy_figure" where
  "strategy_figure = (rp_strategy, \<lambda>s p. p\<lparr>rp_strategy := s\<rparr>, '''')"

definition attempts_figure :: "int policy_figure" where
  "attempts_figure = (rp_max_attempts, \<lambda>i p. p\<lparr>rp_max_attempts := i\<rparr>, 0)"

definition backoff_figure :: "duration policy_figure" where
  "backoff_figure = (rp_backoff, \<lambda>d p. p\<lparr>rp_backoff := d\<rparr>, 0)"

section \<open>Writing one step\<close>

text \<open>A step without a policy gets a fresh zero one; then the figure is written through the pointer.\<close>

definition write_figure :: "'f policy_figure \<Rightarrow> 'f \<Rightarrow> string \<Rightarrow> nat option \<Rightarrow> policy_dag \<Rightarrow> policy_dag" where
  "write_figure fig v sid ptr d =
     (case ptr of
        Some a \<Rightarrow> d\<lparr>pd_cells := (pd_cells d)(a := fst (snd fig) v (pd_cells d a))\<rparr>
      | None \<Rightarrow> d\<lparr>pd_steps := (pd_steps d)(sid \<mapsto> Some (pd_next d)),
                  pd_cells := (pd_cells d)(pd_next d := fst (snd fig) v zero_policy),
                  pd_next := Suc (pd_next d)\<rparr>)"

definition snap_figure :: "'f policy_figure \<Rightarrow> string \<Rightarrow> nat option \<Rightarrow> policy_dag \<Rightarrow> 'f policy_snapshot \<Rightarrow> 'f policy_snapshot" where
  "snap_figure fig sid ptr d snap =
     (case ptr of
        Some a \<Rightarrow> ((fst snap)(sid \<mapsto> fst fig (pd_cells d a)), (snd snap)(sid \<mapsto> True))
      | None \<Rightarrow> (fst snap, (snd snap)(sid \<mapsto> False)))"

section \<open>The forward patch and the rollback\<close>

fun change_steps ::
  "'f policy_figure \<Rightarrow> 'f \<Rightarrow> string list \<Rightarrow> policy_dag \<times> 'f policy_snapshot \<Rightarrow> policy_dag \<times> 'f policy_snapshot" where
  "change_steps fig v [] s = s"
| "change_steps fig v (sid # ids) (d, snap) =
     (case pd_steps d sid of
        None \<Rightarrow> change_steps fig v ids (d, snap)
      | Some ptr \<Rightarrow> change_steps fig v ids (write_figure fig v sid ptr d, snap_figure fig sid ptr d snap))"

definition empty_snapshot :: "'f policy_snapshot" where
  "empty_snapshot = (Map.empty, Map.empty)"

text \<open>The rollback loop ranges over the snapshot and skips steps that are gone.\<close>

definition restore_step :: "'f policy_figure \<Rightarrow> 'f policy_snapshot \<Rightarrow> string \<Rightarrow> bool \<Rightarrow> nat option \<Rightarrow> policy_dag \<Rightarrow> policy_dag" where
  "restore_step fig snap sid had ptr d =
     (if had
      then write_figure fig (case fst snap sid of None \<Rightarrow> snd (snd fig) | Some v \<Rightarrow> v) sid ptr d
      else d\<lparr>pd_steps := (pd_steps d)(sid \<mapsto> None)\<rparr>)"

fun restore_steps ::
  "'f policy_figure \<Rightarrow> 'f policy_snapshot \<Rightarrow> string list \<Rightarrow> policy_dag \<times> 'f policy_snapshot \<Rightarrow> policy_dag \<times> 'f policy_snapshot" where
  "restore_steps fig snap [] s = s"
| "restore_steps fig snap (sid # ids) (d, cur) =
     (case (snd snap sid, pd_steps d sid) of
        (Some had, Some ptr) \<Rightarrow>
          restore_steps fig snap ids (restore_step fig snap sid had ptr d, snap_figure fig sid ptr d cur)
      | _ \<Rightarrow> restore_steps fig snap ids (d, cur))"

datatype recovery_patch_error = ErrRecoveryUnsupported | ErrRecoveryValue | ErrRecoveryNoSteps | ErrRecoveryStrategy

type_synonym ('n, 's) policy_patched =
  "('n, 's) patch_value runtime_patch option \<times> recovery_patch_error option \<times> policy_dag"

definition change_all ::
  "'f policy_figure \<Rightarrow> ('f policy_snapshot \<Rightarrow> ('n, 's) patch_value) \<Rightarrow> patch_type \<Rightarrow> string \<Rightarrow> string list \<Rightarrow> 'f
    \<Rightarrow> policy_dag \<Rightarrow> ('n, 's) policy_patched" where
  "change_all fig mk ty reason ord v d =
     (if pd_steps d = Map.empty then (None, Some ErrRecoveryNoSteps, d)
      else (case change_steps fig v (range_keys (pd_steps d) ord) (d, empty_snapshot) of
              (d1, snap) \<Rightarrow> (Some (undo_patch ty '''' (mk snap) reason), None, d1)))"

definition restore_all ::
  "'f policy_figure \<Rightarrow> ('f policy_snapshot \<Rightarrow> ('n, 's) patch_value) \<Rightarrow> patch_type \<Rightarrow> string \<Rightarrow> string list \<Rightarrow> 'f policy_snapshot
    \<Rightarrow> policy_dag \<Rightarrow> ('n, 's) policy_patched" where
  "restore_all fig mk ty reason ord snap d =
     (case restore_steps fig snap (range_keys (snd snap) ord) (d, empty_snapshot) of
        (d1, cur) \<Rightarrow> (Some (undo_patch ty '''' (mk cur) reason), None, d1))"

definition apply_change_strategy ::
  "string list \<Rightarrow> ('n, 's) patch_value runtime_patch \<Rightarrow> policy_dag \<Rightarrow> ('n, 's) policy_patched" where
  "apply_change_strategy ord p d =
     (case pt_value p of
        PvStrategies snap \<Rightarrow>
          restore_all strategy_figure PvStrategies PatchChangeRecoveryStrategy ''rollback: re-apply recovery strategy'' ord snap d
      | PvString s \<Rightarrow>
          change_all strategy_figure PvStrategies PatchChangeRecoveryStrategy
            ''rollback: restore previous recovery strategy'' ord s d
      | _ \<Rightarrow> (None, Some ErrRecoveryValue, d))"

definition apply_change_max_retries ::
  "string list \<Rightarrow> ('n, 's) patch_value runtime_patch \<Rightarrow> policy_dag \<Rightarrow> ('n, 's) policy_patched" where
  "apply_change_max_retries ord p d =
     (case pt_value p of
        PvAttempts snap \<Rightarrow>
          restore_all attempts_figure PvAttempts PatchChangeMaxRetries ''rollback: re-apply max retries'' ord snap d
      | PvInt i \<Rightarrow>
          change_all attempts_figure PvAttempts PatchChangeMaxRetries ''rollback: restore previous max retries'' ord i d
      | _ \<Rightarrow> (None, Some ErrRecoveryValue, d))"

definition apply_change_backoff ::
  "string list \<Rightarrow> ('n, 's) patch_value runtime_patch \<Rightarrow> policy_dag \<Rightarrow> ('n, 's) policy_patched" where
  "apply_change_backoff ord p d =
     (case pt_value p of
        PvBackoffs snap \<Rightarrow>
          restore_all backoff_figure PvBackoffs PatchChangeBackoff ''rollback: re-apply backoff'' ord snap d
      | PvDuration t \<Rightarrow>
          change_all backoff_figure PvBackoffs PatchChangeBackoff ''rollback: restore previous backoff'' ord t d
      | _ \<Rightarrow> (None, Some ErrRecoveryValue, d))"

definition recovery_apply ::
  "string list \<Rightarrow> ('n, 's) patch_value runtime_patch \<Rightarrow> policy_dag \<Rightarrow> ('n, 's) policy_patched" where
  "recovery_apply ord p d =
     (case pt_type p of
        PatchChangeRecoveryStrategy \<Rightarrow> apply_change_strategy ord p d
      | PatchChangeMaxRetries \<Rightarrow> apply_change_max_retries ord p d
      | PatchChangeBackoff \<Rightarrow> apply_change_backoff ord p d
      | _ \<Rightarrow> (None, Some ErrRecoveryUnsupported, d))"

definition recovery_can_apply :: "('n, 's) patch_value runtime_patch \<Rightarrow> recovery_patch_error option" where
  "recovery_can_apply p =
     (case pt_type p of
        PatchChangeRecoveryStrategy \<Rightarrow>
          (case pt_value p of
             PvStrategies snap \<Rightarrow> None
           | PvString s \<Rightarrow> if s \<in> {recovery_retry, recovery_replace_node, recovery_fail_fast} then None else Some ErrRecoveryStrategy
           | _ \<Rightarrow> Some ErrRecoveryValue)
      | PatchChangeMaxRetries \<Rightarrow>
          (case pt_value p of PvAttempts snap \<Rightarrow> None | PvInt i \<Rightarrow> None | _ \<Rightarrow> Some ErrRecoveryValue)
      | PatchChangeBackoff \<Rightarrow>
          (case pt_value p of PvBackoffs snap \<Rightarrow> None | PvDuration t \<Rightarrow> None | _ \<Rightarrow> Some ErrRecoveryValue)
      | _ \<Rightarrow> Some ErrRecoveryUnsupported)"

end
