(* ===== verification/Patch_Props.thy ===== *)
theory Patch_Props
  imports Recovery_Patch
begin

text \<open>
  What the rollback patches undo: those of the recovery executor everything, when the steps do not share their
  policies; those of the graph executor exactly the changes named by a criterion. Also the invariant of graphs.
\<close>

section \<open>Recovery policies\<close>

text \<open>What is seen of a step: whether it has a policy, and which.\<close>

definition policy_view :: "policy_dag \<Rightarrow> string \<Rightarrow> recovery_policy option option" where
  "policy_view d sid = map_option (map_option (pd_cells d)) (pd_steps d sid)"

text \<open>The pointers point into the store, and no two steps share one.\<close>

definition policy_wf :: "policy_dag \<Rightarrow> bool" where
  "policy_wf d \<longleftrightarrow>
     (\<forall>s a. pd_steps d s = Some (Some a) \<longrightarrow> a < pd_next d)
     \<and> (\<forall>s t a. pd_steps d s = Some (Some a) \<and> pd_steps d t = Some (Some a) \<longrightarrow> s = t)"

definition figure_laws :: "'f policy_figure \<Rightarrow> bool" where
  "figure_laws fig \<longleftrightarrow>
     (\<forall>p v. fst (snd fig) (fst fig p) (fst (snd fig) v p) = p \<and> fst fig (fst (snd fig) v p) = v
          \<and> fst (snd fig) (fst fig p) p = p)"

lemma figures_lawful: "figure_laws strategy_figure" "figure_laws attempts_figure" "figure_laws backoff_figure"
  by (simp_all add: figure_laws_def strategy_figure_def attempts_figure_def backoff_figure_def)

definition or_zero :: "recovery_policy option \<Rightarrow> recovery_policy" where
  "or_zero o1 = (case o1 of None \<Rightarrow> zero_policy | Some p \<Rightarrow> p)"

lemma policy_view_None [simp]: "policy_view d sid = None \<longleftrightarrow> pd_steps d sid = None"
  by (simp add: policy_view_def)

lemma write_figure_view:
  assumes "policy_wf d" "pd_steps d sid = Some ptr" "d' = write_figure fig v sid ptr d"
  shows "policy_wf d'" "dom (pd_steps d') = dom (pd_steps d)"
    and "policy_view d' t =
      (if t = sid then Some (Some (fst (snd fig) v (or_zero (map_option (pd_cells d) ptr)))) else policy_view d t)"
proof -
  show "policy_wf d'"
    using assms unfolding policy_wf_def write_figure_def by (cases ptr) (auto split: if_splits dest: less_SucI)
  show "dom (pd_steps d') = dom (pd_steps d)"
    using assms unfolding write_figure_def by (cases ptr) auto
  show "policy_view d' t =
      (if t = sid then Some (Some (fst (snd fig) v (or_zero (map_option (pd_cells d) ptr)))) else policy_view d t)"
  proof (cases ptr)
    case None
    have "pd_steps d t \<noteq> Some (Some (pd_next d))" using assms(1) unfolding policy_wf_def by blast
    then have "map_option (map_option ((pd_cells d)(pd_next d := x))) (pd_steps d t) = policy_view d t" for x
      by (cases "pd_steps d t"; cases "the (pd_steps d t)") (auto simp: policy_view_def)
    then show ?thesis using assms None by (simp add: policy_view_def write_figure_def or_zero_def)
  next
    case (Some a)
    have "t \<noteq> sid \<Longrightarrow> pd_steps d t \<noteq> Some (Some a)" using assms(1,2) Some unfolding policy_wf_def by blast
    then have "t \<noteq> sid \<Longrightarrow> map_option (map_option ((pd_cells d)(a := x))) (pd_steps d t) = policy_view d t" for x
      by (cases "pd_steps d t"; cases "the (pd_steps d t)") (auto simp: policy_view_def)
    then show ?thesis using assms Some by (simp add: policy_view_def write_figure_def or_zero_def)
  qed
qed

lemma restore_step_view:
  assumes "policy_wf d" "pd_steps d sid = Some ptr" "d' = restore_step fig snap sid had ptr d"
  shows "policy_wf d'" "dom (pd_steps d') = dom (pd_steps d)"
    and "policy_view d' t =
      (if t = sid
       then Some (if had then Some (fst (snd fig) (case fst snap sid of None \<Rightarrow> snd (snd fig) | Some v \<Rightarrow> v)
                                     (or_zero (map_option (pd_cells d) ptr)))
                  else None)
       else policy_view d t)"
proof -
  show "policy_wf d'"
  proof (cases had)
    case True
    then show ?thesis using assms write_figure_view(1) [OF assms(1,2) refl, of fig] by (simp add: restore_step_def)
  next
    case False
    then show ?thesis using assms unfolding policy_wf_def restore_step_def by (auto split: if_splits)
  qed
  show "dom (pd_steps d') = dom (pd_steps d)"
    using assms write_figure_view(2) [OF assms(1,2) refl, of fig] by (auto simp: restore_step_def)
  show "policy_view d' t =
      (if t = sid
       then Some (if had then Some (fst (snd fig) (case fst snap sid of None \<Rightarrow> snd (snd fig) | Some v \<Rightarrow> v)
                                     (or_zero (map_option (pd_cells d) ptr)))
                  else None)
       else policy_view d t)"
  proof (cases had)
    case True
    then show ?thesis using assms write_figure_view(3) [OF assms(1,2) refl, of fig] by (simp add: restore_step_def)
  next
    case False
    then show ?thesis using assms by (auto simp: restore_step_def policy_view_def)
  qed
qed

text \<open>The snapshot of some steps, taken on top of another one.\<close>

definition capture :: "'f policy_figure \<Rightarrow> string set \<Rightarrow> policy_dag \<Rightarrow> 'f policy_snapshot \<Rightarrow> 'f policy_snapshot" where
  "capture fig S d snap =
     (\<lambda>t. if t \<in> S then (case the (policy_view d t) of None \<Rightarrow> fst snap t | Some p \<Rightarrow> Some (fst fig p)) else fst snap t,
      \<lambda>t. if t \<in> S then Some (the (policy_view d t) \<noteq> None) else snd snap t)"

lemma the_policy_view: "pd_steps d sid = Some ptr \<Longrightarrow> the (policy_view d sid) = map_option (pd_cells d) ptr"
  by (simp add: policy_view_def)

lemma snap_figure_capture:
  "pd_steps d sid = Some ptr \<Longrightarrow> snap_figure fig sid ptr d snap = capture fig {sid} d snap"
  by (auto simp: snap_figure_def capture_def the_policy_view fun_eq_iff split: option.split)

lemma capture_insert:
  assumes "sid \<notin> S" "\<And>t. t \<noteq> sid \<Longrightarrow> policy_view d1 t = policy_view d t"
  shows "capture fig S d1 (capture fig {sid} d snap) = capture fig (insert sid S) d snap"
proof -
  have "t \<in> S \<Longrightarrow> policy_view d1 t = policy_view d t" for t
    by (rule assms(2)) (use assms(1) in auto)
  then have "capture fig S d1 snap1 = capture fig S d snap1" for snap1 :: "'a policy_snapshot"
    unfolding capture_def by (intro prod_eqI ext) simp_all
  moreover have "capture fig S d (capture fig {sid} d snap) = capture fig (insert sid S) d snap"
    using assms(1) unfolding capture_def by (intro prod_eqI ext) (auto split: option.split)
  ultimately show ?thesis by simp
qed

lemma change_steps_view:
  assumes "policy_wf d" "distinct ids" "set ids \<subseteq> dom (pd_steps d)"
    and "change_steps fig v ids (d, snap) = (d1, snap1)"
  shows "policy_wf d1 \<and> dom (pd_steps d1) = dom (pd_steps d) \<and> snap1 = capture fig (set ids) d snap
    \<and> (\<forall>t. policy_view d1 t =
         (if t \<in> set ids then Some (Some (fst (snd fig) v (or_zero (the (policy_view d t))))) else policy_view d t))"
  using assms
proof (induction ids arbitrary: d snap)
  case Nil
  then show ?case by (simp add: capture_def)
next
  case (Cons sid ids)
  obtain ptr where ptr: "pd_steps d sid = Some ptr" using Cons.prems(3) by auto
  define d' where "d' = write_figure fig v sid ptr d"
  note w = write_figure_view [OF Cons.prems(1) ptr d'_def]
  have "change_steps fig v ids (d', capture fig {sid} d snap) = (d1, snap1)"
    using Cons.prems(4) ptr by (simp add: d'_def snap_figure_capture)
  moreover have "set ids \<subseteq> dom (pd_steps d')" "distinct ids" using Cons.prems(2,3) w(2) by auto
  ultimately have IH: "policy_wf d1" "dom (pd_steps d1) = dom (pd_steps d')"
      "snap1 = capture fig (set ids) d' (capture fig {sid} d snap)"
      "\<And>t. policy_view d1 t =
        (if t \<in> set ids then Some (Some (fst (snd fig) v (or_zero (the (policy_view d' t))))) else policy_view d' t)"
    using Cons.IH [OF w(1)] by blast+
  have "snap1 = capture fig (set (sid # ids)) d snap"
    using IH(3) capture_insert [of sid "set ids" d' d] Cons.prems(2) w(3) by simp
  moreover have "policy_view d1 t =
      (if t \<in> set (sid # ids) then Some (Some (fst (snd fig) v (or_zero (the (policy_view d t))))) else policy_view d t)" for t
    using IH(4) [of t] w(3) [of t] Cons.prems(2) by (auto simp: the_policy_view [OF ptr])
  ultimately show ?case using IH(1,2) w(2) by simp
qed

definition restored :: "'f policy_figure \<Rightarrow> 'f policy_snapshot \<Rightarrow> string \<Rightarrow> recovery_policy option \<Rightarrow> recovery_policy option" where
  "restored fig snap sid o1 =
     (if snd snap sid = Some True
      then Some (fst (snd fig) (case fst snap sid of None \<Rightarrow> snd (snd fig) | Some v \<Rightarrow> v) (or_zero o1)) else None)"

lemma restore_steps_view:
  assumes "policy_wf d" "distinct ids" "set ids \<subseteq> dom (pd_steps d)" "set ids \<subseteq> dom (snd snap)"
    and "restore_steps fig snap ids (d, cur) = (d1, cur1)"
  shows "policy_wf d1 \<and> dom (pd_steps d1) = dom (pd_steps d) \<and> cur1 = capture fig (set ids) d cur
    \<and> (\<forall>t. policy_view d1 t =
         (if t \<in> set ids then Some (restored fig snap t (the (policy_view d t))) else policy_view d t))"
  using assms
proof (induction ids arbitrary: d cur)
  case Nil
  then show ?case by (simp add: capture_def)
next
  case (Cons sid ids)
  obtain ptr where ptr: "pd_steps d sid = Some ptr" using Cons.prems(3) by auto
  obtain had where had: "snd snap sid = Some had" using Cons.prems(4) by auto
  define d' where "d' = restore_step fig snap sid had ptr d"
  note w = restore_step_view [OF Cons.prems(1) ptr d'_def]
  have "restore_steps fig snap ids (d', capture fig {sid} d cur) = (d1, cur1)"
    using Cons.prems(5) ptr had by (simp add: d'_def snap_figure_capture)
  moreover have "set ids \<subseteq> dom (pd_steps d')" "distinct ids" "set ids \<subseteq> dom (snd snap)"
    using Cons.prems(2-4) w(2) by auto
  ultimately have IH: "policy_wf d1" "dom (pd_steps d1) = dom (pd_steps d')"
      "cur1 = capture fig (set ids) d' (capture fig {sid} d cur)"
      "\<And>t. policy_view d1 t =
        (if t \<in> set ids then Some (restored fig snap t (the (policy_view d' t))) else policy_view d' t)"
    using Cons.IH [OF w(1)] by blast+
  have "cur1 = capture fig (set (sid # ids)) d cur"
    using IH(3) capture_insert [of sid "set ids" d' d] Cons.prems(2) w(3) by simp
  moreover have "policy_view d1 t =
      (if t \<in> set (sid # ids) then Some (restored fig snap t (the (policy_view d t))) else policy_view d t)" for t
    using IH(4) [of t] w(3) [of t] Cons.prems(2) had by (auto simp: the_policy_view [OF ptr] restored_def)
  ultimately show ?case using IH(1,2) w(2) by simp
qed

text \<open>A forward change, its rollback, and the rollback of the rollback.\<close>

lemma change_undo_redo:
  fixes fig :: "'f policy_figure"
  assumes laws: "figure_laws fig" and wf: "policy_wf d"
    and ord: "range_order (pd_steps d) ord" "range_order (pd_steps d) ord1" "range_order (pd_steps d) ord2"
    and run: "change_all fig mk ty reason ord v d = (Some rb, None, d1)"
    and undo: "restore_all fig mk ty reason1 ord1 snap d1 = (Some rb1, None, d2)" "pt_value rb = mk snap"
    and redo: "restore_all fig mk ty reason2 ord2 snap1 d2 = (Some rb2, None, d3)" "pt_value rb1 = mk snap1"
    and inj: "inj mk"
  shows "policy_wf d2 \<and> policy_view d2 = policy_view d \<and> policy_view d3 = policy_view d1"
proof -
  have dist: "distinct ord" "set ord = dom (pd_steps d)" "distinct ord1" "set ord1 = dom (pd_steps d)"
      "distinct ord2" "set ord2 = dom (pd_steps d)"
    using ord by (auto simp: range_order_def)
  have "change_steps fig v ord (d, empty_snapshot) = (d1, snap)"
    using run undo(2) range_order_keys [OF ord(1)]
    by (auto simp: change_all_def undo_patch_def inj_eq [OF inj] split: if_splits prod.splits)
  note c1 = change_steps_view [OF wf dist(1) eq_refl [OF dist(2)] this, unfolded dist(2)]
  have d1: "policy_wf d1" "dom (pd_steps d1) = dom (pd_steps d)" "snap = capture fig (dom (pd_steps d)) d empty_snapshot"
      "\<And>t. t \<in> dom (pd_steps d) \<Longrightarrow> policy_view d1 t = Some (Some (fst (snd fig) v (or_zero (the (policy_view d t)))))"
    using c1 by auto
  have caught: "dom (snd (capture fig (dom (pd_steps d)) e empty_snapshot)) = dom (pd_steps d)" for e
    by (auto simp: capture_def empty_snapshot_def split: if_splits)
  then have keys: "range_keys (snd snap) ord1 = ord1" "set ord1 \<subseteq> dom (snd snap)" "set ord1 \<subseteq> dom (pd_steps d1)"
    using d1(2,3) dist(3,4) by (auto intro!: range_order_keys simp: range_order_def)
  have "restore_steps fig snap ord1 (d1, empty_snapshot) = (d2, snap1)"
    using undo(1) redo(2) keys(1) by (auto simp: restore_all_def undo_patch_def inj_eq [OF inj] split: prod.splits)
  note c2 = restore_steps_view [OF d1(1) dist(3) keys(3,2) this, unfolded dist(4)]
  have d2: "policy_wf d2" "dom (pd_steps d2) = dom (pd_steps d)" "snap1 = capture fig (dom (pd_steps d)) d1 empty_snapshot"
      "\<And>t. t \<in> dom (pd_steps d) \<Longrightarrow> policy_view d2 t = Some (restored fig snap t (the (policy_view d1 t)))"
    using c2 d1(2) by (simp_all del: policy_view_None)
  have keys2: "range_keys (snd snap1) ord2 = ord2" "set ord2 \<subseteq> dom (snd snap1)" "set ord2 \<subseteq> dom (pd_steps d2)"
    using d2(2,3) dist(5,6) caught [of d1] by (auto intro!: range_order_keys simp: range_order_def)
  obtain cur where "restore_steps fig snap1 ord2 (d2, empty_snapshot) = (d3, cur)"
    using redo(1) keys2(1) by (auto simp: restore_all_def split: prod.splits)
  note c3 = restore_steps_view [OF d2(1) dist(5) keys2(3,2) this, unfolded dist(6)]
  have d3: "dom (pd_steps d3) = dom (pd_steps d)"
      "\<And>t. t \<in> dom (pd_steps d) \<Longrightarrow> policy_view d3 t = Some (restored fig snap1 t (the (policy_view d2 t)))"
    using c3 d2(2) by (simp_all del: policy_view_None)
  have v2: "policy_view d2 t = policy_view d t" if t: "t \<in> dom (pd_steps d)" for t
  proof -
    obtain o1 where o1: "policy_view d t = Some o1" using t by (cases "policy_view d t") auto
    show ?thesis using d2(4) [OF t] d1(4) [OF t] t o1 laws
      by (cases o1) (simp_all add: restored_def d1(3) capture_def or_zero_def figure_laws_def)
  qed
  have v3: "policy_view d3 t = policy_view d1 t" if t: "t \<in> dom (pd_steps d)" for t
    using d3(2) [OF t] d1(4) [OF t] v2 [OF t] t laws
    by (simp add: restored_def d2(3) capture_def or_zero_def figure_laws_def)
  have out: "policy_view e t = None" if "dom (pd_steps e) = dom (pd_steps d)" "t \<notin> dom (pd_steps d)" for e t
    using that by (simp add: domIff) (metis domIff)
  have "policy_view d2 t = policy_view d t" for t
    by (cases "t \<in> dom (pd_steps d)") (rule v2, assumption, metis out d2(2))
  moreover have "policy_view d3 t = policy_view d1 t" for t
    by (cases "t \<in> dom (pd_steps d)") (rule v3, assumption, metis out d1(2) d3(1))
  ultimately show ?thesis using d2(1) by (simp add: fun_eq_iff)
qed

text \<open>The steps of the workflow, by their ids, are visited in some order by each of the three loops.\<close>

definition recovery_change :: "('n, 's) patch_value runtime_patch \<Rightarrow> bool" where
  "recovery_change p \<longleftrightarrow>
     (case pt_type p of
        PatchChangeRecoveryStrategy \<Rightarrow> (case pt_value p of PvString s \<Rightarrow> True | _ \<Rightarrow> False)
      | PatchChangeMaxRetries \<Rightarrow> (case pt_value p of PvInt i \<Rightarrow> True | _ \<Rightarrow> False)
      | PatchChangeBackoff \<Rightarrow> (case pt_value p of PvDuration t \<Rightarrow> True | _ \<Rightarrow> False)
      | _ \<Rightarrow> False)"

lemma recovery_change_cases:
  assumes "recovery_change p"
  obtains s where "pt_type p = PatchChangeRecoveryStrategy" "pt_value p = PvString s"
  | i where "pt_type p = PatchChangeMaxRetries" "pt_value p = PvInt i"
  | t where "pt_type p = PatchChangeBackoff" "pt_value p = PvDuration t"
  using assms by (cases "pt_type p"; cases "pt_value p") (auto simp: recovery_change_def)

lemma change_all_rollback:
  "change_all fig mk ty reason ord v d = (Some rb, None, d1) \<Longrightarrow> \<exists>snap. pt_type rb = ty \<and> pt_value rb = mk snap"
  by (cases "change_steps fig v (range_keys (pd_steps d) ord) (d, empty_snapshot)")
    (force simp: change_all_def undo_patch_def split: if_splits)

lemma restore_all_rollback:
  "restore_all fig mk ty reason ord snap d = (Some rb, None, d1) \<Longrightarrow> \<exists>snap1. pt_type rb = ty \<and> pt_value rb = mk snap1"
  by (cases "restore_steps fig snap (range_keys (snd snap) ord) (d, empty_snapshot)")
    (force simp: restore_all_def undo_patch_def)

lemma executor_undo_redo:
  assumes laws: "figure_laws fig" "inj mk" and wf: "policy_wf d"
    and ord: "range_order (pd_steps d) ord" "range_order (pd_steps d) ord1" "range_order (pd_steps d) ord2"
    and forward: "run ord p d = change_all fig mk ty r1 ord v d"
    and backward: "\<And>q snap o1 e. pt_type q = ty \<Longrightarrow> pt_value q = mk snap \<Longrightarrow> run o1 q e = restore_all fig mk ty r2 o1 snap e"
    and runs: "run ord p d = (Some rb, None, d1)" "run ord1 rb d1 = (Some rb1, None, d2)" "run ord2 rb1 d2 = (Some rb2, None, d3)"
  shows "policy_wf d2 \<and> policy_view d2 = policy_view d \<and> policy_view d3 = policy_view d1"
proof -
  note change = runs(1) [unfolded forward]
  obtain snap where snap: "pt_type rb = ty" "pt_value rb = mk snap" using change_all_rollback [OF change] by blast
  note undo = runs(2) [unfolded backward [OF snap]]
  obtain snap1 where snap1: "pt_type rb1 = ty" "pt_value rb1 = mk snap1" using restore_all_rollback [OF undo] by blast
  note redo = runs(3) [unfolded backward [OF snap1]]
  show ?thesis by (rule change_undo_redo [OF laws(1) wf ord change undo snap(2) redo snap1(2) laws(2)])
qed

text \<open>C30: Recovery patches are undone exactly. If no two steps share a policy, then applying a change of strategy,
  attempts or backoff and then the rollback patch it returned gives every step back the policy it
  had (or none, if it had none), whatever orders the maps are visited in; and the rollback of the rollback is the change again.\<close>

theorem recovery_rollback_exact:
  fixes p :: "('n, 's) patch_value runtime_patch"
  assumes "recovery_change p" "policy_wf d"
    and "range_order (pd_steps d) ord" "range_order (pd_steps d) ord1" "range_order (pd_steps d) ord2"
    and "recovery_apply ord p d = (Some rb, None, d1)" "recovery_apply ord1 rb d1 = (Some rb1, None, d2)"
    and "recovery_apply ord2 rb1 d2 = (Some rb2, None, d3)"
  shows "policy_wf d2 \<and> policy_view d2 = policy_view d \<and> policy_view d3 = policy_view d1"
  using assms(1)
proof (cases rule: recovery_change_cases)
  case (1 s)
  show ?thesis
    by (rule executor_undo_redo [where run = recovery_apply and fig = strategy_figure and mk = PvStrategies,
          OF figures_lawful(1) _ assms(2-5) _ _ assms(6-8)])
      (auto intro: injI simp: 1 recovery_apply_def apply_change_strategy_def)
next
  case (2 i)
  show ?thesis
    by (rule executor_undo_redo [where run = recovery_apply and fig = attempts_figure and mk = PvAttempts,
          OF figures_lawful(2) _ assms(2-5) _ _ assms(6-8)])
      (auto intro: injI simp: 2 recovery_apply_def apply_change_max_retries_def)
next
  case (3 t)
  show ?thesis
    by (rule executor_undo_redo [where run = recovery_apply and fig = backoff_figure and mk = PvBackoffs,
          OF figures_lawful(3) _ assms(2-5) _ _ assms(6-8)])
      (auto intro: injI simp: 3 recovery_apply_def apply_change_backoff_def)
qed

text \<open>The witness: two steps, one without a policy.\<close>

definition sample_policies :: policy_dag where
  "sample_policies = \<lparr>pd_steps = [''a'' \<mapsto> Some 0, ''b'' \<mapsto> None],
     pd_cells = (\<lambda>a. zero_policy\<lparr>rp_strategy := ''retry'', rp_max_attempts := 3\<rparr>), pd_next = 1\<rparr>"

definition fail_fast_patch :: "(nat, nat) patch_value runtime_patch" where
  "fail_fast_patch = RuntimePatch ''p'' PatchChangeRecoveryStrategy ''recovery.strategy'' (PvString ''fail_fast'') '''' '''' None"

lemmas recovery_run_defs = recovery_apply_def apply_change_strategy_def change_all_def restore_all_def undo_patch_def
  strategy_figure_def empty_snapshot_def write_figure_def snap_figure_def restore_step_def range_keys_def

lemma sample_policies_run:
  "\<exists>rb d1 rb1 d2 rb2 d3. recovery_apply [''a'', ''b''] fail_fast_patch sample_policies = (Some rb, None, d1)
     \<and> recovery_apply [''b'', ''a''] rb d1 = (Some rb1, None, d2) \<and> recovery_apply [''a'', ''b''] rb1 d2 = (Some rb2, None, d3)"
  by (simp add: recovery_run_defs fail_fast_patch_def sample_policies_def)

theorem recovery_rollback_exact_witness:
  "\<exists>rb d1 rb1 d2. recovery_apply [''a'', ''b''] fail_fast_patch sample_policies = (Some rb, None, d1)
     \<and> recovery_apply [''b'', ''a''] rb d1 = (Some rb1, None, d2) \<and> policy_view d2 ''b'' = Some None
     \<and> policy_view d2 ''a'' = Some (Some (zero_policy\<lparr>rp_strategy := ''retry'', rp_max_attempts := 3\<rparr>))"
proof -
  obtain rb d1 rb1 d2 rb2 d3 where run: "recovery_apply [''a'', ''b''] fail_fast_patch sample_policies = (Some rb, None, d1)"
      "recovery_apply [''b'', ''a''] rb d1 = (Some rb1, None, d2)" "recovery_apply [''a'', ''b''] rb1 d2 = (Some rb2, None, d3)"
    using sample_policies_run by blast
  have "recovery_change fail_fast_patch" "policy_wf sample_policies"
    "range_order (pd_steps sample_policies) [''a'', ''b'']" "range_order (pd_steps sample_policies) [''b'', ''a'']"
    by (auto simp: recovery_change_def fail_fast_patch_def policy_wf_def sample_policies_def range_order_def split: if_splits)
  from recovery_rollback_exact [OF this(1-3) this(4,3) run] have "policy_view d2 = policy_view sample_policies" by blast
  then have "policy_view d2 ''b'' = Some None"
    "policy_view d2 ''a'' = Some (Some (zero_policy\<lparr>rp_strategy := ''retry'', rp_max_attempts := 3\<rparr>))"
    by (simp_all only: policy_view_def) (simp_all add: sample_policies_def)
  then show ?thesis using run by blast
qed

text \<open>
  If two steps share a policy, the snapshot of the second one is taken after the first one changed it, and
  the rollback leaves the change in force.
\<close>

definition shared_policies :: policy_dag where
  "shared_policies = sample_policies\<lparr>pd_steps := [''a'' \<mapsto> Some 0, ''b'' \<mapsto> Some 0]\<rparr>"

lemma shared_policy_not_restored:
  "case recovery_apply [''a'', ''b''] fail_fast_patch shared_policies of
     (Some rb, None, d1) \<Rightarrow>
       (case recovery_apply [''a'', ''b''] rb d1 of
          (Some _, None, d2) \<Rightarrow> map_option (map_option rp_strategy) (policy_view d2 ''a'') = Some (Some ''fail_fast'')
        | _ \<Rightarrow> False)
   | _ \<Rightarrow> False"
  by (simp add: recovery_run_defs fail_fast_patch_def sample_policies_def shared_policies_def policy_view_def)

text \<open>The executor itself checks no strategy: any string becomes the strategy of every step.\<close>

lemma unchecked_strategy:
  assumes "policy_wf d" "range_order (pd_steps d) ord" "pd_steps d \<noteq> Map.empty"
    and "pt_type p = PatchChangeRecoveryStrategy" "pt_value p = PvString s"
  shows "\<exists>rb d1. recovery_apply ord p d = (Some rb, None, d1)
    \<and> (\<forall>t\<in>dom (pd_steps d). map_option (map_option rp_strategy) (policy_view d1 t) = Some (Some s))"
proof -
  obtain d1 snap where run: "change_steps strategy_figure s ord (d, empty_snapshot) = (d1, snap)"
    by (cases "change_steps strategy_figure s ord (d, empty_snapshot)") blast
  have ord: "distinct ord" "set ord = dom (pd_steps d)" "range_keys (pd_steps d) ord = ord"
    using assms(2) by (auto simp: range_order_def range_order_keys)
  note c = change_steps_view [OF assms(1) ord(1) eq_refl [OF ord(2)] run, unfolded ord(2)]
  have "recovery_apply ord p d =
      (Some (undo_patch PatchChangeRecoveryStrategy '''' (PvStrategies snap) ''rollback: restore previous recovery strategy''), None, d1)"
    using assms(3-5) run ord(3) by (simp add: recovery_apply_def apply_change_strategy_def change_all_def)
  moreover have "policy_view d1 t = Some (Some (or_zero (the (policy_view d t))\<lparr>rp_strategy := s\<rparr>))" if "t \<in> dom (pd_steps d)" for t
    using c that by (simp add: strategy_figure_def)
  ultimately show ?thesis by simp
qed

section \<open>Graphs\<close>

text \<open>
  The invariant: edges are kept under their source, both ends are nodes, and there is at most one
  unconditional edge between two nodes. The start need not be a node, and cycles are not refused.
\<close>

definition plain_edges :: "string \<Rightarrow> 'c edge_cell list \<Rightarrow> 'c edge_cell list" where
  "plain_edges to es = [e \<leftarrow> es. gx_to e = to \<and> gx_cond e = None]"

definition graph_wf :: "('n, 'c, 's) node_graph \<Rightarrow> bool" where
  "graph_wf g \<longleftrightarrow> (\<forall>source es. ng_edges g source = Some es \<longrightarrow>
     ng_nodes g source \<noteq> None
     \<and> (\<forall>e\<in>set es. gx_from e = source \<and> ng_nodes g (gx_to e) \<noteq> None)
     \<and> (\<forall>to. length (plain_edges to es) \<le> 1))"

lemma graph_wfD:
  assumes "graph_wf g" "ng_edges g source = Some es"
  shows "ng_nodes g source \<noteq> None" "e \<in> set es \<Longrightarrow> gx_from e = source" "e \<in> set es \<Longrightarrow> ng_nodes g (gx_to e) \<noteq> None"
    "length (plain_edges to es) \<le> 1"
  using assms unfolding graph_wf_def by blast+

lemma set_drop_edges [simp]: "set (drop_edges_to to es) = {e \<in> set es. gx_to e \<noteq> to}"
  by (auto simp: drop_edges_to_def)

lemma plain_drop: "length (plain_edges to (drop_edges_to to1 es)) \<le> length (plain_edges to es)"
  unfolding plain_edges_def drop_edges_to_def by (induction es) auto

lemma plain_drop_le: "length (plain_edges to es) \<le> Suc 0 \<Longrightarrow> length (plain_edges to (drop_edges_to to1 es)) \<le> Suc 0"
  using plain_drop [of to to1 es] by simp

lemma graph_wf_new: "new_graph fresh gid = Inr g \<Longrightarrow> graph_wf g"
  by (auto simp: new_graph_def graph_wf_def split: if_splits)

lemma graph_node_wf: "graph_wf g \<Longrightarrow> graph_wf (snd (graph_node nid n g))"
  by (auto simp: graph_node_def graph_wf_def split: option.splits)

lemma graph_edge_wf:
  assumes "graph_wf g"
  shows "graph_wf (snd (graph_edge source to cond g))"
proof -
  have old: "length (plain_edges t (edges_from g s)) \<le> 1" for s t
    using graph_wfD(4) [OF assms] by (cases "ng_edges g s") (auto simp: edges_from_def plain_edges_def)
  have new: "plain_edges to (edges_from g source) = []" if "\<not> duplicate_edge to None (edges_from g source)"
    using that by (auto simp: duplicate_edge_def plain_edges_def filter_empty_conv)
  have "length (plain_edges t (edges_from g source @ [\<lparr>gx_from = source, gx_to = to, gx_cond = cond\<rparr>])) \<le> 1"
    if "\<not> duplicate_edge to cond (edges_from g source)" for t
    using that old [of t source] new by (cases cond) (auto simp: plain_edges_def)
  moreover have "gx_from e = source \<and> ng_nodes g (gx_to e) \<noteq> None" if "e \<in> set (edges_from g source)" for e
    using graph_wfD(2,3) [OF assms, of source] that by (cases "ng_edges g source") (auto simp: edges_from_def)
  ultimately show ?thesis
    using assms by (auto simp: graph_edge_def graph_wf_def)
qed

lemma graph_remove_edge_wf: "graph_wf g \<Longrightarrow> graph_wf (snd (graph_remove_edge source to g))"
  unfolding graph_remove_edge_def graph_wf_def by (auto split: option.splits intro: plain_drop_le)

lemma graph_remove_node_wf: "graph_wf g \<Longrightarrow> graph_wf (snd (graph_remove_node nid g))"
  unfolding graph_remove_node_def graph_wf_def by (auto intro: plain_drop_le)

lemma graph_others_wf:
  "graph_wf (graph_clear g)" "graph_wf g \<Longrightarrow> graph_wf (snd (graph_set_scheduler s g))"
  "graph_wf g \<Longrightarrow> graph_wf (snd (graph_start nid g))"
  by (auto simp: graph_clear_def graph_set_scheduler_def graph_start_def graph_wf_def split: option.split)

lemmas graph_wf_ops = graph_node_wf graph_edge_wf graph_remove_edge_wf graph_remove_node_wf graph_others_wf

lemma patched_simps [simp]:
  "snd (snd (patched rb res)) = snd res" "fst (patched rb res) = (case fst res of Inl e \<Rightarrow> None | Inr u \<Rightarrow> Some rb)"
  "fst (snd (patched rb res)) = (case fst res of Inl e \<Rightarrow> Some e | Inr u \<Rightarrow> None)"
  by (cases res; simp add: patched_def split: sum.split)+

lemma graph_apply_wf: "graph_wf g \<Longrightarrow> graph_wf (snd (snd (graph_apply p g)))"
  unfolding graph_apply_def apply_insert_node_def apply_remove_node_def apply_replace_node_def apply_add_edge_def
    apply_remove_edge_def apply_change_scheduler_def
  by (auto simp: graph_wf_ops split: patch_type.split sum.split option.split patch_value.split)
    (auto simp: graph_wf_def)

text \<open>What can be seen of a graph, and the patches whose rollback puts it back.\<close>

definition graph_same :: "('n, 'c, 's) node_graph \<Rightarrow> ('n, 'c, 's) node_graph \<Rightarrow> bool" where
  "graph_same g h \<longleftrightarrow> ng_id g = ng_id h \<and> ng_nodes g = ng_nodes h \<and> edges_from g = edges_from h
     \<and> ng_start g = ng_start h \<and> ng_scheduler g = ng_scheduler h"

definition no_edge :: "('n, 'c, 's) node_graph \<Rightarrow> string \<Rightarrow> string \<Rightarrow> bool" where
  "no_edge g source to \<longleftrightarrow> (\<forall>e\<in>set (edges_from g source). gx_to e \<noteq> to)"

definition reversible :: "('n, 's) patch_value runtime_patch \<Rightarrow> ('n, 'c, 's) node_graph \<Rightarrow> bool" where
  "reversible p g =
     (let x = pt_target p in case pt_type p of
        PatchInsertNode \<Rightarrow> ng_start g \<noteq> x
      | PatchRemoveNode \<Rightarrow> ng_start g \<noteq> x \<and> edges_from g x = [] \<and> (\<forall>source. no_edge g source x)
      | PatchAddEdge \<Rightarrow> (case pt_value p of PvString to \<Rightarrow> no_edge g x to | _ \<Rightarrow> True)
      | PatchRemoveEdge \<Rightarrow>
          (case pt_value p of
             PvString to \<Rightarrow> ng_nodes g x = None \<or> ng_nodes g to = None
               \<or> edges_from g x = drop_edges_to to (edges_from g x) @ [\<lparr>gx_from = x, gx_to = to, gx_cond = None\<rparr>]
           | _ \<Rightarrow> True)
      | _ \<Rightarrow> True)"

lemma drop_edges_id: "drop_edges_to to es = es \<longleftrightarrow> (\<forall>e\<in>set es. gx_to e \<noteq> to)"
  by (simp add: drop_edges_to_def filter_id_conv)

lemma edges_from_absent: "graph_wf g \<Longrightarrow> ng_nodes g n = None \<Longrightarrow> edges_from g n = []"
  using graph_wfD(1) [of g n] by (cases "ng_edges g n") (auto simp: edges_from_def)

lemma no_edge_absent: "graph_wf g \<Longrightarrow> ng_nodes g to = None \<Longrightarrow> no_edge g source to"
  by (cases "ng_edges g source") (auto simp: edges_from_def no_edge_def dest: graph_wfD(3))

lemma edges_from_removed:
  "nid \<noteq> '''' \<Longrightarrow> edges_from (snd (graph_remove_node nid g)) n = (if n = nid then [] else drop_edges_to nid (edges_from g n))"
  by (auto simp: graph_remove_node_def edges_from_def drop_edges_to_def split: option.split)

lemma edges_from_remove_edge:
  "source \<noteq> '''' \<Longrightarrow> to \<noteq> '''' \<Longrightarrow> edges_from (snd (graph_remove_edge source to g)) n =
     (if n = source then drop_edges_to to (edges_from g n) else edges_from g n)"
  by (auto simp: graph_remove_edge_def edges_from_def drop_edges_to_def split: option.split)

lemma edges_from_add:
  "source \<noteq> '''' \<Longrightarrow> to \<noteq> '''' \<Longrightarrow> ng_nodes g source \<noteq> None \<Longrightarrow> ng_nodes g to \<noteq> None \<Longrightarrow>
    \<not> duplicate_edge to cond (edges_from g source) \<Longrightarrow>
    edges_from (snd (graph_edge source to cond g)) m =
      (if m = source then edges_from g m @ [\<lparr>gx_from = source, gx_to = to, gx_cond = cond\<rparr>] else edges_from g m)"
  by (auto simp: graph_edge_def edges_from_def)

lemma removed_frame:
  "ng_id (snd (graph_remove_node nid g)) = ng_id g" "ng_scheduler (snd (graph_remove_node nid g)) = ng_scheduler g"
  "ng_id (snd (graph_remove_edge source to g)) = ng_id g" "ng_nodes (snd (graph_remove_edge source to g)) = ng_nodes g"
  "ng_start (snd (graph_remove_edge source to g)) = ng_start g"
  "ng_scheduler (snd (graph_remove_edge source to g)) = ng_scheduler g"
  by (auto simp: graph_remove_node_def graph_remove_edge_def split: option.split)

lemma insert_rollback:
  assumes wf: "graph_wf g" and ty: "pt_type p = PatchInsertNode" and run: "graph_apply p g = (Some rb, None, g1)"
  shows "graph_same (snd (snd (graph_apply rb g1))) g \<longleftrightarrow> ng_start g \<noteq> pt_target p"
proof -
  let ?x = "pt_target p"
  obtain n where n: "patched_node p = Inr n" "?x \<noteq> ''''" "ng_nodes g ?x = None"
      "rb = undo_patch PatchRemoveNode ?x PvNil ''rollback: remove inserted node''"
      "g1 = g\<lparr>ng_nodes := (ng_nodes g)(?x \<mapsto> n)\<rparr>"
    using run ty by (auto simp: graph_apply_def apply_insert_node_def graph_node_def patched_def node_value_def
        split: sum.splits if_splits)
  have "snd (snd (graph_apply rb g1)) = snd (graph_remove_node ?x g1)"
    using n by (simp add: graph_apply_def undo_patch_def apply_remove_node_def)
  moreover have "edges_from (snd (graph_remove_node ?x g1)) = edges_from g"
  proof
    fix m
    have "drop_edges_to ?x (edges_from g m) = edges_from g m"
      using no_edge_absent [OF wf n(3), of m] by (simp add: drop_edges_id no_edge_def)
    then show "edges_from (snd (graph_remove_node ?x g1)) m = edges_from g m"
      using edges_from_absent [OF wf n(3)] n(2,5) by (simp add: edges_from_removed) (simp add: edges_from_def)
  qed
  ultimately show ?thesis
    using n(2,3,5) by (auto simp: graph_same_def removed_frame) (auto simp: graph_remove_node_def fun_upd_idem)
qed

lemma remove_rollback:
  assumes ty: "pt_type p = PatchRemoveNode" and run: "graph_apply p g = (Some rb, None, g1)"
  shows "graph_same (snd (snd (graph_apply rb g1))) g \<longleftrightarrow>
    ng_start g \<noteq> pt_target p \<and> edges_from g (pt_target p) = [] \<and> (\<forall>source. no_edge g source (pt_target p))"
proof -
  let ?x = "pt_target p"
  obtain old where old: "ng_nodes g ?x = Some old" "?x \<noteq> ''''" "g1 = snd (graph_remove_node ?x g)"
      "rb = undo_patch PatchInsertNode ?x (PvNode old) ''rollback: re-insert removed node''"
    using run ty by (auto simp: graph_apply_def apply_remove_node_def graph_remove_node_def patched_def split: option.splits if_splits)
  have g2: "snd (snd (graph_apply rb g1)) = g1\<lparr>ng_nodes := (ng_nodes g1)(?x \<mapsto> old)\<rparr>"
    using old by (simp add: graph_apply_def undo_patch_def apply_insert_node_def patched_node_def graph_node_def graph_remove_node_def)
  have nodes: "(ng_nodes g1)(?x \<mapsto> old) = ng_nodes g" using old by (auto simp: graph_remove_node_def)
  have start: "ng_start g1 = ng_start g \<longleftrightarrow> ng_start g \<noteq> ?x" using old by (auto simp: graph_remove_node_def)
  have "edges_from (g1\<lparr>ng_nodes := (ng_nodes g1)(?x \<mapsto> old)\<rparr>) = edges_from g1" by (simp add: edges_from_def fun_eq_iff)
  moreover have "edges_from g1 = edges_from g \<longleftrightarrow> edges_from g ?x = [] \<and> (\<forall>source. no_edge g source ?x)"
    unfolding old(3) fun_eq_iff edges_from_removed [OF old(2)] by (auto simp: drop_edges_id no_edge_def split: if_splits)
  ultimately show ?thesis
    unfolding g2 graph_same_def using nodes start by (auto simp: old(3) removed_frame)
qed

lemma add_edge_rollback:
  assumes ty: "pt_type p = PatchAddEdge" and run: "graph_apply p g = (Some rb, None, g1)" and v: "pt_value p = PvString to"
  shows "graph_same (snd (snd (graph_apply rb g1))) g \<longleftrightarrow> no_edge g (pt_target p) to"
proof -
  let ?x = "pt_target p" and ?e = "\<lparr>gx_from = pt_target p, gx_to = to, gx_cond = None :: 'b option\<rparr>"
  have ok: "?x \<noteq> ''''" "to \<noteq> ''''" "g1 = snd (graph_edge ?x to None g)"
      "rb = undo_patch PatchRemoveEdge ?x (PvString to) ''rollback: remove added edge''"
    using run ty v by (auto simp: graph_apply_def apply_add_edge_def graph_edge_def patched_def split: if_splits)
  have g2: "snd (snd (graph_apply rb g1)) = snd (graph_remove_edge ?x to g1)"
    using ok(4) by (simp add: graph_apply_def undo_patch_def apply_remove_edge_def)
  have frame: "ng_id g1 = ng_id g" "ng_nodes g1 = ng_nodes g" "ng_start g1 = ng_start g" "ng_scheduler g1 = ng_scheduler g"
    unfolding ok(3) by (auto simp: graph_edge_def)
  have "drop_edges_to to (edges_from g1 m) = drop_edges_to to (edges_from g m) \<and> (m \<noteq> ?x \<longrightarrow> edges_from g1 m = edges_from g m)" for m
    unfolding ok(3) by (auto simp: graph_edge_def edges_from_def drop_edges_to_def)
  then have "edges_from (snd (graph_remove_edge ?x to g1)) = edges_from g \<longleftrightarrow> drop_edges_to to (edges_from g ?x) = edges_from g ?x"
    unfolding fun_eq_iff edges_from_remove_edge [OF ok(1,2)] by (auto split: if_splits)
  then show ?thesis
    unfolding g2 graph_same_def by (auto simp: removed_frame frame drop_edges_id no_edge_def)
qed

lemma remove_edge_rollback:
  assumes wf: "graph_wf g" and ty: "pt_type p = PatchRemoveEdge" and run: "graph_apply p g = (Some rb, None, g1)"
    and v: "pt_value p = PvString to"
  shows "graph_same (snd (snd (graph_apply rb g1))) g \<longleftrightarrow>
    ng_nodes g (pt_target p) = None \<or> ng_nodes g to = None
    \<or> edges_from g (pt_target p) = drop_edges_to to (edges_from g (pt_target p)) @ [\<lparr>gx_from = pt_target p, gx_to = to, gx_cond = None\<rparr>]"
proof -
  let ?x = "pt_target p"
  have ok: "?x \<noteq> ''''" "to \<noteq> ''''" "g1 = snd (graph_remove_edge ?x to g)"
      "rb = undo_patch PatchAddEdge ?x (PvString to) ''rollback: re-add removed edge''"
    using run ty v by (auto simp: graph_apply_def apply_remove_edge_def graph_remove_edge_def patched_def split: if_splits option.splits)
  have g2: "snd (snd (graph_apply rb g1)) = snd (graph_edge ?x to None g1)"
    using ok(4) by (simp add: graph_apply_def undo_patch_def apply_add_edge_def)
  have e1: "edges_from g1 m = (if m = ?x then drop_edges_to to (edges_from g m) else edges_from g m)" for m
    unfolding ok(3) by (rule edges_from_remove_edge [OF ok(1,2)])
  show ?thesis
  proof (cases "ng_nodes g ?x = None \<or> ng_nodes g to = None")
    case True
    then have "drop_edges_to to (edges_from g ?x) = edges_from g ?x"
      using edges_from_absent [OF wf] no_edge_absent [OF wf] by (fastforce simp: drop_edges_id no_edge_def)
    then have "edges_from g1 = edges_from g" by (auto simp: e1)
    moreover have "snd (graph_edge ?x to None g1) = g1" using True ok by (auto simp: graph_edge_def removed_frame)
    ultimately show ?thesis using True ok(3) unfolding g2 graph_same_def by (auto simp: removed_frame)
  next
    case False
    have "\<not> duplicate_edge to (None :: 'b option) (edges_from g1 ?x)" by (auto simp: e1 duplicate_edge_def)
    then have "edges_from (snd (graph_edge ?x to None g1)) m =
        (if m = ?x then drop_edges_to to (edges_from g m) @ [\<lparr>gx_from = ?x, gx_to = to, gx_cond = None\<rparr>] else edges_from g m)" for m
      using False e1 [of m] by (subst edges_from_add) (auto simp: ok removed_frame)
    then have "edges_from (snd (graph_edge ?x to None g1)) = edges_from g \<longleftrightarrow>
        edges_from g ?x = drop_edges_to to (edges_from g ?x) @ [\<lparr>gx_from = ?x, gx_to = to, gx_cond = None\<rparr>]"
      unfolding fun_eq_iff by (auto split: if_splits)
    moreover have "ng_id (snd (graph_edge ?x to None g1)) = ng_id g" "ng_nodes (snd (graph_edge ?x to None g1)) = ng_nodes g"
        "ng_start (snd (graph_edge ?x to None g1)) = ng_start g" "ng_scheduler (snd (graph_edge ?x to None g1)) = ng_scheduler g"
      unfolding ok(3) by (auto simp: graph_edge_def removed_frame)
    ultimately show ?thesis using False unfolding g2 graph_same_def by auto
  qed
qed

text \<open>C31: When a graph patch can be undone. For a graph that keeps its invariant, which every patch preserves, the
  rollback patch of an accepted patch puts the graph back exactly if: an inserted node was not already
  named as the start; a removed node was not the start and had no edges; an added edge joins nodes no edge
  joined before; and a removed edge was the only one between its nodes, unconditional, and the last of its source (or an end is not a
  node). Replacing a node or the scheduler is always undone.\<close>

theorem graph_rollback_exact:
  assumes "graph_wf g" "graph_apply p g = (Some rb, None, g1)"
  shows "graph_wf g1 \<and> (graph_same (snd (snd (graph_apply rb g1))) g \<longleftrightarrow> reversible p g)"
proof
  show "graph_wf g1" using graph_apply_wf [OF assms(1), of p] assms(2) by simp
  show "graph_same (snd (snd (graph_apply rb g1))) g \<longleftrightarrow> reversible p g"
  proof (cases "pt_type p")
    case PatchReplaceNode
    then show ?thesis using assms(2)
      by (auto simp: graph_apply_def apply_replace_node_def undo_patch_def patched_node_def graph_same_def reversible_def
          edges_from_def fun_eq_iff split: option.splits sum.splits)
  next
    case PatchChangeScheduler
    then show ?thesis using assms(2)
      by (auto simp: graph_apply_def apply_change_scheduler_def undo_patch_def graph_set_scheduler_def patched_def graph_same_def
          reversible_def edges_from_def fun_eq_iff split: patch_value.splits)
  next
    case PatchAddEdge
    then obtain to where "pt_value p = PvString to"
      using assms(2) by (auto simp: graph_apply_def apply_add_edge_def split: patch_value.splits)
    then show ?thesis using add_edge_rollback [OF PatchAddEdge assms(2)] PatchAddEdge by (simp add: reversible_def Let_def)
  next
    case PatchRemoveEdge
    then obtain to where "pt_value p = PvString to"
      using assms(2) by (auto simp: graph_apply_def apply_remove_edge_def split: patch_value.splits)
    then show ?thesis using remove_edge_rollback [OF assms(1) PatchRemoveEdge assms(2)] PatchRemoveEdge by (simp add: reversible_def Let_def)
  next
    case PatchInsertNode
    then show ?thesis using insert_rollback [OF assms(1) _ assms(2)] by (simp add: reversible_def Let_def)
  next
    case PatchRemoveNode
    then show ?thesis using remove_rollback [OF _ assms(2)] by (simp add: reversible_def Let_def)
  qed (use assms(2) in \<open>simp_all add: graph_apply_def\<close>)
qed

text \<open>Witnesses: the graph \<open>a \<rightarrow> b\<close>, started at \<open>a\<close>.\<close>

definition sample_graph :: "(nat, nat, nat) node_graph" where
  "sample_graph = \<lparr>ng_id = ''g'', ng_nodes = [''a'' \<mapsto> RealNode 1, ''b'' \<mapsto> RealNode 2],
     ng_edges = [''a'' \<mapsto> [\<lparr>gx_from = ''a'', gx_to = ''b'', gx_cond = None\<rparr>]], ng_start = ''a'', ng_scheduler = 0\<rparr>"

definition remove_b :: "(nat, nat) patch_value runtime_patch" where
  "remove_b = RuntimePatch ''p'' PatchRemoveNode ''b'' PvNil '''' '''' None"

lemma sample_graph_wf: "graph_wf sample_graph"
  by (auto simp: graph_wf_def sample_graph_def plain_edges_def split: if_splits)

theorem graph_rollback_exact_witness:
  "\<exists>rb g1. graph_apply remove_b sample_graph = (Some rb, None, g1) \<and> \<not> graph_same (snd (snd (graph_apply rb g1))) sample_graph"
proof -
  obtain rb g1 where run: "graph_apply remove_b sample_graph = (Some rb, None, g1)"
    by (simp add: graph_apply_def remove_b_def sample_graph_def apply_remove_node_def graph_remove_node_def patched_def)
  have "\<not> reversible remove_b sample_graph"
    by (auto simp: reversible_def remove_b_def sample_graph_def no_edge_def edges_from_def)
  then show ?thesis using graph_rollback_exact [OF sample_graph_wf run] run by blast
qed

end
