(* ===== verification/Patch_Differ.thy ===== *)
theory Patch_Differ
  imports Recovery_Patch Workflow_Dag
begin

text \<open>
  Package \<open>internal/evolution/diff\<close>: what patches turn an old snapshot into a new one. The registry of
  differs (\<open>diff.go\<close>), the differs of workflow graphs, of recovery policies, of the knowledge and of the memory
  configuration. A \<open>range\<close> over a map takes its order as an argument.
\<close>

section \<open>The registry of differs\<close>

datatype 'e diff_error = ErrDifferNil | ErrDifferUnnamed | ErrDifferRegistered | ErrNoDiffer | ErrDiffer 'e

type_synonym 'd differ_registry = "string \<rightharpoonup> 'd"

definition register_differ ::
  "('d \<Rightarrow> string) \<Rightarrow> 'd option \<Rightarrow> 'd differ_registry \<Rightarrow> ('e diff_error, unit, 'd differ_registry) outcome" where
  "register_differ name differ r =
     (case differ of
        None \<Rightarrow> (Inl ErrDifferNil, r)
      | Some d \<Rightarrow>
          if name d = '''' then (Inl ErrDifferUnnamed, r)
          else if r (name d) \<noteq> None then (Inl ErrDifferRegistered, r)
          else (Inr (), r(name d \<mapsto> d)))"

definition get_differ :: "string \<Rightarrow> 'd differ_registry \<Rightarrow> 'e diff_error + 'd" where
  "get_differ name r = (case r name of None \<Rightarrow> Inl ErrNoDiffer | Some d \<Rightarrow> Inr d)"

definition list_differs :: "string list \<Rightarrow> 'd differ_registry \<Rightarrow> string list" where
  "list_differs ord r = range_keys r ord"

fun diff_pairs ::
  "('d \<Rightarrow> 's \<Rightarrow> 's \<Rightarrow> 'e + 'p list) \<Rightarrow> 'd differ_registry \<Rightarrow> (string \<rightharpoonup> 's \<times> 's) \<Rightarrow> string list \<Rightarrow> 'e diff_error + 'p list" where
  "diff_pairs run r pairs [] = Inr []"
| "diff_pairs run r pairs (name # names) =
     (case pairs name of
        None \<Rightarrow> diff_pairs run r pairs names
      | Some (old, new) \<Rightarrow>
          (case get_differ name r of
             Inl e \<Rightarrow> Inl e
           | Inr d \<Rightarrow>
               (case run d old new of
                  Inl e \<Rightarrow> Inl (ErrDiffer e)
                | Inr ps \<Rightarrow> (case diff_pairs run r pairs names of Inl e \<Rightarrow> Inl e | Inr qs \<Rightarrow> Inr (ps @ qs)))))"

definition diff_all ::
  "('d \<Rightarrow> 's \<Rightarrow> 's \<Rightarrow> 'e + 'p list) \<Rightarrow> string list \<Rightarrow> 'd differ_registry \<Rightarrow> (string \<rightharpoonup> 's \<times> 's) \<Rightarrow> 'e diff_error + 'p list" where
  "diff_all run ord r pairs = diff_pairs run r pairs (range_keys pairs ord)"

section \<open>Workflow graphs\<close>

text \<open>A patch as a differ makes it: no id, no rollback.\<close>

definition diff_patch :: "patch_type \<Rightarrow> string \<Rightarrow> 'v \<Rightarrow> string \<Rightarrow> string \<Rightarrow> 'v runtime_patch" where
  "diff_patch ty target v reason source = RuntimePatch '''' ty target v reason source None"

definition inserted_nodes :: "string list \<Rightarrow> dag \<Rightarrow> dag \<Rightarrow> ('n, 's) patch_value runtime_patch list" where
  "inserted_nodes ord old new =
     map (\<lambda>n. diff_patch PatchInsertNode n (PvString (n_step (the (d_nodes new n)))) '''' ''diff.workflow'')
       [n \<leftarrow> range_keys (d_nodes new) ord. d_nodes old n = None]"

definition removed_nodes :: "string list \<Rightarrow> dag \<Rightarrow> dag \<Rightarrow> ('n, 's) patch_value runtime_patch list" where
  "removed_nodes ord old new =
     map (\<lambda>n. diff_patch PatchRemoveNode n PvNil '''' ''diff.workflow'')
       [n \<leftarrow> range_keys (d_nodes old) ord. d_nodes new n = None]"

text \<open>The edges of one graph that the other one lacks, source by source, and the patches for them.\<close>

definition edges_beyond :: "string list \<Rightarrow> dag \<Rightarrow> dag \<Rightarrow> (string \<times> string) list" where
  "edges_beyond ord d other =
     concat (map (\<lambda>source. map (Pair source) [to \<leftarrow> targets d source. to \<notin> set (targets other source)])
       (range_keys (d_edges d) ord))"

definition edge_patches :: "patch_type \<Rightarrow> (string \<times> string) list \<Rightarrow> ('n, 's) patch_value runtime_patch list" where
  "edge_patches ty es = map (\<lambda>(source, to). diff_patch ty source (PvString to) '''' ''diff.workflow'') es"

text \<open>\<open>ords\<close> are the orders of the four loops.\<close>

definition workflow_diff ::
  "string list \<times> string list \<times> string list \<times> string list \<Rightarrow> dag \<Rightarrow> dag \<Rightarrow> ('n, 's) patch_value runtime_patch list" where
  "workflow_diff ords old new =
     (case ords of
        (o1, o2, o3, o4) \<Rightarrow>
          inserted_nodes o1 old new @ removed_nodes o2 old new
          @ edge_patches PatchAddEdge (edges_beyond o3 new old)
          @ edge_patches PatchRemoveEdge (edges_beyond o4 old new))"

section \<open>Recovery policies\<close>

text \<open>The reasons of these patches, which print the two values, are left out, here and below.\<close>

definition recovery_diff :: "recovery_policy \<Rightarrow> recovery_policy \<Rightarrow> ('n, 's) patch_value runtime_patch list" where
  "recovery_diff old new =
     (if rp_strategy old \<noteq> rp_strategy new
      then [diff_patch PatchChangeRecoveryStrategy ''recovery.strategy'' (PvString (rp_strategy new)) '''' ''diff.recovery'']
      else [])
     @ (if rp_max_attempts old \<noteq> rp_max_attempts new
        then [diff_patch PatchChangeMaxRetries ''recovery.max_attempts'' (PvInt (rp_max_attempts new)) '''' ''diff.recovery'']
        else [])
     @ (if rp_replacement old \<noteq> rp_replacement new
        then [diff_patch PatchChangeRecoveryStrategy ''recovery.replacement_agent'' (PvString (rp_replacement new)) '''' ''diff.recovery'']
        else [])"

section \<open>Knowledge and memory configurations\<close>

record knowledge_config =
  kc_max_results :: int
  kc_reducer :: string
  kc_planner :: string
  kc_summarizer :: string

definition changed :: "'v \<Rightarrow> 'v \<Rightarrow> 'p \<Rightarrow> 'p list" where
  "changed old new p = (if old \<noteq> new then [p] else [])"

definition knowledge_diff :: "knowledge_config \<Rightarrow> knowledge_config \<Rightarrow> goval runtime_patch list" where
  "knowledge_diff old new =
     changed (kc_max_results old) (kc_max_results new)
       (diff_patch PatchChangeBudget ''knowledge.planner.max_results'' (GInt (kc_max_results new)) '''' ''diff.knowledge'')
     @ changed (kc_reducer old) (kc_reducer new)
       (diff_patch PatchChangeReducer ''knowledge.planner.reducer'' (GStr (kc_reducer new)) '''' ''diff.knowledge'')
     @ changed (kc_planner old) (kc_planner new)
       (diff_patch PatchChangePlanner ''knowledge.planner.strategy'' (GStr (kc_planner new)) '''' ''diff.knowledge'')
     @ changed (kc_summarizer old) (kc_summarizer new)
       (diff_patch PatchChangePlanner ''knowledge.planner.summarizer'' (GStr (kc_summarizer new)) '''' ''diff.knowledge'')"

record memory_config =
  mc_max_history :: int
  mc_max_sessions :: int
  mc_max_distilled :: int
  mc_structured :: bool

definition memory_diff :: "memory_config \<Rightarrow> memory_config \<Rightarrow> goval runtime_patch list" where
  "memory_diff old new =
     changed (mc_max_history old, mc_max_sessions old) (mc_max_history new, mc_max_sessions new)
       (diff_patch PatchChangePlanner ''memory''
          (GMap (changed (mc_max_history old) (mc_max_history new) (''max_history'', GInt (mc_max_history new))
               @ changed (mc_max_sessions old) (mc_max_sessions new) (''max_sessions'', GInt (mc_max_sessions new))))
          '''' ''diff.memory'')
     @ changed (mc_max_distilled old) (mc_max_distilled new)
       (diff_patch PatchChangeBudget ''memory'' (GMap [(''max_distilled_tasks'', GInt (mc_max_distilled new))]) '''' ''diff.memory'')
     @ changed (mc_structured old) (mc_structured new)
       (diff_patch PatchChangeReducer ''memory'' (GMap [(''use_structured_cleaning'', GBool (mc_structured new))]) '''' ''diff.memory'')"

end
