(* ===== verification/Patch_Diff_Props.thy ===== *)
theory Patch_Diff_Props
  imports Patch_Differ Patch_Props
begin

text \<open>
  The patches of a workflow diff, applied in their order, turn a graph that shows the old workflow into one
  that shows the new one; what a changed replacement agent does to the recovery strategy; and what a set of
  patches that fails leaves behind.
\<close>

section \<open>What a graph shows\<close>

definition node_ids :: "('n, 'c, 's) node_graph \<Rightarrow> string set" where
  "node_ids g = dom (ng_nodes g)"

definition successors :: "('n, 'c, 's) node_graph \<Rightarrow> string \<Rightarrow> string set" where
  "successors g n = gx_to ` set (edges_from g n)"

definition graph_shows :: "dag \<Rightarrow> ('n, 'c, 's) node_graph \<Rightarrow> bool" where
  "graph_shows d g \<longleftrightarrow> node_ids g = dom (d_nodes d) \<and> (\<forall>n. successors g n = set (targets d n))"

text \<open>The edges of a workflow join its nodes, which have names.\<close>

definition dag_closed :: "dag \<Rightarrow> bool" where
  "dag_closed d \<longleftrightarrow> '''' \<notin> dom (d_nodes d)
     \<and> (\<forall>n. targets d n \<noteq> [] \<longrightarrow> n \<in> dom (d_nodes d) \<and> set (targets d n) \<subseteq> dom (d_nodes d))"

text \<open>Patches one after the other; \<open>None\<close> when one is refused.\<close>

fun graph_apply_all ::
  "('n, 's) patch_value runtime_patch list \<Rightarrow> ('n, 'c, 's) node_graph \<Rightarrow> ('n, 'c, 's) node_graph option" where
  "graph_apply_all [] g = Some g"
| "graph_apply_all (p # ps) g =
     (case graph_apply p g of (_, None, g1) \<Rightarrow> graph_apply_all ps g1 | (_, Some e, g1) \<Rightarrow> None)"

lemma graph_apply_all_append:
  "graph_apply_all (ps @ qs) g = (case graph_apply_all ps g of None \<Rightarrow> None | Some g1 \<Rightarrow> graph_apply_all qs g1)"
  by (induction ps arbitrary: g) (auto split: option.split prod.split)

section \<open>The four kinds of patches of a diff\<close>

lemma insert_effect:
  assumes "x \<noteq> ''''" "x \<notin> node_ids g" "pt_type p = PatchInsertNode" "pt_target p = x" "pt_value p = PvString s"
  obtains rb g1 where "graph_apply p g = (rb, None, g1)" "node_ids g1 = insert x (node_ids g)" "successors g1 = successors g"
proof -
  let ?g = "g\<lparr>ng_nodes := (ng_nodes g)(x \<mapsto> PlaceholderNode x)\<rparr>"
  have "graph_apply p g = (Some (undo_patch PatchRemoveNode x PvNil ''rollback: remove inserted node''), None, ?g)"
    using assms by (simp add: graph_apply_def apply_insert_node_def patched_node_def graph_node_def patched_def node_value_def
        node_ids_def domIff)
  then show ?thesis by (rule that) (auto simp: node_ids_def successors_def edges_from_def fun_eq_iff)
qed

lemma remove_effect:
  assumes "x \<noteq> ''''" "x \<in> node_ids g" "pt_type p = PatchRemoveNode" "pt_target p = x"
  obtains rb g1 where "graph_apply p g = (rb, None, g1)" "node_ids g1 = node_ids g - {x}"
    "successors g1 = (\<lambda>n. if n = x then {} else successors g n - {x})"
proof -
  obtain old where old: "ng_nodes g x = Some old" using assms(2) by (auto simp: node_ids_def)
  let ?g = "snd (graph_remove_node x g)"
  have "graph_apply p g = (Some (undo_patch PatchInsertNode x (PvNode old) ''rollback: re-insert removed node''), None, ?g)"
    using assms old by (simp add: graph_apply_def apply_remove_node_def graph_remove_node_def patched_def)
  then show ?thesis
  proof (rule that)
    show "node_ids ?g = node_ids g - {x}" using assms(1) by (auto simp: graph_remove_node_def node_ids_def)
    show "successors ?g = (\<lambda>n. if n = x then {} else successors g n - {x})"
      using edges_from_removed [OF assms(1), of g] by (auto simp: successors_def fun_eq_iff)
  qed
qed

lemma add_edge_effect:
  assumes "x \<noteq> ''''" "to \<noteq> ''''" "x \<in> node_ids g" "to \<in> node_ids g"
    and "pt_type p = PatchAddEdge" "pt_target p = x" "pt_value p = PvString to"
  obtains rb g1 where "graph_apply p g = (rb, None, g1)" "node_ids g1 = node_ids g"
    "successors g1 = (\<lambda>n. if n = x then insert to (successors g n) else successors g n)"
proof -
  let ?g = "snd (graph_edge x to None g)"
  have "fst (graph_edge x to None g) = Inr ()"
    using assms by (auto simp: graph_edge_def node_ids_def domIff)
  then have "graph_apply p g = (Some (undo_patch PatchRemoveEdge x (PvString to) ''rollback: remove added edge''), None, ?g)"
    using assms by (cases "graph_edge x to None g") (simp add: graph_apply_def apply_add_edge_def patched_def)
  then show ?thesis
  proof (rule that)
    show "node_ids ?g = node_ids g" by (auto simp: graph_edge_def node_ids_def)
    show "successors ?g = (\<lambda>n. if n = x then insert to (successors g n) else successors g n)"
    proof (cases "duplicate_edge to (None :: 'b option) (edges_from g x)")
      case True
      then have "to \<in> successors g x" "?g = g" by (auto simp: duplicate_edge_def successors_def graph_edge_def)
      then show ?thesis by (simp add: fun_eq_iff insert_absorb)
    next
      case False
      then show ?thesis using edges_from_add [OF assms(1,2) _ _ False] assms(3,4)
        by (auto simp: successors_def node_ids_def fun_eq_iff)
    qed
  qed
qed

lemma remove_edge_effect:
  assumes "x \<noteq> ''''" "to \<noteq> ''''" "pt_type p = PatchRemoveEdge" "pt_target p = x" "pt_value p = PvString to"
  obtains rb g1 where "graph_apply p g = (rb, None, g1)" "node_ids g1 = node_ids g"
    "successors g1 = (\<lambda>n. if n = x then successors g n - {to} else successors g n)"
proof -
  let ?g = "snd (graph_remove_edge x to g)"
  have "fst (graph_remove_edge x to g) = Inr ()"
    using assms by (auto simp: graph_remove_edge_def split: option.split)
  then have "graph_apply p g = (Some (undo_patch PatchAddEdge x (PvString to) ''rollback: re-add removed edge''), None, ?g)"
    using assms by (cases "graph_remove_edge x to g") (simp add: graph_apply_def apply_remove_edge_def patched_def)
  then show ?thesis
    by (rule that) (use edges_from_remove_edge [OF assms(1,2), of g] in
        \<open>auto simp: removed_frame node_ids_def successors_def fun_eq_iff\<close>)
qed

section \<open>The four phases\<close>

lemma apply_inserts:
  assumes "distinct xs" "set xs \<inter> node_ids g = {}" "'''' \<notin> set xs"
  shows "\<exists>g1. graph_apply_all (map (\<lambda>n. diff_patch PatchInsertNode n (PvString (f n)) r src) xs) g = Some g1
    \<and> node_ids g1 = node_ids g \<union> set xs \<and> successors g1 = successors g"
  using assms
proof (induction xs arbitrary: g)
  case (Cons x xs)
  have x: "x \<noteq> ''''" "x \<notin> node_ids g" using Cons.prems by auto
  obtain rb g1 where g1: "graph_apply (diff_patch PatchInsertNode x (PvString (f x)) r src) g = (rb, None, g1)"
      "node_ids g1 = insert x (node_ids g)" "successors g1 = successors g"
    using insert_effect [OF x, of "diff_patch PatchInsertNode x (PvString (f x)) r src"] by (auto simp: diff_patch_def)
  have "distinct xs" "set xs \<inter> node_ids g1 = {}" "'''' \<notin> set xs" using Cons.prems g1(2) by auto
  from Cons.IH [OF this] show ?case using g1 by auto
qed auto

lemma apply_removes:
  assumes "distinct xs" "set xs \<subseteq> node_ids g" "'''' \<notin> set xs"
  shows "\<exists>g1. graph_apply_all (map (\<lambda>n. diff_patch PatchRemoveNode n v r src) xs) g = Some g1
    \<and> node_ids g1 = node_ids g - set xs \<and> successors g1 = (\<lambda>n. if n \<in> set xs then {} else successors g n - set xs)"
  using assms
proof (induction xs arbitrary: g)
  case (Cons x xs)
  have x: "x \<noteq> ''''" "x \<in> node_ids g" using Cons.prems by auto
  obtain rb g1 where g1: "graph_apply (diff_patch PatchRemoveNode x v r src) g = (rb, None, g1)"
      "node_ids g1 = node_ids g - {x}" "successors g1 = (\<lambda>n. if n = x then {} else successors g n - {x})"
    using remove_effect [OF x, of "diff_patch PatchRemoveNode x v r src"] by (auto simp: diff_patch_def)
  have "distinct xs" "set xs \<subseteq> node_ids g1" "'''' \<notin> set xs" using Cons.prems g1(2) by auto
  from Cons.IH [OF this] obtain g2 where "graph_apply_all (map (\<lambda>n. diff_patch PatchRemoveNode n v r src) xs) g1 = Some g2"
      "node_ids g2 = node_ids g1 - set xs" "successors g2 = (\<lambda>n. if n \<in> set xs then {} else successors g1 n - set xs)" by blast
  then show ?case using g1 by (auto simp: fun_eq_iff)
qed auto

lemma apply_add_edges:
  assumes "fst ` set es \<subseteq> node_ids g" "snd ` set es \<subseteq> node_ids g" "'''' \<notin> node_ids g"
  shows "\<exists>g1. graph_apply_all (edge_patches PatchAddEdge es) g = Some g1
    \<and> node_ids g1 = node_ids g \<and> successors g1 = (\<lambda>n. successors g n \<union> {to. (n, to) \<in> set es})"
  using assms
proof (induction es arbitrary: g)
  case (Cons e es)
  obtain x to where e: "e = (x, to)" by fastforce
  have x: "x \<noteq> ''''" "to \<noteq> ''''" "x \<in> node_ids g" "to \<in> node_ids g" using Cons.prems e by auto
  obtain rb g1 where g1: "graph_apply (diff_patch PatchAddEdge x (PvString to) '''' ''diff.workflow'') g = (rb, None, g1)"
      "node_ids g1 = node_ids g" "successors g1 = (\<lambda>n. if n = x then insert to (successors g n) else successors g n)"
    using add_edge_effect [OF x, of "diff_patch PatchAddEdge x (PvString to) '''' ''diff.workflow''"] by (auto simp: diff_patch_def)
  have "fst ` set es \<subseteq> node_ids g1" "snd ` set es \<subseteq> node_ids g1" "'''' \<notin> node_ids g1" using Cons.prems g1(2) by auto
  from Cons.IH [OF this] obtain g2 where "graph_apply_all (edge_patches PatchAddEdge es) g1 = Some g2"
      "node_ids g2 = node_ids g1" "successors g2 = (\<lambda>n. successors g1 n \<union> {to. (n, to) \<in> set es})" by blast
  then show ?case using g1 e by (auto simp: edge_patches_def fun_eq_iff)
qed (auto simp: edge_patches_def)

lemma apply_remove_edges:
  assumes "'''' \<notin> fst ` set es" "'''' \<notin> snd ` set es"
  shows "\<exists>g1. graph_apply_all (edge_patches PatchRemoveEdge es) g = Some g1
    \<and> node_ids g1 = node_ids g \<and> successors g1 = (\<lambda>n. successors g n - {to. (n, to) \<in> set es})"
  using assms
proof (induction es arbitrary: g)
  case (Cons e es)
  obtain x to where e: "e = (x, to)" by fastforce
  have x: "x \<noteq> ''''" "to \<noteq> ''''" using Cons.prems e by auto
  obtain rb g1 where g1: "graph_apply (diff_patch PatchRemoveEdge x (PvString to) '''' ''diff.workflow'') g = (rb, None, g1)"
      "node_ids g1 = node_ids g" "successors g1 = (\<lambda>n. if n = x then successors g n - {to} else successors g n)"
    using remove_edge_effect [OF x, of "diff_patch PatchRemoveEdge x (PvString to) '''' ''diff.workflow''"]
    by (auto simp: diff_patch_def)
  have "'''' \<notin> fst ` set es" "'''' \<notin> snd ` set es" using Cons.prems by auto
  from Cons.IH [OF this] obtain g2 where "graph_apply_all (edge_patches PatchRemoveEdge es) g1 = Some g2"
      "node_ids g2 = node_ids g1" "successors g2 = (\<lambda>n. successors g1 n - {to. (n, to) \<in> set es})" by blast
  then show ?case using g1 e by (auto simp: edge_patches_def fun_eq_iff)
qed (auto simp: edge_patches_def)

section \<open>A workflow diff leads from the old graph to the new one\<close>

lemma set_edges_beyond:
  assumes "range_order (d_edges d) ord"
  shows "set (edges_beyond ord d other) = {(n, to). to \<in> set (targets d n) \<and> to \<notin> set (targets other n)}"
proof -
  have "targets d n = []" if "d_edges d n = None" for n using that by (simp add: targets_def)
  then show ?thesis
    using assms unfolding edges_beyond_def range_order_keys [OF assms] by (fastforce simp: range_order_def)
qed

text \<open>C32: Applying a diff reaches the new graph. Let a runtime graph show an old workflow: the same nodes, and an edge
  where the workflow has one. Then all patches the differ makes of the old and a new workflow are
  accepted in the order it lists them, whatever orders the maps are visited in, and the graph then
  shows the new workflow.\<close>

theorem diff_reaches_new_graph:
  assumes "graph_shows old g" "dag_closed old" "dag_closed new"
    and "range_order (d_nodes new) o1" "range_order (d_nodes old) o2" "range_order (d_edges new) o3" "range_order (d_edges old) o4"
  shows "\<exists>g1. graph_apply_all (workflow_diff (o1, o2, o3, o4) old new) g = Some g1 \<and> graph_shows new g1"
proof -
  define xs where "xs = [n \<leftarrow> range_keys (d_nodes new) o1. d_nodes old n = None]"
  define ys where "ys = [n \<leftarrow> range_keys (d_nodes old) o2. d_nodes new n = None]"
  have xs: "distinct xs" "set xs = dom (d_nodes new) - dom (d_nodes old)"
    using assms(4) by (auto simp: xs_def range_order_keys range_order_def)
  have ys: "distinct ys" "set ys = dom (d_nodes old) - dom (d_nodes new)"
    using assms(5) by (auto simp: ys_def range_order_keys range_order_def)
  have shows_old: "node_ids g = dom (d_nodes old)" "\<And>n. successors g n = set (targets old n)"
    using assms(1) by (auto simp: graph_shows_def)
  have unnamed: "'''' \<notin> dom (d_nodes old)" "'''' \<notin> dom (d_nodes new)" using assms(2,3) by (auto simp: dag_closed_def)
  have ends: "n \<in> dom (d_nodes d) \<and> to \<in> dom (d_nodes d)" if "to \<in> set (targets d n)" "dag_closed d" for d n to
  proof -
    have "targets d n \<noteq> []" using that(1) by auto
    then show ?thesis using that unfolding dag_closed_def by blast
  qed
  have "set xs \<inter> node_ids g = {}" "'''' \<notin> set xs" using xs(2) shows_old(1) unnamed by auto
  from apply_inserts [OF xs(1) this, of "\<lambda>n. n_step (the (d_nodes new n))" "''''" "''diff.workflow''"]
  obtain g1 where g1: "graph_apply_all (inserted_nodes o1 old new) g = Some g1" "node_ids g1 = node_ids g \<union> set xs"
      "successors g1 = successors g"
    unfolding inserted_nodes_def xs_def [symmetric] by blast
  have "set ys \<subseteq> node_ids g1" "'''' \<notin> set ys" using ys(2) shows_old(1) g1(2) unnamed by auto
  from apply_removes [OF ys(1) this, of PvNil "''''" "''diff.workflow''"]
  obtain g2 where g2: "graph_apply_all (removed_nodes o2 old new) g1 = Some g2" "node_ids g2 = node_ids g1 - set ys"
      "successors g2 = (\<lambda>n. if n \<in> set ys then {} else successors g1 n - set ys)"
    unfolding removed_nodes_def ys_def [symmetric] by blast
  have n2: "node_ids g2 = dom (d_nodes new)" using g1(2) g2(2) shows_old(1) xs(2) ys(2) by auto
  let ?add = "edges_beyond o3 new old" and ?del = "edges_beyond o4 old new"
  have add: "set ?add = {(n, to). to \<in> set (targets new n) \<and> to \<notin> set (targets old n)}"
    and del: "set ?del = {(n, to). to \<in> set (targets old n) \<and> to \<notin> set (targets new n)}"
    by (rule set_edges_beyond; fact)+
  have in_add: "n \<in> dom (d_nodes new) \<and> to \<in> dom (d_nodes new)" if "(n, to) \<in> set ?add" for n to
    using that add ends [OF _ assms(3)] by blast
  have in_del: "n \<in> dom (d_nodes old) \<and> to \<in> dom (d_nodes old)" if "(n, to) \<in> set ?del" for n to
    using that del ends [OF _ assms(2)] by blast
  have "fst ` set ?add \<subseteq> node_ids g2" "snd ` set ?add \<subseteq> node_ids g2" "'''' \<notin> node_ids g2"
    unfolding n2 using unnamed(2) by (auto dest: in_add)
  from apply_add_edges [OF this] obtain g3 where g3: "graph_apply_all (edge_patches PatchAddEdge ?add) g2 = Some g3"
      "node_ids g3 = node_ids g2" "successors g3 = (\<lambda>n. successors g2 n \<union> {to. (n, to) \<in> set ?add})" by blast
  have "'''' \<notin> fst ` set ?del" "'''' \<notin> snd ` set ?del"
    using unnamed(1) by (auto dest: in_del)
  from apply_remove_edges [OF this] obtain g4 where g4: "graph_apply_all (edge_patches PatchRemoveEdge ?del) g3 = Some g4"
      "node_ids g4 = node_ids g3" "successors g4 = (\<lambda>n. successors g3 n - {to. (n, to) \<in> set ?del})" by blast
  have "successors g4 n = set (targets new n)" for n
    unfolding g4(3) g3(3) g2(3) g1(3) shows_old(2) add del ys(2) using ends [OF _ assms(3)] by auto
  then have "graph_shows new g4" using n2 g3(2) g4(2) by (simp add: graph_shows_def)
  moreover have "graph_apply_all (workflow_diff (o1, o2, o3, o4) old new) g = Some g4"
    using g1(1) g2(1) g3(1) g4(1) by (simp add: workflow_diff_def graph_apply_all_append)
  ultimately show ?thesis by blast
qed

definition old_flow :: dag where
  "old_flow = \<lparr>d_nodes = [''a'' \<mapsto> \<lparr>n_step = ''a'', n_in = 0, n_out = 1\<rparr>, ''b'' \<mapsto> \<lparr>n_step = ''b'', n_in = 1, n_out = 0\<rparr>],
     d_edges = [''a'' \<mapsto> [''b'']]\<rparr>"

definition new_flow :: dag where
  "new_flow = \<lparr>d_nodes = [''a'' \<mapsto> \<lparr>n_step = ''a'', n_in = 0, n_out = 1\<rparr>, ''c'' \<mapsto> \<lparr>n_step = ''c'', n_in = 1, n_out = 0\<rparr>],
     d_edges = [''a'' \<mapsto> [''c'']]\<rparr>"

theorem diff_reaches_new_graph_witness:
  "\<exists>g1. graph_apply_all (workflow_diff ([''a'', ''c''], [''b'', ''a''], [''a''], [''a'']) old_flow new_flow) sample_graph = Some g1
     \<and> graph_shows new_flow g1"
proof -
  have "graph_shows old_flow sample_graph"
    by (auto simp: graph_shows_def node_ids_def successors_def edges_from_def targets_def old_flow_def sample_graph_def)
  moreover have "dag_closed old_flow" "dag_closed new_flow"
    by (auto simp: dag_closed_def targets_def old_flow_def new_flow_def)
  ultimately show ?thesis
    by (rule diff_reaches_new_graph) (auto simp: range_order_def old_flow_def new_flow_def)
qed

section \<open>A changed replacement agent\<close>

fun recovery_apply_all ::
  "string list \<Rightarrow> ('n, 's) patch_value runtime_patch list \<Rightarrow> policy_dag \<Rightarrow> policy_dag option" where
  "recovery_apply_all ord [] d = Some d"
| "recovery_apply_all ord (p # ps) d =
     (case recovery_apply ord p d of (_, None, d1) \<Rightarrow> recovery_apply_all ord ps d1 | (_, Some e, d1) \<Rightarrow> None)"

lemma recovery_apply_all_append:
  "recovery_apply_all ord (ps @ qs) d = (case recovery_apply_all ord ps d of None \<Rightarrow> None | Some d1 \<Rightarrow> recovery_apply_all ord qs d1)"
  by (induction ps arbitrary: d) (auto split: option.split prod.split)

lemma change_all_accepted:
  assumes "policy_wf d" "range_order (pd_steps d) ord" "pd_steps d \<noteq> Map.empty"
  shows "\<exists>rb d1. change_all fig mk ty reason ord v d = (Some rb, None, d1) \<and> policy_wf d1 \<and> dom (pd_steps d1) = dom (pd_steps d)"
proof -
  obtain d1 snap where run: "change_steps fig v ord (d, empty_snapshot) = (d1, snap)"
    by (cases "change_steps fig v ord (d, empty_snapshot)") blast
  have ord: "distinct ord" "set ord \<subseteq> dom (pd_steps d)" "range_keys (pd_steps d) ord = ord"
    using assms(2) by (auto simp: range_order_def range_order_keys)
  show ?thesis
    using change_steps_view [OF assms(1) ord(1,2) run] run ord(3) assms(3) by (simp add: change_all_def)
qed

lemma recovery_change_accepted:
  assumes "recovery_change p" "policy_wf d" "range_order (pd_steps d) ord" "pd_steps d \<noteq> Map.empty"
  shows "\<exists>rb d1. recovery_apply ord p d = (Some rb, None, d1) \<and> policy_wf d1 \<and> dom (pd_steps d1) = dom (pd_steps d)"
  using assms(1)
  by (cases rule: recovery_change_cases)
    (simp_all add: recovery_apply_def apply_change_strategy_def apply_change_max_retries_def apply_change_backoff_def
      change_all_accepted [OF assms(2-4)])

lemma recovery_changes_accepted:
  assumes "\<forall>p\<in>set ps. recovery_change p" "policy_wf d" "range_order (pd_steps d) ord" "pd_steps d \<noteq> Map.empty"
  shows "\<exists>d1. recovery_apply_all ord ps d = Some d1 \<and> policy_wf d1 \<and> dom (pd_steps d1) = dom (pd_steps d)"
  using assms
proof (induction ps arbitrary: d)
  case (Cons p ps)
  obtain rb d1 where d1: "recovery_apply ord p d = (Some rb, None, d1)" "policy_wf d1" "dom (pd_steps d1) = dom (pd_steps d)"
    using recovery_change_accepted [OF bspec [OF Cons.prems(1)] Cons.prems(2-4), of p] by auto
  have "range_order (pd_steps d1) ord" "pd_steps d1 \<noteq> Map.empty"
    using Cons.prems(3,4) d1(3) by (auto simp: range_order_def dom_eq_empty_conv [symmetric] simp del: dom_eq_empty_conv)
  then obtain d2 where "recovery_apply_all ord ps d1 = Some d2" "policy_wf d2" "dom (pd_steps d2) = dom (pd_steps d1)"
    using Cons.IH [of d1] Cons.prems(1) d1(2) by auto
  then show ?case using d1 by simp
qed simp

lemma recovery_diff_changes: "\<forall>p\<in>set (recovery_diff old new). recovery_change p"
  by (auto simp: recovery_diff_def recovery_change_def diff_patch_def)

text \<open>C33: A changed replacement agent overwrites the recovery strategy. If two recovery policies differ in their
  replacement agent, the patches the differ makes of them are all accepted by the executor and leave
  the name of the new agent as the strategy of every step, whatever the strategies were; \<open>CanApply\<close>,
  which the registry does not ask, refuses that patch unless the name is one of the three strategies.\<close>

theorem replacement_becomes_strategy:
  assumes "rp_replacement old \<noteq> rp_replacement new" "policy_wf d" "range_order (pd_steps d) ord" "pd_steps d \<noteq> Map.empty"
  shows "(\<exists>d1. recovery_apply_all ord (recovery_diff old new :: ('n, 's) patch_value runtime_patch list) d = Some d1
       \<and> (\<forall>t\<in>dom (pd_steps d). map_option (map_option rp_strategy) (policy_view d1 t) = Some (Some (rp_replacement new))))
    \<and> (recovery_can_apply (last (recovery_diff old new :: ('n, 's) patch_value runtime_patch list)) = None
        \<longleftrightarrow> rp_replacement new \<in> {recovery_retry, recovery_replace_node, recovery_fail_fast})"
proof -
  let ?p = "diff_patch PatchChangeRecoveryStrategy ''recovery.replacement_agent'' (PvString (rp_replacement new)) ''''
    ''diff.recovery'' :: ('n, 's) patch_value runtime_patch"
  obtain ps :: "('n, 's) patch_value runtime_patch list" where ps: "recovery_diff old new = ps @ [?p]"
    using assms(1) by (simp add: recovery_diff_def)
  have "\<forall>q\<in>set (ps @ [?p]). recovery_change q" unfolding ps [symmetric] by (rule recovery_diff_changes)
  then have "\<forall>q\<in>set ps. recovery_change q" by simp
  from recovery_changes_accepted [OF this assms(2-4)]
  obtain d1 where d1: "recovery_apply_all ord ps d = Some d1" "policy_wf d1" "dom (pd_steps d1) = dom (pd_steps d)" by blast
  have ord: "range_order (pd_steps d1) ord" "pd_steps d1 \<noteq> Map.empty"
    using assms(3,4) d1(3) by (auto simp: range_order_def dom_eq_empty_conv [symmetric] simp del: dom_eq_empty_conv)
  have "pt_type ?p = PatchChangeRecoveryStrategy" "pt_value ?p = PvString (rp_replacement new)" by (simp_all add: diff_patch_def)
  from unchecked_strategy [OF d1(2) ord this] obtain rb d2 where "recovery_apply ord ?p d1 = (Some rb, None, d2)"
      "\<forall>t\<in>dom (pd_steps d1). map_option (map_option rp_strategy) (policy_view d2 t) = Some (Some (rp_replacement new))" by blast
  moreover have "recovery_can_apply ?p = None \<longleftrightarrow> rp_replacement new \<in> {recovery_retry, recovery_replace_node, recovery_fail_fast}"
    by (simp add: recovery_can_apply_def diff_patch_def)
  ultimately show ?thesis using d1 by (simp add: ps recovery_apply_all_append)
qed

theorem replacement_becomes_strategy_witness:
  "\<exists>d1. recovery_apply_all [''a'', ''b''] (recovery_diff zero_policy (zero_policy\<lparr>rp_replacement := ''helper''\<rparr>)
       :: (nat, nat) patch_value runtime_patch list) sample_policies = Some d1
     \<and> map_option (map_option rp_strategy) (policy_view d1 ''a'') = Some (Some ''helper'')"
proof -
  have "policy_wf sample_policies" "range_order (pd_steps sample_policies) [''a'', ''b'']" "pd_steps sample_policies \<noteq> Map.empty"
    by (auto simp: policy_wf_def sample_policies_def range_order_def fun_eq_iff split: if_splits)
  from replacement_becomes_strategy [OF _ this, of zero_policy "zero_policy\<lparr>rp_replacement := ''helper''\<rparr>"]
  show ?thesis by (auto simp: zero_policy_def sample_policies_def)
qed

section \<open>A set of patches that fails\<close>

text \<open>The recovery executor, as the registry holds it.\<close>

definition recovery_run :: "string list \<Rightarrow> (unit, ('n, 's) patch_value, recovery_patch_error, policy_dag) patch_run" where
  "recovery_run ord x p d = recovery_apply ord p d"

definition recovery_check :: "(unit, ('n, 's) patch_value, recovery_patch_error, policy_dag) patch_check" where
  "recovery_check x p d = recovery_can_apply p"

text \<open>No executor is ever registered for the empty target.\<close>

lemma empty_target_unregistered:
  "pr_executors new_registry '''' = None"
  "pr_executors (snd (register_patch_executor t ex r)) '''' = pr_executors r ''''"
  "pr_executors (snd (replace_executor t ex r)) '''' = pr_executors r ''''"
  "pr_executors (set_fallback x r) '''' = pr_executors r ''''"
  "pr_executors (mark_applied p r) = pr_executors r" "pr_fallback (mark_applied p r) = pr_fallback r"
  by (auto simp: new_registry_def register_patch_executor_def replace_executor_def set_fallback_def mark_applied_def
      split: option.split)

definition untargeted :: "'v runtime_patch option \<Rightarrow> bool" where
  "untargeted rb \<longleftrightarrow> (case rb of None \<Rightarrow> True | Some q \<Rightarrow> pt_target q = '''')"

lemma roll_back_nothing:
  "pr_executors r '''' = None \<Longrightarrow> \<forall>rb\<in>set rbs. untargeted rb \<Longrightarrow> roll_back_patches run r rbs w = w"
  by (induction run r rbs w rule: roll_back_patches.induct) (auto simp: untargeted_def)

lemma recovery_untargeted: "recovery_apply ord p d = (rb, err, d1) \<Longrightarrow> untargeted rb"
  by (auto simp: recovery_apply_def apply_change_strategy_def apply_change_max_retries_def apply_change_backoff_def
      change_all_def restore_all_def undo_patch_def untargeted_def split: patch_type.splits patch_value.splits if_splits prod.splits)

lemma apply_patches_prefix:
  assumes "apply_patches (recovery_run ord) can ps rbs (r, d) = (Inr (), r1, d1)" "\<forall>rb\<in>set rbs. untargeted rb"
  shows "pr_executors r1 = pr_executors r \<and> pr_fallback r1 = pr_fallback r
    \<and> (\<exists>rbs1. (\<forall>rb\<in>set rbs1. untargeted rb)
         \<and> apply_patches (recovery_run ord) can (ps @ qs) rbs (r, d) = apply_patches (recovery_run ord) can qs rbs1 (r1, d1))"
  using assms
proof (induction ps arbitrary: rbs r d)
  case (Cons p ps)
  obtain rb err d2 where run: "recovery_run ord x p d = (rb, err, d2)" for x
    by (cases "recovery_apply ord p d") (simp add: recovery_run_def)
  have "untargeted rb" using run [of "()"] recovery_untargeted by (simp add: recovery_run_def)
  then have rbs: "\<forall>q\<in>set (rb # rbs). untargeted q" using Cons.prems(2) by simp
  show ?case
  proof (cases "already_applied p r")
    case True
    then show ?thesis using Cons.IH [OF _ Cons.prems(2)] Cons.prems(1) by simp
  next
    case False
    then have step: "err = None" "apply_patches (recovery_run ord) can ps (rb # rbs) (mark_applied p r, d2) = (Inr (), r1, d1)"
        "apply_patches (recovery_run ord) can ((p # ps) @ qs) rbs (r, d) = apply_patches (recovery_run ord) can (ps @ qs) (rb # rbs) (mark_applied p r, d2)"
      using Cons.prems(1) run by (auto split: option.splits)
    from Cons.IH [OF step(2) rbs] show ?thesis unfolding step(3) by (simp add: empty_target_unregistered)
  qed
qed auto

lemma apply_patches_marks:
  "apply_patches run can ps rbs (r, w) = (Inr (), r1, w1) \<Longrightarrow>
    pr_applied r \<subseteq> pr_applied r1 \<and> (\<forall>p\<in>set ps. pt_id p \<noteq> '''' \<longrightarrow> pt_id p \<in> pr_applied r1)"
proof (induction ps arbitrary: rbs r w)
  case (Cons p ps)
  show ?case
  proof (cases "already_applied p r")
    case True
    then show ?thesis using Cons.IH [of rbs r w] Cons.prems by (auto simp: already_applied_def)
  next
    case False
    then obtain rb w2 where "apply_patches run can ps (rb # rbs) (mark_applied p r, w2) = (Inr (), r1, w1)"
      using Cons.prems by (auto split: option.splits prod.splits)
    from Cons.IH [OF this] show ?thesis by (auto simp: mark_applied_def split: if_splits)
  qed
qed simp

lemma apply_patches_skipped:
  "\<forall>p\<in>set ps. already_applied p r \<Longrightarrow> apply_patches run can ps rbs (r, w) = (Inr (), r, w)"
  by (induction ps) auto

text \<open>A set of patches is not atomic. Let all patches of a set but the last be recovery patches that apply, and the last one
  have no executor. The set fails, every change stays in force exactly as if the others had been
  applied alone, none is rolled back, and all are remembered as applied: sending them again does nothing.\<close>

theorem failed_set_keeps_changes:
  assumes "pr_executors r '''' = None" "pr_executors r (pt_target p) = None" "pr_fallback r = None"
    and "apply_set (recovery_run ord) recovery_check ps (r, d) = (Inr (), r1, d1)" "\<forall>q\<in>set ps. pt_id q \<noteq> ''''"
    and "\<not> already_applied p r1"
  shows "apply_set (recovery_run ord) recovery_check (ps @ [p]) (r, d) = (Inl ErrNoExecutor, r1, d1)
    \<and> apply_set (recovery_run ord) recovery_check ps (r1, d1) = (Inr (), r1, d1)"
proof -
  have run: "apply_patches (recovery_run ord) recovery_check ps [] (r, d) = (Inr (), r1, d1)"
    using assms(4) by (auto simp: apply_set_def split: if_splits)
  obtain rbs1 where "pr_executors r1 = pr_executors r" "pr_fallback r1 = pr_fallback r" "\<forall>rb\<in>set rbs1. untargeted rb"
      "apply_patches (recovery_run ord) recovery_check (ps @ [p]) [] (r, d) =
        apply_patches (recovery_run ord) recovery_check [p] rbs1 (r1, d1)"
    using apply_patches_prefix [OF run, of "[p]"] by auto
  moreover have "\<forall>q\<in>set ps. already_applied q r1"
    using apply_patches_marks [OF run] assms(5) by (simp add: already_applied_def)
  ultimately show ?thesis
    using assms(1-3,6) by (simp add: apply_set_def roll_back_nothing apply_patches_skipped)
qed

end
