(* ===== verification/Evolution_Coordinator.thy ===== *)
theory Evolution_Coordinator
  imports Runtime_Patch
begin

text \<open>
  Packages \<open>internal/evolution/coordinator\<close> (which proposed patches are applied, delayed, rejected or dropped)
  and \<open>internal/evolution/deployment\<close> (from the staging to the live runtime). Applying a patch acts on a world
  \<open>'w\<close>; how the registry and a deployer do it is an argument. The clock is read anew for every proposal.
\<close>

section \<open>Proposals, decisions, policy\<close>

definition source_ga :: string where "source_ga = ''genome''"

definition source_chaos :: string where "source_chaos = ''chaos''"

record 'v patch_proposal =
  pp_patch :: "'v runtime_patch"
  pp_source :: string
  pp_reason :: string
  pp_priority :: int
  pp_fitness :: rat
  pp_at :: time
  pp_retry :: int

datatype coord_decision = DecisionApply | DecisionReject | DecisionDelay | DecisionDrop

fun decision_name :: "coord_decision \<Rightarrow> string" where
  "decision_name DecisionApply = ''apply''"
| "decision_name DecisionReject = ''reject''"
| "decision_name DecisionDelay = ''delay''"
| "decision_name DecisionDrop = ''drop''"

definition max_proposal_retries :: int where "max_proposal_retries = 3"

text \<open>The reason of a decision, a text for people, is left out.\<close>

record ('v, 'e) patch_decision =
  pd_proposal :: "'v patch_proposal"
  pd_decision :: coord_decision
  pd_error :: "'e option"

record policy_genome =
  pg_auto_apply :: int
  pg_max_per_minute :: int
  pg_min_fitness :: rat
  pg_apply_fitness :: rat
  pg_healing :: bool
  pg_healing_retries :: int

definition default_policy :: policy_genome where
  "default_policy = \<lparr>pg_auto_apply = 8, pg_max_per_minute = 4, pg_min_fitness = 30, pg_apply_fitness = 70,
     pg_healing = False, pg_healing_retries = 3\<rparr>"

record ('v, 'e) patch_result =
  ps_proposal :: "'v patch_proposal"
  ps_applied_at :: time
  ps_error :: "'e option"

record healing_attempt =
  ha_target :: string
  ha_type :: string
  ha_attempt :: int
  ha_success :: bool
  ha_error :: string
  ha_at :: time

record ('v, 'e, 'd) coordinator =
  co_policy :: policy_genome
  co_proposals :: "'v patch_proposal list"
  co_decisions :: "('v, 'e) patch_decision list"
  co_history :: "('v, 'e) patch_result list"
  co_deployer :: "'d option"
  co_attempts :: "string \<Rightarrow> int"
  co_healed :: "healing_attempt list"

definition new_coordinator :: "policy_genome \<Rightarrow> ('v, 'e, 'd) coordinator" where
  "new_coordinator policy = \<lparr>co_policy = policy, co_proposals = [], co_decisions = [], co_history = [],
     co_deployer = None, co_attempts = (\<lambda>t. 0), co_healed = []\<rparr>"

text \<open>How patches reach the world: through the registry, or through a deployer when it is enabled.\<close>

record ('v, 'e, 'd, 'w) patch_ways =
  pw_direct :: "'v runtime_patch \<Rightarrow> 'w \<Rightarrow> 'e option \<times> 'w"
  pw_enabled :: "'d \<Rightarrow> bool"
  pw_deploy :: "'d \<Rightarrow> 'v runtime_patch \<Rightarrow> 'w \<Rightarrow> 'e option \<times> 'w"

section \<open>Operations\<close>

definition set_deployer :: "'d option \<Rightarrow> ('v, 'e, 'd) coordinator \<Rightarrow> ('v, 'e, 'd) coordinator" where
  "set_deployer d c = c\<lparr>co_deployer := d\<rparr>"

definition submit_proposal :: "'v patch_proposal \<Rightarrow> ('v, 'e, 'd) coordinator \<Rightarrow> ('v, 'e, 'd) coordinator" where
  "submit_proposal p c = c\<lparr>co_proposals := co_proposals c @ [p]\<rparr>"

definition pending_count :: "('v, 'e, 'd) coordinator \<Rightarrow> nat" where
  "pending_count c = length (co_proposals c)"

definition emergency_reason :: string where
  "emergency_reason = ''emergency: self-healing immediate apply''"

definition emergency_proposal :: "time \<Rightarrow> 'v runtime_patch \<Rightarrow> 'v patch_proposal" where
  "emergency_proposal now p = \<lparr>pp_patch = p, pp_source = source_chaos,
     pp_reason = emergency_reason, pp_priority = 10, pp_fitness = 0, pp_at = now, pp_retry = 0\<rparr>"

text \<open>\<open>now\<close> and \<open>later\<close> are the two readings of the clock.\<close>

definition apply_emergency ::
  "('v, 'e, 'd, 'w) patch_ways \<Rightarrow> time \<Rightarrow> time \<Rightarrow> 'v runtime_patch \<Rightarrow> ('v, 'e, 'd) coordinator \<times> 'w
    \<Rightarrow> 'e option \<times> ('v, 'e, 'd) coordinator \<times> 'w" where
  "apply_emergency ways now later p s =
     (case pw_direct ways p (snd s) of
        (err, w) \<Rightarrow>
          let proposal = emergency_proposal now p; c = fst s
          in (err,
              c\<lparr>co_decisions := co_decisions c @ [\<lparr>pd_proposal = proposal, pd_decision = DecisionApply, pd_error = None\<rparr>],
                co_history := co_history c @ [\<lparr>ps_proposal = proposal, ps_applied_at = later, ps_error = err\<rparr>]\<rparr>, w))"

definition rate_window :: duration where "rate_window = 60000000000"

definition count_recent :: "time \<Rightarrow> duration \<Rightarrow> ('v, 'e) patch_result list \<Rightarrow> int" where
  "count_recent now d history = int (length [r \<leftarrow> history. ps_applied_at r > now - d])"

definition delay_or_drop :: "'v patch_proposal \<Rightarrow> coord_decision" where
  "delay_or_drop p = (if pp_retry p \<ge> max_proposal_retries then DecisionDrop else DecisionDelay)"

definition decide :: "time \<Rightarrow> 'v patch_proposal \<Rightarrow> ('v, 'e, 'd) coordinator \<Rightarrow> coord_decision" where
  "decide now p c =
     (let policy = co_policy c in
      if count_recent now rate_window (co_history c) \<ge> pg_max_per_minute policy then delay_or_drop p
      else if pp_source p = source_ga \<and> pp_fitness p > 0 then
        (if pp_fitness p \<ge> pg_apply_fitness policy then DecisionApply
         else if pp_fitness p < pg_min_fitness policy then DecisionReject
         else delay_or_drop p)
      else if pp_priority p \<ge> pg_auto_apply policy then DecisionApply
      else delay_or_drop p)"

text \<open>One turn of the loop of \<open>Evaluate\<close>. The proposal is recorded with the retry counter it was queued again with.\<close>

definition carry_out ::
  "('v, 'e, 'd, 'w) patch_ways \<Rightarrow> 'v runtime_patch \<Rightarrow> ('v, 'e, 'd) coordinator \<times> 'w \<Rightarrow> 'e option \<times> 'w" where
  "carry_out ways p s =
     (case co_deployer (fst s) of
        Some d \<Rightarrow> if pw_enabled ways d then pw_deploy ways d p (snd s) else pw_direct ways p (snd s)
      | None \<Rightarrow> pw_direct ways p (snd s))"

definition record_decision ::
  "'v patch_proposal \<Rightarrow> coord_decision \<Rightarrow> 'e option \<Rightarrow> ('v, 'e, 'd) coordinator \<Rightarrow> ('v, 'e, 'd) coordinator" where
  "record_decision p d err c = c\<lparr>co_decisions := co_decisions c @ [\<lparr>pd_proposal = p, pd_decision = d, pd_error = err\<rparr>]\<rparr>"

definition settle ::
  "('v, 'e, 'd, 'w) patch_ways \<Rightarrow> time \<Rightarrow> coord_decision \<Rightarrow> 'v patch_proposal \<Rightarrow> ('v, 'e, 'd) coordinator \<times> 'w
    \<Rightarrow> ('v, 'e, 'd) coordinator \<times> 'w" where
  "settle ways later d p s =
     (let c = fst s in
      case d of
        DecisionApply \<Rightarrow>
          (case carry_out ways (pp_patch p) s of
             (err, w) \<Rightarrow>
               (record_decision p d err
                  (c\<lparr>co_history := co_history c @ [\<lparr>ps_proposal = p, ps_applied_at = later, ps_error = err\<rparr>]\<rparr>), w))
      | DecisionDelay \<Rightarrow>
          (let p1 = p\<lparr>pp_retry := pp_retry p + 1\<rparr>
           in (record_decision p1 d None (c\<lparr>co_proposals := co_proposals c @ [p1]\<rparr>), snd s))
      | _ \<Rightarrow> (record_decision p d None c, snd s))"

definition evaluate_one ::
  "('v, 'e, 'd, 'w) patch_ways \<Rightarrow> time \<Rightarrow> time \<Rightarrow> 'v patch_proposal \<Rightarrow> ('v, 'e, 'd) coordinator \<times> 'w
    \<Rightarrow> ('v, 'e, 'd) coordinator \<times> 'w" where
  "evaluate_one ways now later p s = settle ways later (decide now p (fst s)) p s"

text \<open>\<open>Evaluate\<close> takes the pending proposals and visits them; \<open>clock i\<close> gives the two readings for the \<open>i\<close>th one.\<close>

fun evaluate_all ::
  "('v, 'e, 'd, 'w) patch_ways \<Rightarrow> (nat \<Rightarrow> time \<times> time) \<Rightarrow> nat \<Rightarrow> 'v patch_proposal list \<Rightarrow> ('v, 'e, 'd) coordinator \<times> 'w
    \<Rightarrow> ('v, 'e, 'd) coordinator \<times> 'w" where
  "evaluate_all ways clock i [] s = s"
| "evaluate_all ways clock i (p # ps) s =
     evaluate_all ways clock (Suc i) ps (evaluate_one ways (fst (clock i)) (snd (clock i)) p s)"

definition take_proposals :: "('v, 'e, 'd) coordinator \<Rightarrow> 'v patch_proposal list \<times> ('v, 'e, 'd) coordinator" where
  "take_proposals c = (co_proposals c, c\<lparr>co_proposals := []\<rparr>)"

definition evaluate ::
  "('v, 'e, 'd, 'w) patch_ways \<Rightarrow> (nat \<Rightarrow> time \<times> time) \<Rightarrow> ('v, 'e, 'd) coordinator \<times> 'w \<Rightarrow> ('v, 'e, 'd) coordinator \<times> 'w" where
  "evaluate ways clock s =
     (case take_proposals (fst s) of (pending, c) \<Rightarrow> evaluate_all ways clock 0 pending (c, snd s))"

section \<open>Self-healing\<close>

definition notify_attempt ::
  "time \<Rightarrow> string \<Rightarrow> string \<Rightarrow> ('v, 'e, 'd) coordinator \<Rightarrow> bool \<times> ('v, 'e, 'd) coordinator" where
  "notify_attempt now target ty c =
     (if \<not> pg_healing (co_policy c) then (False, c)
      else if co_attempts c target > pg_healing_retries (co_policy c) then (False, c)
      else (let attempt = co_attempts c target + 1;
                c1 = c\<lparr>co_attempts := (co_attempts c)(target := attempt)\<rparr>
            in if attempt > pg_healing_retries (co_policy c)
               then (False, c1\<lparr>co_healed := co_healed c1 @ [\<lparr>ha_target = target, ha_type = ty, ha_attempt = attempt,
                       ha_success = False, ha_error = ''max retries exceeded'', ha_at = now\<rparr>]\<rparr>)
               else (True, c1)))"

definition notify_outcome ::
  "time \<Rightarrow> string \<Rightarrow> string \<Rightarrow> bool \<Rightarrow> string \<Rightarrow> ('v, 'e, 'd) coordinator \<Rightarrow> ('v, 'e, 'd) coordinator" where
  "notify_outcome now target ty success msg c =
     (if \<not> pg_healing (co_policy c) then c
      else (let attempt = co_attempts c target;
                err = (if attempt = 0
                       then (if msg \<noteq> '''' then msg @ ''; '' else msg) @ ''outcome recorded without attempt'' else msg)
            in c\<lparr>co_healed := co_healed c @ [\<lparr>ha_target = target, ha_type = ty, ha_attempt = attempt,
                   ha_success = success, ha_error = err, ha_at = now\<rparr>]\<rparr>))"

section \<open>Rounds that overlap\<close>

text \<open>
  Several goroutines call \<open>Evaluate\<close>. Deciding on a proposal and settling it are separate critical sections, so
  the rounds interleave: each is either about to visit its next proposal or has decided and not yet settled it.
  The list of rounds has one place for each goroutine; a round that has visited everything may start again.
\<close>

datatype 'v coord_round = Visiting "'v patch_proposal list" | Settling coord_decision "'v patch_proposal" "'v patch_proposal list"

record ('v, 'e, 'd, 'w) coord_system =
  cy_coord :: "('v, 'e, 'd) coordinator"
  cy_world :: 'w
  cy_clock :: time
  cy_rounds :: "'v coord_round list"

inductive coord_step ::
  "('v, 'e, 'd, 'w) patch_ways \<Rightarrow> ('v, 'e, 'd, 'w) coord_system \<Rightarrow> ('v, 'e, 'd, 'w) coord_system \<Rightarrow> bool"
  for ways where
  begin_round: "i < length (cy_rounds s) \<Longrightarrow> cy_rounds s ! i = Visiting [] \<Longrightarrow> take_proposals (cy_coord s) = (ps, c) \<Longrightarrow>
     coord_step ways s (s\<lparr>cy_coord := c, cy_rounds := (cy_rounds s)[i := Visiting ps]\<rparr>)"
| decide_next: "i < length (cy_rounds s) \<Longrightarrow> cy_rounds s ! i = Visiting (p # ps) \<Longrightarrow> cy_clock s \<le> now \<Longrightarrow>
     coord_step ways s (s\<lparr>cy_clock := now, cy_rounds := (cy_rounds s)[i := Settling (decide now p (cy_coord s)) p ps]\<rparr>)"
| settle_next: "i < length (cy_rounds s) \<Longrightarrow> cy_rounds s ! i = Settling d p ps \<Longrightarrow> cy_clock s \<le> now \<Longrightarrow>
     settle ways now d p (cy_coord s, cy_world s) = (c, w) \<Longrightarrow>
     coord_step ways s (s\<lparr>cy_coord := c, cy_world := w, cy_clock := now, cy_rounds := (cy_rounds s)[i := Visiting ps]\<rparr>)"
| submit: "pp_reason p \<noteq> emergency_reason \<Longrightarrow> coord_step ways s (s\<lparr>cy_coord := submit_proposal p (cy_coord s)\<rparr>)"
| emergency: "cy_clock s \<le> now \<Longrightarrow> now \<le> later \<Longrightarrow>
     apply_emergency ways now later p (cy_coord s, cy_world s) = (err, c, w) \<Longrightarrow>
     coord_step ways s (s\<lparr>cy_coord := c, cy_world := w, cy_clock := later\<rparr>)"
| deployer: "coord_step ways s (s\<lparr>cy_coord := set_deployer d (cy_coord s)\<rparr>)"

end
