(* ===== verification/Evolution_Props.thy ===== *)
theory Evolution_Props
  imports Evolution_Coordinator Interfaces
begin

text \<open>
  The evolution coordinator: how many patches its rounds apply in a minute however they overlap, that every
  proposal is settled once and within four rounds, and how often a target is healed.
\<close>

section \<open>The rate limit\<close>

text \<open>What rounds applied, as opposed to emergencies; the entries of a window of a minute; what a proposal must have.\<close>

definition decided :: "('v, 'e, 'd) coordinator \<Rightarrow> ('v, 'e) patch_result list" where
  "decided c = [r \<leftarrow> co_history c. pp_reason (ps_proposal r) \<noteq> emergency_reason]"

definition applied_after :: "time \<Rightarrow> ('v, 'e) patch_result list \<Rightarrow> nat" where
  "applied_after a rs = length [r \<leftarrow> rs. a < ps_applied_at r]"

definition applied_within :: "time \<Rightarrow> duration \<Rightarrow> ('v, 'e) patch_result list \<Rightarrow> nat" where
  "applied_within a d rs = length [r \<leftarrow> rs. a < ps_applied_at r \<and> ps_applied_at r \<le> a + d]"

definition authorised :: "policy_genome \<Rightarrow> 'v patch_proposal \<Rightarrow> bool" where
  "authorised policy p =
     (if pp_source p = source_ga \<and> pp_fitness p > 0 then pg_apply_fitness policy \<le> pp_fitness p
      else pg_auto_apply policy \<le> pp_priority p)"

fun about_to_apply :: "'v coord_round \<Rightarrow> bool" where
  "about_to_apply (Settling d p ps) = (d = DecisionApply)"
| "about_to_apply (Visiting ps) = False"

fun round_ok :: "policy_genome \<Rightarrow> 'v coord_round \<Rightarrow> bool" where
  "round_ok policy (Visiting ps) = (\<forall>p \<in> set ps. pp_reason p \<noteq> emergency_reason)"
| "round_ok policy (Settling d p ps) =
     ((\<forall>p \<in> set (p # ps). pp_reason p \<noteq> emergency_reason) \<and> (d = DecisionApply \<longrightarrow> authorised policy p))"

text \<open>The most applications a minute can hold: those the policy allows and one more for each further round.\<close>

definition apply_bound :: "('v, 'e, 'd, 'w) coord_system \<Rightarrow> nat" where
  "apply_bound s = nat (pg_max_per_minute (co_policy (cy_coord s))) + length (cy_rounds s) - 1"

definition limit_inv :: "policy_genome \<Rightarrow> nat \<Rightarrow> ('v, 'e, 'd, 'w) coord_system \<Rightarrow> bool" where
  "limit_inv policy n s \<longleftrightarrow> co_policy (cy_coord s) = policy \<and> length (cy_rounds s) = n
    \<and> (\<forall>r \<in> set (cy_rounds s). round_ok policy r)
    \<and> (\<forall>p \<in> set (co_proposals (cy_coord s)). pp_reason p \<noteq> emergency_reason)
    \<and> (\<forall>r \<in> set (decided (cy_coord s)). ps_applied_at r \<le> cy_clock s \<and> authorised policy (ps_proposal r))
    \<and> applied_after (cy_clock s - rate_window) (decided (cy_coord s)) + length (filter about_to_apply (cy_rounds s)) \<le> apply_bound s
    \<and> (\<forall>a. applied_within a rate_window (decided (cy_coord s)) \<le> apply_bound s)"

lemma count_update:
  "i < length xs \<Longrightarrow> length (filter P (xs[i := x])) + of_bool (P (xs ! i)) = length (filter P xs) + of_bool (P x)"
proof (induction xs arbitrary: i)
  case (Cons y xs)
  show ?case
  proof (cases i)
    case (Suc j)
    then show ?thesis using Cons.IH [of j] Cons.prems by auto
  qed auto
qed simp

lemma count_le: "(\<And>x. x \<in> set xs \<Longrightarrow> P x \<Longrightarrow> Q x) \<Longrightarrow> length (filter P xs) \<le> length (filter Q xs)"
  by (induction xs) auto

lemma applied_after_mono: "a \<le> b \<Longrightarrow> applied_after b rs \<le> applied_after a rs"
  by (auto simp: applied_after_def intro: count_le)

lemma applied_after_add [simp]: "applied_after a (rs @ [r]) = applied_after a rs + of_bool (a < ps_applied_at r)"
  by (simp add: applied_after_def)

lemma applied_within_add:
  "applied_within a d (rs @ [r]) = applied_within a d rs + of_bool (a < ps_applied_at r \<and> ps_applied_at r \<le> a + d)"
  by (simp add: applied_within_def)

lemma applied_within_after: "applied_within a d rs \<le> applied_after a rs"
  by (auto simp: applied_within_def applied_after_def intro: count_le)

lemma decided_recent: "int (applied_after (now - d) (decided c)) \<le> count_recent now d (co_history c)"
  by (auto simp: decided_def applied_after_def count_recent_def intro: count_le)

lemma decide_apply: "decide now p c = DecisionApply \<Longrightarrow>
    authorised (co_policy c) p \<and> count_recent now rate_window (co_history c) < pg_max_per_minute (co_policy c)"
  by (auto simp: decide_def Let_def delay_or_drop_def authorised_def not_less split: if_splits)

lemma settle_apply:
  "settle ways now DecisionApply p (c, w) = (c', w') \<Longrightarrow> pp_reason p \<noteq> emergency_reason \<Longrightarrow>
    co_policy c' = co_policy c \<and> co_proposals c' = co_proposals c
    \<and> (\<exists>r. decided c' = decided c @ [r] \<and> ps_proposal r = p \<and> ps_applied_at r = now)"
  by (auto simp: settle_def Let_def record_decision_def decided_def split: prod.splits)

lemma settle_other:
  "settle ways now d p (c, w) = (c', w') \<Longrightarrow> d \<noteq> DecisionApply \<Longrightarrow>
    co_policy c' = co_policy c \<and> decided c' = decided c
    \<and> co_proposals c' = co_proposals c @ (if d = DecisionDelay then [p\<lparr>pp_retry := pp_retry p + 1\<rparr>] else [])"
  by (cases d) (auto simp: settle_def Let_def record_decision_def decided_def)

lemma emergency_simps:
  "apply_emergency ways now later p (c, w) = (err, c', w') \<Longrightarrow>
    co_policy c' = co_policy c \<and> co_proposals c' = co_proposals c \<and> decided c' = decided c"
  by (auto simp: apply_emergency_def Let_def decided_def emergency_proposal_def split: prod.splits)


lemma limit_invI:
  assumes "limit_inv policy n s" "cy_clock s \<le> now" "co_policy c = policy" "length rs = n" "\<forall>r \<in> set rs. round_ok policy r"
    "\<forall>p \<in> set (co_proposals c). pp_reason p \<noteq> emergency_reason" "decided c = decided (cy_coord s)"
    "length (filter about_to_apply rs) \<le> length (filter about_to_apply (cy_rounds s))"
  shows "limit_inv policy n \<lparr>cy_coord = c, cy_world = w, cy_clock = now, cy_rounds = rs\<rparr>"
  using assms applied_after_mono [of "cy_clock s - rate_window" "now - rate_window" "decided (cy_coord s)"]
  by (auto simp: limit_inv_def apply_bound_def)

text \<open>The step that counts: a proposal decided on while the minute had room is applied.\<close>

lemma limit_inv_decide:
  assumes inv: "limit_inv policy n s" and i: "i < length (cy_rounds s)" "cy_rounds s ! i = Visiting (p # ps)"
    and now: "cy_clock s \<le> now"
  shows "limit_inv policy n (s\<lparr>cy_clock := now, cy_rounds := (cy_rounds s)[i := Settling (decide now p (cy_coord s)) p ps]\<rparr>)"
    (is "limit_inv _ _ ?t")
proof -
  let ?r = "Settling (decide now p (cy_coord s)) p ps"
  have old: "round_ok policy (Visiting (p # ps))" using inv i by (metis limit_inv_def nth_mem)
  have room: "authorised policy p \<and> count_recent now rate_window (co_history (cy_coord s)) < pg_max_per_minute policy"
    if "decide now p (cy_coord s) = DecisionApply"
    using decide_apply [OF that] inv by (simp add: limit_inv_def)
  then have rounds: "\<forall>r \<in> set ((cy_rounds s)[i := ?r]). round_ok policy r"
    using inv old set_update_subset_insert [of "cy_rounds s" i ?r] by (auto simp: limit_inv_def)
  note count = count_update [OF i(1), of about_to_apply ?r]
  have mono: "applied_after (now - rate_window) (decided (cy_coord s)) \<le> applied_after (cy_clock s - rate_window) (decided (cy_coord s))"
    using now by (simp add: applied_after_mono)
  have "applied_after (now - rate_window) (decided (cy_coord s)) + length (filter about_to_apply (cy_rounds ?t)) \<le> apply_bound s"
  proof (cases "decide now p (cy_coord s) = DecisionApply")
    case True
    have "int (applied_after (now - rate_window) (decided (cy_coord s))) < pg_max_per_minute policy"
      using room [OF True] decided_recent [of now rate_window "cy_coord s"] by simp
    moreover have "length (filter about_to_apply (cy_rounds ?t)) \<le> n"
      using inv by (auto simp: limit_inv_def intro: order_trans [OF length_filter_le])
    ultimately show ?thesis using inv by (auto simp: limit_inv_def apply_bound_def)
  next
    case False
    then show ?thesis using count i mono inv by (simp add: limit_inv_def)
  qed
  moreover have "apply_bound ?t = apply_bound s" by (simp add: apply_bound_def)
  ultimately show ?thesis using inv rounds now by (auto simp: limit_inv_def intro: order_trans)
qed

lemma limit_inv_settle:
  assumes inv: "limit_inv policy n s" and i: "i < length (cy_rounds s)" "cy_rounds s ! i = Settling d p ps"
    and now: "cy_clock s \<le> now" and settle: "settle ways now d p (cy_coord s, cy_world s) = (c, w)"
  shows "limit_inv policy n \<lparr>cy_coord = c, cy_world = w, cy_clock = now, cy_rounds = (cy_rounds s)[i := Visiting ps]\<rparr>"
    (is "limit_inv _ _ ?t")
proof -
  have old: "round_ok policy (Settling d p ps)" using inv i by (metis limit_inv_def nth_mem)
  have rounds: "\<forall>r \<in> set ((cy_rounds s)[i := Visiting ps]). round_ok policy r"
    using inv old set_update_subset_insert [of "cy_rounds s" i "Visiting ps"] by (auto simp: limit_inv_def)
  note count = count_update [OF i(1), of about_to_apply "Visiting ps"]
  show ?thesis
  proof (cases "d = DecisionApply")
    case False
    note other = settle_other [OF settle False]
    have c: "co_policy c = policy" "decided c = decided (cy_coord s)"
        "\<forall>p \<in> set (co_proposals c). pp_reason p \<noteq> emergency_reason"
      using other inv old by (auto simp: limit_inv_def split: if_splits)
    show ?thesis by (rule limit_invI [OF inv now c(1) _ rounds c(3,2)]) (use inv count in \<open>auto simp: limit_inv_def\<close>)
  next
    case True
    obtain r where c: "co_policy c = policy" "co_proposals c = co_proposals (cy_coord s)"
        and r: "decided c = decided (cy_coord s) @ [r]" "ps_proposal r = p" "ps_applied_at r = now"
      using settle_apply [OF settle [unfolded True]] old inv by (auto simp: limit_inv_def)
    have bound: "apply_bound ?t = apply_bound s" using c(1) inv by (simp add: apply_bound_def limit_inv_def)
    have "applied_after (now - rate_window) (decided (cy_coord s)) + length (filter about_to_apply (cy_rounds s)) \<le> apply_bound s"
      using inv applied_after_mono [of "cy_clock s - rate_window" "now - rate_window" "decided (cy_coord s)"] now
      by (simp add: limit_inv_def)
    then have after: "applied_after (now - rate_window) (decided c) + length (filter about_to_apply (cy_rounds ?t)) \<le> apply_bound s"
      using count i True r by (simp add: rate_window_def)
    have "applied_within a rate_window (decided c) \<le> apply_bound s" for a
    proof (cases "a < now \<and> now \<le> a + rate_window")
      case True
      have "applied_within a rate_window (decided c) \<le> applied_after a (decided c)" by (rule applied_within_after)
      also have "\<dots> \<le> applied_after (now - rate_window) (decided c)" using True by (simp add: applied_after_mono)
      finally show ?thesis using after by simp
    next
      case False
      then show ?thesis using inv r by (auto simp: applied_within_add limit_inv_def)
    qed
    then show ?thesis using inv rounds after bound c r old True now by (auto simp: limit_inv_def intro: order_trans)
  qed
qed

lemma limit_inv_step: "coord_step ways s t \<Longrightarrow> limit_inv policy n s \<Longrightarrow> limit_inv policy n t"
proof (induction rule: coord_step.induct)
  case (begin_round i s ps c)
  note count = count_update [OF begin_round(1), of about_to_apply "Visiting ps"]
  have "\<forall>r \<in> set ((cy_rounds s)[i := Visiting ps]). round_ok policy r"
    using begin_round set_update_subset_insert [of "cy_rounds s" i "Visiting ps"]
    by (auto simp: limit_inv_def take_proposals_def)
  then show ?case
    using limit_invI [OF begin_round(4), of "cy_clock s" c "(cy_rounds s)[i := Visiting ps]" "cy_world s"] begin_round count
    by (cases s) (auto simp: limit_inv_def take_proposals_def decided_def)
next
  case (submit p s)
  then show ?case
    using limit_invI [OF submit(2), of "cy_clock s" "submit_proposal p (cy_coord s)" "cy_rounds s" "cy_world s"]
    by (cases s) (auto simp: limit_inv_def submit_proposal_def decided_def)
next
  case (emergency s now later p err c w)
  then show ?case
    using limit_invI [OF emergency(4), of later c "cy_rounds s" w] emergency_simps [OF emergency(3)]
    by (cases s) (auto simp: limit_inv_def)
next
  case (deployer s d)
  then show ?case
    using limit_invI [OF deployer, of "cy_clock s" "set_deployer d (cy_coord s)" "cy_rounds s" "cy_world s"]
    by (cases s) (auto simp: limit_inv_def set_deployer_def decided_def)
next
  case (decide_next i s p ps now)
  then show ?case using limit_inv_decide by blast
next
  case (settle_next i s d p ps now c w)
  then show ?case using limit_inv_settle [of policy n s i d p ps now ways c w] by (cases s) simp
qed

interpretation rounds: step_system "coord_step ways" "limit_inv policy n" for ways policy n
  by unfold_locales (rule limit_inv_step)

definition coord_start :: "policy_genome \<Rightarrow> nat \<Rightarrow> 'w \<Rightarrow> time \<Rightarrow> ('v, 'e, 'd, 'w) coord_system" where
  "coord_start policy n w t = \<lparr>cy_coord = new_coordinator policy, cy_world = w, cy_clock = t, cy_rounds = replicate n (Visiting [])\<rparr>"

text \<open>
  C34: However the rounds of a number of goroutines, submissions and emergencies interleave, no window of a minute
  holds more applications decided by rounds than the policy's maximum and one more for each goroutine beyond the
  first; and every one of them was authorised by the policy.
\<close>

theorem rate_limited:
  assumes "(coord_step ways)\<^sup>*\<^sup>* (coord_start policy n w t0) s"
  shows "applied_within a rate_window (decided (cy_coord s)) \<le> nat (pg_max_per_minute policy) + n - 1
    \<and> (\<forall>r \<in> set (decided (cy_coord s)). authorised policy (ps_proposal r))"
proof -
  have "limit_inv policy n (coord_start policy n w t0)"
    by (simp add: limit_inv_def coord_start_def new_coordinator_def decided_def applied_after_def applied_within_def)
  then have "limit_inv policy n s" using rounds.reach_inv [OF assms] by blast
  then show ?thesis by (auto simp: limit_inv_def apply_bound_def)
qed

text \<open>With one goroutine the maximum of the policy is exact; with two it is exceeded, both deciding before either applies.\<close>

definition counting_ways :: "(nat, unit, unit, nat) patch_ways" where
  "counting_ways = \<lparr>pw_direct = (\<lambda>p w. (None, w + pt_value p)), pw_enabled = (\<lambda>d. False), pw_deploy = (\<lambda>d p w. (None, w))\<rparr>"

definition urgent_proposal :: "nat patch_proposal" where
  "urgent_proposal = \<lparr>pp_patch = RuntimePatch ''p'' PatchChangeScheduler ''scheduler'' 1 ''r'' ''s'' None, pp_source = ''human'',
     pp_reason = ''asked for'', pp_priority = 9, pp_fitness = 0, pp_at = 0, pp_retry = 0\<rparr>"

definition one_a_minute :: policy_genome where
  "one_a_minute = default_policy\<lparr>pg_max_per_minute := 1\<rparr>"

lemma settle_urgent:
  "co_deployer c = None \<Longrightarrow> settle counting_ways t DecisionApply urgent_proposal (c, w)
     = (record_decision urgent_proposal DecisionApply None (c\<lparr>co_history := co_history c
          @ [\<lparr>ps_proposal = urgent_proposal, ps_applied_at = t, ps_error = None\<rparr>]\<rparr>), w + 1)"
  by (simp add: settle_def carry_out_def counting_ways_def urgent_proposal_def)

lemma overlapping_rounds:
  "\<exists>s. (coord_step counting_ways)\<^sup>*\<^sup>* (coord_start one_a_minute 2 0 0) s \<and> cy_world s = 2
     \<and> applied_within 0 rate_window (decided (cy_coord s)) = 2"
proof -
  let ?p = urgent_proposal
  let ?s0 = "coord_start one_a_minute 2 0 0 :: (nat, unit, unit, nat) coord_system"
  note defs = coord_start_def one_a_minute_def default_policy_def new_coordinator_def urgent_proposal_def
    counting_ways_def take_proposals_def submit_proposal_def numeral_2_eq_2
  note run = decide_def settle_def carry_out_def record_decision_def count_recent_def rate_window_def delay_or_drop_def source_ga_def
  define s1 where "s1 = ?s0\<lparr>cy_coord := submit_proposal ?p (cy_coord ?s0)\<rparr>"
  define s2 where "s2 = s1\<lparr>cy_coord := snd (take_proposals (cy_coord s1)), cy_rounds := (cy_rounds s1)[0 := Visiting [?p]]\<rparr>"
  define s3 where "s3 = s2\<lparr>cy_coord := submit_proposal ?p (cy_coord s2)\<rparr>"
  define s4 where "s4 = s3\<lparr>cy_coord := snd (take_proposals (cy_coord s3)), cy_rounds := (cy_rounds s3)[1 := Visiting [?p]]\<rparr>"
  define s5 where "s5 = s4\<lparr>cy_clock := 1, cy_rounds := (cy_rounds s4)[0 := Settling (decide 1 ?p (cy_coord s4)) ?p []]\<rparr>"
  define s6 where "s6 = s5\<lparr>cy_clock := 2, cy_rounds := (cy_rounds s5)[1 := Settling (decide 2 ?p (cy_coord s5)) ?p []]\<rparr>"
  let ?r = "settle counting_ways 3 DecisionApply ?p (cy_coord s6, cy_world s6)"
  define s7 where "s7 = s6\<lparr>cy_coord := fst ?r, cy_world := snd ?r, cy_clock := 3, cy_rounds := (cy_rounds s6)[0 := Visiting []]\<rparr>"
  let ?q = "settle counting_ways 4 DecisionApply ?p (cy_coord s7, cy_world s7)"
  define s8 where "s8 = s7\<lparr>cy_coord := fst ?q, cy_world := snd ?q, cy_clock := 4, cy_rounds := (cy_rounds s7)[1 := Visiting []]\<rparr>"
  note states = s1_def s2_def s3_def s4_def s5_def s6_def s7_def s8_def
  have "coord_step counting_ways ?s0 s1" "coord_step counting_ways s2 s3"
    unfolding s1_def s3_def by (rule coord_step.submit, simp add: urgent_proposal_def emergency_reason_def)+
  moreover have "coord_step counting_ways s1 s2" "coord_step counting_ways s3 s4"
    unfolding s2_def s4_def by (rule coord_step.begin_round; simp add: states defs)+
  moreover have "coord_step counting_ways s4 s5" "coord_step counting_ways s5 s6"
    unfolding s5_def s6_def by (rule coord_step.decide_next; simp add: states defs)+
  moreover have c6: "cy_coord s6 = new_coordinator one_a_minute" "cy_world s6 = 0" "cy_clock s6 = 2"
    by (simp_all add: states defs)
  moreover have r6: "cy_rounds s6 = [Settling DecisionApply ?p [], Settling DecisionApply ?p []]"
    by (simp add: states defs run)
  moreover have "coord_step counting_ways s6 s7" "coord_step counting_ways s7 s8"
    unfolding s7_def s8_def by (rule coord_step.settle_next [OF _ _ _ prod.collapse [symmetric]]; simp add: s7_def c6 r6)+
  ultimately have "(coord_step counting_ways)\<^sup>*\<^sup>* ?s0 s8"
    by (meson converse_rtranclp_into_rtranclp rtranclp.rtrancl_refl)
  moreover have "cy_world s8 = 2 \<and> applied_within 0 rate_window (decided (cy_coord s8)) = 2"
    using c6 by (simp add: s7_def s8_def settle_urgent new_coordinator_def record_decision_def decided_def applied_within_def
      rate_window_def) (simp add: urgent_proposal_def emergency_reason_def)
  ultimately show ?thesis by blast
qed

lemma rate_limited_witness:
  "\<exists>s. (coord_step counting_ways)\<^sup>*\<^sup>* (coord_start one_a_minute 2 0 0) s
     \<and> applied_within 0 rate_window (decided (cy_coord s)) = 2
     \<and> applied_within 0 rate_window (decided (cy_coord s)) \<le> nat (pg_max_per_minute one_a_minute) + 2 - 1"
  using overlapping_rounds rate_limited [of counting_ways one_a_minute 2 0 0 _ 0] by blast

text \<open>A round of one goroutine is what \<open>evaluate\<close> computes, when nothing comes between.\<close>

lemma evaluate_all_steps:
  assumes "t \<le> fst (clock i)" "\<And>i. fst (clock i) \<le> snd (clock i)" "\<And>i. snd (clock i) \<le> fst (clock (Suc i))"
  shows "\<exists>t'. (coord_step ways)\<^sup>*\<^sup>* \<lparr>cy_coord = c, cy_world = w, cy_clock = t, cy_rounds = [Visiting ps]\<rparr>
     \<lparr>cy_coord = fst (evaluate_all ways clock i ps (c, w)), cy_world = snd (evaluate_all ways clock i ps (c, w)),
      cy_clock = t', cy_rounds = [Visiting []]\<rparr>"
  using assms(1)
proof (induction ps arbitrary: c w t i)
  case (Cons p ps)
  let ?now = "fst (clock i)" and ?later = "snd (clock i)"
  let ?d = "decide ?now p c"
  let ?r = "settle ways ?later ?d p (c, w)"
  have s1: "coord_step ways \<lparr>cy_coord = c, cy_world = w, cy_clock = t, cy_rounds = [Visiting (p # ps)]\<rparr>
      \<lparr>cy_coord = c, cy_world = w, cy_clock = ?now, cy_rounds = [Settling ?d p ps]\<rparr>"
    using coord_step.decide_next [of 0 "\<lparr>cy_coord = c, cy_world = w, cy_clock = t, cy_rounds = [Visiting (p # ps)]\<rparr>" p ps ?now ways]
      Cons.prems by simp
  have s2: "coord_step ways \<lparr>cy_coord = c, cy_world = w, cy_clock = ?now, cy_rounds = [Settling ?d p ps]\<rparr>
      \<lparr>cy_coord = fst ?r, cy_world = snd ?r, cy_clock = ?later, cy_rounds = [Visiting ps]\<rparr>"
    using coord_step.settle_next [of 0 "\<lparr>cy_coord = c, cy_world = w, cy_clock = ?now, cy_rounds = [Settling ?d p ps]\<rparr>"
        ?d p ps ?later ways "fst ?r" "snd ?r"] assms(2) by simp
  obtain t' where "(coord_step ways)\<^sup>*\<^sup>* \<lparr>cy_coord = fst ?r, cy_world = snd ?r, cy_clock = ?later, cy_rounds = [Visiting ps]\<rparr>
     \<lparr>cy_coord = fst (evaluate_all ways clock (Suc i) ps ?r), cy_world = snd (evaluate_all ways clock (Suc i) ps ?r),
      cy_clock = t', cy_rounds = [Visiting []]\<rparr>"
    using Cons.IH [of ?later "Suc i" "fst ?r" "snd ?r"] assms(3) [of i] by auto
  then have "(coord_step ways)\<^sup>*\<^sup>* \<lparr>cy_coord = c, cy_world = w, cy_clock = t, cy_rounds = [Visiting (p # ps)]\<rparr>
     \<lparr>cy_coord = fst (evaluate_all ways clock (Suc i) ps ?r), cy_world = snd (evaluate_all ways clock (Suc i) ps ?r),
      cy_clock = t', cy_rounds = [Visiting []]\<rparr>"
    by (intro converse_rtranclp_into_rtranclp [where r = "coord_step ways", OF s1] converse_rtranclp_into_rtranclp [where r = "coord_step ways", OF s2])
  then show ?case by (auto simp: evaluate_one_def)
qed auto

section \<open>Every proposal is settled\<close>

definition reviewed :: "'v patch_proposal \<Rightarrow> 'v patch_proposal" where
  "reviewed p = p\<lparr>pp_retry := 0\<rparr>"

definition settled :: "('v, 'e) patch_decision list \<Rightarrow> 'v patch_proposal multiset" where
  "settled ds = {#reviewed (pd_proposal d). d \<in># mset [d \<leftarrow> ds. pd_decision d \<noteq> DecisionDelay]#}"

lemma reviewed_retry [simp]: "reviewed (p\<lparr>pp_retry := n\<rparr>) = reviewed p"
  by (simp add: reviewed_def)

lemma settled_append [simp]: "settled (ds @ es) = settled ds + settled es" "settled [] = {#}"
  by (simp_all add: settled_def)

lemma decide_delay: "decide now p c = DecisionDelay \<Longrightarrow> pp_retry p < max_proposal_retries"
  by (auto simp: decide_def Let_def delay_or_drop_def split: if_splits)

lemma evaluate_one_settles:
  assumes "evaluate_one ways now later p (c, w) = (c', w')"
  obtains d qs where "co_decisions c' = co_decisions c @ [d]" "co_proposals c' = co_proposals c @ qs"
    "add_mset (reviewed p) {#} = settled [d] + {#reviewed q. q \<in># mset qs#}"
    "\<forall>q \<in> set qs. pp_retry q = pp_retry p + 1 \<and> pp_retry p < max_proposal_retries"
proof (cases "decide now p c = DecisionDelay")
  case True
  show ?thesis
    by (rule that [of "\<lparr>pd_proposal = p\<lparr>pp_retry := pp_retry p + 1\<rparr>, pd_decision = DecisionDelay, pd_error = None\<rparr>"
          "[p\<lparr>pp_retry := pp_retry p + 1\<rparr>]"])
      (use assms True decide_delay [OF True] in \<open>auto simp: evaluate_one_def settle_def record_decision_def Let_def settled_def\<close>)
next
  case False
  then show ?thesis
    by (intro that [of "last (co_decisions c')" "[]"])
      (use assms in \<open>auto simp: evaluate_one_def settle_def record_decision_def Let_def settled_def
        split: coord_decision.splits prod.splits\<close>)
qed

lemma evaluate_all_settles:
  "\<exists>ds qs. co_decisions (fst (evaluate_all ways clock i ps s)) = co_decisions (fst s) @ ds
     \<and> co_proposals (fst (evaluate_all ways clock i ps s)) = co_proposals (fst s) @ qs
     \<and> {#reviewed p. p \<in># mset ps#} = settled ds + {#reviewed q. q \<in># mset qs#}
     \<and> (\<forall>q \<in> set qs. \<exists>p \<in> set ps. pp_retry q = pp_retry p + 1 \<and> pp_retry p < max_proposal_retries)"
proof (induction ps arbitrary: i s)
  case (Cons p ps)
  obtain c w c' w' where s: "s = (c, w)" "evaluate_one ways (fst (clock i)) (snd (clock i)) p (c, w) = (c', w')"
    by (cases s, cases "evaluate_one ways (fst (clock i)) (snd (clock i)) p s") blast
  obtain d qs where one: "co_decisions c' = co_decisions c @ [d]" "co_proposals c' = co_proposals c @ qs"
      "add_mset (reviewed p) {#} = settled [d] + {#reviewed q. q \<in># mset qs#}"
      "\<forall>q \<in> set qs. pp_retry q = pp_retry p + 1 \<and> pp_retry p < max_proposal_retries"
    by (rule evaluate_one_settles [OF s(2)])
  obtain ds qs2 where rest: "co_decisions (fst (evaluate_all ways clock (Suc i) ps (c', w'))) = co_decisions c' @ ds"
      "co_proposals (fst (evaluate_all ways clock (Suc i) ps (c', w'))) = co_proposals c' @ qs2"
      "{#reviewed p. p \<in># mset ps#} = settled ds + {#reviewed q. q \<in># mset qs2#}"
      "\<forall>q \<in> set qs2. \<exists>p \<in> set ps. pp_retry q = pp_retry p + 1 \<and> pp_retry p < max_proposal_retries"
    using Cons.IH [of "Suc i" "(c', w')"] by auto
  have "add_mset (reviewed p) {#reviewed p. p \<in># mset ps#} = add_mset (reviewed p) {#} + {#reviewed p. p \<in># mset ps#}"
    by simp
  also have "\<dots> = settled [d] + settled ds + {#reviewed q. q \<in># mset (qs @ qs2)#}"
    unfolding one(3) rest(3) by (simp add: ac_simps)
  also have "settled [d] + settled ds = settled (d # ds)" using settled_append(1) [of "[d]" ds] by simp
  finally have "{#reviewed p. p \<in># mset (p # ps)#} = settled (d # ds) + {#reviewed q. q \<in># mset (qs @ qs2)#}" by simp
  moreover have "\<forall>q \<in> set (qs @ qs2). \<exists>p \<in> set (p # ps). pp_retry q = pp_retry p + 1 \<and> pp_retry p < max_proposal_retries"
    using one(4) rest(4) by auto
  ultimately show ?case
    using s one(1,2) rest(1,2) by (intro exI [of _ "d # ds"] exI [of _ "qs @ qs2"] conjI) (simp_all del: image_mset_union)
qed (auto intro!: exI [of _ "[]"])

lemma evaluate_settles:
  "\<exists>ds. co_decisions (fst (evaluate ways clock s)) = co_decisions (fst s) @ ds
     \<and> {#reviewed p. p \<in># mset (co_proposals (fst s))#}
       = settled ds + {#reviewed q. q \<in># mset (co_proposals (fst (evaluate ways clock s)))#}
     \<and> (\<forall>q \<in> set (co_proposals (fst (evaluate ways clock s))).
          \<exists>p \<in> set (co_proposals (fst s)). pp_retry q = pp_retry p + 1 \<and> pp_retry p < max_proposal_retries)"
  using evaluate_all_settles [of ways clock 0 "co_proposals (fst s)" "((fst s)\<lparr>co_proposals := []\<rparr>, snd s)"]
  by (auto simp: evaluate_def take_proposals_def)

lemma rounds_settle:
  "\<forall>p \<in> set (co_proposals (fst s)). k \<le> pp_retry p \<and> pp_retry p \<le> max_proposal_retries \<Longrightarrow>
    let s' = fold (evaluate ways) clocks s in
    (\<exists>ds. co_decisions (fst s') = co_decisions (fst s) @ ds
      \<and> {#reviewed p. p \<in># mset (co_proposals (fst s))#} = settled ds + {#reviewed q. q \<in># mset (co_proposals (fst s'))#})
    \<and> (\<forall>q \<in> set (co_proposals (fst s')). k + int (length clocks) \<le> pp_retry q \<and> pp_retry q \<le> max_proposal_retries)"
proof (induction clocks arbitrary: s k)
  case (Cons clock clocks)
  let ?s = "evaluate ways clock s"
  obtain ds where ds: "co_decisions (fst ?s) = co_decisions (fst s) @ ds"
      "{#reviewed p. p \<in># mset (co_proposals (fst s))#} = settled ds + {#reviewed q. q \<in># mset (co_proposals (fst ?s))#}"
      "\<forall>q \<in> set (co_proposals (fst ?s)). \<exists>p \<in> set (co_proposals (fst s)). pp_retry q = pp_retry p + 1 \<and> pp_retry p < max_proposal_retries"
    using evaluate_settles [of ways clock s] by blast
  then have "\<forall>q \<in> set (co_proposals (fst ?s)). k + 1 \<le> pp_retry q \<and> pp_retry q \<le> max_proposal_retries"
    using Cons.prems by force
  note IH = Cons.IH [OF this, unfolded Let_def]
  then obtain es where es: "co_decisions (fst (fold (evaluate ways) clocks ?s)) = co_decisions (fst ?s) @ es"
      "{#reviewed p. p \<in># mset (co_proposals (fst ?s))#}
        = settled es + {#reviewed q. q \<in># mset (co_proposals (fst (fold (evaluate ways) clocks ?s)))#}" by blast
  have "\<exists>ds. co_decisions (fst (fold (evaluate ways) clocks ?s)) = co_decisions (fst s) @ ds
      \<and> {#reviewed p. p \<in># mset (co_proposals (fst s))#}
        = settled ds + {#reviewed q. q \<in># mset (co_proposals (fst (fold (evaluate ways) clocks ?s)))#}"
    using ds(1,2) es by (intro exI [of _ "ds @ es"]) (simp add: ac_simps)
  then show ?case using IH by (auto simp: Let_def algebra_simps)
qed (auto simp: Let_def intro!: exI [of _ "[]"])

text \<open>
  C35: Four rounds without new submissions leave no proposal pending, and the decisions they add other than delays
  are on exactly the proposals that were pending, each once: a proposal is applied, rejected or dropped, never lost
  and never decided twice.
\<close>

theorem proposals_settled:
  assumes "\<forall>p \<in> set (co_proposals c). 0 \<le> pp_retry p \<and> pp_retry p \<le> max_proposal_retries" "4 \<le> length clocks"
  shows "\<exists>ds. co_decisions (fst (fold (evaluate ways) clocks (c, w))) = co_decisions c @ ds
    \<and> settled ds = {#reviewed p. p \<in># mset (co_proposals c)#}
    \<and> co_proposals (fst (fold (evaluate ways) clocks (c, w))) = []"
proof -
  note rounds_settle [of "(c, w)" 0 ways clocks, unfolded Let_def]
  then have "\<exists>ds. co_decisions (fst (fold (evaluate ways) clocks (c, w))) = co_decisions c @ ds
      \<and> {#reviewed p. p \<in># mset (co_proposals c)#}
        = settled ds + {#reviewed q. q \<in># mset (co_proposals (fst (fold (evaluate ways) clocks (c, w))))#}"
    "\<forall>q \<in> set (co_proposals (fst (fold (evaluate ways) clocks (c, w)))).
       int (length clocks) \<le> pp_retry q \<and> pp_retry q \<le> max_proposal_retries"
    using assms(1) by auto
  moreover from this(2) assms(2) have "co_proposals (fst (fold (evaluate ways) clocks (c, w))) = []"
    by (cases "co_proposals (fst (fold (evaluate ways) clocks (c, w)))") (auto simp: max_proposal_retries_def)
  ultimately show ?thesis by auto
qed

text \<open>
  Delays for the rate limit use up the same retries: a proposal above the threshold is dropped when four rounds
  fall into a minute, although a round after it would have applied it.
\<close>

definition busy_coordinator :: "(nat, unit, unit) coordinator" where
  "busy_coordinator = (new_coordinator one_a_minute)\<lparr>co_proposals := [urgent_proposal],
     co_history := [\<lparr>ps_proposal = urgent_proposal, ps_applied_at = 0, ps_error = None\<rparr>]\<rparr>"

lemmas coord_run = Let_def evaluate_def take_proposals_def evaluate_one_def decide_def settle_def carry_out_def record_decision_def
  count_recent_def rate_window_def delay_or_drop_def source_ga_def max_proposal_retries_def busy_coordinator_def
  new_coordinator_def one_a_minute_def default_policy_def urgent_proposal_def counting_ways_def

lemma urgent_dropped:
  "map pd_decision (co_decisions (fst (fold (evaluate counting_ways) [\<lambda>i. (1, 1), \<lambda>i. (2, 2), \<lambda>i. (3, 3), \<lambda>i. (4, 4)] (busy_coordinator, 0))))
     = [DecisionDelay, DecisionDelay, DecisionDelay, DecisionDrop]"
  by (simp add: coord_run)

lemma proposals_settled_witness:
  "co_proposals busy_coordinator = [urgent_proposal]
    \<and> (\<exists>ds. co_decisions (fst (fold (evaluate counting_ways) [\<lambda>i. (1, 1), \<lambda>i. (2, 2), \<lambda>i. (3, 3), \<lambda>i. (4, 4)] (busy_coordinator, 0)))
         = co_decisions busy_coordinator @ ds
       \<and> settled ds = {#reviewed p. p \<in># mset (co_proposals busy_coordinator)#}
       \<and> co_proposals (fst (fold (evaluate counting_ways) [\<lambda>i. (1, 1), \<lambda>i. (2, 2), \<lambda>i. (3, 3), \<lambda>i. (4, 4)] (busy_coordinator, 0))) = [])"
proof -
  have "co_proposals busy_coordinator = [urgent_proposal]" by (simp add: busy_coordinator_def)
  moreover have "pp_retry urgent_proposal = 0" by (simp add: urgent_proposal_def)
  ultimately show ?thesis
    using proposals_settled [of busy_coordinator "[\<lambda>i. (1, 1), \<lambda>i. (2, 2), \<lambda>i. (3, 3), \<lambda>i. (4, 4)]" counting_ways 0]
    by (simp add: max_proposal_retries_def)
qed

section \<open>Self-healing\<close>

text \<open>A target is given the go-ahead at most as often as the policy allows, and its refusals add one record in all.\<close>

fun heal_times :: "string \<Rightarrow> (time \<times> string) list \<Rightarrow> ('v, 'e, 'd) coordinator \<Rightarrow> bool list \<times> ('v, 'e, 'd) coordinator" where
  "heal_times target [] c = ([], c)"
| "heal_times target ((now, ty) # xs) c =
     (case notify_attempt now target ty c of
        (ok, c1) \<Rightarrow> (case heal_times target xs c1 of (oks, c2) \<Rightarrow> (ok # oks, c2)))"

lemma heal_times_bounded:
  "heal_times target xs c = (oks, c') \<Longrightarrow> 0 \<le> co_attempts c target \<Longrightarrow>
    length (filter (\<lambda>ok. ok) oks) \<le> nat (pg_healing_retries (co_policy c) - co_attempts c target)
    \<and> length (co_healed c') \<le> Suc (length (co_healed c))
    \<and> (co_attempts c target > pg_healing_retries (co_policy c) \<longrightarrow> co_healed c' = co_healed c)"
proof (induction target xs c arbitrary: oks c' rule: heal_times.induct)
  case (2 target now ty xs c)
  obtain ok c1 where one: "notify_attempt now target ty c = (ok, c1)" by (cases "notify_attempt now target ty c") blast
  obtain oks2 where rest: "heal_times target xs c1 = (oks2, c')" "oks = ok # oks2"
    using 2(2) one by (auto split: prod.splits)
  show ?case
    using 2(1) [OF one [symmetric] rest(1)] rest(2) 2(3) one
    by (auto simp: notify_attempt_def Let_def split: if_splits)
qed auto

end
