(* ===== verification/Evidence_Store.thy ===== *)
theory Evidence_Store
  imports Go_Prelude
begin

text \<open>
  Package \<open>internal/evidence\<close> (records, the in-memory store, collectors) and the reading of recent fitness from it
  (\<open>recentFitnessSummary\<close> of \<open>internal/ares_bootstrap\<close>). A payload is the JSON value its bytes decode to, \<open>None\<close>
  when there are no bytes. A zero time in a filter is \<open>None\<close>.
\<close>

section \<open>Records\<close>

definition kind_execution_trace :: string where "kind_execution_trace = ''execution_trace''"
definition kind_failure :: string where "kind_failure = ''failure''"
definition kind_knowledge :: string where "kind_knowledge = ''knowledge''"
definition kind_insight :: string where "kind_insight = ''insight''"
definition kind_fitness :: string where "kind_fitness = ''fitness''"
definition kind_dimension_eval :: string where "kind_dimension_eval = ''dimension_eval''"

record evidence =
  ev_id :: string
  ev_source :: string
  ev_kind :: string
  ev_payload :: "goval option"
  ev_meta :: "string \<rightharpoonup> string"
  ev_at :: time
  ev_ttl :: duration

fun hex_digit :: "nat \<Rightarrow> char" where
  "hex_digit d = (if d < 10 then char_of (48 + d) else char_of (87 + d))"

fun go_hex :: "nat \<Rightarrow> string" where
  "go_hex n = (if n < 16 then [hex_digit n] else go_hex (n div 16) @ [hex_digit (n mod 16)])"

text \<open>An option is a change of the record. \<open>raw\<close> is what \<open>json.Marshal\<close> made of the payload.\<close>

type_synonym evidence_option = "evidence \<Rightarrow> evidence"

definition new_evidence :: "time \<Rightarrow> time \<Rightarrow> string \<Rightarrow> string \<Rightarrow> goval option \<Rightarrow> evidence_option list \<Rightarrow> evidence" where
  "new_evidence now later source kind raw opts =
     fold (\<lambda>opt e. opt e) opts
       \<lparr>ev_id = ''ev_'' @ go_hex (nat now), ev_source = source, ev_kind = kind, ev_payload = raw, ev_meta = Map.empty,
        ev_at = later, ev_ttl = 0\<rparr>"

definition with_metadata :: "string \<Rightarrow> string \<Rightarrow> evidence_option" where
  "with_metadata k v e = e\<lparr>ev_meta := (ev_meta e)(k \<mapsto> v)\<rparr>"

definition evidence_ttl :: "duration \<Rightarrow> evidence_option" where
  "evidence_ttl d e = e\<lparr>ev_ttl := d\<rparr>"

definition with_id :: "string \<Rightarrow> evidence_option" where
  "with_id i e = (if i \<noteq> '''' then e\<lparr>ev_id := i\<rparr> else e)"

section \<open>The in-memory store\<close>

record evidence_filter =
  ef_source :: string
  ef_kind :: string
  ef_since :: "time option"
  ef_until :: "time option"
  ef_limit :: int

type_synonym evidence_store = "evidence list"

definition evidence_append :: "evidence \<Rightarrow> evidence_store \<Rightarrow> evidence_store" where
  "evidence_append e s = s @ [e]"

definition evidence_matches :: "evidence_filter \<Rightarrow> evidence \<Rightarrow> bool" where
  "evidence_matches f e \<longleftrightarrow>
     (ef_source f = '''' \<or> ev_source e = ef_source f) \<and> (ef_kind f = '''' \<or> ev_kind e = ef_kind f)
     \<and> (case ef_since f of None \<Rightarrow> True | Some t \<Rightarrow> \<not> ev_at e < t)
     \<and> (case ef_until f of None \<Rightarrow> True | Some t \<Rightarrow> \<not> ev_at e > t)"

text \<open>\<open>srt\<close> is \<open>sort.Slice\<close>.\<close>

type_synonym evidence_sort = "(evidence \<Rightarrow> evidence \<Rightarrow> bool) \<Rightarrow> evidence list \<Rightarrow> evidence list"

definition evidence_query :: "evidence_sort \<Rightarrow> evidence_filter \<Rightarrow> evidence_store \<Rightarrow> evidence list" where
  "evidence_query srt f s =
     (let result = srt (\<lambda>x y. ev_at x > ev_at y) [e \<leftarrow> s. evidence_matches f e]
      in if ef_limit f > 0 \<and> int (length result) > ef_limit f then take (nat (ef_limit f)) result else result)"

text \<open>Decoding into a \<open>float64\<close>: a number, or null, which leaves the zero value.\<close>

fun decode_number :: "goval \<Rightarrow> rat option" where
  "decode_number (GInt i) = Some (of_int i)"
| "decode_number (GFloat r) = Some r"
| "decode_number GNil = Some 0"
| "decode_number _ = None"

definition evidence_aggregate :: "evidence_sort \<Rightarrow> evidence_filter \<Rightarrow> (rat list \<Rightarrow> rat) \<Rightarrow> evidence_store \<Rightarrow> rat" where
  "evidence_aggregate srt f fn s =
     (let values = List.map_filter (\<lambda>e. Option.bind (ev_payload e) decode_number) (evidence_query srt f s)
      in if values = [] then 0 else fn values)"

section \<open>Collectors\<close>

text \<open>A collector has a store or none; with none it drops what it is given.\<close>

definition collector_emit ::
  "string \<Rightarrow> time \<Rightarrow> time \<Rightarrow> string \<Rightarrow> goval option \<Rightarrow> evidence_option list \<Rightarrow> evidence_store option \<Rightarrow> evidence_store option" where
  "collector_emit source now later kind raw opts st =
     map_option (evidence_append (new_evidence now later source kind raw (opts @ [with_id '''']))) st"

fun meta_options :: "string list \<Rightarrow> evidence_option list" where
  "meta_options (k # v # kvs) = with_metadata k v # meta_options kvs"
| "meta_options _ = []"

definition collector_emit_with_meta ::
  "string \<Rightarrow> time \<Rightarrow> time \<Rightarrow> string \<Rightarrow> goval option \<Rightarrow> string list \<Rightarrow> evidence_store option \<Rightarrow> evidence_store option" where
  "collector_emit_with_meta source now later kind raw kvs st =
     (case st of None \<Rightarrow> None | Some s \<Rightarrow> collector_emit source now later kind raw (meta_options kvs) (Some s))"

section \<open>Recent fitness\<close>

text \<open>
  Decoding into a struct with the one field \<open>value\<close>: names match whatever their case, the last match counts, a null
  leaves the field alone, and a value of another type is an error, as is a payload that is neither object nor null.
\<close>

fun decode_members :: "(string \<times> goval) list \<Rightarrow> rat \<Rightarrow> rat option" where
  "decode_members [] acc = Some acc"
| "decode_members ((k, v) # kvs) acc =
     (if map ascii_lower k \<noteq> ''value'' then decode_members kvs acc
      else if v = GNil then decode_members kvs acc
      else (case decode_number v of None \<Rightarrow> None | Some r \<Rightarrow> decode_members kvs r))"

fun decode_fitness :: "goval \<Rightarrow> rat option" where
  "decode_fitness (GMap kvs) = decode_members kvs 0"
| "decode_fitness GNil = Some 0"
| "decode_fitness _ = None"

fun fitness_totals :: "evidence list \<Rightarrow> rat \<Rightarrow> nat \<Rightarrow> rat \<times> nat" where
  "fitness_totals [] acc n = (acc, n)"
| "fitness_totals (e # es) acc n =
     (case ev_payload e of
        None \<Rightarrow> fitness_totals es acc n
      | Some raw \<Rightarrow>
          (case decode_fitness raw of
             None \<Rightarrow> fitness_totals es acc n
           | Some v \<Rightarrow> if v < 0 \<or> v > 1 then fitness_totals es acc n
                       else fitness_totals es (acc + v) (Suc n)))"

definition recent_fitness_summary :: "evidence_sort \<Rightarrow> evidence_store option \<Rightarrow> string \<Rightarrow> int \<Rightarrow> rat \<times> nat \<times> bool" where
  "recent_fitness_summary srt st source limit =
     (case st of
        None \<Rightarrow> (0, 0, False)
      | Some s \<Rightarrow>
          (case fitness_totals (evidence_query srt \<lparr>ef_source = source, ef_kind = kind_fitness, ef_since = None,
               ef_until = None, ef_limit = limit\<rparr> s) 0 0 of
             (acc, n) \<Rightarrow> if n = 0 then (0, 0, False) else (acc / of_nat n, n, True)))"

section \<open>What a query returns\<close>

lemma evidence_sort_desc:
  "slice_sort srt \<Longrightarrow> sorted (map (\<lambda>e. - ev_at e) (srt (\<lambda>x y. ev_at x > ev_at y) xs))
    \<and> mset (srt (\<lambda>x y. ev_at x > ev_at y) xs) = mset xs"
proof -
  assume "slice_sort srt"
  then have "sorted (map (\<lambda>e. - ev_at e) (srt (\<lambda>x y. - ev_at x < - ev_at y) xs))
    \<and> mset (srt (\<lambda>x y. - ev_at x < - ev_at y) xs) = mset xs"
    unfolding slice_sort_def by (rule allE [where x = "\<lambda>e. - ev_at e"]) blast
  then show ?thesis by simp
qed

text \<open>
  The newest matching records, newest first, within the limit: nothing left out is newer than anything returned.
\<close>

lemma evidence_query_newest:
  assumes "slice_sort srt"
  shows "\<exists>rest. mset (evidence_query srt f s @ rest) = mset [e \<leftarrow> s. evidence_matches f e]
    \<and> sorted (map (\<lambda>e. - ev_at e) (evidence_query srt f s @ rest))
    \<and> (0 < ef_limit f \<longrightarrow> int (length (evidence_query srt f s)) \<le> ef_limit f)
    \<and> (rest \<noteq> [] \<longrightarrow> int (length (evidence_query srt f s)) = ef_limit f)"
proof -
  let ?all = "srt (\<lambda>x y. ev_at x > ev_at y) [e \<leftarrow> s. evidence_matches f e]"
  have all: "sorted (map (\<lambda>e. - ev_at e) ?all)" "mset ?all = mset [e \<leftarrow> s. evidence_matches f e]"
    using evidence_sort_desc [OF assms] by blast+
  show ?thesis
  proof (cases "ef_limit f > 0 \<and> int (length ?all) > ef_limit f")
    case True
    then have "evidence_query srt f s @ drop (nat (ef_limit f)) ?all = ?all" "int (length (evidence_query srt f s)) = ef_limit f"
      by (simp add: evidence_query_def Let_def, auto simp: evidence_query_def Let_def min_def nat_less_iff)
    then show ?thesis using all by (intro exI [of _ "drop (nat (ef_limit f)) ?all"]) simp
  next
    case False
    then have "evidence_query srt f s @ [] = ?all" unfolding evidence_query_def Let_def by (subst if_not_P) simp_all
    then show ?thesis using all False by (intro exI [of _ "[]"]) (auto simp: not_less)
  qed
qed

lemma fitness_totals_eq:
  "fitness_totals es acc n =
     (let vs = [v \<leftarrow> List.map_filter (\<lambda>e. Option.bind (ev_payload e) decode_fitness) es. 0 \<le> v \<and> v \<le> 1]
      in (acc + sum_list vs, n + length vs))"
  by (induction es acc n rule: fitness_totals.induct)
    (auto simp: Let_def List.map_filter_simps not_less split: option.splits)

text \<open>A summary is a mean of fitness values, so it lies between 0 and 1.\<close>

lemma recent_fitness_bounds:
  assumes "recent_fitness_summary srt st source limit = (mean, n, ok)"
  shows "0 \<le> mean \<and> mean \<le> 1 \<and> (ok \<longleftrightarrow> n > 0)"
proof -
  have "0 \<le> sum_list vs \<and> sum_list vs \<le> of_nat (length vs)" if "\<forall>v \<in> set vs. 0 \<le> v \<and> v \<le> 1" for vs :: "rat list"
    using that by (induction vs) auto
  from this [of "[v \<leftarrow> vs. 0 \<le> v \<and> v \<le> 1]" for vs :: "rat list"]
  show ?thesis using assms
    by (auto simp: recent_fitness_summary_def fitness_totals_eq Let_def divide_le_eq split: option.splits if_splits)
qed

end
