(* ===== verification/Deployment.thy ===== *)
theory Deployment
  imports Evolution_Coordinator Evidence_Store
begin

text \<open>
  Package \<open>internal/evolution/deployment\<close> (a patch goes from the staging to the live runtime when its shadow score
  reaches a threshold) and its wiring in \<open>internal/ares_bootstrap\<close>: the staging runtime checks that the patch has an
  executor and scores it by recent fitness evidence, the live runtime is the patch registry, and an adapter makes
  the pipeline the coordinator's deployer.
\<close>

section \<open>The pipeline\<close>


record deployment_config =
  dc_enabled :: bool
  dc_sample_size :: int
  dc_promotion :: rat
  dc_rollback :: rat
  dc_timeout :: duration

definition default_deployment_config :: deployment_config where
  "default_deployment_config = \<lparr>dc_enabled = False, dc_sample_size = 5, dc_promotion = 5 / 100, dc_rollback = 10 / 100,
     dc_timeout = 30 * 1000000000\<rparr>"

datatype deployment_status = DeploymentPromoted | DeploymentRolledBack | DeploymentRejected | DeploymentDisabled

fun deployment_status_name :: "deployment_status \<Rightarrow> string" where
  "deployment_status_name DeploymentPromoted = ''promoted''"
| "deployment_status_name DeploymentRolledBack = ''rolled_back''"
| "deployment_status_name DeploymentRejected = ''rejected''"
| "deployment_status_name DeploymentDisabled = ''disabled''"

record deployment_record =
  dr_patch :: string
  dr_status :: deployment_status
  dr_shadow :: rat
  dr_live :: rat
  dr_at :: time

record deployment_pipeline =
  dl_config :: deployment_config
  dl_history :: "deployment_record list"

text \<open>
  The staging runtime (apply, evaluate, roll back) and the live one (apply), each \<open>None\<close> when it is nil. An
  evaluation answers an error or a score; \<open>timeout\<close> is the limit it runs under.
\<close>

record ('v, 'e, 'w) staging_runtime =
  sg_apply :: "'v runtime_patch \<Rightarrow> 'w \<Rightarrow> ('e + 'v runtime_patch option) \<times> 'w"
  sg_evaluate :: "duration \<Rightarrow> 'w \<Rightarrow> ('e + rat) \<times> 'w"
  sg_rollback :: "'v runtime_patch option \<Rightarrow> 'w \<Rightarrow> 'e option \<times> 'w"

type_synonym ('v, 'e, 'w) live_runtime = "'v runtime_patch \<Rightarrow> 'w \<Rightarrow> ('e + 'v runtime_patch option) \<times> 'w"

datatype 'e deploy_error = ErrRuntimeNil | ErrStagingApply 'e | ErrShadowEvaluate 'e | ErrLiveApply 'e

definition go_int_text :: "int \<Rightarrow> string" where
  "go_int_text i = (if i < 0 then CHR ''-'' # go_itoa (nat (- i)) else go_itoa (nat i))"

definition deployed_id :: "time \<Rightarrow> 'v runtime_patch \<Rightarrow> string" where
  "deployed_id now p = (if pt_id p = '''' then ''patch-'' @ go_int_text now else pt_id p)"

definition log_deployment ::
  "deployment_record \<Rightarrow> 'e deploy_error option \<Rightarrow> 'w \<Rightarrow> deployment_pipeline
    \<Rightarrow> deployment_record \<times> 'e deploy_error option \<times> deployment_pipeline \<times> 'w" where
  "log_deployment r err w dl = (r, err, dl\<lparr>dl_history := dl_history dl @ [r]\<rparr>, w)"

definition deploy_patch ::
  "('v, 'e, 'w) staging_runtime option \<Rightarrow> ('v, 'e, 'w) live_runtime option \<Rightarrow> time \<Rightarrow> time \<Rightarrow> 'v runtime_patch
    \<Rightarrow> deployment_pipeline \<times> 'w \<Rightarrow> deployment_record \<times> 'e deploy_error option \<times> deployment_pipeline \<times> 'w" where
  "deploy_patch staging live now later p s =
     (case s of (dl, w) \<Rightarrow>
      let rec0 = \<lparr>dr_patch = deployed_id now p, dr_status = DeploymentPromoted, dr_shadow = 0, dr_live = 0, dr_at = later\<rparr> in
      if \<not> dc_enabled (dl_config dl) then log_deployment (rec0\<lparr>dr_status := DeploymentDisabled\<rparr>) None w dl
      else (case (staging, live) of
        (Some sg, Some lv) \<Rightarrow>
          (case sg_apply sg p w of
             (Inl e, w1) \<Rightarrow> log_deployment (rec0\<lparr>dr_status := DeploymentRejected\<rparr>) (Some (ErrStagingApply e)) w1 dl
           | (Inr rollback, w1) \<Rightarrow>
               (case sg_evaluate sg (dc_timeout (dl_config dl)) w1 of
                  (Inl e, w2) \<Rightarrow>
                    log_deployment (rec0\<lparr>dr_status := DeploymentRejected\<rparr>) (Some (ErrShadowEvaluate e)) (snd (sg_rollback sg rollback w2)) dl
                | (Inr score, w2) \<Rightarrow>
                    (let rec1 = rec0\<lparr>dr_shadow := score\<rparr> in
                     if score < dc_promotion (dl_config dl)
                     then log_deployment (rec1\<lparr>dr_status := DeploymentRejected\<rparr>) None (snd (sg_rollback sg rollback w2)) dl
                     else (case lv p w2 of
                             (Inl e, w3) \<Rightarrow>
                               log_deployment (rec1\<lparr>dr_status := DeploymentRolledBack\<rparr>) (Some (ErrLiveApply e))
                                 (snd (sg_rollback sg rollback w3)) dl
                           | (Inr live_rollback, w3) \<Rightarrow> log_deployment rec1 None w3 dl))))
      | _ \<Rightarrow> log_deployment (rec0\<lparr>dr_status := DeploymentRejected\<rparr>) (Some ErrRuntimeNil) w dl))"

section \<open>Wiring\<close>

text \<open>
  The world of the wired runtimes: the registry and what its executors act on, the evidence store, the counter of
  the staging runtime and the records of the pipeline.
\<close>

record ('x, 'w) deploy_world =
  dw_registry :: "'x patch_registry"
  dw_live :: 'w
  dw_evidence :: "evidence_store option"
  dw_applied :: int
  dw_records :: "deployment_record list"

datatype 'e wired_error = ErrPreflight | ErrLive "'e patch_error"

datatype 'e adapter_error = ErrPipeline "'e wired_error deploy_error" | ErrNotApplied deployment_status | ErrDirect "'e patch_error"

definition staging_apply :: "'v runtime_patch \<Rightarrow> ('x, 'w) deploy_world \<Rightarrow> ('e wired_error + 'v runtime_patch option) \<times> ('x, 'w) deploy_world" where
  "staging_apply p dw =
     (if \<not> registry_can_apply (pt_target p) (dw_registry dw) then (Inl ErrPreflight, dw)
      else (Inr (Some p), dw\<lparr>dw_applied := dw_applied dw + 1\<rparr>))"

definition staging_evaluate :: "evidence_sort \<Rightarrow> duration \<Rightarrow> ('x, 'w) deploy_world \<Rightarrow> ('e wired_error + rat) \<times> ('x, 'w) deploy_world" where
  "staging_evaluate srt timeout dw =
     (if dw_evidence dw = None then (Inr 0, dw)
      else (case recent_fitness_summary srt (dw_evidence dw) ''workflow'' 50 of
              (mean, n, ok) \<Rightarrow> if \<not> ok \<or> n = 0 then (Inr 0, dw) else (Inr mean, dw)))"

definition staging_rollback :: "'v runtime_patch option \<Rightarrow> ('x, 'w) deploy_world \<Rightarrow> 'e wired_error option \<times> ('x, 'w) deploy_world" where
  "staging_rollback rollback dw =
     (if dw_applied dw > 0 then (None, dw\<lparr>dw_applied := dw_applied dw - 1\<rparr>) else (None, dw))"

definition apply_live ::
  "('x, 'v, 'e, 'w) patch_run \<Rightarrow> 'v runtime_patch \<Rightarrow> ('x, 'w) deploy_world \<Rightarrow> 'e patch_error option \<times> ('x, 'w) deploy_world" where
  "apply_live run p dw =
     (case registry_apply run p (dw_registry dw, dw_live dw) of
        (res, r, w) \<Rightarrow> ((case res of Inl e \<Rightarrow> Some e | Inr _ \<Rightarrow> None), dw\<lparr>dw_registry := r, dw_live := w\<rparr>))"

definition live_apply ::
  "('x, 'v, 'e, 'w) patch_run \<Rightarrow> 'v runtime_patch \<Rightarrow> ('x, 'w) deploy_world
    \<Rightarrow> ('e wired_error + 'v runtime_patch option) \<times> ('x, 'w) deploy_world" where
  "live_apply run p dw =
     (case apply_live run p dw of
        (Some e, dw1) \<Rightarrow> (Inl (ErrLive e), dw1)
      | (None, dw1) \<Rightarrow> (Inr (Some p), dw1))"

definition wired_staging :: "evidence_sort \<Rightarrow> ('v, 'e wired_error, ('x, 'w) deploy_world) staging_runtime" where
  "wired_staging srt = \<lparr>sg_apply = staging_apply, sg_evaluate = staging_evaluate srt, sg_rollback = staging_rollback\<rparr>"

text \<open>The adapter: what the pipeline did not promote is an error, although the pipeline's own error is nil.\<close>

definition adapter_deploy ::
  "('x, 'v, 'e, 'w) patch_run \<Rightarrow> evidence_sort \<Rightarrow> time \<Rightarrow> time \<Rightarrow> deployment_config \<Rightarrow> 'v runtime_patch
    \<Rightarrow> ('x, 'w) deploy_world \<Rightarrow> 'e adapter_error option \<times> ('x, 'w) deploy_world" where
  "adapter_deploy run srt now later cfg p dw =
     (case deploy_patch (Some (wired_staging srt)) (Some (live_apply run)) now later p
             (\<lparr>dl_config = cfg, dl_history = dw_records dw\<rparr>, dw) of
        (r, err, dl, dw1) \<Rightarrow>
          ((case err of
              Some e \<Rightarrow> Some (ErrPipeline e)
            | None \<Rightarrow> if dr_status r \<noteq> DeploymentPromoted then Some (ErrNotApplied (dr_status r)) else None),
           dw1\<lparr>dw_records := dl_history dl\<rparr>))"

text \<open>The coordinator's ways in the wired program; \<open>clock\<close> gives the pipeline's readings.\<close>

definition wired_ways ::
  "('x, 'v, 'e, 'w) patch_run \<Rightarrow> evidence_sort \<Rightarrow> time \<times> time
    \<Rightarrow> ('v, 'e adapter_error, deployment_config, ('x, 'w) deploy_world) patch_ways" where
  "wired_ways run srt clock =
     \<lparr>pw_direct = (\<lambda>p dw. case apply_live run p dw of (err, dw1) \<Rightarrow> (map_option ErrDirect err, dw1)),
      pw_enabled = dc_enabled,
      pw_deploy = adapter_deploy run srt (fst clock) (snd clock)\<rparr>"

end
