(* ===== verification/Deployment_Props.thy ===== *)
theory Deployment_Props
  imports Deployment Evolution_Props
begin

text \<open>The promotion gate: what has to hold before a patch that is deployed touches the live runtime.\<close>

definition shadow_score :: "evidence_sort \<Rightarrow> ('x, 'w) deploy_world \<Rightarrow> rat" where
  "shadow_score srt dw =
     (case recent_fitness_summary srt (dw_evidence dw) ''workflow'' 50 of (mean, n, ok) \<Rightarrow> if ok then mean else 0)"

definition clears_gate :: "evidence_sort \<Rightarrow> deployment_config \<Rightarrow> 'v runtime_patch \<Rightarrow> ('x, 'w) deploy_world \<Rightarrow> bool" where
  "clears_gate srt cfg p dw \<longleftrightarrow> dc_enabled cfg \<and> registry_can_apply (pt_target p) (dw_registry dw)
     \<and> dc_promotion cfg \<le> shadow_score srt dw"

lemma staging_evaluate_score: "staging_evaluate srt timeout dw = (Inr (shadow_score srt dw), dw)"
proof (cases "recent_fitness_summary srt (dw_evidence dw) ''workflow'' 50")
  case (fields mean n ok)
  then show ?thesis
    using recent_fitness_bounds [OF fields]
    by (auto simp: staging_evaluate_def shadow_score_def recent_fitness_summary_def split: option.splits)
qed

lemma shadow_score_update [simp]: "shadow_score srt (dw\<lparr>dw_applied := n\<rparr>) = shadow_score srt dw"
  by (simp add: shadow_score_def)

text \<open>A patch that does not clear the gate is reported as an error and leaves both runtimes as they were.\<close>

lemma adapter_refuses:
  assumes "adapter_deploy run srt now later cfg p dw = (err, dw')" "\<not> clears_gate srt cfg p dw" "0 \<le> dw_applied dw"
  shows "err \<noteq> None \<and> dw' = dw\<lparr>dw_records := dw_records dw'\<rparr> \<and> length (dw_records dw') = Suc (length (dw_records dw))"
  using assms
  by (auto simp: adapter_deploy_def deploy_patch_def log_deployment_def wired_staging_def staging_apply_def Let_def
      staging_evaluate_score staging_rollback_def clears_gate_def not_le split: if_splits)

text \<open>One that does is applied by the live runtime, and the answer is the registry's.\<close>

lemma adapter_promotes:
  assumes "adapter_deploy run srt now later cfg p dw = (err, dw')" "clears_gate srt cfg p dw"
    and "registry_apply run p (dw_registry dw, dw_live dw) = (res, r, w)"
  shows "dw_registry dw' = r \<and> dw_live dw' = w \<and> (err = None \<longleftrightarrow> res = Inr ())
    \<and> length (dw_records dw') = Suc (length (dw_records dw))"
  using assms
  by (auto simp: adapter_deploy_def deploy_patch_def log_deployment_def wired_staging_def staging_apply_def Let_def
      staging_evaluate_score staging_rollback_def clears_gate_def live_apply_def apply_live_def split: sum.splits if_splits)

text \<open>With a positive threshold the gate needs evidence.\<close>

lemma gate_needs_evidence:
  "clears_gate srt cfg p dw \<Longrightarrow> 0 < dc_promotion cfg \<Longrightarrow>
    \<exists>mean n. recent_fitness_summary srt (dw_evidence dw) ''workflow'' 50 = (mean, n, True) \<and> 0 < n \<and> dc_promotion cfg \<le> mean"
  using recent_fitness_bounds [of srt "dw_evidence dw" "''workflow''" 50]
  by (auto simp: clears_gate_def shadow_score_def split: prod.splits if_splits)

text \<open>
  A configuration that only switches deployment on has the threshold 0: every patch with an executor is promoted,
  with no evidence at all. The default configuration, with the threshold 0.05, is not used anywhere.
\<close>

lemma zero_threshold_promotes:
  "dc_enabled cfg \<Longrightarrow> dc_promotion cfg = 0 \<Longrightarrow> registry_can_apply (pt_target p) (dw_registry dw) \<Longrightarrow> dw_evidence dw = None
    \<Longrightarrow> clears_gate srt cfg p dw"
  by (simp add: clears_gate_def shadow_score_def recent_fitness_summary_def)

text \<open>The score is that of the evidence, whatever the patch: two patches for registered targets pass or fail together.\<close>

lemma gate_ignores_patch:
  "registry_can_apply (pt_target p) (dw_registry dw) \<Longrightarrow> registry_can_apply (pt_target q) (dw_registry dw)
    \<Longrightarrow> clears_gate srt cfg p dw \<longleftrightarrow> clears_gate srt cfg q dw"
  by (simp add: clears_gate_def)

lemma evaluate_one_quiet:
  assumes "evaluate_one ways now later p (c, w) = (c', w')" "w' \<noteq> w"
  shows "decide now p c = DecisionApply"
  using assms by (auto simp: evaluate_one_def settle_def Let_def split: coord_decision.splits)

text \<open>
  C36: In the wired program, when the pipeline is on with a positive threshold, a turn of the coordinator changes the
  registry or what its executors act on only if the policy authorises the proposal, fewer patches than its maximum
  were applied in the last minute, the target has an executor and there is recent valid workflow fitness with a mean
  of at least the threshold. Then the change is exactly the registry's application of the patch, and the history
  shows no error just when the registry succeeded.
\<close>

theorem promotion_gated:
  assumes "evaluate_one (wired_ways run srt clk) now later p (c, dw) = (c', dw')"
    and "co_deployer c = Some cfg" "dc_enabled cfg" "0 < dc_promotion cfg" "0 \<le> dw_applied dw"
    and "(dw_registry dw', dw_live dw') \<noteq> (dw_registry dw, dw_live dw)"
  shows "authorised (co_policy c) p \<and> count_recent now rate_window (co_history c) < pg_max_per_minute (co_policy c)
    \<and> registry_can_apply (pt_target (pp_patch p)) (dw_registry dw)
    \<and> (\<exists>mean n. recent_fitness_summary srt (dw_evidence dw) ''workflow'' 50 = (mean, n, True) \<and> 0 < n \<and> dc_promotion cfg \<le> mean)
    \<and> (\<exists>res r. registry_apply run (pp_patch p) (dw_registry dw, dw_live dw) = (res, dw_registry dw', dw_live dw')
        \<and> co_history c' = co_history c @ [r] \<and> (ps_error r = None \<longleftrightarrow> res = Inr ()))"
proof -
  have go: "decide now p c = DecisionApply" using evaluate_one_quiet [OF assms(1)] assms(6) by auto
  obtain err where deploy: "adapter_deploy run srt (fst clk) (snd clk) cfg (pp_patch p) dw = (err, dw')"
      and c': "co_history c' = co_history c @ [\<lparr>ps_proposal = p, ps_applied_at = later, ps_error = err\<rparr>]"
    using assms(1-3) go
    by (auto simp: evaluate_one_def settle_def Let_def carry_out_def wired_ways_def record_decision_def split: prod.splits)
  have gate: "clears_gate srt cfg (pp_patch p) dw"
  proof (rule ccontr)
    assume "\<not> clears_gate srt cfg (pp_patch p) dw"
    then have "dw' = dw\<lparr>dw_records := dw_records dw'\<rparr>" using adapter_refuses [OF deploy] assms(5) by blast
    then have "dw_registry dw' = dw_registry dw \<and> dw_live dw' = dw_live dw"
      by (metis deploy_world.select_convs(1,2) deploy_world.surjective deploy_world.update_convs(5))
    then show False using assms(6) by simp
  qed
  obtain res r w where res: "registry_apply run (pp_patch p) (dw_registry dw, dw_live dw) = (res, r, w)"
    by (cases "registry_apply run (pp_patch p) (dw_registry dw, dw_live dw)") auto
  show ?thesis
    using decide_apply [OF go] gate gate_needs_evidence [OF gate assms(4)] adapter_promotes [OF deploy gate res] res c'
    by (auto simp: clears_gate_def)
qed

definition adding_run :: "(unit, nat, unit, nat) patch_run" where
  "adding_run x p w = (None, None, w + pt_value p)"

definition deploying :: deployment_config where
  "deploying = default_deployment_config\<lparr>dc_enabled := True\<rparr>"

definition seen_world :: "(unit, nat) deploy_world" where
  "seen_world = \<lparr>dw_registry = new_registry\<lparr>pr_executors := [''scheduler'' \<mapsto> ()]\<rparr>, dw_live = 0,
     dw_evidence = Some [new_evidence 1 2 ''workflow'' kind_fitness (Some (GMap [(''Value'', GFloat (9 / 10))])) []],
     dw_applied = 0, dw_records = []\<rparr>"

definition ready_coordinator :: "(nat, unit adapter_error, deployment_config) coordinator" where
  "ready_coordinator = set_deployer (Some deploying) (new_coordinator default_policy)"

lemma lower_value: "map ascii_lower ''Value'' = ''value''"
  by code_simp

lemma seen_fitness: "recent_fitness_summary insertion_sort (dw_evidence seen_world) ''workflow'' 50 = (9 / 10, 1, True)"
  by (simp add: recent_fitness_summary_def seen_world_def evidence_query_def evidence_matches_def insertion_sort_def Let_def
      new_evidence_def lower_value [simplified] kind_fitness_def)

lemma ready_deploys:
  assumes "evaluate_one (wired_ways adding_run insertion_sort (5, 6)) 4 7 urgent_proposal (ready_coordinator, seen_world) = (c', dw')"
  shows "dw_live dw' = 1"
proof -
  have res: "registry_apply adding_run (pp_patch urgent_proposal) (dw_registry seen_world, dw_live seen_world)
      = (Inr (), mark_applied (pp_patch urgent_proposal) (dw_registry seen_world), 1)"
    by (simp add: registry_apply_def adding_run_def seen_world_def urgent_proposal_def already_applied_def new_registry_def)
  have "clears_gate insertion_sort deploying (pp_patch urgent_proposal) seen_world"
    using seen_fitness
    by (simp add: clears_gate_def shadow_score_def deploying_def default_deployment_config_def)
      (simp add: registry_can_apply_def seen_world_def urgent_proposal_def)
  moreover have "decide 4 urgent_proposal ready_coordinator = DecisionApply"
    by (simp add: decide_def ready_coordinator_def set_deployer_def new_coordinator_def default_policy_def urgent_proposal_def
        count_recent_def source_ga_def)
  moreover have "co_deployer ready_coordinator = Some deploying" "dc_enabled deploying"
    by (simp_all add: ready_coordinator_def set_deployer_def deploying_def)
  moreover obtain err where "adapter_deploy adding_run insertion_sort 5 6 deploying (pp_patch urgent_proposal) seen_world = (err, dw')"
    using assms calculation(2-4)
    by (auto simp: evaluate_one_def settle_def Let_def carry_out_def wired_ways_def split: prod.splits)
  ultimately show ?thesis using adapter_promotes [OF _ _ res] by blast
qed

lemma promotion_gated_witness:
  "\<exists>c' dw'. evaluate_one (wired_ways adding_run insertion_sort (5, 6)) 4 7 urgent_proposal (ready_coordinator, seen_world) = (c', dw')
    \<and> dw_live seen_world = 0 \<and> dw_live dw' = 1 \<and> authorised (co_policy ready_coordinator) urgent_proposal
    \<and> (\<exists>mean n. recent_fitness_summary insertion_sort (dw_evidence seen_world) ''workflow'' 50 = (mean, n, True)
        \<and> 0 < n \<and> dc_promotion deploying \<le> mean)"
proof -
  obtain c' dw' where run:
    "evaluate_one (wired_ways adding_run insertion_sort (5, 6)) 4 7 urgent_proposal (ready_coordinator, seen_world) = (c', dw')"
    by (cases "evaluate_one (wired_ways adding_run insertion_sort (5, 6)) 4 7 urgent_proposal (ready_coordinator, seen_world)") blast
  have start: "co_deployer ready_coordinator = Some deploying" "dc_enabled deploying" "0 < dc_promotion deploying"
      "0 \<le> dw_applied seen_world" "dw_live seen_world = 0"
    by (simp_all add: ready_coordinator_def set_deployer_def deploying_def default_deployment_config_def seen_world_def)
  then show ?thesis using promotion_gated [OF run start(1-4)] ready_deploys [OF run] run by auto
qed

end
