(* ===== verification/System_Runtime.thy ===== *)
theory System_Runtime
  imports Workflow_Dag
begin

text \<open>
  Package \<open>internal/system_runtime\<close>: the registry of components, their start in dependency order with rollback, the
  shutdown in reverse order, and the components the bootstrap registers. What a component does when it is bound,
  started, checked, stopped or waited for acts on a world \<open>'w\<close> and is a field of the component; a phase it does not
  implement is \<open>None\<close>. A \<open>Wait\<close> ends when it returns, at its time limit or with the caller's context, and its error is
  only logged.
\<close>

section \<open>States, modes, components\<close>

datatype component_state =
    ComponentDeclared
  | ComponentConstructed
  | ComponentBound
  | ComponentStarted
  | ComponentReady
  | ComponentDegraded
  | ComponentFailed
  | ComponentStopping
  | ComponentStopped
  | ComponentDisabled
  | ComponentUnknown int

fun component_state_name :: "component_state \<Rightarrow> string" where
  "component_state_name ComponentDeclared = ''declared''"
| "component_state_name ComponentConstructed = ''constructed''"
| "component_state_name ComponentBound = ''bound''"
| "component_state_name ComponentStarted = ''started''"
| "component_state_name ComponentReady = ''ready''"
| "component_state_name ComponentDegraded = ''degraded''"
| "component_state_name ComponentFailed = ''failed''"
| "component_state_name ComponentStopping = ''stopping''"
| "component_state_name ComponentStopped = ''stopped''"
| "component_state_name ComponentDisabled = ''disabled''"
| "component_state_name (ComponentUnknown i) = ''unknown''"

definition state_is_terminal :: "component_state \<Rightarrow> bool" where
  "state_is_terminal s = (s \<in> {ComponentStopped, ComponentDisabled, ComponentFailed})"

definition state_is_healthy :: "component_state \<Rightarrow> bool" where
  "state_is_healthy s = (s = ComponentReady \<or> s = ComponentDegraded)"

datatype component_mode = ModeRequired | ModeOptional | ModeDegraded | ModeUnknown int

fun component_mode_name :: "component_mode \<Rightarrow> string" where
  "component_mode_name ModeRequired = ''required''"
| "component_mode_name ModeOptional = ''optional''"
| "component_mode_name ModeDegraded = ''degraded''"
| "component_mode_name (ModeUnknown i) = ''unknown''"

text \<open>\<open>Bind\<close> gets the names the resolver knows.\<close>

record ('e, 'w) sys_component =
  sc_name :: string
  sc_deps :: "string list"
  sc_bind :: "(string set \<Rightarrow> 'w \<Rightarrow> 'e option \<times> 'w) option"
  sc_start :: "('w \<Rightarrow> 'e option \<times> 'w) option"
  sc_ready :: "('w \<Rightarrow> 'e option \<times> 'w) option"
  sc_stop :: "('w \<Rightarrow> 'e option \<times> 'w) option"
  sc_wait :: "('w \<Rightarrow> 'w) option"

record 'e component_status =
  ct_name :: string
  ct_mode :: component_mode
  ct_state :: component_state
  ct_reason :: "'e option"
  ct_started_at :: "time option"

record ('e, 'w) sys_entry =
  se_component :: "('e, 'w) sys_component"
  se_mode :: component_mode
  se_status :: "'e component_status"

record ('e, 'w) sys_registry =
  sr_entries :: "string \<rightharpoonup> ('e, 'w) sys_entry"
  sr_order :: "string list"

section \<open>The registry\<close>

datatype sys_error =
    ErrComponentNil
  | ErrComponentMode
  | ErrComponentName
  | ErrComponentRegistered
  | ErrUnregisteredDependency string string
  | ErrDependencyCycle

definition new_sys_registry :: "('e, 'w) sys_registry" where
  "new_sys_registry = \<lparr>sr_entries = Map.empty, sr_order = []\<rparr>"

definition register_sys_component ::
  "('e, 'w) sys_component option \<Rightarrow> component_mode \<Rightarrow> ('e, 'w) sys_registry \<Rightarrow> (sys_error, unit, ('e, 'w) sys_registry) outcome" where
  "register_sys_component cmp mode r =
     (case cmp of
        None \<Rightarrow> (Inl ErrComponentNil, r)
      | Some c \<Rightarrow>
          if (case mode of ModeUnknown i \<Rightarrow> True | _ \<Rightarrow> False) then (Inl ErrComponentMode, r)
          else if sc_name c = '''' then (Inl ErrComponentName, r)
          else if sr_entries r (sc_name c) \<noteq> None then (Inl ErrComponentRegistered, r)
          else (Inr (), \<lparr>sr_entries = (sr_entries r)(sc_name c \<mapsto> \<lparr>se_component = c, se_mode = mode,
                  se_status = \<lparr>ct_name = sc_name c, ct_mode = mode, ct_state = ComponentConstructed, ct_reason = None,
                    ct_started_at = None\<rparr>\<rparr>),
                sr_order = sr_order r @ [sc_name c]\<rparr>))"

definition get_status :: "string \<Rightarrow> ('e, 'w) sys_registry \<Rightarrow> 'e component_status option" where
  "get_status n r = map_option se_status (sr_entries r n)"

definition set_component_status :: "string \<Rightarrow> 'e component_status \<Rightarrow> ('e, 'w) sys_registry \<Rightarrow> ('e, 'w) sys_registry" where
  "set_component_status n st r =
     (case sr_entries r n of
        None \<Rightarrow> r
      | Some e \<Rightarrow> r\<lparr>sr_entries := (sr_entries r)(n \<mapsto> e\<lparr>se_status := st\<rparr>)\<rparr>)"

definition all_statuses :: "('e, 'w) sys_registry \<Rightarrow> 'e component_status list" where
  "all_statuses r = List.map_filter (\<lambda>n. get_status n r) (sr_order r)"

definition count_state :: "component_state \<Rightarrow> 'e component_status list \<Rightarrow> nat" where
  "count_state s sts = length [st \<leftarrow> sts. ct_state st = s]"

record snapshot_summary =
  sn_total :: nat
  sn_ready :: nat
  sn_degraded :: nat
  sn_failed :: nat
  sn_disabled :: nat
  sn_stopped :: nat

definition registry_snapshot :: "('e, 'w) sys_registry \<Rightarrow> 'e component_status list \<times> snapshot_summary" where
  "registry_snapshot r =
     (let sts = all_statuses r
      in (sts, \<lparr>sn_total = length sts, sn_ready = count_state ComponentReady sts,
                sn_degraded = count_state ComponentDegraded sts, sn_failed = count_state ComponentFailed sts,
                sn_disabled = count_state ComponentDisabled sts, sn_stopped = count_state ComponentStopped sts\<rparr>))"

definition registry_is_ready :: "('e, 'w) sys_registry \<Rightarrow> bool" where
  "registry_is_ready r =
     list_all (\<lambda>st. (ct_mode st = ModeRequired \<longrightarrow> state_is_healthy (ct_state st)) \<and> ct_state st \<noteq> ComponentFailed) (all_statuses r)"

section \<open>The order of starting\<close>

definition deps_of :: "('e, 'w) sys_registry \<Rightarrow> string \<Rightarrow> string list" where
  "deps_of r n = (case sr_entries r n of None \<Rightarrow> [] | Some e \<Rightarrow> sc_deps (se_component e))"

text \<open>\<open>ord\<close> is the order in which the map of dependencies is visited, which decides the order of dependents.\<close>

fun first_unregistered :: "('e, 'w) sys_registry \<Rightarrow> string list \<Rightarrow> (string \<times> string) option" where
  "first_unregistered r [] = None"
| "first_unregistered r (n # ns) =
     (case find (\<lambda>d. d \<notin> set (sr_order r)) (deps_of r n) of
        Some d \<Rightarrow> Some (n, d)
      | None \<Rightarrow> first_unregistered r ns)"

definition dependents :: "('e, 'w) sys_registry \<Rightarrow> string list \<Rightarrow> string \<Rightarrow> string list" where
  "dependents r ord d = concat (map (\<lambda>n. map (\<lambda>_. n) [d' \<leftarrow> deps_of r n. d' = d]) ord)"

definition topological_order :: "string list \<Rightarrow> ('e, 'w) sys_registry \<Rightarrow> sys_error + string list" where
  "topological_order ord r =
     (case first_unregistered r ord of
        Some (n, d) \<Rightarrow> Inl (ErrUnregisteredDependency n d)
      | None \<Rightarrow>
          (let deg = (\<lambda>n. if n \<in> set (sr_order r) then Some (int (length (deps_of r n))) else None);
               q = [n \<leftarrow> sr_order r. degree_read deg n = 0]
           in case order_loop (length (sr_order r)) (\<lambda>_ _. 0) (dependents r ord) deg q [] of
                None \<Rightarrow> Inl ErrDependencyCycle
              | Some res \<Rightarrow> if length res \<noteq> card (dom (sr_entries r)) then Inl ErrDependencyCycle else Inr res))"

section \<open>One component\<close>

type_synonym ('e, 'w) sys_state = "('e, 'w) sys_registry \<times> 'w"

definition set_state :: "string \<Rightarrow> component_state \<Rightarrow> 'e option \<Rightarrow> ('e, 'w) sys_registry \<Rightarrow> ('e, 'w) sys_registry" where
  "set_state n s reason r =
     (case get_status n r of
        None \<Rightarrow> r
      | Some st \<Rightarrow> set_component_status n (st\<lparr>ct_state := s, ct_reason := reason\<rparr>) r)"

definition set_state_started :: "time \<Rightarrow> string \<Rightarrow> component_state \<Rightarrow> ('e, 'w) sys_registry \<Rightarrow> ('e, 'w) sys_registry" where
  "set_state_started now n s r =
     (case get_status n r of
        None \<Rightarrow> r
      | Some st \<Rightarrow> set_component_status n (st\<lparr>ct_state := s, ct_started_at := Some now\<rparr>) r)"

text \<open>A phase a component may not implement.\<close>

definition phase :: "('w \<Rightarrow> 'e option \<times> 'w) option \<Rightarrow> 'w \<Rightarrow> 'e option \<times> 'w" where
  "phase f w = (case f of None \<Rightarrow> (None, w) | Some g \<Rightarrow> g w)"

datatype 'e start_error = ErrNotFound | ErrBind 'e | ErrStart 'e | ErrReady 'e

definition start_component :: "time \<Rightarrow> string \<Rightarrow> ('e, 'w) sys_state \<Rightarrow> 'e start_error option \<times> ('e, 'w) sys_state" where
  "start_component now n s =
     (case s of (r, w) \<Rightarrow>
      case sr_entries r n of
        None \<Rightarrow> (Some ErrNotFound, r, w)
      | Some e \<Rightarrow>
          if ct_state (se_status e) = ComponentDisabled then (None, r, w)
          else (case phase (map_option (\<lambda>f. f (dom (sr_entries r))) (sc_bind (se_component e))) w of
            (Some err, w1) \<Rightarrow> (Some (ErrBind err), set_state n ComponentFailed (Some err) r, w1)
          | (None, w1) \<Rightarrow>
              (let r1 = set_state n ComponentBound None r in
               case phase (sc_start (se_component e)) w1 of
                 (Some err, w2) \<Rightarrow> (Some (ErrStart err), set_state n ComponentFailed (Some err) r1, w2)
               | (None, w2) \<Rightarrow>
                   (let r2 = set_state_started now n ComponentStarted r1 in
                    case phase (sc_ready (se_component e)) w2 of
                      (Some err, w3) \<Rightarrow>
                        if se_mode e = ModeDegraded then (None, set_state n ComponentDegraded (Some err) r2, w3)
                        else (Some (ErrReady err), set_state n ComponentFailed (Some err) r2, w3)
                    | (None, w3) \<Rightarrow> (None, set_state n ComponentReady None r2, w3)))))"

definition wait_component :: "('e, 'w) sys_component \<Rightarrow> 'w \<Rightarrow> 'w" where
  "wait_component c w = (case sc_wait c of None \<Rightarrow> w | Some f \<Rightarrow> f w)"

definition stop_component :: "string \<Rightarrow> ('e, 'w) sys_state \<Rightarrow> 'e option \<times> ('e, 'w) sys_state" where
  "stop_component n s =
     (case s of (r, w) \<Rightarrow>
      case sr_entries r n of
        None \<Rightarrow> (None, r, w)
      | Some e \<Rightarrow>
          if ct_state (se_status e) = ComponentDisabled \<or> ct_state (se_status e) = ComponentStopped then (None, r, w)
          else (let r1 = set_state n ComponentStopping None r in
                case phase (sc_stop (se_component e)) w of
                  (Some err, w1) \<Rightarrow> (Some err, set_state n ComponentFailed (Some err) r1, w1)
                | (None, w1) \<Rightarrow> (None, set_state n ComponentStopped None r1, wait_component (se_component e) w1)))"

definition cleanup_component :: "string \<Rightarrow> ('e, 'w) sys_state \<Rightarrow> ('e, 'w) sys_state" where
  "cleanup_component n s =
     (case s of (r, w) \<Rightarrow>
      case sr_entries r n of
        None \<Rightarrow> (r, w)
      | Some e \<Rightarrow> (r, wait_component (se_component e) (snd (phase (sc_stop (se_component e)) w))))"

section \<open>Starting and stopping the system\<close>

text \<open>\<open>rollback\<close> and \<open>Shutdown\<close> visit components the last first; \<open>stop_all\<close> visits the list it is given.\<close>

fun stop_all :: "string list \<Rightarrow> ('e, 'w) sys_state \<Rightarrow> (string \<times> 'e) list \<times> ('e, 'w) sys_state" where
  "stop_all [] s = ([], s)"
| "stop_all (n # ns) s =
     (case stop_component n s of
        (err, s1) \<Rightarrow> (case stop_all ns s1 of
          (errs, s2) \<Rightarrow> ((case err of None \<Rightarrow> errs | Some e \<Rightarrow> (n, e) # errs), s2)))"

definition roll_back_started :: "string list \<Rightarrow> ('e, 'w) sys_state \<Rightarrow> ('e, 'w) sys_state" where
  "roll_back_started started s = snd (stop_all (rev started) s)"

text \<open>\<open>clock\<close> gives the time at which a component starts.\<close>

fun start_all ::
  "(string \<Rightarrow> time) \<Rightarrow> string list \<Rightarrow> string list \<Rightarrow> ('e, 'w) sys_state \<Rightarrow> (string \<times> 'e start_error) option \<times> ('e, 'w) sys_state" where
  "start_all clock [] started s = (None, s)"
| "start_all clock (n # ns) started s =
     (case start_component (clock n) n s of
        (None, s1) \<Rightarrow> start_all clock ns (started @ [n]) s1
      | (Some err, s1) \<Rightarrow>
          (Some (n, err),
           roll_back_started started
             (case get_status n (fst s1) of
                Some st \<Rightarrow> if ct_state st = ComponentFailed then cleanup_component n s1 else s1
              | None \<Rightarrow> s1)))"

record ('e, 'w) orchestrator =
  oc_registry :: "('e, 'w) sys_registry"
  oc_started :: bool
  oc_stopped :: bool
  oc_cancelled :: bool

definition new_orchestrator :: "('e, 'w) sys_registry \<Rightarrow> ('e, 'w) orchestrator" where
  "new_orchestrator r = \<lparr>oc_registry = r, oc_started = False, oc_stopped = False, oc_cancelled = False\<rparr>"

datatype 'e startup_error = ErrStartCalled | ErrStartOrder sys_error | ErrStartup string "'e start_error"

definition orchestrator_start ::
  "string list \<Rightarrow> (string \<Rightarrow> time) \<Rightarrow> ('e, 'w) orchestrator \<times> 'w \<Rightarrow> 'e startup_error option \<times> ('e, 'w) orchestrator \<times> 'w" where
  "orchestrator_start ord clock s =
     (case s of (oc, w) \<Rightarrow>
      if oc_started oc \<or> oc_stopped oc then (Some ErrStartCalled, oc, w)
      else (let oc1 = oc\<lparr>oc_started := True\<rparr> in
            case topological_order ord (oc_registry oc) of
              Inl e \<Rightarrow> (Some (ErrStartOrder e), oc1, w)
            | Inr order \<Rightarrow>
                (case start_all clock order [] (oc_registry oc, w) of
                   (err, r, w1) \<Rightarrow> (map_option (\<lambda>(n, e). ErrStartup n e) err, oc1\<lparr>oc_registry := r\<rparr>, w1))))"

text \<open>The outcome of the errgroup, an error or a time-out, is the argument \<open>eg_failed\<close>.\<close>

datatype 'e shutdown_error = ErrStop string 'e | ErrGroup

definition orchestrator_shutdown ::
  "string list \<Rightarrow> bool \<Rightarrow> ('e, 'w) orchestrator \<times> 'w \<Rightarrow> 'e shutdown_error list \<times> ('e, 'w) orchestrator \<times> 'w" where
  "orchestrator_shutdown ord eg_failed s =
     (case s of (oc, w) \<Rightarrow>
      if oc_stopped oc then ([], oc, w)
      else (let oc1 = oc\<lparr>oc_stopped := True, oc_cancelled := True\<rparr>;
                order = (case topological_order ord (oc_registry oc) of Inl e \<Rightarrow> sr_order (oc_registry oc) | Inr order \<Rightarrow> order)
            in case stop_all (rev order) (oc_registry oc, w) of
                 (errs, r, w1) \<Rightarrow>
                   (map (\<lambda>(n, e). ErrStop n e) errs @ (if eg_failed then [ErrGroup] else []), oc1\<lparr>oc_registry := r\<rparr>, w1)))"

definition orchestrator_cancel :: "('e, 'w) orchestrator \<Rightarrow> ('e, 'w) orchestrator" where
  "orchestrator_cancel oc = oc\<lparr>oc_cancelled := True\<rparr>"

section \<open>Starting while shutting down\<close>

text \<open>
  \<open>Start\<close> runs without the lock after it has set its flag, so \<open>Shutdown\<close> may run beside it; both visit the components
  of \<open>order\<close>, one after the other. A failed start rolls back in one step.
\<close>

record ('e, 'w) sys_run =
  ry_state :: "('e, 'w) sys_state"
  ry_starting :: "(string list \<times> string list) option"
  ry_stopping :: "string list option"

inductive sys_step :: "(string \<Rightarrow> time) \<Rightarrow> string list \<Rightarrow> ('e, 'w) sys_run \<Rightarrow> ('e, 'w) sys_run \<Rightarrow> bool" for clock order where
  start_next: "ry_starting s = Some (n # ns, started) \<Longrightarrow> start_component (clock n) n (ry_state s) = (None, st) \<Longrightarrow>
     sys_step clock order s (s\<lparr>ry_state := st, ry_starting := Some (ns, started @ [n])\<rparr>)"
| start_failed: "ry_starting s = Some (n # ns, started) \<Longrightarrow> start_all clock (n # ns) started (ry_state s) = (Some err, st) \<Longrightarrow>
     fst (start_component (clock n) n (ry_state s)) \<noteq> None \<Longrightarrow>
     sys_step clock order s (s\<lparr>ry_state := st, ry_starting := None\<rparr>)"
| shutdown_begins: "ry_stopping s = None \<Longrightarrow> sys_step clock order s (s\<lparr>ry_stopping := Some (rev order)\<rparr>)"
| stop_next: "ry_stopping s = Some (n # ns) \<Longrightarrow> stop_component n (ry_state s) = (err, st) \<Longrightarrow>
     sys_step clock order s (s\<lparr>ry_state := st, ry_stopping := Some ns\<rparr>)"

section \<open>What the bootstrap registers\<close>

text \<open>An adapter implements \<open>Stop\<close>, \<open>Wait\<close> and \<open>Ready\<close>; a missing hook does nothing.\<close>

definition component_adapter ::
  "string \<Rightarrow> string list \<Rightarrow> ('w \<Rightarrow> 'e option \<times> 'w) option \<Rightarrow> ('w \<Rightarrow> 'w) option \<Rightarrow> ('w \<Rightarrow> 'e option \<times> 'w) option
    \<Rightarrow> ('e, 'w) sys_component" where
  "component_adapter n deps stop_fn wait_fn ready_fn =
     \<lparr>sc_name = n, sc_deps = deps, sc_bind = None, sc_start = None,
      sc_ready = Some (phase ready_fn), sc_stop = Some (phase stop_fn),
      sc_wait = Some (\<lambda>w. case wait_fn of None \<Rightarrow> w | Some f \<Rightarrow> f w)\<rparr>"

definition register_adapter ::
  "bool \<Rightarrow> ('e, 'w) sys_component \<Rightarrow> component_mode \<Rightarrow> ('e, 'w) sys_registry \<Rightarrow> ('e, 'w) sys_registry" where
  "register_adapter present c mode r = (if \<not> present then r else snd (register_sys_component (Some c) mode r))"

text \<open>Which components were constructed, the hooks that stop them, and the error of a degraded knowledge component.\<close>

record ('e, 'w) built_components =
  bc_present :: "string \<Rightarrow> bool"
  bc_stop :: "string \<Rightarrow> ('w \<Rightarrow> 'e option \<times> 'w)"
  bc_knowledge_error :: "'e option"

definition wired_component :: "('e, 'w) built_components \<Rightarrow> string \<Rightarrow> string list \<Rightarrow> bool \<Rightarrow> ('e, 'w) sys_registry \<Rightarrow> ('e, 'w) sys_registry" where
  "wired_component b n deps stops =
     register_adapter (bc_present b n)
       (component_adapter n deps (if stops then Some (bc_stop b n) else None) None None) ModeRequired"

definition wired_registry :: "('e, 'w) built_components \<Rightarrow> ('e, 'w) sys_registry" where
  "wired_registry b =
     (let r1 = fold (\<lambda>(n, deps, stops). wired_component b n deps stops)
                 [(''eventstore'', [], False), (''runtime'', [''eventstore''], True), (''memory'', [''eventstore''], True),
                  (''mcp'', [], True), (''llm'', [], False), (''dashboard'', [''mcp''], True), (''evidence'', [], False),
                  (''flight'', [''eventstore'', ''evidence''], True)] new_sys_registry;
          r2 = (case bc_knowledge_error b of
                  Some e \<Rightarrow> register_adapter (bc_present b ''knowledge'')
                    (component_adapter ''knowledge'' [] None None (Some (\<lambda>w. (Some e, w)))) ModeDegraded r1
                | None \<Rightarrow> wired_component b ''knowledge'' [] False r1)
      in fold (\<lambda>(n, deps, stops). wired_component b n deps stops)
           [(''newevolution'', [''evidence''], False), (''discovery'', [], False)] r2)"

definition wire_system_runtime ::
  "string list \<Rightarrow> (string \<Rightarrow> time) \<Rightarrow> ('e, 'w) built_components \<Rightarrow> 'w \<Rightarrow> 'e startup_error option \<times> ('e, 'w) orchestrator \<times> 'w" where
  "wire_system_runtime ord clock b w = orchestrator_start ord clock (new_orchestrator (wired_registry b), w)"

end
