(* ===== verification/Dependency_Order.thy ===== *)
theory Dependency_Order
  imports Workflow_Order
begin

text \<open>
  The loop of Kahn's algorithm on a graph whose adjacency lists may name a target more than once, as lists of
  dependencies do: the counters count edges with their multiplicity.
\<close>

section \<open>Releasing the targets of a node\<close>

lemma relax_degrees:
  "degree_read (fst (relax ms (deg, q))) n = degree_read deg n - int (count_list ms n)"
  by (induction ms arbitrary: deg q) (auto simp: Let_def simp del: fun_upd_apply)

lemma relax_queue:
  "\<forall>m. int (count_list ms m) \<le> degree_read deg m \<or> m \<notin> set ms \<Longrightarrow>
   \<exists>new. snd (relax ms (deg, q)) = q @ new \<and> distinct new \<and> set new = {m \<in> set ms. degree_read deg m = int (count_list ms m)}"
proof (induction ms arbitrary: deg q)
  case (Cons m ms)
  let ?deg = "deg(m \<mapsto> degree_read deg m - 1)"
  let ?q = "if degree_read deg m - 1 = 0 then q @ [m] else q"
  have "\<forall>x. int (count_list ms x) \<le> degree_read ?deg x \<or> x \<notin> set ms"
    using Cons.prems by (auto simp del: fun_upd_apply split: if_splits)
  from Cons.IH [OF this, of ?q] obtain new where new: "snd (relax ms (?deg, ?q)) = ?q @ new" "distinct new"
      "set new = {x \<in> set ms. degree_read ?deg x = int (count_list ms x)}" by blast
  have "degree_read ?deg x = int (count_list ms x) \<longleftrightarrow> degree_read deg x = int (count_list (m # ms) x)" for x
    by (auto simp del: fun_upd_apply)
  then have set: "set new = {x \<in> set ms. degree_read deg x = int (count_list (m # ms) x)}" using new(3) by simp
  have le: "int (count_list ms m) \<le> degree_read deg m - 1" using Cons.prems by force
  have unfold: "snd (relax (m # ms) (deg, q)) = snd (relax ms (?deg, ?q))" by (simp add: Let_def)
  show ?case
  proof (cases "degree_read deg m = 1")
    case True
    with le have "count_list ms m = 0" by simp
    then have "m \<notin> set ms" "degree_read deg m = int (count_list (m # ms) m)" using True by (simp_all add: count_list_0_iff)
    then have "set (m # new) = {x \<in> set (m # ms). degree_read deg x = int (count_list (m # ms) x)}" "distinct (m # new)"
      unfolding list.set set using new(2) set by (blast, simp)
    moreover have "snd (relax (m # ms) (deg, q)) = q @ (m # new)" using unfold new(1) True by simp
    ultimately show ?thesis by blast
  next
    case False
    have "m \<in> set ms" if "degree_read deg m = int (count_list (m # ms) m)"
      using that False count_list_0_iff [of ms m] by auto
    then have "set new = {x \<in> set (m # ms). degree_read deg x = int (count_list (m # ms) x)}" using set by auto
    moreover have "snd (relax (m # ms) (deg, q)) = q @ new" using unfold new(1) False by simp
    ultimately show ?thesis using new(2) by blast
  qed
qed simp

section \<open>The loop\<close>

definition edges_in :: "string set \<Rightarrow> adjacency \<Rightarrow> string list \<Rightarrow> string \<Rightarrow> nat" where
  "edges_in N g res n = (\<Sum>a \<in> N - set res. count_list (g a) n)"

definition count_inv :: "string set \<Rightarrow> adjacency \<Rightarrow> (string \<rightharpoonup> int) \<Rightarrow> string list \<Rightarrow> string list \<Rightarrow> bool" where
  "count_inv N g deg q res \<longleftrightarrow>
     distinct (res @ q) \<and> set res \<union> set q \<subseteq> N \<and> in_order g res \<and>
     (\<forall>n \<in> N. degree_read deg n = int (edges_in N g res n)) \<and>
     (\<forall>n \<in> N. n \<in> set res \<union> set q \<longleftrightarrow> degree_read deg n = 0)"

lemma edges_in_0: "finite N \<Longrightarrow> edges_in N g res n = 0 \<longleftrightarrow> (\<forall>a \<in> N - set res. n \<notin> set (g a))"
  by (auto simp: edges_in_def count_list_0_iff)

lemma edges_in_snoc:
  "finite N \<Longrightarrow> n \<in> N \<Longrightarrow> n \<notin> set res \<Longrightarrow> edges_in N g res m = count_list (g n) m + edges_in N g (res @ [n]) m"
proof -
  assume a: "finite N" "n \<in> N" "n \<notin> set res"
  have "N - set (res @ [n]) = N - set res - {n}" by auto
  then show ?thesis unfolding edges_in_def using a by (simp add: sum.remove [of _ n])
qed

lemma count_step:
  assumes N: "closed_graph N g" and inv: "count_inv N g deg (n # q) res"
  shows "count_inv N g (fst (relax (g n) (deg, q))) (snd (relax (g n) (deg, q))) (res @ [n])"
proof -
  have fin: "finite N" using N by (simp add: closed_graph_def)
  have I: "distinct (res @ n # q)" "set res \<union> set (n # q) \<subseteq> N" "in_order g res"
      "\<And>m. m \<in> N \<Longrightarrow> degree_read deg m = int (edges_in N g res m)"
      "\<And>m. m \<in> N \<Longrightarrow> m \<in> set res \<union> set (n # q) \<longleftrightarrow> degree_read deg m = 0"
    using inv by (auto simp: count_inv_def)
  have n: "n \<in> N" "n \<notin> set res" using I(1,2) by auto
  note snoc = edges_in_snoc [OF fin n]
  have target: "m \<in> N" if "m \<in> set (g n)" for m using N that by (auto simp: closed_graph_def)
  have "\<forall>m. int (count_list (g n) m) \<le> degree_read deg m \<or> m \<notin> set (g n)"
    using target I(4) snoc [of g] by fastforce
  from relax_queue [OF this, of q] obtain new where new: "snd (relax (g n) (deg, q)) = q @ new" "distinct new"
      "set new = {m \<in> set (g n). degree_read deg m = int (count_list (g n) m)}" by blast
  have fresh: "m \<notin> set res \<union> set (n # q)" if "m \<in> set (g n)" for m
    using I(5) [OF target [OF that]] I(4) [OF target [OF that]] n that edges_in_0 [OF fin, of g res m] by auto
  have "\<forall>a \<in> N - set res. n \<notin> set (g a)" using I(4,5) [OF n(1)] edges_in_0 [OF fin] by simp
  then have "{a. n \<in> set (g a)} \<subseteq> set res" using N by (auto simp: closed_graph_def)
  then have order: "in_order g (res @ [n])" using I(3) in_order_snoc by blast
  have degrees: "degree_read (fst (relax (g n) (deg, q))) m = int (edges_in N g (res @ [n]) m)" if "m \<in> N" for m
    using I(4) [OF that] snoc [of g m] by (simp add: relax_degrees)
  have zero: "m \<in> set (res @ [n]) \<union> set (q @ new) \<longleftrightarrow> degree_read (fst (relax (g n) (deg, q))) m = 0" if "m \<in> N" for m
    using I(5) [OF that] fresh [of m] new(3) by (cases "m \<in> set (g n)") (auto simp: relax_degrees count_list_0_iff)
  have "distinct ((res @ [n]) @ q @ new)" using I(1) new(2,3) fresh by auto
  moreover have "set (res @ [n]) \<union> set (q @ new) \<subseteq> N" using I(2) new(3) target by auto
  ultimately show ?thesis using order degrees zero by (simp add: count_inv_def new(1))
qed

lemma count_loop_ends:
  assumes "closed_graph N g" "count_inv N g deg q res" "card N - length res \<le> k"
  shows "\<exists>deg' res'. order_loop k (\<lambda>_ _. 0) g deg q res = Some res' \<and> count_inv N g deg' [] res'"
  using assms
proof (induction k arbitrary: deg q res)
  case 0
  have "distinct (res @ q)" "set (res @ q) \<subseteq> N" "finite N"
    using 0 by (auto simp: count_inv_def closed_graph_def)
  then have "length res + length q \<le> card N" by (metis card_mono distinct_card length_append)
  with 0(3) have "length q = 0" by linarith
  then have "q = []" by simp
  with 0(2) show ?case by (auto simp: order_loop.simps [of 0])
next
  case (Suc k)
  show ?case
  proof (cases q)
    case Nil
    with Suc.prems(2) show ?thesis by (auto simp: order_loop.simps [of "Suc k"])
  next
    case (Cons n q1)
    note step = count_step [OF Suc.prems(1) Suc.prems(2) [unfolded Cons]]
    from Suc.IH [OF Suc.prems(1) step] Suc.prems(3) Cons
    show ?thesis by (auto simp: order_loop.simps [of "Suc k"] Let_def)
  qed
qed

lemma count_inv_acyclic_full:
  assumes "closed_graph N g" "count_inv N g deg [] res" "acyclic (edge_rel g)"
  shows "set res = N"
proof (rule ccontr)
  assume "set res \<noteq> N"
  then obtain x where x: "x \<in> N - set res" using assms(2) by (auto simp: count_inv_def)
  have fin: "finite N" using assms(1) by (simp add: closed_graph_def)
  have "finite (edge_rel g)"
    using assms(1) by (intro finite_subset [of "edge_rel g" "N \<times> N"])
      (fastforce simp: closed_graph_def edge_rel_def, simp add: closed_graph_def)
  with assms(3) have "wf (edge_rel g)" by (simp add: finite_acyclic_wf)
  from wfE_min [OF this x] obtain z where z: "z \<in> N - set res"
    "\<And>y. (y, z) \<in> edge_rel g \<Longrightarrow> y \<notin> N - set res" by blast
  then have "edges_in N g res z = 0" by (auto simp: edges_in_0 [OF fin] edge_rel_def)
  with assms(2) z(1) show False by (auto simp: count_inv_def)
qed

end
