(* ===== verification/System_Runtime_Props.thy ===== *)
theory System_Runtime_Props
  imports System_Runtime Dependency_Order
begin

text \<open>
  The system runtime: the order of starting is exactly the topological order of the dependencies, a start leaves
  every component up or none, a shutdown leaves none, each asks the components exactly the phases it should and in
  which order, and what the bootstrap registers always starts.
\<close>

section \<open>Well-formed registries\<close>

definition sys_wf :: "('e, 'w) sys_registry \<Rightarrow> bool" where
  "sys_wf r \<longleftrightarrow> distinct (sr_order r) \<and> set (sr_order r) = dom (sr_entries r)"

lemma sys_wf_new [simp]: "sys_wf new_sys_registry"
  by (simp add: sys_wf_def new_sys_registry_def)

lemma sys_wf_register: "sys_wf r \<Longrightarrow> register_sys_component c mode r = (res, r') \<Longrightarrow> sys_wf r'"
  by (auto simp: register_sys_component_def sys_wf_def split: option.splits if_splits)

lemma finite_entries: "sys_wf r \<Longrightarrow> finite (dom (sr_entries r))"
  by (metis List.finite_set sys_wf_def)

section \<open>The order of starting\<close>

definition dependency_rel :: "('e, 'w) sys_registry \<Rightarrow> (string \<times> string) set" where
  "dependency_rel r = {(n, d). d \<in> set (deps_of r n)}"

definition deps_registered :: "('e, 'w) sys_registry \<Rightarrow> bool" where
  "deps_registered r \<longleftrightarrow> (\<forall>n. set (deps_of r n) \<subseteq> dom (sr_entries r))"

definition starts_in_order :: "('e, 'w) sys_registry \<Rightarrow> string list \<Rightarrow> bool" where
  "starts_in_order r res \<longleftrightarrow> distinct res \<and> set res = dom (sr_entries r)
     \<and> (\<forall>xs n ys. res = xs @ n # ys \<longrightarrow> set (deps_of r n) \<subseteq> set xs)"

lemma deps_of_unregistered: "sr_entries r n = None \<Longrightarrow> deps_of r n = []"
  by (simp add: deps_of_def)

lemma find_SomeD: "find P xs = Some x \<Longrightarrow> x \<in> set xs \<and> P x"
  by (induction xs) (auto split: if_splits)

lemma first_unregistered_None:
  "first_unregistered r ns = None \<longleftrightarrow> (\<forall>n \<in> set ns. set (deps_of r n) \<subseteq> set (sr_order r))"
  by (induction ns) (auto simp: find_None_iff split: option.splits dest!: find_SomeD)

lemma first_unregistered_Some:
  "first_unregistered r ns = Some (n, d) \<Longrightarrow> n \<in> set ns \<and> d \<in> set (deps_of r n) \<and> d \<notin> set (sr_order r)"
  by (induction ns) (auto simp: find_Some_iff in_set_conv_nth split: option.splits)

lemma dependents_set: "n \<in> set (dependents r ord d) \<longleftrightarrow> n \<in> set ord \<and> d \<in> set (deps_of r n)"
  by (auto simp: dependents_def)

lemma count_map_const: "count_list (map (\<lambda>_. m) xs) n = (if m = n then length xs else 0)"
  by (induction xs) auto

lemma count_dependents:
  "distinct ord \<Longrightarrow> count_list (dependents r ord d) n = (if n \<in> set ord then count_list (deps_of r n) d else 0)"
proof -
  have eq: "length [d' \<leftarrow> xs. d' = d] = count_list xs d" for xs :: "string list" by (induction xs) auto
  show "distinct ord \<Longrightarrow> ?thesis"
    unfolding dependents_def by (induction ord) (auto simp: count_map_const eq)
qed

lemma dependents_closed:
  assumes "sys_wf r" "deps_registered r" "range_order (sr_entries r) ord"
  shows "closed_graph (dom (sr_entries r)) (dependents r ord)"
    "edge_rel (dependents r ord) = (dependency_rel r)\<inverse>"
    "\<And>n. n \<in> dom (sr_entries r) \<Longrightarrow> edges_in (dom (sr_entries r)) (dependents r ord) [] n = length (deps_of r n)"
proof -
  have ord: "distinct ord" "set ord = dom (sr_entries r)" using assms(3) by (auto simp: range_order_def)
  have "set (dependents r ord n) = {}" if "n \<notin> dom (sr_entries r)" for n
  proof (rule equals0I)
    fix m assume "m \<in> set (dependents r ord n)"
    then have "n \<in> set (deps_of r m)" using dependents_set by blast
    then show False using that assms(2) unfolding deps_registered_def by blast
  qed
  then have "dependents r ord n = []" if "n \<notin> dom (sr_entries r)" for n using that by simp
  moreover have "set (dependents r ord n) \<subseteq> dom (sr_entries r)" for n using ord(2) by (auto simp: dependents_set)
  ultimately show "closed_graph (dom (sr_entries r)) (dependents r ord)"
    using finite_entries [OF assms(1)] by (simp add: closed_graph_def)
  show "edge_rel (dependents r ord) = (dependency_rel r)\<inverse>"
    using ord(2) by (auto simp: edge_rel_def dependency_rel_def dependents_set deps_of_def)
  fix n assume n: "n \<in> dom (sr_entries r)"
  then have "edges_in (dom (sr_entries r)) (dependents r ord) [] n = (\<Sum>a \<in> dom (sr_entries r). count_list (deps_of r n) a)"
    using ord by (simp add: edges_in_def count_dependents)
  also have "\<dots> = length (deps_of r n)"
    using assms(2) finite_entries [OF assms(1)] by (intro sum_count_set) (simp_all add: deps_registered_def)
  finally show "edges_in (dom (sr_entries r)) (dependents r ord) [] n = length (deps_of r n)" .
qed

lemma topological_order_loop:
  assumes "sys_wf r" "deps_registered r" "range_order (sr_entries r) ord"
  obtains deg res where "count_inv (dom (sr_entries r)) (dependents r ord) deg [] res"
    "topological_order ord r = (if set res = dom (sr_entries r) then Inr res else Inl ErrDependencyCycle)"
proof -
  let ?N = "dom (sr_entries r)" and ?g = "dependents r ord"
  define deg where "deg n = (if n \<in> set (sr_order r) then Some (int (length (deps_of r n))) else None)" for n
  define q where "q = [n \<leftarrow> sr_order r. degree_read deg n = 0]"
  have ord: "distinct ord" "set ord = ?N" using assms(3) by (auto simp: range_order_def)
  have order: "distinct (sr_order r)" "set (sr_order r) = ?N" using assms(1) by (auto simp: sys_wf_def)
  have none: "first_unregistered r ord = None"
    using assms(2) order(2) by (auto simp: first_unregistered_None deps_registered_def)
  have "degree_read deg n = int (edges_in ?N ?g [] n)" if "n \<in> ?N" for n
    using that order(2) dependents_closed(3) [OF assms that] by (simp add: degree_read_def deg_def)
  then have "count_inv ?N ?g deg q []"
    using order by (auto simp: count_inv_def in_order_def q_def)
  from count_loop_ends [OF dependents_closed(1) [OF assms] this, of "length (sr_order r)"]
  obtain deg' res where loop: "order_loop (length (sr_order r)) (\<lambda>_ _. 0) ?g deg q [] = Some res"
      and inv: "count_inv ?N ?g deg' [] res"
    using order distinct_card by fastforce
  have "length res = card ?N \<longleftrightarrow> set res = ?N"
    using inv finite_entries [OF assms(1)] unfolding count_inv_def
    by (metis append_Nil2 card_subset_eq distinct_card empty_set sup_bot.right_neutral)
  then have "topological_order ord r = (if set res = ?N then Inr res else Inl ErrDependencyCycle)"
    using loop none by (simp add: topological_order_def deg_def [abs_def] q_def)
  with inv show ?thesis by (rule that)
qed

lemma topological_order_exact:
  assumes "sys_wf r" "range_order (sr_entries r) ord"
  shows "if deps_registered r
     then if acyclic (dependency_rel r) then \<exists>res. topological_order ord r = Inr res \<and> starts_in_order r res
          else topological_order ord r = Inl ErrDependencyCycle
     else \<exists>n d. topological_order ord r = Inl (ErrUnregisteredDependency n d) \<and> d \<in> set (deps_of r n) \<and> d \<notin> dom (sr_entries r)"
proof (cases "deps_registered r")
  case False
  then obtain n where "\<not> set (deps_of r n) \<subseteq> dom (sr_entries r)" by (auto simp: deps_registered_def)
  moreover from this have "n \<in> set ord" using assms(2) deps_of_unregistered [of r n] by (force simp: range_order_def)
  ultimately have "first_unregistered r ord \<noteq> None"
    using assms(1) by (auto simp: first_unregistered_None sys_wf_def)
  then obtain m d where first: "first_unregistered r ord = Some (m, d)" by auto
  from first_unregistered_Some [OF this] show ?thesis
    using False first assms(1) by (auto simp: topological_order_def sys_wf_def)
next
  case True
  note closed = dependents_closed [OF assms(1) True assms(2)]
  obtain deg res where res: "count_inv (dom (sr_entries r)) (dependents r ord) deg [] res"
      "topological_order ord r = (if set res = dom (sr_entries r) then Inr res else Inl ErrDependencyCycle)"
    by (rule topological_order_loop [OF assms(1) True assms(2)])
  have order: "distinct res" "in_order (dependents r ord) res" using res(1) by (auto simp: count_inv_def)
  show ?thesis
  proof (cases "acyclic (dependency_rel r)")
    case True
    then have full: "set res = dom (sr_entries r)"
      using count_inv_acyclic_full [OF closed(1) res(1)] closed(2) by (simp add: acyclic_converse)
    have "set (deps_of r n) \<subseteq> set xs" if "res = xs @ n # ys" for xs n ys
    proof -
      have "{a. n \<in> set (dependents r ord a)} \<subseteq> set xs" using order(2) that unfolding in_order_def by blast
      moreover have "n \<in> set ord" using that full assms(2) by (auto simp: range_order_def)
      ultimately show ?thesis by (auto simp: dependents_set)
    qed
    then have "starts_in_order r res" unfolding starts_in_order_def using full order(1) by blast
    with True \<open>deps_registered r\<close> res(2) full show ?thesis by simp
  next
    case False
    have "set res \<noteq> dom (sr_entries r)"
      using False in_order_acyclic [OF closed(1) order(2,1)] closed(2) by (auto simp: acyclic_converse)
    then show ?thesis using False \<open>deps_registered r\<close> res(2) by simp
  qed
qed

text \<open>
  C37: The order of starting exists exactly when every declared dependency is registered and the dependencies have no
  cycle; it then lists every component once, each after all it depends on, and otherwise the error says which of
  the two is wrong, naming an unregistered dependency. Nothing depends on the order in which maps are visited.
\<close>

theorem start_order_exact:
  assumes "sys_wf r" "range_order (sr_entries r) ord"
  shows "if deps_registered r
     then if acyclic (dependency_rel r) then \<exists>res. topological_order ord r = Inr res \<and> starts_in_order r res
          else topological_order ord r = Inl ErrDependencyCycle
     else \<exists>n d. topological_order ord r = Inl (ErrUnregisteredDependency n d) \<and> d \<in> set (deps_of r n) \<and> d \<notin> dom (sr_entries r)"
  using assms by (rule topological_order_exact)

section \<open>What one component's start or stop does\<close>

definition state_of :: "('e, 'w) sys_registry \<Rightarrow> string \<Rightarrow> component_state option" where
  "state_of r n = map_option ct_state (get_status n r)"

definition declared :: "('e, 'w) sys_registry \<Rightarrow> string \<Rightarrow> (('e, 'w) sys_component \<times> component_mode) option" where
  "declared r n = map_option (\<lambda>e. (se_component e, se_mode e)) (sr_entries r n)"

text \<open>Starting and stopping only change statuses.\<close>

definition same_system :: "('e, 'w) sys_registry \<Rightarrow> ('e, 'w) sys_registry \<Rightarrow> bool" where
  "same_system r r' \<longleftrightarrow> declared r' = declared r \<and> sr_order r' = sr_order r"

lemma same_system_refl [simp]: "same_system r r"
  by (simp add: same_system_def)

lemma same_system_trans: "same_system r s \<Longrightarrow> same_system s t \<Longrightarrow> same_system r t"
  by (simp add: same_system_def)

lemma declared_dom: "declared r n = None \<longleftrightarrow> n \<notin> dom (sr_entries r)"
  by (auto simp: declared_def)

lemma same_system_facts:
  assumes "same_system r r'"
  shows "dom (sr_entries r') = dom (sr_entries r)" "deps_of r' = deps_of r" "sys_wf r' = sys_wf r"
proof -
  have "n \<notin> dom (sr_entries r') \<longleftrightarrow> n \<notin> dom (sr_entries r)" for n
    using assms declared_dom [of r' n] declared_dom [of r n] by (simp add: same_system_def)
  then show d: "dom (sr_entries r') = dom (sr_entries r)" by blast
  have "deps_of s n = (case declared s n of None \<Rightarrow> [] | Some (c, m) \<Rightarrow> sc_deps c)" for s :: "('a, 'b) sys_registry" and n
    by (simp add: deps_of_def declared_def split: option.splits)
  then show "deps_of r' = deps_of r" using assms by (simp add: same_system_def fun_eq_iff)
  show "sys_wf r' = sys_wf r" using assms d by (simp add: sys_wf_def same_system_def)
qed

lemma state_of_dom: "state_of r n = None \<longleftrightarrow> n \<notin> dom (sr_entries r)"
  by (auto simp: state_of_def get_status_def)

lemma state_of_set_state [simp]:
  "state_of (set_state n s x r) m = (if m = n \<and> n \<in> dom (sr_entries r) then Some s else state_of r m)"
  "state_of (set_state_started t n s r) m = (if m = n \<and> n \<in> dom (sr_entries r) then Some s else state_of r m)"
  by (auto simp: state_of_def set_state_def set_state_started_def set_component_status_def get_status_def split: option.splits)

lemma same_system_set_state [simp]:
  "same_system r (set_state n s x r)" "same_system r (set_state_started t n s r)"
  by (auto simp: same_system_def declared_def set_state_def set_state_started_def set_component_status_def get_status_def
      split: option.splits)

lemma set_state_dom [simp]:
  "dom (sr_entries (set_state n s x r)) = dom (sr_entries r)" "dom (sr_entries (set_state_started t n s r)) = dom (sr_entries r)"
  by (simp_all add: same_system_facts(1))

lemma same_system_states:
  "same_system r (set_state n s x (set_state m t y r))"
  "same_system r (set_state n s x (set_state_started u n v (set_state m t y r)))"
  by (meson same_system_set_state same_system_trans)+

lemma state_of_entry: "sr_entries r n = Some e \<Longrightarrow> state_of r n = Some (ct_state (se_status e))"
  by (simp add: state_of_def get_status_def)

definition up :: "component_state option \<Rightarrow> bool" where
  "up s \<longleftrightarrow> s \<in> {Some ComponentReady, Some ComponentDegraded, Some ComponentDisabled}"

definition down :: "component_state option \<Rightarrow> bool" where
  "down s \<longleftrightarrow> s \<in> {Some ComponentStopped, Some ComponentFailed, Some ComponentDisabled}"

lemma start_component_spec:
  assumes "start_component now n (r, w) = (err, r', w')" "n \<in> dom (sr_entries r)"
  shows "same_system r r' \<and> (\<forall>m. m \<noteq> n \<longrightarrow> state_of r' m = state_of r m)
    \<and> (if err = None then up (state_of r' n) else state_of r' n = Some ComponentFailed)"
  using assms
  by (auto simp: start_component_def Let_def up_def same_system_states state_of_entry
      split: option.splits prod.splits if_splits)

lemma stop_component_spec:
  assumes "stop_component n (r, w) = (err, r', w')"
  shows "same_system r r' \<and> (\<forall>m. m \<noteq> n \<longrightarrow> state_of r' m = state_of r m)
    \<and> (n \<in> dom (sr_entries r) \<longrightarrow> down (state_of r' n))"
  using assms
  by (auto simp: stop_component_def Let_def down_def same_system_states state_of_entry
      split: option.splits prod.splits if_splits)

lemma stop_all_spec:
  "stop_all ns (r, w) = (errs, r', w') \<Longrightarrow> same_system r r' \<and> (\<forall>m. m \<notin> set ns \<longrightarrow> state_of r' m = state_of r m)
    \<and> (\<forall>m \<in> set ns \<inter> dom (sr_entries r). down (state_of r' m))"
proof (induction ns arbitrary: r w errs r' w')
  case (Cons n ns)
  obtain err r1 w1 where one: "stop_component n (r, w) = (err, r1, w1)" by (cases "stop_component n (r, w)") auto
  obtain errs2 where rest: "stop_all ns (r1, w1) = (errs2, r', w')" using Cons.prems one by (auto split: prod.splits)
  note o = stop_component_spec [OF one] and t = Cons.IH [OF rest]
  have "dom (sr_entries r1) = dom (sr_entries r)" using o same_system_facts(1) by blast
  moreover have "same_system r r'" using o t same_system_trans by blast
  ultimately show ?case using o t by (cases "n \<in> set ns") auto
qed simp

section \<open>The calls a component gets\<close>

text \<open>
  What is asked of the components, beside their statuses. The hooks are parameters, so a call is observed through the
  world: \<open>obs\<close> reads a list of calls off it, and every hook a component implements adds its own call there. Every
  registry has such an observation once its hooks are instrumented (\<open>traced\<close>).
\<close>

datatype sys_call = CallBind string | CallStart string | CallReady string | CallStop string | CallWait string

definition recording :: "('w \<Rightarrow> sys_call list) \<Rightarrow> ('e, 'w) sys_registry \<Rightarrow> bool" where
  "recording obs r \<longleftrightarrow> (\<forall>n c m. declared r n = Some (c, m) \<longrightarrow>
     (\<forall>f ns w. sc_bind c = Some f \<longrightarrow> obs (snd (f ns w)) = obs w @ [CallBind n])
     \<and> (\<forall>f w. sc_start c = Some f \<longrightarrow> obs (snd (f w)) = obs w @ [CallStart n])
     \<and> (\<forall>f w. sc_ready c = Some f \<longrightarrow> obs (snd (f w)) = obs w @ [CallReady n])
     \<and> (\<forall>f w. sc_stop c = Some f \<longrightarrow> obs (snd (f w)) = obs w @ [CallStop n])
     \<and> (\<forall>f w. sc_wait c = Some f \<longrightarrow> obs (f w) = obs w @ [CallWait n]))"

definition noted :: "sys_call \<Rightarrow> ('w \<Rightarrow> 'e option \<times> 'w) \<Rightarrow> 'w \<times> sys_call list \<Rightarrow> 'e option \<times> 'w \<times> sys_call list" where
  "noted x f s = (case s of (w, calls) \<Rightarrow> case f w of (e, w') \<Rightarrow> (e, w', calls @ [x]))"

definition traced_component :: "string \<Rightarrow> ('e, 'w) sys_component \<Rightarrow> ('e, 'w \<times> sys_call list) sys_component" where
  "traced_component n c = \<lparr>sc_name = sc_name c, sc_deps = sc_deps c,
     sc_bind = map_option (\<lambda>f ns. noted (CallBind n) (f ns)) (sc_bind c),
     sc_start = map_option (noted (CallStart n)) (sc_start c),
     sc_ready = map_option (noted (CallReady n)) (sc_ready c),
     sc_stop = map_option (noted (CallStop n)) (sc_stop c),
     sc_wait = map_option (\<lambda>f (w, calls). (f w, calls @ [CallWait n])) (sc_wait c)\<rparr>"

definition traced :: "('e, 'w) sys_registry \<Rightarrow> ('e, 'w \<times> sys_call list) sys_registry" where
  "traced r = \<lparr>sr_entries = (\<lambda>n. map_option (\<lambda>e. \<lparr>se_component = traced_component n (se_component e),
       se_mode = se_mode e, se_status = se_status e\<rparr>) (sr_entries r n)), sr_order = sr_order r\<rparr>"

lemma traced_facts [simp]:
  "dom (sr_entries (traced r)) = dom (sr_entries r)" "sr_order (traced r) = sr_order r"
  "deps_of (traced r) = deps_of r" "state_of (traced r) = state_of r"
  by (auto simp: traced_def traced_component_def deps_of_def state_of_def get_status_def fun_eq_iff option.map_comp comp_def
      split: option.splits)

lemma snd_noted [simp]: "snd (snd (noted x f s)) = snd s @ [x]"
  by (simp add: noted_def split: prod.split)

lemma recording_traced: "recording snd (traced r)"
  by (auto simp: recording_def declared_def traced_def traced_component_def split_beta)

lemma recording_same: "same_system r r' \<Longrightarrow> recording obs r' = recording obs r"
  by (simp add: recording_def same_system_def)

definition called :: "'h option \<Rightarrow> sys_call \<Rightarrow> sys_call list" where
  "called h x = (case h of None \<Rightarrow> [] | Some f \<Rightarrow> [x])"

lemma recorded:
  assumes "recording obs r" "declared r n = Some (c, m)"
  shows "obs (snd (phase (map_option (\<lambda>f. f ns) (sc_bind c)) w)) = obs w @ called (sc_bind c) (CallBind n)"
    "obs (snd (phase (sc_start c) w)) = obs w @ called (sc_start c) (CallStart n)"
    "obs (snd (phase (sc_ready c) w)) = obs w @ called (sc_ready c) (CallReady n)"
    "obs (snd (phase (sc_stop c) w)) = obs w @ called (sc_stop c) (CallStop n)"
    "obs (wait_component c w) = obs w @ called (sc_wait c) (CallWait n)"
  using assms by (auto simp: recording_def phase_def called_def wait_component_def split: option.splits)

text \<open>A complete start, a failed one up to the phase that failed, and a stop: a component that is disabled gets no call,
  one that is stopped already is not stopped again, and \<open>Wait\<close> follows a \<open>Stop\<close> that went well.\<close>

definition start_calls :: "('e, 'w) sys_registry \<Rightarrow> string \<Rightarrow> sys_call list" where
  "start_calls r n = (case declared r n of None \<Rightarrow> [] | Some (c, m) \<Rightarrow>
     if state_of r n = Some ComponentDisabled then []
     else called (sc_bind c) (CallBind n) @ called (sc_start c) (CallStart n) @ called (sc_ready c) (CallReady n))"

definition failed_calls :: "('e, 'w) sys_registry \<Rightarrow> string \<Rightarrow> 'e start_error \<Rightarrow> sys_call list" where
  "failed_calls r n err = (case declared r n of None \<Rightarrow> [] | Some (c, m) \<Rightarrow>
     (case err of
        ErrNotFound \<Rightarrow> []
      | ErrBind e \<Rightarrow> called (sc_bind c) (CallBind n)
      | ErrStart e \<Rightarrow> called (sc_bind c) (CallBind n) @ called (sc_start c) (CallStart n)
      | ErrReady e \<Rightarrow> called (sc_bind c) (CallBind n) @ called (sc_start c) (CallStart n) @ called (sc_ready c) (CallReady n))
     @ called (sc_stop c) (CallStop n) @ called (sc_wait c) (CallWait n))"

definition halt_calls :: "('e, 'w) sys_registry \<Rightarrow> ('e, 'w) sys_registry \<Rightarrow> string \<Rightarrow> sys_call list" where
  "halt_calls r r' n = (case declared r n of None \<Rightarrow> [] | Some (c, m) \<Rightarrow>
     if state_of r n \<in> {Some ComponentDisabled, Some ComponentStopped} then []
     else called (sc_stop c) (CallStop n)
       @ (if state_of r' n = Some ComponentStopped then called (sc_wait c) (CallWait n) else []))"

lemma stop_component_failed:
  assumes "stop_component n (r, w) = (err, r', w')" "n \<in> dom (sr_entries r)"
  shows "state_of r' n = Some ComponentFailed \<longleftrightarrow> err \<noteq> None"
  using assms
  by (auto simp: stop_component_def Let_def state_of_entry split: prod.splits option.splits if_splits)

lemma stop_component_calls:
  assumes "stop_component n (r, w) = (err, r', w')" "recording obs r" "n \<in> dom (sr_entries r)"
  shows "obs w' = obs w @ halt_calls r r' n"
proof -
  obtain e where e: "sr_entries r n = Some e" using assms(3) by auto
  then have d: "declared r n = Some (se_component e, se_mode e)" by (simp add: declared_def)
  note rec = recorded [OF assms(2) d] and st = state_of_entry [OF e]
  show "obs w' = obs w @ halt_calls r r' n"
  proof (cases "ct_state (se_status e) = ComponentDisabled \<or> ct_state (se_status e) = ComponentStopped")
    case True
    then show ?thesis using assms(1) e d st by (auto simp: stop_component_def halt_calls_def)
  next
    case False
    obtain x w1 where stop: "phase (sc_stop (se_component e)) w = (x, w1)" by (cases "phase (sc_stop (se_component e)) w")
    have "obs w1 = obs w @ called (sc_stop (se_component e)) (CallStop n)" using rec(4) [of w] stop by simp
    then show ?thesis
      using assms(1) e d st False stop rec(5) [of w1]
      by (cases x) (auto simp: assms(3) stop_component_def halt_calls_def Let_def)
  qed
qed

lemma stop_all_calls:
  "stop_all ns (r, w) = (errs, r', w') \<Longrightarrow> recording obs r \<Longrightarrow> set ns \<subseteq> dom (sr_entries r) \<Longrightarrow> distinct ns \<Longrightarrow>
     obs w' = obs w @ concat (map (halt_calls r r') ns)"
proof (induction ns arbitrary: r w errs r' w')
  case (Cons n ns)
  obtain err r1 w1 where one: "stop_component n (r, w) = (err, r1, w1)" by (cases "stop_component n (r, w)") auto
  obtain errs2 where rest: "stop_all ns (r1, w1) = (errs2, r', w')" using Cons.prems(1) one by (auto split: prod.splits)
  have n: "n \<in> dom (sr_entries r)" using Cons.prems(3) by simp
  note o = stop_component_spec [OF one] and oc = stop_component_calls [OF one Cons.prems(2) n]
  have same: "same_system r r1" using o by blast
  have "set ns \<subseteq> dom (sr_entries r1)" "distinct ns" using Cons.prems(3,4) same_system_facts(1) [OF same] by auto
  note t = Cons.IH [OF rest _ this] stop_all_spec [OF rest]
  have "halt_calls r1 r' m = halt_calls r r' m" if "m \<in> set ns" for m
  proof -
    have "m \<noteq> n" using that Cons.prems(4) by auto
    then have "state_of r1 m = state_of r m" "declared r1 = declared r" using o by (simp_all add: same_system_def)
    then show ?thesis by (simp add: halt_calls_def split: option.split)
  qed
  then have "map (halt_calls r1 r') ns = map (halt_calls r r') ns" by simp
  moreover have "state_of r' n = state_of r1 n" using t(2) Cons.prems(4) by simp
  moreover from this have "halt_calls r r1 n = halt_calls r r' n"
    by (simp add: halt_calls_def split: option.split)
  ultimately show ?case
    using t(1) oc Cons.prems(2) recording_same [OF same] by (simp cong: map_cong)
qed simp

lemma stop_all_errors:
  "stop_all ns (r, w) = (errs, r', w') \<Longrightarrow> set ns \<subseteq> dom (sr_entries r) \<Longrightarrow> distinct ns \<Longrightarrow>
     map fst errs = [n \<leftarrow> ns. state_of r' n = Some ComponentFailed]"
proof (induction ns arbitrary: r w errs r' w')
  case (Cons n ns)
  obtain err r1 w1 where one: "stop_component n (r, w) = (err, r1, w1)" by (cases "stop_component n (r, w)") auto
  obtain errs2 where rest: "stop_all ns (r1, w1) = (errs2, r', w')" using Cons.prems(1) one by (auto split: prod.splits)
  have n: "n \<in> dom (sr_entries r)" using Cons.prems(2) by simp
  have same: "same_system r r1" using stop_component_spec [OF one] by blast
  have "set ns \<subseteq> dom (sr_entries r1)" "distinct ns" using Cons.prems(2,3) same_system_facts(1) [OF same] by auto
  note t = Cons.IH [OF rest this]
  have "state_of r' n = state_of r1 n" using stop_all_spec [OF rest] Cons.prems(3) by simp
  then show ?case
    using t stop_component_failed [OF one n] Cons.prems(1) one rest by (auto split: option.splits)
qed simp

section \<open>Starting\<close>

lemma cleanup_spec: "cleanup_component n (r, w) = (r', w') \<Longrightarrow> r' = r"
  by (auto simp: cleanup_component_def split: option.splits)

lemma start_all_spec:
  assumes "start_all clock ns started (r, w) = (err, r', w')" "set ns \<union> set started \<subseteq> dom (sr_entries r)"
    "distinct (started @ ns)" "\<forall>n \<in> set started. up (state_of r n)"
  shows "same_system r r' \<and> (\<forall>m. m \<notin> set started \<union> set ns \<longrightarrow> state_of r' m = state_of r m)
    \<and> (if err = None then \<forall>n \<in> set started \<union> set ns. up (state_of r' n)
       else \<forall>n \<in> set started \<union> set ns. down (state_of r' n) \<or> n \<in> set ns \<and> state_of r' n = state_of r n)"
  using assms
proof (induction ns arbitrary: started r w)
  case (Cons n ns)
  obtain e r1 w1 where one: "start_component (clock n) n (r, w) = (e, r1, w1)"
    by (cases "start_component (clock n) n (r, w)") auto
  have n: "n \<in> dom (sr_entries r)" using Cons.prems(2) by simp
  note o = start_component_spec [OF one n]
  have dom1: "dom (sr_entries r1) = dom (sr_entries r)" using o same_system_facts(1) by blast
  show ?case
  proof (cases e)
    case None
    then have rest: "start_all clock ns (started @ [n]) (r1, w1) = (err, r', w')" using Cons.prems(1) one by simp
    have ups: "\<forall>m \<in> set (started @ [n]). up (state_of r1 m)"
      using o None Cons.prems(3,4) by auto
    have "set ns \<union> set (started @ [n]) \<subseteq> dom (sr_entries r1)" "distinct ((started @ [n]) @ ns)"
      using Cons.prems(2,3) dom1 by auto
    note t = Cons.IH [OF rest this ups]
    have "same_system r r'" using o t same_system_trans by blast
    moreover have "state_of r1 m = state_of r m" if "m \<in> set started \<union> set ns" for m
      using o that Cons.prems(3) by auto
    moreover have "\<forall>m. m \<noteq> n \<longrightarrow> state_of r1 m = state_of r m" using o by blast
    ultimately show ?thesis using t by (auto split: if_splits)
  next
    case (Some x)
    have failed: "state_of r1 n = Some ComponentFailed" using o Some by simp
    then obtain st where st: "get_status n r1 = Some st" "ct_state st = ComponentFailed" by (auto simp: state_of_def)
    obtain r2 w2 where clean: "cleanup_component n (r1, w1) = (r2, w2)" by (cases "cleanup_component n (r1, w1)") auto
    have err: "err \<noteq> None" and "roll_back_started started (r1, w2) = (r', w')"
      using Cons.prems(1) one Some st clean cleanup_spec [OF clean] by auto
    then obtain errs where "stop_all (rev started) (r1, w2) = (errs, r', w')"
      by (cases "stop_all (rev started) (r1, w2)") (auto simp: roll_back_started_def)
    note t = stop_all_spec [OF this]
    have "n \<notin> set started" "n \<notin> set ns" "set started \<inter> set ns = {}" using Cons.prems(3) by auto
    moreover have "same_system r r'" using o t same_system_trans by blast
    moreover have "\<forall>m. m \<noteq> n \<longrightarrow> state_of r1 m = state_of r m" using o by blast
    moreover have "state_of r' m = state_of r m" if "m \<in> set ns" for m
      using calculation t that by (metis disjoint_iff set_rev)
    ultimately show ?thesis using t err failed dom1 Cons.prems(2) by (auto simp: down_def)
  qed
qed auto

lemma start_component_calls:
  assumes "start_component now n (r, w) = (err, r', w')" "recording obs r" "n \<in> dom (sr_entries r)"
  shows "if err = None then obs w' = obs w @ start_calls r n
      \<and> (state_of r' n = Some ComponentDisabled \<longleftrightarrow> state_of r n = Some ComponentDisabled)
    else \<exists>c m. declared r n = Some (c, m)
      \<and> failed_calls r n (the err) = drop (length (obs w)) (obs w') @ called (sc_stop c) (CallStop n) @ called (sc_wait c) (CallWait n)
      \<and> take (length (obs w)) (obs w') = obs w"
proof -
  obtain e where e: "sr_entries r n = Some e" using assms(3) by auto
  then have d: "declared r n = Some (se_component e, se_mode e)" by (simp add: declared_def)
  note rec = recorded [OF assms(2) d] and st = state_of_entry [OF e]
  let ?c = "se_component e"
  show ?thesis
  proof (cases "ct_state (se_status e) = ComponentDisabled")
    case True
    then show ?thesis using assms(1) e d st by (auto simp: start_component_def start_calls_def)
  next
    case False
    obtain x1 w1 where bind: "phase (map_option (\<lambda>f. f (dom (sr_entries r))) (sc_bind ?c)) w = (x1, w1)"
      by (cases "phase (map_option (\<lambda>f. f (dom (sr_entries r))) (sc_bind ?c)) w")
    obtain x2 w2 where start: "phase (sc_start ?c) w1 = (x2, w2)" by (cases "phase (sc_start ?c) w1")
    obtain x3 w3 where ready: "phase (sc_ready ?c) w2 = (x3, w3)" by (cases "phase (sc_ready ?c) w2")
    have obs: "obs w1 = obs w @ called (sc_bind ?c) (CallBind n)" "obs w2 = obs w1 @ called (sc_start ?c) (CallStart n)"
      "obs w3 = obs w2 @ called (sc_ready ?c) (CallReady n)"
      using rec(1) [of "dom (sr_entries r)" w] rec(2) [of w1] rec(3) [of w2] bind start ready by simp_all
    note run = start_component_def start_calls_def failed_calls_def Let_def
    have n: "n \<in> dom (sr_entries r) \<longleftrightarrow> True" using assms(3) by simp
    show ?thesis
    proof (cases x1)
      case None
      show ?thesis
      proof (cases x2)
        case None
        then show ?thesis using \<open>x1 = None\<close> assms(1) e d st False bind start ready obs
          by (cases x3) (auto simp: run n split: if_splits)
      next
        case (Some y)
        then show ?thesis using None assms(1) e d st False bind start obs by (auto simp: run)
      qed
    next
      case (Some y)
      then show ?thesis using assms(1) e d st False bind obs by (auto simp: run)
    qed
  qed
qed

lemma cleanup_calls:
  assumes "cleanup_component n (r, w) = (r', w')" "recording obs r" "declared r n = Some (c, m)"
  shows "obs w' = obs w @ called (sc_stop c) (CallStop n) @ called (sc_wait c) (CallWait n)"
proof -
  obtain e where e: "sr_entries r n = Some e" "se_component e = c" using assms(3) by (auto simp: declared_def)
  then have "w' = wait_component c (snd (phase (sc_stop c) w))" using assms(1) by (simp add: cleanup_component_def)
  then show ?thesis using recorded(4,5) [OF assms(2,3)] by simp
qed

text \<open>The calls of a whole start: complete starts in order; and when the one of \<open>n\<close> fails, its calls up to there, its
  clean-up, and the stops of those before it, the last first.\<close>

definition run_calls ::
  "('e, 'w) sys_registry \<Rightarrow> ('e, 'w) sys_registry \<Rightarrow> string list \<Rightarrow> string list \<Rightarrow> (string \<times> 'e start_error) option \<Rightarrow> sys_call list" where
  "run_calls r r' started ns err =
     (case err of
        None \<Rightarrow> concat (map (start_calls r) ns)
      | Some (n, e) \<Rightarrow>
          (let before = takeWhile (\<lambda>m. m \<noteq> n) ns
           in concat (map (start_calls r) before) @ failed_calls r n e
              @ concat (map (halt_calls r r') (rev (started @ before)))))"

lemma start_all_calls:
  assumes "start_all clock ns started (r, w) = (err, r', w')" "set ns \<union> set started \<subseteq> dom (sr_entries r0)"
    "distinct (started @ ns)" "same_system r0 r" "recording obs r0" "\<forall>n \<in> set started. up (state_of r n)"
    "\<forall>n \<in> set started \<union> set ns. state_of r n = Some ComponentDisabled \<longleftrightarrow> state_of r0 n = Some ComponentDisabled"
    "\<forall>n \<in> set started \<union> set ns. state_of r0 n \<noteq> Some ComponentStopped"
  shows "obs w' = obs w @ run_calls r0 r' started ns err \<and> (\<forall>n e. err = Some (n, e) \<longrightarrow> n \<in> set ns)"
  using assms
proof (induction ns arbitrary: started r w)
  case (Cons n ns)
  obtain e r1 w1 where one: "start_component (clock n) n (r, w) = (e, r1, w1)"
    by (cases "start_component (clock n) n (r, w)") auto
  have n: "n \<in> dom (sr_entries r)" using Cons.prems(2) same_system_facts(1) [OF Cons.prems(4)] by simp
  have rec: "recording obs r" using recording_same [OF Cons.prems(4)] Cons.prems(5) by simp
  note o = start_component_spec [OF one n] and oc = start_component_calls [OF one rec n]
  have same: "same_system r0 r1" using Cons.prems(4) o same_system_trans by blast
  have decl: "declared r = declared r0" "declared r1 = declared r0"
    using Cons.prems(4) same by (simp_all add: same_system_def)
  show ?case
  proof (cases e)
    case None
    then have rest: "start_all clock ns (started @ [n]) (r1, w1) = (err, r', w')" using Cons.prems(1) one by simp
    have ups: "\<forall>m \<in> set (started @ [n]). up (state_of r1 m)" using o None Cons.prems(3,6) by auto
    have sets: "set ns \<union> set (started @ [n]) \<subseteq> dom (sr_entries r0)" "distinct ((started @ [n]) @ ns)"
      using Cons.prems(2,3) by auto
    have dis: "\<forall>m \<in> set (started @ [n]) \<union> set ns. state_of r1 m = Some ComponentDisabled \<longleftrightarrow> state_of r0 m = Some ComponentDisabled"
      using o oc None Cons.prems(3,7) by auto
    have stp: "\<forall>m \<in> set (started @ [n]) \<union> set ns. state_of r0 m \<noteq> Some ComponentStopped" using Cons.prems(8) by auto
    note t = Cons.IH [OF rest sets same Cons.prems(5) ups dis stp]
    have first: "start_calls r n = start_calls r0 n"
      using Cons.prems(7) decl by (simp add: start_calls_def split: option.split)
    have "err \<noteq> Some (n, x)" for x using t Cons.prems(3) by auto
    then have "run_calls r0 r' started (n # ns) err = start_calls r0 n @ run_calls r0 r' (started @ [n]) ns err"
      by (auto simp: run_calls_def Let_def split: option.splits)
    then show ?thesis using t oc None first by auto
  next
    case (Some x)
    have failed: "state_of r1 n = Some ComponentFailed" using o Some by simp
    then obtain st where st: "get_status n r1 = Some st" "ct_state st = ComponentFailed" by (auto simp: state_of_def)
    obtain r2 w2 where clean: "cleanup_component n (r1, w1) = (r2, w2)" by (cases "cleanup_component n (r1, w1)") auto
    have err: "err = Some (n, x)" and "roll_back_started started (r1, w2) = (r', w')"
      using Cons.prems(1) one Some st clean cleanup_spec [OF clean] by auto
    then obtain errs where stop: "stop_all (rev started) (r1, w2) = (errs, r', w')"
      by (cases "stop_all (rev started) (r1, w2)") (auto simp: roll_back_started_def)
    have rec1: "recording obs r1" using recording_same [OF same] Cons.prems(5) by simp
    obtain c m where c: "declared r n = Some (c, m)"
      "failed_calls r n x = drop (length (obs w)) (obs w1) @ called (sc_stop c) (CallStop n) @ called (sc_wait c) (CallWait n)"
      "take (length (obs w)) (obs w1) = obs w"
      using oc Some by auto
    have "obs w2 = obs w1 @ called (sc_stop c) (CallStop n) @ called (sc_wait c) (CallWait n)"
      by (rule cleanup_calls [OF clean rec1]) (use c(1) decl in simp)
    also have "obs w1 = obs w @ drop (length (obs w)) (obs w1)" using c(3) by (metis append_take_drop_id)
    finally have two: "obs w2 = obs w @ failed_calls r0 n x"
      using c(2) decl by (simp add: failed_calls_def)
    have started: "set (rev started) \<subseteq> dom (sr_entries r1)" "distinct (rev started)"
      using Cons.prems(2,3) same_system_facts(1) [OF same] by auto
    have "halt_calls r1 r' m = halt_calls r0 r' m" if "m \<in> set started" for m
    proof -
      have "state_of r1 m = state_of r m" using o that Cons.prems(3) by auto
      then have "state_of r1 m \<in> {Some ComponentDisabled, Some ComponentStopped} \<longleftrightarrow> state_of r0 m = Some ComponentDisabled"
        using that Cons.prems(6,7) by (auto simp: up_def)
      moreover have "state_of r0 m \<noteq> Some ComponentStopped" using that Cons.prems(8) by auto
      ultimately show ?thesis using decl by (auto simp: halt_calls_def split: option.split)
    qed
    then have "concat (map (halt_calls r1 r') (rev started)) = concat (map (halt_calls r0 r') (rev started))"
      by (intro arg_cong [of _ _ concat] map_cong) simp_all
    then show ?thesis
      using stop_all_calls [OF stop rec1 started] two err by (simp add: run_calls_def)
  qed
qed (simp add: run_calls_def)

lemma sys_range: "same_system r r' \<Longrightarrow> range_order (sr_entries r) ord \<Longrightarrow> range_order (sr_entries r') ord"
  using same_system_facts(1) [of r r'] by (simp add: range_order_def)

lemma topological_order_starts:
  assumes "sys_wf r" "range_order (sr_entries r) ord" "topological_order ord r = Inr order"
  shows "starts_in_order r order"
  using topological_order_exact [OF assms(1,2)] assms(3) by (auto split: if_splits)

text \<open>The component whose start failed, as \<open>Start\<close> reports it.\<close>

fun failed_start :: "'e startup_error option \<Rightarrow> (string \<times> 'e start_error) option" where
  "failed_start (Some (ErrStartup n e)) = Some (n, e)"
| "failed_start _ = None"

lemma startup_outcome:
  assumes "sys_wf r" "range_order (sr_entries r) ord" "orchestrator_start ord clock (new_orchestrator r, w) = (err, oc, w')"
    and "\<forall>n \<in> dom (sr_entries r). state_of r n \<in> {Some ComponentConstructed, Some ComponentDisabled}"
  shows "same_system r (oc_registry oc)
    \<and> (if err = None then \<forall>n \<in> dom (sr_entries r). up (state_of (oc_registry oc) n)
       else \<forall>n \<in> dom (sr_entries r). down (state_of (oc_registry oc) n) \<or> state_of (oc_registry oc) n = Some ComponentConstructed)
    \<and> orchestrator_start ord2 clock2 (oc, w') = (Some ErrStartCalled, oc, w')
    \<and> (\<forall>obs. recording obs r \<longrightarrow> obs w' = obs w @ (case topological_order ord r of Inl e \<Rightarrow> []
         | Inr order \<Rightarrow> run_calls r (oc_registry oc) [] order (failed_start err)))"
proof -
  have again: "oc_started oc"
    using assms(3) by (auto simp: orchestrator_start_def new_orchestrator_def Let_def split: sum.splits prod.splits)
  show ?thesis
  proof (cases "topological_order ord r")
    case (Inl e)
    then have "oc_registry oc = r" "err \<noteq> None" "w' = w"
      using assms(3) by (auto simp: orchestrator_start_def new_orchestrator_def)
    then show ?thesis using assms(4) again Inl by (auto simp: orchestrator_start_def down_def)
  next
    case (Inr order)
    note order = topological_order_starts [OF assms(1,2) Inr]
    obtain x r1 w1 where run: "start_all clock order [] (r, w) = (x, r1, w1)" by (cases "start_all clock order [] (r, w)") auto
    then have oc: "oc_registry oc = r1" "w' = w1" "err = map_option (\<lambda>(n, e). ErrStartup n e) x"
      using assms(3) Inr by (auto simp: orchestrator_start_def new_orchestrator_def)
    then have err: "err = None \<longleftrightarrow> x = None" "failed_start err = x" by (cases x; auto)+
    have sets: "set order \<union> set [] \<subseteq> dom (sr_entries r)" "distinct ([] @ order)" using order by (auto simp: starts_in_order_def)
    note s = start_all_spec [OF run sets]
    have all: "set [] \<union> set order = dom (sr_entries r)" using order by (simp add: starts_in_order_def)
    have "\<forall>n \<in> set [] \<union> set order. state_of r n \<noteq> Some ComponentStopped"
    proof
      fix n assume "n \<in> set [] \<union> set order"
      then have "state_of r n \<in> {Some ComponentConstructed, Some ComponentDisabled}" using assms(4) all by blast
      then show "state_of r n \<noteq> Some ComponentStopped" by auto
    qed
    note started = start_all_calls [OF run sets same_system_refl _ _ _ this]
    have calls: "obs w' = obs w @ run_calls r r1 [] order (failed_start err)" if "recording obs r" for obs
      using started [OF that] unfolding oc(1,2) err(2) by simp
    have "down (state_of r1 n) \<or> state_of r1 n = Some ComponentConstructed" if "n \<in> dom (sr_entries r)" "x \<noteq> None" for n
      using s that bspec [OF assms(4) that(1)] unfolding all by (auto simp: down_def)
    moreover have "up (state_of r1 n)" if "n \<in> dom (sr_entries r)" "x = None" for n
      using s that unfolding all by simp
    ultimately show ?thesis using s oc err again Inr calls by (auto simp: orchestrator_start_def)
  qed
qed


text \<open>When a component's turn comes, everything it depends on is up.\<close>

lemma dependencies_up_first:
  assumes "sys_wf r" "range_order (sr_entries r) ord" "topological_order ord r = Inr (xs @ n # ys)"
    and "start_all clock xs [] (r, w) = (None, s)" "d \<in> set (deps_of r n)"
  shows "up (state_of (fst s) d)"
proof -
  note order = topological_order_starts [OF assms(1-3)]
  have d: "d \<in> set xs" using order assms(5) unfolding starts_in_order_def by blast
  have "set xs \<union> set [] \<subseteq> dom (sr_entries r)" "distinct ([] @ xs)" using order by (auto simp: starts_in_order_def)
  then show ?thesis using start_all_spec [of clock xs "[]" r w None "fst s" "snd s"] assms(4) d by simp
qed

section \<open>Shutting down\<close>

text \<open>
  C39: The first shutdown stops every component, whatever state it is in and whether or not the dependencies have an
  order: none is left but stopped, failed or disabled. It visits them in the reverse of the order of starting, or of
  registration when there is none, and asks each that is neither disabled nor stopped already to stop, and to finish
  when the stop went well, and nothing else; the errors it returns name exactly those left failed. A second shutdown
  does nothing, and the system cannot be started any more.
\<close>

theorem shutdown_stops_all:
  assumes "sys_wf (oc_registry oc)" "range_order (sr_entries (oc_registry oc)) ord" "\<not> oc_stopped oc"
    and "orchestrator_shutdown ord failed (oc, w) = (errs, oc', w')"
    and "order = (case topological_order ord (oc_registry oc) of Inl e \<Rightarrow> sr_order (oc_registry oc) | Inr res \<Rightarrow> res)"
  shows "(\<forall>n \<in> dom (sr_entries (oc_registry oc)). down (state_of (oc_registry oc') n))
    \<and> same_system (oc_registry oc) (oc_registry oc')
    \<and> distinct order \<and> set order = dom (sr_entries (oc_registry oc))
    \<and> (\<forall>obs. recording obs (oc_registry oc) \<longrightarrow>
         obs w' = obs w @ concat (map (halt_calls (oc_registry oc) (oc_registry oc')) (rev order)))
    \<and> (\<exists>es. errs = map (\<lambda>(n, e). ErrStop n e) es @ (if failed then [ErrGroup] else [])
         \<and> map fst es = [n \<leftarrow> rev order. state_of (oc_registry oc') n = Some ComponentFailed])
    \<and> orchestrator_shutdown ord2 failed2 (oc', w') = ([], oc', w')
    \<and> orchestrator_start ord2 clock (oc', w') = (Some ErrStartCalled, oc', w')"
proof -
  let ?r = "oc_registry oc"
  have all: "distinct order" "set order = dom (sr_entries ?r)"
    using assms(1,5) topological_order_starts [OF assms(1,2)] by (auto simp: sys_wf_def starts_in_order_def split: sum.splits)
  obtain es r1 w1 where run: "stop_all (rev order) (?r, w) = (es, r1, w1)" by (cases "stop_all (rev order) (?r, w)") auto
  have oc': "oc_registry oc' = r1" "oc_stopped oc'" "w' = w1"
      "errs = map (\<lambda>(n, e). ErrStop n e) es @ (if failed then [ErrGroup] else [])"
    using assms(3,4) run by (auto simp: orchestrator_shutdown_def Let_def assms(5) split: sum.splits)
  note s = stop_all_spec [OF run]
  have "set (rev order) \<inter> dom (sr_entries ?r) = dom (sr_entries ?r)" using all by simp
  then have "\<forall>n \<in> dom (sr_entries ?r). down (state_of r1 n)" using s by metis
  moreover have sets: "set (rev order) \<subseteq> dom (sr_entries ?r)" "distinct (rev order)" using all by auto
  moreover have "obs w1 = obs w @ concat (map (halt_calls ?r r1) (rev order))" if "recording obs ?r" for obs
    using stop_all_calls [OF run that sets] .
  ultimately show ?thesis
    using s oc' all stop_all_errors [OF run]
    by (simp add: orchestrator_shutdown_def orchestrator_start_def) (intro exI [of _ es] conjI refl)
qed

text \<open>
  Beside a start that is still running it does not: the component is stopped before it is started, and stays up.
\<close>

definition lone_registry :: "(unit, unit) sys_registry" where
  "lone_registry = snd (register_sys_component (Some (component_adapter ''a'' [] None None None)) ModeRequired new_sys_registry)"

lemma shutdown_during_start:
  "\<exists>s. (sys_step (\<lambda>n. 0) [''a''])\<^sup>*\<^sup>* \<lparr>ry_state = (lone_registry, ()), ry_starting = Some ([''a''], []), ry_stopping = None\<rparr> s
     \<and> ry_starting s = Some ([], [''a'']) \<and> ry_stopping s = Some []
     \<and> state_of (fst (ry_state s)) ''a'' = Some ComponentReady"
proof -
  let ?step = "sys_step (\<lambda>n. 0) [''a''] :: (unit, unit) sys_run \<Rightarrow> _"
  define s0 :: "(unit, unit) sys_run" where "s0 = \<lparr>ry_state = (lone_registry, ()), ry_starting = Some ([''a''], []), ry_stopping = None\<rparr>"
  define s1 where "s1 = s0\<lparr>ry_stopping := Some (rev [''a''])\<rparr>"
  define s2 where "s2 = s1\<lparr>ry_state := snd (stop_component ''a'' (lone_registry, ())), ry_stopping := Some []\<rparr>"
  define s3 where "s3 = s2\<lparr>ry_state := snd (start_component 0 ''a'' (ry_state s2)), ry_starting := Some ([], [] @ [''a''])\<rparr>"
  note run = lone_registry_def register_sys_component_def new_sys_registry_def component_adapter_def stop_component_def
    start_component_def phase_def wait_component_def set_state_def set_state_started_def set_component_status_def get_status_def
  have "?step s0 s1" unfolding s1_def by (rule sys_step.shutdown_begins) (simp add: s0_def)
  moreover have "?step s1 s2" unfolding s2_def
    by (rule sys_step.stop_next [where err = None and ns = "[]" and n = "''a''"]) (simp_all add: s0_def s1_def run)
  moreover have "?step s2 s3" unfolding s3_def
    by (rule sys_step.start_next [where n = "''a''" and ns = "[]"]) (simp_all add: s0_def s1_def s2_def run)
  ultimately have "?step\<^sup>*\<^sup>* s0 s3" by (meson rtranclp.rtrancl_into_rtrancl rtranclp.rtrancl_refl)
  moreover have "state_of (fst (ry_state s3)) ''a'' = Some ComponentReady"
    by (simp add: s0_def s1_def s2_def s3_def run state_of_def)
  ultimately show ?thesis unfolding s0_def [symmetric] by (intro exI [of _ s3]) (simp add: s0_def s1_def s2_def s3_def)
qed

section \<open>The system the bootstrap registers\<close>

definition wired_deps :: "string \<Rightarrow> string list" where
  "wired_deps n =
     (if n = ''runtime'' \<or> n = ''memory'' then [''eventstore''] else if n = ''dashboard'' then [''mcp'']
      else if n = ''flight'' then [''eventstore'', ''evidence''] else if n = ''newevolution'' then [''evidence''] else [])"

text \<open>A component whose start cannot fail: only its readiness may, when it may be degraded.\<close>

definition starts_clean :: "('e, 'w) sys_component \<Rightarrow> component_mode \<Rightarrow> bool" where
  "starts_clean c m \<longleftrightarrow> sc_bind c = None \<and> sc_start c = None \<and> (m = ModeDegraded \<or> (\<forall>w. fst (phase (sc_ready c) w) = None))"

definition wired_inv :: "('e, 'w) built_components \<Rightarrow> string set \<Rightarrow> ('e, 'w) sys_registry \<Rightarrow> bool" where
  "wired_inv b S r \<longleftrightarrow> sys_wf r \<and> dom (sr_entries r) = {n \<in> S. bc_present b n}
     \<and> (\<forall>n \<in> dom (sr_entries r). deps_of r n = wired_deps n \<and> state_of r n = Some ComponentConstructed
         \<and> (\<exists>c m. declared r n = Some (c, m) \<and> starts_clean c m))"

lemma wired_inv_register:
  assumes "wired_inv b S r" "n \<notin> S" "n \<noteq> ''''" "sc_name c = n" "sc_deps c = wired_deps n" "starts_clean c m"
    and "m = ModeRequired \<or> m = ModeDegraded"
  shows "wired_inv b (insert n S) (register_adapter (bc_present b n) c m r)"
proof (cases "bc_present b n")
  case False
  then have "{k \<in> insert n S. bc_present b k} = {k \<in> S. bc_present b k}" by auto
  then show ?thesis using False assms(1) by (simp add: register_adapter_def wired_inv_def)
next
  case True
  have new: "sr_entries r n = None" using assms(1,2) by (auto simp: wired_inv_def)
  let ?e = "\<lparr>se_component = c, se_mode = m, se_status = \<lparr>ct_name = n, ct_mode = m, ct_state = ComponentConstructed,
      ct_reason = None, ct_started_at = None\<rparr>\<rparr>"
  have reg: "register_adapter (bc_present b n) c m r = \<lparr>sr_entries = (sr_entries r)(n \<mapsto> ?e), sr_order = sr_order r @ [n]\<rparr>"
    using True new assms(3,4,7) by (auto simp: register_adapter_def register_sys_component_def)
  have "dom ((sr_entries r)(n \<mapsto> ?e)) = {k \<in> insert n S. bc_present b k}" using True assms(1) by (auto simp: wired_inv_def)
  moreover have "sys_wf \<lparr>sr_entries = (sr_entries r)(n \<mapsto> ?e), sr_order = sr_order r @ [n]\<rparr>"
    using assms(1) new by (auto simp: wired_inv_def sys_wf_def)
  ultimately show ?thesis
    using assms(1,5,6) new unfolding reg
    by (auto simp: wired_inv_def deps_of_def state_of_def get_status_def declared_def)
qed

lemma wired_inv_component:
  "wired_inv b S r \<Longrightarrow> n \<notin> S \<Longrightarrow> n \<noteq> '''' \<Longrightarrow> deps = wired_deps n \<Longrightarrow> wired_inv b (insert n S) (wired_component b n deps stops r)"
  unfolding wired_component_def
  by (rule wired_inv_register) (auto simp: component_adapter_def starts_clean_def phase_def)

lemma wired_inv_fold:
  "wired_inv b S r \<Longrightarrow> distinct (map fst xs) \<Longrightarrow>
    list_all (\<lambda>(n, deps, stops). n \<notin> S \<and> n \<noteq> '''' \<and> deps = wired_deps n) xs \<Longrightarrow>
    wired_inv b (fst ` set xs \<union> S) (fold (\<lambda>(n, deps, stops). wired_component b n deps stops) xs r)"
proof (induction xs arbitrary: S r)
  case (Cons x xs)
  obtain n deps stops where x: "x = (n, deps, stops)" by (cases x) auto
  have "wired_inv b (insert n S) (wired_component b n deps stops r)"
    using wired_inv_component [OF Cons.prems(1)] Cons.prems(3) x by auto
  moreover have "list_all (\<lambda>(k, deps, stops). k \<notin> insert n S \<and> k \<noteq> '''' \<and> deps = wired_deps k) xs"
    using Cons.prems(2,3) x by (force simp: list_all_iff)
  ultimately show ?case using Cons.IH [of "insert n S"] Cons.prems(2) x by simp
qed simp

lemma wired_inv_registry: "\<exists>S. wired_inv b S (wired_registry b) \<and> (\<forall>n. set (wired_deps n) \<subseteq> S)"
proof -
  let ?xs = "[(''eventstore'', [], False), (''runtime'', [''eventstore''], True), (''memory'', [''eventstore''], True),
      (''mcp'', [], True), (''llm'', [], False), (''dashboard'', [''mcp''], True), (''evidence'', [], False),
      (''flight'', [''eventstore'', ''evidence''], True)]"
  let ?ys = "[(''newevolution'', [''evidence''], False), (''discovery'', [], False)]"
  let ?r1 = "fold (\<lambda>(n, deps, stops). wired_component b n deps stops) ?xs new_sys_registry"
  have "wired_inv b {} new_sys_registry"
    by (simp add: wired_inv_def) (simp add: new_sys_registry_def)
  from wired_inv_fold [OF this, of ?xs] have r1: "wired_inv b (fst ` set ?xs \<union> {}) ?r1"
    by (simp add: wired_deps_def del: fold_simps)
  let ?r2 = "case bc_knowledge_error b of
      Some e \<Rightarrow> register_adapter (bc_present b ''knowledge'')
        (component_adapter ''knowledge'' [] None None (Some (\<lambda>w. (Some e, w)))) ModeDegraded ?r1
    | None \<Rightarrow> wired_component b ''knowledge'' [] False ?r1"
  have "wired_inv b (insert ''knowledge'' (fst ` set ?xs \<union> {})) ?r2"
  proof (cases "bc_knowledge_error b")
    case None
    then show ?thesis
      using wired_inv_component [OF r1, of "''knowledge''" "[]" False] by (simp add: wired_deps_def del: fold_simps)
  next
    case (Some e)
    then show ?thesis
      using wired_inv_register [OF r1, of "''knowledge''" "component_adapter ''knowledge'' [] None None (Some (\<lambda>w. (Some e, w)))" ModeDegraded]
      by (simp add: wired_deps_def component_adapter_def starts_clean_def del: fold_simps)
  qed
  from wired_inv_fold [OF this, of ?ys]
  have "wired_inv b (fst ` set ?ys \<union> insert ''knowledge'' (fst ` set ?xs \<union> {})) (fold (\<lambda>(n, deps, stops). wired_component b n deps stops) ?ys ?r2)"
    by (simp add: wired_deps_def del: fold_simps)
  then have "wired_inv b (fst ` set ?ys \<union> insert ''knowledge'' (fst ` set ?xs \<union> {})) (wired_registry b)"
    unfolding wired_registry_def Let_def .
  moreover have "set (wired_deps n) \<subseteq> fst ` set ?ys \<union> insert ''knowledge'' (fst ` set ?xs \<union> {})" for n
    by (auto simp: wired_deps_def)
  ultimately show ?thesis by blast
qed

lemma start_component_clean:
  assumes "declared r n = Some (c, m)" "starts_clean c m"
  shows "fst (start_component now n (r, w)) = None"
proof -
  obtain e where e: "sr_entries r n = Some e" "se_component e = c" "se_mode e = m" using assms(1) by (auto simp: declared_def)
  show ?thesis
  proof (cases "m = ModeDegraded")
    case True
    then show ?thesis using e assms(2) by (auto simp: start_component_def starts_clean_def phase_def Let_def split: option.splits prod.splits)
  next
    case False
    then have "fst (phase (sc_ready c) w) = None" using assms(2) by (simp add: starts_clean_def)
    then show ?thesis using e assms(2)
      by (cases "phase (sc_ready c) w") (auto simp: start_component_def starts_clean_def phase_def Let_def split: option.splits prod.splits)
  qed
qed

lemma start_all_clean:
  assumes "\<forall>n \<in> set ns. \<exists>c m. declared r n = Some (c, m) \<and> starts_clean c m"
  shows "fst (start_all clock ns started (r, w)) = None"
  using assms
proof (induction ns arbitrary: started r w)
  case (Cons n ns)
  obtain c m where c: "declared r n = Some (c, m)" "starts_clean c m" using Cons.prems by auto
  obtain r1 w1 where one: "start_component (clock n) n (r, w) = (None, r1, w1)"
    using start_component_clean [OF c, of "clock n" w] by (cases "start_component (clock n) n (r, w)") auto
  have "n \<in> dom (sr_entries r)" using c(1) declared_dom [of r n] by auto
  then have "declared r1 = declared r" using start_component_spec [OF one] by (simp add: same_system_def)
  then show ?case using Cons.IH [of r1 "started @ [n]" w1] Cons.prems one by simp
qed simp

lemma wired_acyclic: "wired_inv b S r \<Longrightarrow> acyclic (dependency_rel r)"
proof -
  assume inv: "wired_inv b S r"
  have "(dependency_rel r)\<inverse> \<subseteq> measure (\<lambda>n. length (wired_deps n))"
  proof (clarsimp simp: dependency_rel_def)
    fix n d assume d: "d \<in> set (deps_of r n)"
    then have "n \<in> dom (sr_entries r)" using deps_of_unregistered [of r n] by force
    then have "d \<in> set (wired_deps n)" using inv d by (simp add: wired_inv_def)
    then show "length (wired_deps d) < length (wired_deps n)" by (auto simp: wired_deps_def split: if_splits)
  qed
  then have "acyclic ((dependency_rel r)\<inverse>)" using wf_subset [OF wf_measure] wf_acyclic by blast
  then show ?thesis by (simp add: acyclic_converse)
qed

text \<open>
  C40: Whatever the bootstrap constructed, the system it registers starts and every component comes up, provided that
  with a component what it depends on was constructed too.
\<close>

theorem wired_system_starts:
  assumes "range_order (sr_entries (wired_registry b)) ord"
    and "\<forall>n d. bc_present b n \<longrightarrow> d \<in> set (wired_deps n) \<longrightarrow> bc_present b d"
    and "wire_system_runtime ord clock b w = (err, oc, w')"
  shows "err = None \<and> (\<forall>n \<in> dom (sr_entries (wired_registry b)). up (state_of (oc_registry oc) n))"
proof -
  let ?r = "wired_registry b"
  obtain S where inv: "wired_inv b S ?r" "\<And>n. set (wired_deps n) \<subseteq> S" using wired_inv_registry [of b] by blast
  have wf: "sys_wf ?r" using inv(1) by (simp add: wired_inv_def)
  have "d \<in> dom (sr_entries ?r)" if "d \<in> set (deps_of ?r n)" for n d
  proof -
    have n: "n \<in> dom (sr_entries ?r)" using that deps_of_unregistered [of ?r n] by force
    then have "d \<in> set (wired_deps n)" "bc_present b n" using inv(1) that by (auto simp: wired_inv_def)
    then show ?thesis using assms(2) inv by (auto simp: wired_inv_def)
  qed
  then have "deps_registered ?r" by (auto simp: deps_registered_def)
  then obtain order where order: "topological_order ord ?r = Inr order" "starts_in_order ?r order"
    using topological_order_exact [OF wf assms(1)] wired_acyclic [OF inv(1)] by auto
  have "fst (start_all clock order [] (?r, w)) = None"
    by (rule start_all_clean) (use inv(1) order(2) in \<open>auto simp: wired_inv_def starts_in_order_def\<close>)
  then have "err = None"
    using assms(3) order(1) by (auto simp: wire_system_runtime_def orchestrator_start_def new_orchestrator_def split: prod.splits)
  moreover have "\<forall>n \<in> dom (sr_entries ?r). state_of ?r n \<in> {Some ComponentConstructed, Some ComponentDisabled}"
    using inv(1) by (simp add: wired_inv_def)
  ultimately show ?thesis
    using startup_outcome [OF wf assms(1) assms(3) [unfolded wire_system_runtime_def]] by simp
qed

section \<open>Runs\<close>

text \<open>Two components, the second of which may be reported degraded.\<close>

definition pair_registry :: "(nat, nat) sys_registry" where
  "pair_registry = fold (\<lambda>(c, m) r. snd (register_sys_component (Some c) m r))
     [(component_adapter ''b'' [''a''] None None (Some (\<lambda>w. (Some 7, w))), ModeDegraded),
      (component_adapter ''a'' [] (Some (\<lambda>w. (None, w + 1))) None None, ModeRequired)] new_sys_registry"

lemmas pair_run = pair_registry_def register_sys_component_def new_sys_registry_def component_adapter_def

lemma pair_wf: "sys_wf pair_registry" "range_order (sr_entries pair_registry) [''a'', ''b'']"
  "dom (sr_entries pair_registry) = {''a'', ''b''}"
  by (auto simp: pair_run sys_wf_def range_order_def split: if_splits)

lemma pair_deps: "deps_of pair_registry n = (if n = ''b'' then [''a''] else [])"
  by (simp add: pair_run deps_of_def)

lemma pair_states: "n \<in> dom (sr_entries pair_registry) \<Longrightarrow> state_of pair_registry n = Some ComponentConstructed"
  by (auto simp: pair_run state_of_def get_status_def split: if_splits)

lemma start_order_exact_witness:
  "\<exists>res. topological_order [''a'', ''b''] pair_registry = Inr res \<and> starts_in_order pair_registry res"
proof -
  have "deps_registered pair_registry" by (auto simp: deps_registered_def pair_deps pair_wf)
  moreover have "acyclic (dependency_rel pair_registry)"
  proof -
    have "dependency_rel pair_registry = {(''b'', ''a'')}" by (auto simp: dependency_rel_def pair_deps split: if_splits)
    then show ?thesis by (simp add: acyclic_insert) (simp add: acyclic_def)
  qed
  ultimately show ?thesis using start_order_exact [OF pair_wf(1,2)] by simp
qed

text \<open>The second of two components never gets ready, and the first cannot be stopped.\<close>

definition broken_registry :: "(nat, nat) sys_registry" where
  "broken_registry = fold (\<lambda>(c, m) r. snd (register_sys_component (Some c) m r))
     [(component_adapter ''b'' [''a''] (Some (\<lambda>w. (None, w + 5))) None (Some (\<lambda>w. (Some 7, w))), ModeRequired),
      (component_adapter ''a'' [] (Some (\<lambda>w. (Some 9, w + 1))) None None, ModeRequired)] new_sys_registry"

lemmas broken_run = broken_registry_def register_sys_component_def new_sys_registry_def component_adapter_def

lemma broken_wf: "sys_wf (traced broken_registry)" "range_order (sr_entries (traced broken_registry)) [''a'', ''b'']"
  "dom (sr_entries (traced broken_registry)) = {''a'', ''b''}"
  by (auto simp: sys_wf_def range_order_def) (auto simp: broken_run split: if_splits)

lemma broken_deps: "deps_of (traced broken_registry) n = (if n = ''b'' then [''a''] else [])"
    "sr_order (traced broken_registry) = [''b'', ''a'']"
  by (simp_all add: broken_run deps_of_def)

lemma broken_order: "topological_order [''a'', ''b''] (traced broken_registry) = Inr [''a'', ''b'']"
  by (simp add: topological_order_def broken_deps broken_wf(3) order_loop.simps dependents_def degree_read_def
      eval_nat_numeral Let_def del: traced_facts)

lemma broken_adapter:
  assumes "n \<in> {''a'', ''b''}"
  obtains c m where "declared (traced broken_registry) n = Some (c, m)" "sc_bind c = None" "sc_start c = None"
    "sc_ready c \<noteq> None" "sc_stop c \<noteq> None" "sc_wait c \<noteq> None"
    "state_of (traced broken_registry) n = Some ComponentConstructed"
  using assms by (auto simp: declared_def traced_def traced_component_def broken_run state_of_def get_status_def)

lemmas component_run = start_component_def stop_component_def cleanup_component_def wait_component_def
  roll_back_started_def phase_def noted_def set_state_def set_state_started_def get_status_def
  set_component_status_def traced_def traced_component_def Let_def state_of_def


lemma broken_stop:
  "\<exists>es r w. stop_all [''b'', ''a''] (traced broken_registry, 0, []) = (es, r, w)
     \<and> state_of r ''a'' = Some ComponentFailed \<and> state_of r ''b'' = Some ComponentStopped"
  by (simp add: component_run broken_run)


lemma shutdown_stops_all_witness:
  "\<exists>es oc w. orchestrator_shutdown [''a'', ''b''] True (new_orchestrator (traced broken_registry), 0, [])
       = (map (\<lambda>(n, e). ErrStop n e) es @ [ErrGroup], oc, w)
     \<and> map fst es = [''a''] \<and> snd w = [CallStop ''b'', CallWait ''b'', CallStop ''a'']
     \<and> orchestrator_shutdown [''a'', ''b''] False (oc, w) = ([], oc, w)"
proof -
  let ?r = "traced broken_registry" and ?oc = "new_orchestrator (traced broken_registry)"
  obtain errs oc w where run: "orchestrator_shutdown [''a'', ''b''] True (?oc, 0, []) = (errs, oc, w)"
      and states: "state_of (oc_registry oc) ''a'' = Some ComponentFailed" "state_of (oc_registry oc) ''b'' = Some ComponentStopped"
    using broken_stop by (auto simp: orchestrator_shutdown_def new_orchestrator_def broken_order Let_def)
  have oc: "oc_registry ?oc = ?r" "\<not> oc_stopped ?oc" by (simp_all add: new_orchestrator_def)
  have "[''a'', ''b''] = (case topological_order [''a'', ''b''] (oc_registry ?oc) of Inl e \<Rightarrow> sr_order (oc_registry ?oc) | Inr res \<Rightarrow> res)"
    by (simp add: oc broken_order)
  note * = shutdown_stops_all [OF _ _ oc(2) run this, unfolded oc(1), OF broken_wf(1,2)]
  then have "\<forall>obs. recording obs ?r \<longrightarrow>
      obs w = obs (0, []) @ concat (map (halt_calls ?r (oc_registry oc)) (rev [''a'', ''b'']))" by blast
  from this [rule_format, OF recording_traced]
  have "snd w = concat (map (halt_calls ?r (oc_registry oc)) [''b'', ''a''])" by simp
  moreover obtain a m where "declared ?r ''a'' = Some (a, m)" "sc_stop a \<noteq> None" "state_of ?r ''a'' = Some ComponentConstructed"
    by (rule broken_adapter [of "''a''"]) simp_all
  moreover obtain b m' where "declared ?r ''b'' = Some (b, m')" "sc_stop b \<noteq> None" "sc_wait b \<noteq> None"
      "state_of ?r ''b'' = Some ComponentConstructed"
    by (rule broken_adapter [of "''b''"]) simp_all
  ultimately have calls: "snd w = [CallStop ''b'', CallWait ''b'', CallStop ''a'']"
    using states by (auto simp: halt_calls_def called_def simp del: traced_facts)
  have "\<exists>es. errs = map (\<lambda>(n, e). ErrStop n e) es @ (if True then [ErrGroup] else [])
      \<and> map fst es = [n \<leftarrow> rev [''a'', ''b'']. state_of (oc_registry oc) n = Some ComponentFailed]"
    using * by blast
  then obtain es where "errs = map (\<lambda>(n, e). ErrStop n e) es @ (if True then [ErrGroup] else [])"
      "map fst es = [n \<leftarrow> rev [''a'', ''b'']. state_of (oc_registry oc) n = Some ComponentFailed]" by blast
  then have "errs = map (\<lambda>(n, e). ErrStop n e) es @ [ErrGroup]" "map fst es = [''a'']"
    by (simp_all add: states)
  then show ?thesis using run calls * by (intro exI [of _ es] exI [of _ oc] exI [of _ w]) simp
qed

definition small_build :: "(nat, nat) built_components" where
  "small_build = \<lparr>bc_present = (\<lambda>n. n = ''eventstore'' \<or> n = ''memory''), bc_stop = (\<lambda>n w. (None, w + 1)), bc_knowledge_error = None\<rparr>"

lemma wired_system_starts_witness:
  "\<exists>ord oc w. wire_system_runtime ord (\<lambda>n. 0) small_build 0 = (None, oc, w) \<and> distinct ord
     \<and> dom (sr_entries (wired_registry small_build)) = {''eventstore'', ''memory''}
     \<and> {state_of (oc_registry oc) n | n. n \<in> {''eventstore'', ''memory''}} \<subseteq> Collect up"
proof -
  have dom: "dom (sr_entries (wired_registry small_build)) = {''eventstore'', ''memory''}"
    by (auto simp: wired_registry_def small_build_def wired_component_def register_adapter_def component_adapter_def
        register_sys_component_def new_sys_registry_def split: if_splits)
  let ?ord = "[''eventstore'', ''memory'']"
  obtain err oc w where run: "wire_system_runtime ?ord (\<lambda>n. 0) small_build 0 = (err, oc, w)"
    by (cases "wire_system_runtime ?ord (\<lambda>n. 0) small_build 0") auto
  have "range_order (sr_entries (wired_registry small_build)) ?ord" by (simp add: range_order_def dom)
  moreover have "\<forall>n d. bc_present small_build n \<longrightarrow> d \<in> set (wired_deps n) \<longrightarrow> bc_present small_build d"
    by (auto simp: small_build_def wired_deps_def)
  ultimately have "err = None \<and> (\<forall>n \<in> dom (sr_entries (wired_registry small_build)). up (state_of (oc_registry oc) n))"
    using wired_system_starts [OF _ _ run] by blast
  then show ?thesis using run dom by (intro exI [of _ ?ord] exI [of _ oc] exI [of _ w]) auto
qed

end
