(* ===== verification/Llm_Resilience.thy ===== *)
theory Llm_Resilience
  imports Go_Prelude
begin

text \<open>
  Package \<open>internal/llm\<close>: which errors are worth a retry, the retry policy, the circuit breaker, the loop that runs a
  call under both (\<open>resilience.go\<close>), and the client that fails over between providers (\<open>failover.go\<close>). A provider's
  call acts on a world \<open>'w\<close> and is an argument.
\<close>

section \<open>Errors\<close>

text \<open>An HTTP error, a transport error, the breaker's, a context's, any other, and one wrapped with a new message.\<close>

datatype llm_error =
    ErrHttp int string
  | ErrUrl string
  | ErrCircuitBreakerOpen
  | ErrContextDone
  | ErrPlain string
  | ErrWrapped string llm_error

fun as_http :: "llm_error \<Rightarrow> int option" where
  "as_http (ErrHttp status msg) = Some status"
| "as_http (ErrWrapped msg e) = as_http e"
| "as_http _ = None"

fun as_url :: "llm_error \<Rightarrow> bool" where
  "as_url (ErrUrl msg) = True"
| "as_url (ErrWrapped msg e) = as_url e"
| "as_url _ = False"

fun llm_error_message :: "llm_error \<Rightarrow> string" where
  "llm_error_message (ErrHttp status msg) = msg"
| "llm_error_message (ErrUrl msg) = msg"
| "llm_error_message ErrCircuitBreakerOpen = ''circuit breaker is open''"
| "llm_error_message ErrContextDone = ''context canceled''"
| "llm_error_message (ErrPlain msg) = msg"
| "llm_error_message (ErrWrapped msg e) = msg"

definition is_retryable_error :: "llm_error option \<Rightarrow> bool" where
  "is_retryable_error err =
     (case err of
        None \<Rightarrow> False
      | Some e \<Rightarrow> (case as_http e of Some status \<Rightarrow> status = 429 \<or> status \<ge> 500 | None \<Rightarrow> as_url e))"

definition is_rate_limit_error :: "llm_error option \<Rightarrow> bool" where
  "is_rate_limit_error err =
     (case err of
        None \<Rightarrow> False
      | Some e \<Rightarrow>
          (case as_http e of
             Some status \<Rightarrow> status = 429
           | None \<Rightarrow>
               (let msg = map ascii_lower (llm_error_message e)
                in go_contains ''429'' msg \<or> go_contains ''rate limit'' msg \<or> go_contains ''rate_limit'' msg)))"

section \<open>Retry policy\<close>

record llm_retry_policy =
  lrp_max :: int
  lrp_initial :: duration
  lrp_cap :: duration
  lrp_factor :: rat

definition default_llm_policy :: llm_retry_policy where
  "default_llm_policy = \<lparr>lrp_max = 3, lrp_initial = 500000000, lrp_cap = 8000000000, lrp_factor = 2\<rparr>"

definition retry_jitter :: rat where "retry_jitter = 4 / 10"

text \<open>\<open>rnd\<close> is the random number in \<open>[0, 1)\<close>.\<close>

definition backoff :: "rat \<Rightarrow> llm_retry_policy \<Rightarrow> int \<Rightarrow> duration" where
  "backoff rnd p failed =
     (if failed \<le> 0 then lrp_initial p
      else (let delay = of_int (lrp_initial p) * lrp_factor p ^ nat (failed - 1);
                capped = (if delay > of_int (lrp_cap p) then of_int (lrp_cap p) else delay)
            in go_trunc (capped * (1 - retry_jitter / 2 + retry_jitter * rnd))))"

section \<open>Circuit breaker\<close>

datatype circuit_state = CircuitClosed | CircuitOpen | CircuitHalfOpen

record breaker =
  cb_state :: circuit_state
  cb_failures :: int
  cb_threshold :: int
  cb_success_threshold :: int
  cb_last_failure :: time
  cb_open_timeout :: duration
  cb_half_success :: int
  cb_inflight :: int
  cb_last_probe :: time

definition new_breaker :: "int \<Rightarrow> duration \<Rightarrow> breaker" where
  "new_breaker threshold open_timeout =
     \<lparr>cb_state = CircuitClosed, cb_failures = 0, cb_threshold = threshold, cb_success_threshold = 2, cb_last_failure = 0,
      cb_open_timeout = open_timeout, cb_half_success = 0, cb_inflight = 0, cb_last_probe = 0\<rparr>"

definition breaker_allow :: "time \<Rightarrow> breaker \<Rightarrow> llm_error option \<times> breaker" where
  "breaker_allow now cb =
     (case cb_state cb of
        CircuitClosed \<Rightarrow> (None, cb)
      | CircuitOpen \<Rightarrow>
          if now - cb_last_failure cb \<le> cb_open_timeout cb then (Some ErrCircuitBreakerOpen, cb)
          else (None, cb\<lparr>cb_state := CircuitHalfOpen, cb_half_success := 0, cb_inflight := 1, cb_last_probe := now\<rparr>)
      | CircuitHalfOpen \<Rightarrow>
          (let cb1 = (if cb_inflight cb > 0 \<and> now - cb_last_probe cb > cb_open_timeout cb then cb\<lparr>cb_inflight := 0\<rparr> else cb)
           in if cb_inflight cb1 > 0 then (Some ErrCircuitBreakerOpen, cb1)
              else (None, cb1\<lparr>cb_inflight := 1, cb_last_probe := now\<rparr>)))"

definition record_success :: "breaker \<Rightarrow> breaker" where
  "record_success cb =
     (case cb_state cb of
        CircuitClosed \<Rightarrow> cb\<lparr>cb_failures := 0\<rparr>
      | CircuitOpen \<Rightarrow> cb
      | CircuitHalfOpen \<Rightarrow>
          (let cb1 = cb\<lparr>cb_inflight := 0, cb_half_success := cb_half_success cb + 1\<rparr>
           in if cb_half_success cb1 \<ge> cb_success_threshold cb1
              then cb1\<lparr>cb_state := CircuitClosed, cb_failures := 0, cb_half_success := 0\<rparr> else cb1))"

definition record_failure :: "time \<Rightarrow> breaker \<Rightarrow> breaker" where
  "record_failure now cb =
     (case cb_state cb of
        CircuitClosed \<Rightarrow>
          (let cb1 = cb\<lparr>cb_failures := cb_failures cb + 1, cb_last_failure := now\<rparr>
           in if cb_failures cb1 \<ge> cb_threshold cb1 then cb1\<lparr>cb_state := CircuitOpen\<rparr> else cb1)
      | CircuitOpen \<Rightarrow> cb
      | CircuitHalfOpen \<Rightarrow> cb\<lparr>cb_inflight := 0, cb_state := CircuitOpen, cb_last_failure := now\<rparr>)"

definition breaker_is_open :: "breaker \<Rightarrow> bool" where
  "breaker_is_open cb = (cb_state cb = CircuitOpen)"

definition breaker_is_half_open :: "breaker \<Rightarrow> bool" where
  "breaker_is_half_open cb = (cb_state cb = CircuitHalfOpen)"

section \<open>A call under policy and breaker\<close>

text \<open>
  What a call meets in one attempt: the times at which the breaker is asked and told, whether the context is done
  when asked once and again after the call, and whether it is done before the wait ends.
\<close>

record attempt_env =
  ae_allow :: time
  ae_told :: time
  ae_done :: bool
  ae_done_again :: bool
  ae_wait_cut :: bool

definition told_of_failure :: "attempt_env \<Rightarrow> llm_error \<Rightarrow> breaker \<Rightarrow> breaker" where
  "told_of_failure env e cb =
     (if breaker_is_half_open cb \<or> is_retryable_error (Some e) \<and> \<not> ae_done_again env then record_failure (ae_told env) cb else cb)"

text \<open>\<open>left\<close> counts the attempts left, this one included, of \<open>attempts\<close> in all.\<close>

fun retry_loop ::
  "(nat \<Rightarrow> attempt_env) \<Rightarrow> ('w \<Rightarrow> (llm_error + 'a) \<times> 'w) \<Rightarrow> nat \<Rightarrow> nat \<Rightarrow> llm_error option \<Rightarrow> breaker option \<times> 'w
    \<Rightarrow> (llm_error option + 'a) \<times> breaker option \<times> 'w" where
  "retry_loop env call attempts 0 prev s = (Inl prev, s)"
| "retry_loop env call attempts (Suc left) prev (cb, w) =
     (let attempt = attempts - left; e = env attempt in
      case (case cb of None \<Rightarrow> (None, None) | Some b \<Rightarrow> (case breaker_allow (ae_allow e) b of (err, b1) \<Rightarrow> (err, Some b1))) of
        (Some err, cb1) \<Rightarrow> (Inl (Some err), cb1, w)
      | (None, cb1) \<Rightarrow>
          (case call w of
             (Inr a, w1) \<Rightarrow> (Inr a, map_option record_success cb1, w1)
           | (Inl err, w1) \<Rightarrow>
               if left = 0 \<or> \<not> is_retryable_error (Some err) \<or> ae_done e
               then (Inl (Some err), map_option (told_of_failure e err) cb1, w1)
               else if ae_wait_cut e then (Inl (Some ErrContextDone), cb1, w1)
               else retry_loop env call attempts left (Some err) (cb1, w1)))"

definition retry_attempts :: "llm_retry_policy \<Rightarrow> nat" where
  "retry_attempts p = (if lrp_max p < 1 then 1 else nat (lrp_max p))"

definition with_retry ::
  "(nat \<Rightarrow> attempt_env) \<Rightarrow> llm_retry_policy \<Rightarrow> ('w \<Rightarrow> (llm_error + 'a) \<times> 'w) \<Rightarrow> breaker option \<times> 'w
    \<Rightarrow> (llm_error option + 'a) \<times> breaker option \<times> 'w" where
  "with_retry env p call s = retry_loop env call (retry_attempts p) (retry_attempts p) None s"

section \<open>Failing over\<close>

record ('a, 'w) llm_client =
  lc_provider :: string
  lc_model :: string
  lc_call :: "'w \<Rightarrow> (llm_error + 'a) \<times> 'w"

record ('a, 'w) failover_client =
  fc_clients :: "('a, 'w) llm_client list"
  fc_timeout :: duration
  fc_cooldown :: duration
  fc_cooldowns :: "string \<rightharpoonup> time"

datatype failover_error = ErrNoProvider nat | ErrAllFailed nat llm_error | ErrNoConfig | ErrPrimaryClient llm_error

definition default_cooldown :: duration where "default_cooldown = 60000000000"

text \<open>\<open>build\<close> builds a client from a configuration; the primary one must be built, a fallback may not.\<close>

definition new_failover_client ::
  "('c \<Rightarrow> llm_error + ('a, 'w) llm_client) \<Rightarrow> 'c list \<Rightarrow> duration \<Rightarrow> duration option \<Rightarrow> failover_error + ('a, 'w) failover_client" where
  "new_failover_client build configs timeout cooldown =
     (case configs of
        [] \<Rightarrow> Inl ErrNoConfig
      | c # cs \<Rightarrow>
          (case build c of
             Inl e \<Rightarrow> Inl (ErrPrimaryClient e)
           | Inr primary \<Rightarrow>
               Inr \<lparr>fc_clients = primary # List.map_filter (\<lambda>c. case build c of Inl _ \<Rightarrow> None | Inr x \<Rightarrow> Some x) cs,
                    fc_timeout = (if timeout \<le> 0 then 30 * 1000000000 else timeout),
                    fc_cooldown = (case cooldown of None \<Rightarrow> default_cooldown | Some d \<Rightarrow> d),
                    fc_cooldowns = Map.empty\<rparr>))"

definition client_key :: "('a, 'w) llm_client \<Rightarrow> string" where
  "client_key c = lc_provider c @ ''/'' @ lc_model c"

definition is_cooled_down :: "time \<Rightarrow> string \<Rightarrow> (string \<rightharpoonup> time) \<Rightarrow> bool \<times> (string \<rightharpoonup> time)" where
  "is_cooled_down now k m =
     (case m k of None \<Rightarrow> (False, m) | Some expiry \<Rightarrow> if now < expiry then (True, m) else (False, m(k := None)))"

definition mark_cooldown :: "time \<Rightarrow> string \<Rightarrow> duration \<Rightarrow> (string \<rightharpoonup> time) \<Rightarrow> (string \<rightharpoonup> time)" where
  "mark_cooldown now k d m = m(k \<mapsto> now + d)"

definition clear_cooldown :: "string \<Rightarrow> (string \<rightharpoonup> time) \<Rightarrow> (string \<rightharpoonup> time)" where
  "clear_cooldown k m = m(k := None)"

definition cooldown_for_error :: "duration \<Rightarrow> llm_error \<Rightarrow> duration" where
  "cooldown_for_error cooldown e =
     (if is_rate_limit_error (Some e) then cooldown
      else (let third = (if cooldown < 0 then - ((- cooldown) div 3) else cooldown div 3);
                short = (if third < 100000000 then 100000000 else third)
            in if short > cooldown then cooldown else short))"

text \<open>
  The loop that \<open>Generate\<close>, \<open>Chat\<close> and the opening of \<open>GenerateStream\<close> share; \<open>clock\<close> gives for a client the times at
  which its cooldown is read and set.
\<close>

fun failover_loop ::
  "(nat \<Rightarrow> time \<times> time) \<Rightarrow> duration \<Rightarrow> nat \<Rightarrow> ('a, 'w) llm_client list \<Rightarrow> llm_error option \<Rightarrow> (string \<rightharpoonup> time) \<times> 'w
    \<Rightarrow> (llm_error option + 'a) \<times> (string \<rightharpoonup> time) \<times> 'w" where
  "failover_loop clock cooldown i [] prev s = (Inl prev, s)"
| "failover_loop clock cooldown i (c # cs) prev (m, w) =
     (case is_cooled_down (fst (clock i)) (client_key c) m of
        (True, m1) \<Rightarrow> failover_loop clock cooldown (Suc i) cs prev (m1, w)
      | (False, m1) \<Rightarrow>
          (case lc_call c w of
             (Inr a, w1) \<Rightarrow> (Inr a, clear_cooldown (client_key c) m1, w1)
           | (Inl e, w1) \<Rightarrow>
               failover_loop clock cooldown (Suc i) cs (Some e)
                 (mark_cooldown (snd (clock i)) (client_key c) (cooldown_for_error cooldown e) m1, w1)))"

definition failover_generate ::
  "(nat \<Rightarrow> time \<times> time) \<Rightarrow> ('a, 'w) failover_client \<times> 'w \<Rightarrow> (failover_error + 'a) \<times> ('a, 'w) failover_client \<times> 'w" where
  "failover_generate clock s =
     (case s of (fc, w) \<Rightarrow>
      case failover_loop clock (fc_cooldown fc) 0 (fc_clients fc) None (fc_cooldowns fc, w) of
        (res, m, w1) \<Rightarrow>
          ((case res of
              Inr a \<Rightarrow> Inr a
            | Inl None \<Rightarrow> Inl (ErrNoProvider (length (fc_clients fc)))
            | Inl (Some e) \<Rightarrow> Inl (ErrAllFailed (length (fc_clients fc)) e)), fc\<lparr>fc_cooldowns := m\<rparr>, w1))"

definition active_providers :: "time \<Rightarrow> ('a, 'w) failover_client \<Rightarrow> string list" where
  "active_providers now fc =
     [lc_provider c @ '':'' @ lc_model c. c \<leftarrow> [c \<leftarrow> fc_clients fc.
        case fc_cooldowns fc (client_key c) of None \<Rightarrow> True | Some expiry \<Rightarrow> now > expiry]]"

end
