(* ===== verification/Llm_Props.thy ===== *)
theory Llm_Props
  imports Llm_Resilience "HOL-Library.Sublist"
begin

text \<open>
  When the circuit opens, how far apart probes are, how often a call is tried and what the breaker learns of it, and
  which provider a failing-over client asks.
\<close>

section \<open>Opening\<close>

text \<open>The results of calls in their order, \<open>None\<close> a success and \<open>Some t\<close> a failure told at \<open>t\<close>.\<close>

fun tell :: "time option \<Rightarrow> breaker \<Rightarrow> breaker" where
  "tell None cb = record_success cb"
| "tell (Some t) cb = record_failure t cb"

definition failures_at_end :: "time option list \<Rightarrow> nat" where
  "failures_at_end rs = length (takeWhile (\<lambda>r. r \<noteq> None) (rev rs))"

lemma failures_snoc: "failures_at_end (rs @ [r]) = (case r of None \<Rightarrow> 0 | Some t \<Rightarrow> Suc (failures_at_end rs))"
  by (simp add: failures_at_end_def split: option.splits)

text \<open>Some \<open>n\<close> results in a row are failures.\<close>

definition fails_in_row :: "nat \<Rightarrow> time option list \<Rightarrow> bool" where
  "fails_in_row n rs \<longleftrightarrow> (\<exists>xs ys zs. rs = xs @ ys @ zs \<and> length ys = n \<and> None \<notin> set ys)"

lemma fails_in_row_append: "fails_in_row n rs \<Longrightarrow> fails_in_row n (rs @ ts)"
  unfolding fails_in_row_def by (metis append.assoc)

lemma failures_at_end_suffix:
  obtains xs d where "rs = xs @ d" "length d = failures_at_end rs" "None \<notin> set d"
proof
  let ?p = "\<lambda>r. r \<noteq> (None :: time option)"
  have "rev rs = takeWhile ?p (rev rs) @ dropWhile ?p (rev rs)" by simp
  then show "rs = rev (dropWhile ?p (rev rs)) @ rev (takeWhile ?p (rev rs))" by (metis rev_append rev_rev_ident)
  show "length (rev (takeWhile ?p (rev rs))) = failures_at_end rs" by (simp add: failures_at_end_def)
  show "None \<notin> set (rev (takeWhile ?p (rev rs)))" by (auto dest: set_takeWhileD)
qed

lemma fails_in_row_snoc:
  assumes "0 < n"
  shows "fails_in_row n (rs @ [r]) \<longleftrightarrow> fails_in_row n rs \<or> n \<le> failures_at_end (rs @ [r])"
proof (intro iffI)
  assume "fails_in_row n (rs @ [r])"
  then obtain xs ys zs where rs: "rs @ [r] = xs @ ys @ zs" "length ys = n" "None \<notin> set ys" by (auto simp: fails_in_row_def)
  show "fails_in_row n rs \<or> n \<le> failures_at_end (rs @ [r])"
  proof (cases zs rule: rev_cases)
    case Nil
    then have "rev (rs @ [r]) = rev ys @ rev xs" using rs(1) by (metis append_Nil2 rev_append)
    moreover have "\<forall>y \<in> set (rev ys). y \<noteq> None" using rs(3) by (metis set_rev)
    ultimately have "takeWhile (\<lambda>r. r \<noteq> None) (rev (rs @ [r])) = rev ys @ takeWhile (\<lambda>r. r \<noteq> None) (rev xs)"
      using takeWhile_append2 [of "rev ys" "\<lambda>r. r \<noteq> None" "rev xs"] by metis
    then have "failures_at_end (rs @ [r]) = length ys + length (takeWhile (\<lambda>r. r \<noteq> None) (rev xs))"
      unfolding failures_at_end_def by (metis length_append length_rev)
    then show ?thesis using rs(2) by linarith
  next
    case (snoc zs' z)
    then have "rs = xs @ ys @ zs'" using rs(1) by simp
    then show ?thesis using rs(2,3) unfolding fails_in_row_def by blast
  qed
next
  assume "fails_in_row n rs \<or> n \<le> failures_at_end (rs @ [r])"
  then show "fails_in_row n (rs @ [r])"
  proof
    assume "fails_in_row n rs" then show ?thesis by (rule fails_in_row_append)
  next
    assume n: "n \<le> failures_at_end (rs @ [r])"
    obtain xs d where ss: "rs @ [r] = xs @ d" "length d = failures_at_end (rs @ [r])" "None \<notin> set d"
      by (rule failures_at_end_suffix)
    have "rs @ [r] = xs @ take n d @ drop n d" using ss(1) by simp
    moreover have "length (take n d) = n" using n ss(2) by simp
    moreover have "None \<notin> set (take n d)" using ss(3) by (auto dest: in_set_takeD)
    ultimately show ?thesis unfolding fails_in_row_def by blast
  qed
qed

lemma tell_fields [simp]: "cb_threshold (tell r cb) = cb_threshold cb" "cb_open_timeout (tell r cb) = cb_open_timeout cb"
  by (cases r; auto simp: record_success_def record_failure_def Let_def split: circuit_state.splits)+

lemma tell_run:
  assumes "0 < threshold"
  shows "let cb = fold tell rs (new_breaker threshold d) in
    cb_threshold cb = threshold \<and>
    (if fails_in_row (nat threshold) rs then cb_state cb = CircuitOpen
     else cb_state cb = CircuitClosed \<and> cb_failures cb = int (failures_at_end rs))"
proof (induction rs rule: rev_induct)
  case Nil
  then show ?case using assms by (auto simp: new_breaker_def fails_in_row_def failures_at_end_def Let_def)
next
  case (snoc r rs)
  let ?cb = "fold tell rs (new_breaker threshold d)"
  have row: "fails_in_row (nat threshold) (rs @ [r]) \<longleftrightarrow> fails_in_row (nat threshold) rs \<or> nat threshold \<le> failures_at_end (rs @ [r])"
    using assms by (intro fails_in_row_snoc) simp
  show ?case
  proof (cases "fails_in_row (nat threshold) rs")
    case True
    then have "cb_state ?cb = CircuitOpen" "cb_threshold ?cb = threshold" using snoc by (simp_all add: Let_def)
    then show ?thesis using True row by (cases r) (auto simp: Let_def record_success_def record_failure_def)
  next
    case False
    then have "cb_state ?cb = CircuitClosed" "cb_failures ?cb = int (failures_at_end rs)" "cb_threshold ?cb = threshold"
      using snoc by (simp_all add: Let_def)
    then show ?thesis using False row assms
      by (cases r) (auto simp: Let_def record_success_def record_failure_def failures_snoc nat_le_iff)
  qed
qed

text \<open>
  While no one asks the breaker, it is open after a list of results exactly when as many failures as its threshold
  came in a row; otherwise it is closed.
\<close>

theorem opens_exactly:
  assumes "0 < threshold"
  shows "breaker_is_open (fold tell rs (new_breaker threshold d)) \<longleftrightarrow> fails_in_row (nat threshold) rs"
  using tell_run [OF assms, of rs d] by (auto simp: breaker_is_open_def Let_def split: if_splits)

lemma opens_exactly_witness:
  "breaker_is_open (fold tell [Some 1, Some 2, None, Some 3, Some 4, Some 5] (new_breaker 3 30))
    \<and> fails_in_row (nat 3) [Some 1, Some 2, None, Some 3, Some 4, Some 5]"
proof -
  have "breaker_is_open (fold tell [Some 1, Some 2, None, Some 3, Some 4, Some 5] (new_breaker 3 30))"
    by (simp add: new_breaker_def record_failure_def record_success_def breaker_is_open_def Let_def)
  then show ?thesis using opens_exactly [of 3 "[Some 1, Some 2, None, Some 3, Some 4, Some 5]" 30] by simp
qed

section \<open>Half open\<close>

text \<open>A probe that fails opens the circuit again, two that succeed in turn close it.\<close>

lemma probe_decides:
  assumes "cb_state cb = CircuitOpen" "cb_last_failure cb + cb_open_timeout cb < now" "breaker_allow now cb = (err, cb1)"
  shows "err = None" "cb_state cb1 = CircuitHalfOpen" "cb_inflight cb1 = 1" "cb_last_probe cb1 = now"
    "cb_state (record_failure t cb1) = CircuitOpen" "cb_last_failure (record_failure t cb1) = t"
    "cb_success_threshold cb = 2 \<Longrightarrow> breaker_allow u (record_success cb1) = (err2, cb2) \<Longrightarrow>
       err2 = None \<and> cb_state (record_success cb2) = CircuitClosed"
  using assms by (auto simp: breaker_allow_def record_failure_def record_success_def Let_def split: if_splits)

text \<open>While a probe is out no other call is admitted before the time-out is over.\<close>

lemma one_probe_at_a_time:
  "cb_state cb = CircuitHalfOpen \<Longrightarrow> 0 < cb_inflight cb \<Longrightarrow> now \<le> cb_last_probe cb + cb_open_timeout cb \<Longrightarrow>
    breaker_allow now cb = (Some ErrCircuitBreakerOpen, cb)"
  by (simp add: breaker_allow_def)

section \<open>Retrying\<close>

definition call_world :: "('w \<Rightarrow> (llm_error + 'a) \<times> 'w) \<Rightarrow> nat \<Rightarrow> 'w \<Rightarrow> 'w" where
  "call_world call n w = ((snd \<circ> call) ^^ n) w"

lemma call_world_simps [simp]: "call_world call 0 w = w" "call_world call (Suc n) w = call_world call n (snd (call w))"
  by (simp_all add: call_world_def funpow_swap1)

definition call_result :: "('w \<Rightarrow> (llm_error + 'a) \<times> 'w) \<Rightarrow> nat \<Rightarrow> 'w \<Rightarrow> llm_error + 'a" where
  "call_result call n w = fst (call (call_world call n w))"

text \<open>How the loop ends after \<open>n + 1\<close> calls, of which the first is attempt \<open>first\<close> of \<open>attempts\<close>.\<close>

definition retry_ends ::
  "(nat \<Rightarrow> attempt_env) \<Rightarrow> nat \<Rightarrow> (llm_error + 'a) \<Rightarrow> nat \<Rightarrow> breaker \<Rightarrow> llm_error option + 'a \<Rightarrow> breaker option \<Rightarrow> bool" where
  "retry_ends env attempts last_result i b res cb =
     (case last_result of
        Inr a \<Rightarrow> res = Inr a \<and> cb = Some (record_success b)
      | Inl e \<Rightarrow>
          res = Inl (Some e) \<and> cb = Some (told_of_failure (env i) e b)
            \<and> (i = attempts \<or> \<not> is_retryable_error (Some e) \<or> ae_done (env i))
          \<or> res = Inl (Some ErrContextDone) \<and> cb = Some b \<and> ae_wait_cut (env i) \<and> i < attempts)"

lemma retry_loop_exact:
  assumes "retry_loop env call attempts left prev (Some b, w) = (res, cb, w')" "cb_state b = CircuitClosed" "0 < left" "left \<le> attempts"
  shows "\<exists>n < left. w' = call_world call (Suc n) w
    \<and> (\<forall>j < n. \<exists>e. call_result call j w = Inl e \<and> is_retryable_error (Some e))
    \<and> retry_ends env attempts (call_result call n w) (Suc (attempts - left) + n) b res cb"
  using assms
proof (induction left arbitrary: prev w)
  case (Suc left)
  let ?i = "attempts - left"
  have i: "Suc (attempts - Suc left) = ?i" using Suc.prems(4) by simp
  obtain r w1 where call: "call w = (r, w1)" by (cases "call w")
  have allow: "breaker_allow t b = (None, b)" for t using Suc.prems(2) by (simp add: breaker_allow_def)
  show ?case
  proof (cases r)
    case (Inr a)
    then show ?thesis using Suc.prems(1) call allow i
      by (intro exI [of _ 0]) (auto simp: call_result_def retry_ends_def Let_def)
  next
    case (Inl e)
    show ?thesis
    proof (cases "left = 0 \<or> \<not> is_retryable_error (Some e) \<or> ae_done (env ?i) \<or> ae_wait_cut (env ?i)")
      case True
      then show ?thesis using Suc.prems(1,4) call allow i Inl
        by (intro exI [of _ 0]) (auto simp: call_result_def retry_ends_def Let_def split: if_splits)
    next
      case False
      then have rest: "retry_loop env call attempts left (Some e) (Some b, w1) = (res, cb, w')"
        using Suc.prems(1) call allow Inl by (simp add: Let_def)
      from Suc.IH [OF rest Suc.prems(2)] False Suc.prems(4) obtain n where n: "n < left" "w' = call_world call (Suc n) w1"
          "\<forall>j < n. \<exists>e. call_result call j w1 = Inl e \<and> is_retryable_error (Some e)"
          "retry_ends env attempts (call_result call n w1) (Suc (attempts - left) + n) b res cb" by auto
      have shift: "call_result call (Suc j) w = call_result call j w1" for j using call by (simp add: call_result_def)
      have "\<forall>j < Suc n. \<exists>e. call_result call j w = Inl e \<and> is_retryable_error (Some e)"
      proof (intro allI impI)
        fix j assume "j < Suc n"
        then show "\<exists>e. call_result call j w = Inl e \<and> is_retryable_error (Some e)"
          using n(3) shift call Inl False by (cases j) (auto simp: call_result_def)
      qed
      then show ?thesis using n shift i call by (intro exI [of _ "Suc n"]) simp
    qed
  qed
qed simp

text \<open>
  Under a closed circuit a call is tried at least once and at most as often as the policy says, again only after
  failures that are worth it; the result is that of the last try, or the context's error when the wait was cut; and
  the breaker learns of the call as a whole once, never of each try.
\<close>

theorem retry_exact:
  assumes "with_retry env p call (Some b, w) = (res, cb, w')" "cb_state b = CircuitClosed"
  shows "\<exists>n < retry_attempts p. w' = call_world call (Suc n) w
    \<and> (\<forall>j < n. \<exists>e. call_result call j w = Inl e \<and> is_retryable_error (Some e))
    \<and> retry_ends env (retry_attempts p) (call_result call n w) (Suc n) b res cb"
proof -
  have "0 < retry_attempts p" by (simp add: retry_attempts_def)
  then show ?thesis using retry_loop_exact [OF assms(1) [unfolded with_retry_def] assms(2)] by simp
qed

text \<open>A provider that answers from a list, and attempts one second apart.\<close>

fun scripted :: "(llm_error + nat) list \<Rightarrow> (llm_error + nat) \<times> (llm_error + nat) list" where
  "scripted [] = (Inl (ErrPlain ''no more''), [])"
| "scripted (x # xs) = (x, xs)"

definition calm :: "nat \<Rightarrow> attempt_env" where
  "calm i = \<lparr>ae_allow = 1000000000 * int i, ae_told = 1000000000 * int i + 1, ae_done = False, ae_done_again = False, ae_wait_cut = False\<rparr>"

lemmas retry_run = with_retry_def retry_attempts_def default_llm_policy_def eval_nat_numeral Let_def is_retryable_error_def
  breaker_allow_def record_success_def record_failure_def told_of_failure_def breaker_is_half_open_def new_breaker_def calm_def

lemma retry_exact_witness:
  "with_retry calm default_llm_policy scripted (Some (new_breaker 3 30), [Inl (ErrHttp 503 ''busy''), Inr 7, Inr 8])
     = (Inr 7, Some (record_success (new_breaker 3 30)), [Inr 8])
   \<and> (\<exists>n. n \<in> {..<3} \<and> [Inr 8] = call_world scripted (Suc n) [Inl (ErrHttp 503 ''busy''), Inr 7, Inr 8]
      \<and> retry_ends calm 3 (call_result scripted n [Inl (ErrHttp 503 ''busy''), Inr 7, Inr 8]) (Suc n) (new_breaker 3 30) (Inr 7)
          (Some (record_success (new_breaker 3 30))))"
proof -
  have run: "with_retry calm default_llm_policy scripted (Some (new_breaker 3 30), [Inl (ErrHttp 503 ''busy''), Inr 7, Inr 8])
      = (Inr 7, Some (record_success (new_breaker 3 30)), [Inr 8])"
    by (simp add: retry_run)
  have "cb_state (new_breaker 3 30) = CircuitClosed" "retry_attempts default_llm_policy = 3"
    by (simp_all add: new_breaker_def retry_attempts_def default_llm_policy_def)
  with retry_exact [OF run] run show ?thesis by auto
qed

text \<open>
  A probe of a client with the default policy: when its first try fails in a way that is worth a retry, the second
  asks the breaker again, is refused because the probe itself is out, and the call ends with that refusal. The
  circuit is not opened again and the place of the probe stays taken, although the comments promise both.
\<close>

lemma probe_retry_starves:
  assumes "cb_state cb = CircuitOpen" "cb_last_failure cb + cb_open_timeout cb < 1000000000" "1000000000 \<le> cb_open_timeout cb"
  shows "\<exists>cb'. with_retry calm default_llm_policy scripted (Some cb, [Inl (ErrHttp 503 ''busy'')])
      = (Inl (Some ErrCircuitBreakerOpen), Some cb', [])
    \<and> cb_state cb' = CircuitHalfOpen \<and> cb_inflight cb' = 1"
  using assms by (simp add: retry_run)

section \<open>Failing over\<close>

text \<open>
  What a call should do: ask the available clients in their order until one answers. The result are the failures by
  the index of the client, and the index and the answer of the one that succeeded.
\<close>

fun ask_in_order :: "(nat \<times> ('a, 'w) llm_client) list \<Rightarrow> 'w \<Rightarrow> (nat \<times> llm_error) list \<times> (nat \<times> 'a) option \<times> 'w" where
  "ask_in_order [] w = ([], None, w)"
| "ask_in_order ((i, c) # cs) w =
     (case lc_call c w of
        (Inr a, w1) \<Rightarrow> ([], Some (i, a), w1)
      | (Inl e, w1) \<Rightarrow> (case ask_in_order cs w1 of (es, r, w2) \<Rightarrow> ((i, e) # es, r, w2)))"

definition rests :: "(nat \<Rightarrow> time \<times> time) \<Rightarrow> (string \<rightharpoonup> time) \<Rightarrow> nat \<times> ('a, 'w) llm_client \<Rightarrow> bool" where
  "rests clock m ic = (case m (client_key (snd ic)) of None \<Rightarrow> False | Some expiry \<Rightarrow> fst (clock (fst ic)) < expiry)"

definition available :: "(nat \<Rightarrow> time \<times> time) \<Rightarrow> (string \<rightharpoonup> time) \<Rightarrow> (nat \<times> ('a, 'w) llm_client) list \<Rightarrow> (nat \<times> ('a, 'w) llm_client) list" where
  "available clock m ics = [ic \<leftarrow> ics. \<not> rests clock m ic]"

definition ask_outcome :: "(nat \<times> llm_error) list \<Rightarrow> (nat \<times> 'a) option \<Rightarrow> llm_error option \<Rightarrow> llm_error option + 'a" where
  "ask_outcome es r prev =
     (case r of Some (i, a) \<Rightarrow> Inr a | None \<Rightarrow> Inl (if es = [] then prev else Some (snd (last es))))"

lemma failover_loop_refines:
  assumes "failover_loop clock cooldown i cs prev (m, w) = (res, m', w')" "distinct (map client_key cs)"
    and "ask_in_order (available clock m0 (zip [i..<i + length cs] cs)) w = (es, r, w'')"
    and "\<And>c. c \<in> set cs \<Longrightarrow> m (client_key c) = m0 (client_key c)"
  shows "w' = w'' \<and> res = ask_outcome es r prev
    \<and> (\<forall>(j, e) \<in> set es. i \<le> j \<and> j < i + length cs \<and> m' (client_key (cs ! (j - i))) = Some (snd (clock j) + cooldown_for_error cooldown e))
    \<and> (\<forall>(j, a) \<in> set_option r. i \<le> j \<and> j < i + length cs \<and> m' (client_key (cs ! (j - i))) = None)
    \<and> (\<forall>k. k \<notin> client_key ` set cs \<longrightarrow> m' k = m k)"
  using assms
proof (induction cs arbitrary: i prev m w es r w'')
  case Nil
  then show ?case by (simp add: available_def ask_outcome_def)
next
  case (Cons c cs)
  have zip: "zip [i..<i + length (c # cs)] (c # cs) = (i, c) # zip [Suc i..<Suc i + length cs] cs"
    by (simp add: upt_rec)
  let ?k = "client_key c" and ?now = "fst (clock i)"
  obtain cool m1 where cool: "is_cooled_down ?now ?k m = (cool, m1)" by (cases "is_cooled_down ?now ?k m")
  have mk: "m ?k = m0 ?k" using Cons.prems(4) by simp
  have m1: "m1 x = m x" if "x \<noteq> ?k" for x using cool that by (auto simp: is_cooled_down_def split: option.splits if_splits)
  have keys: "?k \<notin> client_key ` set cs" "distinct (map client_key cs)" using Cons.prems(2) by auto
  have rest: "cool = rests clock m0 (i, c)"
    using cool mk by (auto simp: is_cooled_down_def rests_def split: option.splits if_splits)
  have same: "m1 (client_key x) = m0 (client_key x)" if "x \<in> set cs" for x
    using that keys(1) m1 Cons.prems(4) by (metis image_eqI list.set_intros(2))
  show ?case
  proof (cases cool)
    case True
    then have loop: "failover_loop clock cooldown (Suc i) cs prev (m1, w) = (res, m', w')" using Cons.prems(1) cool by simp
    have "ask_in_order (available clock m0 (zip [Suc i..<Suc i + length cs] cs)) w = (es, r, w'')"
      using Cons.prems(3) True rest unfolding zip by (simp add: available_def)
    note t = Cons.IH [OF loop keys(2) this same]
    have "m1 = m" using cool True by (auto simp: is_cooled_down_def split: option.splits if_splits)
    with t show ?thesis by (fastforce simp: Suc_le_eq nth_Cons' Suc_diff_le diff_Suc split: nat.splits)
  next
    case False
    obtain x w1 where call: "lc_call c w = (x, w1)" by (cases "lc_call c w")
    show ?thesis
    proof (cases x)
      case (Inr a)
      then have "res = Inr a" "m' = clear_cooldown ?k m1" "w' = w1" using Cons.prems(1) cool False call by auto
      moreover have "es = []" "r = Some (i, a)" "w'' = w1"
        using Cons.prems(3) False rest Inr call unfolding zip by (auto simp: available_def)
      ultimately show ?thesis using m1 by (auto simp: ask_outcome_def clear_cooldown_def)
    next
      case (Inl e)
      let ?m = "mark_cooldown (snd (clock i)) ?k (cooldown_for_error cooldown e) m1"
      have loop: "failover_loop clock cooldown (Suc i) cs (Some e) (?m, w1) = (res, m', w')"
        using Cons.prems(1) cool False call Inl by simp
      obtain es2 r2 w2 where ask: "ask_in_order (available clock m0 (zip [Suc i..<Suc i + length cs] cs)) w1 = (es2, r2, w2)"
        by (cases "ask_in_order (available clock m0 (zip [Suc i..<Suc i + length cs] cs)) w1") auto
      have es: "es = (i, e) # es2" "r = r2" "w'' = w2"
        using Cons.prems(3) False rest Inl call ask unfolding zip by (auto simp: available_def)
      have "?m (client_key y) = m0 (client_key y)" if "y \<in> set cs" for y
      proof -
        have "client_key y \<noteq> ?k" using keys(1) that by (metis image_eqI)
        then show ?thesis using same [OF that] by (simp add: mark_cooldown_def)
      qed
      note t = Cons.IH [OF loop keys(2) ask this]
      have "m' ?k = Some (snd (clock i) + cooldown_for_error cooldown e)" using t keys(1) by (simp add: mark_cooldown_def)
      moreover have "m' k = m k" if "k \<notin> client_key ` set (c # cs)" for k using t that m1 by (simp add: mark_cooldown_def)
      moreover have "res = ask_outcome es r prev" using t es by (auto simp: ask_outcome_def split: option.splits)
      ultimately show ?thesis using t es
        by (fastforce simp: Suc_le_eq nth_Cons' Suc_diff_le diff_Suc split: nat.splits)
    qed
  qed
qed

text \<open>
  A call asks, in their order, exactly the providers whose cooldown is over, up to the first that answers, and
  gives its answer or the last failure. Each that failed then rests for the time its error calls for, the one that
  answered has no cooldown, and the cooldowns of no other client have changed.
\<close>

theorem failover_refines:
  assumes "failover_generate clock (fc, w) = (res, fc', w')" "distinct (map client_key (fc_clients fc))"
    and "ask_in_order (available clock (fc_cooldowns fc) (zip [0..<length (fc_clients fc)] (fc_clients fc))) w = (es, r, w'')"
  shows "w' = w''
    \<and> res = (case r of Some (i, a) \<Rightarrow> Inr a
             | None \<Rightarrow> Inl (if es = [] then ErrNoProvider (length (fc_clients fc)) else ErrAllFailed (length (fc_clients fc)) (snd (last es))))
    \<and> (\<forall>(j, e) \<in> set es. fc_cooldowns fc' (client_key (fc_clients fc ! j)) = Some (snd (clock j) + cooldown_for_error (fc_cooldown fc) e))
    \<and> (\<forall>(j, a) \<in> set_option r. fc_cooldowns fc' (client_key (fc_clients fc ! j)) = None)
    \<and> (\<forall>k. k \<notin> client_key ` set (fc_clients fc) \<longrightarrow> fc_cooldowns fc' k = fc_cooldowns fc k)"
proof -
  obtain x m w1 where loop: "failover_loop clock (fc_cooldown fc) 0 (fc_clients fc) None (fc_cooldowns fc, w) = (x, m, w1)"
    by (cases "failover_loop clock (fc_cooldown fc) 0 (fc_clients fc) None (fc_cooldowns fc, w)") auto
  then have out: "w' = w1" "fc_cooldowns fc' = m" "res = (case x of Inr a \<Rightarrow> Inr a
      | Inl None \<Rightarrow> Inl (ErrNoProvider (length (fc_clients fc))) | Inl (Some e) \<Rightarrow> Inl (ErrAllFailed (length (fc_clients fc)) e))"
    using assms(1) by (auto simp: failover_generate_def)
  note t = failover_loop_refines [OF loop assms(2), of "fc_cooldowns fc" es r w''] 
  show ?thesis using t assms(3) out by (auto simp: ask_outcome_def split: option.splits)
qed

definition two_providers :: "(nat, nat) failover_client" where
  "two_providers = \<lparr>fc_clients = [\<lparr>lc_provider = ''a'', lc_model = ''m'', lc_call = (\<lambda>w. (Inl (ErrHttp 429 ''slow down''), w + 1))\<rparr>,
     \<lparr>lc_provider = ''b'', lc_model = ''m'', lc_call = (\<lambda>w. (Inr w, w + 10))\<rparr>], fc_timeout = 30, fc_cooldown = 60, fc_cooldowns = Map.empty\<rparr>"

lemma failover_refines_witness:
  "\<exists>fc. failover_generate (\<lambda>i. (5, 6)) (two_providers, 0) = (Inr 1, fc, 11)
     \<and> fc_cooldowns fc (client_key (fc_clients two_providers ! 0)) = Some 66
     \<and> fc_cooldowns fc (client_key (fc_clients two_providers ! 1)) = None"
proof -
  obtain res fc w' where run: "failover_generate (\<lambda>i. (5, 6)) (two_providers, 0) = (res, fc, w')"
    by (cases "failover_generate (\<lambda>i. (5, 6)) (two_providers, 0)") auto
  have "distinct (map client_key (fc_clients two_providers))" by (simp add: two_providers_def client_key_def)
  moreover have "ask_in_order (available (\<lambda>i. (5, 6)) (fc_cooldowns two_providers)
      (zip [0..<length (fc_clients two_providers)] (fc_clients two_providers))) 0 = ([(0, ErrHttp 429 ''slow down'')], Some (1, 1), 11)"
    by (simp add: two_providers_def available_def rests_def eval_nat_numeral)
  moreover have "cooldown_for_error (fc_cooldown two_providers) (ErrHttp 429 ''slow down'') = 60"
    by (simp add: cooldown_for_error_def is_rate_limit_error_def two_providers_def)
  ultimately show ?thesis using failover_refines [OF run] run by simp
qed

text \<open>
  A call whose context is done is not told from a failing provider: every provider that was asked rests, and the
  next call of anyone, within a third of the cooldown, finds none.
\<close>

definition cancelled_providers :: "(nat, nat) failover_client" where
  "cancelled_providers = \<lparr>fc_clients = [\<lparr>lc_provider = ''a'', lc_model = ''m'', lc_call = (\<lambda>w. (Inl ErrContextDone, w))\<rparr>,
     \<lparr>lc_provider = ''b'', lc_model = ''m'', lc_call = (\<lambda>w. (Inl ErrContextDone, w))\<rparr>],
     fc_timeout = 30000000000, fc_cooldown = 60000000000, fc_cooldowns = Map.empty\<rparr>"

lemma cancelled_call_cools_all:
  "fst (failover_generate (\<lambda>i. (1000000000, 1000000000)) (snd (failover_generate (\<lambda>i. (0, 0)) (cancelled_providers, 0))))
     = Inl (ErrNoProvider 2)"
proof -
  have "\<not> is_rate_limit_error (Some ErrContextDone)" by code_simp
  then have cool: "cooldown_for_error 60000000000 ErrContextDone = 20000000000" by (simp add: cooldown_for_error_def)
  show ?thesis
    by (simp add: failover_generate_def cancelled_providers_def is_cooled_down_def mark_cooldown_def client_key_def cool)
qed

text \<open>The jitter comes after the cap: a wait may be a fifth longer than the cap, never more.\<close>

lemma backoff_within:
  assumes "0 \<le> rnd" "rnd < 1" "0 \<le> lrp_cap p" "0 < failed" "0 \<le> lrp_initial p" "0 \<le> lrp_factor p"
  shows "0 \<le> backoff rnd p failed" "5 * backoff rnd p failed \<le> 6 * lrp_cap p"
proof -
  define capped where "capped = min (of_int (lrp_initial p) * lrp_factor p ^ nat (failed - 1)) (of_int (lrp_cap p) :: rat)"
  have c: "0 \<le> capped" "capped \<le> of_int (lrp_cap p)" using assms by (simp_all add: capped_def)
  define f where "f = 1 - retry_jitter / 2 + retry_jitter * rnd"
  have f: "0 \<le> f" "f \<le> 6 / 5" using assms(1,2) by (simp_all add: f_def retry_jitter_def)
  have eq: "backoff rnd p failed = go_trunc (capped * f)"
    using assms(4) by (simp add: backoff_def capped_def f_def Let_def min_def)
  have pos: "0 \<le> capped * f" using c(1) f(1) by simp
  have "capped * f \<le> of_int (lrp_cap p) * (6 / 5)" using c f by (intro mult_mono) auto
  moreover have "of_int (go_trunc (capped * f)) \<le> capped * f" "0 \<le> go_trunc (capped * f)"
    using pos by (simp_all add: go_trunc_def)
  ultimately have "of_int (5 * backoff rnd p failed) \<le> (of_int (6 * lrp_cap p) :: rat)" "0 \<le> backoff rnd p failed"
    by (simp_all add: eq)
  then show "0 \<le> backoff rnd p failed" "5 * backoff rnd p failed \<le> 6 * lrp_cap p" by linarith+
qed

end
