(* ===== verification/Spec2Isabelle.thy ===== *)
theory Spec2Isabelle
  imports
    Go_Prelude Interfaces
    Task_State Task_Scheduler Checkpoint_Schema Task_Fabric Task_Quantum
    Task_Fabric_Inv Task_Fabric_Sweep Task_Fabric_Log Task_Fabric_Props
    Session_Lease
    Agent_Fabric Agent_Context Agent_Fabric_Props
    Kernel_Load Kernel_Scheduler Kernel_Props
    Graph_Search Workflow_Dag Mutable_Dag Workflow_Inv Workflow_Order Workflow_Edits
    Workflow_Mutations Workflow_Props Workflow_Theorems
    Go_Channel Event_Store Event_Store_Inv Event_Store_Props
    Event_Summary Event_Compaction Event_Archive Event_Archive_Props Fabric_Event_Log
    Rate_Limit Rate_Limit_Props Ahp_Queue Ahp_Protocol Ahp_Props
    Recovery Recovery_Props Agent_Syscall Agent_Syscall_Props Agent_Ipc Agent_Ipc_Props
    Node_Scheduler Node_Scheduler_Props Runtime_Patch Runtime_Graph Recovery_Patch Patch_Props Patch_Differ Patch_Diff_Props
    Evolution_Props Deployment_Props System_Runtime_Props Llm_Props
begin

text \<open>
  A model of the agent runtime kernel of GoAgentX and of the workflow graphs it executes, and the
  theorems that make them correct.

  \<^bold>\<open>The program.\<close> Work is a \<^emph>\<open>task\<close> in the Task Fabric (\<open>internal/taskfabric\<close>): durable intent with a
  lifecycle (READY, LEASED, RUNNING, SUSPENDED, COMPLETED, FAILED), a lease with an expiry and a
  fencing token, a checkpoint, dependencies and a retry budget. Workers are \<^emph>\<open>agents\<close> in the Agent
  Fabric (\<open>internal/agentfabric\<close>): a process tree with resource quotas, token and tool budgets, private
  and task contexts, and death snapshots from which a killed agent is revived. The \<^emph>\<open>kernel
  scheduler\<close> (\<open>internal/kernelscheduler\<close>) drains the runnable tasks: it builds a candidate pool
  from registered executors and idle agents, lets the Task Fabric pick and lease, runs one
  quantum of the winner, records the outcome in its load tracker and books the budget. Long lived
  conversations are held by \<^emph>\<open>session leases\<close> (\<open>internal/agents/lease\<close>). A \<^emph>\<open>workflow\<close>
  (\<open>internal/workflow/engine\<close>) is a graph of steps built from a definition, edited while it runs
  and executed in topological order; every edit is published to its subscribers. What happens is
  written to the \<^emph>\<open>event store\<close> (\<open>internal/ares_events\<close>): append-only streams with optimistic
  concurrency, subscribers, summaries of old events, trimming, and an archive of finished rounds.
  When an agent dies, \<^emph>\<open>recovery\<close> (\<open>internal/aresrecovery\<close>) requeues its tasks, resumes them under
  replacements and restarts agents within a budget; new agents and tasks come from the \<^emph>\<open>system calls\<close>
  (\<open>internal/agentsyscall\<close>) that language models reach as tools. Agents talk over the \<^emph>\<open>agent
  protocol\<close> (\<open>internal/ares_protocol/ahp\<close>: queues, dead letters, heartbeats), the peer registry
  (\<open>internal/agents/peer\<close>) and an in-process bus (\<open>internal/agentipc\<close>), and calls are throttled by \<^emph>\<open>rate
  limiters\<close> (\<open>internal/ares_ratelimit\<close>). A running system is changed by \<^emph>\<open>patches\<close> (\<open>internal/evolution/patch\<close>):
  a differ finds them (\<open>internal/evolution/diff\<close>), executors apply and undo them (on graphs of
  \<open>internal/workflow/graph\<close> and on recovery strategies), a coordinator decides on proposals
  (\<open>internal/evolution/coordinator\<close>) and a deployment pipeline lets through what the evidence
  (\<open>internal/evidence\<close>) supports. The \<^emph>\<open>system runtime\<close> (\<open>internal/system_runtime\<close>) starts and stops the components
  of the process in the order of their dependencies, and the \<^emph>\<open>language model client\<close> (\<open>internal/llm\<close>) retries,
  breaks its circuit and fails over between providers.

  \<^bold>\<open>Theories and code.\<close>
  \<^item> \<open>Go_Prelude\<close>: Go values, maps, clocks, strings (\<open>strings.TrimSpace\<close>, \<open>Split\<close>, \<open>HasPrefix\<close>),
    outcomes of operations that may fail. \<open>Interfaces\<close>: the contracts as locales.
  \<^item> \<open>Task_State\<close>: \<open>state.go\<close>, \<open>lease.go\<close>, \<open>task.go\<close>, \<open>events.go\<close>. \<open>Task_Scheduler\<close>: \<open>scheduler.go\<close>
    (\<open>Score\<close>, \<open>Pick\<close>). \<open>Checkpoint_Schema\<close>: \<open>checkpoint_schema.go\<close>. \<open>Task_Fabric\<close>: \<open>fabric.go\<close> and
    \<open>dag.go\<close>, one definition per method. \<open>Task_Quantum\<close>: \<open>quantum.go\<close>.
  \<^item> \<open>Session_Lease\<close>: \<open>lease.go\<close> of \<open>internal/agents/lease\<close>, with its lemmas.
  \<^item> \<open>Agent_Fabric\<close>: \<open>fabric.go\<close>, \<open>agent.go\<close>, \<open>lifecycle.go\<close>, \<open>resource.go\<close>, \<open>governance.go\<close>,
    \<open>snapshot.go\<close>. \<open>Agent_Context\<close>: \<open>context.go\<close>, \<open>executor.go\<close>.
  \<^item> \<open>Kernel_Load\<close>: \<open>load_tracker.go\<close>. \<open>Kernel_Scheduler\<close>: \<open>executor_registry.go\<close>,
    \<open>fabric_executor.go\<close>, and \<open>scheduler.go\<close> from candidates through the quantum to the bookkeeping.
  \<^item> \<open>Workflow_Dag\<close>: the \<open>DAG\<close> of \<open>types.go\<close> and the hub of \<open>graph_events.go\<close>. \<open>Mutable_Dag\<close>:
    \<open>mutable_dag.go\<close>, one definition per method. \<open>Graph_Search\<close>: the searches both use (two depth
    first searches for a cycle, one breadth first search for a path), with their correctness.
  \<^item> \<open>Go_Channel\<close>: buffered channels. \<open>Event_Store\<close>: \<open>types.go\<close>, \<open>memory_store.go\<close>, \<open>store.go\<close>, the
    in-memory part of \<open>trim_store.go\<close>. \<open>Event_Summary\<close>: \<open>summary.go\<close>, \<open>memory_summary_repo.go\<close>.
    \<open>Event_Compaction\<close>: \<open>compactor.go\<close>. \<open>Event_Archive\<close>: \<open>compactable_store.go\<close>, \<open>archive_hook.go\<close>.
    \<open>Fabric_Event_Log\<close>: the durable writes of the Task Fabric on this store.
  \<^item> \<open>Rate_Limit\<close>: token bucket, sliding window, semaphores, weights, the limiter group.
  \<^item> \<open>Ahp_Queue\<close>: \<open>queue.go\<close>. \<open>Ahp_Protocol\<close>: \<open>message.go\<close>, \<open>dlq.go\<close>, \<open>heartbeat.go\<close>, \<open>protocol.go\<close>, and
    \<open>registry.go\<close> of \<open>internal/agents/peer\<close>.
  \<^item> \<open>Recovery\<close>: \<open>recovery.go\<close>, \<open>evolution_spawner.go\<close>, \<open>evolution_population.go\<close>, \<open>evolution_quota.go\<close>,
    \<open>chaos.go\<close>, \<open>sandbox.go\<close>. \<open>Agent_Syscall\<close>: \<open>syscall.go\<close>, with \<open>internal/kernelctx\<close>.
  \<^item> \<open>Agent_Ipc\<close>: \<open>bus.go\<close>, \<open>primitives.go\<close> and \<open>policy.go\<close> of \<open>internal/agentipc\<close>.
  \<^item> \<open>Node_Scheduler\<close>: \<open>scheduler.go\<close> of \<open>internal/workflow/graph\<close>. \<open>Runtime_Patch\<close>: \<open>patch.go\<close>.
    \<open>Runtime_Graph\<close>: \<open>graph.go\<close>, \<open>patcher.go\<close>. \<open>Recovery_Patch\<close>: \<open>recovery_patcher.go\<close>. \<open>Patch_Differ\<close>:
    \<open>internal/evolution/diff\<close>.
  \<^item> \<open>Evolution_Coordinator\<close>: \<open>coordinator.go\<close>. \<open>Evidence_Store\<close>: \<open>evidence.go\<close>, \<open>collector.go\<close>. \<open>Deployment\<close>:
    \<open>deployment.go\<close> and \<open>deployment_wiring.go\<close> of the bootstrap.
  \<^item> \<open>System_Runtime\<close>: \<open>registry.go\<close>, \<open>orchestrator.go\<close>, \<open>state.go\<close>, \<open>component.go\<close>, \<open>snapshot.go\<close> and
    \<open>system_runtime_wiring.go\<close> of the bootstrap. \<open>Llm_Resilience\<close>: \<open>resilience.go\<close>, \<open>failover.go\<close> and the errors of
    \<open>client.go\<close>.

  \<^bold>\<open>State.\<close> Every component is a record (\<open>fabric\<close>, \<open>agent_fabric\<close>, \<open>lease_manager\<close>, \<open>load_tracker\<close>,
  \<open>kernel\<close>, \<open>mdag\<close>, \<open>event_store\<close>, \<open>summary_repo\<close>, \<open>compactable\<close>, \<open>token_bucket\<close>, \<open>msg_queue\<close>, \<open>protocol\<close>,
  \<open>recovery\<close>, \<open>syscall_kernel\<close>, \<open>coordinator\<close>, \<open>deployment_pipeline\<close>, \<open>sys_registry\<close>, \<open>orchestrator\<close>, \<open>breaker\<close>,
  \<open>failover_client\<close>) whose fields are the fields of the Go struct; a method that holds the component's mutex
  from start to end is one function from the state to its result and the next state. Mutexes
  themselves disappear. The injected clock is a field. An in-memory log and the writes handed to
  an event store or sink are lists. A \<open>range\<close> over a Go map visits keys in an order that is an
  argument, so a theorem about it holds for every order.

  \<^bold>\<open>Concurrency.\<close> Each component has a datatype of its calls and a function that executes one. What
  a call does under the component's mutex is one step, and the order of these steps is a list of
  calls; the invariants are proved for every list. Where a method works outside its lock the parts
  are steps of their own: the durable writes of the Task Fabric, which follow the locked part of a call
  and interleave with other calls (\<open>fly_step\<close>), requests on the bus with the handlers that answer
  them (\<open>Agent_Ipc\<close>), the rounds of the coordinator, which decide and record in separate
  critical sections (\<open>coord_step\<close>), and a shutdown beside a start (\<open>sys_step\<close>). \<open>Schedule\<close> and \<open>Kill\<close>
  release their lock between reading and acting in the code; they are one step here. An agent's step
  inside a quantum is a function of the fabric, so it may perform any other calls (the heartbeat's
  renewals, preemption by another drain, an expiry sweep) before it returns; the theorems about a
  quantum say what they need of those calls.

  \<^bold>\<open>What the lemmas show.\<close>
  \<^item> \<open>Task_Fabric_Inv\<close>: well-formedness of the fabric and the fencing contract: \<open>fabric_fence\<close> and
    \<open>task_exclusive\<close> are the contracts \<open>fenced_store\<close> and \<open>exclusive_holder\<close> on the model.
  \<^item> \<open>Task_Fabric_Sweep\<close>: what one expiry sweep does to every task, whatever the order of the map.
    \<open>Task_Fabric_Log\<close>: the documented lifecycle as a table of its own (\<open>documented_moves\<close>) and the moves of
    each call (\<open>call_moves\<close>), replay of the event log, and the durable log. \<open>Task_Fabric_Props\<close>: the properties of the Task Fabric.
  \<^item> \<open>Agent_Fabric_Props\<close>: resource accounting (\<open>agent_accounts\<close>), budgets (\<open>agent_budgets\<close>), death
    and revival, finality of retirement. \<open>Agent_Context\<close>: decoding of cognitive states.
  \<^item> \<open>Kernel_Load\<close>: counters and confidence (\<open>tracker_inv\<close>). \<open>Kernel_Props\<close>: candidate pools,
    preemption, balance of busy slots, survival of the submission metadata across a yield, budget
    denial, attribution (\<open>executors\<close> is the contract \<open>registry\<close>).
  \<^item> \<open>Workflow_Inv\<close>: edges, counters and well-formedness of graphs. \<open>Workflow_Order\<close>: Kahn's
    algorithm. \<open>Workflow_Edits\<close>, \<open>Workflow_Mutations\<close>: what each edit does to edges and counters.
    \<open>Workflow_Props\<close>, \<open>Workflow_Theorems\<close>: the edits as calls, the invariants of every list of
    calls (\<open>live_graph\<close>, \<open>agreeing_graph\<close>), the properties of the workflow graphs.
  \<^item> \<open>Event_Store_Inv\<close>: well-formedness of the store for every list of calls (\<open>events\<close> is the
    contract \<open>invariant_system\<close>). \<open>Event_Store_Props\<close>: streams only grow (\<open>event_log\<close>), versions,
    reads. \<open>Event_Archive_Props\<close>: rounds, summaries and trimming. \<open>Fabric_Event_Log\<close>: what the
    store holds when calls and their off-lock writes interleave, when it suffices to rebuild a task, and
    a run after which it misleads (\<open>reordered_writes_mislead\<close>).
  \<^item> \<open>Rate_Limit_Props\<close>: what a bucket hands out is bounded by its burst and rate (\<open>bucket\<close> is the
    contract \<open>funded_system\<close>), the sliding window against a count over the whole history, balanced
    weights and slots. \<open>Ahp_Props\<close>: what is sent is received once and in order (\<open>queue_order\<close>, \<open>mailbox\<close>
    are the contract \<open>fifo\<close>, \<open>queue_mass\<close> is \<open>conserving\<close>), dead agents, results over the wire.
  \<^item> \<open>Recovery_Props\<close>: every task of a dead agent goes on (\<open>death_survived\<close>), restarts are bounded
    (\<open>restarts\<close> is the contract \<open>funded_system\<close>), revival in place, the sandbox's prediction.
    \<open>Agent_Syscall_Props\<close>: provenance over every run of tool calls (\<open>provenance\<close>), what the tools make.
    \<open>Agent_Ipc_Props\<close>: requests beside concurrent handlers (\<open>ipc\<close> is the contract \<open>step_system\<close>).
  \<^item> \<open>Node_Scheduler_Props\<close>: how long a node may wait. \<open>Patch_Props\<close>: what a patch changes and what
    its rollback restores. \<open>Patch_Diff_Props\<close>: the patches of a differ, applied, reach the new graph.
    \<open>Evolution_Props\<close>: rates and settled proposals (\<open>rounds\<close> is \<open>step_system\<close> again).
    \<open>Deployment_Props\<close>: what is promoted. \<open>Dependency_Order\<close>, \<open>System_Runtime_Props\<close>: the order of starting,
    statuses, and the exact sequence of calls each component gets, observed through the world the
    hooks act on (\<open>recording\<close>). \<open>Llm_Props\<close>: when the circuit opens, how often a call is tried, and failover as
    a refinement of asking the available providers in order.

  \<^bold>\<open>Bounds.\<close> The fencing token is a \<open>64 word\<close> that wraps: theorems on sequences of calls bound their
  length by \<open>epoch_budget\<close>, the number of calls before it could wrap (\<open>2^64 - 1\<close> on a fresh
  fabric). Other Go integers are \<open>int\<close>, and \<open>float64\<close> is \<open>rat\<close>: rounding is not modelled. The
  graph searches and the execution order recurse with fuel, the number of nodes of the graph, which is
  spent only on a node not seen before; \<open>Graph_Search\<close> and \<open>Workflow_Order\<close> prove that it never runs
  out. The paging loop of the archive has the length of the stream as fuel: every full page moves the
  cursor, and \<open>Event_Archive_Props\<close> proves what the loop returns. Versions of events are
  \<open>int64\<close>: additions wrap (\<open>wrap64\<close>) and the overflow check of \<open>Append\<close> is modelled. Every other loop
  is a recursion over a list.

  \<^bold>\<open>Parameters.\<close> The event store's \<open>Append\<close> (in \<open>Fabric_Event_Log\<close> the in-memory store), the outcome
  of an archive sink, event ids and clock readings, the text of a summary, \<open>sort.Slice\<close> where it is not
  determined, the confidence source, the execution body of an
  agent (\<open>Cognition\<close>), the step of an executor, the conversion of a user profile, the declared type of
  an executor, the executor factory, the evolution policies, message ids, the handlers of dead letters,
  the wake-ups of a waiting limiter and the choice of a \<open>select\<close> between two ready events, the handlers of
  the bus, the dispatchers and deployers of the coordinator, the executors of patches, the hooks of a system component,
  the providers of language models and random numbers are arguments. A dynamic value (\<open>any\<close>) is a \<open>goval\<close>. \<open>encoding/json\<close> appears as the
  document a reader gets back.

  \<^bold>\<open>Not modelled.\<close> Tickers, subscriptions and the poll loop of the scheduler, logging, recovered
  panics, and the parallelism of one drain (its tasks run in sequence, a step may interleave
  anything). The digest of a stream and the PostgreSQL variants of the event store are not modelled;
  a background worker of the compacting store is one step that reads its pages from one state. Sharing of mutable maps between a stored checkpoint and its decoded copies appears
  only where the code writes through it (the re-wrap of a quantum). Outside the kernel: LLM
  requests and prompts, the loading and execution of workflows, the population that
  proposes patches, the older runtime manager (\<open>internal/ares_runtime\<close>), memory, knowledge, storage, tools, API and SDK packages.
\<close>

end
